(* ===== verification/Prelude.thy ===== *)
theory Prelude
  imports Main "HOL-Library.Sublist"
begin

text \<open>
  The prelude of the development: the theorem collections the component theories share,
  the names of the model's basic types, and generic facts on lists and options.

  \<^item> \<open>gostr\<close> collects the rewrite rules of the Go standard-library string operations;
  \<^item> \<open>gopath\<close> collects those of the slash-path operations;
  \<^item> \<open>model_simps\<close> collects the unfolding rules of small definitions a component wants
    its clients to see through.

  A Go \<open>string\<close> is a byte sequence and is modelled by HOL's \<open>string\<close>, a list of 8-bit
  characters; \<open>length\<close> is Go's \<open>len\<close>.  A Go pointer or list that may be \<open>nil\<close> is an
  \<open>option\<close>; where the source treats a nil list exactly as an empty one it is a list.
\<close>

named_theorems gostr
named_theorems gopath
named_theorems model_simps

type_synonym bytes = "char list"

text \<open>
  Go's \<open>for _, x := range xs\<close> with an early \<open>return err\<close>: the first error stops the loop.
  \<open>run_all\<close> threads a state through the list and stops at the first \<open>Inl\<close>.
\<close>

fun run_all :: "('s \<Rightarrow> 'a \<Rightarrow> 'e + 's) \<Rightarrow> 's \<Rightarrow> 'a list \<Rightarrow> 'e + 's" where
  "run_all f s [] = Inr s"
| "run_all f s (x # xs) = (case f s x of Inl e \<Rightarrow> Inl e | Inr s' \<Rightarrow> run_all f s' xs)"

lemma run_all_append:
  "run_all f s (xs @ ys) = (case run_all f s xs of Inl e \<Rightarrow> Inl e | Inr s' \<Rightarrow> run_all f s' ys)"
  by (induction xs arbitrary: s) (auto split: sum.splits)

lemma run_all_invariant:
  assumes "run_all f s xs = Inr s'" and "P s"
    and "\<And>s x s'. x \<in> set xs \<Longrightarrow> P s \<Longrightarrow> f s x = Inr s' \<Longrightarrow> P s'"
  shows "P s'"
  using assms
proof (induction xs arbitrary: s)
  case Nil
  then show ?case by simp
next
  case (Cons x xs)
  then obtain t where t: "f s x = Inr t" and rest: "run_all f t xs = Inr s'"
    by (auto split: sum.splits)
  have "P t" using Cons.prems(2,3) t by (metis list.set_intros(1))
  with rest Cons.IH [of t] Cons.prems(3) show ?case by (metis list.set_intros(2))
qed

text \<open>First element with a defined image: Go's \<open>Range\<close> loops that stop at the first hit.\<close>

fun first_some :: "('a \<Rightarrow> 'b option) \<Rightarrow> 'a list \<Rightarrow> 'b option" where
  "first_some f [] = None"
| "first_some f (x # xs) = (case f x of None \<Rightarrow> first_some f xs | Some y \<Rightarrow> Some y)"

lemma first_some_None_iff: "first_some f xs = None \<longleftrightarrow> (\<forall>x\<in>set xs. f x = None)"
  by (induction xs) (auto split: option.splits)

lemma first_some_SomeD:
  "first_some f xs = Some y \<Longrightarrow>
    \<exists>as x bs. xs = as @ x # bs \<and> f x = Some y \<and> (\<forall>a\<in>set as. f a = None)"
proof (induction xs)
  case Nil
  then show ?case by simp
next
  case (Cons x xs)
  show ?case
  proof (cases "f x")
    case None
    with Cons obtain as z bs where "xs = as @ z # bs" "f z = Some y" "\<forall>a\<in>set as. f a = None"
      by auto
    with None have "x # xs = (x # as) @ z # bs \<and> f z = Some y \<and> (\<forall>a\<in>set (x # as). f a = None)"
      by simp
    then show ?thesis by blast
  next
    case (Some z)
    with Cons.prems show ?thesis by (auto intro!: exI [of _ "[]"])
  qed
qed

lemma first_some_append:
  "first_some f (xs @ ys) = (case first_some f xs of None \<Rightarrow> first_some f ys | Some y \<Rightarrow> Some y)"
  by (induction xs) (auto split: option.splits)

lemma first_some_cong [fundef_cong]:
  "xs = ys \<Longrightarrow> (\<And>x. x \<in> set ys \<Longrightarrow> f x = g x) \<Longrightarrow> first_some f xs = first_some g ys"
  by (induction ys arbitrary: xs) (auto split: option.splits)

text \<open>Keep the first occurrence of every element: \<open>DistinctBy\<close>/\<open>UniqBy\<close> of the list library.\<close>

fun distinct_by :: "('a \<Rightarrow> 'k) \<Rightarrow> 'a list \<Rightarrow> 'a list" where
  "distinct_by k [] = []"
| "distinct_by k (x # xs) = x # distinct_by k (filter (\<lambda>y. k y \<noteq> k x) xs)"

lemma set_distinct_by_subset: "set (distinct_by k xs) \<subseteq> set xs"
proof (induction "length xs" arbitrary: xs rule: less_induct)
  case less
  show ?case
  proof (cases xs)
    case (Cons x ys)
    have "length (filter (\<lambda>y. k y \<noteq> k x) ys) < length xs"
      using Cons by (simp add: le_imp_less_Suc)
    from less [OF this] Cons show ?thesis by auto
  qed simp
qed

lemma image_set_distinct_by: "k ` set (distinct_by k xs) = k ` set xs"
proof (induction "length xs" arbitrary: xs rule: less_induct)
  case less
  show ?case
  proof (cases xs)
    case (Cons x ys)
    have "length (filter (\<lambda>y. k y \<noteq> k x) ys) < length xs"
      using Cons by (simp add: le_imp_less_Suc)
    from less [OF this] Cons show ?thesis by auto
  qed simp
qed

lemma distinct_map_distinct_by: "distinct (map k (distinct_by k xs))"
proof (induction "length xs" arbitrary: xs rule: less_induct)
  case less
  show ?case
  proof (cases xs)
    case (Cons x ys)
    have len: "length (filter (\<lambda>y. k y \<noteq> k x) ys) < length xs"
      using Cons by (simp add: le_imp_less_Suc)
    have "k x \<notin> k ` set (distinct_by k (filter (\<lambda>y. k y \<noteq> k x) ys))"
      unfolding image_set_distinct_by by auto
    with less [OF len] Cons show ?thesis by simp
  qed simp
qed

lemma set_distinct_by_id: "set (distinct_by (\<lambda>x. x) xs) = set xs"
  using image_set_distinct_by [of "\<lambda>x. x" xs] by simp

lemma distinct_distinct_by_id: "distinct (distinct_by (\<lambda>x. x) xs)"
  using distinct_map_distinct_by [of "\<lambda>x. x" xs] by simp

lemma distinct_by_id_distinct: "distinct xs \<Longrightarrow> distinct_by (\<lambda>x. x) xs = xs"
proof (induction xs)
  case (Cons x xs)
  then have "filter (\<lambda>y. y \<noteq> x) xs = xs" by (auto simp: filter_id_conv)
  with Cons show ?case by simp
qed simp

lemma sorted_wrt_mono_on:
  "sorted_wrt P xs \<Longrightarrow> distinct xs \<Longrightarrow>
    (\<And>x y. x \<in> set xs \<Longrightarrow> y \<in> set xs \<Longrightarrow> x \<noteq> y \<Longrightarrow> P x y \<Longrightarrow> Q x y) \<Longrightarrow> sorted_wrt Q xs"
  by (induction xs) auto

lemma distinct_mapI: "distinct (map f xs) \<Longrightarrow> distinct xs"
  by (simp add: distinct_map)

end
