(* ===== verification/GoStrings.thy ===== *)
theory GoStrings
  imports Prelude
begin

text \<open>
  The operations of Go's \<open>strings\<close>, \<open>strconv\<close> and \<open>net/url\<close> packages that the program
  uses, on byte strings.

  \<open>strings.TrimSpace\<close> removes Unicode white space: \<open>space_seqs\<close> lists the UTF-8 encodings
  of all the runes for which \<open>unicode.IsSpace\<close> holds.  Case mapping (\<open>ToLower\<close>,
  \<open>ToUpper\<close>, \<open>EqualFold\<close>) is modelled on ASCII letters and leaves every other byte as it
  is; for strings of ASCII bytes, which all the program's own names are, it is exact.
\<close>

section \<open>Trimming\<close>

definition space_seqs :: "string list" where
  "space_seqs =
    [[CHR 0x20], [CHR 0x09], [CHR 0x0A], [CHR 0x0B], [CHR 0x0C], [CHR 0x0D],
     [CHR 0xC2, CHR 0x85], [CHR 0xC2, CHR 0xA0], [CHR 0xE1, CHR 0x9A, CHR 0x80],
     [CHR 0xE2, CHR 0x80, CHR 0x80], [CHR 0xE2, CHR 0x80, CHR 0x81],
     [CHR 0xE2, CHR 0x80, CHR 0x82], [CHR 0xE2, CHR 0x80, CHR 0x83],
     [CHR 0xE2, CHR 0x80, CHR 0x84], [CHR 0xE2, CHR 0x80, CHR 0x85],
     [CHR 0xE2, CHR 0x80, CHR 0x86], [CHR 0xE2, CHR 0x80, CHR 0x87],
     [CHR 0xE2, CHR 0x80, CHR 0x88], [CHR 0xE2, CHR 0x80, CHR 0x89],
     [CHR 0xE2, CHR 0x80, CHR 0x8A], [CHR 0xE2, CHR 0x80, CHR 0xA8],
     [CHR 0xE2, CHR 0x80, CHR 0xA9], [CHR 0xE2, CHR 0x80, CHR 0xAF],
     [CHR 0xE2, CHR 0x81, CHR 0x9F], [CHR 0xE3, CHR 0x80, CHR 0x80]]"

fun strip_first :: "string list \<Rightarrow> string \<Rightarrow> string option" where
  "strip_first [] s = None"
| "strip_first (p # ps) s =
     (if p \<noteq> [] \<and> take (length p) s = p then Some (drop (length p) s) else strip_first ps s)"

lemma strip_first_shorter: "strip_first ps s = Some r \<Longrightarrow> length r < length s"
proof (induction ps)
  case (Cons p ps)
  show ?case
  proof (cases "p \<noteq> [] \<and> take (length p) s = p")
    case True
    then have "s \<noteq> []" by auto
    with True Cons.prems show ?thesis by auto
  next
    case False
    with Cons show ?thesis by auto
  qed
qed simp

function trim_with :: "string list \<Rightarrow> string \<Rightarrow> string" where
  "trim_with ps s = (case strip_first ps s of None \<Rightarrow> s | Some r \<Rightarrow> trim_with ps r)"
  by pat_completeness auto
termination
  by (relation "measure (\<lambda>(ps, s). length s)") (auto dest: strip_first_shorter)

declare trim_with.simps [simp del]

definition trim_left_space :: "string \<Rightarrow> string" where
  "trim_left_space s = trim_with space_seqs s"

definition trim_right_space :: "string \<Rightarrow> string" where
  "trim_right_space s = rev (trim_with (map rev space_seqs) (rev s))"

definition trim_space :: "string \<Rightarrow> string" where
  "trim_space s = trim_right_space (trim_left_space s)"

definition is_trimmed :: "string \<Rightarrow> bool" where
  "is_trimmed s \<longleftrightarrow>
     strip_first space_seqs s = None \<and> strip_first (map rev space_seqs) (rev s) = None"

lemma trim_with_None: "strip_first ps (trim_with ps s) = None"
proof (induction ps s rule: trim_with.induct)
  case (1 ps s)
  then show ?case
    by (cases "strip_first ps s") (simp_all add: trim_with.simps [of ps s])
qed

lemma trim_with_id: "strip_first ps s = None \<Longrightarrow> trim_with ps s = s"
  by (simp add: trim_with.simps [of ps s])

lemma strip_first_suffix: "strip_first ps s = Some r \<Longrightarrow> suffix r s"
  by (induction ps) (auto simp: suffix_drop split: if_splits)

lemma trim_with_suffix: "suffix (trim_with ps s) s"
proof (induction ps s rule: trim_with.induct)
  case (1 ps s)
  show ?case
  proof (cases "strip_first ps s")
    case None
    then show ?thesis by (simp add: trim_with_id)
  next
    case (Some r)
    with 1 have "suffix (trim_with ps r) r" by simp
    with strip_first_suffix [OF Some] Some show ?thesis
      by (auto simp: trim_with.simps [of ps s] intro: suffix_order.trans)
  qed
qed

lemma strip_first_None_prefix:
  "strip_first ps s = None \<Longrightarrow> prefix t s \<Longrightarrow> strip_first ps t = None"
proof (induction ps)
  case (Cons p ps)
  have "take (length p) t = p \<Longrightarrow> take (length p) s = p"
    using Cons.prems(2) by (auto simp: prefix_def) (metis take_all_iff nle_le)
  with Cons show ?case by (auto split: if_splits)
qed simp

lemma trim_right_space_prefix: "prefix (trim_right_space s) s"
  using trim_with_suffix [of "map rev space_seqs" "rev s"]
  by (simp add: trim_right_space_def suffix_to_prefix)

lemma trim_left_space_suffix: "suffix (trim_left_space s) s"
  by (simp add: trim_left_space_def trim_with_suffix)

lemma is_trimmed_trim_space [simp]: "is_trimmed (trim_space s)"
proof -
  have "strip_first space_seqs (trim_left_space s) = None"
    by (simp add: trim_left_space_def trim_with_None)
  then have "strip_first space_seqs (trim_space s) = None"
    unfolding trim_space_def by (rule strip_first_None_prefix) (rule trim_right_space_prefix)
  moreover have "strip_first (map rev space_seqs) (rev (trim_space s)) = None"
    by (simp add: trim_space_def trim_right_space_def trim_with_None)
  ultimately show ?thesis by (simp add: is_trimmed_def)
qed

lemma trim_space_id [simp]: "is_trimmed s \<Longrightarrow> trim_space s = s"
  by (simp add: is_trimmed_def trim_space_def trim_left_space_def trim_right_space_def trim_with_id)

lemma trim_space_idem: "trim_space (trim_space s) = trim_space s"
  by simp

lemma set_trim_space_subset: "set (trim_space s) \<subseteq> set s"
  using set_mono_prefix [OF trim_right_space_prefix [of "trim_left_space s"]]
    set_mono_suffix [OF trim_left_space_suffix [of s]]
  unfolding trim_space_def by blast

lemma trim_space_Nil [simp]: "trim_space [] = []"
  using set_trim_space_subset [of "[]"] by simp

lemma is_trimmed_Nil [simp]: "is_trimmed []"
  using is_trimmed_trim_space [of "[]"] by simp

text \<open>\<open>strings.Trim\<close>, \<open>TrimLeft\<close> and \<open>TrimRight\<close> with a one-byte cutset.\<close>

definition trim_left_char :: "char \<Rightarrow> string \<Rightarrow> string" where
  "trim_left_char c s = dropWhile (\<lambda>x. x = c) s"

definition trim_right_char :: "char \<Rightarrow> string \<Rightarrow> string" where
  "trim_right_char c s = rev (dropWhile (\<lambda>x. x = c) (rev s))"

definition trim_char :: "char \<Rightarrow> string \<Rightarrow> string" where
  "trim_char c s = trim_right_char c (trim_left_char c s)"

lemma trim_right_char_prefix: "prefix (trim_right_char c s) s"
  using suffix_dropWhile [of "\<lambda>x. x = c" "rev s"]
  by (simp add: trim_right_char_def suffix_to_prefix)

lemma trim_left_char_suffix: "suffix (trim_left_char c s) s"
  by (simp add: trim_left_char_def suffix_dropWhile)

section \<open>Prefixes, suffixes, searching\<close>

definition has_prefix :: "string \<Rightarrow> string \<Rightarrow> bool" where
  "has_prefix s p \<longleftrightarrow> take (length p) s = p"

definition has_suffix :: "string \<Rightarrow> string \<Rightarrow> bool" where
  "has_suffix s p \<longleftrightarrow> length p \<le> length s \<and> drop (length s - length p) s = p"

definition trim_prefix :: "string \<Rightarrow> string \<Rightarrow> string" where
  "trim_prefix s p = (if has_prefix s p then drop (length p) s else s)"

definition trim_suffix :: "string \<Rightarrow> string \<Rightarrow> string" where
  "trim_suffix s p = (if has_suffix s p then take (length s - length p) s else s)"

lemma has_prefix_iff [gostr]: "has_prefix s p \<longleftrightarrow> prefix p s"
  by (auto simp: has_prefix_def prefix_def) (metis append_take_drop_id)

lemma has_suffix_iff [gostr]: "has_suffix s p \<longleftrightarrow> suffix p s"
  by (auto simp: has_suffix_def suffix_def) (metis append_take_drop_id)

lemma trim_prefix_append [simp]: "trim_prefix (p @ s) p = s"
  by (simp add: trim_prefix_def has_prefix_def)

lemma trim_suffix_append [simp]: "trim_suffix (s @ p) p = s"
  by (simp add: trim_suffix_def has_suffix_def)

fun contains_sub :: "string \<Rightarrow> string \<Rightarrow> bool" where
  "contains_sub [] p = (p = [])"
| "contains_sub (x # xs) p = (has_prefix (x # xs) p \<or> contains_sub xs p)"

text \<open>\<open>LastIndexByte\<close>: the position of the last \<open>c\<close>, or -1.\<close>

fun last_index_from :: "char \<Rightarrow> string \<Rightarrow> int \<Rightarrow> int \<Rightarrow> int" where
  "last_index_from c [] i found = found"
| "last_index_from c (x # xs) i found = last_index_from c xs (i + 1) (if x = c then i else found)"

definition last_index :: "char \<Rightarrow> string \<Rightarrow> int" where
  "last_index c s = last_index_from c s 0 (-1)"

text \<open>\<open>strings.Cut\<close> at the first occurrence of a one-byte separator.\<close>

fun cut :: "char \<Rightarrow> string \<Rightarrow> string \<times> string \<times> bool" where
  "cut c [] = ([], [], False)"
| "cut c (x # xs) =
     (if x = c then ([], xs, True) else (case cut c xs of (a, b, f) \<Rightarrow> (x # a, b, f)))"

lemma cut_found_length: "cut c s = (a, b, True) \<Longrightarrow> length b < length s"
  by (induction s arbitrary: a b) (auto split: if_splits prod.splits intro: less_SucI)

lemma cut_append: "c \<notin> set a \<Longrightarrow> cut c (a @ c # b) = (a, b, True)"
  by (induction a) auto

lemma cut_notin: "c \<notin> set s \<Longrightarrow> cut c s = (s, [], False)"
  by (induction s) auto

lemma cut_found: "cut c s = (a, b, True) \<Longrightarrow> s = a @ c # b \<and> c \<notin> set a"
  by (induction s arbitrary: a b) (auto split: if_splits prod.splits)

lemma cut_not_found: "cut c s = (a, b, False) \<Longrightarrow> a = s \<and> b = [] \<and> c \<notin> set s"
  by (induction s arbitrary: a b) (auto split: if_splits prod.splits)

section \<open>Splitting and joining\<close>

fun split_on :: "char \<Rightarrow> string \<Rightarrow> string list" where
  "split_on c [] = [[]]"
| "split_on c (x # xs) =
     (if x = c then [] # split_on c xs
      else (case split_on c xs of [] \<Rightarrow> [[x]] | y # ys \<Rightarrow> (x # y) # ys))"

fun join_with :: "string \<Rightarrow> string list \<Rightarrow> string" where
  "join_with sep [] = []"
| "join_with sep [x] = x"
| "join_with sep (x # y # xs) = x @ sep @ join_with sep (y # xs)"

lemma split_on_ne [simp]: "split_on c s \<noteq> []"
  by (induction s) (auto split: list.splits)

lemma join_split [simp]: "join_with [c] (split_on c s) = s"
proof (induction s)
  case (Cons x xs)
  obtain y ys where ys: "split_on c xs = y # ys"
    by (cases "split_on c xs") auto
  show ?case using Cons ys by (cases ys) auto
qed simp

lemma split_on_no_sep: "seg \<in> set (split_on c s) \<Longrightarrow> c \<notin> set seg"
proof (induction s arbitrary: seg)
  case (Cons x xs)
  obtain y ys where "split_on c xs = y # ys"
    by (cases "split_on c xs") auto
  with Cons show ?case by (auto split: if_splits)
qed simp

lemma split_on_notin: "c \<notin> set s \<Longrightarrow> split_on c s = [s]"
  by (induction s) auto

lemma split_on_append: "c \<notin> set a \<Longrightarrow> split_on c (a @ c # b) = a # split_on c b"
  by (induction a) auto

lemma split_join:
  "xs \<noteq> [] \<Longrightarrow> \<forall>x\<in>set xs. c \<notin> set x \<Longrightarrow> split_on c (join_with [c] xs) = xs"
proof (induction "[c]" xs rule: join_with.induct)
  case (2 x)
  then show ?case by (simp add: split_on_notin)
next
  case (3 x y xs)
  then show ?case by (simp add: split_on_append)
qed simp

lemma set_join_with: "set (join_with sep xs) \<subseteq> set sep \<union> (\<Union>x\<in>set xs. set x)"
  by (induction sep xs rule: join_with.induct) auto

lemma split_on_subset: "seg \<in> set (split_on c s) \<Longrightarrow> set seg \<subseteq> set s"
proof (induction s arbitrary: seg)
  case (Cons x xs)
  obtain y ys where y: "split_on c xs = y # ys"
    by (cases "split_on c xs") auto
  have "seg = [] \<or> seg = x # y \<or> seg \<in> set (split_on c xs)"
    using Cons.prems y by (auto split: if_splits)
  then show ?case using Cons.IH [of y] Cons.IH [of seg] y by auto
qed simp

lemma join_with_Nil_iff: "xs \<noteq> [] \<Longrightarrow> [] \<notin> set xs \<Longrightarrow> join_with sep xs \<noteq> []"
  by (induction sep xs rule: join_with.induct) auto

lemma hd_join_with:
  "xs \<noteq> [] \<Longrightarrow> hd xs \<noteq> [] \<Longrightarrow> hd (join_with sep xs) = hd (hd xs)"
  by (induction sep xs rule: join_with.induct) auto

text \<open>\<open>strings.ReplaceAll\<close> of one byte by another.\<close>

definition replace_char :: "char \<Rightarrow> char \<Rightarrow> string \<Rightarrow> string" where
  "replace_char a b s = map (\<lambda>x. if x = a then b else x) s"

lemma replace_char_notin: "a \<noteq> b \<Longrightarrow> a \<notin> set (replace_char a b s)"
  by (auto simp: replace_char_def)

lemma replace_char_id: "a \<notin> set s \<Longrightarrow> replace_char a b s = s"
  by (auto simp: replace_char_def intro!: map_idI)

section \<open>Case mapping (ASCII)\<close>

definition lower_char :: "char \<Rightarrow> char" where
  "lower_char c = (let n = (of_char c :: nat) in if 65 \<le> n \<and> n \<le> 90 then char_of (n + 32) else c)"

definition upper_char :: "char \<Rightarrow> char" where
  "upper_char c = (let n = (of_char c :: nat) in if 97 \<le> n \<and> n \<le> 122 then char_of (n - 32) else c)"

definition to_lower :: "string \<Rightarrow> string" where
  "to_lower s = map lower_char s"

definition to_upper :: "string \<Rightarrow> string" where
  "to_upper s = map upper_char s"

definition equal_fold :: "string \<Rightarrow> string \<Rightarrow> bool" where
  "equal_fold a b \<longleftrightarrow> to_lower a = to_lower b"

lemma lower_char_idem: "lower_char (lower_char c) = lower_char c"
  by (auto simp: lower_char_def Let_def)

lemma to_lower_idem [simp]: "to_lower (to_lower s) = to_lower s"
  by (simp add: to_lower_def lower_char_idem)

lemma to_lower_Nil [simp]: "to_lower [] = []" "to_lower s = [] \<longleftrightarrow> s = []"
  by (simp_all add: to_lower_def)

text \<open>White space is not affected by case mapping, so trimming and lowering commute.\<close>

definition case_free :: "char \<Rightarrow> bool" where
  "case_free x \<longleftrightarrow> (let n = (of_char x :: nat) in \<not> (65 \<le> n \<and> n \<le> 90) \<and> \<not> (97 \<le> n \<and> n \<le> 122))"

lemma lower_char_case_free: "case_free x \<Longrightarrow> lower_char c = x \<longleftrightarrow> c = x"
  by (auto simp: case_free_def lower_char_def Let_def)

lemma space_seqs_case_free: "\<forall>p\<in>set space_seqs. \<forall>x\<in>set p. case_free x"
proof -
  have "list_all (list_all case_free) space_seqs" by code_simp
  then show ?thesis by (simp add: list_all_iff)
qed

lemma map_lower_eq_iff: "\<forall>x\<in>set p. case_free x \<Longrightarrow> map lower_char s = p \<longleftrightarrow> s = p"
proof (induction p arbitrary: s)
  case (Cons x p)
  then show ?case
    using lower_char_case_free [of x] by (cases s) simp_all
qed simp

lemma strip_first_to_lower:
  "\<forall>p\<in>set ps. \<forall>x\<in>set p. case_free x \<Longrightarrow>
    strip_first ps (map lower_char s) = map_option (map lower_char) (strip_first ps s)"
  by (induction ps) (auto simp: take_map drop_map map_lower_eq_iff)

lemma is_trimmed_to_lower [simp]: "is_trimmed (to_lower s) \<longleftrightarrow> is_trimmed s"
proof -
  have "\<forall>p\<in>set (map rev space_seqs). \<forall>x\<in>set p. case_free x"
    using space_seqs_case_free by auto
  from strip_first_to_lower [OF this, of "rev s"] strip_first_to_lower [OF space_seqs_case_free, of s]
  show ?thesis by (simp add: is_trimmed_def to_lower_def rev_map)
qed

section \<open>URL path unescaping\<close>

definition hex_val :: "char \<Rightarrow> nat option" where
  "hex_val c =
     (let n = (of_char c :: nat)
      in if 48 \<le> n \<and> n \<le> 57 then Some (n - 48)
         else if 97 \<le> n \<and> n \<le> 102 then Some (n - 87)
         else if 65 \<le> n \<and> n \<le> 70 then Some (n - 55)
         else None)"

text \<open>\<open>url.PathUnescape\<close>: \<open>None\<close> is the escape error.\<close>

fun path_unescape :: "string \<Rightarrow> string option" where
  "path_unescape [] = Some []"
| "path_unescape (c # s) =
     (if c = CHR ''%'' then
        (case s of
           a # b # rest \<Rightarrow>
             (case (hex_val a, hex_val b) of
                (Some x, Some y) \<Rightarrow> map_option (\<lambda>r. char_of (16 * x + y) # r) (path_unescape rest)
              | _ \<Rightarrow> None)
         | _ \<Rightarrow> None)
      else map_option (\<lambda>r. c # r) (path_unescape s))"

lemma path_unescape_id: "CHR ''%'' \<notin> set s \<Longrightarrow> path_unescape s = Some s"
  by (induction s rule: path_unescape.induct) auto

section \<open>Decimal integers\<close>

fun digits_of :: "nat \<Rightarrow> string" where
  "digits_of n = (if n < 10 then [char_of (48 + n)] else digits_of (n div 10) @ [char_of (48 + n mod 10)])"

declare digits_of.simps [simp del]

definition itoa :: "int \<Rightarrow> string" where
  "itoa i = (if i < 0 then CHR ''-'' # digits_of (nat (- i)) else digits_of (nat i))"

definition digit_val :: "char \<Rightarrow> nat option" where
  "digit_val c = (let n = (of_char c :: nat) in if 48 \<le> n \<and> n \<le> 57 then Some (n - 48) else None)"

fun read_digits :: "nat \<Rightarrow> string \<Rightarrow> nat option" where
  "read_digits acc [] = Some acc"
| "read_digits acc (c # s) =
     (case digit_val c of None \<Rightarrow> None | Some d \<Rightarrow> read_digits (10 * acc + d) s)"

text \<open>\<open>strconv.ParseInt(s, 10, 64)\<close> and, on a 64-bit platform, \<open>strconv.Atoi\<close>: \<open>None\<close> is
  a syntax or a range error.\<close>

definition parse_int64 :: "string \<Rightarrow> int option" where
  "parse_int64 s =
     (case s of
        [] \<Rightarrow> None
      | c # rest \<Rightarrow>
          (let neg = (c = CHR ''-'');
               ds = (if c = CHR ''-'' \<or> c = CHR ''+'' then rest else s)
           in if ds = [] then None
              else (case read_digits 0 ds of
                      None \<Rightarrow> None
                    | Some n \<Rightarrow>
                        (if neg then (if n \<le> 2 ^ 63 then Some (- int n) else None)
                         else (if n < 2 ^ 63 then Some (int n) else None)))))"

lemma digit_val_char_of [simp]: "d < 10 \<Longrightarrow> digit_val (char_of (48 + d)) = Some d"
  by (simp add: digit_val_def Let_def)

lemma read_digits_append:
  "read_digits acc (s @ t) = (case read_digits acc s of None \<Rightarrow> None | Some n \<Rightarrow> read_digits n t)"
  by (induction s arbitrary: acc) (auto split: option.splits)

lemma read_digits_of: "read_digits 0 (digits_of n) = Some n"
proof (induction n rule: digits_of.induct)
  case (1 n)
  show ?case
  proof (cases "n < 10")
    case True
    then show ?thesis by (simp add: digits_of.simps [of n])
  next
    case False
    with 1 have IH: "read_digits 0 (digits_of (n div 10)) = Some (n div 10)" by simp
    have "read_digits (n div 10) [char_of (48 + n mod 10)] = Some n" by simp
    with IH show ?thesis
      by (simp only: digits_of.simps [of n] False if_False read_digits_append option.case)
  qed
qed

lemma digits_of_inj: "digits_of a = digits_of b \<Longrightarrow> a = b"
  by (metis option.inject read_digits_of)

lemma digits_of_chars: "c \<in> set (digits_of n) \<Longrightarrow> digit_val c \<noteq> None"
proof (induction n rule: digits_of.induct)
  case (1 n)
  then show ?case
    by (cases "n < 10") (auto simp: digits_of.simps [of n])
qed

lemma digits_of_ne [simp]: "digits_of n \<noteq> []"
  by (simp add: digits_of.simps [of n])

lemma parse_int64_itoa:
  assumes "0 \<le> i" and "i < 2 ^ 63"
  shows "parse_int64 (itoa i) = Some i"
proof -
  obtain c s where cs: "digits_of (nat i) = c # s"
    by (cases "digits_of (nat i)") auto
  with digits_of_chars [of c "nat i"] have "digit_val c \<noteq> None" by simp
  then have "c \<noteq> CHR ''-'' \<and> c \<noteq> CHR ''+''" by (auto simp: digit_val_def Let_def)
  moreover have "nat i < 2 ^ 63" using assms by (simp add: nat_less_iff)
  ultimately show ?thesis
    using assms read_digits_of [of "nat i"] cs by (simp add: parse_int64_def itoa_def)
qed

text \<open>Strings that begin and end with a visible ASCII character have no white space to trim.\<close>

lemma strip_first_None_hd:
  "\<forall>p\<in>set ps. p \<noteq> [] \<longrightarrow> hd p \<noteq> c \<Longrightarrow> strip_first ps (c # s) = None"
proof (induction ps)
  case (Cons p ps)
  then show ?case by (cases p) auto
qed simp

definition graphic :: "char \<Rightarrow> bool" where
  "graphic c \<longleftrightarrow> (0x21 :: nat) \<le> of_char c \<and> (of_char c :: nat) \<le> 0x7E"

lemma space_seqs_not_graphic:
  "p \<in> set space_seqs \<Longrightarrow> p \<noteq> [] \<and> \<not> graphic (hd p) \<and> \<not> graphic (last p)"
  by (auto simp: space_seqs_def graphic_def)

lemma is_trimmed_graphic:
  assumes "s \<noteq> []" and "graphic (hd s)" and "graphic (last s)"
  shows "is_trimmed s"
proof -
  have "strip_first space_seqs s = None"
    using strip_first_None_hd [of space_seqs "hd s" "tl s"] space_seqs_not_graphic assms by fastforce
  moreover have "strip_first (map rev space_seqs) (hd (rev s) # tl (rev s)) = None"
    using space_seqs_not_graphic assms by (intro strip_first_None_hd) (fastforce simp: hd_rev)
  ultimately show ?thesis using assms by (simp add: is_trimmed_def)
qed

lemma trim_space_blank: "trim_space (CHR '' '' # s) = trim_space s"
proof -
  have "strip_first space_seqs (CHR '' '' # s) = Some s" by (simp add: space_seqs_def)
  then show ?thesis
    by (simp add: trim_space_def trim_left_space_def trim_with.simps [of space_seqs "CHR '' '' # s"])
qed

lemma digits_of_graphic: "c \<in> set (digits_of n) \<Longrightarrow> graphic c \<and> c \<noteq> CHR '','' \<and> c \<noteq> CHR ''=''"
  using digits_of_chars [of c n] by (auto simp: digit_val_def graphic_def Let_def split: if_splits)

lemma itoa_graphic: "0 \<le> n \<Longrightarrow> c \<in> set (itoa n) \<Longrightarrow> graphic c \<and> c \<noteq> CHR '','' \<and> c \<noteq> CHR ''=''"
  using digits_of_graphic by (auto simp: itoa_def)

lemma itoa_ne [simp]: "itoa n \<noteq> []"
  by (simp add: itoa_def)

lemma is_trimmed_itoa: "0 \<le> n \<Longrightarrow> is_trimmed (itoa n)"
  by (rule is_trimmed_graphic) (simp_all add: itoa_graphic)

section \<open>Sorting with a comparator\<close>

text \<open>
  \<open>slices.SortFunc\<close> is insertion sort on slices of up to twelve elements: element \<open>i\<close> moves
  left while the comparator puts it strictly before its neighbour.  For longer slices Go
  uses pattern-defeating quicksort, which agrees with this function whenever the comparator
  is a strict total order on the elements, as it is at every call of the program whose
  result is stated here.  \<open>lt x y\<close> stands for \<open>cmp(x, y) < 0\<close>.
\<close>

fun sort_insert :: "('a \<Rightarrow> 'a \<Rightarrow> bool) \<Rightarrow> 'a \<Rightarrow> 'a list \<Rightarrow> 'a list" where
  \<comment> \<open>the sorted part is kept in reverse, its last element first\<close>
  "sort_insert lt x [] = [x]"
| "sort_insert lt x (y # ys) = (if lt x y then y # sort_insert lt x ys else x # y # ys)"

definition sort_func :: "('a \<Rightarrow> 'a \<Rightarrow> bool) \<Rightarrow> 'a list \<Rightarrow> 'a list" where
  "sort_func lt xs = rev (foldl (\<lambda>acc x. sort_insert lt x acc) [] xs)"

lemma set_sort_insert [simp]: "set (sort_insert lt x ys) = insert x (set ys)"
  by (induction ys) auto

lemma length_sort_insert [simp]: "length (sort_insert lt x ys) = Suc (length ys)"
  by (induction ys) auto

lemma distinct_sort_insert [simp]:
  "distinct (sort_insert lt x ys) \<longleftrightarrow> x \<notin> set ys \<and> distinct ys"
  by (induction ys) auto

lemma foldl_sort_set: "set (foldl (\<lambda>acc x. sort_insert lt x acc) a xs) = set a \<union> set xs"
  by (induction xs arbitrary: a) auto

lemma foldl_sort_length:
  "length (foldl (\<lambda>acc x. sort_insert lt x acc) a xs) = length a + length xs"
  by (induction xs arbitrary: a) auto

lemma foldl_sort_distinct:
  "distinct (foldl (\<lambda>acc x. sort_insert lt x acc) a xs) \<longleftrightarrow>
    distinct a \<and> distinct xs \<and> set a \<inter> set xs = {}"
  by (induction xs arbitrary: a) auto

lemma set_sort_func [simp]: "set (sort_func lt xs) = set xs"
  by (simp add: sort_func_def foldl_sort_set)

lemma length_sort_func [simp]: "length (sort_func lt xs) = length xs"
  by (simp add: sort_func_def foldl_sort_length)

lemma distinct_sort_func [simp]: "distinct (sort_func lt xs) \<longleftrightarrow> distinct xs"
  by (simp add: sort_func_def foldl_sort_distinct)

text \<open>With a comparator that is a strict weak order on the elements, the result is sorted: no
  later element goes before an earlier one.\<close>

definition strict_weak_on :: "'a set \<Rightarrow> ('a \<Rightarrow> 'a \<Rightarrow> bool) \<Rightarrow> bool" where
  "strict_weak_on A lt \<longleftrightarrow>
     (\<forall>a\<in>A. \<forall>b\<in>A. lt a b \<longrightarrow> \<not> lt b a) \<and>
     (\<forall>a\<in>A. \<forall>b\<in>A. \<forall>c\<in>A. \<not> lt a b \<longrightarrow> \<not> lt b c \<longrightarrow> \<not> lt a c)"

lemma strict_weak_asym: "strict_weak_on A lt \<Longrightarrow> a \<in> A \<Longrightarrow> b \<in> A \<Longrightarrow> lt a b \<Longrightarrow> \<not> lt b a"
  unfolding strict_weak_on_def by blast

lemma strict_weak_trans:
  "strict_weak_on A lt \<Longrightarrow> a \<in> A \<Longrightarrow> b \<in> A \<Longrightarrow> c \<in> A \<Longrightarrow> \<not> lt a b \<Longrightarrow> \<not> lt b c \<Longrightarrow> \<not> lt a c"
  unfolding strict_weak_on_def by metis

lemma sort_insert_sorted:
  assumes ord: "strict_weak_on A lt"
    and "insert x (set ys) \<subseteq> A" and "sorted_wrt (\<lambda>a b. \<not> lt a b) ys"
  shows "sorted_wrt (\<lambda>a b. \<not> lt a b) (sort_insert lt x ys)"
  using assms(2,3)
proof (induction ys)
  case (Cons y ys)
  have yA: "y \<in> A" "x \<in> A" and ysA: "set ys \<subseteq> A" using Cons.prems by auto
  have rest: "\<forall>z\<in>set ys. \<not> lt y z" using Cons.prems by simp
  show ?case
  proof (cases "lt x y")
    case True
    have "\<not> lt y x" using strict_weak_asym [OF ord yA(2) yA(1) True] .
    moreover have "sorted_wrt (\<lambda>a b. \<not> lt a b) (sort_insert lt x ys)"
      by (rule Cons.IH) (use Cons.prems in simp_all)
    ultimately show ?thesis using True rest by simp
  next
    case False
    have "\<forall>z\<in>set ys. \<not> lt x z"
    proof
      fix z assume "z \<in> set ys"
      with rest ysA have "z \<in> A" and "\<not> lt y z" by auto
      with strict_weak_trans [OF ord yA(2) yA(1) _ False] show "\<not> lt x z" by blast
    qed
    with False Cons.prems show ?thesis by simp
  qed
qed simp

lemma foldl_sort_sorted:
  assumes ord: "strict_weak_on A lt"
    and "set a \<union> set xs \<subseteq> A" and "sorted_wrt (\<lambda>a b. \<not> lt a b) a"
  shows "sorted_wrt (\<lambda>a b. \<not> lt a b) (foldl (\<lambda>acc x. sort_insert lt x acc) a xs)"
  using assms(2,3)
proof (induction xs arbitrary: a)
  case (Cons x xs)
  have "sorted_wrt (\<lambda>a b. \<not> lt a b) (sort_insert lt x a)"
    using Cons.prems by (intro sort_insert_sorted [OF ord]) auto
  with Cons.IH [of "sort_insert lt x a"] Cons.prems show ?case by simp
qed simp

lemma sorted_sort_func:
  assumes "strict_weak_on (set xs) lt"
  shows "sorted_wrt (\<lambda>a b. \<not> lt b a) (sort_func lt xs)"
  unfolding sort_func_def sorted_wrt_rev
  by (rule foldl_sort_sorted [OF assms]) simp_all

text \<open>A sorted list without ties is determined by its elements, so with a strict total order
  the result of the sort does not depend on the order of its input.\<close>

lemma sorted_wrt_strict_unique:
  assumes "strict_weak_on A lt" and "\<forall>a\<in>A. \<forall>b\<in>A. a \<noteq> b \<longrightarrow> lt a b \<or> lt b a"
    and "set xs = set ys" and "set xs \<subseteq> A" and "distinct xs" and "distinct ys"
    and "sorted_wrt (\<lambda>a b. \<not> lt b a) xs" and "sorted_wrt (\<lambda>a b. \<not> lt b a) ys"
  shows "xs = ys"
  using assms(3-8)
proof (induction xs arbitrary: ys)
  case (Cons x xs)
  then obtain y ys' where ys: "ys = y # ys'" by (cases ys) auto
  have "x = y"
  proof (rule ccontr)
    assume ne: "x \<noteq> y"
    with Cons.prems ys have "y \<in> set xs" and "x \<in> set ys'" by auto
    with Cons.prems ys have "\<not> lt y x" and "\<not> lt x y" by auto
    with ne assms(2) Cons.prems ys show False by auto
  qed
  moreover have "xs = ys'"
  proof (rule Cons.IH)
    show "set xs = set ys'" using Cons.prems ys \<open>x = y\<close> by auto
  qed (use Cons.prems ys in auto)
  ultimately show ?case using ys by simp
qed simp

lemma sort_func_unique:
  assumes "strict_weak_on (set xs) lt" and "\<forall>a\<in>set xs. \<forall>b\<in>set xs. a \<noteq> b \<longrightarrow> lt a b \<or> lt b a"
    and "distinct xs" and "distinct ys" and "set xs = set ys"
  shows "sort_func lt xs = sort_func lt ys"
proof (rule sorted_wrt_strict_unique [OF assms(1,2)])
  show "sorted_wrt (\<lambda>a b. \<not> lt b a) (sort_func lt xs)"
    by (rule sorted_sort_func [OF assms(1)])
  show "sorted_wrt (\<lambda>a b. \<not> lt b a) (sort_func lt ys)"
    by (rule sorted_sort_func) (use assms(1,5) in simp)
qed (use assms in simp_all)

end
