(* ===== verification/GoPath.thy ===== *)
theory GoPath
  imports GoStrings
begin

text \<open>
  Go's \<open>path\<close> package.  \<open>path.Clean\<close> walks the elements of the path with a stack of the
  elements kept so far; the stack is the list \<open>acc\<close>, its top first.  On the platforms the
  program is released for as a server, \<open>path/filepath\<close> uses the same separator and the same
  rules, and \<open>filepath.ToSlash\<close>/\<open>FromSlash\<close> are the identity.
\<close>

definition is_canonical :: "string \<Rightarrow> bool" where
  "is_canonical seg \<longleftrightarrow> seg \<noteq> [] \<and> seg \<noteq> ''.'' \<and> seg \<noteq> ''..''"

fun clean_segs :: "bool \<Rightarrow> string list \<Rightarrow> string list \<Rightarrow> string list" where
  "clean_segs rooted acc [] = rev acc"
| "clean_segs rooted acc (seg # segs) =
     (if seg = [] \<or> seg = ''.'' then clean_segs rooted acc segs
      else if seg = ''..'' then
        (if acc \<noteq> [] \<and> hd acc \<noteq> ''..'' then clean_segs rooted (tl acc) segs
         else if rooted then clean_segs rooted acc segs
         else clean_segs rooted (''..'' # acc) segs)
      else clean_segs rooted (seg # acc) segs)"

definition path_clean :: "string \<Rightarrow> string" where
  "path_clean s =
     (case s of
        [] \<Rightarrow> ''.''
      | c # _ \<Rightarrow>
          (if c = CHR ''/'' then CHR ''/'' # join_with ''/'' (clean_segs True [] (split_on CHR ''/'' s))
           else (let segs = clean_segs False [] (split_on CHR ''/'' s)
                 in if segs = [] then ''.'' else join_with ''/'' segs)))"

definition path_join :: "string list \<Rightarrow> string" where
  "path_join elems =
     (let es = filter (\<lambda>e. e \<noteq> []) elems
      in if es = [] then [] else path_clean (join_with ''/'' es))"

definition path_ext :: "string \<Rightarrow> string" where
  "path_ext s =
     (let base = rev (takeWhile (\<lambda>c. c \<noteq> CHR ''/'') (rev s));
          after = rev (takeWhile (\<lambda>c. c \<noteq> CHR ''.'') (rev base))
      in if CHR ''.'' \<in> set base then CHR ''.'' # after else [])"

definition path_base :: "string \<Rightarrow> string" where
  "path_base s =
     (if s = [] then ''.''
      else (let t = trim_right_char CHR ''/'' s;
                b = rev (takeWhile (\<lambda>c. c \<noteq> CHR ''/'') (rev t))
            in if b = [] then ''/'' else b))"

definition path_is_abs :: "string \<Rightarrow> bool" where
  "path_is_abs s \<longleftrightarrow> has_prefix s ''/''"

section \<open>Facts about path cleaning\<close>

lemma clean_segs_rooted_canonical:
  "\<forall>x\<in>set acc. is_canonical x \<Longrightarrow> x \<in> set (clean_segs True acc segs) \<Longrightarrow> is_canonical x"
  by (induction True acc segs rule: clean_segs.induct)
     (auto simp: is_canonical_def split: if_splits dest: list.set_sel(2))

lemma clean_segs_subset:
  "set (clean_segs r acc segs) \<subseteq> set acc \<union> set segs"
proof (induction r acc segs rule: clean_segs.induct)
  case (2 rooted acc seg segs)
  then show ?case by (auto dest: list.set_sel(2) split: if_splits; blast dest: list.set_sel(2))
qed simp

lemma clean_segs_canonical:
  "\<forall>x\<in>set segs. is_canonical x \<Longrightarrow> clean_segs r acc segs = rev acc @ segs"
  by (induction r acc segs rule: clean_segs.induct) (auto simp: is_canonical_def)

lemma clean_segs_skip:
  "clean_segs r acc ([] # segs) = clean_segs r acc segs"
  by simp

text \<open>In a path that is not rooted, the \<open>..\<close> elements that remain are all at the front.\<close>

definition dotdots_first :: "string list \<Rightarrow> bool" where
  "dotdots_first xs \<longleftrightarrow>
     (\<exists>n ys. xs = replicate n ''..'' @ ys \<and> (\<forall>y\<in>set ys. is_canonical y))"

lemma clean_segs_dotdots_first:
  "dotdots_first (rev acc) \<Longrightarrow> dotdots_first (clean_segs False acc segs)"
proof (induction False acc segs rule: clean_segs.induct)
  case (2 acc seg segs)
  from "2.prems" obtain n ys where acc: "rev acc = replicate n ''..'' @ ys"
      and ys: "\<forall>y\<in>set ys. is_canonical y"
    by (auto simp: dotdots_first_def)
  show ?case
  proof (cases "is_canonical seg")
    case True
    then have "dotdots_first (rev (seg # acc))"
      using acc ys by (auto simp: dotdots_first_def intro!: exI [of _ n] exI [of _ "ys @ [seg]"])
    with True 2 show ?thesis by (simp add: is_canonical_def)
  next
    case False
    show ?thesis
    proof (cases "seg = ''..''")
      case True
      show ?thesis
      proof (cases "acc \<noteq> [] \<and> hd acc \<noteq> ''..''")
        case hd: True
        have "ys \<noteq> []"
        proof
          assume "ys = []"
          then have "acc = replicate n ''..''" using acc
            by (metis append_Nil2 rev_replicate rev_rev_ident)
          with hd show False by (cases n) auto
        qed
        then have "rev (tl acc) = replicate n ''..'' @ butlast ys"
          using acc by (metis butlast_append butlast_rev rev_rev_ident)
        then have "dotdots_first (rev (tl acc))"
          using ys by (auto simp: dotdots_first_def dest: in_set_butlastD)
        with True hd 2 show ?thesis by simp
      next
        case nh: False
        have "ys = []"
        proof (rule ccontr)
          assume "ys \<noteq> []"
          then have "last (rev acc) = last ys" using acc by simp
          moreover have "is_canonical (last ys)" using ys \<open>ys \<noteq> []\<close> by simp
          moreover have "acc \<noteq> []" using acc \<open>ys \<noteq> []\<close> by auto
          ultimately show False using nh by (simp add: last_rev is_canonical_def)
        qed
        then have "rev (''..'' # acc) = replicate (Suc n) ''..''"
          using acc by (simp add: replicate_append_same)
        then have "dotdots_first (rev (''..'' # acc))"
          unfolding dotdots_first_def by (intro exI [of _ "Suc n"] exI [of _ "[]"]) simp
        with True nh 2 show ?thesis by auto
      qed
    next
      case nd: False
      with False have "seg = [] \<or> seg = ''.''" by (auto simp: is_canonical_def)
      with 2 show ?thesis by simp
    qed
  qed
qed simp

lemma path_clean_rooted [gopath]:
  "path_clean (CHR ''/'' # s) =
     CHR ''/'' # join_with ''/'' (clean_segs True [] (split_on CHR ''/'' s))"
  by (simp add: path_clean_def)

end
