(* ===== verification/RequestPath.thy ===== *)
theory RequestPath
  imports GoPath
begin

text \<open>
  \<open>internal/requestpath/cleaner.go\<close>: from the path of an HTTP request to the key of an asset.
  \<open>Clean\<close> decodes, turns backslashes into slashes, and either recognises a path that is clean
  already (\<open>fastClean\<close>) or runs \<open>path.Clean\<close> on the rooted path.
\<close>

record cleaned =
  Value :: string
  AllowsEntryFallback :: bool

definition trimLeadingSlash :: "string \<Rightarrow> string" where
  "trimLeadingSlash value = trim_prefix value ''/''"

definition decode :: "string \<Rightarrow> string" where
  "decode raw = (case path_unescape raw of None \<Rightarrow> raw | Some d \<Rightarrow> d)"

definition stripSingleLeadingSlash :: "string \<Rightarrow> string option" where
  "stripSingleLeadingSlash raw =
     (if raw = [] \<or> raw = ''/'' \<or> raw = ''.'' then None
      else if hd raw \<noteq> CHR ''/'' then Some raw
      else if length raw = 1 \<or> raw ! 1 = CHR ''/'' then None
      else Some (drop 1 raw))"

definition rejectsFastPathValue :: "string \<Rightarrow> bool" where
  "rejectsFastPathValue value \<longleftrightarrow>
     value = [] \<or> has_suffix value ''/'' \<or> CHR 0x5C \<in> set value"

definition isCanonicalSegment :: "string \<Rightarrow> bool" where
  "isCanonicalSegment segment \<longleftrightarrow> segment \<noteq> [] \<and> segment \<noteq> ''.'' \<and> segment \<noteq> ''..''"

definition hasCanonicalSegments :: "string \<Rightarrow> bool" where
  "hasCanonicalSegments value = list_all isCanonicalSegment (split_on CHR ''/'' value)"

definition canonicalValue :: "string \<Rightarrow> string option" where
  "canonicalValue raw =
     (case stripSingleLeadingSlash raw of
        None \<Rightarrow> None
      | Some value \<Rightarrow>
          (if rejectsFastPathValue value then None
           else if \<not> hasCanonicalSegments value then None
           else Some value))"

definition hasExtension :: "string \<Rightarrow> bool" where
  "hasExtension value =
     (let slash = last_index CHR ''/'' value; dot = last_index CHR ''.'' value
      in dot > slash \<and> dot \<noteq> -1 \<and> dot > 0)"

definition fastClean :: "string \<Rightarrow> cleaned option" where
  "fastClean raw =
     (case canonicalValue raw of
        None \<Rightarrow> None
      | Some value \<Rightarrow> Some \<lparr>Value = value, AllowsEntryFallback = \<not> hasExtension value\<rparr>)"

text \<open>The part of \<open>Clean\<close> after the fast path was refused.\<close>

definition slowClean :: "string \<Rightarrow> cleaned" where
  "slowClean trimmed =
     (let clean = path_clean (CHR ''/'' # trimLeadingSlash trimmed)
      in if clean = ''/'' \<or> clean = ''.'' then \<lparr>Value = [], AllowsEntryFallback = True\<rparr>
         else (let value = trim_prefix clean ''/''
               in \<lparr>Value = value,
                   AllowsEntryFallback = has_suffix trimmed ''/'' \<or> \<not> hasExtension value\<rparr>))"

text \<open>The text \<open>Clean\<close> works on once decoding and slash conversion are done.\<close>

definition normalizedRequest :: "string \<Rightarrow> string" where
  "normalizedRequest trimmed =
     (let t1 = (if CHR ''%'' \<in> set trimmed then decode trimmed else trimmed)
      in if CHR 0x5C \<in> set t1 then replace_char CHR 0x5C CHR ''/'' t1 else t1)"

definition Clean :: "string \<Rightarrow> cleaned" where
  "Clean raw =
     (let trimmed = trim_space raw
      in if trimmed = [] then \<lparr>Value = [], AllowsEntryFallback = True\<rparr>
         else (let t = normalizedRequest trimmed
               in (case fastClean t of Some c \<Rightarrow> c | None \<Rightarrow> slowClean t)))"

definition cleanMountPath :: "string \<Rightarrow> string" where
  "cleanMountPath mountPath =
     (let mount = trim_space mountPath
      in if mount = [] \<or> mount = ''/'' then ''/''
         else CHR ''/'' # trim_char CHR ''/'' (trim_right_char CHR ''/'' mount))"

definition MountPatterns :: "string \<Rightarrow> string list" where
  "MountPatterns mountPath =
     (let mount = cleanMountPath mountPath
      in if mount = ''/'' then [''/*''] else [mount, mount @ ''/*''])"

definition TrimMount :: "string \<Rightarrow> string \<Rightarrow> string" where
  "TrimMount requestPath mountPath =
     (let mount = cleanMountPath mountPath
      in if mount = ''/'' then trim_prefix requestPath ''/''
         else if requestPath = mount then []
         else (let prefix = mount @ ''/''
               in if has_prefix requestPath prefix then drop (length prefix) requestPath
                  else trim_prefix requestPath ''/''))"

definition CleanMounted :: "string \<Rightarrow> string \<Rightarrow> cleaned" where
  "CleanMounted requestPath mountPath = Clean (TrimMount requestPath mountPath)"

section \<open>What a cleaned value looks like\<close>

text \<open>
  The keys \<open>Clean\<close> may return: the empty key, or elements none of which is empty, \<open>.\<close> or
  \<open>..\<close>, joined by single slashes, without a backslash.
\<close>

definition safe_key :: "string \<Rightarrow> bool" where
  "safe_key v \<longleftrightarrow>
     CHR 0x5C \<notin> set v \<and> (v = [] \<or> list_all is_canonical (split_on CHR ''/'' v))"

lemma isCanonicalSegment_eq [model_simps]: "isCanonicalSegment = is_canonical"
  by (simp add: fun_eq_iff isCanonicalSegment_def is_canonical_def)

lemma canonicalValueD:
  assumes "canonicalValue t = Some v"
  shows "v \<noteq> []" "list_all is_canonical (split_on CHR ''/'' v)" "CHR 0x5C \<notin> set v"
    "t = v \<or> t = CHR ''/'' # v" "\<not> has_suffix v ''/''"
proof -
  from assms obtain w where w: "stripSingleLeadingSlash t = Some w" and "w = v"
      and "\<not> rejectsFastPathValue v" "hasCanonicalSegments v"
    by (auto simp: canonicalValue_def split: option.splits if_splits)
  then show "v \<noteq> []" "list_all is_canonical (split_on CHR ''/'' v)" "CHR 0x5C \<notin> set v"
      "\<not> has_suffix v ''/''"
    by (simp_all add: rejectsFastPathValue_def hasCanonicalSegments_def model_simps)
  show "t = v \<or> t = CHR ''/'' # v"
    using w \<open>w = v\<close> by (cases t) (auto simp: stripSingleLeadingSlash_def split: if_splits)
qed

lemma canonical_no_slash_hd:
  "list_all is_canonical (split_on CHR ''/'' v) \<Longrightarrow> \<exists>c s. v = c # s \<and> c \<noteq> CHR ''/''"
  by (cases v) (auto simp: is_canonical_def)

lemma slowClean_canonical:
  assumes "list_all is_canonical (split_on CHR ''/'' v)" and t: "t = v \<or> t = CHR ''/'' # v"
  shows "slowClean t =
    \<lparr>Value = v, AllowsEntryFallback = has_suffix t ''/'' \<or> \<not> hasExtension v\<rparr>"
proof -
  obtain c s where v: "v = c # s" "c \<noteq> CHR ''/''"
    using canonical_no_slash_hd [OF assms(1)] by blast
  have lead: "trimLeadingSlash t = v"
    using t v by (auto simp: trimLeadingSlash_def trim_prefix_def has_prefix_def)
  have "clean_segs True [] (split_on CHR ''/'' v) = split_on CHR ''/'' v"
    using assms(1) by (simp add: clean_segs_canonical list_all_iff)
  then have "path_clean (CHR ''/'' # v) = CHR ''/'' # v"
    by (simp add: path_clean_rooted)
  with lead v show ?thesis
    by (simp add: slowClean_def Let_def trim_prefix_def has_prefix_def)
qed

lemma slowClean_value_canonical:
  "Value (slowClean t) = [] \<or> list_all is_canonical (split_on CHR ''/'' (Value (slowClean t)))"
proof -
  let ?segs = "clean_segs True [] (split_on CHR ''/'' (trimLeadingSlash t))"
  have can: "\<forall>x\<in>set ?segs. is_canonical x"
    by (auto intro: clean_segs_rooted_canonical [of "[]"])
  have nosep: "\<forall>x\<in>set ?segs. CHR ''/'' \<notin> set x"
  proof
    fix x assume "x \<in> set ?segs"
    then have "x \<in> set (split_on CHR ''/'' (trimLeadingSlash t))"
      using clean_segs_subset [of True "[]"] by auto
    then show "CHR ''/'' \<notin> set x" by (rule split_on_no_sep)
  qed
  have "Value (slowClean t) = (if ?segs = [] then [] else join_with ''/'' ?segs)"
    using can by (auto simp: slowClean_def Let_def path_clean_rooted trim_prefix_def has_prefix_def
        join_with_Nil_iff is_canonical_def)
  with can nosep show ?thesis by (auto simp: split_join list_all_iff)
qed

lemma slowClean_subset: "set (Value (slowClean t)) \<subseteq> insert CHR ''/'' (set t)"
proof -
  let ?u = "trimLeadingSlash t"
  let ?segs = "clean_segs True [] (split_on CHR ''/'' ?u)"
  have "set (trim_prefix xs p) \<subseteq> set xs" for xs p :: string
    by (auto simp: trim_prefix_def dest: in_set_dropD)
  then have u: "set ?u \<subseteq> set t" by (simp add: trimLeadingSlash_def)
  have "set x \<subseteq> set ?u" if "x \<in> set ?segs" for x
    using clean_segs_subset [of True "[]"] that by (auto dest: split_on_subset)
  then have "(\<Union>x\<in>set ?segs. set x) \<subseteq> set t" using u by blast
  then have "set (join_with ''/'' ?segs) \<subseteq> insert CHR ''/'' (set t)"
    by (intro order_trans [OF set_join_with]) auto
  then show ?thesis
    by (auto simp: slowClean_def Let_def path_clean_rooted trim_prefix_def has_prefix_def)
qed

lemma normalizedRequest_no_backslash: "CHR 0x5C \<notin> set (normalizedRequest t)"
  by (auto simp: normalizedRequest_def Let_def replace_char_def)

lemma fastClean_eq_slowClean_aux:
  assumes "fastClean t = Some c"
  shows "c = slowClean t"
proof -
  from assms obtain v where v: "canonicalValue t = Some v"
      and c: "c = \<lparr>Value = v, AllowsEntryFallback = \<not> hasExtension v\<rparr>"
    by (auto simp: fastClean_def split: option.splits)
  note d = canonicalValueD [OF v]
  have "\<not> has_suffix t ''/''"
  proof
    assume "has_suffix t ''/''"
    with d(1,4,5) show False
      by (auto simp: gostr suffix_def append_eq_Cons_conv)
  qed
  with slowClean_canonical [OF d(2,4)] c show ?thesis by simp
qed

lemma Clean_unfold:
  "Clean raw =
     (if trim_space raw = [] then \<lparr>Value = [], AllowsEntryFallback = True\<rparr>
      else slowClean (normalizedRequest (trim_space raw)))"
  by (auto simp: Clean_def Let_def dest: fastClean_eq_slowClean_aux split: option.splits)

lemma safe_key_Clean: "safe_key (Value (Clean raw))"
  using slowClean_value_canonical slowClean_subset normalizedRequest_no_backslash
  by (auto simp: Clean_unfold safe_key_def)

section \<open>Properties\<close>

text \<open>C8: every key \<open>Clean\<close> returns stays inside the asset tree: it is empty, or slash-joined
  elements none of which is empty, \<open>.\<close> or \<open>..\<close>, and it has no backslash, whatever the request
  path was (percent-encoded, with backslashes, with parent references).\<close>

theorem Clean_value_safe: "safe_key (Value (Clean raw))"
  by (rule safe_key_Clean)

text \<open>C27: the fast path is an optimisation only: whenever \<open>fastClean\<close> accepts, it returns what
  the general path (\<open>path.Clean\<close> on the rooted path) returns.\<close>

theorem fastClean_eq_slowClean:
  assumes "fastClean t = Some c"
  shows "c = slowClean t"
  using assms by (rule fastClean_eq_slowClean_aux)

theorem fastClean_eq_slowClean_witness:
  "fastClean ''/assets/app.js'' = Some \<lparr>Value = ''assets/app.js'', AllowsEntryFallback = False\<rparr>
    \<and> slowClean ''/assets/app.js'' = \<lparr>Value = ''assets/app.js'', AllowsEntryFallback = False\<rparr>"
proof -
  have h: "fastClean ''/assets/app.js'' = Some \<lparr>Value = ''assets/app.js'', AllowsEntryFallback = False\<rparr>"
    by (simp add: fastClean_def canonicalValue_def stripSingleLeadingSlash_def
        rejectsFastPathValue_def hasCanonicalSegments_def isCanonicalSegment_def hasExtension_def
        last_index_def has_suffix_def)
  show ?thesis using h fastClean_eq_slowClean [OF h] by simp
qed

text \<open>Cleaning a key again: only decoding and trimming can change it.\<close>

lemma Clean_safe_key:
  assumes "safe_key v" and "CHR ''%'' \<notin> set v" and "is_trimmed v"
  shows "Value (Clean v) = v"
proof (cases "v = []")
  case True
  then show ?thesis by (simp add: Clean_def)
next
  case False
  with assms have can: "list_all is_canonical (split_on CHR ''/'' v)" and "CHR 0x5C \<notin> set v"
    by (simp_all add: safe_key_def)
  then have t: "normalizedRequest v = v"
    using assms(2) by (simp add: normalizedRequest_def Let_def)
  have "Value (slowClean v) = v"
    using slowClean_canonical [OF can, of v] by simp
  then show ?thesis
    using False assms(3) t by (simp add: Clean_unfold)
qed

text \<open>Cleaning is idempotent on keys without a percent sign: the resolver, which cleans the
  already cleaned key of its request a second time, finds the same key.\<close>

theorem Clean_idempotent:
  assumes "CHR ''%'' \<notin> set (Value (Clean raw))" and "is_trimmed (Value (Clean raw))"
  shows "Value (Clean (Value (Clean raw))) = Value (Clean raw)"
  using Clean_safe_key [OF safe_key_Clean assms] .

theorem Clean_idempotent_witness:
  "Value (Clean (Value (Clean ''/a/../b%2Fc.js''))) = Value (Clean ''/a/../b%2Fc.js'')"
proof -
  have v: "Value (Clean ''/a/../b%2Fc.js'') = ''b/c.js''" by code_simp
  show ?thesis
    by (rule Clean_idempotent) (simp_all only: v, code_simp, code_simp)
qed

text \<open>With a percent sign left in the key, cleaning twice is not the same as cleaning once: the
  second pass decodes again, and it also forgets that the request ended in a slash.  The
  resolver route of the server (\<open>asset_route.go\<close>: \<open>CleanMounted\<close>, then \<open>findAsset\<close>) cleans
  twice, so a file whose name contains an encoded percent sign is not reachable there.\<close>

theorem Clean_twice_differs:
  "Value (Clean ''/a%2525b.txt'') = ''a%25b.txt''
   \<and> Value (Clean (Value (Clean ''/a%2525b.txt''))) = ''a%b.txt''
   \<and> AllowsEntryFallback (Clean ''/v1.2/'')
   \<and> \<not> AllowsEntryFallback (Clean (Value (Clean ''/v1.2/'')))"
  by code_simp

section \<open>Mounting\<close>

lemma cleanMountPath_cases:
  "cleanMountPath m = ''/'' \<or> (\<exists>s. cleanMountPath m = CHR ''/'' # s \<and> \<not> has_prefix s ''/'')"
proof -
  have "\<not> has_prefix (trim_char CHR ''/'' s) ''/''" for s
  proof -
    have "trim_left_char CHR ''/'' s = [] \<or> hd (trim_left_char CHR ''/'' s) \<noteq> CHR ''/''"
      using hd_dropWhile [of "\<lambda>x. x = CHR ''/''" s]
      by (cases "trim_left_char CHR ''/'' s = []") (auto simp: trim_left_char_def)
    moreover have "prefix (trim_char CHR ''/'' s) (trim_left_char CHR ''/'' s)"
      by (simp add: trim_char_def trim_right_char_prefix)
    ultimately show ?thesis
      by (auto simp: gostr prefix_def)
  qed
  then show ?thesis by (auto simp: cleanMountPath_def Let_def)
qed

text \<open>Under a mount, the asset key of the request \<open>mount/p\<close> is the key of \<open>p\<close>, and the mount
  itself is the root.\<close>

theorem CleanMounted_under_mount:
  assumes "cleanMountPath m \<noteq> ''/''"
  shows "CleanMounted (cleanMountPath m @ ''/'' @ p) m = Clean p \<and>
    CleanMounted (cleanMountPath m) m = \<lparr>Value = [], AllowsEntryFallback = True\<rparr>"
proof (rule conjI)
  have "TrimMount (cleanMountPath m @ ''/'' @ p) m = p"
    using assms by (simp add: TrimMount_def Let_def has_prefix_def)
  then show "CleanMounted (cleanMountPath m @ ''/'' @ p) m = Clean p"
    by (simp add: CleanMounted_def)
  have "TrimMount (cleanMountPath m) m = []"
    using assms by (simp add: TrimMount_def Let_def)
  then show "CleanMounted (cleanMountPath m) m = \<lparr>Value = [], AllowsEntryFallback = True\<rparr>"
    by (simp add: CleanMounted_def Clean_def)
qed

theorem CleanMounted_under_mount_witness:
  "cleanMountPath '' /app/ '' = ''/app'' \<and> CleanMounted ''/app/x.js'' '' /app/ '' = Clean ''x.js'' \<and>
   CleanMounted ''/app'' '' /app/ '' = \<lparr>Value = [], AllowsEntryFallback = True\<rparr>"
proof -
  have m: "cleanMountPath '' /app/ '' = ''/app''" by code_simp
  then have "cleanMountPath '' /app/ '' \<noteq> ''/''" by simp
  from CleanMounted_under_mount [OF this, of "''x.js''"] show ?thesis by (simp add: m)
qed

end
