(* ===== verification/Normalize.thy ===== *)
theory Normalize
  imports Complex_Main GoStrings "HOL-Library.Log_Nat" "HOL-Library.Char_ord"
    "HOL-Library.List_Lexorder"
begin

text \<open>
  \<open>pkg/normalize.go\<close>: trimming and folding of configuration values, normalisation of string
  and integer lists, and the parsing of \<open>Accept\<close> header entries with their quality values.

  The first section models \<open>strconv.ParseFloat(s, 64)\<close>: the grammar of Go's floating-point
  literals (sign, decimal or hexadecimal mantissa, exponent, underscores, \<open>inf\<close>, \<open>nan\<close>),
  IEEE-754 rounding to nearest even, and the range error.  A \<open>float64\<close> is an exact rational, an
  infinity, or not-a-number, with the IEEE comparisons \<open>f64_lt\<close> and \<open>f64_eq\<close>.  A nil
  \<open>*cxlist.List\<close> is \<open>None\<close>.
\<close>

section \<open>Floating-point numbers\<close>

datatype f64 = Fin rat | PInf | NInf | NaN

fun f64_lt :: "f64 \<Rightarrow> f64 \<Rightarrow> bool" where
  "f64_lt NaN y = False"
| "f64_lt x NaN = False"
| "f64_lt (Fin a) (Fin b) = (a < b)"
| "f64_lt NInf y = (y \<noteq> NInf)"
| "f64_lt x NInf = False"
| "f64_lt x PInf = (x \<noteq> PInf)"
| "f64_lt PInf y = False"

definition f64_eq :: "f64 \<Rightarrow> f64 \<Rightarrow> bool" where
  "f64_eq x y \<longleftrightarrow> x = y \<and> x \<noteq> NaN"

abbreviation f64_zero :: f64 where "f64_zero \<equiv> Fin 0"
abbreviation f64_one :: f64 where "f64_one \<equiv> Fin 1"

definition pow2 :: "int \<Rightarrow> rat" where
  "pow2 e = (if 0 \<le> e then 2 ^ nat e else 1 / 2 ^ nat (- e))"

definition ilog2 :: "rat \<Rightarrow> int" where
  "ilog2 x =
     (let (n, d) = quotient_of x; e = bitlen n - bitlen d in if x < pow2 e then e - 1 else e)"

definition round_half_even :: "rat \<Rightarrow> int" where
  "round_half_even x =
     (let f = floor x; r = x - of_int f
      in if r < 1 / 2 then f else if 1 / 2 < r then f + 1 else if even f then f else f + 1)"

text \<open>Rounding of a non-negative rational to the nearest double; \<open>None\<close> on overflow.\<close>

definition round_f64 :: "rat \<Rightarrow> rat option" where
  "round_f64 x =
     (if x = 0 then Some 0
      else (let e = max (ilog2 x) (-1022); ulp = pow2 (e - 52);
                y = of_int (round_half_even (x / ulp)) * ulp
            in if pow2 1024 \<le> y then None else Some y))"

record mantissa =
  mant_value :: nat
  mant_frac :: nat
  mant_digits :: bool
  mant_underscore :: bool

fun scan_mantissa :: "bool \<Rightarrow> bool \<Rightarrow> mantissa \<Rightarrow> string \<Rightarrow> mantissa \<times> string" where
  "scan_mantissa hex dot m [] = (m, [])"
| "scan_mantissa hex dot m (c # s) =
     (if c = CHR ''_'' then scan_mantissa hex dot (m\<lparr>mant_underscore := True\<rparr>) s
      else if c = CHR ''.'' then (if dot then (m, c # s) else scan_mantissa hex True m s)
      else (case (if hex then hex_val c else digit_val c) of
              None \<Rightarrow> (m, c # s)
            | Some d \<Rightarrow>
                scan_mantissa hex dot
                  (m\<lparr>mant_value := (if hex then 16 else 10) * mant_value m + d,
                     mant_frac := mant_frac m + (if dot then 1 else 0),
                     mant_digits := True\<rparr>) s))"

fun scan_exponent :: "nat \<Rightarrow> bool \<Rightarrow> string \<Rightarrow> nat \<times> bool \<times> string" where
  "scan_exponent e u [] = (e, u, [])"
| "scan_exponent e u (c # s) =
     (if c = CHR ''_'' then scan_exponent e True s
      else (case digit_val c of
              None \<Rightarrow> (e, u, c # s)
            | Some d \<Rightarrow> scan_exponent (if e < 10000 then e * 10 + d else e) u s))"

text \<open>\<open>strconv.underscoreOK\<close>: an underscore stands between digits, or after a base prefix.
  \<open>saw\<close> is the class of the last character: \<open>'0'\<close>, \<open>'_'\<close>, or \<open>'!'\<close>.\<close>

fun underscores_ok :: "bool \<Rightarrow> char \<Rightarrow> string \<Rightarrow> bool" where
  "underscores_ok hex saw [] = (saw \<noteq> CHR ''_'')"
| "underscores_ok hex saw (c # s) =
     (if digit_val c \<noteq> None \<or> (hex \<and> hex_val c \<noteq> None) then underscores_ok hex CHR ''0'' s
      else if c = CHR ''_'' then (saw = CHR ''0'' \<and> underscores_ok hex CHR ''_'' s)
      else (saw \<noteq> CHR ''_'' \<and> underscores_ok hex CHR ''!'' s))"

definition is_sign :: "char \<Rightarrow> bool" where
  "is_sign c \<longleftrightarrow> c = CHR ''+'' \<or> c = CHR ''-''"

definition unsigned_part :: "string \<Rightarrow> string" where
  "unsigned_part s = (case s of [] \<Rightarrow> [] | c # r \<Rightarrow> if is_sign c then r else s)"

text \<open>The magnitude of a number without sign, or \<open>None\<close> on a syntax error.\<close>

definition read_magnitude :: "string \<Rightarrow> rat option" where
  "read_magnitude s =
     (let hex = (2 < length s \<and> hd s = CHR ''0'' \<and> lower_char (s ! 1) = CHR ''x'');
          (m, r) = scan_mantissa hex False
                     \<lparr>mant_value = 0, mant_frac = 0, mant_digits = False, mant_underscore = False\<rparr>
                     (if hex then drop 2 s else s)
      in if \<not> mant_digits m then None
         else
           (case r of
              [] \<Rightarrow>
                (if hex then None
                 else if mant_underscore m \<and> \<not> underscores_ok hex CHR ''^'' s then None
                 else Some (of_nat (mant_value m) / 10 ^ mant_frac m))
            | c # t \<Rightarrow>
                (if lower_char c \<noteq> (if hex then CHR ''p'' else CHR ''e'') then None
                 else (let digits = unsigned_part t;
                           (e, u, rest) = scan_exponent 0 (mant_underscore m) digits;
                           ex = (if t \<noteq> [] \<and> hd t = CHR ''-'' then - int e else int e)
                       in if digits = [] \<or> digit_val (hd digits) = None \<or> rest \<noteq> [] then None
                          else if u \<and> \<not> underscores_ok hex (if hex then CHR ''0'' else CHR ''^'')
                                          (if hex then drop 2 s else s) then None
                          else if hex then Some (of_nat (mant_value m) * pow2 (ex - 4 * int (mant_frac m)))
                          else (let k = ex - int (mant_frac m)
                                in Some (if 0 \<le> k then of_nat (mant_value m) * 10 ^ nat k
                                         else of_nat (mant_value m) / 10 ^ nat (- k)))))))"

definition parse_float :: "string \<Rightarrow> f64 option" where
  "parse_float s =
     (let l = to_lower s; body = unsigned_part s; neg = (s \<noteq> [] \<and> hd s = CHR ''-'')
      in if to_lower body = ''inf'' \<or> to_lower body = ''infinity'' then Some (if neg then NInf else PInf)
         else if l = ''nan'' then Some NaN
         else (case read_magnitude body of
                 None \<Rightarrow> None
               | Some x \<Rightarrow>
                   (case round_f64 x of None \<Rightarrow> None | Some y \<Rightarrow> Some (Fin (if neg then - y else y)))))"

section \<open>Strings and lists\<close>

definition TrimLower :: "string \<Rightarrow> string" where
  "TrimLower value = to_lower (trim_space value)"

definition IsBlank :: "string \<Rightarrow> bool" where
  "IsBlank value \<longleftrightarrow> trim_space value = []"

fun FirstNonBlank :: "string list \<Rightarrow> string" where
  "FirstNonBlank [] = []"
| "FirstNonBlank (v # vs) = (if \<not> IsBlank v then v else FirstNonBlank vs)"

datatype string_list_order = PreserveOrder | SortStrings

definition NormalizeStringList ::
    "string list option \<Rightarrow> (string \<Rightarrow> string) \<Rightarrow> string_list_order \<Rightarrow> string list option" where
  "NormalizeStringList values norm_fn order =
     (case values of
        None \<Rightarrow> None
      | Some vs \<Rightarrow>
          (if vs = [] then None
           else (let normalized = distinct_by (\<lambda>v. v) (filter (\<lambda>v. v \<noteq> []) (map norm_fn vs))
                 in Some (if order = SortStrings then sort_func (\<lambda>a b. a < b) normalized
                          else normalized))))"

definition NormalizeCSVStrings ::
    "string \<Rightarrow> (string \<Rightarrow> string) \<Rightarrow> string_list_order \<Rightarrow> string list" where
  "NormalizeCSVStrings raw norm_fn order =
     (if IsBlank raw then []
      else (case NormalizeStringList (Some (split_on CHR '','' raw)) norm_fn order of
              None \<Rightarrow> [] | Some vs \<Rightarrow> vs))"

definition NormalizePositiveIntList :: "int list option \<Rightarrow> int list option" where
  "NormalizePositiveIntList values =
     (case values of
        None \<Rightarrow> None
      | Some vs \<Rightarrow>
          (if vs = [] then None
           else Some (sort_func (\<lambda>a b. a < b) (distinct_by (\<lambda>v. v) (filter (\<lambda>v. v > 0) vs)))))"

definition positive_ints :: "string list \<Rightarrow> int list" where
  "positive_ints parts =
     List.map_filter
       (\<lambda>p. case parse_int64 (trim_space p) of None \<Rightarrow> None | Some v \<Rightarrow> if v > 0 then Some v else None)
       parts"

definition ParsePositiveIntCSV :: "string \<Rightarrow> int list" where
  "ParsePositiveIntCSV raw =
     (if IsBlank raw then []
      else (let values = positive_ints (split_on CHR '','' raw)
            in case NormalizePositiveIntList (Some values) of None \<Rightarrow> values | Some vs \<Rightarrow> vs))"

definition NilIfEmpty :: "'a list option \<Rightarrow> 'a list option" where
  "NilIfEmpty values = (case values of None \<Rightarrow> None | Some vs \<Rightarrow> if vs = [] then None else Some vs)"

section \<open>Accept entries\<close>

record accept_entry =
  Token :: string
  Quality :: f64

definition ClampAcceptQuality :: "string \<Rightarrow> f64" where
  "ClampAcceptQuality raw =
     (case parse_float (trim_space raw) of
        None \<Rightarrow> f64_one
      | Some parsed \<Rightarrow>
          (if f64_lt parsed f64_zero then f64_zero
           else if f64_lt f64_one parsed then f64_one
           else parsed))"

lemma cut_snd_length [termination_simp]:
  "(a, b, True) = cut c s \<Longrightarrow> length b < length s"
  by (metis cut_found_length)

fun quality_loop :: "f64 \<Rightarrow> string \<Rightarrow> f64" where
  "quality_loop quality remaining =
     (case cut CHR '';'' remaining of
        (paramRaw, rest, found) \<Rightarrow>
          (let param = trim_space paramRaw;
               quality' =
                 (case cut CHR ''='' param of
                    (key, raw, foundEquals) \<Rightarrow>
                      (if foundEquals \<and> equal_fold (trim_space key) ''q'' then ClampAcceptQuality raw
                       else quality))
           in if found then quality_loop quality' rest else quality'))"

declare quality_loop.simps [simp del]

definition ParseAcceptQuality :: "string \<Rightarrow> f64" where
  "ParseAcceptQuality params = (if IsBlank params then f64_one else quality_loop f64_one params)"

definition ParseAcceptEntry :: "string \<Rightarrow> accept_entry option" where
  "ParseAcceptEntry rawPart =
     (let part = trim_space rawPart
      in if part = [] then None
         else (case cut CHR '';'' part of
                 (tokenRaw, paramsRaw, _) \<Rightarrow>
                   (let token = TrimLower tokenRaw
                    in if token = [] then None
                       else Some \<lparr>Token = token, Quality = ParseAcceptQuality paramsRaw\<rparr>)))"

text \<open>The entries \<open>ForEachAcceptEntry\<close> yields, in order; every caller's \<open>yield\<close> continues.\<close>

fun ForEachAcceptEntry :: "string \<Rightarrow> accept_entry list" where
  "ForEachAcceptEntry remaining =
     (case cut CHR '','' remaining of
        (part, rest, found) \<Rightarrow>
          (let here = (case ParseAcceptEntry part of None \<Rightarrow> [] | Some e \<Rightarrow> [e])
           in if found then here @ ForEachAcceptEntry rest else here))"

declare ForEachAcceptEntry.simps [simp del]

definition ShouldReplaceQuality :: "f64 \<Rightarrow> bool \<Rightarrow> f64 \<Rightarrow> bool" where
  "ShouldReplaceQuality current hasCurrent next \<longleftrightarrow> \<not> hasCurrent \<or> f64_lt current next"

text \<open>The result of a Go comparator is an integer; \<open>cmp.Compare\<close> on integers.\<close>

definition cmp_int :: "int \<Rightarrow> int \<Rightarrow> int" where
  "cmp_int a b = (if a < b then -1 else if a > b then 1 else 0)"

definition CompareQualityPriority :: "f64 \<Rightarrow> int \<Rightarrow> f64 \<Rightarrow> int \<Rightarrow> int" where
  "CompareQualityPriority leftQ leftPriority rightQ rightPriority =
     (if f64_eq leftQ rightQ then cmp_int leftPriority rightPriority
      else if f64_lt rightQ leftQ then -1
      else 1)"

section \<open>Facts\<close>

lemma NormalizeStringList_set:
  "NormalizeStringList (Some vs) norm_fn order = Some ws \<Longrightarrow>
    set ws = norm_fn ` set vs - {[]}"
  by (auto simp: NormalizeStringList_def Let_def set_distinct_by_id split: if_splits)

lemma NormalizeStringList_distinct:
  "NormalizeStringList values norm_fn order = Some ws \<Longrightarrow> distinct ws"
  by (auto simp: NormalizeStringList_def Let_def distinct_distinct_by_id split: option.splits if_splits)

lemma accept_entries_split:
  "ForEachAcceptEntry header = List.map_filter ParseAcceptEntry (split_on CHR '','' header)"
proof (induction header rule: ForEachAcceptEntry.induct)
  case (1 remaining)
  obtain part rest found where c: "cut CHR '','' remaining = (part, rest, found)"
    by (cases "cut CHR '','' remaining") auto
  show ?case
  proof (cases found)
    case True
    with c have s: "remaining = part @ CHR '','' # rest" "CHR '','' \<notin> set part"
      using cut_found by auto
    have "ForEachAcceptEntry rest = List.map_filter ParseAcceptEntry (split_on CHR '','' rest)"
      using 1 c True by (metis (no_types, lifting))
    with c True show ?thesis
      by (subst ForEachAcceptEntry.simps)
         (simp add: s split_on_append cut_append map_filter_simps split: option.splits)
  next
    case False
    with c have "part = remaining" "CHR '','' \<notin> set remaining"
      using cut_not_found by fastforce+
    with c False show ?thesis
      by (subst ForEachAcceptEntry.simps)
         (simp add: split_on_notin map_filter_simps split: option.splits)
  qed
qed

text \<open>Qualities are not-a-number or lie between 0 and 1.\<close>

definition unit_quality :: "f64 \<Rightarrow> bool" where
  "unit_quality q \<longleftrightarrow> q = NaN \<or> (\<exists>x. q = Fin x \<and> 0 \<le> x \<and> x \<le> 1)"

lemma ClampAcceptQuality_unit: "unit_quality (ClampAcceptQuality raw)"
proof (cases "parse_float (trim_space raw)")
  case (Some p)
  then show ?thesis
    by (cases p) (auto simp: ClampAcceptQuality_def unit_quality_def)
qed (simp add: ClampAcceptQuality_def unit_quality_def)

lemma quality_loop_unit: "unit_quality q \<Longrightarrow> unit_quality (quality_loop q s)"
proof (induction q s rule: quality_loop.induct)
  case (1 quality remaining)
  obtain p rest found where c: "cut CHR '';'' remaining = (p, rest, found)"
    by (cases "cut CHR '';'' remaining") auto
  let ?q = "case cut CHR ''='' (trim_space p) of (key, raw, fe) \<Rightarrow>
      if fe \<and> equal_fold (trim_space key) ''q'' then ClampAcceptQuality raw else quality"
  have q: "unit_quality ?q"
    using "1.prems" ClampAcceptQuality_unit by (auto split: prod.splits)
  show ?case
  proof (cases found)
    case True
    from 1(1) [OF c [symmetric] refl refl refl True q] c True show ?thesis
      by (subst quality_loop.simps) (simp add: Let_def)
  next
    case False
    with c q show ?thesis by (subst quality_loop.simps) (simp add: Let_def)
  qed
qed

lemma ParseAcceptQuality_unit: "unit_quality (ParseAcceptQuality params)"
  unfolding ParseAcceptQuality_def
  using quality_loop_unit [of f64_one params] by (simp add: unit_quality_def)

lemma accept_entry_unit:
  "e \<in> set (ForEachAcceptEntry header) \<Longrightarrow> unit_quality (Quality e)"
  by (auto simp: accept_entries_split map_filter_def ParseAcceptEntry_def Let_def
      ParseAcceptQuality_unit split: if_splits prod.splits option.splits)

lemma cmp_int_lt [simp]: "cmp_int a b < 0 \<longleftrightarrow> a < b"
  by (simp add: cmp_int_def)

end
