(* ===== verification/Media.thy ===== *)
theory Media
  imports Normalize GoPath
begin

text \<open>
  The tables of names: \<open>internal/media\<close> (image formats, text-like and compressible media
  types), \<open>internal/contentcoding/spec\<close> (content codings), \<open>pkg/mime.go\<close> (media types by file
  extension) and \<open>pkg/path_policy.go\<close> (path segments that are unsafe on some file system).
\<close>

section \<open>Image formats\<close>

record ImageFormatDescriptor =
  Name :: string
  MediaType :: string
  Extension :: string
  AcceptTokens :: "string list"

definition imageFormatDescriptors :: "ImageFormatDescriptor list" where
  "imageFormatDescriptors =
    [\<lparr>Name = ''jpeg'', MediaType = ''image/jpeg'', Extension = ''.jpg'',
      AcceptTokens = [''image/jpeg'', ''image/jpg'']\<rparr>,
     \<lparr>Name = ''png'', MediaType = ''image/png'', Extension = ''.png'', AcceptTokens = [''image/png'']\<rparr>,
     \<lparr>Name = ''webp'', MediaType = ''image/webp'', Extension = ''.webp'', AcceptTokens = [''image/webp'']\<rparr>,
     \<lparr>Name = ''avif'', MediaType = ''image/avif'', Extension = ''.avif'', AcceptTokens = [''image/avif'']\<rparr>]"

text \<open>\<open>cxmapping.AssociateList\<close>: a later entry replaces an earlier one with the same key.\<close>

definition associate :: "('a \<Rightarrow> string) \<Rightarrow> 'a list \<Rightarrow> string \<Rightarrow> 'a option" where
  "associate key xs = map_of (rev (map (\<lambda>x. (key x, x)) xs))"

definition buildImageDescriptorsByAcceptToken ::
    "ImageFormatDescriptor list \<Rightarrow> string \<Rightarrow> ImageFormatDescriptor option" where
  "buildImageDescriptorsByAcceptToken descriptors =
     map_of (rev (concat (map (\<lambda>d.
       map (\<lambda>t. (TrimLower t, d)) (filter (\<lambda>t. TrimLower t \<noteq> []) (AcceptTokens d))) descriptors)))"

definition SupportedImageFormats :: "string list" where
  "SupportedImageFormats = map Name imageFormatDescriptors"

definition LookupImageDescriptor :: "string \<Rightarrow> ImageFormatDescriptor option" where
  "LookupImageDescriptor format = associate Name imageFormatDescriptors (TrimLower format)"

definition LookupImageDescriptorByMediaType :: "string \<Rightarrow> ImageFormatDescriptor option" where
  "LookupImageDescriptorByMediaType mediaType =
     associate MediaType imageFormatDescriptors (TrimLower mediaType)"

definition LookupImageDescriptorByAcceptToken :: "string \<Rightarrow> ImageFormatDescriptor option" where
  "LookupImageDescriptorByAcceptToken token =
     buildImageDescriptorsByAcceptToken imageFormatDescriptors (TrimLower token)"

definition NormalizeImageFormat :: "string \<Rightarrow> string" where
  "NormalizeImageFormat format =
     (let normalized = TrimLower format
      in if normalized = ''jpg'' then ''jpeg''
         else (case LookupImageDescriptor normalized of Some d \<Rightarrow> Name d | None \<Rightarrow> []))"

definition ImageFormat :: "string \<Rightarrow> string" where
  "ImageFormat mediaType =
     (case LookupImageDescriptorByMediaType mediaType of Some d \<Rightarrow> Name d | None \<Rightarrow> [])"

definition IsImageMediaType :: "string \<Rightarrow> bool" where
  "IsImageMediaType mediaType = has_prefix (TrimLower mediaType) ''image/''"

definition NormalizeImageFormats :: "string list option \<Rightarrow> string list option" where
  "NormalizeImageFormats formats =
     (case formats of
        None \<Rightarrow> None
      | Some fs \<Rightarrow> if fs = [] then None else NormalizeStringList (Some fs) NormalizeImageFormat PreserveOrder)"

section \<open>Media types\<close>

definition textLikeMediaTypes :: "string list" where
  "textLikeMediaTypes =
    [''application/javascript'', ''application/x-javascript'', ''application/json'',
     ''application/manifest+json'', ''application/xml'', ''application/xhtml+xml'', ''image/svg+xml'']"

definition compressibleNonTextMediaTypes :: "string list" where
  "compressibleNonTextMediaTypes = [''application/wasm'']"

definition textLikeFileExtensions :: "string list" where
  "textLikeFileExtensions =
    [''.html'', ''.css'', ''.js'', ''.mjs'', ''.json'', ''.xml'', ''.txt'', ''.svg'', ''.webmanifest'']"

definition NormalizeMediaType :: "string \<Rightarrow> string" where
  "NormalizeMediaType mediaType = to_lower (trim_space mediaType)"

definition IsTextLikeMediaType :: "string \<Rightarrow> bool" where
  "IsTextLikeMediaType mediaType =
     (let normalized = NormalizeMediaType mediaType
      in if has_prefix normalized ''text/'' then True
         else if normalized \<in> set textLikeMediaTypes then True
         else \<not> IsImageMediaType normalized \<and> contains_sub normalized ''json'')"

definition IsTextLikeFileExtension :: "string \<Rightarrow> bool" where
  "IsTextLikeFileExtension pathOrExt =
     (to_lower (trim_space (path_ext pathOrExt)) \<in> set textLikeFileExtensions)"

definition IsNonCompressibleMediaType :: "string \<Rightarrow> bool" where
  "IsNonCompressibleMediaType mediaType =
     (let normalized = NormalizeMediaType mediaType
      in if has_prefix normalized ''image/'' \<and> normalized \<noteq> ''image/svg+xml'' then True
         else if has_prefix normalized ''audio/'' \<or> has_prefix normalized ''video/'' then True
         else contains_sub normalized ''zip'' \<or> contains_sub normalized ''gzip'')"

definition IsCompressibleMediaType :: "string \<Rightarrow> bool" where
  "IsCompressibleMediaType mediaType =
     (let normalized = NormalizeMediaType mediaType
      in if normalized = [] then False
         else if IsNonCompressibleMediaType normalized then False
         else if IsTextLikeMediaType normalized then True
         else normalized \<in> set compressibleNonTextMediaTypes)"

section \<open>Content codings\<close>

definition DefaultNames :: "string list" where
  "DefaultNames = [''br'', ''zstd'', ''gzip'']"

definition NormalizeName :: "string \<Rightarrow> string" where
  "NormalizeName raw =
     (let n = TrimLower raw
      in if n = ''br'' then ''br'' else if n = ''zstd'' then ''zstd''
         else if n = ''gzip'' then ''gzip'' else [])"

definition IsSupported :: "string \<Rightarrow> bool" where
  "IsSupported name \<longleftrightarrow> NormalizeName name \<noteq> []"

definition ParseNames :: "string \<Rightarrow> string list option" where
  "ParseNames raw =
     (if IsBlank raw then Some []
      else NilIfEmpty (Some (NormalizeCSVStrings raw NormalizeName PreserveOrder)))"

definition ResolveNames :: "string \<Rightarrow> string list" where
  "ResolveNames raw =
     (case ParseNames raw of None \<Rightarrow> DefaultNames | Some ns \<Rightarrow> if ns = [] then DefaultNames else ns)"

definition NormalizeNames :: "string list option \<Rightarrow> string list option" where
  "NormalizeNames values = NilIfEmpty (NormalizeStringList values NormalizeName PreserveOrder)"

section \<open>Media types by extension\<close>

definition extensionMIMEs :: "string \<Rightarrow> string option" where
  "extensionMIMEs = map_of
    [(''.js'', ''application/javascript''), (''.mjs'', ''application/javascript''),
     (''.cjs'', ''application/javascript''), (''.css'', ''text/css''), (''.html'', ''text/html''),
     (''.htm'', ''text/html''), (''.json'', ''application/json''), (''.svg'', ''image/svg+xml''),
     (''.png'', ''image/png''), (''.jpg'', ''image/jpeg''), (''.jpeg'', ''image/jpeg''),
     (''.webp'', ''image/webp''), (''.avif'', ''image/avif''), (''.gif'', ''image/gif''),
     (''.wasm'', ''application/wasm'')]"

definition magicValidatedExtensionMIMEs :: "string \<Rightarrow> string option" where
  "magicValidatedExtensionMIMEs = map_of
    [(''.png'', ''image/png''), (''.jpg'', ''image/jpeg''), (''.jpeg'', ''image/jpeg''),
     (''.webp'', ''image/webp''), (''.avif'', ''image/avif''), (''.gif'', ''image/gif'')]"

definition detectMIMEByExtension :: "string \<Rightarrow> string option" where
  "detectMIMEByExtension filePath = extensionMIMEs (to_lower (path_ext filePath))"

definition expectedMagicMIME :: "string \<Rightarrow> string option" where
  "expectedMagicMIME filePath = magicValidatedExtensionMIMEs (to_lower (path_ext filePath))"

definition RequiresMagicValidation :: "string \<Rightarrow> bool" where
  "RequiresMagicValidation filePath \<longleftrightarrow> expectedMagicMIME filePath \<noteq> None"

definition normalizeMIME :: "string \<Rightarrow> string" where
  "normalizeMIME raw =
     (case cut CHR '';'' raw of (before, _, found) \<Rightarrow> if found \<and> before \<noteq> [] then before else raw)"

section \<open>Portable path segments\<close>

definition reservedWindowsPathNames :: "string list" where
  "reservedWindowsPathNames =
    [''CON'', ''PRN'', ''AUX'', ''NUL'', ''CONIN$'', ''CONOUT$'',
     ''COM1'', ''COM2'', ''COM3'', ''COM4'', ''COM5'', ''COM6'', ''COM7'', ''COM8'', ''COM9'',
     ''LPT1'', ''LPT2'', ''LPT3'', ''LPT4'', ''LPT5'', ''LPT6'', ''LPT7'', ''LPT8'', ''LPT9'']"

definition IsUnsafePortablePathSegment :: "string \<Rightarrow> bool" where
  "IsUnsafePortablePathSegment segment =
     (if segment = [] \<or> segment = ''.'' \<or> segment = ''..'' then True
      else if CHR '':'' \<in> set segment \<or> has_suffix segment ''.'' \<or> has_suffix segment '' '' then True
      else (let name = rev (dropWhile (\<lambda>c. c = CHR ''.'' \<or> c = CHR '' '') (rev segment));
                base = fst (cut CHR ''.'' name)
            in to_upper base \<in> set reservedWindowsPathNames))"

definition HasUnsafePortablePathSegment :: "string \<Rightarrow> bool" where
  "HasUnsafePortablePathSegment value =
     list_ex IsUnsafePortablePathSegment
       (split_on CHR ''/'' (replace_char CHR 0x5C CHR ''/'' value))"

section \<open>Facts\<close>

lemma image_names [model_simps]: "SupportedImageFormats = [''jpeg'', ''png'', ''webp'', ''avif'']"
  by (simp add: SupportedImageFormats_def imageFormatDescriptors_def)

lemma associate_Some: "associate key xs k = Some d \<Longrightarrow> d \<in> set xs \<and> key d = k"
  by (auto simp: associate_def dest!: map_of_SomeD)

lemma NormalizeImageFormat_range:
  "NormalizeImageFormat f \<in> set ([] # SupportedImageFormats)"
proof -
  have "Name d \<in> set SupportedImageFormats" if "LookupImageDescriptor g = Some d" for g d
    using that by (auto simp: LookupImageDescriptor_def SupportedImageFormats_def dest: associate_Some)
  then show ?thesis
    by (auto simp: NormalizeImageFormat_def Let_def model_simps split: option.splits)
qed

lemma ImageFormat_range: "ImageFormat m \<in> set ([] # SupportedImageFormats)"
  by (auto simp: ImageFormat_def LookupImageDescriptorByMediaType_def SupportedImageFormats_def
      dest: associate_Some split: option.splits)

lemma NormalizeName_range: "NormalizeName raw \<in> set ([] # DefaultNames)"
  by (simp add: NormalizeName_def DefaultNames_def Let_def)

lemma safe_segment_canonical:
  "\<not> IsUnsafePortablePathSegment seg \<Longrightarrow> is_canonical seg"
  by (auto simp: IsUnsafePortablePathSegment_def is_canonical_def)

lemma safe_path_segments:
  "\<not> HasUnsafePortablePathSegment v \<Longrightarrow> CHR 0x5C \<notin> set v \<Longrightarrow>
    \<forall>s\<in>set (split_on CHR ''/'' v). \<not> IsUnsafePortablePathSegment s"
  by (simp add: HasUnsafePortablePathSegment_def replace_char_id list_ex_iff)

lemma NormalizeMediaType_idem: "NormalizeMediaType (NormalizeMediaType m) = NormalizeMediaType m"
  by (simp add: NormalizeMediaType_def is_trimmed_to_lower)

text \<open>Nothing that is already compressed is ever compressed again: images other than SVG,
  audio, video and archives are not compressible, whatever the case and padding of the type.\<close>

theorem compressible_excludes_media:
  assumes "IsCompressibleMediaType m"
  shows "NormalizeMediaType m \<noteq> [] \<and>
    (has_prefix (NormalizeMediaType m) ''image/'' \<longrightarrow> NormalizeMediaType m = ''image/svg+xml'') \<and>
    \<not> has_prefix (NormalizeMediaType m) ''audio/'' \<and> \<not> has_prefix (NormalizeMediaType m) ''video/'' \<and>
    \<not> contains_sub (NormalizeMediaType m) ''zip''"
  using assms NormalizeMediaType_idem [of m]
  by (auto simp: IsCompressibleMediaType_def IsNonCompressibleMediaType_def Let_def split: if_splits)

theorem compressible_excludes_media_witness:
  "IsCompressibleMediaType '' Image/SVG+xml'' \<and>
   \<not> has_prefix (NormalizeMediaType '' Image/SVG+xml'') ''audio/'' \<and>
   \<not> contains_sub (NormalizeMediaType '' Image/SVG+xml'') ''zip''"
proof -
  have "IsCompressibleMediaType '' Image/SVG+xml''" by code_simp
  with compressible_excludes_media [OF this] show ?thesis by blast
qed

end
