(* ===== verification/Accept.thy ===== *)
theory Accept
  imports Media "HOL-Library.Word"
begin

unbundle bit_operations_syntax

text \<open>
  \<open>internal/resolver/accept.go\<close>, \<open>accept_encoding.go\<close> and \<open>accept_image.go\<close>: from the
  \<open>Accept-Encoding\<close> and \<open>Accept\<close> headers to the list of codings or image formats to try, best
  first.  The code keeps the qualities of the known names in fields selected by a bit mask
  (\<open>uint8\<close>, here \<open>8 word\<close>) and those of other names in a map; the specification
  \<open>entry_quality\<close> reads them off the header's entries directly.
\<close>

section \<open>Content codings\<close>

type_synonym mask = "8 word"

definition encodingMaskBr :: mask where "encodingMaskBr = 1"
definition encodingMaskZstd :: mask where "encodingMaskZstd = 2"
definition encodingMaskGzip :: mask where "encodingMaskGzip = 4"
definition encodingMaskIdentity :: mask where "encodingMaskIdentity = 8"

lemmas encodingMasks =
  encodingMaskBr_def encodingMaskZstd_def encodingMaskGzip_def encodingMaskIdentity_def

record encodingSupport =
  esupp_values :: "string list option"
  esupp_known :: mask

record encodingPreferences =
  brQ :: f64
  zstdQ :: f64
  gzipQ :: f64
  identityQ :: f64
  known :: mask
  extra :: "string \<Rightarrow> f64 option"
  wildcardQ :: f64
  hasWildcard :: bool

definition emptyPreferences :: encodingPreferences where
  "emptyPreferences =
     \<lparr>brQ = f64_zero, zstdQ = f64_zero, gzipQ = f64_zero, identityQ = f64_zero, known = 0,
      extra = Map.empty, wildcardQ = f64_zero, hasWildcard = False\<rparr>"

record encodingCandidate =
  cand_encoding :: string
  cand_q :: f64
  cand_priority :: int

definition mask_has :: "mask \<Rightarrow> mask \<Rightarrow> bool" where
  "mask_has m v \<longleftrightarrow> m AND v \<noteq> 0"

definition knownEncodingMask :: "string \<Rightarrow> mask option" where
  "knownEncodingMask token =
     (if token = ''br'' then Some encodingMaskBr
      else if token = ''zstd'' then Some encodingMaskZstd
      else if token = ''gzip'' then Some encodingMaskGzip
      else if token = ''identity'' then Some encodingMaskIdentity
      else None)"

definition knownQuality :: "encodingPreferences \<Rightarrow> mask \<Rightarrow> f64" where
  "knownQuality prefs m =
     (if m = encodingMaskBr then brQ prefs
      else if m = encodingMaskZstd then zstdQ prefs
      else if m = encodingMaskGzip then gzipQ prefs
      else if m = encodingMaskIdentity then identityQ prefs
      else f64_zero)"

definition setKnownQuality :: "encodingPreferences \<Rightarrow> mask \<Rightarrow> f64 \<Rightarrow> encodingPreferences" where
  "setKnownQuality prefs m q =
     (if m = encodingMaskBr then prefs\<lparr>brQ := q\<rparr>
      else if m = encodingMaskZstd then prefs\<lparr>zstdQ := q\<rparr>
      else if m = encodingMaskGzip then prefs\<lparr>gzipQ := q\<rparr>
      else if m = encodingMaskIdentity then prefs\<lparr>identityQ := q\<rparr>
      else prefs)"

definition setKnown :: "encodingPreferences \<Rightarrow> mask \<Rightarrow> f64 \<Rightarrow> encodingPreferences" where
  "setKnown prefs m q =
     (let current = knownQuality prefs m
      in if \<not> ShouldReplaceQuality current (mask_has (known prefs) m) q then prefs
         else setKnownQuality (prefs\<lparr>known := known prefs OR m\<rparr>) m q)"

definition supportsExtra :: "encodingSupport \<Rightarrow> string \<Rightarrow> bool" where
  "supportsExtra support token =
     (case esupp_values support of None \<Rightarrow> False | Some vs \<Rightarrow> list_ex (\<lambda>e. e = token) vs)"

definition applyExtraEncodingPreference ::
    "encodingPreferences \<Rightarrow> accept_entry \<Rightarrow> encodingPreferences" where
  "applyExtraEncodingPreference prefs entry =
     (let c = extra prefs (Token entry); current = (case c of None \<Rightarrow> f64_zero | Some q \<Rightarrow> q)
      in if ShouldReplaceQuality current (c \<noteq> None) (Quality entry)
         then prefs\<lparr>extra := (extra prefs)(Token entry \<mapsto> Quality entry)\<rparr>
         else prefs)"

definition applyEncodingPreference ::
    "encodingSupport \<Rightarrow> encodingPreferences \<Rightarrow> accept_entry \<Rightarrow> encodingPreferences" where
  "applyEncodingPreference supported prefs entry =
     (if Token entry = ''*'' then prefs\<lparr>hasWildcard := True, wildcardQ := Quality entry\<rparr>
      else (case knownEncodingMask (Token entry) of
              Some m \<Rightarrow>
                (if mask_has (esupp_known supported) m then setKnown prefs m (Quality entry) else prefs)
            | None \<Rightarrow>
                (if supportsExtra supported (Token entry) then applyExtraEncodingPreference prefs entry
                 else prefs)))"

definition collectEncodingPreferences :: "string \<Rightarrow> encodingSupport \<Rightarrow> encodingPreferences" where
  "collectEncodingPreferences header supported =
     foldl (applyEncodingPreference supported) emptyPreferences (ForEachAcceptEntry header)"

definition newEncodingSupportFromValues :: "string list option \<Rightarrow> encodingSupport" where
  "newEncodingSupportFromValues supported =
     (let vs = (case supported of None \<Rightarrow> DefaultNames | Some v \<Rightarrow> if v = [] then DefaultNames else v)
      in \<lparr>esupp_values = Some vs,
          esupp_known = foldl (\<lambda>k e. case knownEncodingMask e of Some m \<Rightarrow> k OR m | None \<Rightarrow> k) 0 vs\<rparr>)"

definition defaultEncodingSupport :: encodingSupport where
  "defaultEncodingSupport = newEncodingSupportFromValues (Some DefaultNames)"

definition newStrictEncodingSupport :: "string list option \<Rightarrow> encodingSupport" where
  "newStrictEncodingSupport supported = newEncodingSupportFromValues (NormalizeNames supported)"

definition newLooseEncodingSupport :: "string list option \<Rightarrow> encodingSupport" where
  "newLooseEncodingSupport supported =
     newEncodingSupportFromValues (NilIfEmpty (NormalizeStringList supported TrimLower PreserveOrder))"

definition knownEncodingQuality :: "encodingPreferences \<Rightarrow> string \<Rightarrow> f64 option" where
  "knownEncodingQuality prefs encoding =
     (case knownEncodingMask encoding of
        None \<Rightarrow> None
      | Some m \<Rightarrow> if mask_has (known prefs) m then Some (knownQuality prefs m) else None)"

definition wildcardEncodingQuality :: "encodingPreferences \<Rightarrow> f64 \<times> bool" where
  "wildcardEncodingQuality prefs =
     (if \<not> hasWildcard prefs \<or> (f64_lt (wildcardQ prefs) f64_zero \<or> f64_eq (wildcardQ prefs) f64_zero)
      then (f64_zero, False) else (wildcardQ prefs, True))"

definition encodingQuality :: "encodingPreferences \<Rightarrow> string \<Rightarrow> f64 \<times> bool" where
  "encodingQuality prefs encoding =
     (case knownEncodingQuality prefs encoding of
        Some q \<Rightarrow> (q, f64_lt f64_zero q)
      | None \<Rightarrow>
          (case extra prefs encoding of
             Some q \<Rightarrow> (q, f64_lt f64_zero q)
           | None \<Rightarrow> wildcardEncodingQuality prefs))"

definition compareEncodingCandidates :: "encodingCandidate \<Rightarrow> encodingCandidate \<Rightarrow> int" where
  "compareEncodingCandidates left right =
     CompareQualityPriority (cand_q left) (cand_priority left) (cand_q right) (cand_priority right)"

definition encodingChoices :: "encodingPreferences \<Rightarrow> string list \<Rightarrow> encodingCandidate list" where
  "encodingChoices prefs vs =
     List.map_filter
       (\<lambda>(index, encoding).
          case encodingQuality prefs encoding of
            (q, ok) \<Rightarrow>
              if ok then Some \<lparr>cand_encoding = encoding, cand_q = q, cand_priority = int index\<rparr>
              else None)
       (enumerate 0 vs)"

definition buildEncodingCandidates ::
    "encodingPreferences \<Rightarrow> encodingSupport \<Rightarrow> string list option" where
  "buildEncodingCandidates prefs supported =
     (let choices = encodingChoices prefs (case esupp_values supported of None \<Rightarrow> [] | Some vs \<Rightarrow> vs)
      in if choices = [] then None
         else Some (map cand_encoding
                     (sort_func (\<lambda>a b. compareEncodingCandidates a b < 0) choices)))"

definition parseAcceptEncodingWithSupport ::
    "string \<Rightarrow> encodingSupport \<Rightarrow> string list option" where
  "parseAcceptEncodingWithSupport header supported =
     (if IsBlank header then None
      else (let s = (if esupp_values supported = None then defaultEncodingSupport else supported)
            in buildEncodingCandidates (collectEncodingPreferences header s) s))"

definition ParseAcceptEncoding :: "string \<Rightarrow> string list option \<Rightarrow> string list option" where
  "ParseAcceptEncoding header supported =
     (if IsBlank header then None
      else parseAcceptEncodingWithSupport header (newStrictEncodingSupport supported))"

definition ParseAcceptEncodingNormalized :: "string \<Rightarrow> string list option \<Rightarrow> string list option" where
  "ParseAcceptEncodingNormalized header supported =
     (if IsBlank header then None
      else parseAcceptEncodingWithSupport header (newLooseEncodingSupport supported))"

section \<open>Image formats\<close>

definition imageFormatMaskJPEG :: mask where "imageFormatMaskJPEG = 1"
definition imageFormatMaskPNG :: mask where "imageFormatMaskPNG = 2"
definition imageFormatMaskWebP :: mask where "imageFormatMaskWebP = 4"
definition imageFormatMaskAVIF :: mask where "imageFormatMaskAVIF = 8"

lemmas imageFormatMasks =
  imageFormatMaskJPEG_def imageFormatMaskPNG_def imageFormatMaskWebP_def imageFormatMaskAVIF_def

record imageFormatSupport =
  isupp_values :: "string list option"
  isupp_known :: mask

record imagePreferences =
  jpegQ :: f64
  pngQ :: f64
  webpQ :: f64
  avifQ :: f64
  explicit :: mask
  wildcardImageQ :: f64
  hasWildcardImage :: bool
  wildcardAnyQ :: f64
  hasWildcardAny :: bool

definition emptyImagePreferences :: imagePreferences where
  "emptyImagePreferences =
     \<lparr>jpegQ = f64_zero, pngQ = f64_zero, webpQ = f64_zero, avifQ = f64_zero, explicit = 0,
      wildcardImageQ = f64_zero, hasWildcardImage = False, wildcardAnyQ = f64_zero,
      hasWildcardAny = False\<rparr>"

datatype imagePreferenceMatch =
  imagePreferenceNone | imagePreferenceAnyWildcard | imagePreferenceImageWildcard
  | imagePreferenceExplicit

text \<open>The \<open>iota\<close> values of the matches.\<close>

primrec match_rank :: "imagePreferenceMatch \<Rightarrow> int" where
  "match_rank imagePreferenceNone = 0"
| "match_rank imagePreferenceAnyWildcard = 1"
| "match_rank imagePreferenceImageWildcard = 2"
| "match_rank imagePreferenceExplicit = 3"

record imageCandidate =
  ic_format :: string
  ic_q :: f64
  ic_match :: imagePreferenceMatch
  ic_priority :: int

definition imageFormatMaskForName :: "string \<Rightarrow> mask option" where
  "imageFormatMaskForName format =
     (if format = ''jpeg'' then Some imageFormatMaskJPEG
      else if format = ''png'' then Some imageFormatMaskPNG
      else if format = ''webp'' then Some imageFormatMaskWebP
      else if format = ''avif'' then Some imageFormatMaskAVIF
      else None)"

definition image_quality :: "imagePreferences \<Rightarrow> mask \<Rightarrow> f64" where
  "image_quality prefs m =
     (if m = imageFormatMaskJPEG then jpegQ prefs
      else if m = imageFormatMaskPNG then pngQ prefs
      else if m = imageFormatMaskWebP then webpQ prefs
      else if m = imageFormatMaskAVIF then avifQ prefs
      else f64_zero)"

definition setQuality :: "imagePreferences \<Rightarrow> mask \<Rightarrow> f64 \<Rightarrow> imagePreferences" where
  "setQuality prefs m q =
     (if m = imageFormatMaskJPEG then prefs\<lparr>jpegQ := q\<rparr>
      else if m = imageFormatMaskPNG then prefs\<lparr>pngQ := q\<rparr>
      else if m = imageFormatMaskWebP then prefs\<lparr>webpQ := q\<rparr>
      else if m = imageFormatMaskAVIF then prefs\<lparr>avifQ := q\<rparr>
      else prefs)"

definition setExplicit :: "imagePreferences \<Rightarrow> mask \<Rightarrow> f64 \<Rightarrow> imagePreferences" where
  "setExplicit prefs m q =
     (if \<not> ShouldReplaceQuality (image_quality prefs m) (mask_has (explicit prefs) m) q then prefs
      else setQuality (prefs\<lparr>explicit := explicit prefs OR m\<rparr>) m q)"

definition applyImagePreference :: "imagePreferences \<Rightarrow> accept_entry \<Rightarrow> imagePreferences" where
  "applyImagePreference prefs entry =
     (if Token entry = ''image/*'' then prefs\<lparr>hasWildcardImage := True, wildcardImageQ := Quality entry\<rparr>
      else if Token entry = ''*/*'' then prefs\<lparr>hasWildcardAny := True, wildcardAnyQ := Quality entry\<rparr>
      else (case LookupImageDescriptorByAcceptToken (Token entry) of
              None \<Rightarrow> prefs
            | Some d \<Rightarrow>
                (case imageFormatMaskForName (Name d) of
                   None \<Rightarrow> prefs | Some m \<Rightarrow> setExplicit prefs m (Quality entry))))"

definition collectImagePreferences :: "string \<Rightarrow> imagePreferences" where
  "collectImagePreferences header =
     foldl applyImagePreference emptyImagePreferences (ForEachAcceptEntry header)"

definition newImageFormatSupport :: "string list option \<Rightarrow> imageFormatSupport" where
  "newImageFormatSupport supported =
     (let vs = (case NormalizeImageFormats supported of
                  None \<Rightarrow> SupportedImageFormats
                | Some v \<Rightarrow> if v = [] then SupportedImageFormats else v)
      in \<lparr>isupp_values = Some vs,
          isupp_known =
            foldl (\<lambda>k f. case imageFormatMaskForName f of Some m \<Rightarrow> k OR m | None \<Rightarrow> k) 0 vs\<rparr>)"

definition defaultImageFormatSupport :: imageFormatSupport where
  "defaultImageFormatSupport = newImageFormatSupport (Some SupportedImageFormats)"

definition withSourceFormat :: "imageFormatSupport \<Rightarrow> string \<Rightarrow> imageFormatSupport" where
  "withSourceFormat support sourceFormat =
     (let s = (if isupp_values support = None then defaultImageFormatSupport else support)
      in if sourceFormat = [] then s
         else (case imageFormatMaskForName sourceFormat of
                 Some m \<Rightarrow>
                   (if mask_has (isupp_known s) m then s
                    else newImageFormatSupport
                           (Some ((case isupp_values s of None \<Rightarrow> [] | Some vs \<Rightarrow> vs) @ [sourceFormat])))
               | None \<Rightarrow>
                   newImageFormatSupport
                     (Some ((case isupp_values s of None \<Rightarrow> [] | Some vs \<Rightarrow> vs) @ [sourceFormat]))))"

definition imageQualityForFormat ::
    "imagePreferences \<Rightarrow> string \<Rightarrow> f64 \<times> imagePreferenceMatch" where
  "imageQualityForFormat prefs format =
     (case imageFormatMaskForName format of
        Some m \<Rightarrow>
          (if mask_has (explicit prefs) m then (image_quality prefs m, imagePreferenceExplicit)
           else if hasWildcardImage prefs then (wildcardImageQ prefs, imagePreferenceImageWildcard)
           else if hasWildcardAny prefs then (wildcardAnyQ prefs, imagePreferenceAnyWildcard)
           else (f64_zero, imagePreferenceNone))
      | None \<Rightarrow>
          (if hasWildcardImage prefs then (wildcardImageQ prefs, imagePreferenceImageWildcard)
           else if hasWildcardAny prefs then (wildcardAnyQ prefs, imagePreferenceAnyWildcard)
           else (f64_zero, imagePreferenceNone)))"

definition imagePriority :: "int \<Rightarrow> string \<Rightarrow> string \<Rightarrow> int" where
  "imagePriority index format sourceFormat = (if format = sourceFormat then -1 else index)"

definition compareImageCandidates :: "imageCandidate \<Rightarrow> imageCandidate \<Rightarrow> int" where
  "compareImageCandidates left right =
     (if ic_match left \<noteq> ic_match right
      then cmp_int (match_rank (ic_match right)) (match_rank (ic_match left))
      else CompareQualityPriority (ic_q left) (ic_priority left) (ic_q right) (ic_priority right))"

definition imageChoices :: "imagePreferences \<Rightarrow> string \<Rightarrow> string list \<Rightarrow> imageCandidate list" where
  "imageChoices prefs sourceFormat vs =
     List.map_filter
       (\<lambda>(index, format).
          case imageQualityForFormat prefs format of
            (q, match) \<Rightarrow>
              if (f64_lt q f64_zero \<or> f64_eq q f64_zero) \<or> match = imagePreferenceNone then None
              else Some \<lparr>ic_format = format, ic_q = q, ic_match = match,
                         ic_priority = imagePriority (int index) format sourceFormat\<rparr>)
       (enumerate 0 vs)"

definition buildImageCandidates ::
    "imagePreferences \<Rightarrow> string \<Rightarrow> imageFormatSupport \<Rightarrow> string list option" where
  "buildImageCandidates prefs sourceFormat supported =
     (let s = withSourceFormat supported sourceFormat;
          candidates = imageChoices prefs sourceFormat (case isupp_values s of None \<Rightarrow> [] | Some vs \<Rightarrow> vs)
      in if candidates = [] then None
         else Some (map ic_format (sort_func (\<lambda>a b. compareImageCandidates a b < 0) candidates)))"

definition parseAcceptImageFormatsWithSupport ::
    "string \<Rightarrow> string \<Rightarrow> imageFormatSupport \<Rightarrow> string list option" where
  "parseAcceptImageFormatsWithSupport header sourceFormat supported =
     (if IsBlank header then None
      else buildImageCandidates (collectImagePreferences header)
             (NormalizeImageFormat sourceFormat) supported)"

definition ParseAcceptImageFormats ::
    "string \<Rightarrow> string \<Rightarrow> string list option \<Rightarrow> string list option" where
  "ParseAcceptImageFormats header sourceFormat supported =
     parseAcceptImageFormatsWithSupport header sourceFormat (newImageFormatSupport supported)"

section \<open>Facts about the masks\<close>

lemma mask_has_or: "mask_has (k OR m) v \<longleftrightarrow> mask_has k v \<or> mask_has m v"
proof -
  have "(k OR m) AND v = (k AND v) OR (m AND v)" by (simp add: bit.conj_disj_distrib2)
  moreover have "a OR b = 0 \<longleftrightarrow> a = 0 \<and> b = 0" for a b :: mask
    by (auto simp: bit_eq_iff bit_or_iff)
  ultimately show ?thesis by (simp add: mask_has_def)
qed

lemma mask_has_zero [simp]: "\<not> mask_has 0 v"
  by (simp add: mask_has_def)

lemma known_mask_has:
  "knownEncodingMask a = Some m \<Longrightarrow> knownEncodingMask b = Some v \<Longrightarrow> mask_has m v \<longleftrightarrow> a = b"
  by (auto simp: knownEncodingMask_def encodingMasks mask_has_def split: if_splits)

lemma known_mask_inj:
  "knownEncodingMask a = Some m \<Longrightarrow> knownEncodingMask b = Some m \<Longrightarrow> a = b"
  by (auto simp: knownEncodingMask_def encodingMasks split: if_splits)

lemma image_mask_has:
  "imageFormatMaskForName a = Some m \<Longrightarrow> imageFormatMaskForName b = Some v \<Longrightarrow>
    mask_has m v \<longleftrightarrow> a = b"
  by (auto simp: imageFormatMaskForName_def imageFormatMasks mask_has_def split: if_splits)

lemma foldl_mask_has:
  assumes sep: "\<And>a b m v. f a = Some m \<Longrightarrow> f b = Some v \<Longrightarrow> mask_has m v \<longleftrightarrow> a = b"
    and "f e = Some v"
  shows "mask_has (foldl (\<lambda>k e. case f e of Some m \<Rightarrow> k OR m | None \<Rightarrow> k) k vs) v \<longleftrightarrow>
    mask_has k v \<or> e \<in> set vs"
proof (induction vs arbitrary: k)
  case (Cons x vs)
  show ?case
    using Cons assms(2) sep [of x _ e v]
    by (auto simp: mask_has_or split: option.splits)
qed simp

section \<open>The qualities the header offers\<close>

text \<open>Replacing a quality only by a better one computes the best one.\<close>

definition better :: "f64 option \<Rightarrow> f64 \<Rightarrow> f64 option" where
  "better c q = (case c of None \<Rightarrow> Some q | Some p \<Rightarrow> Some (if f64_lt p q then q else p))"

definition best_of :: "f64 list \<Rightarrow> f64 option" where
  "best_of qs = foldl better None qs"

text \<open>What the preferences say of a name: the field or the map entry of the name.\<close>

definition named_quality :: "encodingPreferences \<Rightarrow> string \<Rightarrow> f64 option" where
  "named_quality prefs e =
     (case knownEncodingQuality prefs e of Some q \<Rightarrow> Some q | None \<Rightarrow> extra prefs e)"

definition extra_unknown :: "encodingPreferences \<Rightarrow> bool" where
  "extra_unknown prefs \<longleftrightarrow> (\<forall>e. knownEncodingMask e \<noteq> None \<longrightarrow> extra prefs e = None)"

definition support_complete :: "encodingSupport \<Rightarrow> string list \<Rightarrow> bool" where
  "support_complete s vs \<longleftrightarrow> esupp_values s = Some vs \<and>
     (\<forall>e m. e \<in> set vs \<longrightarrow> knownEncodingMask e = Some m \<longrightarrow> mask_has (esupp_known s) m)"

lemma newEncodingSupport_complete:
  "support_complete (newEncodingSupportFromValues supported)
     (case supported of None \<Rightarrow> DefaultNames | Some v \<Rightarrow> if v = [] then DefaultNames else v)"
  unfolding support_complete_def newEncodingSupportFromValues_def Let_def
  by (simp add: foldl_mask_has [of knownEncodingMask, OF known_mask_has])

lemma setKnownQuality_simps [simp]:
  "known (setKnownQuality p m q) = known p" "extra (setKnownQuality p m q) = extra p"
  "hasWildcard (setKnownQuality p m q) = hasWildcard p"
  "wildcardQ (setKnownQuality p m q) = wildcardQ p"
  by (simp_all add: setKnownQuality_def)

lemma knownQuality_set:
  "knownEncodingMask a = Some m \<Longrightarrow> knownEncodingMask b = Some v \<Longrightarrow>
    knownQuality (setKnownQuality p m q) v = (if a = b then q else knownQuality p v)"
  by (auto simp: knownEncodingMask_def encodingMasks knownQuality_def setKnownQuality_def
      split: if_splits)

lemma knownQuality_known [simp]: "knownQuality (p\<lparr>known := k\<rparr>) m = knownQuality p m"
  by (simp add: knownQuality_def)

lemma setKnown_named:
  assumes m: "knownEncodingMask a = Some m" and ex: "extra_unknown p"
  shows "named_quality (setKnown p m q) e =
    (if e = a then better (named_quality p e) q else named_quality p e)"
proof (cases "knownEncodingMask e")
  case None
  then show ?thesis using m
    by (auto simp: named_quality_def knownEncodingQuality_def setKnown_def Let_def)
next
  case (Some v)
  have ex': "extra p e = None" using ex Some by (simp add: extra_unknown_def)
  have h: "mask_has m v \<longleftrightarrow> a = e" using known_mask_has [OF m Some] .
  show ?thesis
    using m Some ex' h knownQuality_set [OF m Some] known_mask_inj [OF m, of e]
    by (auto simp: named_quality_def knownEncodingQuality_def setKnown_def Let_def better_def
        ShouldReplaceQuality_def mask_has_or)
qed

lemma setKnown_extra [simp]: "extra (setKnown p m q) = extra p"
  "hasWildcard (setKnown p m q) = hasWildcard p" "wildcardQ (setKnown p m q) = wildcardQ p"
  by (simp_all add: setKnown_def Let_def)

lemma apply_extra_unknown:
  "extra_unknown p \<Longrightarrow> extra_unknown (applyEncodingPreference s p x)"
  by (auto simp: extra_unknown_def applyEncodingPreference_def applyExtraEncodingPreference_def Let_def
      split: option.splits)

lemma apply_named:
  assumes s: "support_complete s vs" and e: "e \<in> set vs" "e \<noteq> ''*''" and p: "extra_unknown p"
  shows "named_quality (applyEncodingPreference s p x) e =
    (if Token x = e then better (named_quality p e) (Quality x) else named_quality p e)"
proof (cases "Token x = ''*''")
  case True
  then show ?thesis using e(2)
    by (auto simp: applyEncodingPreference_def named_quality_def knownEncodingQuality_def
        knownQuality_def split: option.splits)
next
  case nw: False
  show ?thesis
  proof (cases "knownEncodingMask (Token x)")
    case (Some m)
    have "Token x = e \<Longrightarrow> mask_has (esupp_known s) m"
      using s e(1) Some by (auto simp: support_complete_def)
    then show ?thesis
      using nw Some setKnown_named [OF Some p, of "Quality x" e]
      by (auto simp: applyEncodingPreference_def)
  next
    case None
    have supp: "Token x = e \<Longrightarrow> supportsExtra s (Token x)"
      using s e(1) by (auto simp: support_complete_def supportsExtra_def list_ex_iff)
    have "knownEncodingQuality (applyExtraEncodingPreference p x) e = knownEncodingQuality p e"
      by (auto simp: applyExtraEncodingPreference_def Let_def knownEncodingQuality_def
          knownQuality_def split: option.splits)
    moreover have "Token x = e \<Longrightarrow> knownEncodingQuality p e = None"
      using None by (simp add: knownEncodingQuality_def)
    moreover have "extra (applyExtraEncodingPreference p x) e =
        (if Token x = e then better (extra p e) (Quality x) else extra p e)"
      by (auto simp: applyExtraEncodingPreference_def Let_def better_def ShouldReplaceQuality_def
          split: option.splits)
    ultimately show ?thesis
      using nw None supp
      by (auto simp: applyEncodingPreference_def named_quality_def split: option.splits)
  qed
qed

definition offered :: "accept_entry list \<Rightarrow> string \<Rightarrow> f64 list" where
  "offered es e = map Quality (filter (\<lambda>x. Token x = e) es)"

lemma foldl_named:
  assumes s: "support_complete s vs" and e: "e \<in> set vs" "e \<noteq> ''*''"
  shows "extra_unknown p \<Longrightarrow>
    named_quality (foldl (applyEncodingPreference s) p es) e =
      foldl better (named_quality p e) (offered es e)"
proof (induction es arbitrary: p)
  case (Cons x es)
  from Cons.IH [OF apply_extra_unknown [OF Cons.prems]] apply_named [OF s e Cons.prems]
  show ?case by (simp add: offered_def)
qed (simp add: offered_def)

definition last_quality :: "f64 list \<Rightarrow> f64 option" where
  "last_quality qs = (if qs = [] then None else Some (last qs))"

lemma apply_wildcard:
  "hasWildcard (applyEncodingPreference s p x) = (hasWildcard p \<or> Token x = ''*'')"
  "wildcardQ (applyEncodingPreference s p x) = (if Token x = ''*'' then Quality x else wildcardQ p)"
  by (auto simp: applyEncodingPreference_def applyExtraEncodingPreference_def Let_def
      split: option.splits)

definition wild_quality :: "encodingPreferences \<Rightarrow> f64 option" where
  "wild_quality p = (if hasWildcard p then Some (wildcardQ p) else None)"

lemma foldl_wildcard:
  "wild_quality (foldl (applyEncodingPreference s) p es) =
     (case last_quality (offered es ''*'') of None \<Rightarrow> wild_quality p | Some q \<Rightarrow> Some q)"
proof (induction es arbitrary: p)
  case (Cons x es)
  have "wild_quality (applyEncodingPreference s p x) =
      (if Token x = ''*'' then Some (Quality x) else wild_quality p)"
    by (simp add: wild_quality_def apply_wildcard)
  then show ?case
    by (simp add: Cons.IH offered_def last_quality_def)
qed (simp add: offered_def last_quality_def)

text \<open>The quality the header gives a supported name: its own best quality, else that of the last
  wildcard entry, else nothing.\<close>

definition entry_quality :: "accept_entry list \<Rightarrow> string \<Rightarrow> f64 option" where
  "entry_quality es e =
     (case (if e = ''*'' then None else best_of (offered es e)) of
        Some q \<Rightarrow> Some q
      | None \<Rightarrow> last_quality (offered es ''*''))"

definition positive :: "f64 option \<Rightarrow> bool" where
  "positive q = (case q of None \<Rightarrow> False | Some x \<Rightarrow> f64_lt f64_zero x)"

lemma named_empty [simp]: "named_quality emptyPreferences e = None" "extra_unknown emptyPreferences"
  by (auto simp: named_quality_def knownEncodingQuality_def emptyPreferences_def extra_unknown_def
      split: option.splits)

lemma unit_not_nan_positive:
  "unit_quality q \<Longrightarrow> q \<noteq> NaN \<Longrightarrow> \<not> (f64_lt q f64_zero \<or> f64_eq q f64_zero) \<longleftrightarrow> f64_lt f64_zero q"
  by (auto simp: unit_quality_def f64_eq_def)

text \<open>No entry of the header carries the quality \<open>nan\<close>, which Go's parser accepts.\<close>

definition nan_free :: "string \<Rightarrow> bool" where
  "nan_free header = list_all (\<lambda>x. Quality x \<noteq> NaN) (ForEachAcceptEntry header)"

lemma foldl_named_star:
  "extra p ''*'' = None \<Longrightarrow> named_quality (foldl (applyEncodingPreference s) p es) ''*'' = None"
proof (induction es arbitrary: p)
  case Nil
  then show ?case
    by (simp add: named_quality_def knownEncodingQuality_def knownEncodingMask_def)
next
  case (Cons x es)
  have "extra (applyEncodingPreference s p x) ''*'' = None"
    using Cons.prems
    by (auto simp: applyEncodingPreference_def applyExtraEncodingPreference_def Let_def
        split: option.splits)
  with Cons.IH show ?case by simp
qed

lemma encodingQuality_named:
  "encodingQuality p e =
    (case named_quality p e of
       Some q \<Rightarrow> (q, f64_lt f64_zero q)
     | None \<Rightarrow>
         (case wild_quality p of
            None \<Rightarrow> (f64_zero, False)
          | Some q \<Rightarrow> if f64_lt q f64_zero \<or> f64_eq q f64_zero then (f64_zero, False) else (q, True)))"
  by (auto simp: encodingQuality_def named_quality_def wild_quality_def wildcardEncodingQuality_def
      split: option.splits)

lemma encodingQuality_spec:
  assumes s: "support_complete s vs" and e: "e \<in> set vs" and nan: "nan_free header"
  shows "case encodingQuality (collectEncodingPreferences header s) e of (q, ok) \<Rightarrow>
    ok = positive (entry_quality (ForEachAcceptEntry header) e) \<and>
    (ok \<longrightarrow> entry_quality (ForEachAcceptEntry header) e = Some q)"
proof -
  let ?es = "ForEachAcceptEntry header" and ?p = "collectEncodingPreferences header s"
  have named: "named_quality ?p e = (if e = ''*'' then None else best_of (offered ?es e))"
  proof (cases "e = ''*''")
    case True
    then show ?thesis
      using foldl_named_star [of emptyPreferences s ?es]
      by (simp add: collectEncodingPreferences_def emptyPreferences_def)
  next
    case False
    then show ?thesis
      using foldl_named [OF s e False, of emptyPreferences ?es]
      by (simp add: collectEncodingPreferences_def best_of_def)
  qed
  have wild: "wild_quality ?p = last_quality (offered ?es ''*'')"
    using foldl_wildcard [of s emptyPreferences ?es]
    by (simp add: collectEncodingPreferences_def wild_quality_def emptyPreferences_def
        split: option.splits)
  have unit: "\<not> (f64_lt q f64_zero \<or> f64_eq q f64_zero) \<longleftrightarrow> f64_lt f64_zero q"
    if "last_quality (offered ?es ''*'') = Some q" for q
  proof -
    from that have "q \<in> set (offered ?es ''*'')" by (auto simp: last_quality_def split: if_splits)
    with nan accept_entry_unit show ?thesis
      by (intro unit_not_nan_positive) (auto simp: offered_def nan_free_def list_all_iff)
  qed
  show ?thesis
    unfolding encodingQuality_named named wild entry_quality_def
    using unit by (auto simp: positive_def split: option.splits if_splits)
qed

section \<open>The order of the candidates\<close>

text \<open>Candidates have numeric qualities and pairwise different priorities, so the comparator is a
  strict total order on them.\<close>

lemma quality_priority_lt:
  "q \<noteq> NaN \<Longrightarrow> r \<noteq> NaN \<Longrightarrow>
    CompareQualityPriority q i r j < 0 \<longleftrightarrow> f64_lt r q \<or> (q = r \<and> i < j)"
  by (auto simp: CompareQualityPriority_def f64_eq_def) (cases q; cases r; auto)

lemma f64_lt_asym: "f64_lt a b \<Longrightarrow> \<not> f64_lt b a"
  by (cases a; cases b) auto

lemma f64_lt_irrefl [simp]: "\<not> f64_lt a a"
  by (cases a) auto

lemma f64_lt_trans: "f64_lt a b \<Longrightarrow> f64_lt b c \<Longrightarrow> f64_lt a c"
  by (cases a; cases b; cases c) auto

lemma f64_lt_total: "a \<noteq> NaN \<Longrightarrow> b \<noteq> NaN \<Longrightarrow> f64_lt a b \<or> a = b \<or> f64_lt b a"
  by (cases a; cases b) auto

lemma set_map_filter_enumerate:
  "c \<in> set (List.map_filter (\<lambda>(i, x). g i x) (enumerate n xs)) \<longleftrightarrow>
    (\<exists>i<length xs. g (n + i) (xs ! i) = Some c)"
proof (induction xs arbitrary: n)
  case (Cons x xs)
  have "(\<exists>i<length (x # xs). g (n + i) ((x # xs) ! i) = Some c) \<longleftrightarrow>
      g n x = Some c \<or> (\<exists>i<length xs. g (Suc n + i) (xs ! i) = Some c)"
    by (simp add: Ex_less_Suc2)
  with Cons.IH [of "Suc n"] show ?case
    by (auto simp: map_filter_simps split: option.splits)
qed (simp add: map_filter_def)

lemma distinct_map_filter_enumerate:
  assumes "distinct xs" and "\<And>i x c. g i x = Some c \<Longrightarrow> f c = x"
  shows "distinct (map f (List.map_filter (\<lambda>(i, x). g i x) (enumerate n xs)))"
  using assms(1)
proof (induction xs arbitrary: n)
  case (Cons x xs)
  have "f c \<in> set xs" if "c \<in> set (List.map_filter (\<lambda>(i, x). g i x) (enumerate (Suc n) xs))" for c
  proof -
    from that obtain i where "i < length xs" "g (Suc n + i) (xs ! i) = Some c"
      unfolding set_map_filter_enumerate by auto
    then show ?thesis using assms(2) nth_mem by metis
  qed
  with Cons assms(2) show ?case
    by (auto simp: map_filter_simps split: option.splits)
qed (simp add: map_filter_def)

lemma encodingChoices_iff:
  "c \<in> set (encodingChoices prefs vs) \<longleftrightarrow>
    (\<exists>i<length vs. \<exists>q. encodingQuality prefs (vs ! i) = (q, True) \<and>
       c = \<lparr>cand_encoding = vs ! i, cand_q = q, cand_priority = int i\<rparr>)"
  unfolding encodingChoices_def set_map_filter_enumerate
  by (intro ex_cong1) (auto split: prod.splits if_splits)

lemma encodingChoices_distinct:
  "distinct vs \<Longrightarrow> distinct (map cand_encoding (encodingChoices prefs vs))"
  unfolding encodingChoices_def
  by (rule distinct_map_filter_enumerate) (auto split: prod.splits if_splits)

definition position :: "'a list \<Rightarrow> 'a \<Rightarrow> nat" where
  "position xs x = length (takeWhile (\<lambda>y. y \<noteq> x) xs)"

lemma position_nth: "distinct xs \<Longrightarrow> i < length xs \<Longrightarrow> position xs (xs ! i) = i"
proof -
  assume d: "distinct xs" and i: "i < length xs"
  have "takeWhile (\<lambda>y. y \<noteq> xs ! i) (take i xs @ xs ! i # drop (Suc i) xs) = take i xs"
    using d i by (subst takeWhile_append2)
      (auto simp: in_set_conv_nth nth_eq_iff_index_eq)
  then show ?thesis unfolding position_def using i by (simp add: id_take_nth_drop [symmetric])
qed

lemma quality_order_weak:
  assumes "\<And>c. c \<in> A \<Longrightarrow> k c \<noteq> NaN"
  shows "strict_weak_on A (\<lambda>a b. CompareQualityPriority (k a) (p a) (k b) (p b) < 0)"
proof -
  have total: "\<not> f64_lt a b \<longleftrightarrow> a = b \<or> f64_lt b a" if "a \<noteq> NaN" "b \<noteq> NaN" for a b
    using that f64_lt_total [of a b] f64_lt_asym [of a b] f64_lt_asym [of b b] by auto
  show ?thesis
    unfolding strict_weak_on_def
    using assms
    by (auto simp: quality_priority_lt total dest: f64_lt_asym f64_lt_trans)
qed

text \<open>The codings the response may use, best first: \<open>q\<close> gives the quality of each name and
  ties keep the order of \<open>vs\<close>.\<close>

definition ranked :: "(string \<Rightarrow> f64 option) \<Rightarrow> string list \<Rightarrow> string list option \<Rightarrow> bool" where
  "ranked q vs result =
     (case result of
        None \<Rightarrow> (\<forall>e\<in>set vs. \<not> positive (q e))
      | Some es \<Rightarrow>
          es \<noteq> [] \<and> distinct es \<and> set es = {e \<in> set vs. positive (q e)} \<and>
          sorted_wrt (\<lambda>a b. f64_lt (the (q b)) (the (q a)) \<or>
             (q a = q b \<and> position vs a < position vs b)) es)"

lemma buildEncodingCandidates_ranked:
  assumes s: "support_complete s vs" and d: "distinct vs" and nan: "nan_free header"
  shows "ranked (entry_quality (ForEachAcceptEntry header)) vs
    (buildEncodingCandidates (collectEncodingPreferences header s) s)"
proof -
  let ?q = "entry_quality (ForEachAcceptEntry header)"
  let ?p = "collectEncodingPreferences header s"
  let ?cs = "encodingChoices ?p vs"
  let ?lt = "\<lambda>a b. compareEncodingCandidates a b < 0"
  have mem: "c \<in> set ?cs \<longleftrightarrow> cand_encoding c \<in> set vs \<and> positive (?q (cand_encoding c)) \<and>
      ?q (cand_encoding c) = Some (cand_q c) \<and>
      cand_priority c = int (position vs (cand_encoding c))" for c
  proof -
    have spec: "encodingQuality ?p (vs ! i) = (q, True) \<longleftrightarrow> positive (?q (vs ! i)) \<and> ?q (vs ! i) = Some q"
      if "i < length vs" for i q
      using encodingQuality_spec [OF s nth_mem [OF that] nan] by (auto split: prod.splits)
    show ?thesis
    proof
      assume "c \<in> set ?cs"
      then show "cand_encoding c \<in> set vs \<and> positive (?q (cand_encoding c)) \<and>
          ?q (cand_encoding c) = Some (cand_q c) \<and>
          cand_priority c = int (position vs (cand_encoding c))"
        unfolding encodingChoices_iff using spec by (auto simp: position_nth [OF d])
    next
      assume a: "cand_encoding c \<in> set vs \<and> positive (?q (cand_encoding c)) \<and>
          ?q (cand_encoding c) = Some (cand_q c) \<and>
          cand_priority c = int (position vs (cand_encoding c))"
      then obtain i where "i < length vs" "vs ! i = cand_encoding c"
        by (auto simp: in_set_conv_nth)
      with a spec [of i "cand_q c"] position_nth [OF d, of i] show "c \<in> set ?cs"
        unfolding encodingChoices_iff by (intro exI [of _ i]) auto
    qed
  qed
  have notnan: "cand_q c \<noteq> NaN" if "c \<in> set ?cs" for c
    using that mem [of c] by (auto simp: positive_def)
  have weak: "strict_weak_on (set ?cs) ?lt"
    unfolding compareEncodingCandidates_def by (rule quality_order_weak) (rule notnan)
  have dist: "distinct (map cand_encoding (sort_func ?lt ?cs))"
    using encodingChoices_distinct [OF d, of ?p] set_sort_func [of ?lt ?cs]
    by (simp add: distinct_map)
  have sets: "cand_encoding ` set ?cs = {e \<in> set vs. positive (?q e)}"
  proof (intro set_eqI iffI)
    fix e assume "e \<in> {e \<in> set vs. positive (?q e)}"
    then have "\<lparr>cand_encoding = e, cand_q = the (?q e), cand_priority = int (position vs e)\<rparr> \<in> set ?cs"
      unfolding mem by (auto simp: positive_def split: option.splits)
    then show "e \<in> cand_encoding ` set ?cs" by force
  qed (auto simp: mem)
  have "sorted_wrt (\<lambda>a b. f64_lt (the (?q (cand_encoding b))) (the (?q (cand_encoding a))) \<or>
      ?q (cand_encoding a) = ?q (cand_encoding b) \<and>
      position vs (cand_encoding a) < position vs (cand_encoding b)) (sort_func ?lt ?cs)"
  proof (rule sorted_wrt_mono_on [OF sorted_sort_func [OF weak]])
    show "distinct (sort_func ?lt ?cs)" using dist by (rule distinct_map [THEN iffD1, THEN conjunct1])
    fix a b assume ab: "a \<in> set (sort_func ?lt ?cs)" "b \<in> set (sort_func ?lt ?cs)" "a \<noteq> b" "\<not> ?lt b a"
    then have in_cs: "a \<in> set ?cs" "b \<in> set ?cs" by simp_all
    have "cand_encoding a \<noteq> cand_encoding b"
      using in_cs mem [of a] mem [of b] ab(3) by (metis encodingCandidate.equality option.inject old.unit.exhaust)
    with in_cs have "position vs (cand_encoding a) \<noteq> position vs (cand_encoding b)"
      using mem position_nth [OF d] by (metis in_set_conv_nth)
    have qa: "?q (cand_encoding a) = Some (cand_q a)" "?q (cand_encoding b) = Some (cand_q b)"
      and pr: "cand_priority a = int (position vs (cand_encoding a))"
        "cand_priority b = int (position vs (cand_encoding b))"
      using in_cs mem by blast+
    have "\<not> (f64_lt (cand_q a) (cand_q b) \<or> cand_q b = cand_q a \<and> cand_priority b < cand_priority a)"
      using ab(4) quality_priority_lt [OF notnan [OF in_cs(2)] notnan [OF in_cs(1)]]
      by (simp add: compareEncodingCandidates_def)
    with f64_lt_total [OF notnan [OF in_cs(1)] notnan [OF in_cs(2)]]
    show "f64_lt (the (?q (cand_encoding b))) (the (?q (cand_encoding a))) \<or>
      ?q (cand_encoding a) = ?q (cand_encoding b) \<and>
      position vs (cand_encoding a) < position vs (cand_encoding b)"
      unfolding qa pr using \<open>position vs (cand_encoding a) \<noteq> position vs (cand_encoding b)\<close> by auto
  qed
  then have sorted: "sorted_wrt (\<lambda>a b. f64_lt (the (?q b)) (the (?q a)) \<or>
      ?q a = ?q b \<and> position vs a < position vs b) (map cand_encoding (sort_func ?lt ?cs))"
    unfolding sorted_wrt_map .
  have vals: "esupp_values s = Some vs" using s by (simp add: support_complete_def)
  show ?thesis
  proof (cases "?cs = []")
    case True
    then have "buildEncodingCandidates ?p s = None"
      by (simp add: buildEncodingCandidates_def vals)
    moreover from True sets have "{e \<in> set vs. positive (?q e)} = {}" by simp
    ultimately show ?thesis by (simp add: ranked_def)
  next
    case False
    then have res: "buildEncodingCandidates ?p s = Some (map cand_encoding (sort_func ?lt ?cs))"
      by (simp add: buildEncodingCandidates_def vals)
    have ne: "map cand_encoding (sort_func ?lt ?cs) \<noteq> []"
      using False set_sort_func [of ?lt ?cs] by (metis map_is_Nil_conv set_empty)
    have "set (map cand_encoding (sort_func ?lt ?cs)) = {e \<in> set vs. positive (?q e)}"
      unfolding sets [symmetric] by simp
    with ne dist sorted show ?thesis unfolding res ranked_def option.case by blast
  qed
qed

text \<open>The codings \<open>ParseAcceptEncoding\<close> chooses from.\<close>

definition offered_codings :: "string list option \<Rightarrow> string list" where
  "offered_codings supported =
     (case NormalizeNames supported of
        None \<Rightarrow> DefaultNames | Some v \<Rightarrow> if v = [] then DefaultNames else v)"

lemma offered_codings_distinct: "distinct (offered_codings supported)"
  by (auto simp: offered_codings_def DefaultNames_def NormalizeNames_def NilIfEmpty_def
      dest: NormalizeStringList_distinct split: option.splits if_splits)

text \<open>C9: content negotiation is correct: for a header without a NaN quality, the result lists
  exactly the supported codings to which the header gives a positive quality (by name, else by the
  last wildcard), best quality first and in the server's order on ties.\<close>

theorem ParseAcceptEncoding_ranked:
  assumes "\<not> IsBlank header" and "nan_free header"
  shows "ranked (entry_quality (ForEachAcceptEntry header)) (offered_codings supported)
    (ParseAcceptEncoding header supported)"
proof -
  have "support_complete (newStrictEncodingSupport supported) (offered_codings supported)"
    unfolding newStrictEncodingSupport_def offered_codings_def by (rule newEncodingSupport_complete)
  from buildEncodingCandidates_ranked [OF this offered_codings_distinct assms(2)] assms(1)
  show ?thesis
    by (simp add: ParseAcceptEncoding_def parseAcceptEncodingWithSupport_def Let_def
        newStrictEncodingSupport_def newEncodingSupportFromValues_def)
qed

lemma accept_header_example:
  "\<not> IsBlank ''zstd, gzip;q=0, *'' \<and> nan_free ''gzip, *''"
  by code_simp

theorem ParseAcceptEncoding_ranked_witness:
  "ranked (entry_quality (ForEachAcceptEntry ''gzip, *'')) (offered_codings None)
     (ParseAcceptEncoding ''gzip, *'' None) \<and>
   ParseAcceptEncoding ''gzip, zstd'' None = Some [''zstd'', ''gzip'']"
  by (rule conjI, rule ParseAcceptEncoding_ranked; code_simp)

end
