(* ===== verification/AcceptImage.thy ===== *)
theory AcceptImage
  imports Accept
begin

text \<open>
  Correctness of the image negotiation of \<open>internal/resolver/accept_image.go\<close>: what the
  \<open>Accept\<close> header says of a format (\<open>image_entry_quality\<close>, read off the entries), that the
  masked fields of \<open>imagePreferences\<close> hold exactly that, and the order of the result.
\<close>

section \<open>Image formats: what the header offers\<close>

text \<open>The image format an accept token names, and the qualities the header gives a format.\<close>

definition token_format :: "string \<Rightarrow> string option" where
  "token_format t =
     (if t = ''image/*'' \<or> t = ''*/*'' then None
      else map_option Name (LookupImageDescriptorByAcceptToken t))"

definition image_offered :: "accept_entry list \<Rightarrow> string \<Rightarrow> f64 list" where
  "image_offered es f = map Quality (filter (\<lambda>x. token_format (Token x) = Some f) es)"

definition image_entry_quality ::
    "accept_entry list \<Rightarrow> string \<Rightarrow> f64 \<times> imagePreferenceMatch" where
  "image_entry_quality es f =
     (case best_of (image_offered es f) of
        Some q \<Rightarrow> (q, imagePreferenceExplicit)
      | None \<Rightarrow>
          (case last_quality (offered es ''image/*'') of
             Some q \<Rightarrow> (q, imagePreferenceImageWildcard)
           | None \<Rightarrow>
               (case last_quality (offered es ''*/*'') of
                  Some q \<Rightarrow> (q, imagePreferenceAnyWildcard)
                | None \<Rightarrow> (f64_zero, imagePreferenceNone))))"

definition explicit_quality :: "imagePreferences \<Rightarrow> string \<Rightarrow> f64 option" where
  "explicit_quality prefs f =
     (case imageFormatMaskForName f of
        None \<Rightarrow> None
      | Some m \<Rightarrow> if mask_has (explicit prefs) m then Some (image_quality prefs m) else None)"

definition wild_image :: "imagePreferences \<Rightarrow> f64 option" where
  "wild_image p = (if hasWildcardImage p then Some (wildcardImageQ p) else None)"

definition wild_any :: "imagePreferences \<Rightarrow> f64 option" where
  "wild_any p = (if hasWildcardAny p then Some (wildcardAnyQ p) else None)"

lemma descriptor_mask:
  assumes "LookupImageDescriptorByAcceptToken t = Some d"
  obtains m where "imageFormatMaskForName (Name d) = Some m"
proof -
  have "d \<in> set imageFormatDescriptors"
    using assms
    by (auto simp: LookupImageDescriptorByAcceptToken_def buildImageDescriptorsByAcceptToken_def
        dest!: map_of_SomeD)
  then have "imageFormatMaskForName (Name d) \<noteq> None"
    by (auto simp: imageFormatDescriptors_def imageFormatMaskForName_def)
  with that show thesis by auto
qed

lemma image_mask_inj:
  "imageFormatMaskForName a = Some m \<Longrightarrow> imageFormatMaskForName b = Some m \<Longrightarrow> a = b"
  by (auto simp: imageFormatMaskForName_def imageFormatMasks split: if_splits)

lemma setQuality_simps [simp]:
  "explicit (setQuality p m q) = explicit p"
  "wild_image (setQuality p m q) = wild_image p" "wild_any (setQuality p m q) = wild_any p"
  by (simp_all add: setQuality_def wild_image_def wild_any_def)

lemma image_quality_set:
  "imageFormatMaskForName a = Some m \<Longrightarrow> imageFormatMaskForName b = Some v \<Longrightarrow>
    image_quality (setQuality p m q) v = (if a = b then q else image_quality p v)"
  by (auto simp: imageFormatMaskForName_def imageFormatMasks image_quality_def setQuality_def
      split: if_splits)

lemma image_quality_explicit [simp]: "image_quality (p\<lparr>explicit := k\<rparr>) m = image_quality p m"
  by (simp add: image_quality_def)

lemma setExplicit_wild [simp]:
  "wild_image (setExplicit p m q) = wild_image p" "wild_any (setExplicit p m q) = wild_any p"
proof -
  have "wild_image (p\<lparr>explicit := k\<rparr>) = wild_image p" "wild_any (p\<lparr>explicit := k\<rparr>) = wild_any p" for k
    by (simp_all add: wild_image_def wild_any_def)
  then show "wild_image (setExplicit p m q) = wild_image p" "wild_any (setExplicit p m q) = wild_any p"
    by (simp_all add: setExplicit_def)
qed

lemma setExplicit_quality:
  assumes m: "imageFormatMaskForName a = Some m" and v: "imageFormatMaskForName f = Some v"
  shows "explicit_quality (setExplicit p m q) f =
    (if a = f then better (explicit_quality p f) q else explicit_quality p f)"
  using m v image_mask_has [OF m v] image_quality_set [OF m v]
  by (auto simp: explicit_quality_def setExplicit_def better_def ShouldReplaceQuality_def mask_has_or)

lemma applyImage_explicit:
  assumes v: "imageFormatMaskForName f = Some v"
  shows "explicit_quality (applyImagePreference p x) f =
    (if token_format (Token x) = Some f then better (explicit_quality p f) (Quality x)
     else explicit_quality p f)"
proof (cases "Token x = ''image/*'' \<or> Token x = ''*/*''")
  case True
  then show ?thesis
    by (auto simp: applyImagePreference_def token_format_def explicit_quality_def image_quality_def
        split: option.splits)
next
  case False
  show ?thesis
  proof (cases "LookupImageDescriptorByAcceptToken (Token x)")
    case None
    with False show ?thesis by (simp add: applyImagePreference_def token_format_def)
  next
    case (Some d)
    obtain m where "imageFormatMaskForName (Name d) = Some m" using descriptor_mask [OF Some] .
    with False Some setExplicit_quality [OF this v] show ?thesis
      by (simp add: applyImagePreference_def token_format_def)
  qed
qed

lemma applyImage_wild:
  "wild_image (applyImagePreference p x) =
    (if Token x = ''image/*'' then Some (Quality x) else wild_image p)"
  "wild_any (applyImagePreference p x) =
    (if Token x = ''*/*'' then Some (Quality x) else wild_any p)"
  by (auto simp: applyImagePreference_def split: option.splits)
     (auto simp: wild_image_def wild_any_def)

lemma foldl_image_explicit:
  assumes "imageFormatMaskForName f = Some v"
  shows "explicit_quality (foldl applyImagePreference p es) f =
    foldl better (explicit_quality p f) (image_offered es f)"
  by (induction es arbitrary: p)
     (simp_all add: applyImage_explicit [OF assms] image_offered_def)

lemma foldl_last:
  assumes "\<And>p x. g (h p x) = (if Token x = t then Some (Quality x) else g p)"
  shows "g (foldl h p es) = (case last_quality (offered es t) of None \<Rightarrow> g p | Some q \<Rightarrow> Some q)"
  by (induction es arbitrary: p) (auto simp: assms offered_def last_quality_def)

lemma imageQualityForFormat_spec:
  assumes v: "imageFormatMaskForName f = Some v"
  shows "imageQualityForFormat (collectImagePreferences header) f =
    image_entry_quality (ForEachAcceptEntry header) f"
proof -
  let ?p = "collectImagePreferences header" and ?es = "ForEachAcceptEntry header"
  have empty: "explicit_quality emptyImagePreferences f = None" "wild_image emptyImagePreferences = None"
    "wild_any emptyImagePreferences = None"
    by (simp_all add: explicit_quality_def emptyImagePreferences_def wild_image_def wild_any_def
        split: option.splits)
  have e: "explicit_quality ?p f = best_of (image_offered ?es f)"
    using foldl_image_explicit [OF v, of emptyImagePreferences ?es] empty
    by (simp add: collectImagePreferences_def best_of_def)
  have i: "wild_image ?p = last_quality (offered ?es ''image/*'')"
    unfolding collectImagePreferences_def
    by (subst foldl_last [where g = wild_image, OF applyImage_wild(1)]) (simp add: empty split: option.splits)
  have a: "wild_any ?p = last_quality (offered ?es ''*/*'')"
    unfolding collectImagePreferences_def
    by (subst foldl_last [where g = wild_any, OF applyImage_wild(2)]) (simp add: empty split: option.splits)
  have "imageQualityForFormat ?p f =
      (case explicit_quality ?p f of Some q \<Rightarrow> (q, imagePreferenceExplicit)
       | None \<Rightarrow> (case wild_image ?p of Some q \<Rightarrow> (q, imagePreferenceImageWildcard)
          | None \<Rightarrow> (case wild_any ?p of Some q \<Rightarrow> (q, imagePreferenceAnyWildcard)
             | None \<Rightarrow> (f64_zero, imagePreferenceNone))))"
    using v by (simp add: imageQualityForFormat_def explicit_quality_def wild_image_def wild_any_def)
  then show ?thesis unfolding e i a image_entry_quality_def .
qed

section \<open>Image formats: the order of the candidates\<close>

text \<open>The place of a candidate: how specific the entry is that allows it, its quality, and its
  priority, the source's own format first.\<close>

definition image_before ::
    "(string \<Rightarrow> f64 \<times> imagePreferenceMatch) \<Rightarrow> (string \<Rightarrow> int) \<Rightarrow> string \<Rightarrow> string \<Rightarrow> bool" where
  "image_before q pr a b \<longleftrightarrow>
     match_rank (snd (q b)) < match_rank (snd (q a)) \<or>
     (snd (q a) = snd (q b) \<and>
      (f64_lt (fst (q b)) (fst (q a)) \<or> (fst (q a) = fst (q b) \<and> pr a < pr b)))"

definition image_allowed :: "f64 \<times> imagePreferenceMatch \<Rightarrow> bool" where
  "image_allowed q \<longleftrightarrow> f64_lt f64_zero (fst q) \<and> snd q \<noteq> imagePreferenceNone"

definition image_ranked ::
    "(string \<Rightarrow> f64 \<times> imagePreferenceMatch) \<Rightarrow> (string \<Rightarrow> int) \<Rightarrow> string list \<Rightarrow>
     string list option \<Rightarrow> bool" where
  "image_ranked q pr vs result =
     (case result of
        None \<Rightarrow> (\<forall>f\<in>set vs. \<not> image_allowed (q f))
      | Some fs \<Rightarrow>
          fs \<noteq> [] \<and> distinct fs \<and> set fs = {f \<in> set vs. image_allowed (q f)} \<and>
          sorted_wrt (image_before q pr) fs)"

lemma match_rank_inj: "match_rank a = match_rank b \<longleftrightarrow> a = b"
  by (cases a; cases b) auto

lemma image_compare_lt:
  "ic_q a \<noteq> NaN \<Longrightarrow> ic_q b \<noteq> NaN \<Longrightarrow>
    compareImageCandidates a b < 0 \<longleftrightarrow>
      match_rank (ic_match b) < match_rank (ic_match a) \<or>
      (ic_match a = ic_match b \<and>
       (f64_lt (ic_q b) (ic_q a) \<or> (ic_q a = ic_q b \<and> ic_priority a < ic_priority b)))"
  using match_rank_inj [of "ic_match a" "ic_match b"]
  by (auto simp: compareImageCandidates_def quality_priority_lt cmp_int_def)

lemma image_order_weak:
  assumes nan: "\<And>c. c \<in> A \<Longrightarrow> ic_q c \<noteq> NaN"
  shows "strict_weak_on A (\<lambda>a b. compareImageCandidates a b < 0)"
proof -
  let ?k = "\<lambda>a b. CompareQualityPriority (ic_q a) (ic_priority a) (ic_q b) (ic_priority b) < 0"
  have weak: "strict_weak_on A ?k" by (rule quality_order_weak) (rule nan)
  have lt: "compareImageCandidates a b < 0 \<longleftrightarrow>
      match_rank (ic_match b) < match_rank (ic_match a) \<or>
      (match_rank (ic_match a) = match_rank (ic_match b) \<and> ?k a b)" for a b
    using match_rank_inj [of "ic_match a" "ic_match b"]
    by (auto simp: compareImageCandidates_def cmp_int_def)
  show ?thesis
    unfolding strict_weak_on_def
  proof (intro conjI ballI impI)
    fix a b assume "a \<in> A" "b \<in> A" "compareImageCandidates a b < 0"
    with strict_weak_asym [OF weak, of a b] show "\<not> compareImageCandidates b a < 0"
      unfolding lt by linarith
  next
    fix a b c assume "a \<in> A" "b \<in> A" "c \<in> A" "\<not> compareImageCandidates a b < 0"
      "\<not> compareImageCandidates b c < 0"
    with strict_weak_trans [OF weak, of a b c] show "\<not> compareImageCandidates a c < 0"
      unfolding lt by linarith
  qed
qed

lemma imageChoices_iff:
  "c \<in> set (imageChoices prefs src vs) \<longleftrightarrow>
    (\<exists>i<length vs. let (q, m) = imageQualityForFormat prefs (vs ! i) in
       \<not> (f64_lt q f64_zero \<or> f64_eq q f64_zero) \<and> m \<noteq> imagePreferenceNone \<and>
       c = \<lparr>ic_format = vs ! i, ic_q = q, ic_match = m,
            ic_priority = imagePriority (int i) (vs ! i) src\<rparr>)"
  unfolding imageChoices_def set_map_filter_enumerate
  by (intro ex_cong1) (auto simp: Let_def split: prod.splits if_splits)

lemma imageChoices_distinct:
  "distinct vs \<Longrightarrow> distinct (map ic_format (imageChoices prefs src vs))"
  unfolding imageChoices_def
  by (rule distinct_map_filter_enumerate) (auto split: prod.splits if_splits)

lemma better_unit:
  "foldl better c qs = Some q \<Longrightarrow> q \<in> set qs \<or> c = Some q"
  by (induction qs arbitrary: c) (fastforce simp: better_def split: option.splits if_splits)+

lemma image_entry_quality_unit:
  assumes "nan_free header" and "image_entry_quality (ForEachAcceptEntry header) f = (q, m)"
  shows "unit_quality q \<and> q \<noteq> NaN"
proof -
  let ?es = "ForEachAcceptEntry header"
  have "m = imagePreferenceNone \<and> q = f64_zero \<or> (\<exists>x\<in>set ?es. q = Quality x)"
    using assms(2) better_unit [of None "image_offered ?es f" q]
    by (auto simp: image_entry_quality_def best_of_def image_offered_def last_quality_def offered_def
        last_map split: option.splits if_splits)
       (metis (no_types, lifting) empty_filter_conv last_in_set mem_Collect_eq set_filter)+
  with assms(1) accept_entry_unit [of _ header] show ?thesis
    by (auto simp: nan_free_def list_all_iff unit_quality_def)
qed

lemma imagePriority_inj:
  "distinct vs \<Longrightarrow> a \<in> set vs \<Longrightarrow> b \<in> set vs \<Longrightarrow> a \<noteq> b \<Longrightarrow>
    imagePriority (int (position vs a)) a src \<noteq> imagePriority (int (position vs b)) b src"
  by (auto simp: imagePriority_def) (metis in_set_conv_nth position_nth)

lemma imageChoices_spec:
  assumes d: "distinct vs" and masks: "\<forall>f\<in>set vs. imageFormatMaskForName f \<noteq> None"
    and nan: "nan_free header"
  defines "q \<equiv> image_entry_quality (ForEachAcceptEntry header)"
  shows "c \<in> set (imageChoices (collectImagePreferences header) src vs) \<longleftrightarrow>
    ic_format c \<in> set vs \<and> image_allowed (q (ic_format c)) \<and>
    (ic_q c, ic_match c) = q (ic_format c) \<and>
    ic_priority c = imagePriority (int (position vs (ic_format c))) (ic_format c) src"
proof -
  let ?p = "collectImagePreferences header"
  have spec: "imageQualityForFormat ?p f = q f" if "f \<in> set vs" for f
    using masks that imageQualityForFormat_spec q_def by fastforce
  have pos: "\<not> (f64_lt (fst (q f)) f64_zero \<or> f64_eq (fst (q f)) f64_zero) \<longleftrightarrow> f64_lt f64_zero (fst (q f))"
    for f
    using image_entry_quality_unit [OF nan, of f "fst (q f)" "snd (q f)"]
    by (intro unit_not_nan_positive) (simp_all add: q_def)
  show ?thesis
  proof
    assume "c \<in> set (imageChoices ?p src vs)"
    then obtain i where i: "i < length vs"
      and c: "c = \<lparr>ic_format = vs ! i, ic_q = fst (q (vs ! i)), ic_match = snd (q (vs ! i)),
            ic_priority = imagePriority (int i) (vs ! i) src\<rparr>"
      and ok: "f64_lt f64_zero (fst (q (vs ! i)))" "snd (q (vs ! i)) \<noteq> imagePreferenceNone"
      unfolding imageChoices_iff using spec pos
      by (metis (mono_tags, lifting) nth_mem split_beta)
    then show "ic_format c \<in> set vs \<and> image_allowed (q (ic_format c)) \<and>
      (ic_q c, ic_match c) = q (ic_format c) \<and>
      ic_priority c = imagePriority (int (position vs (ic_format c))) (ic_format c) src"
      by (simp add: position_nth [OF d] image_allowed_def)
  next
    assume a: "ic_format c \<in> set vs \<and> image_allowed (q (ic_format c)) \<and>
      (ic_q c, ic_match c) = q (ic_format c) \<and>
      ic_priority c = imagePriority (int (position vs (ic_format c))) (ic_format c) src"
    then obtain i where i: "i < length vs" "vs ! i = ic_format c" by (auto simp: in_set_conv_nth)
    from a have qc: "q (ic_format c) = (ic_q c, ic_match c)" by simp
    have "imageQualityForFormat ?p (vs ! i) = (ic_q c, ic_match c)"
      using a i spec qc by simp
    moreover have "\<not> (f64_lt (ic_q c) f64_zero \<or> f64_eq (ic_q c) f64_zero)"
      "ic_match c \<noteq> imagePreferenceNone"
      using a pos [of "ic_format c"] unfolding qc image_allowed_def by simp_all
    moreover have "c = \<lparr>ic_format = vs ! i, ic_q = ic_q c, ic_match = ic_match c,
            ic_priority = imagePriority (int i) (vs ! i) src\<rparr>"
      using a i position_nth [OF d i(1)] by simp
    ultimately show "c \<in> set (imageChoices ?p src vs)"
      unfolding imageChoices_iff using i(1) by (intro exI [of _ i]) simp
  qed
qed

lemma buildImageCandidates_ranked:
  assumes vals: "isupp_values (withSourceFormat s src) = Some vs" and d: "distinct vs"
    and masks: "\<forall>f\<in>set vs. imageFormatMaskForName f \<noteq> None" and nan: "nan_free header"
  defines "q \<equiv> image_entry_quality (ForEachAcceptEntry header)"
    and "pr \<equiv> \<lambda>f. imagePriority (int (position vs f)) f src"
  shows "image_ranked q pr vs (buildImageCandidates (collectImagePreferences header) src s)"
proof -
  let ?cs = "imageChoices (collectImagePreferences header) src vs"
  let ?lt = "\<lambda>a b. compareImageCandidates a b < 0"
  note mem = imageChoices_spec [OF d masks nan, of _ src, folded q_def]
  have notnan: "ic_q c \<noteq> NaN" if "c \<in> set ?cs" for c
    using that mem [of c] image_entry_quality_unit [OF nan] unfolding q_def by metis
  have weak: "strict_weak_on (set ?cs) ?lt" by (rule image_order_weak) (rule notnan)
  have dist: "distinct (map ic_format (sort_func ?lt ?cs))"
    using imageChoices_distinct [OF d] set_sort_func [of ?lt ?cs] by (simp add: distinct_map)
  have sets: "ic_format ` set ?cs = {f \<in> set vs. image_allowed (q f)}"
  proof (intro set_eqI iffI)
    fix f assume "f \<in> {f \<in> set vs. image_allowed (q f)}"
    then have "\<lparr>ic_format = f, ic_q = fst (q f), ic_match = snd (q f), ic_priority = pr f\<rparr> \<in> set ?cs"
      unfolding mem by (simp add: pr_def)
    then show "f \<in> ic_format ` set ?cs" by force
  qed (auto simp: mem)
  have sorted: "sorted_wrt (image_before q pr) (map ic_format (sort_func ?lt ?cs))"
    unfolding sorted_wrt_map
  proof (rule sorted_wrt_mono_on [OF sorted_sort_func [OF weak]])
    show "distinct (sort_func ?lt ?cs)" using dist by (rule distinct_map [THEN iffD1, THEN conjunct1])
    fix a b assume ab: "a \<in> set (sort_func ?lt ?cs)" "b \<in> set (sort_func ?lt ?cs)" "a \<noteq> b" "\<not> ?lt b a"
    then have cs: "a \<in> set ?cs" "b \<in> set ?cs" by simp_all
    have ne: "ic_format a \<noteq> ic_format b"
      using cs mem [of a] mem [of b] ab(3) by (metis imageCandidate.equality old.unit.exhaust prod.inject)
    have qa: "q (ic_format a) = (ic_q a, ic_match a)" "q (ic_format b) = (ic_q b, ic_match b)"
      and pa: "ic_priority a = pr (ic_format a)" "ic_priority b = pr (ic_format b)"
      and va: "ic_format a \<in> set vs" "ic_format b \<in> set vs"
      using cs mem by (simp_all add: pr_def)
    have "pr (ic_format a) \<noteq> pr (ic_format b)"
      unfolding pr_def by (rule imagePriority_inj [OF d va ne])
    with ab(4) f64_lt_total [OF notnan [OF cs(1)] notnan [OF cs(2)]]
      match_rank_inj [of "ic_match a" "ic_match b"]
    show "image_before q pr (ic_format a) (ic_format b)"
      unfolding image_before_def qa image_compare_lt [OF notnan [OF cs(2)] notnan [OF cs(1)]] pa fst_conv snd_conv
      by (metis linorder_neqE)
  qed
  show ?thesis
  proof (cases "?cs = []")
    case True
    then have "buildImageCandidates (collectImagePreferences header) src s = None"
      by (simp add: buildImageCandidates_def vals)
    moreover from True sets have "{f \<in> set vs. image_allowed (q f)} = {}" by simp
    ultimately show ?thesis by (simp add: image_ranked_def)
  next
    case False
    then have res: "buildImageCandidates (collectImagePreferences header) src s =
        Some (map ic_format (sort_func ?lt ?cs))"
      by (simp add: buildImageCandidates_def vals)
    have ne: "map ic_format (sort_func ?lt ?cs) \<noteq> []"
      using False set_sort_func [of ?lt ?cs] by (metis map_is_Nil_conv set_empty)
    have "set (map ic_format (sort_func ?lt ?cs)) = {f \<in> set vs. image_allowed (q f)}"
      unfolding sets [symmetric] by simp
    with ne dist sorted show ?thesis unfolding res image_ranked_def option.case by blast
  qed
qed

text \<open>The formats \<open>ParseAcceptImageFormats\<close> chooses from: the server's, and the source's own.\<close>

definition image_choices_for :: "string list option \<Rightarrow> string \<Rightarrow> string list" where
  "image_choices_for supported sourceFormat =
     (case isupp_values (withSourceFormat (newImageFormatSupport supported)
             (NormalizeImageFormat sourceFormat)) of None \<Rightarrow> [] | Some vs \<Rightarrow> vs)"

lemma newImageFormatSupport_values:
  "\<exists>vs. isupp_values (newImageFormatSupport supported) = Some vs \<and> distinct vs \<and>
     (\<forall>f\<in>set vs. imageFormatMaskForName f \<noteq> None)"
proof (cases "NormalizeImageFormats supported")
  case None
  then show ?thesis
    by (simp add: newImageFormatSupport_def Let_def model_simps imageFormatMaskForName_def)
next
  case (Some v)
  have "distinct v"
    using Some by (auto simp: NormalizeImageFormats_def dest: NormalizeStringList_distinct
        split: option.splits if_splits)
  moreover have "\<forall>f\<in>set v. imageFormatMaskForName f \<noteq> None"
  proof
    fix f assume "f \<in> set v"
    then obtain g where "f = NormalizeImageFormat g" "f \<noteq> []"
      using Some by (auto simp: NormalizeImageFormats_def split: option.splits if_splits
          dest!: NormalizeStringList_set)
    with NormalizeImageFormat_range [of g] show "imageFormatMaskForName f \<noteq> None"
      by (auto simp: model_simps imageFormatMaskForName_def)
  qed
  ultimately show ?thesis
    using Some by (auto simp: newImageFormatSupport_def Let_def model_simps imageFormatMaskForName_def)
qed

lemma withSourceFormat_values:
  "\<exists>vs. isupp_values (withSourceFormat (newImageFormatSupport supported) src) = Some vs \<and>
     distinct vs \<and> (\<forall>f\<in>set vs. imageFormatMaskForName f \<noteq> None)"
  using newImageFormatSupport_values [of supported]
    newImageFormatSupport_values [of "Some ((case isupp_values (newImageFormatSupport supported) of
        None \<Rightarrow> [] | Some vs \<Rightarrow> vs) @ [src])"]
  by (auto simp: withSourceFormat_def Let_def split: option.splits if_splits)



end
