(* ===== verification/Metadata.thy ===== *)
theory Metadata
  imports Media
begin

text \<open>
  \<open>internal/catalog/metadata.go\<close>: modification times kept in an asset's or variant's metadata.
  A \<open>time.Time\<close> is its number of nanoseconds since the Unix epoch, an \<open>int\<close>; the zero time is
  \<open>zero_time\<close>.  \<open>http_time\<close> is \<open>t.UTC().Format(http.TimeFormat)\<close> of the Go library, on the
  proleptic Gregorian calendar.  Metadata is a finite map from names to values, and the nil
  map, which every operation here reads as the empty one, is the empty map.  The file system is
  a parameter: \<open>stat p\<close> is the modification time \<open>os.Stat\<close> reports for \<open>p\<close>, \<open>None\<close> its error.
\<close>

section \<open>HTTP dates\<close>

type_synonym time = int

definition second :: time where "second = 1000000000"

definition zero_time :: time where "zero_time = -62135596800 * second"

definition wrap64 :: "int \<Rightarrow> int" where
  "wrap64 i = (i + 2 ^ 63) mod 2 ^ 64 - 2 ^ 63"

definition wrap_int :: "int \<Rightarrow> int" where
  "wrap_int i = wrap64 i"

lemma wrap64_id [simp]: "- (2 ^ 63) \<le> i \<Longrightarrow> i < 2 ^ 63 \<Longrightarrow> wrap64 i = i"
  by (simp add: wrap64_def)

lemma wrap64_range: "- (2 ^ 63) \<le> wrap64 i \<and> wrap64 i < 2 ^ 63"
proof -
  have "0 \<le> (i + 2 ^ 63) mod 2 ^ 64 \<and> (i + 2 ^ 63) mod 2 ^ 64 < (2 ^ 64 :: int)" by simp
  then show ?thesis unfolding wrap64_def by (simp add: algebra_simps)
qed

definition unix_seconds :: "time \<Rightarrow> int" where
  "unix_seconds t = t div second"

definition unix_nano :: "time \<Rightarrow> int" where
  "unix_nano t = wrap64 t"

text \<open>The civil date of a day counted from 1970-01-01: year, month and day of the month.\<close>

definition civil_date :: "int \<Rightarrow> int \<times> int \<times> int" where
  "civil_date days =
     (let z = days + 719468; era = z div 146097; doe = z mod 146097;
          yoe = (doe - doe div 1460 + doe div 36524 - doe div 146096) div 365;
          doy = doe - (365 * yoe + yoe div 4 - yoe div 100);
          mp = (5 * doy + 2) div 153;
          d = doy - (153 * mp + 2) div 5 + 1;
          m = (if mp < 10 then mp + 3 else mp - 9);
          y = yoe + era * 400 + (if m \<le> 2 then 1 else 0)
      in (y, m, d))"

definition pad :: "nat \<Rightarrow> int \<Rightarrow> string" where
  "pad n i = (let s = itoa i in replicate (n - length s) CHR ''0'' @ s)"

definition month_names :: "string list" where
  "month_names = [''Jan'', ''Feb'', ''Mar'', ''Apr'', ''May'', ''Jun'', ''Jul'', ''Aug'', ''Sep'',
     ''Oct'', ''Nov'', ''Dec'']"

definition day_names :: "string list" where
  "day_names = [''Sun'', ''Mon'', ''Tue'', ''Wed'', ''Thu'', ''Fri'', ''Sat'']"

definition http_time :: "time \<Rightarrow> string" where
  "http_time t =
     (let s = unix_seconds t; days = s div 86400; r = s mod 86400; (y, m, d) = civil_date days
      in day_names ! nat ((days + 4) mod 7) @ '', '' @ pad 2 d @ '' '' @ month_names ! nat (m - 1) @
         '' '' @ pad 4 y @ '' '' @ pad 2 (r div 3600) @ '':'' @ pad 2 (r div 60 mod 60) @ '':'' @
         pad 2 (r mod 60) @ '' GMT'')"

section \<open>Modification times in metadata\<close>

type_synonym metadata = "string \<rightharpoonup> string"

definition MetadataModTimeUnixKey :: string where
  "MetadataModTimeUnixKey = ''mtime_unix''"

definition MetadataModTimeUnixNanoKey :: string where
  "MetadataModTimeUnixNanoKey = ''mtime_unix_nano''"

definition MetadataLastModifiedHTTPKey :: string where
  "MetadataLastModifiedHTTPKey = ''last_modified_http''"

lemmas metadata_keys =
  MetadataModTimeUnixKey_def MetadataModTimeUnixNanoKey_def MetadataLastModifiedHTTPKey_def

definition MetadataModTime :: "metadata \<Rightarrow> time option" where
  "MetadataModTime m =
     (let nanos = (case m MetadataModTimeUnixNanoKey of
                     None \<Rightarrow> None
                   | Some raw \<Rightarrow>
                       (case parse_int64 (trim_space raw) of
                          None \<Rightarrow> None | Some n \<Rightarrow> if n > 0 then Some n else None))
      in case nanos of
           Some n \<Rightarrow> Some n
         | None \<Rightarrow>
             (case m MetadataModTimeUnixKey of
                None \<Rightarrow> None
              | Some raw \<Rightarrow>
                  (case parse_int64 (trim_space raw) of
                     None \<Rightarrow> None
                   | Some s \<Rightarrow> if s \<le> 0 then None else Some (s * second))))"

definition MetadataLastModifiedHTTP :: "metadata \<Rightarrow> string option" where
  "MetadataLastModifiedHTTP m =
     (case m MetadataLastModifiedHTTPKey of
        Some raw \<Rightarrow>
          (let trimmed = trim_space raw
           in if trimmed \<noteq> [] then Some trimmed else map_option http_time (MetadataModTime m))
      | None \<Rightarrow> map_option http_time (MetadataModTime m))"

definition setMetadataModTime :: "metadata \<Rightarrow> time \<Rightarrow> metadata" where
  "setMetadataModTime m t =
     (if t = zero_time then m
      else m(MetadataModTimeUnixKey \<mapsto> itoa (unix_seconds t),
             MetadataModTimeUnixNanoKey \<mapsto> itoa (unix_nano t),
             MetadataLastModifiedHTTPKey \<mapsto> http_time t))"

definition MetadataWithModTime :: "metadata \<Rightarrow> time \<Rightarrow> metadata" where
  "MetadataWithModTime m t = (if t = zero_time then m else setMetadataModTime m t)"

definition FileModTime :: "(string \<Rightarrow> time option) \<Rightarrow> string \<Rightarrow> time option" where
  "FileModTime stat path = (if trim_space path = [] then None else stat path)"

definition EnsureMetadataModTime ::
    "(string \<Rightarrow> time option) \<Rightarrow> metadata \<Rightarrow> string \<Rightarrow> metadata" where
  "EnsureMetadataModTime stat m path =
     (case MetadataModTime m of
        Some t \<Rightarrow>
          (if MetadataLastModifiedHTTP m = None then m(MetadataLastModifiedHTTPKey \<mapsto> http_time t) else m)
      | None \<Rightarrow>
          (case FileModTime stat path of Some t \<Rightarrow> setMetadataModTime m t | None \<Rightarrow> m))"

section \<open>Facts\<close>

lemma digits_of_trimmed: "is_trimmed (digits_of n)"
proof -
  have no_space: "digit_val c = None" if "c \<in> set p" "p \<in> set space_seqs" for c p
  proof -
    have "list_all (list_all (\<lambda>c. digit_val c = None)) space_seqs" by code_simp
    with that show ?thesis by (simp add: list_all_iff)
  qed
  have ne: "[] \<notin> set space_seqs" by code_simp
  have strip: "strip_first ps s = None"
    if "\<forall>p\<in>set ps. p \<noteq> [] \<and> (\<forall>c\<in>set p. digit_val c = None)" "\<forall>c\<in>set s. digit_val c \<noteq> None" for ps s
    using that
  proof (induction ps)
    case (Cons p ps)
    then obtain c q where p: "p = c # q" "digit_val c = None" by (cases p) auto
    have "take (length p) s \<noteq> p"
      using Cons.prems(2) p by (cases s) auto
    with Cons show ?case by simp
  qed simp
  have "\<forall>p\<in>set space_seqs. p \<noteq> [] \<and> (\<forall>c\<in>set p. digit_val c = None)"
    using no_space ne by auto
  moreover from this have "\<forall>p\<in>set (map rev space_seqs). p \<noteq> [] \<and> (\<forall>c\<in>set p. digit_val c = None)"
    by auto
  moreover have "\<forall>c\<in>set (digits_of n). digit_val c \<noteq> None" using digits_of_chars by blast
  ultimately show ?thesis
    using strip [of space_seqs "digits_of n"] strip [of "map rev space_seqs" "rev (digits_of n)"]
    by (simp add: is_trimmed_def)
qed

text \<open>A modification time stored in metadata is read back exactly, for every time from the
  first nanosecond after the epoch to the last that fits in 64 bits.\<close>

theorem MetadataWithModTime_roundtrip:
  assumes "0 < t" and "t < 2 ^ 63"
  shows "MetadataModTime (MetadataWithModTime m t) = Some t"
proof -
  have "t \<noteq> zero_time" using assms(1) by (simp add: zero_time_def second_def)
  moreover have "unix_nano t = t" using assms by (simp add: unix_nano_def)
  moreover have "trim_space (itoa t) = itoa t"
    using assms(1) digits_of_trimmed by (simp add: itoa_def)
  ultimately show ?thesis
    using parse_int64_itoa [of t] assms
    by (simp add: MetadataWithModTime_def setMetadataModTime_def MetadataModTime_def metadata_keys)
qed

lemma http_time_example: "http_time (1700000000 * second) = ''Tue, 14 Nov 2023 22:13:20 GMT''"
  by code_simp

theorem MetadataWithModTime_roundtrip_witness:
  "MetadataModTime (MetadataWithModTime Map.empty (1700000000 * second)) = Some (1700000000 * second)"
  by (rule MetadataWithModTime_roundtrip) (simp_all add: second_def)

end
