(* ===== verification/VariantIndex.thy ===== *)
theory VariantIndex
  imports Metadata "HOL-Library.AList"
begin

text \<open>
  \<open>internal/catalog\<close>: the records of a catalog (\<open>model.go\<close>, \<open>records.go\<close>, \<open>helpers.go\<close>) and the
  index of variants (\<open>variant_index.go\<close>).  A \<open>Map\<close> whose values the code enumerates is an
  association list with distinct keys, a \<open>Map\<close> or \<open>Table\<close> it only looks up is a partial function,
  and a \<open>MultiMap\<close> is the list of values of each key.  Records are immutable once built, so they
  are values; \<open>cloneAsset\<close> and \<open>cloneVariant\<close>, which copy, have nothing to do here.

  \<open>index_ok\<close> is the coherence invariant of the six indexes and four caches; \<open>recs\<close> abstracts an
  index to its set of records.
\<close>

section \<open>Assets, variants and records\<close>

record Asset =
  a_Path :: string
  a_FullPath :: string
  a_Size :: int
  a_MediaType :: string
  a_SourceHash :: string
  a_ETag :: string
  a_Metadata :: metadata

record Variant =
  v_ID :: string
  v_AssetPath :: string
  v_ArtifactPath :: string
  v_Size :: int
  v_MediaType :: string
  v_SourceHash :: string
  v_ETag :: string
  v_Encoding :: string
  v_Format :: string
  v_Width :: int
  v_Metadata :: metadata

record assetRecord =
  ar_Path :: string
  ar_Asset :: Asset

record variantRecord =
  r_AssetPath :: string
  r_ID :: string
  r_ArtifactPath :: string
  r_Encoding :: string
  r_ImageFormat :: string
  r_Stage :: string
  r_Width :: int
  r_Variant :: Variant

type_synonym assetImageFormatKey = "string \<times> string"

definition prepareAsset :: "(string \<Rightarrow> time option) \<Rightarrow> Asset \<Rightarrow> Asset" where
  "prepareAsset stat a = a\<lparr>a_Metadata := EnsureMetadataModTime stat (a_Metadata a) (a_FullPath a)\<rparr>"

definition prepareVariant :: "(string \<Rightarrow> time option) \<Rightarrow> Variant \<Rightarrow> Variant" where
  "prepareVariant stat v =
     v\<lparr>v_Metadata := EnsureMetadataModTime stat (v_Metadata v) (v_ArtifactPath v)\<rparr>"

definition VariantID :: "string \<Rightarrow> string \<Rightarrow> string \<Rightarrow> int \<Rightarrow> string" where
  "VariantID assetPath encoding format width =
     (let e = trim_space encoding; f = trim_space format
      in trim_space assetPath @
         (if e \<noteq> [] then ''|encoding='' @ e else []) @
         (if f \<noteq> [] then ''|format='' @ f else []) @
         (if width > 0 then ''|width='' @ itoa width else []))"

definition defaultVariantID :: "Variant \<Rightarrow> string" where
  "defaultVariantID v = VariantID (v_AssetPath v) (v_Encoding v) (v_Format v) (v_Width v)"

definition imageFormatKey :: "Variant \<Rightarrow> string" where
  "imageFormatKey v = (if v_Format v \<noteq> [] then v_Format v else ImageFormat (v_MediaType v))"

definition stageKey :: "Variant \<Rightarrow> string" where
  "stageKey v = trim_space (case v_Metadata v ''stage'' of None \<Rightarrow> [] | Some s \<Rightarrow> s)"

definition newAssetRecord :: "(string \<Rightarrow> time option) \<Rightarrow> Asset \<Rightarrow> assetRecord" where
  "newAssetRecord stat a = (let p = prepareAsset stat a in \<lparr>ar_Path = a_Path p, ar_Asset = p\<rparr>)"

definition newVariantRecord :: "(string \<Rightarrow> time option) \<Rightarrow> Variant \<Rightarrow> string \<Rightarrow> variantRecord" where
  "newVariantRecord stat v ident =
     (let p = (prepareVariant stat v)\<lparr>v_ID := ident\<rparr>
      in \<lparr>r_AssetPath = v_AssetPath p, r_ID = v_ID p, r_ArtifactPath = v_ArtifactPath p,
          r_Encoding = v_Encoding p, r_ImageFormat = imageFormatKey p, r_Stage = stageKey p,
          r_Width = v_Width p, r_Variant = p\<rparr>)"

definition variantRecordKey :: "variantRecord \<Rightarrow> string" where
  "variantRecordKey r = r_AssetPath r @ CHR 0x00 # r_ID r"

definition variantImageFormatKey :: "variantRecord \<Rightarrow> assetImageFormatKey" where
  "variantImageFormatKey r = (r_AssetPath r, r_ImageFormat r)"

definition sortedVariantRecords :: "variantRecord list \<Rightarrow> variantRecord list" where
  "sortedVariantRecords rs = sort_func (\<lambda>a b. variantRecordKey a < variantRecordKey b) rs"

section \<open>The index\<close>

record variantIndex =
  byKey :: "(string \<times> variantRecord) list"
  byAssetPath :: "string \<Rightarrow> variantRecord list"
  byArtifact :: "string \<rightharpoonup> variantRecord"
  byEncoding :: "string \<times> string \<rightharpoonup> variantRecord"
  byImage :: "((assetImageFormatKey \<times> int) \<times> variantRecord) list"
  byStage :: "string \<Rightarrow> variantRecord list"
  sortedByAssetPath :: "string \<rightharpoonup> variantRecord list"
  sortedByImageFormat :: "assetImageFormatKey \<rightharpoonup> variantRecord list"
  sortedByStage :: "string \<rightharpoonup> variantRecord list"
  sortedAllVariantRecords :: "variantRecord list option"

definition newVariantIndex :: variantIndex where
  "newVariantIndex =
     \<lparr>byKey = [], byAssetPath = (\<lambda>_. []), byArtifact = Map.empty, byEncoding = Map.empty, byImage = [],
      byStage = (\<lambda>_. []), sortedByAssetPath = Map.empty, sortedByImageFormat = Map.empty,
      sortedByStage = Map.empty, sortedAllVariantRecords = None\<rparr>"

definition invalidateRecordCache :: "variantIndex \<Rightarrow> variantRecord \<Rightarrow> variantIndex" where
  "invalidateRecordCache idx r =
     idx\<lparr>sortedByAssetPath := (sortedByAssetPath idx)(r_AssetPath r := None),
         sortedByImageFormat :=
           (if r_ImageFormat r \<noteq> [] then (sortedByImageFormat idx)(variantImageFormatKey r := None)
            else sortedByImageFormat idx),
         sortedByStage :=
           (if r_Stage r \<noteq> [] then (sortedByStage idx)(r_Stage r := None) else sortedByStage idx),
         sortedAllVariantRecords := None\<rparr>"

definition idx_insert :: "variantIndex \<Rightarrow> variantRecord \<Rightarrow> variantIndex" where
  "idx_insert idx0 r =
     (let idx = invalidateRecordCache idx0 r
      in idx\<lparr>byKey := AList.update (variantRecordKey r) r (byKey idx),
             byAssetPath := (byAssetPath idx)(r_AssetPath r := byAssetPath idx (r_AssetPath r) @ [r]),
             byArtifact :=
               (if r_ArtifactPath r \<noteq> [] then (byArtifact idx)(r_ArtifactPath r \<mapsto> r) else byArtifact idx),
             byEncoding :=
               (if r_Encoding r \<noteq> [] then (byEncoding idx)((r_AssetPath r, r_Encoding r) \<mapsto> r)
                else byEncoding idx),
             byImage :=
               (if r_ImageFormat r \<noteq> []
                then AList.update (variantImageFormatKey r, r_Width r) r (byImage idx) else byImage idx),
             byStage :=
               (if r_Stage r \<noteq> [] then (byStage idx)(r_Stage r := byStage idx (r_Stage r) @ [r])
                else byStage idx)\<rparr>)"

definition idx_delete :: "variantIndex \<Rightarrow> variantRecord \<Rightarrow> variantIndex" where
  "idx_delete idx0 r =
     (let idx = invalidateRecordCache idx0 r; key = variantRecordKey r;
          others = filter (\<lambda>existing. variantRecordKey existing \<noteq> key)
      in idx\<lparr>byKey := AList.delete key (byKey idx),
             byAssetPath := (byAssetPath idx)(r_AssetPath r := others (byAssetPath idx (r_AssetPath r))),
             byArtifact :=
               (if r_ArtifactPath r \<noteq> [] then (byArtifact idx)(r_ArtifactPath r := None) else byArtifact idx),
             byEncoding :=
               (if r_Encoding r \<noteq> [] then (byEncoding idx)((r_AssetPath r, r_Encoding r) := None)
                else byEncoding idx),
             byImage :=
               (if r_ImageFormat r \<noteq> []
                then AList.delete (variantImageFormatKey r, r_Width r) (byImage idx) else byImage idx),
             byStage :=
               (if r_Stage r \<noteq> [] then (byStage idx)(r_Stage r := others (byStage idx (r_Stage r)))
                else byStage idx)\<rparr>)"

definition addReplacement ::
    "(string \<times> variantRecord) list \<Rightarrow> variantRecord option \<Rightarrow> (string \<times> variantRecord) list" where
  "addReplacement reps found =
     (case found of None \<Rightarrow> reps | Some r \<Rightarrow> AList.update (variantRecordKey r) r reps)"

definition collectReplacements :: "variantIndex \<Rightarrow> variantRecord \<Rightarrow> (string \<times> variantRecord) list" where
  "collectReplacements idx r =
     (let reps = addReplacement [] (map_of (byKey idx) (variantRecordKey r));
          reps = (if r_ArtifactPath r \<noteq> [] then addReplacement reps (byArtifact idx (r_ArtifactPath r))
                  else reps);
          reps = (if r_Encoding r \<noteq> []
                  then addReplacement reps (byEncoding idx (r_AssetPath r, r_Encoding r)) else reps)
      in if r_ImageFormat r \<noteq> []
         then addReplacement reps (map_of (byImage idx) (variantImageFormatKey r, r_Width r)) else reps)"

definition idx_upsert :: "variantIndex \<Rightarrow> variantRecord \<Rightarrow> variantIndex" where
  "idx_upsert idx r = idx_insert (foldl idx_delete idx (map snd (collectReplacements idx r))) r"

definition findEncoding :: "variantIndex \<Rightarrow> string \<Rightarrow> string \<Rightarrow> variantRecord option" where
  "findEncoding idx assetPath encoding = byEncoding idx (assetPath, encoding)"

definition findImage :: "variantIndex \<Rightarrow> string \<Rightarrow> string \<Rightarrow> int \<Rightarrow> variantRecord option" where
  "findImage idx assetPath format width = map_of (byImage idx) ((assetPath, format), width)"

definition cacheByAssetPath ::
    "variantIndex \<Rightarrow> string \<Rightarrow> variantRecord list \<Rightarrow> variantRecord list \<times> variantIndex" where
  "cacheByAssetPath idx p rs =
     (case sortedByAssetPath idx p of
        Some cached \<Rightarrow> (cached, idx)
      | None \<Rightarrow> (rs, idx\<lparr>sortedByAssetPath := (sortedByAssetPath idx)(p \<mapsto> rs)\<rparr>))"

definition listByAssetPath :: "variantIndex \<Rightarrow> string \<Rightarrow> variantRecord list \<times> variantIndex" where
  "listByAssetPath idx p =
     (case sortedByAssetPath idx p of
        Some rs \<Rightarrow> (rs, idx)
      | None \<Rightarrow> cacheByAssetPath idx p (sortedVariantRecords (byAssetPath idx p)))"

definition cacheByImageFormat ::
    "variantIndex \<Rightarrow> assetImageFormatKey \<Rightarrow> variantRecord list \<Rightarrow> variantRecord list \<times> variantIndex" where
  "cacheByImageFormat idx k rs =
     (case sortedByImageFormat idx k of
        Some cached \<Rightarrow> (cached, idx)
      | None \<Rightarrow> (rs, idx\<lparr>sortedByImageFormat := (sortedByImageFormat idx)(k \<mapsto> rs)\<rparr>))"

text \<open>The row of a table: the values whose key has this first component.\<close>

definition image_row :: "variantIndex \<Rightarrow> assetImageFormatKey \<Rightarrow> variantRecord list" where
  "image_row idx k = map snd (filter (\<lambda>((k', w), r). k' = k) (byImage idx))"

definition listByImageFormat ::
    "variantIndex \<Rightarrow> string \<Rightarrow> string \<Rightarrow> variantRecord list \<times> variantIndex" where
  "listByImageFormat idx assetPath format =
     (let k = (assetPath, format)
      in case sortedByImageFormat idx k of
           Some rs \<Rightarrow> (rs, idx)
         | None \<Rightarrow> cacheByImageFormat idx k (sortedVariantRecords (image_row idx k)))"

definition cacheByStage ::
    "variantIndex \<Rightarrow> string \<Rightarrow> variantRecord list \<Rightarrow> variantRecord list \<times> variantIndex" where
  "cacheByStage idx s rs =
     (case sortedByStage idx s of
        Some cached \<Rightarrow> (cached, idx)
      | None \<Rightarrow> (rs, idx\<lparr>sortedByStage := (sortedByStage idx)(s \<mapsto> rs)\<rparr>))"

definition listByStage :: "variantIndex \<Rightarrow> string \<Rightarrow> variantRecord list \<times> variantIndex" where
  "listByStage idx s =
     (case sortedByStage idx s of
        Some rs \<Rightarrow> (rs, idx)
      | None \<Rightarrow> cacheByStage idx s (sortedVariantRecords (byStage idx s)))"

definition cacheAll :: "variantIndex \<Rightarrow> variantRecord list \<Rightarrow> variantRecord list \<times> variantIndex" where
  "cacheAll idx rs =
     (case sortedAllVariantRecords idx of
        Some cached \<Rightarrow> (cached, idx)
      | None \<Rightarrow> (rs, idx\<lparr>sortedAllVariantRecords := Some rs\<rparr>))"

definition idx_all :: "variantIndex \<Rightarrow> variantRecord list \<times> variantIndex" where
  "idx_all idx =
     (case sortedAllVariantRecords idx of
        Some rs \<Rightarrow> (rs, idx)
      | None \<Rightarrow> cacheAll idx (sortedVariantRecords (map snd (byKey idx))))"

definition idx_count :: "variantIndex \<Rightarrow> nat" where
  "idx_count idx = length (byKey idx)"

definition deleteByAssetPath :: "variantIndex \<Rightarrow> string \<Rightarrow> Variant list \<times> variantIndex" where
  "deleteByAssetPath idx p =
     (case listByAssetPath idx p of
        (rs, idx') \<Rightarrow> (map r_Variant rs, foldl idx_delete idx' rs))"

definition deleteByArtifactPath :: "variantIndex \<Rightarrow> string \<Rightarrow> bool \<times> variantIndex" where
  "deleteByArtifactPath idx a =
     (case byArtifact idx a of None \<Rightarrow> (False, idx) | Some r \<Rightarrow> (True, idx_delete idx r))"

section \<open>The sets of records\<close>

definition recs :: "variantIndex \<Rightarrow> variantRecord set" where
  "recs idx = snd ` set (byKey idx)"

definition keyed :: "variantRecord set \<Rightarrow> bool" where
  "keyed R \<longleftrightarrow> inj_on variantRecordKey R"

text \<open>The sorted list of a set of records with different keys.\<close>

definition is_sorted_list :: "variantRecord list \<Rightarrow> variantRecord set \<Rightarrow> bool" where
  "is_sorted_list rs R \<longleftrightarrow>
     set rs = R \<and> sorted_wrt (\<lambda>a b. variantRecordKey a < variantRecordKey b) rs"

lemma record_order:
  "strict_weak_on A (\<lambda>a b. variantRecordKey a < variantRecordKey b)"
  by (auto simp: strict_weak_on_def)

lemma sortedVariantRecords_sorted:
  assumes k: "keyed R" and R: "set rs = R" and d: "distinct rs"
  shows "is_sorted_list (sortedVariantRecords rs) R"
proof -
  have set: "set (sortedVariantRecords rs) = R"
    using R by (simp add: sortedVariantRecords_def)
  have sorted: "sorted_wrt (\<lambda>a b. \<not> variantRecordKey b < variantRecordKey a) (sortedVariantRecords rs)"
    unfolding sortedVariantRecords_def by (rule sorted_sort_func [OF record_order])
  have dist: "distinct (sortedVariantRecords rs)" using d by (simp add: sortedVariantRecords_def)
  have "sorted_wrt (\<lambda>a b. variantRecordKey a < variantRecordKey b) (sortedVariantRecords rs)"
  proof (rule sorted_wrt_mono_on [OF sorted dist])
    fix a b
    assume "a \<in> set (sortedVariantRecords rs)" "b \<in> set (sortedVariantRecords rs)" "a \<noteq> b"
      and le: "\<not> variantRecordKey b < variantRecordKey a"
    with set k have "variantRecordKey a \<noteq> variantRecordKey b"
      unfolding keyed_def by (metis inj_onD)
    with le show "variantRecordKey a < variantRecordKey b" by (metis linorder_neqE)
  qed
  with set show ?thesis by (simp add: is_sorted_list_def)
qed

lemma is_sorted_list_unique:
  assumes "is_sorted_list rs R" and "is_sorted_list ts R"
  shows "rs = ts"
proof -
  have "sorted_wrt (<) (map variantRecordKey rs)" "sorted_wrt (<) (map variantRecordKey ts)"
    using assms by (simp_all add: is_sorted_list_def sorted_wrt_map)
  then have d: "distinct (map variantRecordKey rs)" "distinct (map variantRecordKey ts)"
    by (auto simp: strict_sorted_iff)
  have inj: "inj_on variantRecordKey R"
    using assms(1) d(1) unfolding distinct_map is_sorted_list_def by simp
  have "map variantRecordKey rs = map variantRecordKey ts"
    using assms d \<open>sorted_wrt (<) (map variantRecordKey rs)\<close> \<open>sorted_wrt (<) (map variantRecordKey ts)\<close>
    by (intro strict_sorted_equal) (auto simp: is_sorted_list_def)
  then show ?thesis
    using assms inj by (auto simp: is_sorted_list_def intro: map_inj_on)
qed

section \<open>The coherence invariant\<close>

definition keys_ok :: "variantIndex \<Rightarrow> bool" where
  "keys_ok idx \<longleftrightarrow> distinct (map fst (byKey idx)) \<and>
     (\<forall>(k, r)\<in>set (byKey idx). k = variantRecordKey r)"

definition list_index_ok :: "variantRecord set \<Rightarrow> (variantRecord \<Rightarrow> 'k) \<Rightarrow> ('k \<Rightarrow> bool) \<Rightarrow>
    ('k \<Rightarrow> variantRecord list) \<Rightarrow> bool" where
  "list_index_ok R f used ix \<longleftrightarrow>
     (\<forall>k. distinct (ix k) \<and> set (ix k) = {r \<in> R. f r = k \<and> used k})"

definition map_index_ok :: "variantRecord set \<Rightarrow> (variantRecord \<Rightarrow> 'k) \<Rightarrow> ('k \<Rightarrow> bool) \<Rightarrow>
    ('k \<rightharpoonup> variantRecord) \<Rightarrow> bool" where
  "map_index_ok R f used ix \<longleftrightarrow> (\<forall>k r. ix k = Some r \<longleftrightarrow> r \<in> R \<and> f r = k \<and> used k)"

definition image_key :: "variantRecord \<Rightarrow> assetImageFormatKey \<times> int" where
  "image_key r = (variantImageFormatKey r, r_Width r)"

definition indexes_ok :: "variantIndex \<Rightarrow> bool" where
  "indexes_ok idx \<longleftrightarrow>
     list_index_ok (recs idx) r_AssetPath (\<lambda>_. True) (byAssetPath idx) \<and>
     map_index_ok (recs idx) r_ArtifactPath (\<lambda>a. a \<noteq> []) (byArtifact idx) \<and>
     map_index_ok (recs idx) (\<lambda>r. (r_AssetPath r, r_Encoding r)) (\<lambda>k. snd k \<noteq> []) (byEncoding idx) \<and>
     map_index_ok (recs idx) image_key (\<lambda>k. snd (fst k) \<noteq> []) (map_of (byImage idx)) \<and>
     distinct (map fst (byImage idx)) \<and>
     list_index_ok (recs idx) r_Stage (\<lambda>s. s \<noteq> []) (byStage idx)"

definition cache_ok :: "variantRecord set \<Rightarrow> (variantRecord \<Rightarrow> 'k) \<Rightarrow> ('k \<Rightarrow> bool) \<Rightarrow>
    ('k \<rightharpoonup> variantRecord list) \<Rightarrow> bool" where
  "cache_ok R f used c \<longleftrightarrow>
     (\<forall>k rs. c k = Some rs \<longrightarrow> is_sorted_list rs {r \<in> R. f r = k \<and> used k})"

definition caches_ok :: "variantIndex \<Rightarrow> bool" where
  "caches_ok idx \<longleftrightarrow>
     cache_ok (recs idx) r_AssetPath (\<lambda>_. True) (sortedByAssetPath idx) \<and>
     cache_ok (recs idx) variantImageFormatKey (\<lambda>k. snd k \<noteq> []) (sortedByImageFormat idx) \<and>
     cache_ok (recs idx) r_Stage (\<lambda>s. s \<noteq> []) (sortedByStage idx) \<and>
     (\<forall>rs. sortedAllVariantRecords idx = Some rs \<longrightarrow> is_sorted_list rs (recs idx))"

definition index_ok :: "variantIndex \<Rightarrow> bool" where
  "index_ok idx \<longleftrightarrow> keys_ok idx \<and> indexes_ok idx \<and> caches_ok idx"

lemma keys_ok_iff:
  "keys_ok idx \<Longrightarrow> (k, r) \<in> set (byKey idx) \<longleftrightarrow> r \<in> recs idx \<and> k = variantRecordKey r"
  unfolding keys_ok_def recs_def by (auto simp: image_iff) force

lemma byKey_map_of: "keys_ok idx \<Longrightarrow> map_of (byKey idx) k = Some r \<longleftrightarrow> r \<in> recs idx \<and> variantRecordKey r = k"
  using keys_ok_iff [of idx k r] by (auto simp: keys_ok_def)

lemma recs_keyed: "keys_ok idx \<Longrightarrow> keyed (recs idx)"
  unfolding keyed_def using byKey_map_of by (metis inj_onI option.inject)

text \<open>Single-valued and many-valued indexes under insertion and deletion.\<close>

lemma map_index_insert:
  "map_index_ok R f used ix \<Longrightarrow> (\<forall>e\<in>R. f e = f r \<longrightarrow> used (f r) \<longrightarrow> e = r) \<Longrightarrow>
    map_index_ok (insert r R) f used (if used (f r) then ix(f r \<mapsto> r) else ix)"
  by (auto simp: map_index_ok_def)

lemma map_index_delete:
  "map_index_ok R f used ix \<Longrightarrow> r \<in> R \<Longrightarrow>
    map_index_ok (R - {r}) f used (if used (f r) then ix(f r := None) else ix)"
  unfolding map_index_ok_def by (auto split: if_splits) (metis option.inject)+

lemma list_index_insert:
  "list_index_ok R f used ix \<Longrightarrow> r \<notin> R \<Longrightarrow>
    list_index_ok (insert r R) f used (if used (f r) then ix(f r := ix (f r) @ [r]) else ix)"
  by (auto simp: list_index_ok_def)

lemma list_index_delete:
  "list_index_ok R f used ix \<Longrightarrow> inj_on variantRecordKey R \<Longrightarrow> r \<in> R \<Longrightarrow>
    list_index_ok (R - {r}) f used
      (if used (f r) then ix(f r := filter (\<lambda>e. variantRecordKey e \<noteq> variantRecordKey r) (ix (f r))) else ix)"
  by (auto simp: list_index_ok_def dest: inj_onD)

lemma cache_change:
  assumes c: "cache_ok R f used c" and R: "R - {r} = R' - {r}"
  shows "cache_ok R' f used (if used (f r) then c(f r := None) else c)"
  unfolding cache_ok_def
proof (intro allI impI)
  fix k rs assume a: "(if used (f r) then c(f r := None) else c) k = Some rs"
  then have "c k = Some rs" and "k \<noteq> f r \<or> \<not> used k" by (auto split: if_splits)
  moreover from this R have "{e \<in> R. f e = k \<and> used k} = {e \<in> R'. f e = k \<and> used k}" by auto
  ultimately show "is_sorted_list rs {e \<in> R'. f e = k \<and> used k}"
    using c unfolding cache_ok_def by metis
qed

lemma invalidate_caches:
  assumes "caches_ok idx" and "recs idx - {r} = recs idx' - {r}"
    and "sortedByAssetPath idx' = sortedByAssetPath (invalidateRecordCache idx r)"
    and "sortedByImageFormat idx' = sortedByImageFormat (invalidateRecordCache idx r)"
    and "sortedByStage idx' = sortedByStage (invalidateRecordCache idx r)"
    and "sortedAllVariantRecords idx' = None"
  shows "caches_ok idx'"
  using assms cache_change [OF _ assms(2), of r_AssetPath "\<lambda>_. True"]
    cache_change [OF _ assms(2), of variantImageFormatKey "\<lambda>k. snd k \<noteq> []"]
    cache_change [OF _ assms(2), of r_Stage "\<lambda>s. s \<noteq> []"]
  by (simp add: caches_ok_def invalidateRecordCache_def variantImageFormatKey_def)

lemma update_new: "k \<notin> fst ` set al \<Longrightarrow> AList.update k v al = al @ [(k, v)]"
  by (induction al) auto

text \<open>The fields of an index after an operation.\<close>

lemma idx_delete_fields:
  "byKey (idx_delete idx r) = AList.delete (variantRecordKey r) (byKey idx)"
  "byAssetPath (idx_delete idx r) =
     (if True then (byAssetPath idx)(r_AssetPath r :=
        filter (\<lambda>e. variantRecordKey e \<noteq> variantRecordKey r) (byAssetPath idx (r_AssetPath r)))
      else byAssetPath idx)"
  "byArtifact (idx_delete idx r) =
     (if r_ArtifactPath r \<noteq> [] then (byArtifact idx)(r_ArtifactPath r := None) else byArtifact idx)"
  "byEncoding (idx_delete idx r) =
     (if snd (r_AssetPath r, r_Encoding r) \<noteq> [] then (byEncoding idx)((r_AssetPath r, r_Encoding r) := None)
      else byEncoding idx)"
  "map_of (byImage (idx_delete idx r)) =
     (if snd (fst (image_key r)) \<noteq> [] then (map_of (byImage idx))(image_key r := None)
      else map_of (byImage idx))"
  "distinct (map fst (byImage idx)) \<Longrightarrow> distinct (map fst (byImage (idx_delete idx r)))"
  "byStage (idx_delete idx r) =
     (if r_Stage r \<noteq> [] then (byStage idx)(r_Stage r :=
        filter (\<lambda>e. variantRecordKey e \<noteq> variantRecordKey r) (byStage idx (r_Stage r)))
      else byStage idx)"
  "sortedByAssetPath (idx_delete idx r) = sortedByAssetPath (invalidateRecordCache idx r)"
  "sortedByImageFormat (idx_delete idx r) = sortedByImageFormat (invalidateRecordCache idx r)"
  "sortedByStage (idx_delete idx r) = sortedByStage (invalidateRecordCache idx r)"
  "sortedAllVariantRecords (idx_delete idx r) = None"
  by (simp_all add: idx_delete_def Let_def invalidateRecordCache_def image_key_def
      variantImageFormatKey_def delete_conv' distinct_delete)

lemma idx_insert_fields:
  "byKey (idx_insert idx r) = AList.update (variantRecordKey r) r (byKey idx)"
  "byAssetPath (idx_insert idx r) =
     (if True then (byAssetPath idx)(r_AssetPath r := byAssetPath idx (r_AssetPath r) @ [r])
      else byAssetPath idx)"
  "byArtifact (idx_insert idx r) =
     (if r_ArtifactPath r \<noteq> [] then (byArtifact idx)(r_ArtifactPath r \<mapsto> r) else byArtifact idx)"
  "byEncoding (idx_insert idx r) =
     (if snd (r_AssetPath r, r_Encoding r) \<noteq> [] then (byEncoding idx)((r_AssetPath r, r_Encoding r) \<mapsto> r)
      else byEncoding idx)"
  "map_of (byImage (idx_insert idx r)) =
     (if snd (fst (image_key r)) \<noteq> [] then (map_of (byImage idx))(image_key r \<mapsto> r)
      else map_of (byImage idx))"
  "distinct (map fst (byImage idx)) \<Longrightarrow> distinct (map fst (byImage (idx_insert idx r)))"
  "byStage (idx_insert idx r) =
     (if r_Stage r \<noteq> [] then (byStage idx)(r_Stage r := byStage idx (r_Stage r) @ [r]) else byStage idx)"
  "sortedByAssetPath (idx_insert idx r) = sortedByAssetPath (invalidateRecordCache idx r)"
  "sortedByImageFormat (idx_insert idx r) = sortedByImageFormat (invalidateRecordCache idx r)"
  "sortedByStage (idx_insert idx r) = sortedByStage (invalidateRecordCache idx r)"
  "sortedAllVariantRecords (idx_insert idx r) = None"
  by (simp_all add: idx_insert_def Let_def invalidateRecordCache_def image_key_def
      variantImageFormatKey_def update_conv' distinct_update)

lemma idx_delete_recs:
  assumes "keys_ok idx" and "r \<in> recs idx"
  shows "keys_ok (idx_delete idx r)" and "recs (idx_delete idx r) = recs idx - {r}"
proof -
  note bk = idx_delete_fields(1) [of idx r]
  show ok: "keys_ok (idx_delete idx r)"
    using assms(1) by (auto simp: keys_ok_def bk AList.delete_eq distinct_map_filter)
  have "e \<in> recs (idx_delete idx r) \<longleftrightarrow> e \<in> recs idx \<and> variantRecordKey e \<noteq> variantRecordKey r" for e
    unfolding byKey_map_of [OF ok, of "variantRecordKey e" e, simplified, symmetric]
      byKey_map_of [OF assms(1), of "variantRecordKey e" e, simplified, symmetric]
    by (simp add: bk delete_conv')
  with recs_keyed [OF assms(1)] assms(2) show "recs (idx_delete idx r) = recs idx - {r}"
    unfolding keyed_def by (auto dest: inj_onD)
qed

lemma idx_delete_ok:
  assumes ok: "index_ok idx" and r: "r \<in> recs idx"
  shows "index_ok (idx_delete idx r)"
proof -
  from ok have k: "keys_ok idx" and ix: "indexes_ok idx" and c: "caches_ok idx"
    by (simp_all add: index_ok_def)
  note recs = idx_delete_recs(2) [OF k r]
  have inj: "inj_on variantRecordKey (recs idx)" using recs_keyed [OF k] by (simp add: keyed_def)
  have "indexes_ok (idx_delete idx r)"
    unfolding indexes_ok_def recs idx_delete_fields(2-5,7)
    using ix [unfolded indexes_ok_def]
    by (intro conjI list_index_delete [OF _ inj r] map_index_delete [OF _ r] idx_delete_fields(6)) blast+
  moreover have "caches_ok (idx_delete idx r)"
    using c by (rule invalidate_caches) (auto simp: recs idx_delete_fields)
  ultimately show ?thesis using idx_delete_recs(1) [OF k r] by (simp add: index_ok_def)
qed

text \<open>Two records conflict when one would take a place of the other in an index.\<close>

definition conflicts :: "variantRecord \<Rightarrow> variantRecord \<Rightarrow> bool" where
  "conflicts r e \<longleftrightarrow>
     variantRecordKey e = variantRecordKey r \<or>
     (r_ArtifactPath r \<noteq> [] \<and> r_ArtifactPath e = r_ArtifactPath r) \<or>
     (r_Encoding r \<noteq> [] \<and> r_AssetPath e = r_AssetPath r \<and> r_Encoding e = r_Encoding r) \<or>
     (r_ImageFormat r \<noteq> [] \<and> image_key e = image_key r)"

lemma idx_insert_recs:
  assumes k: "keys_ok idx" and no: "\<forall>e\<in>recs idx. \<not> conflicts r e"
  shows "keys_ok (idx_insert idx r)" and "recs (idx_insert idx r) = insert r (recs idx)"
proof -
  have new: "variantRecordKey r \<notin> fst ` set (byKey idx)"
    using no keys_ok_iff [OF k] unfolding conflicts_def by force
  have bk: "byKey (idx_insert idx r) = byKey idx @ [(variantRecordKey r, r)]"
    by (simp add: idx_insert_fields update_new [OF new])
  show "keys_ok (idx_insert idx r)" using k new by (auto simp: keys_ok_def bk)
  show "recs (idx_insert idx r) = insert r (recs idx)" by (simp add: recs_def bk)
qed

lemma idx_insert_ok:
  assumes ok: "index_ok idx" and no: "\<forall>e\<in>recs idx. \<not> conflicts r e"
  shows "index_ok (idx_insert idx r)"
proof -
  from ok have k: "keys_ok idx" and ix: "indexes_ok idx" and c: "caches_ok idx"
    by (simp_all add: index_ok_def)
  note recs = idx_insert_recs(2) [OF k no]
  have new: "r \<notin> recs idx" using no by (auto simp: conflicts_def)
  have "indexes_ok (idx_insert idx r)"
    unfolding indexes_ok_def recs idx_insert_fields(2-5,7)
    using ix [unfolded indexes_ok_def] no
    by (intro conjI list_index_insert [OF _ new] map_index_insert idx_insert_fields(6))
      (auto simp: conflicts_def image_key_def variantImageFormatKey_def)
  moreover have "caches_ok (idx_insert idx r)"
    using c by (rule invalidate_caches) (auto simp: recs idx_insert_fields)
  ultimately show ?thesis using idx_insert_recs(1) [OF k no] by (simp add: index_ok_def)
qed

section \<open>Refinement: the index is a set of records without conflicts\<close>

lemma newVariantIndex_ok: "index_ok newVariantIndex" "recs newVariantIndex = {}"
  by (simp_all add: newVariantIndex_def index_ok_def keys_ok_def indexes_ok_def list_index_ok_def
      map_index_ok_def caches_ok_def cache_ok_def recs_def)

lemma foldl_delete:
  "index_ok idx \<Longrightarrow> distinct rs \<Longrightarrow> set rs \<subseteq> recs idx \<Longrightarrow>
    index_ok (foldl idx_delete idx rs) \<and> recs (foldl idx_delete idx rs) = recs idx - set rs"
proof (induction rs arbitrary: idx)
  case (Cons r rs)
  then have r: "r \<in> recs idx" and k: "keys_ok idx" by (simp_all add: index_ok_def)
  note del = idx_delete_ok [OF Cons.prems(1) r] idx_delete_recs(2) [OF k r]
  have "set rs \<subseteq> recs (idx_delete idx r)" using Cons.prems del(2) by auto
  with Cons.IH [OF del(1)] Cons.prems del(2) show ?case by auto
qed simp

definition reps_ok :: "variantRecord set \<Rightarrow> (string \<times> variantRecord) list \<Rightarrow> bool" where
  "reps_ok R reps \<longleftrightarrow> distinct (map fst reps) \<and> (\<forall>(k, e)\<in>set reps. k = variantRecordKey e \<and> e \<in> R)"

lemma set_AList_update:
  "distinct (map fst al) \<Longrightarrow> set (AList.update k v al) = {x \<in> set al. fst x \<noteq> k} \<union> {(k, v)}"
proof (induction al)
  case (Cons x al)
  have "fst y \<noteq> fst x" if "y \<in> set al" for y
    using Cons.prems that by (auto simp: rev_image_eqI)
  with Cons show ?case by (cases x) auto
qed simp

lemma reps_ok_update:
  assumes "reps_ok R reps" and "keyed R" and "e \<in> R"
  shows "reps_ok R (AList.update (variantRecordKey e) e reps)"
    and "snd ` set (AList.update (variantRecordKey e) e reps) = insert e (snd ` set reps)"
proof -
  have "distinct (map fst reps)" using assms(1) by (simp add: reps_ok_def)
  note u = set_AList_update [OF this, of "variantRecordKey e" e]
  show "reps_ok R (AList.update (variantRecordKey e) e reps)"
    using assms unfolding reps_ok_def u by (auto simp: distinct_update)
  have same: "fst x \<noteq> variantRecordKey e \<or> snd x = e" if "x \<in> set reps" for x
    using assms that unfolding reps_ok_def keyed_def
    by (cases x) (metis (mono_tags, lifting) case_prodD fst_conv inj_onD snd_conv)
  have "snd ` {x \<in> set reps. fst x \<noteq> variantRecordKey e} \<union> {e} = insert e (snd ` set reps)"
    using same by (auto simp: image_iff)
  then show "snd ` set (AList.update (variantRecordKey e) e reps) = insert e (snd ` set reps)"
    unfolding u by (simp add: image_Un)
qed

lemma addReplacement_ok:
  assumes "reps_ok R reps" and "keyed R" and "set_option found \<subseteq> R"
  shows "reps_ok R (addReplacement reps found) \<and>
    snd ` set (addReplacement reps found) = snd ` set reps \<union> set_option found"
  using assms reps_ok_update [OF assms(1,2)] by (cases found) (simp_all add: addReplacement_def)

lemma map_index_set:
  "map_index_ok R f used ix \<Longrightarrow> set_option (ix k) = {r \<in> R. f r = k \<and> used k}"
  by (auto simp: map_index_ok_def elem_set)

lemma map_index_subset: "map_index_ok R f used ix \<Longrightarrow> set_option (ix k) \<subseteq> R"
  by (auto simp: map_index_ok_def elem_set)

definition replace_if ::
    "bool \<Rightarrow> (string \<times> variantRecord) list \<Rightarrow> variantRecord option \<Rightarrow> (string \<times> variantRecord) list" where
  "replace_if b reps found = (if b then addReplacement reps found else reps)"

lemma collectReplacements_steps:
  "collectReplacements idx r =
    replace_if (r_ImageFormat r \<noteq> [])
      (replace_if (r_Encoding r \<noteq> [])
        (replace_if (r_ArtifactPath r \<noteq> [])
          (replace_if True [] (map_of (byKey idx) (variantRecordKey r)))
          (byArtifact idx (r_ArtifactPath r)))
        (byEncoding idx (r_AssetPath r, r_Encoding r)))
      (map_of (byImage idx) (image_key r))"
  by (simp only: collectReplacements_def Let_def image_key_def replace_if_def if_True)

lemma replace_if_ok:
  assumes "keyed R" and "map_index_ok R f used ix" and "reps_ok R reps"
  shows "reps_ok R (replace_if b reps (ix k)) \<and>
    snd ` set (replace_if b reps (ix k)) = snd ` set reps \<union> {r \<in> R. b \<and> f r = k \<and> used k}"
  using addReplacement_ok [OF assms(3,1) map_index_subset [OF assms(2)], of k]
    map_index_set [OF assms(2), of k] assms(3)
  by (cases b) (simp_all add: replace_if_def)

lemma collectReplacements_set:
  assumes ok: "index_ok idx"
  shows "reps_ok (recs idx) (collectReplacements idx r) \<and>
    snd ` set (collectReplacements idx r) = {e \<in> recs idx. conflicts r e}"
proof -
  let ?R = "recs idx"
  from ok have k: "keys_ok idx" and ix: "indexes_ok idx" by (simp_all add: index_ok_def)
  have K: "keyed ?R" by (rule recs_keyed [OF k])
  have mk: "map_index_ok ?R variantRecordKey (\<lambda>_. True) (map_of (byKey idx))"
    using byKey_map_of [OF k] by (simp add: map_index_ok_def)
  have ma: "map_index_ok ?R r_ArtifactPath (\<lambda>a. a \<noteq> []) (byArtifact idx)"
    and me: "map_index_ok ?R (\<lambda>r. (r_AssetPath r, r_Encoding r)) (\<lambda>k. snd k \<noteq> []) (byEncoding idx)"
    and mi: "map_index_ok ?R image_key (\<lambda>k. snd (fst k) \<noteq> []) (map_of (byImage idx))"
    using ix by (simp_all add: indexes_ok_def)
  note add = replace_if_ok [OF K]
  have "reps_ok ?R []" by (simp add: reps_ok_def)
  note a1 = add [OF mk this, of True "variantRecordKey r"]
  note a2 = add [OF ma a1 [THEN conjunct1], of "r_ArtifactPath r \<noteq> []" "r_ArtifactPath r"]
  note a3 = add [OF me a2 [THEN conjunct1], of "r_Encoding r \<noteq> []" "(r_AssetPath r, r_Encoding r)"]
  note a4 = add [OF mi a3 [THEN conjunct1], of "r_ImageFormat r \<noteq> []" "image_key r"]
  show ?thesis
    unfolding collectReplacements_steps
    using a4 unfolding a3 [THEN conjunct2] a2 [THEN conjunct2] a1 [THEN conjunct2]
    by (auto simp: conflicts_def image_key_def variantImageFormatKey_def)
qed

text \<open>What an insertion does to the set of records: the records in its way are dropped.\<close>

definition abs_upsert :: "variantRecord set \<Rightarrow> variantRecord \<Rightarrow> variantRecord set" where
  "abs_upsert R r = insert r {e \<in> R. \<not> conflicts r e}"

lemma upsert_order:
  assumes ok: "index_ok idx" and es: "distinct es" "set es = {e \<in> recs idx. conflicts r e}"
  shows "index_ok (idx_insert (foldl idx_delete idx es) r) \<and>
    recs (idx_insert (foldl idx_delete idx es) r) = abs_upsert (recs idx) r"
proof -
  let ?d = "foldl idx_delete idx es"
  have d: "index_ok ?d" "recs ?d = recs idx - set es"
    using foldl_delete [OF ok es(1)] es(2) by auto
  then have no: "\<forall>e\<in>recs ?d. \<not> conflicts r e" and k: "keys_ok ?d"
    using es(2) by (auto simp: index_ok_def)
  have "recs (idx_insert ?d r) = insert r (recs idx - set es)"
    using idx_insert_recs(2) [OF k no] d(2) by simp
  moreover have "recs idx - set es = {e \<in> recs idx. \<not> conflicts r e}" using es(2) by auto
  ultimately show ?thesis using idx_insert_ok [OF d(1) no] by (simp add: abs_upsert_def)
qed

lemma idx_upsert_ok:
  assumes "index_ok idx"
  shows "index_ok (idx_upsert idx r)" and "recs (idx_upsert idx r) = abs_upsert (recs idx) r"
proof -
  let ?reps = "collectReplacements idx r"
  have reps: "reps_ok (recs idx) ?reps" "snd ` set ?reps = {e \<in> recs idx. conflicts r e}"
    using collectReplacements_set [OF assms] by auto
  have "map fst ?reps = map variantRecordKey (map snd ?reps)"
    using reps(1) by (auto simp: reps_ok_def)
  then have "distinct (map snd ?reps)"
    using reps(1) by (metis distinct_mapI reps_ok_def)
  moreover have "set (map snd ?reps) = {e \<in> recs idx. conflicts r e}" using reps(2) by simp
  ultimately show "index_ok (idx_upsert idx r)" and "recs (idx_upsert idx r) = abs_upsert (recs idx) r"
    using upsert_order [OF assms, of "map snd ?reps" r] unfolding idx_upsert_def by blast+
qed

section \<open>Queries\<close>

lemma findEncoding_iff:
  "index_ok idx \<Longrightarrow> findEncoding idx p e = Some r \<longleftrightarrow>
    r \<in> recs idx \<and> r_AssetPath r = p \<and> r_Encoding r = e \<and> e \<noteq> []"
  by (auto simp: index_ok_def indexes_ok_def map_index_ok_def findEncoding_def)

lemma findImage_iff:
  "index_ok idx \<Longrightarrow> findImage idx p f w = Some r \<longleftrightarrow>
    r \<in> recs idx \<and> r_AssetPath r = p \<and> r_ImageFormat r = f \<and> r_Width r = w \<and> f \<noteq> []"
  by (auto simp: index_ok_def indexes_ok_def map_index_ok_def findImage_def image_key_def
      variantImageFormatKey_def)

text \<open>Every enumeration returns the sorted list of its records, and changes only the caches.\<close>

definition listed :: "variantIndex \<Rightarrow> variantRecord set \<Rightarrow> variantRecord list \<times> variantIndex \<Rightarrow> bool" where
  "listed idx R res \<longleftrightarrow>
     is_sorted_list (fst res) R \<and> index_ok (snd res) \<and> recs (snd res) = recs idx"

lemma sorted_subset:
  assumes "index_ok idx" and "set rs = R" and "distinct rs" and "R \<subseteq> recs idx"
  shows "is_sorted_list (sortedVariantRecords rs) R"
proof (rule sortedVariantRecords_sorted [OF _ assms(2,3)])
  show "keyed R"
    using recs_keyed [of idx] assms(1,4) by (auto simp: index_ok_def keyed_def dest: inj_on_subset)
qed

lemma listByAssetPath_listed:
  assumes ok: "index_ok idx"
  shows "listed idx {r \<in> recs idx. r_AssetPath r = p} (listByAssetPath idx p)"
proof (cases "sortedByAssetPath idx p")
  case (Some rs)
  then show ?thesis
    using ok by (auto simp: listed_def listByAssetPath_def index_ok_def caches_ok_def cache_ok_def)
next
  case None
  have "distinct (byAssetPath idx p)" "set (byAssetPath idx p) = {r \<in> recs idx. r_AssetPath r = p}"
    using ok by (auto simp: index_ok_def indexes_ok_def list_index_ok_def)
  then have "is_sorted_list (sortedVariantRecords (byAssetPath idx p)) {r \<in> recs idx. r_AssetPath r = p}"
    by (intro sorted_subset [OF ok]) auto
  with None ok show ?thesis
    by (auto simp: listed_def listByAssetPath_def cacheByAssetPath_def index_ok_def keys_ok_def
        indexes_ok_def caches_ok_def cache_ok_def recs_def)
qed

lemma listByStage_listed:
  assumes ok: "index_ok idx"
  shows "listed idx {r \<in> recs idx. r_Stage r = s \<and> s \<noteq> []} (listByStage idx s)"
proof (cases "sortedByStage idx s")
  case (Some rs)
  then show ?thesis
    using ok by (auto simp: listed_def listByStage_def index_ok_def caches_ok_def cache_ok_def)
next
  case None
  have "distinct (byStage idx s)" "set (byStage idx s) = {r \<in> recs idx. r_Stage r = s \<and> s \<noteq> []}"
    using ok by (simp_all add: index_ok_def indexes_ok_def list_index_ok_def)
  then have "is_sorted_list (sortedVariantRecords (byStage idx s)) {r \<in> recs idx. r_Stage r = s \<and> s \<noteq> []}"
    by (intro sorted_subset [OF ok]) auto
  with None ok show ?thesis
    by (auto simp: listed_def listByStage_def cacheByStage_def index_ok_def keys_ok_def
        indexes_ok_def caches_ok_def cache_ok_def recs_def)
qed

lemma image_row_set:
  assumes ok: "index_ok idx"
  shows "distinct (image_row idx k)"
    and "set (image_row idx k) = {r \<in> recs idx. variantImageFormatKey r = k \<and> snd k \<noteq> []}"
proof -
  have d: "distinct (map fst (byImage idx))"
    and m: "map_index_ok (recs idx) image_key (\<lambda>k. snd (fst k) \<noteq> []) (map_of (byImage idx))"
    using ok by (simp_all add: index_ok_def indexes_ok_def)
  have mem: "(k', r) \<in> set (byImage idx) \<longleftrightarrow> r \<in> recs idx \<and> image_key r = k' \<and> snd (fst k') \<noteq> []" for k' r
    using m map_of_eq_Some_iff [OF d] unfolding map_index_ok_def by metis
  have keys: "map fst (byImage idx) = map image_key (map snd (byImage idx))"
    using mem by (auto simp: image_key_def)
  have "distinct (map snd (byImage idx))"
    using d unfolding keys by (rule distinct_mapI)
  then show "distinct (image_row idx k)"
    unfolding image_row_def by (rule distinct_map_filter)
  show "set (image_row idx k) = {r \<in> recs idx. variantImageFormatKey r = k \<and> snd k \<noteq> []}"
  proof (rule set_eqI)
    fix r
    have "r \<in> set (image_row idx k) \<longleftrightarrow> (\<exists>w. ((k, w), r) \<in> set (byImage idx))"
      unfolding image_row_def by force
    also have "\<dots> \<longleftrightarrow> r \<in> recs idx \<and> variantImageFormatKey r = k \<and> snd k \<noteq> []"
      unfolding mem by (simp add: image_key_def)
    finally show "r \<in> set (image_row idx k) \<longleftrightarrow>
        r \<in> {r \<in> recs idx. variantImageFormatKey r = k \<and> snd k \<noteq> []}" by simp
  qed
qed

lemma listByImageFormat_listed:
  assumes ok: "index_ok idx"
  shows "listed idx {r \<in> recs idx. r_AssetPath r = p \<and> r_ImageFormat r = f \<and> f \<noteq> []}
    (listByImageFormat idx p f)"
proof -
  have R: "{r \<in> recs idx. r_AssetPath r = p \<and> r_ImageFormat r = f \<and> f \<noteq> []} =
      {r \<in> recs idx. variantImageFormatKey r = (p, f) \<and> snd (p, f) \<noteq> []}"
    by (auto simp: variantImageFormatKey_def)
  show ?thesis
  proof (cases "sortedByImageFormat idx (p, f)")
    case (Some rs)
    then show ?thesis
      unfolding R
      using ok by (auto simp: listed_def listByImageFormat_def index_ok_def caches_ok_def cache_ok_def)
  next
    case None
    have "is_sorted_list (sortedVariantRecords (image_row idx (p, f)))
        {r \<in> recs idx. variantImageFormatKey r = (p, f) \<and> snd (p, f) \<noteq> []}"
      using image_row_set [OF ok, of "(p, f)"] by (intro sorted_subset [OF ok]) auto
    with None ok show ?thesis
      unfolding R
      by (auto simp: listed_def listByImageFormat_def cacheByImageFormat_def Let_def index_ok_def
          keys_ok_def indexes_ok_def caches_ok_def cache_ok_def recs_def)
  qed
qed

lemma idx_all_listed:
  assumes ok: "index_ok idx"
  shows "listed idx (recs idx) (idx_all idx)"
proof (cases "sortedAllVariantRecords idx")
  case (Some rs)
  then show ?thesis
    using ok by (auto simp: listed_def idx_all_def index_ok_def caches_ok_def)
next
  case None
  have k: "keys_ok idx" using ok by (simp add: index_ok_def)
  have "map fst (byKey idx) = map variantRecordKey (map snd (byKey idx))"
    using k by (auto simp: keys_ok_def)
  then have "distinct (map snd (byKey idx))"
    using k by (metis distinct_mapI keys_ok_def)
  then have "is_sorted_list (sortedVariantRecords (map snd (byKey idx))) (recs idx)"
    by (intro sorted_subset [OF ok]) (simp_all add: recs_def)
  with None ok show ?thesis
    by (auto simp: listed_def idx_all_def cacheAll_def index_ok_def keys_ok_def
        indexes_ok_def caches_ok_def cache_ok_def recs_def)
qed

lemma idx_count_card:
  assumes "index_ok idx"
  shows "idx_count idx = card (recs idx)"
proof -
  have "map fst (byKey idx) = map variantRecordKey (map snd (byKey idx))" "distinct (map fst (byKey idx))"
    using assms by (auto simp: index_ok_def keys_ok_def)
  then have "distinct (map snd (byKey idx))" by (metis distinct_mapI)
  then show ?thesis unfolding idx_count_def recs_def by (metis distinct_card length_map set_map)
qed

lemma deleteByAssetPath_ok:
  assumes ok: "index_ok idx"
  shows "index_ok (snd (deleteByAssetPath idx p))"
    and "recs (snd (deleteByAssetPath idx p)) = {r \<in> recs idx. r_AssetPath r \<noteq> p}"
    and "set (fst (deleteByAssetPath idx p)) = r_Variant ` {r \<in> recs idx. r_AssetPath r = p}"
proof -
  obtain rs idx' where l: "listByAssetPath idx p = (rs, idx')" by fastforce
  from listByAssetPath_listed [OF ok, of p] l
  have rs: "is_sorted_list rs {r \<in> recs idx. r_AssetPath r = p}" and ok': "index_ok idx'"
    and R: "recs idx' = recs idx"
    by (auto simp: listed_def)
  have "sorted_wrt (<) (map variantRecordKey rs)" using rs by (simp add: is_sorted_list_def sorted_wrt_map)
  then have "distinct rs" by (metis distinct_mapI strict_sorted_iff)
  then have f: "index_ok (foldl idx_delete idx' rs)" "recs (foldl idx_delete idx' rs) = recs idx' - set rs"
    using foldl_delete [OF ok', of rs] rs R by (auto simp: is_sorted_list_def)
  then show "index_ok (snd (deleteByAssetPath idx p))" by (simp add: deleteByAssetPath_def l)
  show "recs (snd (deleteByAssetPath idx p)) = {r \<in> recs idx. r_AssetPath r \<noteq> p}"
    using f(2) rs R by (auto simp: deleteByAssetPath_def l is_sorted_list_def)
  show "set (fst (deleteByAssetPath idx p)) = r_Variant ` {r \<in> recs idx. r_AssetPath r = p}"
    using rs by (simp add: deleteByAssetPath_def l is_sorted_list_def)
qed

lemma deleteByArtifactPath_ok:
  assumes ok: "index_ok idx"
  shows "index_ok (snd (deleteByArtifactPath idx a))"
    and "recs (snd (deleteByArtifactPath idx a)) = {r \<in> recs idx. r_ArtifactPath r \<noteq> a \<or> a = []}"
    and "fst (deleteByArtifactPath idx a) \<longleftrightarrow> a \<noteq> [] \<and> (\<exists>r\<in>recs idx. r_ArtifactPath r = a)"
proof -
  have m: "map_index_ok (recs idx) r_ArtifactPath (\<lambda>a. a \<noteq> []) (byArtifact idx)" and k: "keys_ok idx"
    using ok by (simp_all add: index_ok_def indexes_ok_def)
  have "index_ok (snd (deleteByArtifactPath idx a)) \<and>
      recs (snd (deleteByArtifactPath idx a)) = {r \<in> recs idx. r_ArtifactPath r \<noteq> a \<or> a = []} \<and>
      (fst (deleteByArtifactPath idx a) \<longleftrightarrow> a \<noteq> [] \<and> (\<exists>r\<in>recs idx. r_ArtifactPath r = a))"
  proof (cases "byArtifact idx a")
    case None
    then have "\<not> (r \<in> recs idx \<and> r_ArtifactPath r = a \<and> a \<noteq> [])" for r
      using m unfolding map_index_ok_def by (metis option.distinct(1))
    with None ok show ?thesis by (auto simp: deleteByArtifactPath_def)
  next
    case (Some r)
    then have r: "e \<in> recs idx \<and> r_ArtifactPath e = a \<and> a \<noteq> [] \<longleftrightarrow> e = r" for e
      using m unfolding map_index_ok_def by (metis option.inject)
    then have rR: "r \<in> recs idx" by blast
    have "recs idx - {r} = {e \<in> recs idx. r_ArtifactPath e \<noteq> a \<or> a = []}" using r by auto
    with idx_delete_ok [OF ok rR] idx_delete_recs(2) [OF k rR] r Some show ?thesis
      by (auto simp: deleteByArtifactPath_def)
  qed
  then show "index_ok (snd (deleteByArtifactPath idx a))"
    and "recs (snd (deleteByArtifactPath idx a)) = {r \<in> recs idx. r_ArtifactPath r \<noteq> a \<or> a = []}"
    and "fst (deleteByArtifactPath idx a) \<longleftrightarrow> a \<noteq> [] \<and> (\<exists>r\<in>recs idx. r_ArtifactPath r = a)"
    by blast+
qed

end
