(* ===== verification/Catalog.thy ===== *)
theory Catalog
  imports VariantIndex
begin

text \<open>
  \<open>internal/catalog/constructor.go\<close>, \<open>commands.go\<close>, \<open>queries.go\<close> and \<open>query_helpers.go\<close>: the indexed
  catalog.  Commands return the error or the new state, queries that may fill a cache return the
  answer and the new state.  Every operation holds the catalog's lock for its whole body, so an
  execution is a sequence of operations.

  \<open>catalog_ok\<close> is the invariant (indexes and caches coherent, every variant belongs to an asset);
  \<open>absc\<close> abstracts a catalog to a map of assets and a set of variant records, and \<open>abs_exec\<close> is the
  abstract specification every operation implements.
\<close>

section \<open>The catalog and its operations\<close>

record IndexedCatalog =
  assetsByPath :: "(string \<times> assetRecord) list"
  sortedAssetCache :: "assetRecord list option"
  variants :: variantIndex

datatype catalog_error = ErrAssetNotFound | errNilAsset int | errNilVariant int

definition NewInMemoryCatalog :: IndexedCatalog where
  "NewInMemoryCatalog = \<lparr>assetsByPath = [], sortedAssetCache = None, variants = newVariantIndex\<rparr>"

definition invalidateAssetCache :: "IndexedCatalog \<Rightarrow> IndexedCatalog" where
  "invalidateAssetCache c = c\<lparr>sortedAssetCache := None\<rparr>"

definition buildAssetRecord ::
    "(string \<Rightarrow> time option) \<Rightarrow> Asset option \<Rightarrow> int \<Rightarrow> catalog_error + assetRecord" where
  "buildAssetRecord stat asset index =
     (case asset of None \<Rightarrow> Inl (errNilAsset index) | Some a \<Rightarrow> Inr (newAssetRecord stat a))"

definition buildVariantRecord ::
    "(string \<Rightarrow> time option) \<Rightarrow> Variant option \<Rightarrow> int \<Rightarrow> catalog_error + variantRecord" where
  "buildVariantRecord stat variant index =
     (case variant of
        None \<Rightarrow> Inl (errNilVariant index)
      | Some v \<Rightarrow> Inr (newVariantRecord stat v (if v_ID v = [] then defaultVariantID v else v_ID v)))"

definition UpsertAsset ::
    "(string \<Rightarrow> time option) \<Rightarrow> IndexedCatalog \<Rightarrow> Asset option \<Rightarrow> catalog_error + IndexedCatalog" where
  "UpsertAsset stat c asset =
     (case buildAssetRecord stat asset (-1) of
        Inl e \<Rightarrow> Inl e
      | Inr rec \<Rightarrow>
          Inr (invalidateAssetCache
                 (c\<lparr>assetsByPath := AList.update (ar_Path rec) rec (assetsByPath c)\<rparr>)))"

definition UpsertVariant ::
    "(string \<Rightarrow> time option) \<Rightarrow> IndexedCatalog \<Rightarrow> Variant option \<Rightarrow> catalog_error + IndexedCatalog" where
  "UpsertVariant stat c variant =
     (case buildVariantRecord stat variant (-1) of
        Inl e \<Rightarrow> Inl e
      | Inr rec \<Rightarrow>
          (case map_of (assetsByPath c) (r_AssetPath rec) of
             None \<Rightarrow> Inl ErrAssetNotFound
           | Some _ \<Rightarrow> Inr (c\<lparr>variants := idx_upsert (variants c) rec\<rparr>)))"

definition add_asset ::
    "(string \<Rightarrow> time option) \<Rightarrow> (string \<times> assetRecord) list \<Rightarrow> nat \<times> Asset option \<Rightarrow>
     catalog_error + (string \<times> assetRecord) list" where
  "add_asset stat assets x =
     (case buildAssetRecord stat (snd x) (int (fst x)) of
        Inl e \<Rightarrow> Inl e | Inr rec \<Rightarrow> Inr (AList.update (ar_Path rec) rec assets))"

definition buildAssetRecords ::
    "(string \<Rightarrow> time option) \<Rightarrow> Asset option list \<Rightarrow> catalog_error + (string \<times> assetRecord) list" where
  "buildAssetRecords stat assets = run_all (add_asset stat) [] (enumerate 0 assets)"

definition add_variant ::
    "(string \<Rightarrow> time option) \<Rightarrow> (string \<times> assetRecord) list \<Rightarrow> variantIndex \<Rightarrow> nat \<times> Variant option \<Rightarrow>
     catalog_error + variantIndex" where
  "add_variant stat assets idx x =
     (case buildVariantRecord stat (snd x) (int (fst x)) of
        Inl e \<Rightarrow> Inl e
      | Inr rec \<Rightarrow>
          (case map_of assets (r_AssetPath rec) of
             None \<Rightarrow> Inl ErrAssetNotFound | Some _ \<Rightarrow> Inr (idx_upsert idx rec)))"

definition buildVariantRecords ::
    "(string \<Rightarrow> time option) \<Rightarrow> Variant option list \<Rightarrow> (string \<times> assetRecord) list \<Rightarrow>
     catalog_error + variantIndex" where
  "buildVariantRecords stat vs assets = run_all (add_variant stat assets) newVariantIndex (enumerate 0 vs)"

definition ReplaceCatalog ::
    "(string \<Rightarrow> time option) \<Rightarrow> IndexedCatalog \<Rightarrow> Asset option list \<Rightarrow> Variant option list \<Rightarrow>
     catalog_error + IndexedCatalog" where
  "ReplaceCatalog stat c assets vs =
     (case buildAssetRecords stat assets of
        Inl e \<Rightarrow> Inl e
      | Inr nextAssets \<Rightarrow>
          (case buildVariantRecords stat vs nextAssets of
             Inl e \<Rightarrow> Inl e
           | Inr nextVariants \<Rightarrow>
               Inr (invalidateAssetCache (c\<lparr>assetsByPath := nextAssets, variants := nextVariants\<rparr>))))"

definition DeleteAsset :: "IndexedCatalog \<Rightarrow> string \<Rightarrow> Variant list \<times> IndexedCatalog" where
  "DeleteAsset c p =
     (let c1 = invalidateAssetCache (c\<lparr>assetsByPath := AList.delete p (assetsByPath c)\<rparr>);
          (removed, idx) = deleteByAssetPath (variants c1) p
      in (removed, c1\<lparr>variants := idx\<rparr>))"

definition DeleteVariants :: "IndexedCatalog \<Rightarrow> string \<Rightarrow> Variant list \<times> IndexedCatalog" where
  "DeleteVariants c p =
     (case deleteByAssetPath (variants c) p of (removed, idx) \<Rightarrow> (removed, c\<lparr>variants := idx\<rparr>))"

definition DeleteVariantByArtifactPath :: "IndexedCatalog \<Rightarrow> string \<Rightarrow> bool \<times> IndexedCatalog" where
  "DeleteVariantByArtifactPath c a =
     (case deleteByArtifactPath (variants c) a of (ok, idx) \<Rightarrow> (ok, c\<lparr>variants := idx\<rparr>))"

definition sortedAssetRecords :: "assetRecord list \<Rightarrow> assetRecord list" where
  "sortedAssetRecords rs = sort_func (\<lambda>a b. ar_Path a < ar_Path b) rs"

definition sortedAssets :: "IndexedCatalog \<Rightarrow> assetRecord list \<times> IndexedCatalog" where
  "sortedAssets c =
     (case sortedAssetCache c of
        Some rs \<Rightarrow> (rs, c)
      | None \<Rightarrow>
          (let sorted = sortedAssetRecords (map snd (assetsByPath c))
           in (sorted, c\<lparr>sortedAssetCache := Some sorted\<rparr>)))"

text \<open>Queries.  The \<open>View\<close> forms share what the plain forms copy; the \<open>Result\<close> forms have an
  error, which the in-memory catalog never returns.\<close>

definition FindAssetViewResult :: "IndexedCatalog \<Rightarrow> string \<Rightarrow> catalog_error + Asset option" where
  "FindAssetViewResult c p =
     Inr (case map_of (assetsByPath c) p of None \<Rightarrow> None | Some rec \<Rightarrow> Some (ar_Asset rec))"

definition FindAsset :: "IndexedCatalog \<Rightarrow> string \<Rightarrow> Asset option" where
  "FindAsset c p = (case FindAssetViewResult c p of Inl _ \<Rightarrow> None | Inr a \<Rightarrow> a)"

definition FindEncodingVariantViewResult ::
    "IndexedCatalog \<Rightarrow> string \<Rightarrow> string \<Rightarrow> catalog_error + Variant option" where
  "FindEncodingVariantViewResult c p e =
     Inr (case findEncoding (variants c) p e of None \<Rightarrow> None | Some rec \<Rightarrow> Some (r_Variant rec))"

definition FindEncodingVariant :: "IndexedCatalog \<Rightarrow> string \<Rightarrow> string \<Rightarrow> Variant option" where
  "FindEncodingVariant c p e = (case FindEncodingVariantViewResult c p e of Inl _ \<Rightarrow> None | Inr v \<Rightarrow> v)"

definition FindImageVariantViewResult ::
    "IndexedCatalog \<Rightarrow> string \<Rightarrow> string \<Rightarrow> int \<Rightarrow> catalog_error + Variant option" where
  "FindImageVariantViewResult c p f w =
     Inr (case findImage (variants c) p f w of None \<Rightarrow> None | Some rec \<Rightarrow> Some (r_Variant rec))"

definition FindImageVariant :: "IndexedCatalog \<Rightarrow> string \<Rightarrow> string \<Rightarrow> int \<Rightarrow> Variant option" where
  "FindImageVariant c p f w = (case FindImageVariantViewResult c p f w of Inl _ \<Rightarrow> None | Inr v \<Rightarrow> v)"

definition variantViewsFromRecords :: "variantRecord list \<Rightarrow> Variant list" where
  "variantViewsFromRecords rs = map r_Variant rs"

definition ListVariantsView :: "IndexedCatalog \<Rightarrow> string \<Rightarrow> Variant list \<times> IndexedCatalog" where
  "ListVariantsView c p =
     (case listByAssetPath (variants c) p of
        (rs, idx) \<Rightarrow> (variantViewsFromRecords rs, c\<lparr>variants := idx\<rparr>))"

definition ListImageVariantsViewResult ::
    "IndexedCatalog \<Rightarrow> string \<Rightarrow> string \<Rightarrow> (catalog_error + Variant list) \<times> IndexedCatalog" where
  "ListImageVariantsViewResult c p f =
     (case listByImageFormat (variants c) p f of
        (rs, idx) \<Rightarrow> (Inr (variantViewsFromRecords rs), c\<lparr>variants := idx\<rparr>))"

definition ListImageVariants :: "IndexedCatalog \<Rightarrow> string \<Rightarrow> string \<Rightarrow> Variant list \<times> IndexedCatalog" where
  "ListImageVariants c p f =
     (case ListImageVariantsViewResult c p f of
        (Inl _, c') \<Rightarrow> ([], c') | (Inr vs, c') \<Rightarrow> (vs, c'))"

definition ListVariantsByStage :: "IndexedCatalog \<Rightarrow> string \<Rightarrow> Variant list \<times> IndexedCatalog" where
  "ListVariantsByStage c s =
     (case listByStage (variants c) s of
        (rs, idx) \<Rightarrow> (variantViewsFromRecords rs, c\<lparr>variants := idx\<rparr>))"

definition AllAssets :: "IndexedCatalog \<Rightarrow> Asset list \<times> IndexedCatalog" where
  "AllAssets c = (case sortedAssets c of (rs, c') \<Rightarrow> (map ar_Asset rs, c'))"

definition AllVariants :: "IndexedCatalog \<Rightarrow> Variant list \<times> IndexedCatalog" where
  "AllVariants c = (case idx_all (variants c) of (rs, idx) \<Rightarrow> (map r_Variant rs, c\<lparr>variants := idx\<rparr>))"

definition AssetCount :: "IndexedCatalog \<Rightarrow> nat" where
  "AssetCount c = length (assetsByPath c)"

definition VariantCount :: "IndexedCatalog \<Rightarrow> nat" where
  "VariantCount c = idx_count (variants c)"

fun snapshot_entries ::
    "variantIndex \<Rightarrow> assetRecord list \<Rightarrow> (Asset \<times> Variant list) list \<times> variantIndex" where
  "snapshot_entries idx [] = ([], idx)"
| "snapshot_entries idx (rec # rs) =
     (case listByAssetPath idx (ar_Path rec) of
        (vs, idx') \<Rightarrow>
          (case snapshot_entries idx' rs of
             (es, idx'') \<Rightarrow> ((ar_Asset rec, map r_Variant vs) # es, idx'')))"

definition Snapshot :: "IndexedCatalog \<Rightarrow> (Asset \<times> Variant list) list \<times> IndexedCatalog" where
  "Snapshot c =
     (case sortedAssets c of
        (rs, c') \<Rightarrow>
          (case snapshot_entries (variants c') rs of (es, idx) \<Rightarrow> (es, c'\<lparr>variants := idx\<rparr>)))"

section \<open>Executions\<close>

datatype catalog_op =
  OpUpsertAsset "Asset option" | OpUpsertVariant "Variant option"
| OpReplace "Asset option list" "Variant option list"
| OpDeleteAsset string | OpDeleteVariants string | OpDeleteArtifact string
| OpListVariants string | OpListImage string string | OpListStage string
| OpAllAssets | OpAllVariants | OpSnapshot

definition keep :: "'s \<Rightarrow> 'e + 's \<Rightarrow> 's" where
  "keep s r = (case r of Inl _ \<Rightarrow> s | Inr s' \<Rightarrow> s')"

primrec exec_op :: "(string \<Rightarrow> time option) \<Rightarrow> IndexedCatalog \<Rightarrow> catalog_op \<Rightarrow> IndexedCatalog" where
  "exec_op stat c (OpUpsertAsset a) = keep c (UpsertAsset stat c a)"
| "exec_op stat c (OpUpsertVariant v) = keep c (UpsertVariant stat c v)"
| "exec_op stat c (OpReplace as vs) = keep c (ReplaceCatalog stat c as vs)"
| "exec_op stat c (OpDeleteAsset p) = snd (DeleteAsset c p)"
| "exec_op stat c (OpDeleteVariants p) = snd (DeleteVariants c p)"
| "exec_op stat c (OpDeleteArtifact a) = snd (DeleteVariantByArtifactPath c a)"
| "exec_op stat c (OpListVariants p) = snd (ListVariantsView c p)"
| "exec_op stat c (OpListImage p f) = snd (ListImageVariants c p f)"
| "exec_op stat c (OpListStage s) = snd (ListVariantsByStage c s)"
| "exec_op stat c OpAllAssets = snd (AllAssets c)"
| "exec_op stat c OpAllVariants = snd (AllVariants c)"
| "exec_op stat c OpSnapshot = snd (Snapshot c)"

section \<open>The abstract catalog\<close>

type_synonym abs_catalog = "(string \<rightharpoonup> Asset) \<times> variantRecord set"

definition abs_assets :: "(string \<times> assetRecord) list \<Rightarrow> (string \<rightharpoonup> Asset)" where
  "abs_assets al p = map_option ar_Asset (map_of al p)"

definition absc :: "IndexedCatalog \<Rightarrow> abs_catalog" where
  "absc c = (abs_assets (assetsByPath c), recs (variants c))"

definition variant_record :: "(string \<Rightarrow> time option) \<Rightarrow> Variant \<Rightarrow> variantRecord" where
  "variant_record stat v = newVariantRecord stat v (if v_ID v = [] then defaultVariantID v else v_ID v)"

definition put_asset :: "(string \<Rightarrow> time option) \<Rightarrow> (string \<rightharpoonup> Asset) \<Rightarrow> Asset \<Rightarrow> (string \<rightharpoonup> Asset)" where
  "put_asset stat A a = A(a_Path a \<mapsto> prepareAsset stat a)"

primrec abs_exec :: "(string \<Rightarrow> time option) \<Rightarrow> abs_catalog \<Rightarrow> catalog_op \<Rightarrow> abs_catalog" where
  "abs_exec stat s (OpUpsertAsset a) =
     (case a of None \<Rightarrow> s | Some x \<Rightarrow> (put_asset stat (fst s) x, snd s))"
| "abs_exec stat s (OpUpsertVariant v) =
     (case v of
        None \<Rightarrow> s
      | Some x \<Rightarrow> if v_AssetPath x \<in> dom (fst s) then (fst s, abs_upsert (snd s) (variant_record stat x)) else s)"
| "abs_exec stat s (OpReplace as vs) =
     (let A = foldl (put_asset stat) Map.empty (map the as)
      in if None \<notin> set as \<and> None \<notin> set vs \<and> (\<forall>v\<in>set vs. v_AssetPath (the v) \<in> dom A)
         then (A, foldl (\<lambda>R v. abs_upsert R (variant_record stat v)) {} (map the vs)) else s)"
| "abs_exec stat s (OpDeleteAsset p) = ((fst s)(p := None), {r \<in> snd s. r_AssetPath r \<noteq> p})"
| "abs_exec stat s (OpDeleteVariants p) = (fst s, {r \<in> snd s. r_AssetPath r \<noteq> p})"
| "abs_exec stat s (OpDeleteArtifact a) = (fst s, {r \<in> snd s. r_ArtifactPath r \<noteq> a \<or> a = []})"
| "abs_exec stat s (OpListVariants p) = s"
| "abs_exec stat s (OpListImage p f) = s"
| "abs_exec stat s (OpListStage st) = s"
| "abs_exec stat s OpAllAssets = s"
| "abs_exec stat s OpAllVariants = s"
| "abs_exec stat s OpSnapshot = s"

section \<open>The invariant\<close>

definition record_ok :: "variantRecord \<Rightarrow> bool" where
  "record_ok r \<longleftrightarrow> (let v = r_Variant r in
     v_AssetPath v = r_AssetPath r \<and> v_ID v = r_ID r \<and> v_ArtifactPath v = r_ArtifactPath r \<and>
     v_Encoding v = r_Encoding r \<and> imageFormatKey v = r_ImageFormat r \<and> stageKey v = r_Stage r \<and>
     v_Width v = r_Width r \<and> (r_ID r = [] \<longrightarrow> trim_space (r_AssetPath r) = []))"

definition assets_ok :: "(string \<times> assetRecord) list \<Rightarrow> bool" where
  "assets_ok al \<longleftrightarrow> distinct (map fst al) \<and>
     (\<forall>x\<in>set al. fst x = ar_Path (snd x) \<and> a_Path (ar_Asset (snd x)) = ar_Path (snd x))"

definition sorted_assets :: "assetRecord list \<Rightarrow> (string \<times> assetRecord) list \<Rightarrow> bool" where
  "sorted_assets rs al \<longleftrightarrow> set rs = snd ` set al \<and> sorted_wrt (\<lambda>a b. ar_Path a < ar_Path b) rs"

definition catalog_ok :: "IndexedCatalog \<Rightarrow> bool" where
  "catalog_ok c \<longleftrightarrow>
     assets_ok (assetsByPath c) \<and>
     (\<forall>rs. sortedAssetCache c = Some rs \<longrightarrow> sorted_assets rs (assetsByPath c)) \<and>
     index_ok (variants c) \<and>
     (\<forall>r\<in>recs (variants c). record_ok r \<and> r_AssetPath r \<in> dom (abs_assets (assetsByPath c)))"

lemma defaultVariantID_ne: "defaultVariantID v = [] \<Longrightarrow> trim_space (v_AssetPath v) = []"
  by (simp add: defaultVariantID_def VariantID_def Let_def)

lemma variant_record_ok: "record_ok (variant_record stat v)"
  by (auto simp: record_ok_def variant_record_def newVariantRecord_def Let_def prepareVariant_def
      defaultVariantID_ne)

lemma variant_record_path [simp]: "r_AssetPath (variant_record stat v) = v_AssetPath v"
  by (simp add: variant_record_def newVariantRecord_def Let_def prepareVariant_def)

lemma dom_abs_assets: "dom (abs_assets al) = fst ` set al"
  by (auto simp: abs_assets_def dom_def dom_map_of_conv_image_fst [symmetric])

lemma dom_abs_assets_map_of: "p \<in> dom (abs_assets al) \<longleftrightarrow> map_of al p \<noteq> None"
  by (auto simp: abs_assets_def)

definition update_asset ::
    "(string \<Rightarrow> time option) \<Rightarrow> (string \<times> assetRecord) list \<Rightarrow> Asset \<Rightarrow> (string \<times> assetRecord) list" where
  "update_asset stat al a = AList.update (a_Path a) (newAssetRecord stat a) al"

lemma newAssetRecord_simps [simp]:
  "ar_Path (newAssetRecord stat a) = a_Path a"
  "ar_Asset (newAssetRecord stat a) = prepareAsset stat a"
  "a_Path (prepareAsset stat a) = a_Path a"
  by (simp_all add: newAssetRecord_def Let_def prepareAsset_def)

lemma abs_assets_Nil [simp]: "abs_assets [] = Map.empty"
  by (simp add: abs_assets_def fun_eq_iff)

lemma update_asset_ok:
  assumes "assets_ok al"
  shows "assets_ok (update_asset stat al a)"
    and "abs_assets (update_asset stat al a) = put_asset stat (abs_assets al) a"
  using assms set_AList_update [of al "a_Path a" "newAssetRecord stat a"]
  by (auto simp: assets_ok_def update_asset_def distinct_update abs_assets_def put_asset_def
      update_conv' fun_eq_iff)

lemma foldl_assets_ok:
  "assets_ok al \<Longrightarrow> assets_ok (foldl (update_asset stat) al as) \<and>
    abs_assets (foldl (update_asset stat) al as) = foldl (put_asset stat) (abs_assets al) as"
  by (induction as arbitrary: al) (simp_all add: update_asset_ok)

lemma buildAssetRecords_eq:
  "run_all (add_asset stat) al (enumerate n as) =
    (case filter (\<lambda>x. snd x = None) (enumerate n as) of
       [] \<Rightarrow> Inr (foldl (update_asset stat) al (map the as))
     | x # _ \<Rightarrow> Inl (errNilAsset (int (fst x))))"
  by (induction as arbitrary: al n)
     (auto simp: add_asset_def buildAssetRecord_def update_asset_def split: option.splits list.splits)

lemma filter_None_enumerate: "filter (\<lambda>x. snd x = None) (enumerate n as) = [] \<longleftrightarrow> None \<notin> set as"
  by (induction as arbitrary: n) auto

text \<open>Variants: the index after a prefix of the list, while every asset is known.\<close>

definition upsert_variant :: "(string \<Rightarrow> time option) \<Rightarrow> variantIndex \<Rightarrow> Variant \<Rightarrow> variantIndex" where
  "upsert_variant stat idx v = idx_upsert idx (variant_record stat v)"

lemma foldl_upsert_ok:
  "index_ok idx \<Longrightarrow> index_ok (foldl (upsert_variant stat) idx vs) \<and>
    recs (foldl (upsert_variant stat) idx vs) =
      foldl (\<lambda>R v. abs_upsert R (variant_record stat v)) (recs idx) vs"
  by (induction vs arbitrary: idx) (simp_all add: upsert_variant_def idx_upsert_ok)

lemma foldl_upsert_subset:
  "foldl (\<lambda>R v. abs_upsert R (variant_record stat v)) R vs \<subseteq> R \<union> variant_record stat ` set vs"
  by (induction vs arbitrary: R) (auto simp: abs_upsert_def)

lemma buildVariantRecords_ok:
  "None \<notin> set vs \<Longrightarrow> \<forall>v\<in>set vs. v_AssetPath (the v) \<in> dom (abs_assets al) \<Longrightarrow>
    run_all (add_variant stat al) idx (enumerate n vs) = Inr (foldl (upsert_variant stat) idx (map the vs))"
proof (induction vs arbitrary: idx n)
  case (Cons v vs)
  then obtain x where x: "v = Some x" by (cases v) auto
  with Cons.prems obtain rec where "map_of al (v_AssetPath x) = Some rec"
    by (auto simp: dom_abs_assets_map_of)
  with Cons x show ?case
    by (simp add: add_variant_def buildVariantRecord_def upsert_variant_def variant_record_def [symmetric])
qed simp

lemma buildVariantRecords_fails:
  "None \<in> set vs \<or> (\<exists>v\<in>set vs. v_AssetPath (the v) \<notin> dom (abs_assets al)) \<Longrightarrow>
    \<exists>e. run_all (add_variant stat al) idx (enumerate n vs) = Inl e"
proof (induction vs arbitrary: idx n)
  case (Cons v vs)
  show ?case
  proof (cases v)
    case None
    then show ?thesis by (simp add: add_variant_def buildVariantRecord_def)
  next
    case (Some x)
    with Cons show ?thesis
      by (auto simp: add_variant_def buildVariantRecord_def variant_record_def [symmetric]
          dom_abs_assets_map_of split: option.splits)
  qed
qed simp

lemma sortedAssets_ok:
  assumes ok: "catalog_ok c"
  shows "catalog_ok (snd (sortedAssets c))" "absc (snd (sortedAssets c)) = absc c"
    and "sorted_assets (fst (sortedAssets c)) (assetsByPath c)"
    and "variants (snd (sortedAssets c)) = variants c"
proof -
  have "sorted_assets (sortedAssetRecords (map snd (assetsByPath c))) (assetsByPath c)"
  proof -
    let ?rs = "map snd (assetsByPath c)"
    have keys: "map ar_Path ?rs = map fst (assetsByPath c)" "distinct (map fst (assetsByPath c))"
      using ok by (auto simp: catalog_ok_def assets_ok_def)
    then have inj: "inj_on ar_Path (set ?rs)" and d: "distinct ?rs"
      by (metis distinct_map) (metis keys distinct_mapI)
    have "strict_weak_on (set ?rs) (\<lambda>a b. ar_Path a < ar_Path b)" by (auto simp: strict_weak_on_def)
    note sorted = sorted_sort_func [OF this]
    have "sorted_wrt (\<lambda>a b. ar_Path a < ar_Path b) (sort_func (\<lambda>a b. ar_Path a < ar_Path b) ?rs)"
    proof (rule sorted_wrt_mono_on [OF sorted])
      fix a b
      assume "a \<in> set (sort_func (\<lambda>a b. ar_Path a < ar_Path b) ?rs)"
        "b \<in> set (sort_func (\<lambda>a b. ar_Path a < ar_Path b) ?rs)" "a \<noteq> b"
        and le: "\<not> ar_Path b < ar_Path a"
      with inj have "ar_Path a \<noteq> ar_Path b" by (metis inj_onD set_sort_func)
      with le show "ar_Path a < ar_Path b" by (metis linorder_neqE)
    qed (use d in simp)
    then show ?thesis by (simp add: sorted_assets_def sortedAssetRecords_def)
  qed
  with ok show "catalog_ok (snd (sortedAssets c))" "absc (snd (sortedAssets c)) = absc c"
    "sorted_assets (fst (sortedAssets c)) (assetsByPath c)"
    "variants (snd (sortedAssets c)) = variants c"
    by (auto simp: sortedAssets_def catalog_ok_def absc_def Let_def split: option.splits)
qed

lemma snapshot_entries_ok:
  "index_ok idx \<Longrightarrow> index_ok (snd (snapshot_entries idx rs)) \<and>
    recs (snd (snapshot_entries idx rs)) = recs idx \<and>
    map fst (fst (snapshot_entries idx rs)) = map ar_Asset rs"
proof (induction rs arbitrary: idx)
  case (Cons rec rs)
  obtain vs idx' where l: "listByAssetPath idx (ar_Path rec) = (vs, idx')" by fastforce
  with listByAssetPath_listed [OF Cons.prems, of "ar_Path rec"]
  have "index_ok idx'" "recs idx' = recs idx" by (auto simp: listed_def)
  with Cons.IH [of idx'] l show ?case by (auto split: prod.splits)
qed simp

section \<open>Every operation keeps the invariant and implements its specification\<close>

text \<open>The invariant after a change of the variants only, of the assets only.\<close>

lemma catalog_ok_variants:
  assumes "catalog_ok c" and "index_ok idx"
    and "\<forall>r\<in>recs idx. r \<in> recs (variants c) \<or>
      (record_ok r \<and> r_AssetPath r \<in> dom (abs_assets (assetsByPath c)))"
  shows "catalog_ok (c\<lparr>variants := idx\<rparr>)"
  using assms unfolding catalog_ok_def by simp blast

lemma listed_state:
  assumes "catalog_ok c" and "listed (variants c) R res"
  shows "catalog_ok (c\<lparr>variants := snd res\<rparr>) \<and> absc (c\<lparr>variants := snd res\<rparr>) = absc c"
  using assms catalog_ok_variants [of c "snd res"] by (auto simp: listed_def absc_def)

lemma UpsertAsset_ok:
  assumes ok: "catalog_ok c"
  shows "catalog_ok (exec_op stat c (OpUpsertAsset a)) \<and>
    absc (exec_op stat c (OpUpsertAsset a)) = abs_exec stat (absc c) (OpUpsertAsset a)"
proof (cases a)
  case None
  then show ?thesis using ok by (simp add: UpsertAsset_def buildAssetRecord_def keep_def)
next
  case (Some x)
  let ?al = "update_asset stat (assetsByPath c) x"
  have e: "exec_op stat c (OpUpsertAsset a) = invalidateAssetCache (c\<lparr>assetsByPath := ?al\<rparr>)"
    using Some by (simp add: UpsertAsset_def buildAssetRecord_def keep_def update_asset_def)
  have "assets_ok (assetsByPath c)" using ok by (simp add: catalog_ok_def)
  note al = update_asset_ok [OF this, of stat x]
  have "dom (abs_assets (assetsByPath c)) \<subseteq> dom (abs_assets ?al)"
    unfolding al(2) by (auto simp: put_asset_def)
  with ok have "\<forall>r\<in>recs (variants c). record_ok r \<and> r_AssetPath r \<in> dom (abs_assets ?al)"
    unfolding catalog_ok_def by blast
  with ok al have "catalog_ok (exec_op stat c (OpUpsertAsset a))"
    unfolding e by (simp add: catalog_ok_def invalidateAssetCache_def)
  moreover have "absc (exec_op stat c (OpUpsertAsset a)) = abs_exec stat (absc c) (OpUpsertAsset a)"
    unfolding e using Some al(2) by (simp add: absc_def invalidateAssetCache_def)
  ultimately show ?thesis by blast
qed

lemma UpsertVariant_ok:
  assumes ok: "catalog_ok c"
  shows "catalog_ok (exec_op stat c (OpUpsertVariant v)) \<and>
    absc (exec_op stat c (OpUpsertVariant v)) = abs_exec stat (absc c) (OpUpsertVariant v)"
proof (cases v)
  case None
  then show ?thesis using ok by (simp add: UpsertVariant_def buildVariantRecord_def keep_def)
next
  case (Some x)
  let ?r = "variant_record stat x"
  have idx: "index_ok (variants c)" using ok by (simp add: catalog_ok_def)
  show ?thesis
  proof (cases "v_AssetPath x \<in> dom (abs_assets (assetsByPath c))")
    case False
    then have "exec_op stat c (OpUpsertVariant v) = c"
      using Some by (simp add: UpsertVariant_def buildVariantRecord_def keep_def dom_abs_assets_map_of
          variant_record_def [symmetric])
    with False ok Some show ?thesis by (auto simp: absc_def)
  next
    case True
    then have e: "exec_op stat c (OpUpsertVariant v) = c\<lparr>variants := idx_upsert (variants c) ?r\<rparr>"
      using Some by (auto simp: UpsertVariant_def buildVariantRecord_def keep_def dom_abs_assets_map_of
          variant_record_def [symmetric])
    have "catalog_ok (c\<lparr>variants := idx_upsert (variants c) ?r\<rparr>)"
      using True variant_record_ok [of stat x]
      by (intro catalog_ok_variants [OF ok] idx_upsert_ok(1) [OF idx])
        (auto simp: idx_upsert_ok(2) [OF idx] abs_upsert_def)
    with True Some show ?thesis
      unfolding e by (simp add: absc_def idx_upsert_ok(2) [OF idx])
  qed
qed

lemma ReplaceCatalog_ok:
  assumes ok: "catalog_ok c"
  shows "catalog_ok (exec_op stat c (OpReplace as vs)) \<and>
    absc (exec_op stat c (OpReplace as vs)) = abs_exec stat (absc c) (OpReplace as vs)"
proof (cases "None \<in> set as")
  case True
  then have "filter (\<lambda>x. snd x = None) (enumerate 0 as) \<noteq> []" by (simp only: filter_None_enumerate) simp
  then obtain e where "buildAssetRecords stat as = Inl e"
    unfolding buildAssetRecords_def buildAssetRecords_eq
    by (cases "filter (\<lambda>x. snd x = None) (enumerate 0 as)") auto
  with True ok show ?thesis by (simp add: ReplaceCatalog_def keep_def Let_def)
next
  case False
  let ?al = "foldl (update_asset stat) [] (map the as)"
  let ?idx = "foldl (upsert_variant stat) newVariantIndex (map the vs)"
  from False have "filter (\<lambda>x. snd x = None) (enumerate 0 as) = []"
    by (simp only: filter_None_enumerate) simp
  then have as: "buildAssetRecords stat as = Inr ?al"
    unfolding buildAssetRecords_def buildAssetRecords_eq by simp
  have al: "assets_ok ?al" "abs_assets ?al = foldl (put_asset stat) Map.empty (map the as)"
    using foldl_assets_ok [of "[]" stat "map the as"]
    by (simp_all add: assets_ok_def abs_assets_Nil)
  show ?thesis
  proof (cases "None \<notin> set vs \<and> (\<forall>v\<in>set vs. v_AssetPath (the v) \<in> dom (abs_assets ?al))")
    case bad: False
    with buildVariantRecords_fails [of vs ?al stat newVariantIndex 0] obtain e where
      "buildVariantRecords stat vs ?al = Inl e"
      unfolding buildVariantRecords_def by blast
    moreover have "abs_exec stat (absc c) (OpReplace as vs) = absc c"
      using bad unfolding al(2) by (auto simp: Let_def)
    ultimately show ?thesis using ok as by (simp add: ReplaceCatalog_def keep_def)
  next
    case good: True
    then have e: "exec_op stat c (OpReplace as vs) =
        invalidateAssetCache (c\<lparr>assetsByPath := ?al, variants := ?idx\<rparr>)"
      using as buildVariantRecords_ok [of vs ?al stat newVariantIndex 0]
      by (simp add: ReplaceCatalog_def keep_def buildVariantRecords_def)
    have idx: "index_ok ?idx" "recs ?idx = foldl (\<lambda>R v. abs_upsert R (variant_record stat v)) {} (map the vs)"
      using foldl_upsert_ok [OF newVariantIndex_ok(1)] newVariantIndex_ok(2) by simp_all
    have "\<forall>r\<in>recs ?idx. record_ok r \<and> r_AssetPath r \<in> dom (abs_assets ?al)"
    proof
      fix r assume "r \<in> recs ?idx"
      then obtain v where "v \<in> set vs" "r = variant_record stat (the v)"
        using foldl_upsert_subset [of stat "{}" "map the vs"] unfolding idx(2) by auto
      with good variant_record_ok show "record_ok r \<and> r_AssetPath r \<in> dom (abs_assets ?al)" by simp
    qed
    with al(1) idx(1) have "catalog_ok (exec_op stat c (OpReplace as vs))"
      unfolding e by (simp add: catalog_ok_def invalidateAssetCache_def)
    moreover have "absc (exec_op stat c (OpReplace as vs)) = abs_exec stat (absc c) (OpReplace as vs)"
      using good False unfolding e al(2) by (simp add: absc_def invalidateAssetCache_def al(2) idx(2) Let_def)
    ultimately show ?thesis by blast
  qed
qed

lemma DeleteAsset_ok:
  assumes ok: "catalog_ok c"
  shows "catalog_ok (exec_op stat c (OpDeleteAsset p)) \<and>
    absc (exec_op stat c (OpDeleteAsset p)) = abs_exec stat (absc c) (OpDeleteAsset p)"
proof -
  let ?al = "AList.delete p (assetsByPath c)" and ?d = "deleteByAssetPath (variants c) p"
  have idx: "index_ok (variants c)" using ok by (simp add: catalog_ok_def)
  note d = deleteByAssetPath_ok [OF idx, of p]
  have e: "exec_op stat c (OpDeleteAsset p) =
      \<lparr>assetsByPath = ?al, sortedAssetCache = None, variants = snd ?d\<rparr>"
    by (simp add: DeleteAsset_def invalidateAssetCache_def split: prod.splits)
  have al: "abs_assets ?al = (abs_assets (assetsByPath c))(p := None)"
    by (auto simp: abs_assets_def delete_conv' fun_eq_iff)
  have "assets_ok ?al"
    using ok by (auto simp: catalog_ok_def assets_ok_def AList.delete_eq distinct_map_filter)
  moreover have "\<forall>r\<in>recs (snd ?d). record_ok r \<and> r_AssetPath r \<in> dom (abs_assets ?al)"
    using ok unfolding d(2) al by (simp add: catalog_ok_def)
  ultimately show ?thesis
    unfolding e using d(1,2) by (simp add: catalog_ok_def absc_def al)
qed

lemma DeleteVariants_ok:
  assumes ok: "catalog_ok c"
  shows "catalog_ok (exec_op stat c (OpDeleteVariants p)) \<and>
    absc (exec_op stat c (OpDeleteVariants p)) = abs_exec stat (absc c) (OpDeleteVariants p)"
proof -
  have idx: "index_ok (variants c)" using ok by (simp add: catalog_ok_def)
  note d = deleteByAssetPath_ok [OF idx, of p]
  have e: "exec_op stat c (OpDeleteVariants p) = c\<lparr>variants := snd (deleteByAssetPath (variants c) p)\<rparr>"
    by (simp add: DeleteVariants_def split: prod.splits)
  show ?thesis
    unfolding e using d(2) catalog_ok_variants [OF ok d(1)] by (auto simp: absc_def)
qed

lemma DeleteArtifact_ok:
  assumes ok: "catalog_ok c"
  shows "catalog_ok (exec_op stat c (OpDeleteArtifact a)) \<and>
    absc (exec_op stat c (OpDeleteArtifact a)) = abs_exec stat (absc c) (OpDeleteArtifact a)"
proof -
  have idx: "index_ok (variants c)" using ok by (simp add: catalog_ok_def)
  note d = deleteByArtifactPath_ok [OF idx, of a]
  have e: "exec_op stat c (OpDeleteArtifact a) = c\<lparr>variants := snd (deleteByArtifactPath (variants c) a)\<rparr>"
    by (simp add: DeleteVariantByArtifactPath_def split: prod.splits)
  show ?thesis
    unfolding e using d(2) catalog_ok_variants [OF ok d(1)] by (auto simp: absc_def)
qed

lemma Snapshot_ok:
  assumes ok: "catalog_ok c"
  shows "catalog_ok (exec_op stat c OpSnapshot) \<and> absc (exec_op stat c OpSnapshot) = absc c"
proof -
  obtain rs c' where s: "sortedAssets c = (rs, c')" by fastforce
  with sortedAssets_ok [OF ok] have c': "catalog_ok c'" "absc c' = absc c" by auto
  have idx: "index_ok (variants c')" using c'(1) by (simp add: catalog_ok_def)
  note sn = snapshot_entries_ok [OF idx, of rs]
  have e: "exec_op stat c OpSnapshot = c'\<lparr>variants := snd (snapshot_entries (variants c') rs)\<rparr>"
    by (simp add: Snapshot_def s split: prod.splits)
  show ?thesis
    unfolding e using sn c' catalog_ok_variants [OF c'(1), of "snd (snapshot_entries (variants c') rs)"]
    by (auto simp: absc_def)
qed

lemma exec_op_ok:
  assumes ok: "catalog_ok c"
  shows "catalog_ok (exec_op stat c op) \<and> absc (exec_op stat c op) = abs_exec stat (absc c) op"
proof -
  have idx: "index_ok (variants c)" using ok by (simp add: catalog_ok_def)
  note q = listed_state [OF ok]
  show ?thesis
  proof (cases op)
    case (OpListVariants p)
    then show ?thesis
      using q [OF listByAssetPath_listed [OF idx, of p]] by (simp add: ListVariantsView_def split_beta)
  next
    case (OpListImage p f)
    then show ?thesis
      using q [OF listByImageFormat_listed [OF idx, of p f]]
      by (simp add: ListImageVariants_def ListImageVariantsViewResult_def split_beta)
  next
    case (OpListStage s)
    then show ?thesis
      using q [OF listByStage_listed [OF idx, of s]] by (simp add: ListVariantsByStage_def split_beta)
  next
    case OpAllAssets
    then show ?thesis using sortedAssets_ok [OF ok] by (simp add: AllAssets_def split_beta)
  next
    case OpAllVariants
    then show ?thesis using q [OF idx_all_listed [OF idx]] by (simp add: AllVariants_def split_beta)
  next
    case OpSnapshot
    then show ?thesis using Snapshot_ok [OF ok] by simp
  qed (simp_all only: UpsertAsset_ok [OF ok] UpsertVariant_ok [OF ok] ReplaceCatalog_ok [OF ok]
      DeleteAsset_ok [OF ok] DeleteVariants_ok [OF ok] DeleteArtifact_ok [OF ok])
qed

section \<open>What the clients of the catalog use\<close>

text \<open>Single operations on a catalog that satisfies the invariant, as the server, the cleanup and the tasks use them.\<close>

lemma deleted_artifact:
  assumes "catalog_ok c" "DeleteVariantByArtifactPath c p = (b, c')"
  shows "catalog_ok c'" "recs (variants c') = {r \<in> recs (variants c). r_ArtifactPath r \<noteq> p \<or> p = []}"
    "assetsByPath c' = assetsByPath c" "b \<longleftrightarrow> p \<noteq> [] \<and> (\<exists>r\<in>recs (variants c). r_ArtifactPath r = p)"
proof -
  show "catalog_ok c'" using exec_op_ok [OF assms(1), of "\<lambda>_. None" "OpDeleteArtifact p"] assms(2) by simp
  show "b \<longleftrightarrow> p \<noteq> [] \<and> (\<exists>r\<in>recs (variants c). r_ArtifactPath r = p)"
    using deleteByArtifactPath_ok(3) [of "variants c" p] assms
    by (auto simp: DeleteVariantByArtifactPath_def catalog_ok_def split: prod.splits)
  have "absc c' = abs_exec (\<lambda>_. None) (absc c) (OpDeleteArtifact p)"
    using exec_op_ok [OF assms(1), of "\<lambda>_. None" "OpDeleteArtifact p"] assms(2) by simp
  then show "recs (variants c') = {r \<in> recs (variants c). r_ArtifactPath r \<noteq> p \<or> p = []}" by (simp add: absc_def)
  show "assetsByPath c' = assetsByPath c"
    using assms(2) by (auto simp: DeleteVariantByArtifactPath_def split: prod.splits)
qed

lemma all_variants:
  assumes "catalog_ok c" "AllVariants c = (vs, c')"
  shows "catalog_ok c'" "recs (variants c') = recs (variants c)" "assetsByPath c' = assetsByPath c"
    "v_ArtifactPath ` set vs = r_ArtifactPath ` recs (variants c)"
proof -
  have ok: "catalog_ok c'" "absc c' = absc c"
    using exec_op_ok [OF assms(1), of "\<lambda>_. None" OpAllVariants] assms(2) by simp_all
  then show "catalog_ok c'" "recs (variants c') = recs (variants c)" by (simp_all add: absc_def)
  show "assetsByPath c' = assetsByPath c" using assms(2) by (auto simp: AllVariants_def split: prod.splits)
  obtain rs idx where a: "idx_all (variants c) = (rs, idx)" by fastforce
  have "set rs = recs (variants c)"
    using idx_all_listed [of "variants c"] assms(1) a by (auto simp: catalog_ok_def listed_def is_sorted_list_def)
  moreover have "v_ArtifactPath (r_Variant r) = r_ArtifactPath r" if "r \<in> recs (variants c)" for r
    using assms(1) that by (auto simp: catalog_ok_def record_ok_def Let_def)
  ultimately show "v_ArtifactPath ` set vs = r_ArtifactPath ` recs (variants c)"
    using assms(2) a by (auto simp: AllVariants_def image_iff) blast
qed

lemma listed_variants:
  assumes "catalog_ok c" "ListVariantsView c p = (vs, c')"
  shows "catalog_ok c'" "absc c' = absc c" "v \<in> set vs \<Longrightarrow> v_AssetPath v = p"
proof -
  show "catalog_ok c'" "absc c' = absc c"
    using exec_op_ok [OF assms(1), of "\<lambda>_. None" "OpListVariants p"] assms(2) by simp_all
  obtain rs idx where l: "listByAssetPath (variants c) p = (rs, idx)" by fastforce
  have "set rs = {r \<in> recs (variants c). r_AssetPath r = p}"
    using listByAssetPath_listed [of "variants c" p] assms(1) l by (simp add: catalog_ok_def listed_def is_sorted_list_def)
  moreover have "v_AssetPath (r_Variant r) = r_AssetPath r" if "r \<in> recs (variants c)" for r
    using assms(1) that by (auto simp: catalog_ok_def record_ok_def Let_def)
  ultimately show "v \<in> set vs \<Longrightarrow> v_AssetPath v = p"
    using assms(2) l by (auto simp: ListVariantsView_def variantViewsFromRecords_def)
qed

lemma upsert_asset_ok:
  assumes "catalog_ok c"
  obtains c' where "UpsertAsset stat c (Some a) = Inr c'" "catalog_ok c'" "dom (fst (absc c')) = insert (a_Path a) (dom (fst (absc c)))"
proof -
  obtain c' where c': "UpsertAsset stat c (Some a) = Inr c'" by (simp add: UpsertAsset_def buildAssetRecord_def)
  have "catalog_ok c' \<and> absc c' = abs_exec stat (absc c) (OpUpsertAsset (Some a))"
    using exec_op_ok [OF assms, of stat "OpUpsertAsset (Some a)"] by (simp add: c' keep_def)
  with c' show ?thesis by (intro that [of c']) (auto simp: put_asset_def)
qed

lemma upsert_variant_ok:
  assumes "catalog_ok c" "v_AssetPath v \<in> dom (fst (absc c))"
  obtains c' where "UpsertVariant stat c (Some v) = Inr c'" "catalog_ok c'" "fst (absc c') = fst (absc c)"
proof -
  have "map_of (assetsByPath c) (v_AssetPath v) \<noteq> None" using assms(2) by (simp add: absc_def dom_abs_assets_map_of)
  then obtain c' where c': "UpsertVariant stat c (Some v) = Inr c'"
    by (auto simp: UpsertVariant_def buildVariantRecord_def newVariantRecord_def prepareVariant_def Let_def)
  have "catalog_ok c' \<and> absc c' = abs_exec stat (absc c) (OpUpsertVariant (Some v))"
    using exec_op_ok [OF assms(1), of stat "OpUpsertVariant (Some v)"] by (simp add: c' keep_def)
  with c' assms(2) show ?thesis by (intro that [of c']) simp_all
qed

section \<open>Executions of the catalog\<close>

definition run_catalog :: "(string \<Rightarrow> time option) \<Rightarrow> catalog_op list \<Rightarrow> IndexedCatalog" where
  "run_catalog stat ops = foldl (exec_op stat) NewInMemoryCatalog ops"

definition abs_run :: "(string \<Rightarrow> time option) \<Rightarrow> catalog_op list \<Rightarrow> abs_catalog" where
  "abs_run stat ops = foldl (abs_exec stat) (Map.empty, {}) ops"

lemma run_catalog_ok: "catalog_ok (run_catalog stat ops) \<and> absc (run_catalog stat ops) = abs_run stat ops"
proof -
  have "catalog_ok c \<Longrightarrow> catalog_ok (foldl (exec_op stat) c ops) \<and>
      absc (foldl (exec_op stat) c ops) = foldl (abs_exec stat) (absc c) ops" for c
    by (induction ops arbitrary: c) (simp_all add: exec_op_ok)
  moreover have "catalog_ok NewInMemoryCatalog" "absc NewInMemoryCatalog = (Map.empty, {})"
    by (simp_all add: catalog_ok_def NewInMemoryCatalog_def newVariantIndex_ok absc_def assets_ok_def
        abs_assets_def fun_eq_iff)
  ultimately show ?thesis by (simp add: run_catalog_def abs_run_def)
qed

lemma run_index: "index_ok (variants (run_catalog stat ops))"
  "recs (variants (run_catalog stat ops)) = snd (abs_run stat ops)"
  using run_catalog_ok [of stat ops] by (simp add: catalog_ok_def, metis absc_def snd_conv)

text \<open>C3: whatever the sequence of upserts, deletes, replacements and (caching) queries, all six
  variant indexes and all five caches of the catalog stay coherent with its set of records.\<close>

theorem catalog_always_coherent: "catalog_ok (run_catalog stat ops)"
  using run_catalog_ok by blast

text \<open>C2: the indexed catalog implements its specification, a map of assets with a set of variant
  records: an upsert drops exactly the records it conflicts with, a replacement is all or nothing,
  deleting an asset deletes its variants, and queries change nothing.\<close>

theorem catalog_refines_spec: "absc (run_catalog stat ops) = abs_run stat ops"
  using run_catalog_ok by blast

text \<open>No variant is ever orphaned: the asset of every listed variant is in the catalog.\<close>

theorem catalog_no_orphans:
  "v_AssetPath ` set (fst (AllVariants (run_catalog stat ops))) \<subseteq>
     {p. FindAsset (run_catalog stat ops) p \<noteq> None}"
proof
  let ?c = "run_catalog stat ops"
  fix p assume "p \<in> v_AssetPath ` set (fst (AllVariants ?c))"
  then obtain r where r: "r \<in> set (fst (idx_all (variants ?c)))" "p = v_AssetPath (r_Variant r)"
    by (auto simp: AllVariants_def split_beta)
  with idx_all_listed [OF run_index(1)] have "r \<in> recs (variants ?c)"
    by (auto simp: listed_def is_sorted_list_def)
  with run_catalog_ok [of stat ops] r(2) have "p \<in> dom (abs_assets (assetsByPath ?c))"
    unfolding catalog_ok_def record_ok_def Let_def by metis
  then show "p \<in> {p. FindAsset ?c p \<noteq> None}"
    by (auto simp: FindAsset_def FindAssetViewResult_def abs_assets_def)
qed

lemma index_conflict_free:
  assumes ok: "index_ok idx" and r: "r \<in> recs idx" and e: "e \<in> recs idx" and c: "conflicts r e"
  shows "r = e"
proof -
  have k: "keys_ok idx" and ix: "indexes_ok idx" using ok by (simp_all add: index_ok_def)
  have unique: "x = y" if "map_index_ok (recs idx) f used m" "f x = f y" "used (f x)"
    "x \<in> recs idx" "y \<in> recs idx" for f :: "variantRecord \<Rightarrow> 'k" and used m x y
    using that unfolding map_index_ok_def by (metis option.inject)
  from c consider "variantRecordKey e = variantRecordKey r"
    | "r_ArtifactPath r \<noteq> [] \<and> r_ArtifactPath e = r_ArtifactPath r"
    | "r_Encoding r \<noteq> [] \<and> r_AssetPath e = r_AssetPath r \<and> r_Encoding e = r_Encoding r"
    | "r_ImageFormat r \<noteq> [] \<and> image_key e = image_key r"
    unfolding conflicts_def by blast
  then show ?thesis
  proof cases
    case 1
    with recs_keyed [OF k] r e show ?thesis unfolding keyed_def by (metis inj_onD)
  next
    case 2
    then show ?thesis
      using ix r e unique [of r_ArtifactPath "\<lambda>a. a \<noteq> []" "byArtifact idx" r e]
      by (simp add: indexes_ok_def)
  next
    case 3
    then show ?thesis
      using ix r e unique [of "\<lambda>r. (r_AssetPath r, r_Encoding r)" "\<lambda>k. snd k \<noteq> []" "byEncoding idx" r e]
      by (simp add: indexes_ok_def)
  next
    case 4
    then show ?thesis
      using ix r e unique [of image_key "\<lambda>k. snd (fst k) \<noteq> []" "map_of (byImage idx)" r e]
      by (simp add: indexes_ok_def image_key_def variantImageFormatKey_def)
  qed
qed

text \<open>At most one variant is ever kept for an identity, an artifact path, an asset's encoding,
  or an asset's image format and width.\<close>

theorem catalog_conflict_free:
  "{(r, e). r \<in> recs (variants (run_catalog stat ops)) \<and> e \<in> recs (variants (run_catalog stat ops)) \<and>
     r \<noteq> e \<and> conflicts r e} = {}"
  using index_conflict_free [OF run_index(1)] by auto

text \<open>The lookup by encoding is exact after any history: it returns a variant if and only if
  that variant is in the specified state with that asset and that (non-empty) encoding.\<close>

theorem FindEncodingVariant_exact:
  "FindEncodingVariant (run_catalog stat ops) p e = Some v \<longleftrightarrow>
     e \<noteq> [] \<and> (\<exists>r\<in>snd (abs_run stat ops). r_Variant r = v \<and> v_AssetPath v = p \<and> v_Encoding v = e)"
proof -
  have ok: "record_ok r" if "r \<in> snd (abs_run stat ops)" for r
    using that run_catalog_ok [of stat ops] unfolding run_index(2) [symmetric] catalog_ok_def by blast
  have "FindEncodingVariant (run_catalog stat ops) p e = Some v \<longleftrightarrow>
      (\<exists>r. findEncoding (variants (run_catalog stat ops)) p e = Some r \<and> r_Variant r = v)"
    by (auto simp: FindEncodingVariant_def FindEncodingVariantViewResult_def split: option.splits)
  then show ?thesis
    unfolding findEncoding_iff [OF run_index(1)] run_index(2)
    using ok by (auto simp: record_ok_def Let_def)
qed

text \<open>The variants of an asset are listed completely and in the order of their identities,
  whatever the caches held before.\<close>

theorem ListVariantsView_sorted:
  "\<exists>rs. fst (ListVariantsView (run_catalog stat ops) p) = map r_Variant rs \<and>
     set rs = {r \<in> snd (abs_run stat ops). r_AssetPath r = p} \<and>
     sorted_wrt (\<lambda>a b. variantRecordKey a < variantRecordKey b) rs"
  using listByAssetPath_listed [OF run_index(1), of stat ops p] run_index(2) [of stat ops]
  by (auto simp: ListVariantsView_def variantViewsFromRecords_def listed_def is_sorted_list_def split_beta)

text \<open>The order in which an upsert removes the records it replaces (Go's random map order)
  does not matter: every order gives a coherent index of the same records.\<close>

theorem idx_upsert_any_order:
  assumes "index_ok idx" and "distinct es" and "set es = snd ` set (collectReplacements idx r)"
  shows "index_ok (idx_insert (foldl idx_delete idx es) r) \<and>
    recs (idx_insert (foldl idx_delete idx es) r) = recs (idx_upsert idx r)"
  using upsert_order [OF assms(1,2)] assms(3) collectReplacements_set [OF assms(1), of r]
    idx_upsert_ok(2) [OF assms(1), of r]
  by simp

definition example_record :: "string \<Rightarrow> string \<Rightarrow> variantRecord" where
  "example_record ident encoding =
     (let v = \<lparr>v_ID = ident, v_AssetPath = ''app.js'', v_ArtifactPath = [], v_Size = 1,
               v_MediaType = ''text/plain'', v_SourceHash = ''h'', v_ETag = [], v_Encoding = encoding,
               v_Format = [], v_Width = 0, v_Metadata = Map.empty\<rparr>
      in \<lparr>r_AssetPath = ''app.js'', r_ID = ident, r_ArtifactPath = [], r_Encoding = encoding,
          r_ImageFormat = [], r_Stage = [], r_Width = 0, r_Variant = v\<rparr>)"

lemma example_replacements:
  "collectReplacements
     (idx_insert (idx_insert newVariantIndex (example_record ''a'' ''br'')) (example_record ''b'' ''gzip''))
     (example_record ''a'' ''gzip'') =
   [(''app.js'' @ CHR 0x00 # ''a'', example_record ''a'' ''br''),
    (''app.js'' @ CHR 0x00 # ''b'', example_record ''b'' ''gzip'')]"
  by (simp add: collectReplacements_def addReplacement_def idx_insert_def Let_def newVariantIndex_def
      invalidateRecordCache_def variantRecordKey_def example_record_def)

theorem idx_upsert_any_order_witness:
  "recs (idx_insert
      (foldl idx_delete
        (idx_insert (idx_insert newVariantIndex (example_record ''a'' ''br'')) (example_record ''b'' ''gzip''))
        [example_record ''b'' ''gzip'', example_record ''a'' ''br''])
      (example_record ''a'' ''gzip'')) =
   recs (idx_upsert
      (idx_insert (idx_insert newVariantIndex (example_record ''a'' ''br'')) (example_record ''b'' ''gzip''))
      (example_record ''a'' ''gzip''))"
proof (rule idx_upsert_any_order [THEN conjunct2])
  have a: "index_ok (idx_insert newVariantIndex (example_record ''a'' ''br''))"
    by (rule idx_insert_ok) (simp_all add: newVariantIndex_ok)
  have "recs (idx_insert newVariantIndex (example_record ''a'' ''br'')) = {example_record ''a'' ''br''}"
    using idx_insert_recs(2) [of newVariantIndex "example_record ''a'' ''br''"] newVariantIndex_ok
    by (simp add: index_ok_def)
  then show "index_ok (idx_insert (idx_insert newVariantIndex (example_record ''a'' ''br''))
      (example_record ''b'' ''gzip''))"
    by (intro idx_insert_ok [OF a]) (simp add: conflicts_def example_record_def variantRecordKey_def)
  show "distinct [example_record ''b'' ''gzip'', example_record ''a'' ''br'']"
    by (simp add: example_record_def)
qed (simp only: example_replacements list.set image_insert image_empty snd_conv insert_commute)

end
