(* ===== verification/Resolver.thy ===== *)
theory Resolver
  imports RequestPath Accept Catalog
begin

text \<open>
  \<open>internal/resolver\<close>: from a request to the asset or variant to serve (\<open>resolver.go\<close>,
  \<open>resolver_variant.go\<close>, \<open>variant_picker.go\<close>, \<open>variant_selection.go\<close>, \<open>helpers.go\<close>, \<open>model.go\<close>).

  The resolver reads the catalog through \<open>catalog_reader\<close>, the four \<open>...ViewResult\<close> operations; a
  read may fill a cache of the catalog, which never changes what later reads return
  (\<open>catalog_refines_spec\<close>), so a reader is a pure function.  The locale \<open>catalog_reads\<close> states what
  the resolver may rely on, and \<open>reader_of\<close> interprets it on the indexed catalog.  Metrics are left
  out.  A nil context is the flag \<open>ctx = False\<close>.
\<close>

section \<open>Requests, results, readers\<close>

record Request =
  rq_Path :: string
  rq_Accept :: string
  rq_AcceptEncoding :: string
  rq_Width :: int
  rq_Format :: string
  rq_RangeRequested :: bool
  rq_PreferredEncodings :: "string list option"
  rq_PreferredFormats :: "string list option"

record Result =
  rs_Asset :: Asset
  rs_Variant :: "Variant option"
  rs_FilePath :: string
  rs_MediaType :: string
  rs_ContentEncoding :: string
  rs_ETag :: string
  rs_PreferredEncodings :: "string list option"
  rs_PreferredWidths :: "int list option"
  rs_PreferredFormats :: "string list option"
  rs_FallbackUsed :: bool

record assets_config =
  cfg_Entry :: string
  cfg_FallbackOnNotFound :: bool
  cfg_FallbackTarget :: string

record 'e catalog_reader =
  rd_asset :: "string \<Rightarrow> 'e + Asset option"
  rd_encoding :: "string \<Rightarrow> string \<Rightarrow> 'e + Variant option"
  rd_image :: "string \<Rightarrow> string \<Rightarrow> int \<Rightarrow> 'e + Variant option"
  rd_images :: "string \<Rightarrow> string \<Rightarrow> 'e + Variant list"

datatype 'e resolve_error = ErrNotFound | errResolverContextNil | CatalogReadErr 'e

record 'e Resolver =
  rv_cfg :: assets_config
  rv_supportedEncodings :: encodingSupport
  rv_catalog :: "'e catalog_reader"

definition wrapCatalogReadErr :: "'e + 'a \<Rightarrow> 'e resolve_error + 'a" where
  "wrapCatalogReadErr r = (case r of Inl e \<Rightarrow> Inl (CatalogReadErr e) | Inr x \<Rightarrow> Inr x)"

definition findAssetForRead :: "'e catalog_reader \<Rightarrow> string \<Rightarrow> 'e resolve_error + Asset option" where
  "findAssetForRead cat p = wrapCatalogReadErr (rd_asset cat p)"

definition findEncodingVariantForRead ::
    "'e catalog_reader \<Rightarrow> string \<Rightarrow> string \<Rightarrow> 'e resolve_error + Variant option" where
  "findEncodingVariantForRead cat p e = wrapCatalogReadErr (rd_encoding cat p e)"

definition findImageVariantForRead ::
    "'e catalog_reader \<Rightarrow> string \<Rightarrow> string \<Rightarrow> int \<Rightarrow> 'e resolve_error + Variant option" where
  "findImageVariantForRead cat p f w = wrapCatalogReadErr (rd_image cat p f w)"

definition listImageVariantsForRead ::
    "'e catalog_reader \<Rightarrow> string \<Rightarrow> string \<Rightarrow> 'e resolve_error + Variant list" where
  "listImageVariantsForRead cat p f = wrapCatalogReadErr (rd_images cat p f)"

section \<open>Usable variants\<close>

definition isUsableVariant :: "Variant \<Rightarrow> string \<Rightarrow> bool" where
  "isUsableVariant v assetSourceHash \<longleftrightarrow>
     trim_space (v_ArtifactPath v) \<noteq> [] \<and>
     \<not> (assetSourceHash \<noteq> [] \<and> v_SourceHash v \<noteq> [] \<and> v_SourceHash v \<noteq> assetSourceHash)"

text \<open>The cache remembers an answer under the variant's ID, or its artifact path.\<close>

type_synonym usability_cache = "string \<rightharpoonup> bool"

definition cache_key :: "Variant \<Rightarrow> string" where
  "cache_key v = (if v_ID v = [] then v_ArtifactPath v else v_ID v)"

definition IsUsable :: "usability_cache \<Rightarrow> Variant \<Rightarrow> string \<Rightarrow> bool \<times> usability_cache" where
  "IsUsable cache v assetSourceHash =
     (case cache (cache_key v) of
        Some usable \<Rightarrow> (usable, cache)
      | None \<Rightarrow>
          (let usable = isUsableVariant v assetSourceHash in (usable, cache(cache_key v \<mapsto> usable))))"

definition variantFormat :: "Variant \<Rightarrow> string \<Rightarrow> string" where
  "variantFormat v sourceFormat = FirstNonBlank [v_Format v, sourceFormat]"

section \<open>Image variants\<close>

record imageVariantSelection =
  sel_variants :: "Variant list"
  sel_sourceHash :: string
  sel_format :: string
  sel_sourceFormat :: string
  sel_width :: int

definition sel_matches ::
    "imageVariantSelection \<Rightarrow> usability_cache \<Rightarrow> Variant \<Rightarrow> bool \<times> usability_cache" where
  "sel_matches s cache candidate =
     (if v_Width candidate \<le> 0 \<and> v_Format candidate = [] then (False, cache)
      else (case IsUsable cache candidate (sel_sourceHash s) of
              (usable, cache') \<Rightarrow>
                if \<not> usable then (False, cache')
                else (sel_format s = [] \<or> variantFormat candidate (sel_sourceFormat s) = sel_format s,
                      cache')))"

definition updateWidthMatches ::
    "Variant \<Rightarrow> int \<Rightarrow> Variant option \<Rightarrow> Variant option \<Rightarrow> Variant option \<times> Variant option" where
  "updateWidthMatches candidate width smallestAbove largestBelow =
     (if v_Width candidate \<ge> width then
        (case smallestAbove of
           None \<Rightarrow> (Some candidate, largestBelow)
         | Some a \<Rightarrow> (if v_Width candidate < v_Width a then Some candidate else Some a, largestBelow))
      else
        (case largestBelow of
           None \<Rightarrow> (smallestAbove, Some candidate)
         | Some b \<Rightarrow> (smallestAbove, if v_Width candidate > v_Width b then Some candidate else Some b)))"

fun closest_loop ::
    "imageVariantSelection \<Rightarrow> Variant list \<Rightarrow> usability_cache \<Rightarrow> Variant option \<Rightarrow> Variant option \<Rightarrow>
     (Variant option \<times> Variant option) \<times> usability_cache" where
  "closest_loop s [] cache smallestAbove largestBelow = ((smallestAbove, largestBelow), cache)"
| "closest_loop s (v # vs) cache smallestAbove largestBelow =
     (case sel_matches s cache v of
        (False, cache') \<Rightarrow> closest_loop s vs cache' smallestAbove largestBelow
      | (True, cache') \<Rightarrow>
          (case updateWidthMatches v (sel_width s) smallestAbove largestBelow of
             (smallestAbove', largestBelow') \<Rightarrow> closest_loop s vs cache' smallestAbove' largestBelow'))"

definition findClosestWidthImageVariant ::
    "imageVariantSelection \<Rightarrow> usability_cache \<Rightarrow> Variant option \<times> usability_cache" where
  "findClosestWidthImageVariant s cache =
     (case closest_loop s (sel_variants s) cache None None of
        ((Some a, _), cache') \<Rightarrow> (Some a, cache')
      | ((None, largestBelow), cache') \<Rightarrow> (largestBelow, cache'))"

fun zero_width_loop ::
    "imageVariantSelection \<Rightarrow> Variant list \<Rightarrow> usability_cache \<Rightarrow> Variant option \<times> usability_cache" where
  "zero_width_loop s [] cache = (None, cache)"
| "zero_width_loop s (v # vs) cache =
     (if v_Width v \<noteq> 0 then zero_width_loop s vs cache
      else (case sel_matches s cache v of
              (False, cache') \<Rightarrow> zero_width_loop s vs cache'
            | (True, cache') \<Rightarrow> (Some v, cache')))"

definition findZeroWidthImageVariant ::
    "imageVariantSelection \<Rightarrow> usability_cache \<Rightarrow> Variant option \<times> usability_cache" where
  "findZeroWidthImageVariant s cache = zero_width_loop s (sel_variants s) cache"

definition pick_from_selection ::
    "imageVariantSelection \<Rightarrow> usability_cache \<Rightarrow> Variant option \<times> usability_cache" where
  "pick_from_selection s cache =
     (if sel_width s \<le> 0 then findZeroWidthImageVariant s cache else findClosestWidthImageVariant s cache)"

definition pickImageVariantForFormat ::
    "'e catalog_reader \<Rightarrow> Asset \<Rightarrow> imageVariantSelection \<Rightarrow> usability_cache \<Rightarrow>
     'e resolve_error + Variant option \<times> usability_cache" where
  "pickImageVariantForFormat cat asset s cache =
     (if sel_width s \<le> 0 then
        (case findImageVariantForRead cat (a_Path asset) (sel_format s) 0 of
           Inl e \<Rightarrow> Inl e
         | Inr None \<Rightarrow> Inr (None, cache)
         | Inr (Some v) \<Rightarrow>
             (case sel_matches s cache v of
                (True, cache') \<Rightarrow> Inr (Some v, cache') | (False, cache') \<Rightarrow> Inr (None, cache')))
      else
        (case listImageVariantsForRead cat (a_Path asset) (sel_format s) of
           Inl e \<Rightarrow> Inl e
         | Inr vs \<Rightarrow>
             (if vs = [] then Inr (None, cache)
              else Inr (pick_from_selection (s\<lparr>sel_variants := vs\<rparr>) cache))))"

fun image_formats_loop ::
    "'e catalog_reader \<Rightarrow> Asset \<Rightarrow> string \<Rightarrow> int \<Rightarrow> string list \<Rightarrow> usability_cache \<Rightarrow>
     'e resolve_error + Variant option" where
  "image_formats_loop cat asset sourceFormat width [] cache = Inr None"
| "image_formats_loop cat asset sourceFormat width (format # formats) cache =
     (case pickImageVariantForFormat cat asset
             \<lparr>sel_variants = [], sel_sourceHash = a_SourceHash asset, sel_format = format,
              sel_sourceFormat = sourceFormat, sel_width = width\<rparr> cache of
        Inl e \<Rightarrow> Inl e
      | Inr (Some v, _) \<Rightarrow> Inr (Some v)
      | Inr (None, cache') \<Rightarrow> image_formats_loop cat asset sourceFormat width formats cache')"

definition pickImageVariant ::
    "'e catalog_reader \<Rightarrow> Asset \<Rightarrow> int \<Rightarrow> string list option \<Rightarrow> 'e resolve_error + Variant option" where
  "pickImageVariant cat asset width formats =
     (let sourceFormat = ImageFormat (a_MediaType asset);
          fs = (case formats of None \<Rightarrow> [sourceFormat] | Some fs \<Rightarrow> if fs = [] then [sourceFormat] else fs)
      in image_formats_loop cat asset sourceFormat width fs Map.empty)"

section \<open>Encoding variants\<close>

fun pickVariant ::
    "'e catalog_reader \<Rightarrow> Asset \<Rightarrow> string list \<Rightarrow> 'e resolve_error + Variant option" where
  "pickVariant cat asset [] = Inr None"
| "pickVariant cat asset (encoding # encodings) =
     (case findEncodingVariantForRead cat (a_Path asset) encoding of
        Inl e \<Rightarrow> Inl e
      | Inr None \<Rightarrow> pickVariant cat asset encodings
      | Inr (Some v) \<Rightarrow>
          (if \<not> isUsableVariant v (a_SourceHash asset) then pickVariant cat asset encodings
           else Inr (Some v)))"

section \<open>Finding the asset\<close>

definition findPrimaryAsset ::
    "'e Resolver \<Rightarrow> cleaned \<Rightarrow> 'e resolve_error + Asset option" where
  "findPrimaryAsset r p =
     (if Value p = [] then findAssetForRead (rv_catalog r) (cfg_Entry (rv_cfg r))
      else (case findAssetForRead (rv_catalog r) (Value p) of
              Inl e \<Rightarrow> Inl e
            | Inr (Some a) \<Rightarrow> Inr (Some a)
            | Inr None \<Rightarrow>
                (if \<not> AllowsEntryFallback p then Inr None
                 else (let candidate = path_join [Value p, cfg_Entry (rv_cfg r)]
                       in if candidate = Value p then Inr None
                          else findAssetForRead (rv_catalog r) candidate))))"

definition findAsset :: "'e Resolver \<Rightarrow> string \<Rightarrow> 'e resolve_error + (Asset option \<times> bool)" where
  "findAsset r requestPath =
     (let resolvedPath = Clean requestPath
      in case findPrimaryAsset r resolvedPath of
           Inl e \<Rightarrow> Inl e
         | Inr (Some a) \<Rightarrow> Inr (Some a, False)
         | Inr None \<Rightarrow>
             (if cfg_FallbackOnNotFound (rv_cfg r) \<and> AllowsEntryFallback resolvedPath then
                (let target = Value (Clean (cfg_FallbackTarget (rv_cfg r)))
                 in if target \<noteq> [] then
                      (case findAssetForRead (rv_catalog r) target of
                         Inl e \<Rightarrow> Inl e | Inr (Some a) \<Rightarrow> Inr (Some a, True) | Inr None \<Rightarrow> Inr (None, False))
                    else Inr (None, False))
              else Inr (None, False)))"

section \<open>Resolving\<close>

definition PreferredWidths :: "int \<Rightarrow> int list option" where
  "PreferredWidths width = (if width \<le> 0 then None else Some [width])"

definition PreferredImageFormats :: "string \<Rightarrow> string \<Rightarrow> string \<Rightarrow> string list option" where
  "PreferredImageFormats acceptHeader explicitFormat sourceMediaType =
     (if explicitFormat \<noteq> [] then Some [explicitFormat]
      else if \<not> IsImageMediaType sourceMediaType then None
      else parseAcceptImageFormatsWithSupport acceptHeader (ImageFormat sourceMediaType)
             defaultImageFormatSupport)"

definition list_len :: "'a list option \<Rightarrow> nat" where
  "list_len xs = (case xs of None \<Rightarrow> 0 | Some ys \<Rightarrow> length ys)"

definition resolveImageVariant ::
    "'e Resolver \<Rightarrow> Asset \<Rightarrow> bool \<Rightarrow> int \<Rightarrow> string list option \<Rightarrow> 'e resolve_error + Result option" where
  "resolveImageVariant r asset fallbackUsed width formats =
     (case pickImageVariant (rv_catalog r) asset width formats of
        Inl e \<Rightarrow> Inl e
      | Inr None \<Rightarrow> Inr None
      | Inr (Some v) \<Rightarrow>
          Inr (Some \<lparr>rs_Asset = asset, rs_Variant = Some v, rs_FilePath = v_ArtifactPath v,
                     rs_MediaType = FirstNonBlank [v_MediaType v, a_MediaType asset],
                     rs_ContentEncoding = [], rs_ETag = FirstNonBlank [v_ETag v, a_ETag asset],
                     rs_PreferredEncodings = None, rs_PreferredWidths = None, rs_PreferredFormats = None,
                     rs_FallbackUsed = fallbackUsed\<rparr>))"

definition resolveEncodingVariant ::
    "'e Resolver \<Rightarrow> Asset \<Rightarrow> bool \<Rightarrow> string list \<Rightarrow> 'e resolve_error + Result option" where
  "resolveEncodingVariant r asset fallbackUsed encodings =
     (case pickVariant (rv_catalog r) asset encodings of
        Inl e \<Rightarrow> Inl e
      | Inr None \<Rightarrow> Inr None
      | Inr (Some v) \<Rightarrow>
          Inr (Some \<lparr>rs_Asset = asset, rs_Variant = Some v, rs_FilePath = v_ArtifactPath v,
                     rs_MediaType = a_MediaType asset, rs_ContentEncoding = v_Encoding v,
                     rs_ETag = FirstNonBlank [v_ETag v, a_ETag asset],
                     rs_PreferredEncodings = None, rs_PreferredWidths = None, rs_PreferredFormats = None,
                     rs_FallbackUsed = fallbackUsed\<rparr>))"

text \<open>The encodings in order of preference, and the step after no image variant was found; the
  request is returned because the code stores the encodings in it.\<close>

definition requested_encodings :: "'e Resolver \<Rightarrow> Request \<Rightarrow> string list option" where
  "requested_encodings r request =
     (case rq_PreferredEncodings request of
        Some es \<Rightarrow> Some es
      | None \<Rightarrow> parseAcceptEncodingWithSupport (rq_AcceptEncoding request) (rv_supportedEncodings r))"

definition resolve_encodings ::
    "'e Resolver \<Rightarrow> Asset \<Rightarrow> bool \<Rightarrow> Request \<Rightarrow> 'e resolve_error + Result option \<times> Request" where
  "resolve_encodings r asset fallbackUsed request =
     (let encodings = requested_encodings r request
      in if rq_RangeRequested request \<or> list_len encodings = 0 then Inr (None, request)
         else (case resolveEncodingVariant r asset fallbackUsed (case encodings of None \<Rightarrow> [] | Some es \<Rightarrow> es) of
                 Inl e \<Rightarrow> Inl e
               | Inr res \<Rightarrow> Inr (res, request\<lparr>rq_PreferredEncodings := encodings\<rparr>)))"

definition resolvePreferredVariant ::
    "'e Resolver \<Rightarrow> Asset \<Rightarrow> bool \<Rightarrow> Request \<Rightarrow> string list option \<Rightarrow>
     'e resolve_error + Result option \<times> Request" where
  "resolvePreferredVariant r asset fallbackUsed request preferredImageFormats =
     (if rq_Width request > 0 \<or> list_len preferredImageFormats > 0 then
        (case resolveImageVariant r asset fallbackUsed (rq_Width request) preferredImageFormats of
           Inl e \<Rightarrow> Inl e
         | Inr (Some res) \<Rightarrow> Inr (Some res, request)
         | Inr None \<Rightarrow> resolve_encodings r asset fallbackUsed request)
      else resolve_encodings r asset fallbackUsed request)"

definition Resolve :: "'e Resolver \<Rightarrow> bool \<Rightarrow> Request \<Rightarrow> 'e resolve_error + Result" where
  "Resolve r ctx request0 =
     (if \<not> ctx then Inl errResolverContextNil
      else (case findAsset r (rq_Path request0) of
              Inl e \<Rightarrow> Inl e
            | Inr (None, _) \<Rightarrow> Inl ErrNotFound
            | Inr (Some asset, fallbackUsed) \<Rightarrow>
                (let requestedFormat = NormalizeImageFormat (rq_Format request0);
                     request = request0\<lparr>rq_Format := requestedFormat\<rparr>;
                     formats = (case rq_PreferredFormats request of
                                  Some fs \<Rightarrow> Some fs
                                | None \<Rightarrow> PreferredImageFormats (rq_Accept request) requestedFormat
                                            (a_MediaType asset))
                 in case resolvePreferredVariant r asset fallbackUsed request formats of
                      Inl e \<Rightarrow> Inl e
                    | Inr (Some res, _) \<Rightarrow> Inr res
                    | Inr (None, request') \<Rightarrow>
                        Inr \<lparr>rs_Asset = asset, rs_Variant = None, rs_FilePath = a_FullPath asset,
                             rs_MediaType = a_MediaType asset, rs_ContentEncoding = [],
                             rs_ETag = a_ETag asset,
                             rs_PreferredEncodings = rq_PreferredEncodings request',
                             rs_PreferredWidths = PreferredWidths (rq_Width request'),
                             rs_PreferredFormats = formats, rs_FallbackUsed = fallbackUsed\<rparr>)))"

definition resolutionVariantKind :: "Variant option \<Rightarrow> string option" where
  "resolutionVariantKind variant =
     (case variant of
        None \<Rightarrow> None
      | Some v \<Rightarrow>
          (if v_Width v > 0 \<or> trim_space (v_Format v) \<noteq> [] then Some ''image_variant''
           else if trim_space (v_Encoding v) \<noteq> [] then Some ''encoding_variant''
           else Some ''variant''))"

definition resolutionResultKind :: "'e resolve_error + Result \<Rightarrow> string" where
  "resolutionResultKind res =
     (case res of
        Inl ErrNotFound \<Rightarrow> ''not_found''
      | Inl _ \<Rightarrow> ''error''
      | Inr result \<Rightarrow>
          (case resolutionVariantKind (rs_Variant result) of
             Some kind \<Rightarrow> kind
           | None \<Rightarrow> if rs_FallbackUsed result then ''fallback_asset'' else ''asset''))"

section \<open>The indexed catalog as a reader\<close>

definition reader_of :: "IndexedCatalog \<Rightarrow> catalog_error catalog_reader" where
  "reader_of c =
     \<lparr>rd_asset = FindAssetViewResult c, rd_encoding = FindEncodingVariantViewResult c,
      rd_image = FindImageVariantViewResult c,
      rd_images = (\<lambda>p f. fst (ListImageVariantsViewResult c p f))\<rparr>"

definition ResolveAfterVariantArtifactMiss ::
    "assets_config \<Rightarrow> encodingSupport \<Rightarrow> IndexedCatalog \<Rightarrow> bool \<Rightarrow> Request \<Rightarrow> Variant option \<Rightarrow>
     (catalog_error resolve_error + Result) \<times> IndexedCatalog" where
  "ResolveAfterVariantArtifactMiss cfg support c ctx request variant =
     (let c' = (case variant of
                  None \<Rightarrow> c | Some v \<Rightarrow> snd (DeleteVariantByArtifactPath c (v_ArtifactPath v)))
      in (Resolve \<lparr>rv_cfg = cfg, rv_supportedEncodings = support, rv_catalog = reader_of c'\<rparr> ctx request, c'))"

end
