(* ===== verification/ResolverSpec.thy ===== *)
theory ResolverSpec
  imports Resolver
begin

text \<open>
  Correctness of the resolver: the contract \<open>catalog_reads\<close> between catalog and resolver, the
  lemmas proved under it (the usability cache is transparent, the image picker takes the best
  width of the first format that has a variant, the encoding picker the first usable coding), its
  interpretation on the indexed catalog, and the properties of \<open>Resolve\<close>.
\<close>

section \<open>What the resolver relies on\<close>

text \<open>
  The contract between the catalog and the resolver: \<open>stored p\<close> is the set of variants of the
  asset \<open>p\<close>; lookups return stored variants with the requested fields, the list of a format is
  complete, and identities distinguish the variants of an asset.
\<close>

locale catalog_reads =
  fixes cat :: "'e catalog_reader" and stored :: "string \<Rightarrow> Variant set"
  assumes asset_path: "rd_asset cat p = Inr (Some a) \<Longrightarrow> a_Path a = p"
    and stored_path: "v \<in> stored p \<Longrightarrow> v_AssetPath v = p"
    and encoding_iff: "rd_encoding cat p e = Inr found \<Longrightarrow>
      found = Some v \<longleftrightarrow> v \<in> stored p \<and> v_Encoding v = e \<and> e \<noteq> []"
    and image_iff: "rd_image cat p f w = Inr found \<Longrightarrow>
      found = Some v \<longleftrightarrow> v \<in> stored p \<and> imageFormatKey v = f \<and> v_Width v = w \<and> f \<noteq> []"
    and images_set: "rd_images cat p f = Inr vs \<Longrightarrow>
      set vs = {v \<in> stored p. imageFormatKey v = f \<and> f \<noteq> []}"
    and stored_ids: "inj_on v_ID (stored p)"
    and stored_named: "v \<in> stored p \<Longrightarrow> trim_space p \<noteq> [] \<Longrightarrow> v_ID v \<noteq> []"

section \<open>The usability cache is transparent\<close>

definition cache_coherent :: "string \<Rightarrow> Variant set \<Rightarrow> usability_cache \<Rightarrow> bool" where
  "cache_coherent hash V cache \<longleftrightarrow>
     (\<forall>v\<in>V. \<forall>b. cache (cache_key v) = Some b \<longrightarrow> b = isUsableVariant v hash)"

text \<open>The uncached test.\<close>

definition plain_matches :: "imageVariantSelection \<Rightarrow> Variant \<Rightarrow> bool" where
  "plain_matches s v \<longleftrightarrow>
     \<not> (v_Width v \<le> 0 \<and> v_Format v = []) \<and> isUsableVariant v (sel_sourceHash s) \<and>
     (sel_format s = [] \<or> variantFormat v (sel_sourceFormat s) = sel_format s)"

lemma sel_matches_plain:
  assumes coh: "cache_coherent (sel_sourceHash s) V cache" and inj: "inj_on cache_key V" and v: "v \<in> V"
  shows "fst (sel_matches s cache v) = plain_matches s v"
    and "cache_coherent (sel_sourceHash s) V (snd (sel_matches s cache v))"
proof -
  have new: "cache_coherent (sel_sourceHash s) V (cache(cache_key v \<mapsto> isUsableVariant v (sel_sourceHash s)))"
    using coh inj v unfolding cache_coherent_def by (auto dest: inj_onD)
  have "cache (cache_key v) = Some b \<Longrightarrow> b = isUsableVariant v (sel_sourceHash s)" for b
    using coh v unfolding cache_coherent_def by blast
  with new coh show "fst (sel_matches s cache v) = plain_matches s v"
    and "cache_coherent (sel_sourceHash s) V (snd (sel_matches s cache v))"
    by (auto simp: sel_matches_def IsUsable_def plain_matches_def Let_def split: option.splits)
qed

section \<open>The closest width\<close>

definition best_width :: "imageVariantSelection \<Rightarrow> Variant set \<Rightarrow> Variant option \<Rightarrow> bool" where
  "best_width s V picked =
     (case picked of
        None \<Rightarrow> (\<forall>v\<in>V. \<not> plain_matches s v)
      | Some b \<Rightarrow>
          b \<in> V \<and> plain_matches s b \<and>
          (\<forall>v\<in>V. plain_matches s v \<longrightarrow>
             (if v_Width v \<ge> sel_width s then v_Width b \<ge> sel_width s \<and> v_Width b \<le> v_Width v
              else v_Width b \<ge> sel_width s \<or> v_Width b \<ge> v_Width v)))"

text \<open>What the two candidates of the loop are: the narrowest wide enough, the widest too narrow.\<close>

definition above_best :: "imageVariantSelection \<Rightarrow> Variant set \<Rightarrow> Variant option \<Rightarrow> bool" where
  "above_best s V a =
     (case a of
        None \<Rightarrow> (\<forall>v\<in>V. plain_matches s v \<longrightarrow> v_Width v < sel_width s)
      | Some b \<Rightarrow> b \<in> V \<and> plain_matches s b \<and> v_Width b \<ge> sel_width s \<and>
          (\<forall>v\<in>V. plain_matches s v \<longrightarrow> v_Width v \<ge> sel_width s \<longrightarrow> v_Width b \<le> v_Width v))"

definition below_best :: "imageVariantSelection \<Rightarrow> Variant set \<Rightarrow> Variant option \<Rightarrow> bool" where
  "below_best s V a =
     (case a of
        None \<Rightarrow> (\<forall>v\<in>V. plain_matches s v \<longrightarrow> v_Width v \<ge> sel_width s)
      | Some b \<Rightarrow> b \<in> V \<and> plain_matches s b \<and> v_Width b < sel_width s \<and>
          (\<forall>v\<in>V. plain_matches s v \<longrightarrow> v_Width v < sel_width s \<longrightarrow> v_Width v \<le> v_Width b))"

lemma update_best:
  assumes "above_best s V a" and "below_best s V b" and m: "plain_matches s v"
    and u: "updateWidthMatches v (sel_width s) a b = (a', b')"
  shows "above_best s (insert v V) a' \<and> below_best s (insert v V) b'"
proof (cases "v_Width v \<ge> sel_width s")
  case True
  then have "b' = b" "a' = (case a of None \<Rightarrow> Some v | Some x \<Rightarrow> if v_Width v < v_Width x then Some v else a)"
    using u by (auto simp: updateWidthMatches_def split: option.splits)
  with assms True show ?thesis
    by (auto simp: above_best_def below_best_def split: option.splits) force+
next
  case False
  then have "a' = a" "b' = (case b of None \<Rightarrow> Some v | Some x \<Rightarrow> if v_Width v > v_Width x then Some v else b)"
    using u by (auto simp: updateWidthMatches_def split: option.splits)
  with assms False show ?thesis
    by (auto simp: above_best_def below_best_def split: option.splits) force+
qed

lemma best_skip:
  assumes "\<not> plain_matches s v"
  shows "above_best s V a \<Longrightarrow> above_best s (insert v V) a" "below_best s V b \<Longrightarrow> below_best s (insert v V) b"
  using assms by (auto simp: above_best_def below_best_def split: option.splits)

lemma closest_loop_best:
  assumes inj: "inj_on cache_key U"
  shows "set vs \<subseteq> U \<Longrightarrow> cache_coherent (sel_sourceHash s) U cache \<Longrightarrow> above_best s V a \<Longrightarrow> below_best s V b \<Longrightarrow>
    closest_loop s vs cache a b = ((a', b'), cache') \<Longrightarrow>
    above_best s (V \<union> set vs) a' \<and> below_best s (V \<union> set vs) b' \<and>
    cache_coherent (sel_sourceHash s) U cache'"
proof (induction vs arbitrary: cache V a b)
  case (Cons v vs)
  have v: "v \<in> U" using Cons.prems(1) by simp
  obtain m c1 where m: "sel_matches s cache v = (m, c1)" by fastforce
  with sel_matches_plain [OF Cons.prems(2) inj v]
  have mp: "m = plain_matches s v" and c1: "cache_coherent (sel_sourceHash s) U c1" by simp_all
  show ?case
  proof (cases m)
    case False
    with Cons.prems m mp best_skip [of s v V]
      Cons.IH [of c1 "insert v V" a b]
    show ?thesis using c1 by auto
  next
    case True
    obtain a1 b1 where u: "updateWidthMatches v (sel_width s) a b = (a1, b1)" by fastforce
    with update_best [OF Cons.prems(3,4)] True mp
    have "above_best s (insert v V) a1" "below_best s (insert v V) b1" by auto
    with Cons.prems m True u c1 Cons.IH [of c1 "insert v V" a1 b1] show ?thesis by auto
  qed
qed auto

lemma findClosest_best:
  assumes inj: "inj_on cache_key U" and "set (sel_variants s) \<subseteq> U"
    and "cache_coherent (sel_sourceHash s) U cache"
  shows "best_width s (set (sel_variants s)) (fst (findClosestWidthImageVariant s cache)) \<and>
    cache_coherent (sel_sourceHash s) U (snd (findClosestWidthImageVariant s cache))"
proof -
  obtain a b c where l: "closest_loop s (sel_variants s) cache None None = ((a, b), c)"
    by (metis surj_pair)
  have "above_best s {} None" "below_best s {} None" by (simp_all add: above_best_def below_best_def)
  from closest_loop_best [OF inj assms(2,3) this l]
  have "above_best s (set (sel_variants s)) a" "below_best s (set (sel_variants s)) b"
    "cache_coherent (sel_sourceHash s) U c" by auto
  then show ?thesis
    unfolding findClosestWidthImageVariant_def l
    by (cases a; cases b)
       (auto simp: best_width_def above_best_def below_best_def not_le not_less, fastforce+)
qed

section \<open>The pickers, under the contract\<close>

definition selection_for :: "Asset \<Rightarrow> int \<Rightarrow> string \<Rightarrow> imageVariantSelection" where
  "selection_for asset width format =
     \<lparr>sel_variants = [], sel_sourceHash = a_SourceHash asset, sel_format = format,
      sel_sourceFormat = ImageFormat (a_MediaType asset), sel_width = width\<rparr>"

text \<open>The variants a request for a format and width chooses from: without a width, the ones that
  keep the original size.\<close>

definition candidates :: "Variant set \<Rightarrow> string \<Rightarrow> int \<Rightarrow> Variant set" where
  "candidates V f w = {v \<in> V. imageFormatKey v = f \<and> f \<noteq> [] \<and> (w \<le> 0 \<longrightarrow> v_Width v = 0)}"

text \<open>The best variant of the first format that has one.\<close>

definition first_format :: "Variant set \<Rightarrow> Asset \<Rightarrow> int \<Rightarrow> string list \<Rightarrow> Variant option \<Rightarrow> bool" where
  "first_format V asset w formats picked =
     (case picked of
        None \<Rightarrow> (\<forall>f\<in>set formats. best_width (selection_for asset w f) (candidates V f w) None)
      | Some v \<Rightarrow>
          (\<exists>as f bs. formats = as @ f # bs \<and>
             (\<forall>g\<in>set as. best_width (selection_for asset w g) (candidates V g w) None) \<and>
             best_width (selection_for asset w f) (candidates V f w) (Some v)))"

text \<open>The usable variant of the first encoding that has one.\<close>

definition first_encoding :: "Variant set \<Rightarrow> Asset \<Rightarrow> string list \<Rightarrow> Variant option \<Rightarrow> bool" where
  "first_encoding V asset es picked =
     (case picked of
        None \<Rightarrow> (\<forall>e\<in>set es. \<forall>v\<in>V. e \<noteq> [] \<longrightarrow> v_Encoding v = e \<longrightarrow> \<not> isUsableVariant v (a_SourceHash asset))
      | Some v \<Rightarrow>
          v \<in> V \<and> isUsableVariant v (a_SourceHash asset) \<and>
          (\<exists>as bs. es = as @ v_Encoding v # bs \<and>
             (\<forall>e\<in>set as. \<forall>u\<in>V. e \<noteq> [] \<longrightarrow> v_Encoding u = e \<longrightarrow> \<not> isUsableVariant u (a_SourceHash asset))))"

lemma wrap_Inr [simp]: "wrapCatalogReadErr r = Inr x \<longleftrightarrow> r = Inr x"
  by (cases r) (auto simp: wrapCatalogReadErr_def)

context catalog_reads
begin

lemma cache_keys:
  assumes "trim_space p \<noteq> []"
  shows "inj_on cache_key (stored p)"
proof (rule inj_onI)
  fix v u assume vu: "v \<in> stored p" "u \<in> stored p" and "cache_key v = cache_key u"
  then have "v_ID v = v_ID u" using stored_named [OF _ assms] by (simp add: cache_key_def)
  with vu stored_ids show "v = u" by (metis inj_onD)
qed

lemma pick_format:
  assumes named: "trim_space (a_Path asset) \<noteq> []"
    and coh: "cache_coherent (sel_sourceHash s) (stored (a_Path asset)) cache"
    and pick: "pickImageVariantForFormat cat asset s cache = Inr (picked, cache')"
  shows "best_width s (candidates (stored (a_Path asset)) (sel_format s) (sel_width s)) picked \<and>
    cache_coherent (sel_sourceHash s) (stored (a_Path asset)) cache'"
proof (cases "sel_width s \<le> 0")
  case True
  note inj = cache_keys [OF named]
  from pick True obtain found where found: "rd_image cat (a_Path asset) (sel_format s) 0 = Inr found"
    and res: "(case found of None \<Rightarrow> Inr (None, cache)
      | Some v \<Rightarrow> (case sel_matches s cache v of
           (True, cache') \<Rightarrow> Inr (Some v, cache') | (False, cache') \<Rightarrow> Inr (None, cache'))) =
      (Inr (picked, cache') :: 'e resolve_error + _)"
    by (auto simp: pickImageVariantForFormat_def findImageVariantForRead_def wrapCatalogReadErr_def
        split: sum.splits option.splits)
  have cand: "v \<in> candidates (stored (a_Path asset)) (sel_format s) (sel_width s) \<longleftrightarrow> found = Some v" for v
    using image_iff [OF found, of v] True by (auto simp: candidates_def)
  show ?thesis
  proof (cases found)
    case None
    with cand have "candidates (stored (a_Path asset)) (sel_format s) (sel_width s) = {}" by auto
    with None res coh show ?thesis by (simp add: best_width_def)
  next
    case (Some v)
    then have v: "v \<in> stored (a_Path asset)" using image_iff [OF found, of v] by simp
    obtain m c1 where m: "sel_matches s cache v = (m, c1)" by fastforce
    with sel_matches_plain [OF coh inj v]
    have mp: "m = plain_matches s v" "cache_coherent (sel_sourceHash s) (stored (a_Path asset)) c1"
      by simp_all
    have "(picked, cache') = (if m then Some v else None, c1)"
      using res Some m by (cases m) simp_all
    with mp cand Some show ?thesis by (auto simp: best_width_def)
  qed
next
  case False
  note inj = cache_keys [OF named]
  from pick False obtain vs where vs: "rd_images cat (a_Path asset) (sel_format s) = Inr vs"
    by (auto simp: pickImageVariantForFormat_def listImageVariantsForRead_def wrapCatalogReadErr_def
        split: sum.splits)
  have set: "set vs = candidates (stored (a_Path asset)) (sel_format s) (sel_width s)"
    using images_set [OF vs] False by (auto simp: candidates_def)
  let ?s = "s\<lparr>sel_variants := vs\<rparr>"
  have m: "plain_matches ?s = plain_matches s" by (simp add: plain_matches_def fun_eq_iff)
  have "best_width ?s = best_width s"
    by (intro ext) (simp add: best_width_def m split: option.splits)
  moreover have best: "best_width ?s (set (sel_variants ?s)) (fst (findClosestWidthImageVariant ?s cache)) \<and>
      cache_coherent (sel_sourceHash ?s) (stored (a_Path asset)) (snd (findClosestWidthImageVariant ?s cache))"
    using coh images_set [OF vs] by (intro findClosest_best [OF inj]) auto
  moreover have "vs = [] \<Longrightarrow> (picked, cache') = (None, cache)"
    and "vs \<noteq> [] \<Longrightarrow> (picked, cache') = findClosestWidthImageVariant ?s cache"
    using pick False vs
    by (auto simp: pickImageVariantForFormat_def listImageVariantsForRead_def wrapCatalogReadErr_def
        pick_from_selection_def)
  ultimately have "best_width s (set vs) picked \<and>
      cache_coherent (sel_sourceHash s) (stored (a_Path asset)) cache'"
  proof (cases "vs = []")
    case True
    with \<open>vs = [] \<Longrightarrow> (picked, cache') = (None, cache)\<close> coh show ?thesis by (simp add: best_width_def)
  next
    case ne: False
    have "picked = fst (findClosestWidthImageVariant ?s cache)"
      "cache' = snd (findClosestWidthImageVariant ?s cache)"
      using \<open>vs \<noteq> [] \<Longrightarrow> (picked, cache') = findClosestWidthImageVariant ?s cache\<close> [OF ne]
      by (metis fst_conv, metis snd_conv)
    with best show ?thesis unfolding \<open>best_width ?s = best_width s\<close> by simp
  qed
  then show ?thesis unfolding set .
qed

lemma formats_loop:
  assumes named: "trim_space (a_Path asset) \<noteq> []"
  shows "cache_coherent (a_SourceHash asset) (stored (a_Path asset)) cache \<Longrightarrow>
    image_formats_loop cat asset (ImageFormat (a_MediaType asset)) w formats cache = Inr picked \<Longrightarrow>
    first_format (stored (a_Path asset)) asset w formats picked"
proof (induction formats arbitrary: cache)
  case Nil
  then show ?case by (simp add: first_format_def)
next
  case (Cons f formats)
  let ?s = "selection_for asset w f"
  from Cons.prems(2) obtain p c1 where p: "pickImageVariantForFormat cat asset ?s cache = Inr (p, c1)"
    by (auto simp: selection_for_def split: sum.splits)
  have b: "best_width ?s (candidates (stored (a_Path asset)) f w) p"
    "cache_coherent (a_SourceHash asset) (stored (a_Path asset)) c1"
    using pick_format [OF named _ p] Cons.prems(1) by (simp_all add: selection_for_def)
  show ?case
  proof (cases p)
    case None
    with Cons.prems p have "first_format (stored (a_Path asset)) asset w formats picked"
      by (intro Cons.IH [OF b(2)]) (simp add: selection_for_def)
    with None b(1) show ?thesis
      by (auto simp: first_format_def split: option.splits) (metis append_Cons set_ConsD)
  next
    case (Some v)
    with Cons.prems p have "picked = Some v" by (simp add: selection_for_def)
    moreover have "\<exists>as g bs. f # formats = as @ g # bs \<and>
        (\<forall>h\<in>set as. best_width (selection_for asset w h) (candidates (stored (a_Path asset)) h w) None) \<and>
        best_width (selection_for asset w g) (candidates (stored (a_Path asset)) g w) (Some v)"
      using Some b(1) by (intro exI [of _ "[]"] exI [of _ f] exI [of _ formats]) simp
    ultimately show ?thesis by (simp add: first_format_def)
  qed
qed

lemma pickImageVariant_first:
  assumes named: "trim_space (a_Path asset) \<noteq> []"
    and pick: "pickImageVariant cat asset w formats = Inr picked"
  shows "first_format (stored (a_Path asset)) asset w
    (case formats of None \<Rightarrow> [ImageFormat (a_MediaType asset)]
     | Some fs \<Rightarrow> if fs = [] then [ImageFormat (a_MediaType asset)] else fs) picked"
  using pick unfolding pickImageVariant_def Let_def
  by (rule formats_loop [OF named, rotated]) (simp add: cache_coherent_def)

lemma pickVariant_first:
  "pickVariant cat asset es = Inr picked \<Longrightarrow> first_encoding (stored (a_Path asset)) asset es picked"
proof (induction es)
  case Nil
  then show ?case by (simp add: first_encoding_def)
next
  case (Cons e es)
  from Cons.prems obtain found where found: "rd_encoding cat (a_Path asset) e = Inr found"
    by (auto simp: findEncodingVariantForRead_def wrapCatalogReadErr_def split: sum.splits)
  note enc = encoding_iff [OF found]
  show ?case
  proof (cases "\<exists>v. found = Some v \<and> isUsableVariant v (a_SourceHash asset)")
    case True
    then obtain v where v: "found = Some v" "isUsableVariant v (a_SourceHash asset)" by blast
    with Cons.prems found have "picked = Some v"
      by (simp add: findEncodingVariantForRead_def wrapCatalogReadErr_def)
    moreover have "v_Encoding v = e" "v \<in> stored (a_Path asset)" using v enc [of v] by simp_all
    ultimately show ?thesis
      using v(2) unfolding first_encoding_def
      by (simp, intro exI [of _ "[]"] exI [of _ es]) simp
  next
    case False
    with Cons.prems found have "pickVariant cat asset es = Inr picked"
      by (auto simp: findEncodingVariantForRead_def wrapCatalogReadErr_def split: option.splits)
    note IH = Cons.IH [OF this]
    have none: "\<forall>v\<in>stored (a_Path asset). e \<noteq> [] \<longrightarrow> v_Encoding v = e \<longrightarrow>
        \<not> isUsableVariant v (a_SourceHash asset)"
      using False enc by blast
    show ?thesis
    proof (cases picked)
      case None
      with IH none show ?thesis by (simp add: first_encoding_def)
    next
      case (Some v)
      with IH obtain as bs where "es = as @ v_Encoding v # bs"
        and as: "\<forall>e\<in>set as. \<forall>u\<in>stored (a_Path asset). e \<noteq> [] \<longrightarrow> v_Encoding u = e \<longrightarrow>
          \<not> isUsableVariant u (a_SourceHash asset)"
        and v: "v \<in> stored (a_Path asset)" "isUsableVariant v (a_SourceHash asset)"
        by (auto simp: first_encoding_def)
      then have "e # es = (e # as) @ v_Encoding v # bs" by simp
      moreover have "\<forall>g\<in>set (e # as). \<forall>u\<in>stored (a_Path asset). g \<noteq> [] \<longrightarrow> v_Encoding u = g \<longrightarrow>
          \<not> isUsableVariant u (a_SourceHash asset)"
        using as none by simp
      ultimately have "\<exists>as bs. e # es = as @ v_Encoding v # bs \<and>
          (\<forall>g\<in>set as. \<forall>u\<in>stored (a_Path asset). g \<noteq> [] \<longrightarrow> v_Encoding u = g \<longrightarrow>
            \<not> isUsableVariant u (a_SourceHash asset))"
        by blast
      with v Some show ?thesis unfolding first_encoding_def by simp
    qed
  qed
qed

lemma image_pick_stored:
  assumes "first_format V asset w formats (Some v)"
  shows "v \<in> V \<and> isUsableVariant v (a_SourceHash asset)"
  using assms by (auto simp: first_format_def best_width_def candidates_def plain_matches_def selection_for_def)

end

section \<open>The indexed catalog keeps the contract\<close>

definition stored_variants :: "IndexedCatalog \<Rightarrow> string \<Rightarrow> Variant set" where
  "stored_variants c p = r_Variant ` {r \<in> recs (variants c). r_AssetPath r = p}"

lemma reader_contract:
  assumes ok: "catalog_ok c"
  shows "catalog_reads (reader_of c) (stored_variants c)"
proof -
  have idx: "index_ok (variants c)" using ok by (simp add: catalog_ok_def)
  have rec: "record_ok r" if "r \<in> recs (variants c)" for r
    using ok that by (auto simp: catalog_ok_def)
  have mem: "v \<in> stored_variants c p \<longleftrightarrow> (\<exists>r\<in>recs (variants c). r_AssetPath r = p \<and> r_Variant r = v)" for v p
    by (auto simp: stored_variants_def)
  show ?thesis
  proof
    fix p a assume "rd_asset (reader_of c) p = Inr (Some a)"
    then obtain rec where r: "map_of (assetsByPath c) p = Some rec" "a = ar_Asset rec"
      by (auto simp: reader_of_def FindAssetViewResult_def split: option.splits)
    then have "(p, rec) \<in> set (assetsByPath c)" by (rule_tac map_of_SomeD)
    with ok r(2) show "a_Path a = p" unfolding catalog_ok_def assets_ok_def by fastforce
  next
    fix v p assume "v \<in> stored_variants c p"
    with mem rec show "v_AssetPath v = p" by (auto simp: record_ok_def Let_def)
  next
    fix p e v and found :: "Variant option"
    assume "rd_encoding (reader_of c) p e = Inr found"
    then have "found = map_option r_Variant (findEncoding (variants c) p e)"
      by (auto simp: reader_of_def FindEncodingVariantViewResult_def split: option.splits)
    then have "found = Some v \<longleftrightarrow> (\<exists>r. findEncoding (variants c) p e = Some r \<and> r_Variant r = v)"
      by auto
    also have "\<dots> \<longleftrightarrow> v \<in> stored_variants c p \<and> v_Encoding v = e \<and> e \<noteq> []"
      unfolding findEncoding_iff [OF idx] mem using rec by (auto simp: record_ok_def Let_def)
    finally show "found = Some v \<longleftrightarrow> v \<in> stored_variants c p \<and> v_Encoding v = e \<and> e \<noteq> []" .
  next
    fix p f w v and found :: "Variant option"
    assume "rd_image (reader_of c) p f w = Inr found"
    then have "found = map_option r_Variant (findImage (variants c) p f w)"
      by (auto simp: reader_of_def FindImageVariantViewResult_def split: option.splits)
    then have "found = Some v \<longleftrightarrow> (\<exists>r. findImage (variants c) p f w = Some r \<and> r_Variant r = v)"
      by auto
    also have "\<dots> \<longleftrightarrow> v \<in> stored_variants c p \<and> imageFormatKey v = f \<and> v_Width v = w \<and> f \<noteq> []"
      unfolding findImage_iff [OF idx] mem using rec by (auto simp: record_ok_def Let_def)
    finally show "found = Some v \<longleftrightarrow>
      v \<in> stored_variants c p \<and> imageFormatKey v = f \<and> v_Width v = w \<and> f \<noteq> []" .
  next
    fix p f vs assume "rd_images (reader_of c) p f = Inr vs"
    then have vs: "vs = map r_Variant (fst (listByImageFormat (variants c) p f))"
      by (simp add: reader_of_def ListImageVariantsViewResult_def variantViewsFromRecords_def split_beta)
    then have "set vs = r_Variant ` {r \<in> recs (variants c). r_AssetPath r = p \<and> r_ImageFormat r = f \<and> f \<noteq> []}"
      using listByImageFormat_listed [OF idx, of p f] by (simp add: listed_def is_sorted_list_def)
    then show "set vs = {v \<in> stored_variants c p. imageFormatKey v = f \<and> f \<noteq> []}"
      using rec by (auto simp: stored_variants_def record_ok_def Let_def)
  next
    fix p show "inj_on v_ID (stored_variants c p)"
    proof (rule inj_onI)
      fix v u assume "v \<in> stored_variants c p" "u \<in> stored_variants c p" and ids: "v_ID v = v_ID u"
      then obtain r q where r: "r \<in> recs (variants c)" "r_AssetPath r = p" "r_Variant r = v"
        and q: "q \<in> recs (variants c)" "r_AssetPath q = p" "r_Variant q = u"
        by (auto simp: mem)
      with ids rec have "variantRecordKey r = variantRecordKey q"
        by (simp add: variantRecordKey_def) (metis record_ok_def)
      with recs_keyed idx r q have "r = q" unfolding index_ok_def keyed_def by (metis inj_onD)
      with r q show "v = u" by simp
    qed
  next
    fix v p assume "v \<in> stored_variants c p" and "trim_space p \<noteq> []"
    with mem rec show "v_ID v \<noteq> []" by (auto simp: record_ok_def Let_def)
  qed
qed

interpretation indexed: catalog_reads "reader_of (run_catalog stat ops)" "stored_variants (run_catalog stat ops)"
  for stat ops
  by (rule reader_contract) (use run_catalog_ok in blast)

text \<open>The indexed catalog never fails to answer.\<close>

lemma reader_total:
  "\<exists>found. rd_asset (reader_of c) p = Inr found" "\<exists>found. rd_encoding (reader_of c) p e = Inr found"
  "\<exists>found. rd_image (reader_of c) p f w = Inr found" "\<exists>vs. rd_images (reader_of c) p f = Inr vs"
  by (simp_all add: reader_of_def FindAssetViewResult_def FindEncodingVariantViewResult_def
      FindImageVariantViewResult_def ListImageVariantsViewResult_def split_beta)

lemma reader_asset: "rd_asset (reader_of c) p = Inr (FindAsset c p)"
  by (simp add: reader_of_def FindAsset_def FindAssetViewResult_def)

lemma pickVariant_total: "\<exists>picked. pickVariant (reader_of c) asset es = Inr picked"
proof (induction es)
  case (Cons e es)
  obtain found where "rd_encoding (reader_of c) (a_Path asset) e = Inr found"
    using reader_total(2) by blast
  with Cons show ?case
    by (auto simp: findEncodingVariantForRead_def wrapCatalogReadErr_def split: option.splits)
qed simp

lemma pickImageVariantForFormat_total:
  "\<exists>p c1. pickImageVariantForFormat (reader_of c) asset s cache = Inr (p, c1)"
proof (cases "sel_width s \<le> 0")
  case True
  obtain found where found: "rd_image (reader_of c) (a_Path asset) (sel_format s) 0 = Inr found"
    using reader_total(3) by blast
  show ?thesis
  proof (cases found)
    case (Some v)
    obtain m c1 where "sel_matches s cache v = (m, c1)" by fastforce
    with True found Some show ?thesis
      by (cases m) (simp_all add: pickImageVariantForFormat_def findImageVariantForRead_def
          wrapCatalogReadErr_def)
  qed (use True found in \<open>simp add: pickImageVariantForFormat_def findImageVariantForRead_def
          wrapCatalogReadErr_def\<close>)
next
  case False
  obtain vs where "rd_images (reader_of c) (a_Path asset) (sel_format s) = Inr vs"
    using reader_total(4) by blast
  with False show ?thesis
    by (simp add: pickImageVariantForFormat_def listImageVariantsForRead_def wrapCatalogReadErr_def
        prod_eq_iff)
qed

lemma image_formats_loop_total:
  "\<exists>picked. image_formats_loop (reader_of c) asset src w formats cache = Inr picked"
proof (induction formats arbitrary: cache)
  case (Cons f formats)
  obtain p c1 where "pickImageVariantForFormat (reader_of c) asset
      \<lparr>sel_variants = [], sel_sourceHash = a_SourceHash asset, sel_format = f,
       sel_sourceFormat = src, sel_width = w\<rparr> cache = Inr (p, c1)"
    using pickImageVariantForFormat_total by blast
  with Cons show ?case by (cases p) auto
qed simp

lemma pickImageVariant_total: "\<exists>picked. pickImageVariant (reader_of c) asset w formats = Inr picked"
  unfolding pickImageVariant_def Let_def by (rule image_formats_loop_total)

section \<open>Properties of the resolver over the indexed catalog\<close>

definition resolver_on :: "assets_config \<Rightarrow> encodingSupport \<Rightarrow> IndexedCatalog \<Rightarrow> catalog_error Resolver" where
  "resolver_on cfg support c = \<lparr>rv_cfg = cfg, rv_supportedEncodings = support, rv_catalog = reader_of c\<rparr>"

text \<open>What a result may be.\<close>

definition encoded_variant :: "catalog_error Resolver \<Rightarrow> Request \<Rightarrow> Result \<Rightarrow> Variant \<Rightarrow> bool" where
  "encoded_variant r request res v \<longleftrightarrow>
     rs_ContentEncoding res = v_Encoding v \<and> v_Encoding v \<noteq> [] \<and> \<not> rq_RangeRequested request \<and>
     v_Encoding v \<in> set (case requested_encodings r request of None \<Rightarrow> [] | Some es \<Rightarrow> es)"

definition served_ok :: "catalog_error Resolver \<Rightarrow> IndexedCatalog \<Rightarrow> Request \<Rightarrow> Result \<Rightarrow> bool" where
  "served_ok r c request res \<longleftrightarrow>
     (let a = rs_Asset res
      in FindAsset c (a_Path a) = Some a \<and>
         (case rs_Variant res of
            None \<Rightarrow>
              rs_FilePath res = a_FullPath a \<and> rs_ContentEncoding res = [] \<and>
              rs_MediaType res = a_MediaType a \<and> rs_ETag res = a_ETag a
          | Some v \<Rightarrow>
              v \<in> stored_variants c (a_Path a) \<and> isUsableVariant v (a_SourceHash a) \<and>
              rs_FilePath res = v_ArtifactPath v \<and>
              (rs_ContentEncoding res = [] \<or> encoded_variant r request res v)))"

text \<open>The stages of \<open>Resolve\<close> over the indexed catalog.\<close>

lemma findAssetForRead_eq: "findAssetForRead (reader_of c) p = Inr (FindAsset c p)"
  by (simp add: findAssetForRead_def reader_asset)

lemma FindAsset_path: "catalog_ok c \<Longrightarrow> FindAsset c p = Some a \<Longrightarrow> a_Path a = p"
  using catalog_reads.asset_path [OF reader_contract, of c p a] by (simp add: reader_asset)

lemma findAsset_cases:
  assumes ok: "catalog_ok c"
  obtains "findAsset (resolver_on cfg support c) path = Inr (None, False)"
  | a fb where "findAsset (resolver_on cfg support c) path = Inr (Some a, fb)"
      "FindAsset c (a_Path a) = Some a"
proof -
  have fin: "FindAsset c (a_Path a) = Some a" if "FindAsset c q = Some a" for q a
    using FindAsset_path [OF ok that] that by simp
  have "findAsset (resolver_on cfg support c) path = Inr (None, False) \<or>
      (\<exists>a fb. findAsset (resolver_on cfg support c) path = Inr (Some a, fb) \<and> FindAsset c (a_Path a) = Some a)"
    using fin
    by (auto simp: findAsset_def findPrimaryAsset_def resolver_on_def findAssetForRead_eq Let_def
        split: option.splits if_splits)
  with that show thesis by blast
qed

lemma resolveEncoding_ok:
  assumes ok: "catalog_ok c" and a: "FindAsset c (a_Path a) = Some a"
    and res: "resolve_encodings (resolver_on cfg support c) a fb request = Inr (Some res, request')"
  shows "served_ok (resolver_on cfg support c) c request res"
proof -
  let ?r = "resolver_on cfg support c"
  obtain es picked where es: "requested_encodings ?r request = Some es" "\<not> rq_RangeRequested request"
    and p: "pickVariant (reader_of c) a es = Inr picked" and "picked \<noteq> None"
    using res pickVariant_total [of c a]
    by (auto simp: resolve_encodings_def resolveEncodingVariant_def resolver_on_def list_len_def Let_def
        split: option.splits sum.splits if_splits)
  then obtain v where v: "picked = Some v" by blast
  with catalog_reads.pickVariant_first [OF reader_contract [OF ok] p]
  have fe: "v \<in> stored_variants c (a_Path a)" "isUsableVariant v (a_SourceHash a)" "v_Encoding v \<in> set es"
    by (auto simp: first_encoding_def)
  have ne: "v_Encoding v \<noteq> []"
  proof -
    have "pickVariant (reader_of c) a es = Inr (Some v) \<Longrightarrow> v_Encoding v \<noteq> []"
    proof (induction es)
      case (Cons e es)
      obtain found where f: "rd_encoding (reader_of c) (a_Path a) e = Inr found"
        using reader_total(2) by blast
      with Cons catalog_reads.encoding_iff [OF reader_contract [OF ok] f, of v] show ?case
        by (auto simp: findEncodingVariantForRead_def wrapCatalogReadErr_def split: option.splits if_splits)
    qed simp
    with p v show ?thesis by simp
  qed
  have "res = \<lparr>rs_Asset = a, rs_Variant = Some v, rs_FilePath = v_ArtifactPath v,
      rs_MediaType = a_MediaType a, rs_ContentEncoding = v_Encoding v,
      rs_ETag = FirstNonBlank [v_ETag v, a_ETag a], rs_PreferredEncodings = None,
      rs_PreferredWidths = None, rs_PreferredFormats = None, rs_FallbackUsed = fb\<rparr>"
    using res es p v
    by (auto simp: resolve_encodings_def resolveEncodingVariant_def resolver_on_def list_len_def Let_def
        split: if_splits)
  with a fe es ne show ?thesis by (simp add: served_ok_def encoded_variant_def Let_def)
qed

lemma resolveImage_ok:
  assumes ok: "catalog_ok c" and a: "FindAsset c (a_Path a) = Some a" and named: "trim_space (a_Path a) \<noteq> []"
    and res: "resolveImageVariant (resolver_on cfg support c) a fb w formats = Inr (Some res)"
  shows "served_ok (resolver_on cfg support c) c request res"
proof -
  obtain v where p: "pickImageVariant (reader_of c) a w formats = Inr (Some v)"
    using res pickImageVariant_total [of c a w formats]
    by (auto simp: resolveImageVariant_def resolver_on_def split: option.splits)
  from catalog_reads.image_pick_stored [OF reader_contract [OF ok]
      catalog_reads.pickImageVariant_first [OF reader_contract [OF ok] named p]]
  have "v \<in> stored_variants c (a_Path a)" "isUsableVariant v (a_SourceHash a)" by simp_all
  with a res p show ?thesis
    by (auto simp: served_ok_def resolveImageVariant_def resolver_on_def Let_def)
qed

lemma served_ok_format:
  "served_ok r c (request\<lparr>rq_Format := f\<rparr>) res \<longleftrightarrow> served_ok r c request res"
  by (simp add: served_ok_def encoded_variant_def requested_encodings_def Let_def split: option.splits)

lemma resolve_encodings_total:
  "\<exists>res request'. resolve_encodings (resolver_on cfg support c) a fb request = Inr (res, request')"
proof -
  obtain picked where "pickVariant (reader_of c) a
      (case requested_encodings (resolver_on cfg support c) request of None \<Rightarrow> [] | Some es \<Rightarrow> es) = Inr picked"
    using pickVariant_total by blast
  then show ?thesis
    by (cases picked) (simp_all add: resolve_encodings_def resolveEncodingVariant_def resolver_on_def Let_def)
qed

lemma resolvePreferred_ok:
  assumes ok: "catalog_ok c" and a: "FindAsset c (a_Path a) = Some a"
  shows "\<exists>res request'. resolvePreferredVariant (resolver_on cfg support c) a fb request formats = Inr (res, request') \<and>
    (case res of None \<Rightarrow> True
     | Some x \<Rightarrow> trim_space (a_Path a) = [] \<or> served_ok (resolver_on cfg support c) c request x) \<and>
    (case res of None \<Rightarrow> True | Some x \<Rightarrow> rs_Asset x = a)"
proof -
  let ?r = "resolver_on cfg support c"
  obtain er erq where e: "resolve_encodings ?r a fb request = Inr (er, erq)"
    using resolve_encodings_total by blast
  then have e_ok: "case er of None \<Rightarrow> True | Some x \<Rightarrow> served_ok ?r c request x \<and> rs_Asset x = a"
    using resolveEncoding_ok [OF ok a, of cfg support fb request _ erq]
    by (auto simp: resolve_encodings_def resolveEncodingVariant_def Let_def
        split: option.splits sum.splits if_splits)
  obtain picked where "pickImageVariant (reader_of c) a (rq_Width request) formats = Inr picked"
    using pickImageVariant_total by blast
  then obtain ir where i: "resolveImageVariant ?r a fb (rq_Width request) formats = Inr ir"
    "case ir of None \<Rightarrow> True | Some x \<Rightarrow> rs_Asset x = a"
    by (cases picked) (simp_all add: resolveImageVariant_def resolver_on_def)
  show ?thesis
  proof (cases "(rq_Width request > 0 \<or> list_len formats > 0) \<and> ir \<noteq> None")
    case True
    then obtain x where x: "ir = Some x" by blast
    with i resolveImage_ok [OF ok a, of cfg support fb "rq_Width request" formats x request]
    have "trim_space (a_Path a) = [] \<or> served_ok ?r c request x" by blast
    with True i x show ?thesis by (auto simp: resolvePreferredVariant_def)
  next
    case False
    then have "resolvePreferredVariant ?r a fb request formats = Inr (er, erq)"
      using i(1) e by (auto simp: resolvePreferredVariant_def)
    with e_ok show ?thesis by (cases er) auto
  qed
qed

lemma Resolve_ok:
  assumes ok: "catalog_ok c"
  shows "case Resolve (resolver_on cfg support c) True request of
      Inl e \<Rightarrow> e = ErrNotFound
    | Inr res \<Rightarrow> trim_space (a_Path (rs_Asset res)) = [] \<or>
        served_ok (resolver_on cfg support c) c request res"
proof (cases rule: findAsset_cases [OF ok, of cfg support "rq_Path request"])
  case 1
  then show ?thesis by (simp add: Resolve_def)
next
  case (2 a fb)
  let ?r = "resolver_on cfg support c"
  let ?rq = "request\<lparr>rq_Format := NormalizeImageFormat (rq_Format request)\<rparr>"
  define formats where "formats = (case rq_PreferredFormats ?rq of Some fs \<Rightarrow> Some fs
      | None \<Rightarrow> PreferredImageFormats (rq_Accept ?rq) (NormalizeImageFormat (rq_Format request)) (a_MediaType a))"
  obtain res rq' where p: "resolvePreferredVariant ?r a fb ?rq formats = Inr (res, rq')"
    and served: "case res of None \<Rightarrow> True | Some x \<Rightarrow> trim_space (a_Path a) = [] \<or> served_ok ?r c ?rq x"
    and asset: "case res of None \<Rightarrow> True | Some x \<Rightarrow> rs_Asset x = a"
    using resolvePreferred_ok [OF ok 2(2)] by blast
  show ?thesis
  proof (cases res)
    case None
    with 2 p have "Resolve ?r True request =
        Inr \<lparr>rs_Asset = a, rs_Variant = None, rs_FilePath = a_FullPath a,
             rs_MediaType = a_MediaType a, rs_ContentEncoding = [], rs_ETag = a_ETag a,
             rs_PreferredEncodings = rq_PreferredEncodings rq',
             rs_PreferredWidths = PreferredWidths (rq_Width rq'),
             rs_PreferredFormats = formats, rs_FallbackUsed = fb\<rparr>"
      unfolding Resolve_def formats_def Let_def by simp
    with 2 show ?thesis by (simp add: served_ok_def Let_def)
  next
    case (Some x)
    with 2 p have "Resolve ?r True request = Inr x" unfolding Resolve_def formats_def Let_def by simp
    with Some served asset show ?thesis by (simp add: served_ok_format)
  qed
qed


text \<open>C5: the encoding served is the client's best: the first of its codings for which the catalog
  has a usable variant of the asset, and no variant only if there is none.\<close>

theorem pickVariant_best:
  "case pickVariant (reader_of (run_catalog stat ops)) asset encodings of
      Inl e \<Rightarrow> False
    | Inr picked \<Rightarrow> first_encoding (stored_variants (run_catalog stat ops) (a_Path asset)) asset encodings picked"
proof -
  obtain picked where "pickVariant (reader_of (run_catalog stat ops)) asset encodings = Inr picked"
    using pickVariant_total by blast
  with indexed.pickVariant_first [OF this] show ?thesis by simp
qed

text \<open>C4: the image served is the best stored one: the first requested format that has a usable
  variant, and within it the narrowest variant at least as wide as requested, else the widest.\<close>

theorem pickImageVariant_best:
  assumes "trim_space (a_Path asset) \<noteq> []"
  shows "\<exists>picked. pickImageVariant (reader_of (run_catalog stat ops)) asset w (Some (f # fs)) = Inr picked \<and>
    first_format (stored_variants (run_catalog stat ops) (a_Path asset)) asset w (f # fs) picked"
proof -
  obtain picked where p: "pickImageVariant (reader_of (run_catalog stat ops)) asset w (Some (f # fs)) = Inr picked"
    using pickImageVariant_total by blast
  with indexed.pickImageVariant_first [OF assms p] show ?thesis by simp
qed

definition example_asset :: Asset where
  "example_asset =
     \<lparr>a_Path = ''logo.png'', a_FullPath = ''/srv/logo.png'', a_Size = 9, a_MediaType = ''image/png'',
      a_SourceHash = ''h1'', a_ETag = ''e1'', a_Metadata = Map.empty\<rparr>"

definition example_variant :: "int \<Rightarrow> Variant" where
  "example_variant w =
     \<lparr>v_ID = [], v_AssetPath = ''logo.png'', v_ArtifactPath = ''/cache/logo'' @ itoa w, v_Size = 4,
      v_MediaType = ''image/webp'', v_SourceHash = ''h1'', v_ETag = [], v_Encoding = [],
      v_Format = ''webp'', v_Width = w, v_Metadata = Map.empty\<rparr>"

definition example_ops :: "catalog_op list" where
  "example_ops = [OpUpsertAsset (Some example_asset), OpUpsertVariant (Some (example_variant 320)),
     OpUpsertVariant (Some (example_variant 640)), OpUpsertVariant (Some (example_variant 1280))]"

theorem pickImageVariant_best_witness:
  "\<exists>picked. pickImageVariant (reader_of (run_catalog (\<lambda>_. None) example_ops)) example_asset 500
       (Some [''webp'', ''png'']) = Inr picked \<and>
     first_format (stored_variants (run_catalog (\<lambda>_. None) example_ops) (a_Path example_asset))
       example_asset 500 [''webp'', ''png''] picked"
  by (rule pickImageVariant_best) code_simp

lemma example_pick:
  "map_option v_Width (case pickImageVariant (reader_of (run_catalog (\<lambda>_. None) example_ops)) example_asset 500
       (Some [''webp'', ''png'']) of Inl _ \<Rightarrow> None | Inr p \<Rightarrow> p) = Some 640"
  by code_simp

text \<open>C26: a missing file is a 404, never the entry page: a request whose cleaned path names no asset
  and does not allow the entry fallback (it has an extension and no trailing slash) is not found,
  whatever the fallback configuration.\<close>

theorem Resolve_missing_file:
  assumes "Value (Clean (rq_Path request)) \<noteq> []" and "\<not> AllowsEntryFallback (Clean (rq_Path request))"
    and "FindAsset c (Value (Clean (rq_Path request))) = None"
  shows "Resolve (resolver_on cfg support c) True request = Inl ErrNotFound"
  using assms
  by (simp add: Resolve_def findAsset_def findPrimaryAsset_def resolver_on_def findAssetForRead_eq Let_def)

definition example_request :: "string \<Rightarrow> Request" where
  "example_request path =
     \<lparr>rq_Path = path, rq_Accept = ''*/*'', rq_AcceptEncoding = ''br'', rq_Width = 0, rq_Format = [],
      rq_RangeRequested = False, rq_PreferredEncodings = None, rq_PreferredFormats = None\<rparr>"

definition example_config :: assets_config where
  "example_config = \<lparr>cfg_Entry = ''index.html'', cfg_FallbackOnNotFound = True, cfg_FallbackTarget = ''index.html''\<rparr>"

theorem Resolve_missing_file_witness:
  "Resolve (resolver_on example_config defaultEncodingSupport (run_catalog (\<lambda>_. None) example_ops)) True
     (example_request ''/js/app.js'') = Inl ErrNotFound"
proof (rule Resolve_missing_file)
  show "Value (Clean (rq_Path (example_request ''/js/app.js''))) \<noteq> []" by code_simp
  show "\<not> AllowsEntryFallback (Clean (rq_Path (example_request ''/js/app.js'')))" by code_simp
  have "Option.is_none (FindAsset (run_catalog (\<lambda>_. None) example_ops) (Value (Clean (rq_Path (example_request ''/js/app.js'')))))"
    by code_simp
  then show "FindAsset (run_catalog (\<lambda>_. None) example_ops) (Value (Clean (rq_Path (example_request ''/js/app.js'')))) = None"
    by (simp add: is_none_simps Option.is_none_def)
qed

text \<open>C25: after a variant whose artifact has disappeared is dropped, the resolver never returns an
  artifact of that path again, so every retry makes progress.\<close>

theorem ResolveAfterVariantArtifactMiss_progress:
  "case fst (ResolveAfterVariantArtifactMiss cfg support (run_catalog stat ops) True request (Some v)) of
      Inl e \<Rightarrow> e = ErrNotFound
    | Inr res \<Rightarrow> trim_space (a_Path (rs_Asset res)) = [] \<or>
        (case rs_Variant res of None \<Rightarrow> True | Some u \<Rightarrow> v_ArtifactPath u \<noteq> v_ArtifactPath v)"
proof -
  let ?c = "snd (DeleteVariantByArtifactPath (run_catalog stat ops) (v_ArtifactPath v))"
  have c: "?c = run_catalog stat (ops @ [OpDeleteArtifact (v_ArtifactPath v)])"
    by (simp add: run_catalog_def)
  have ok: "catalog_ok ?c" and abs: "absc ?c = abs_exec stat (abs_run stat ops) (OpDeleteArtifact (v_ArtifactPath v))"
    unfolding c using run_catalog_ok [of stat "ops @ [OpDeleteArtifact (v_ArtifactPath v)]"]
    by (simp_all add: abs_run_def)
  have gone: "v_ArtifactPath u \<noteq> v_ArtifactPath v \<or> v_ArtifactPath v = []" if "u \<in> stored_variants ?c p" for u p
  proof -
    from that obtain r where "r \<in> recs (variants ?c)" "r_Variant r = u" by (auto simp: stored_variants_def)
    with ok abs show ?thesis
      by (auto simp: catalog_ok_def absc_def record_ok_def Let_def)
  qed
  have "fst (ResolveAfterVariantArtifactMiss cfg support (run_catalog stat ops) True request (Some v)) =
      Resolve (resolver_on cfg support ?c) True request"
    by (simp add: ResolveAfterVariantArtifactMiss_def resolver_on_def Let_def)
  with Resolve_ok [OF ok, of cfg support request] gone show ?thesis
    by (fastforce simp: served_ok_def isUsableVariant_def Let_def split: sum.splits option.splits)
qed

end
