(* ===== verification/Config.thy ===== *)
theory Config
  imports Metadata
begin

text \<open>
  \<open>internal/config\<close> and \<open>internal/validation\<close>: the configuration values the runtime reads through
  methods.  A \<open>time.Duration\<close> is its number of nanoseconds, an \<open>int\<close> in the range of \<open>int64\<close>;
  \<open>parse_duration\<close> is the standard library's \<open>time.ParseDuration\<close>, fractions in floating point
  included.  Loading (files, environment, flags) is not modelled.
\<close>

section \<open>time.ParseDuration\<close>

type_synonym duration = int

definition minute :: duration where "minute = 60 * second"
definition hour :: duration where "hour = 3600 * second"
definition max_int64 :: int where "max_int64 = 2 ^ 63 - 1"

fun leading_int :: "nat \<Rightarrow> string \<Rightarrow> (nat \<times> string) option" where
  "leading_int x [] = Some (x, [])"
| "leading_int x (c # s) =
     (case digit_val c of
        None \<Rightarrow> Some (x, c # s)
      | Some d \<Rightarrow>
          (if x > 2 ^ 63 div 10 then None
           else if x * 10 + d > 2 ^ 63 then None
           else leading_int (x * 10 + d) s))"

fun leading_fraction :: "nat \<Rightarrow> nat \<Rightarrow> bool \<Rightarrow> string \<Rightarrow> nat \<times> nat \<times> string" where
  "leading_fraction x k overflow [] = (x, k, [])"
| "leading_fraction x k overflow (c # s) =
     (case digit_val c of
        None \<Rightarrow> (x, k, c # s)
      | Some d \<Rightarrow>
          (if overflow \<or> x > (2 ^ 63 - 1) div 10 \<or> x * 10 + d > 2 ^ 63 then leading_fraction x k True s
           else leading_fraction (x * 10 + d) (Suc k) False s))"

definition duration_unit :: "string \<Rightarrow> nat option" where
  "duration_unit = map_of
    [(''ns'', 1), (''us'', 1000), ([CHR 0xC2, CHR 0xB5, CHR ''s''], 1000),
     ([CHR 0xCE, CHR 0xBC, CHR ''s''], 1000), (''ms'', 1000000), (''s'', 1000000000),
     (''m'', 60000000000), (''h'', 3600000000000)]"

definition f64_of :: "rat \<Rightarrow> rat" where
  "f64_of x = (case round_f64 x of None \<Rightarrow> 0 | Some y \<Rightarrow> y)"

text \<open>One \<open>number unit\<close> group: its nanoseconds and the rest of the text.\<close>

definition duration_group :: "string \<Rightarrow> (nat \<times> string) option" where
  "duration_group s =
     (if \<not> (s \<noteq> [] \<and> (hd s = CHR ''.'' \<or> digit_val (hd s) \<noteq> None)) then None
      else (case leading_int 0 s of
              None \<Rightarrow> None
            | Some (v, s1) \<Rightarrow>
                (let pre = (length s1 \<noteq> length s);
                     dot = (s1 \<noteq> [] \<and> hd s1 = CHR ''.'');
                     (f, k, s2) = (if dot then leading_fraction 0 0 False (tl s1) else (0, 0, s1));
                     post = (dot \<and> length s2 \<noteq> length (tl s1));
                     is_unit = (\<lambda>c. c \<noteq> CHR ''.'' \<and> digit_val c = None);
                     u = takeWhile is_unit s2; rest = dropWhile is_unit s2
                 in if \<not> pre \<and> \<not> post then None
                    else if u = [] then None
                    else (case duration_unit u of
                            None \<Rightarrow> None
                          | Some unit \<Rightarrow>
                              (if v > 2 ^ 63 div unit then None
                               else (let w = v * unit +
                                       (if f > 0 then nat (floor (f64_of (f64_of (of_nat f) *
                                          f64_of (of_nat unit / 10 ^ k)))) else 0)
                                     in if f > 0 \<and> w > 2 ^ 63 then None else Some (w, rest)))))))"

lemma leading_int_length: "leading_int x s = Some (v, r) \<Longrightarrow> length r \<le> length s"
  by (induction x s rule: leading_int.induct) (auto split: option.splits if_splits)

lemma leading_fraction_length: "leading_fraction x k b s = (v, j, r) \<Longrightarrow> length r \<le> length s"
  by (induction x k b s rule: leading_fraction.induct) (auto split: option.splits if_splits)

lemma duration_group_shorter: "duration_group s = Some (w, r) \<Longrightarrow> length r < length s"
proof -
  assume g: "duration_group s = Some (w, r)"
  then obtain v s1 where i: "leading_int 0 s = Some (v, s1)"
    by (auto simp: duration_group_def split: option.splits if_splits)
  define fks where "fks = (if s1 \<noteq> [] \<and> hd s1 = CHR ''.'' then leading_fraction 0 0 False (tl s1) else (0, 0, s1))"
  obtain f k s2 where fks': "fks = (f, k, s2)" by (metis prod_cases3)
  have s2: "length s2 \<le> length s1"
    using fks' leading_fraction_length [of 0 0 False "tl s1" f k s2]
    by (auto simp: fks_def split: if_splits)
  let ?is = "\<lambda>c. c \<noteq> CHR ''.'' \<and> digit_val c = None"
  have "takeWhile ?is s2 \<noteq> [] \<and> r = dropWhile ?is s2"
    using g i fks' unfolding duration_group_def fks_def [symmetric]
    by (auto simp: Let_def fks_def [symmetric] split: option.splits if_splits)
  then have "length r < length s2"
    by (metis append_Nil length_append length_greater_0_conv less_add_same_cancel2 takeWhile_dropWhile_id)
  with s2 leading_int_length [OF i] show ?thesis by simp
qed

function duration_groups :: "nat \<Rightarrow> string \<Rightarrow> nat option" where
  "duration_groups d s =
     (if s = [] then Some d
      else (case duration_group s of
              None \<Rightarrow> None
            | Some (w, rest) \<Rightarrow> if d + w > 2 ^ 63 then None else duration_groups (d + w) rest))"
  by auto
termination
  by (relation "measure (\<lambda>(d, s). length s)") (auto dest: duration_group_shorter)

declare duration_groups.simps [simp del]

definition parse_duration :: "string \<Rightarrow> duration option" where
  "parse_duration s =
     (let neg = (s \<noteq> [] \<and> hd s = CHR ''-''); body = unsigned_part s
      in if body = ''0'' then Some 0
         else if body = [] then None
         else (case duration_groups 0 body of
                 None \<Rightarrow> None
               | Some d \<Rightarrow>
                   (if neg then Some (- int d) else if int d > max_int64 then None else Some (int d))))"

section \<open>internal/validation\<close>

definition maxFlexibleDurationSeconds :: int where
  "maxFlexibleDurationSeconds = max_int64 div second"

definition ParseFlexibleDuration :: "string \<Rightarrow> duration" where
  "ParseFlexibleDuration raw0 =
     (let raw = trim_space raw0
      in if raw = [] then 0
         else (case parse_duration raw of
                 Some d \<Rightarrow> if d > 0 then d else 0
               | None \<Rightarrow>
                   (case parse_int64 raw of
                      None \<Rightarrow> 0
                    | Some secs \<Rightarrow>
                        if secs \<le> 0 \<or> secs > maxFlexibleDurationSeconds then 0 else secs * second)))"

definition ParseWidths :: "string \<Rightarrow> int list" where
  "ParseWidths raw = ParsePositiveIntCSV raw"

definition validatePositiveDuration :: "string \<Rightarrow> bool" where
  "validatePositiveDuration field =
     (let raw = trim_space field
      in if raw = [] then True else (case parse_duration raw of None \<Rightarrow> False | Some d \<Rightarrow> d > 0))"

definition validatePositiveFlexibleDuration :: "string \<Rightarrow> bool" where
  "validatePositiveFlexibleDuration field =
     (let raw = trim_space field in if raw = [] then True else ParseFlexibleDuration raw > 0)"

definition validateWidths :: "string \<Rightarrow> bool" where
  "validateWidths field =
     (let raw = trim_space field in if raw = [] then True else ParseWidths raw \<noteq> [])"

text \<open>\<open>filepath.IsAbs\<close> on a Unix system is a leading slash.\<close>

definition IsRelativePath :: "string \<Rightarrow> bool" where
  "IsRelativePath raw0 =
     (let raw = trim_space raw0
      in if raw = [] then False
         else if has_prefix raw ''/'' \<or> has_prefix raw [CHR 0x5C] then False
         else \<not> path_is_abs raw)"

section \<open>Compression\<close>

record Compression =
  cc_Enable :: bool
  cc_Mode :: string
  cc_CacheDir :: string
  cc_MinSize :: int
  cc_Workers :: int
  cc_QueueSize :: int
  cc_Encodings :: string
  cc_CleanupEvery :: string
  cc_MaxAge :: string
  cc_ImageMaxAge :: string
  cc_EncodingMaxAge :: string
  cc_MaxCacheBytes :: int
  cc_EncodingMaxCacheBytes :: int
  cc_ImageMaxCacheBytes :: int
  cc_BrotliQuality :: int
  cc_ZstdLevel :: int
  cc_GzipLevel :: int

definition CompressionModeOff :: string where "CompressionModeOff = ''off''"
definition CompressionModeLazy :: string where "CompressionModeLazy = ''lazy''"
definition CompressionModeWarmup :: string where "CompressionModeWarmup = ''warmup''"

definition NormalizedMode :: "Compression \<Rightarrow> string" where
  "NormalizedMode c =
     (let mode = to_lower (trim_space (cc_Mode c))
      in if mode = [] \<or> mode = CompressionModeWarmup then CompressionModeWarmup
         else if mode = CompressionModeOff then CompressionModeOff
         else if mode = CompressionModeLazy then CompressionModeLazy
         else CompressionModeWarmup)"

definition PipelineEnabled :: "Compression \<Rightarrow> bool" where
  "PipelineEnabled c \<longleftrightarrow> cc_Enable c \<and> NormalizedMode c \<noteq> CompressionModeOff"

definition QueueCapacity :: "Compression \<Rightarrow> int" where
  "QueueCapacity c =
     (if cc_QueueSize c > 0 then cc_QueueSize c else wrap_int (max (cc_Workers c) 1 * 64))"

definition NormalizedEncodings :: "Compression \<Rightarrow> string list" where
  "NormalizedEncodings c = ResolveNames (cc_Encodings c)"

definition ParsedCleanupInterval :: "Compression \<Rightarrow> duration" where
  "ParsedCleanupInterval c =
     (let raw = trim_space (cc_CleanupEvery c)
      in if raw = [] then 5 * minute
         else (case parse_duration raw of
                 None \<Rightarrow> 5 * minute | Some d \<Rightarrow> if d \<le> 0 then 5 * minute else d))"

definition ParsedMaxAge :: "Compression \<Rightarrow> duration" where
  "ParsedMaxAge c = ParseFlexibleDuration (cc_MaxAge c)"

definition NamespaceMaxAges :: "Compression \<Rightarrow> (string \<rightharpoonup> duration)" where
  "NamespaceMaxAges c =
     (let e = ParseFlexibleDuration (cc_EncodingMaxAge c); i = ParseFlexibleDuration (cc_ImageMaxAge c);
          out = (if e > 0 then Map.empty(''encoding'' \<mapsto> e) else Map.empty)
      in if i > 0 then out(''image'' \<mapsto> i) else out)"

definition NamespaceMaxCacheBytes :: "Compression \<Rightarrow> (string \<rightharpoonup> int)" where
  "NamespaceMaxCacheBytes c =
     (let out = (if cc_EncodingMaxCacheBytes c > 0 then Map.empty(''encoding'' \<mapsto> cc_EncodingMaxCacheBytes c)
                 else Map.empty)
      in if cc_ImageMaxCacheBytes c > 0 then out(''image'' \<mapsto> cc_ImageMaxCacheBytes c) else out)"

section \<open>HTTP and frontend\<close>

record MemoryCache =
  mc_Enable :: bool
  mc_Warmup :: bool
  mc_MaxEntries :: int
  mc_MaxBytes :: int
  mc_MaxFileSize :: int
  mc_TTL :: string

definition ParsedTTL :: "MemoryCache \<Rightarrow> duration" where
  "ParsedTTL c =
     (let raw = trim_space (mc_TTL c)
      in if raw = [] then 5 * minute
         else (case parse_duration raw of
                 None \<Rightarrow> 5 * minute | Some d \<Rightarrow> if d \<le> 0 then 5 * minute else d))"

definition MaxCost :: "MemoryCache \<Rightarrow> int" where
  "MaxCost c =
     (if mc_MaxBytes c > 0 then mc_MaxBytes c
      else if mc_MaxEntries c \<le> 0 \<or> mc_MaxFileSize c \<le> 0 then 0
      else if mc_MaxEntries c > max_int64 div mc_MaxFileSize c then max_int64
      else wrap64 (mc_MaxEntries c * mc_MaxFileSize c))"

definition NumCounters :: "MemoryCache \<Rightarrow> int" where
  "NumCounters c =
     (if mc_MaxEntries c \<le> 0 then 0
      else if mc_MaxEntries c > max_int64 div 10 then max_int64
      else wrap64 (mc_MaxEntries c * 10))"

definition memory_cache_Enabled :: "MemoryCache \<Rightarrow> bool" where
  "memory_cache_Enabled c \<longleftrightarrow>
     mc_Enable c \<and> mc_MaxEntries c > 0 \<and> MaxCost c > 0 \<and> mc_MaxFileSize c > 0 \<and> ParsedTTL c > 0"

definition WarmupEnabled :: "MemoryCache \<Rightarrow> bool" where
  "WarmupEnabled c \<longleftrightarrow> memory_cache_Enabled c \<and> mc_Warmup c"

record ResourceHints =
  rh_Enable :: bool
  rh_EarlyHints :: bool
  rh_MaxLinks :: int
  rh_MaxHeaderBytes :: int

definition LinkLimit :: "ResourceHints \<Rightarrow> int" where
  "LinkLimit h = (if rh_MaxLinks h > 0 then rh_MaxLinks h else 0)"

definition HeaderByteLimit :: "ResourceHints \<Rightarrow> int" where
  "HeaderByteLimit h = (if rh_MaxHeaderBytes h > 0 then rh_MaxHeaderBytes h else 0)"

definition hints_Enabled :: "ResourceHints \<Rightarrow> bool" where
  "hints_Enabled h \<longleftrightarrow> rh_Enable h \<and> LinkLimit h > 0 \<and> HeaderByteLimit h > 0"

record ImmutableCache =
  ic_Enable :: bool
  ic_MaxAge :: string

definition immutable_ParsedMaxAge :: "ImmutableCache \<Rightarrow> duration" where
  "immutable_ParsedMaxAge c = ParseFlexibleDuration (ic_MaxAge c)"

section \<open>Facts\<close>

text \<open>Integers below two to the 53 are doubles, so rounding keeps them.\<close>

lemma f64_of_int:
  assumes "0 \<le> n" "n < 2 ^ 53"
  shows "f64_of (of_int n) = of_int n"
proof (cases "n = 0")
  case False
  have q: "quotient_of (of_int n) = (n, 1)" by (simp add: quotient_of_int)
  have bitlen_1: "bitlen 1 = 1" by (simp add: bitlen_alt_def)
  have b: "bitlen n \<le> 53" using assms False by (simp add: bitlen_le_iff_power)
  have e: "ilog2 (of_int n) \<le> 52"
    using b bitlen_1 by (simp add: ilog2_def q Let_def)
  define e where "e = max (ilog2 (of_int n :: rat)) (-1022)"
  have e52: "e \<le> 52" and "e \<ge> -1022" using e by (auto simp: e_def)
  have ulp: "pow2 (e - 52) = 1 / 2 ^ nat (52 - e)"
    using e52 by (auto simp: pow2_def)
  have z: "(of_int n :: rat) / pow2 (e - 52) = of_int (n * 2 ^ nat (52 - e))"
    by (simp add: ulp)
  have r: "round_half_even (of_int k) = k" for k by (simp add: round_half_even_def Let_def)
  have "(of_int n :: rat) < pow2 1024"
  proof -
    have "(of_int n :: rat) < of_int (2 ^ 53)" using assms(2) by (subst of_int_less_iff)
    also have "\<dots> \<le> pow2 1024" by (simp add: pow2_def)
    finally show ?thesis .
  qed
  moreover have "of_int (round_half_even (of_int n / pow2 (e - 52))) * pow2 (e - 52) = (of_int n :: rat)"
    unfolding z r by (simp add: ulp)
  ultimately show ?thesis
    using False by (simp add: f64_of_def round_f64_def Let_def e_def [symmetric])
qed (simp add: f64_of_def round_f64_def)

lemma parse_duration_range: "parse_duration s = Some d \<Longrightarrow> d \<le> max_int64"
  by (auto simp: parse_duration_def Let_def max_int64_def split: if_splits option.splits)

lemma ParseFlexibleDuration_range_aux: "0 \<le> ParseFlexibleDuration s \<and> ParseFlexibleDuration s \<le> max_int64"
proof -
  have "secs * second \<le> max_int64" if "secs \<le> maxFlexibleDurationSeconds" for secs
  proof -
    have "secs * second \<le> (max_int64 div second) * second"
      using that by (simp add: maxFlexibleDurationSeconds_def second_def)
    also have "\<dots> \<le> max_int64" by (simp add: second_def max_int64_def)
    finally show ?thesis .
  qed
  then show ?thesis
    using parse_duration_range
    by (auto simp: ParseFlexibleDuration_def Let_def second_def max_int64_def split: option.splits)
qed

text \<open>A configured duration, written as a duration or as plain seconds, never overflows or is
  negative; and the cache's cost limit saturates instead of wrapping.\<close>

theorem config_durations_bounded:
  "0 \<le> ParseFlexibleDuration s \<and> ParseFlexibleDuration s \<le> max_int64 \<and>
   0 < ParsedTTL c \<and> 0 < ParsedCleanupInterval d"
  using ParseFlexibleDuration_range_aux [of s]
  by (auto simp: ParsedTTL_def ParsedCleanupInterval_def Let_def minute_def second_def split: option.splits)

lemma int_div_less_iff:
  assumes "0 < (m::int)"
  shows "a div m < e \<longleftrightarrow> a < e * m"
proof
  assume "a div m < e"
  then have "(a div m + 1) * m \<le> e * m" using assms by (intro mult_right_mono) auto
  moreover have "a < (a div m + 1) * m"
  proof -
    have "a = a div m * m + a mod m" by simp
    moreover have "a mod m < m" using assms by (rule pos_mod_bound)
    moreover have "(a div m + 1) * m = a div m * m + m" by (simp only: distrib_right mult_1)
    ultimately show ?thesis by linarith
  qed
  ultimately show "a < e * m" by simp
next
  assume "a < e * m"
  moreover have "a div m * m \<le> a"
  proof -
    have "a = a div m * m + a mod m" by simp
    moreover have "0 \<le> a mod m" using assms by (rule pos_mod_sign)
    ultimately show ?thesis by linarith
  qed
  ultimately have "a div m * m < e * m" by simp
  with assms show "a div m < e" by (simp add: mult_less_cancel_right)
qed

text \<open>The cost limit of the memory cache is the exact product or the maximum, never a wrapped
  product.\<close>

theorem MaxCost_saturates:
  assumes "mc_MaxBytes c \<le> 0" and "0 < mc_MaxEntries c" and "0 < mc_MaxFileSize c"
  shows "MaxCost c = min (mc_MaxEntries c * mc_MaxFileSize c) max_int64"
proof -
  have div: "mc_MaxEntries c > max_int64 div mc_MaxFileSize c \<longleftrightarrow> max_int64 < mc_MaxEntries c * mc_MaxFileSize c"
    by (rule int_div_less_iff [OF assms(3)])
  show ?thesis
  proof (cases "mc_MaxEntries c > max_int64 div mc_MaxFileSize c")
    case True
    with div assms show ?thesis by (simp add: MaxCost_def)
  next
    case False
    with div have le: "mc_MaxEntries c * mc_MaxFileSize c \<le> max_int64" by simp
    moreover have "0 < mc_MaxEntries c * mc_MaxFileSize c" using assms by simp
    ultimately have "wrap64 (mc_MaxEntries c * mc_MaxFileSize c) = mc_MaxEntries c * mc_MaxFileSize c"
      by (intro wrap64_id) (simp_all add: max_int64_def)
    with False assms le show ?thesis by (simp add: MaxCost_def)
  qed
qed

definition example_memory_cache :: MemoryCache where
  "example_memory_cache =
     \<lparr>mc_Enable = True, mc_Warmup = False, mc_MaxEntries = 4294967296, mc_MaxBytes = 0,
      mc_MaxFileSize = 4294967296, mc_TTL = ''1h30m''\<rparr>"

theorem MaxCost_saturates_witness: "MaxCost example_memory_cache = min (4294967296 * 4294967296) max_int64"
  using MaxCost_saturates [of example_memory_cache] by (simp add: example_memory_cache_def)

end
