(* ===== verification/CachePolicy.thy ===== *)
theory CachePolicy
  imports Config Resolver
begin

text \<open>
  The cache policies of \<open>internal/cachepolicy\<close>: which assets go into the in-memory body cache and
  for how long (\<open>memory.go\<close>), how long generated artifacts are kept (\<open>artifact.go\<close>), and which
  \<open>Cache-Control\<close> header a response gets (\<open>response.go\<close>).

  A policy of the code is an interface with one static implementation; it is modelled by that
  implementation, a record.  A range map of the collection library is the list of its \<open>Put\<close>
  calls, the latest first: a later range overrides an earlier one where they overlap.  Every
  resolved asset the program builds carries an asset, so the code's tests for a missing one are
  left out.  \<open>CacheControl\<close> prints whole seconds through a double (\<open>int(d.Seconds())\<close>), which
  \<open>duration_seconds\<close> follows.
\<close>

section \<open>The configuration the policies read\<close>

record runtime_config =
  rc_MemoryCache :: MemoryCache
  rc_Assets :: assets_config
  rc_Compression :: Compression
  rc_ImmutableCache :: ImmutableCache

section \<open>The in-memory body cache\<close>

definition robotsAssetPath :: string where "robotsAssetPath = ''robots.txt''"

datatype MemoryEntryKind = MemoryEntryKindAsset | MemoryEntryKindVariant

datatype MemoryUseCase = MemoryUseCaseServe | MemoryUseCaseWarm | MemoryUseCaseEvent | MemoryUseCaseDirect

record MemoryRequest =
  mr_Path :: string
  mr_AssetPath :: string
  mr_Size :: int
  mr_MediaType :: string
  mr_Encoding :: string
  mr_Format :: string
  mr_Width :: int
  mr_Kind :: MemoryEntryKind
  mr_UseCase :: MemoryUseCase
  mr_RangeRequested :: bool

type_synonym range_map = "(int \<times> int \<times> int) list"

definition range_put :: "int \<Rightarrow> int \<Rightarrow> int \<Rightarrow> range_map \<Rightarrow> range_map" where
  "range_put lo hi v m = (if lo < hi then (lo, hi, v) # m else m)"

definition range_get :: "range_map \<Rightarrow> int \<Rightarrow> int option" where
  "range_get m x = first_some (\<lambda>(lo, hi, v). if lo \<le> x \<and> x < hi then Some v else None) m"

record StaticMemoryPolicy =
  mp_maxFileSize :: int
  mp_baseTTL :: duration
  mp_priorityTTL :: duration
  mp_variantTTL :: duration
  mp_genericTTL :: duration
  mp_smallFileSize :: int
  mp_largeFileSize :: int
  mp_textTTLScheme :: range_map
  mp_priorityPaths :: "string list"

definition clampMemorySize :: "int \<Rightarrow> int \<Rightarrow> int \<Rightarrow> int" where
  "clampMemorySize v lo hi = (if v < lo then lo else if v > hi then hi else v)"

definition clampMemoryTTL :: "duration \<Rightarrow> duration \<Rightarrow> duration \<Rightarrow> duration" where
  "clampMemoryTTL v minTTL maxTTL =
     (if v \<le> 0 then minTTL else if v < minTTL then minTTL
      else if maxTTL > 0 \<and> v > maxTTL then maxTTL else v)"

definition scaleMemoryTTL :: "duration \<Rightarrow> int \<Rightarrow> int \<Rightarrow> duration" where
  "scaleMemoryTTL v numerator denominator =
     (if v \<le> 0 \<or> numerator \<le> 0 \<or> denominator \<le> 0 then v
      else if v > max_int64 div numerator then max_int64
      else wrap64 (v * numerator) div denominator)"

definition memoryExclusiveUpperBound :: "int \<Rightarrow> int" where
  "memoryExclusiveUpperBound n = (if n \<ge> max_int64 then max_int64 else n + 1)"

definition memoryClampToBounds :: "int \<Rightarrow> int" where
  "memoryClampToBounds n = (if n < 1 then 1 else n)"

definition memorySmallFileSize :: "int \<Rightarrow> int" where
  "memorySmallFileSize maxFileSize =
     (if maxFileSize \<le> 0 then 0
      else clampMemorySize (max 1 (maxFileSize div 4)) 1024 maxFileSize)"

definition memoryLargeFileSize :: "int \<Rightarrow> int" where
  "memoryLargeFileSize maxFileSize =
     (if maxFileSize \<le> 0 then 0
      else min (max 1 (maxFileSize - maxFileSize div 4)) maxFileSize)"

definition newMemoryTextTTLScheme :: "int \<Rightarrow> range_map" where
  "newMemoryTextTTLScheme maxFileSize =
     (if maxFileSize \<le> 0 then []
      else (let maxExclusive = memoryExclusiveUpperBound maxFileSize;
                m1 = range_put 1 maxExclusive 1000 [];
                small = memorySmallFileSize maxFileSize;
                m2 = (if small > 0
                      then range_put 1 (min (memoryExclusiveUpperBound (memoryClampToBounds small)) maxExclusive) 1250 m1
                      else m1);
                large = memoryLargeFileSize maxFileSize
            in if large > 0 then range_put large maxExclusive 500 m2 else m2))"

definition memoryPriorityPaths :: "runtime_config \<Rightarrow> string list" where
  "memoryPriorityPaths cfg =
     [trim_space (cfg_Entry (rc_Assets cfg)), trim_space (cfg_FallbackTarget (rc_Assets cfg)), robotsAssetPath]"

definition emptyMemoryPolicy :: StaticMemoryPolicy where
  "emptyMemoryPolicy =
     \<lparr> mp_maxFileSize = 0, mp_baseTTL = 0, mp_priorityTTL = 0, mp_variantTTL = 0, mp_genericTTL = 0,
       mp_smallFileSize = 0, mp_largeFileSize = 0, mp_textTTLScheme = [], mp_priorityPaths = [] \<rparr>"

definition NewMemoryPolicy :: "runtime_config option \<Rightarrow> StaticMemoryPolicy" where
  "NewMemoryPolicy cfg0 =
     (case cfg0 of
        None \<Rightarrow> emptyMemoryPolicy
      | Some cfg \<Rightarrow>
          (let baseTTL = ParsedTTL (rc_MemoryCache cfg); maxFile = mc_MaxFileSize (rc_MemoryCache cfg)
           in \<lparr> mp_maxFileSize = maxFile,
                mp_baseTTL = baseTTL,
                mp_priorityTTL = clampMemoryTTL (scaleMemoryTTL baseTTL 2 1) baseTTL (30 * minute),
                mp_variantTTL = clampMemoryTTL (scaleMemoryTTL baseTTL 3 2) baseTTL (20 * minute),
                mp_genericTTL = clampMemoryTTL (baseTTL div 2) minute baseTTL,
                mp_smallFileSize = memorySmallFileSize maxFile,
                mp_largeFileSize = memoryLargeFileSize maxFile,
                mp_textTTLScheme = newMemoryTextTTLScheme maxFile,
                mp_priorityPaths = memoryPriorityPaths cfg \<rparr>))"

definition memorySubjectPath :: "MemoryRequest \<Rightarrow> string" where
  "memorySubjectPath r =
     (let subject = trim_space (mr_AssetPath r) in if subject \<noteq> [] then subject else trim_space (mr_Path r))"

definition isPriorityPath :: "StaticMemoryPolicy \<Rightarrow> MemoryRequest \<Rightarrow> bool" where
  "isPriorityPath p r \<longleftrightarrow> memorySubjectPath r \<in> set (mp_priorityPaths p)"

definition isVariant :: "MemoryRequest \<Rightarrow> bool" where
  "isVariant r \<longleftrightarrow>
     (if mr_Kind r = MemoryEntryKindVariant then True
      else trim_space (mr_Encoding r) \<noteq> [] \<or> trim_space (mr_Format r) \<noteq> [] \<or> mr_Width r > 0)"

definition isTextLikeRequest :: "MemoryRequest \<Rightarrow> bool" where
  "isTextLikeRequest r \<longleftrightarrow>
     (if IsTextLikeMediaType (mr_MediaType r) then True
      else IsTextLikeFileExtension (memorySubjectPath r))"

definition adjustTTLForSize :: "StaticMemoryPolicy \<Rightarrow> duration \<Rightarrow> int \<Rightarrow> duration" where
  "adjustTTLForSize p ttl n =
     (if ttl \<le> 0 then ttl
      else if n \<le> 0 then ttl
      else (case range_get (mp_textTTLScheme p) n of
              Some multiplier \<Rightarrow> scaleMemoryTTL ttl multiplier 1000
            | None \<Rightarrow> ttl))"

definition ShouldServe :: "StaticMemoryPolicy \<Rightarrow> MemoryRequest \<Rightarrow> bool" where
  "ShouldServe p r \<longleftrightarrow>
     (if mr_RangeRequested r then False else mr_Size r \<ge> 0 \<and> mr_Size r \<le> mp_maxFileSize p)"

definition ShouldWarm :: "StaticMemoryPolicy \<Rightarrow> MemoryRequest \<Rightarrow> bool" where
  "ShouldWarm p r \<longleftrightarrow>
     (if \<not> ShouldServe p r then False
      else if isPriorityPath p r then True
      else if mr_UseCase r = MemoryUseCaseEvent then isVariant r
      else if isVariant r then mr_Size r \<le> mp_largeFileSize p
      else if \<not> isTextLikeRequest r then False
      else mr_Size r \<le> mp_smallFileSize p \<or> mr_Size r \<le> 0)"

definition TTL :: "StaticMemoryPolicy \<Rightarrow> MemoryRequest \<Rightarrow> duration" where
  "TTL p r =
     (if \<not> ShouldServe p r then 0
      else if isPriorityPath p r then mp_priorityTTL p
      else if isVariant r then mp_variantTTL p
      else if isTextLikeRequest r then adjustTTLForSize p (mp_baseTTL p) (mr_Size r)
      else mp_genericTTL p)"

section \<open>Generated artifacts\<close>

record CompressionArtifactPolicy =
  ap_defaultMaxAge :: duration
  ap_namespaceMaxAge :: "string \<rightharpoonup> duration"
  ap_maxCacheBytes :: int
  ap_namespaceMaxCacheBytes :: "string \<rightharpoonup> int"

definition artifactNamespaceEncoding :: string where "artifactNamespaceEncoding = ''encoding''"
definition artifactNamespaceImage :: string where "artifactNamespaceImage = ''image''"

definition resolveNamespaceMaxAge :: "(string \<rightharpoonup> duration) \<Rightarrow> string \<Rightarrow> duration \<Rightarrow> duration" where
  "resolveNamespaceMaxAge m ns fallback =
     (case m ns of Some maxAge \<Rightarrow> if maxAge > 0 then maxAge else fallback | None \<Rightarrow> fallback)"

definition variantNamespace :: "Variant \<Rightarrow> string" where
  "variantNamespace v =
     (if trim_space (v_Encoding v) \<noteq> [] then artifactNamespaceEncoding
      else if v_Width v > 0 \<or> trim_space (v_Format v) \<noteq> [] then artifactNamespaceImage
      else [])"

definition NewArtifactPolicy :: "Compression option \<Rightarrow> CompressionArtifactPolicy" where
  "NewArtifactPolicy cfg0 =
     (case cfg0 of
        None \<Rightarrow> \<lparr> ap_defaultMaxAge = 0, ap_namespaceMaxAge = Map.empty, ap_maxCacheBytes = 0,
                  ap_namespaceMaxCacheBytes = Map.empty \<rparr>
      | Some cfg \<Rightarrow>
          \<lparr> ap_defaultMaxAge = ParsedMaxAge cfg, ap_namespaceMaxAge = NamespaceMaxAges cfg,
            ap_maxCacheBytes = cc_MaxCacheBytes cfg,
            ap_namespaceMaxCacheBytes = NamespaceMaxCacheBytes cfg \<rparr>)"

definition artifact_Enabled :: "CompressionArtifactPolicy \<Rightarrow> bool" where
  "artifact_Enabled p \<longleftrightarrow>
     ap_defaultMaxAge p > 0 \<or> ap_namespaceMaxAge p \<noteq> Map.empty \<or>
     ap_namespaceMaxCacheBytes p \<noteq> Map.empty \<or> ap_maxCacheBytes p > 0"

definition MaxAge :: "CompressionArtifactPolicy \<Rightarrow> string \<Rightarrow> duration" where
  "MaxAge p ns = resolveNamespaceMaxAge (ap_namespaceMaxAge p) ns (ap_defaultMaxAge p)"

definition MaxCacheBytesForNamespace :: "CompressionArtifactPolicy \<Rightarrow> string \<Rightarrow> int" where
  "MaxCacheBytesForNamespace p ns0 =
     (let ns = trim_space ns0
      in (case ap_namespaceMaxCacheBytes p ns of
            Some maxBytes \<Rightarrow> if maxBytes > 0 then maxBytes else ap_maxCacheBytes p
          | None \<Rightarrow> ap_maxCacheBytes p))"

text \<open>\<open>time.Time.Sub\<close>, which saturates.\<close>

definition time_sub :: "time \<Rightarrow> time \<Rightarrow> duration" where
  "time_sub a b = max (- (2 ^ 63)) (min max_int64 (a - b))"

definition ShouldRemoveExpired :: "CompressionArtifactPolicy \<Rightarrow> string \<Rightarrow> time \<Rightarrow> time \<Rightarrow> bool" where
  "ShouldRemoveExpired p ns lastUsed now =
     (let maxAge = MaxAge p ns in maxAge > 0 \<and> time_sub now lastUsed > maxAge)"

section \<open>Runes\<close>

text \<open>Ranging over a Go string decodes UTF-8; a byte that starts no valid encoding is the rune U+FFFD.\<close>

definition cont_byte :: "nat \<Rightarrow> nat \<Rightarrow> nat \<Rightarrow> bool" where
  "cont_byte lo hi b \<longleftrightarrow> lo \<le> b \<and> b \<le> hi"

definition decode_rune :: "nat list \<Rightarrow> nat \<times> nat" where
  "decode_rune bs =
     (let b0 = bs ! 0; b1 = (if length bs > 1 then bs ! 1 else 0);
          b2 = (if length bs > 2 then bs ! 2 else 0); b3 = (if length bs > 3 then bs ! 3 else 0);
          lo = (if b0 = 0xE0 then 0xA0 else if b0 = 0xF0 then 0x90 else 0x80);
          hi = (if b0 = 0xED then 0x9F else if b0 = 0xF4 then 0x8F else 0xBF)
      in if b0 < 0x80 then (b0, 1)
         else if 0xC2 \<le> b0 \<and> b0 \<le> 0xDF \<and> cont_byte 0x80 0xBF b1 then
           ((b0 - 0xC0) * 64 + (b1 - 0x80), 2)
         else if 0xE0 \<le> b0 \<and> b0 \<le> 0xEF \<and> cont_byte lo hi b1 \<and> cont_byte 0x80 0xBF b2 then
           ((b0 - 0xE0) * 4096 + (b1 - 0x80) * 64 + (b2 - 0x80), 3)
         else if 0xF0 \<le> b0 \<and> b0 \<le> 0xF4 \<and> cont_byte lo hi b1 \<and> cont_byte 0x80 0xBF b2 \<and>
                 cont_byte 0x80 0xBF b3 then
           ((b0 - 0xF0) * 262144 + (b1 - 0x80) * 4096 + (b2 - 0x80) * 64 + (b3 - 0x80), 4)
         else (0xFFFD, 1))"

lemma snd_if_pos: "0 < snd a \<Longrightarrow> 0 < snd b \<Longrightarrow> 0 < snd (if c then a else (b :: 'a \<times> nat))"
  by simp

lemma decode_rune_width: "0 < snd (decode_rune bs)"
  unfolding decode_rune_def Let_def by (intro snd_if_pos) (simp_all only: snd_conv zero_less_one zero_less_numeral)

function runes_of :: "nat list \<Rightarrow> nat list" where
  "runes_of bs = (if bs = [] then [] else (let (r, w) = decode_rune bs in r # runes_of (drop w bs)))"
  by auto
termination
proof (relation "measure length", goal_cases)
  case (2 bs x r w)
  have "snd (decode_rune bs) = w" using 2 by (metis snd_conv)
  with decode_rune_width [of bs] 2(1) show ?case by simp
qed simp

declare runes_of.simps [simp del]

definition runes :: "string \<Rightarrow> nat list" where
  "runes s = runes_of (map of_char s)"

text \<open>The classes of the package \<open>unicode\<close>; its tables for the runes beyond ASCII are a parameter.\<close>

record unicode_tables =
  uc_letter :: "nat \<Rightarrow> bool"
  uc_digit :: "nat \<Rightarrow> bool"
  uc_upper :: "nat \<Rightarrow> bool"

definition is_digit_rune :: "unicode_tables \<Rightarrow> nat \<Rightarrow> bool" where
  "is_digit_rune uc r = (if r < 0x80 then 48 \<le> r \<and> r \<le> 57 else uc_digit uc r)"

definition is_upper_rune :: "unicode_tables \<Rightarrow> nat \<Rightarrow> bool" where
  "is_upper_rune uc r = (if r < 0x80 then 65 \<le> r \<and> r \<le> 90 else uc_upper uc r)"

definition is_letter_rune :: "unicode_tables \<Rightarrow> nat \<Rightarrow> bool" where
  "is_letter_rune uc r = (if r < 0x80 then (65 \<le> r \<and> r \<le> 90) \<or> (97 \<le> r \<and> r \<le> 122) else uc_letter uc r)"

section \<open>Fingerprinted asset paths\<close>

definition isHexDigit :: "nat \<Rightarrow> bool" where
  "isHexDigit c =
     (if 48 \<le> c \<and> c \<le> 57 then True else if 97 \<le> c \<and> c \<le> 102 then True else 65 \<le> c \<and> c \<le> 70)"

fun fingerprint_scan :: "unicode_tables \<Rightarrow> bool \<Rightarrow> bool \<Rightarrow> nat list \<Rightarrow> bool" where
  "fingerprint_scan uc hasSignal hexOnly [] = (hasSignal \<or> hexOnly)"
| "fingerprint_scan uc hasSignal hexOnly (c # cs) =
     (if \<not> is_letter_rune uc c \<and> \<not> is_digit_rune uc c then False
      else fingerprint_scan uc (hasSignal \<or> is_upper_rune uc c \<or> is_digit_rune uc c)
             (hexOnly \<and> isHexDigit c) cs)"

definition fingerprintSegmentPassesScan :: "unicode_tables \<Rightarrow> string \<Rightarrow> bool" where
  "fingerprintSegmentPassesScan uc segment = fingerprint_scan uc False True (runes segment)"

definition isFingerprintSegment :: "unicode_tables \<Rightarrow> string \<Rightarrow> bool" where
  "isFingerprintSegment uc segment =
     (if length segment < 8 then False else fingerprintSegmentPassesScan uc segment)"

text \<open>The text behind the last separator of a stem: \<open>LastIndexAny(stem, ".-_")\<close> and the slice after it.\<close>

definition is_stem_separator :: "char \<Rightarrow> bool" where
  "is_stem_separator c \<longleftrightarrow> c = CHR ''.'' \<or> c = CHR ''-'' \<or> c = CHR ''_''"

definition last_stem_segment :: "string \<Rightarrow> string option" where
  "last_stem_segment stem =
     (if \<exists>c\<in>set stem. is_stem_separator c
      then Some (rev (takeWhile (\<lambda>c. \<not> is_stem_separator c) (rev stem))) else None)"

definition IsFingerprintAssetPath :: "unicode_tables \<Rightarrow> string \<Rightarrow> bool" where
  "IsFingerprintAssetPath uc assetPath =
     (let base = path_base (trim_space assetPath); ext = path_ext base
      in if base = ''.'' \<or> ext = [] then False
         else (let stem = trim_suffix base ext;
                   ext2 = (if ext = ''.map'' then path_ext stem else ext);
                   stem2 = (if ext = ''.map'' then trim_suffix stem ext2 else stem)
               in if ext2 = [] then False
                  else (case last_stem_segment stem2 of
                          None \<Rightarrow> False
                        | Some segment \<Rightarrow> if segment = [] then False else isFingerprintSegment uc segment)))"

section \<open>Cache-Control\<close>

definition RevalidateCacheControl :: string where
  "RevalidateCacheControl = ''public, max-age=0, must-revalidate''"

definition HTMLRevalidateCacheControl :: string where
  "HTMLRevalidateCacheControl = ''no-cache, max-age=0, must-revalidate''"

record immutableAssetPolicy =
  im_enabled :: bool
  im_maxAge :: duration

record StaticResponsePolicy =
  rp_defaultMaxAge :: duration
  rp_namespaceMaxAge :: "string \<rightharpoonup> duration"
  rp_immutable :: immutableAssetPolicy

definition newStaticResponsePolicy :: "Compression option \<Rightarrow> immutableAssetPolicy \<Rightarrow> StaticResponsePolicy" where
  "newStaticResponsePolicy cfg0 imm =
     (case cfg0 of
        None \<Rightarrow> \<lparr> rp_defaultMaxAge = 0, rp_namespaceMaxAge = Map.empty, rp_immutable = imm \<rparr>
      | Some cfg \<Rightarrow> \<lparr> rp_defaultMaxAge = ParsedMaxAge cfg, rp_namespaceMaxAge = NamespaceMaxAges cfg,
                      rp_immutable = imm \<rparr>)"

definition no_immutable :: immutableAssetPolicy where
  "no_immutable = \<lparr> im_enabled = False, im_maxAge = 0 \<rparr>"

definition NewResponsePolicy :: "Compression option \<Rightarrow> StaticResponsePolicy" where
  "NewResponsePolicy cfg = newStaticResponsePolicy cfg no_immutable"

definition NewResponsePolicyFromConfig :: "runtime_config option \<Rightarrow> StaticResponsePolicy" where
  "NewResponsePolicyFromConfig cfg0 =
     (case cfg0 of
        None \<Rightarrow> newStaticResponsePolicy None no_immutable
      | Some cfg \<Rightarrow>
          newStaticResponsePolicy (Some (rc_Compression cfg))
            \<lparr> im_enabled = ic_Enable (rc_ImmutableCache cfg),
              im_maxAge = immutable_ParsedMaxAge (rc_ImmutableCache cfg) \<rparr>)"

definition isHTMLResponse :: "Result \<Rightarrow> bool" where
  "isHTMLResponse r =
     (if equal_fold (path_ext (a_Path (rs_Asset r))) ''.html'' then True
      else (let m = trim_space (if a_MediaType (rs_Asset r) \<noteq> [] then a_MediaType (rs_Asset r)
                                else rs_MediaType r);
                html = ''text/html''
            in if length m < length html \<or> \<not> equal_fold (take (length html) m) html then False
               else length m = length html \<or> m ! length html = CHR '';'' \<or> m ! length html = CHR '' ''))"

text \<open>\<open>int(d.Seconds())\<close> for a positive duration.\<close>

definition duration_seconds :: "duration \<Rightarrow> int" where
  "duration_seconds d =
     floor (f64_of (f64_of (of_int (d div second)) + f64_of (of_int (d mod second) / 1000000000)))"

definition immutable_header :: "duration \<Rightarrow> string" where
  "immutable_header maxAge = ''public, max-age='' @ itoa (duration_seconds maxAge) @ '', immutable''"

definition variantMaxAge :: "StaticResponsePolicy \<Rightarrow> Variant \<Rightarrow> duration" where
  "variantMaxAge p v =
     (if variantNamespace v = artifactNamespaceEncoding then
        resolveNamespaceMaxAge (rp_namespaceMaxAge p) artifactNamespaceEncoding (rp_defaultMaxAge p)
      else if variantNamespace v = artifactNamespaceImage then
        resolveNamespaceMaxAge (rp_namespaceMaxAge p) artifactNamespaceImage 0
      else 0)"

definition assetCacheControl :: "unicode_tables \<Rightarrow> StaticResponsePolicy \<Rightarrow> Result \<Rightarrow> string" where
  "assetCacheControl uc p r =
     (if \<not> im_enabled (rp_immutable p) \<or> \<not> IsFingerprintAssetPath uc (a_Path (rs_Asset r))
      then RevalidateCacheControl
      else if im_maxAge (rp_immutable p) \<le> 0 then RevalidateCacheControl
      else immutable_header (im_maxAge (rp_immutable p)))"

definition CacheControl :: "unicode_tables \<Rightarrow> StaticResponsePolicy \<Rightarrow> Result option \<Rightarrow> string" where
  "CacheControl uc p result =
     (case result of
        None \<Rightarrow> RevalidateCacheControl
      | Some r \<Rightarrow>
          (if rs_FallbackUsed r \<or> isHTMLResponse r then HTMLRevalidateCacheControl
           else if IsFingerprintAssetPath uc (a_Path (rs_Asset r)) then assetCacheControl uc p r
           else (case rs_Variant r of
                   None \<Rightarrow> RevalidateCacheControl
                 | Some v \<Rightarrow>
                     (let maxAge = variantMaxAge p v
                      in if maxAge \<le> 0 then RevalidateCacheControl else immutable_header maxAge))))"

definition cacheControlDuration :: "int \<Rightarrow> duration option" where
  "cacheControlDuration seconds =
     (if seconds > max_int64 div second then None else Some (seconds * second))"

function cacheControlMaxAge :: "string \<Rightarrow> duration option" where
  "cacheControlMaxAge remaining =
     (let (part, rest, found) = cut CHR '','' remaining;
          directive = trim_space part;
          (key, val, hasValue) = cut CHR ''='' directive
      in if hasValue \<and> equal_fold (trim_space key) ''max-age'' then
           (case parse_int64 (trim_space val) of
              None \<Rightarrow> None
            | Some seconds \<Rightarrow> if seconds < 0 then None else cacheControlDuration seconds)
         else if \<not> found then None
         else cacheControlMaxAge rest)"
  by auto
termination
  by (relation "measure length") (auto dest!: sym [THEN cut_found_length])

declare cacheControlMaxAge.simps [simp del]

definition ExpiresAt :: "time \<Rightarrow> string \<Rightarrow> time option" where
  "ExpiresAt now cacheControl =
     (case cacheControlMaxAge cacheControl of None \<Rightarrow> None | Some maxAge \<Rightarrow> Some (now + maxAge))"

section \<open>What the header announces\<close>

lemma trim_space_max_age: "0 \<le> n \<Longrightarrow> trim_space (''max-age='' @ itoa n) = ''max-age='' @ itoa n"
proof (rule trim_space_id, rule is_trimmed_graphic)
  show "graphic (hd (''max-age='' @ itoa n))" by (simp add: graphic_def)
  show "0 \<le> n \<Longrightarrow> graphic (last (''max-age='' @ itoa n))" using itoa_graphic by simp
qed simp

lemma cacheControlMaxAge_skip:
  assumes "CHR '','' \<notin> set a" and "CHR ''='' \<notin> set a"
  shows "cacheControlMaxAge (a @ CHR '','' # b) = cacheControlMaxAge b"
proof -
  have "CHR ''='' \<notin> set (trim_space a)" using assms set_trim_space_subset by blast
  then show ?thesis
    by (simp add: cacheControlMaxAge.simps [of "a @ CHR '','' # b"] cut_append [OF assms(1)] cut_notin)
qed

lemma cacheControlMaxAge_max_age:
  assumes "0 \<le> n" and "n < 2 ^ 63"
  shows "cacheControlMaxAge ('' max-age='' @ itoa n @ CHR '','' # b) = cacheControlDuration n"
proof -
  have c1: "cut CHR '','' ('' max-age='' @ itoa n @ CHR '','' # b) = ('' max-age='' @ itoa n, b, True)"
    using cut_append [of "CHR '',''" "'' max-age='' @ itoa n" b] itoa_graphic [OF assms(1)] by auto
  have t: "trim_space ('' max-age='' @ itoa n) = ''max-age='' @ itoa n"
    using trim_space_max_age [OF assms(1)] trim_space_blank [of "''max-age='' @ itoa n"] by simp
  have c2: "cut CHR ''='' (''max-age='' @ itoa n) = (''max-age'', itoa n, True)"
    using cut_append [of "CHR ''=''" "''max-age''" "itoa n"] by simp
  have e: "equal_fold (trim_space ''max-age'') ''max-age''"
    by code_simp
  have "trim_space (itoa n) = itoa n" using is_trimmed_itoa [OF assms(1)] by simp
  then show ?thesis
    unfolding cacheControlMaxAge.simps [of "'' max-age='' @ itoa n @ CHR '','' # b"]
    using c1 t c2 e parse_int64_itoa [OF assms] assms(1) by (simp add: Let_def)
qed

lemma cacheControlMaxAge_immutable:
  assumes "0 \<le> duration_seconds d" and "duration_seconds d < 2 ^ 63"
  shows "cacheControlMaxAge (immutable_header d) = cacheControlDuration (duration_seconds d)"
  using cacheControlMaxAge_skip [of "''public''" "'' max-age='' @ itoa (duration_seconds d) @ '', immutable''"]
    cacheControlMaxAge_max_age [OF assms, of "'' immutable''"]
  by (simp add: immutable_header_def)

lemma cacheControlMaxAge_revalidate:
  "cacheControlMaxAge RevalidateCacheControl = Some 0"
  "cacheControlMaxAge HTMLRevalidateCacheControl = Some 0"
proof -
  have "itoa 0 = ''0''" by code_simp
  then show "cacheControlMaxAge RevalidateCacheControl = Some 0"
    "cacheControlMaxAge HTMLRevalidateCacheControl = Some 0"
    using cacheControlMaxAge_skip [of "''public''" "'' max-age=0, must-revalidate''"]
      cacheControlMaxAge_skip [of "''no-cache''" "'' max-age=0, must-revalidate''"]
      cacheControlMaxAge_max_age [of 0 "'' must-revalidate''"]
    by (simp_all add: RevalidateCacheControl_def HTMLRevalidateCacheControl_def cacheControlDuration_def
        max_int64_def second_def)
qed

lemma duration_seconds_whole:
  assumes "0 \<le> d" and "d \<le> max_int64" and "d mod second = 0"
  shows "duration_seconds d = d div second"
proof -
  have d: "0 \<le> d div second" "d div second < 2 ^ 53"
    using assms by (simp_all add: second_def max_int64_def)
  have "f64_of 0 = 0" by (simp add: f64_of_def round_f64_def)
  with f64_of_int [OF d] assms(3) show ?thesis by (simp add: duration_seconds_def)
qed

definition whole_seconds :: "duration \<Rightarrow> bool" where
  "whole_seconds d \<longleftrightarrow> 0 \<le> d \<and> d \<le> max_int64 \<and> d mod second = 0"

lemma cacheControlMaxAge_whole:
  assumes "whole_seconds d"
  shows "cacheControlMaxAge (immutable_header d) = Some d"
proof -
  have s: "duration_seconds d = d div second"
    using assms duration_seconds_whole by (simp add: whole_seconds_def)
  have bounds: "0 \<le> d div second" "d div second \<le> max_int64 div second"
    using assms by (auto simp: whole_seconds_def second_def zdiv_mono1 pos_imp_zdiv_nonneg_iff)
  then have "d div second < 2 ^ 63" by (simp add: second_def max_int64_def)
  moreover have "d div second * second = d" using assms by (auto simp: whole_seconds_def)
  ultimately show ?thesis
    using cacheControlMaxAge_immutable [of d] bounds s by (simp add: cacheControlDuration_def)
qed

text \<open>The age a policy grants a response: what the header must announce.\<close>

definition granted_age :: "unicode_tables \<Rightarrow> StaticResponsePolicy \<Rightarrow> Result option \<Rightarrow> duration" where
  "granted_age uc p result =
     (case result of
        None \<Rightarrow> 0
      | Some r \<Rightarrow>
          if rs_FallbackUsed r \<or> isHTMLResponse r then 0
          else if IsFingerprintAssetPath uc (a_Path (rs_Asset r)) then
            (if im_enabled (rp_immutable p) then max 0 (im_maxAge (rp_immutable p)) else 0)
          else (case rs_Variant r of None \<Rightarrow> 0 | Some v \<Rightarrow> max 0 (variantMaxAge p v)))"

definition policy_whole_seconds :: "StaticResponsePolicy \<Rightarrow> bool" where
  "policy_whole_seconds p \<longleftrightarrow>
     whole_seconds (rp_defaultMaxAge p) \<and> whole_seconds (im_maxAge (rp_immutable p)) \<and>
     (\<forall>a\<in>ran (rp_namespaceMaxAge p). whole_seconds a)"

lemma resolveNamespaceMaxAge_cases:
  "resolveNamespaceMaxAge m ns fb = fb \<or> resolveNamespaceMaxAge m ns fb \<in> ran m"
  by (auto simp: resolveNamespaceMaxAge_def ran_def split: option.splits)

lemma variantMaxAge_whole: "policy_whole_seconds p \<Longrightarrow> whole_seconds (variantMaxAge p v)"
  using resolveNamespaceMaxAge_cases [of "rp_namespaceMaxAge p" artifactNamespaceEncoding "rp_defaultMaxAge p"]
    resolveNamespaceMaxAge_cases [of "rp_namespaceMaxAge p" artifactNamespaceImage 0]
  by (auto simp: policy_whole_seconds_def variantMaxAge_def whole_seconds_def)

lemma CacheControl_granted:
  "CacheControl uc p result =
     (if 0 < granted_age uc p result then immutable_header (granted_age uc p result)
      else if \<exists>r. result = Some r \<and> (rs_FallbackUsed r \<or> isHTMLResponse r) then HTMLRevalidateCacheControl
      else RevalidateCacheControl)"
  by (simp add: CacheControl_def granted_age_def assetCacheControl_def Let_def max_def split: option.splits)

lemma granted_age_whole: "policy_whole_seconds p \<Longrightarrow> whole_seconds (granted_age uc p result)"
  using variantMaxAge_whole [of p]
  by (auto simp: granted_age_def policy_whole_seconds_def whole_seconds_def max_def max_int64_def split: option.splits)

definition example_response_policy :: StaticResponsePolicy where
  "example_response_policy =
     \<lparr> rp_defaultMaxAge = hour, rp_namespaceMaxAge = Map.empty(''image'' \<mapsto> 2 * hour),
       rp_immutable = \<lparr> im_enabled = True, im_maxAge = 24 * hour \<rparr> \<rparr>"

definition ascii_tables :: unicode_tables where
  "ascii_tables = \<lparr> uc_letter = (\<lambda>_. False), uc_digit = (\<lambda>_. False), uc_upper = (\<lambda>_. False) \<rparr>"

definition example_result :: "string \<Rightarrow> Result" where
  "example_result p =
     \<lparr> rs_Asset = \<lparr> a_Path = p, a_FullPath = p, a_Size = 10, a_MediaType = ''text/javascript'',
         a_SourceHash = [], a_ETag = [], a_Metadata = Map.empty \<rparr>,
       rs_Variant = Some \<lparr> v_ID = [], v_AssetPath = p, v_ArtifactPath = ''x.gz'', v_Size = 5,
         v_MediaType = [], v_SourceHash = [], v_ETag = [], v_Encoding = ''gzip'', v_Format = [],
         v_Width = 0, v_Metadata = Map.empty \<rparr>,
       rs_FilePath = p, rs_MediaType = ''text/javascript'', rs_ContentEncoding = ''gzip'', rs_ETag = [],
       rs_PreferredEncodings = None, rs_PreferredWidths = None, rs_PreferredFormats = None,
       rs_FallbackUsed = False \<rparr>"

text \<open>The header announces exactly the age the policy grants, and only a positive age, which the
  fallback page, HTML and unvaried plain assets never get, is announced as immutable.\<close>

theorem CacheControl_roundtrip:
  assumes "policy_whole_seconds p"
  shows "cacheControlMaxAge (CacheControl uc p result) = Some (granted_age uc p result) \<and>
    (has_suffix (CacheControl uc p result) '', immutable'' \<longleftrightarrow> 0 < granted_age uc p result)"
proof -
  have suf: "has_suffix (immutable_header a) '', immutable''" for a
    by (simp add: immutable_header_def gostr suffix_def)
  have no: "\<not> has_suffix RevalidateCacheControl '', immutable''"
    "\<not> has_suffix HTMLRevalidateCacheControl '', immutable''"
    by code_simp+
  have "granted_age uc p result = 0" if "\<not> 0 < granted_age uc p result"
    using that granted_age_whole [OF assms, of uc result] by (simp add: whole_seconds_def)
  then show ?thesis
    using cacheControlMaxAge_whole [OF granted_age_whole [OF assms, of uc result]] suf no
      cacheControlMaxAge_revalidate
    by (simp add: CacheControl_granted)
qed

theorem CacheControl_roundtrip_witness:
  "cacheControlMaxAge (CacheControl ascii_tables example_response_policy (Some (example_result ''js/app-1a2b3c4d.js''))) =
     Some (24 * hour) \<and>
   cacheControlMaxAge (CacheControl ascii_tables example_response_policy (Some (example_result ''js/app.js''))) =
     Some hour"
proof -
  have ok: "policy_whole_seconds example_response_policy"
    by (simp add: policy_whole_seconds_def example_response_policy_def whole_seconds_def hour_def second_def
        max_int64_def ran_def)
  have "granted_age ascii_tables example_response_policy (Some (example_result ''js/app-1a2b3c4d.js'')) = 24 * hour"
    "granted_age ascii_tables example_response_policy (Some (example_result ''js/app.js'')) = hour"
    by code_simp+
  with CacheControl_roundtrip [OF ok, of ascii_tables] show ?thesis by simp
qed

section \<open>The lifetime of a memory entry\<close>

lemma scaleMemoryTTL_exact:
  assumes "0 < b" and "0 < n" and "0 < d" and "b \<le> max_int64 div n"
  shows "scaleMemoryTTL b n d = b * n div d"
proof -
  have "b * n \<le> max_int64 div n * n" using assms(2,4) by (intro mult_right_mono) auto
  also have "\<dots> \<le> max_int64" using div_mult_mod_eq [of max_int64 n] pos_mod_sign [OF assms(2), of max_int64] by linarith
  finally have "b * n \<le> max_int64" .
  moreover have "0 < b * n" using assms by simp
  ultimately have "wrap64 (b * n) = b * n" by (simp add: wrap64_def max_int64_def)
  with assms show ?thesis by (simp add: scaleMemoryTTL_def)
qed

lemma scaleMemoryTTL_saturates:
  "0 < b \<Longrightarrow> 0 < n \<Longrightarrow> 0 < d \<Longrightarrow> max_int64 div n < b \<Longrightarrow> scaleMemoryTTL b n d = max_int64"
  by (simp add: scaleMemoryTTL_def)

lemma ParsedTTL_range: "0 < ParsedTTL c \<and> ParsedTTL c \<le> max_int64"
  using parse_duration_range
  by (auto simp: ParsedTTL_def Let_def minute_def second_def max_int64_def split: option.splits)

lemma priorityTTL_eq: "mp_priorityTTL (NewMemoryPolicy (Some cfg)) = min (2 * ParsedTTL (rc_MemoryCache cfg)) (30 * minute)"
proof -
  define b where "b = ParsedTTL (rc_MemoryCache cfg)"
  have b: "0 < b" "b \<le> max_int64" using ParsedTTL_range by (simp_all add: b_def)
  show ?thesis
  proof (cases "b \<le> max_int64 div 2")
    case True
    with scaleMemoryTTL_exact [of b 2 1] b show ?thesis
      by (simp add: NewMemoryPolicy_def Let_def b_def [symmetric] clampMemoryTTL_def minute_def second_def)
  next
    case False
    with scaleMemoryTTL_saturates [of b 2 1] b show ?thesis
      by (simp add: NewMemoryPolicy_def Let_def b_def [symmetric] clampMemoryTTL_def minute_def second_def max_int64_def)
  qed
qed

lemma variantTTL_eq: "mp_variantTTL (NewMemoryPolicy (Some cfg)) = min (3 * ParsedTTL (rc_MemoryCache cfg) div 2) (20 * minute)"
proof -
  define b where "b = ParsedTTL (rc_MemoryCache cfg)"
  have b: "0 < b" "b \<le> max_int64" using ParsedTTL_range by (simp_all add: b_def)
  show ?thesis
  proof (cases "b \<le> max_int64 div 3")
    case True
    have "b \<le> 3 * b div 2" using b by simp
    with scaleMemoryTTL_exact [of b 3 2] b True show ?thesis
      by (simp add: NewMemoryPolicy_def Let_def b_def [symmetric] clampMemoryTTL_def minute_def second_def mult.commute)
  next
    case False
    then have "b > 20 * minute" by (simp add: max_int64_def minute_def second_def)
    with scaleMemoryTTL_saturates [of b 3 2] b False show ?thesis
      by (simp add: NewMemoryPolicy_def Let_def b_def [symmetric] clampMemoryTTL_def minute_def second_def max_int64_def)
  qed
qed

lemma genericTTL_eq: "mp_genericTTL (NewMemoryPolicy (Some cfg)) = max (ParsedTTL (rc_MemoryCache cfg) div 2) minute"
  using ParsedTTL_range [of "rc_MemoryCache cfg"]
  by (simp add: NewMemoryPolicy_def Let_def clampMemoryTTL_def minute_def second_def)

lemma small_le: "0 < m \<Longrightarrow> m \<le> max_int64 \<Longrightarrow> min (memoryExclusiveUpperBound (memoryClampToBounds (memorySmallFileSize m))) (memoryExclusiveUpperBound m) 
  = min (memorySmallFileSize m + 1) (memoryExclusiveUpperBound m)"
  by (auto simp: memoryExclusiveUpperBound_def memoryClampToBounds_def memorySmallFileSize_def clampMemorySize_def max_int64_def)

text \<open>The multiplier of a text asset by its size, in thousandths.\<close>

definition text_multiplier :: "int \<Rightarrow> int \<Rightarrow> int" where
  "text_multiplier maxFile n =
     (if memoryLargeFileSize maxFile \<le> n then 500 else if n \<le> memorySmallFileSize maxFile then 1250 else 1000)"

lemma textTTLScheme_get:
  assumes "0 < n" and "n \<le> m" and "m < max_int64"
  shows "range_get (newMemoryTextTTLScheme m) n = Some (text_multiplier m n)"
  using assms
  by (auto simp: range_get_def newMemoryTextTTLScheme_def Let_def range_put_def text_multiplier_def
     memoryExclusiveUpperBound_def memoryClampToBounds_def memorySmallFileSize_def memoryLargeFileSize_def clampMemorySize_def max_int64_def)

text \<open>The time an entry stays in the memory cache, for every class of request: nothing for what is
  not served, twice the base for the entry page, the fallback and robots.txt up to half an hour, one and a
  half times the base for variants up to twenty minutes, a multiple by size for text, and half the
  base but at least a minute for the rest.\<close>

theorem TTL_table:
  assumes "mc_MaxFileSize (rc_MemoryCache cfg) < max_int64"
    and "ParsedTTL (rc_MemoryCache cfg) \<le> max_int64 div 1250"
  shows "TTL (NewMemoryPolicy (Some cfg)) r =
    (let b = ParsedTTL (rc_MemoryCache cfg); m = mc_MaxFileSize (rc_MemoryCache cfg)
     in if mr_RangeRequested r \<or> mr_Size r < 0 \<or> m < mr_Size r then 0
        else if memorySubjectPath r \<in> set (memoryPriorityPaths cfg) then min (2 * b) (30 * minute)
        else if isVariant r then min (3 * b div 2) (20 * minute)
        else if isTextLikeRequest r then
          (if mr_Size r = 0 then b else b * text_multiplier m (mr_Size r) div 1000)
        else max (b div 2) minute)"
proof -
  define b where "b = ParsedTTL (rc_MemoryCache cfg)"
  define m where "m = mc_MaxFileSize (rc_MemoryCache cfg)"
  define p where "p = NewMemoryPolicy (Some cfg)"
  have b: "0 < b" "b \<le> max_int64 div 1250" using ParsedTTL_range assms(2) by (simp_all add: b_def)
  have p: "mp_maxFileSize p = m" "mp_baseTTL p = b" "mp_priorityPaths p = memoryPriorityPaths cfg"
    "mp_textTTLScheme p = newMemoryTextTTLScheme m"
    by (simp_all add: p_def NewMemoryPolicy_def Let_def b_def m_def)
  have scale: "scaleMemoryTTL b k 1000 = b * k div 1000" if "k \<in> {500, 1000, 1250}" for k
  proof -
    have "b \<le> max_int64 div k" using that b(2) by (auto simp: max_int64_def)
    then show ?thesis using scaleMemoryTTL_exact [of b k 1000] that b(1) by auto
  qed
  have adj: "adjustTTLForSize p b n = (if n = 0 then b else b * text_multiplier m n div 1000)"
    if "0 \<le> n" "n \<le> m" for n
    using that b(1) textTTLScheme_get [of n m] assms(1) scale
    by (simp add: adjustTTLForSize_def p m_def text_multiplier_def)
  show ?thesis
    using adj [of "mr_Size r"] unfolding p_def [symmetric] b_def [symmetric] m_def [symmetric] Let_def
    by (simp add: TTL_def ShouldServe_def isPriorityPath_def p priorityTTL_eq [of cfg, folded p_def b_def]
        variantTTL_eq [of cfg, folded p_def b_def] genericTTL_eq [of cfg, folded p_def b_def] not_le not_less)
qed

definition example_runtime :: "string \<Rightarrow> runtime_config" where
  "example_runtime ttl =
     \<lparr> rc_MemoryCache = \<lparr> mc_Enable = True, mc_Warmup = False, mc_MaxEntries = 100, mc_MaxBytes = 0,
         mc_MaxFileSize = 65536, mc_TTL = ttl \<rparr>,
       rc_Assets = \<lparr> cfg_Entry = ''index.html'', cfg_FallbackOnNotFound = True, cfg_FallbackTarget = ''index.html'' \<rparr>,
       rc_Compression = \<lparr> cc_Enable = False, cc_Mode = [], cc_CacheDir = [], cc_MinSize = 0, cc_Workers = 0,
         cc_QueueSize = 0, cc_Encodings = [], cc_CleanupEvery = [], cc_MaxAge = [], cc_ImageMaxAge = [],
         cc_EncodingMaxAge = [], cc_MaxCacheBytes = 0, cc_EncodingMaxCacheBytes = 0, cc_ImageMaxCacheBytes = 0,
         cc_BrotliQuality = 0, cc_ZstdLevel = 0, cc_GzipLevel = 0 \<rparr>,
       rc_ImmutableCache = \<lparr> ic_Enable = False, ic_MaxAge = [] \<rparr> \<rparr>"

definition example_memory_request :: "string \<Rightarrow> int \<Rightarrow> MemoryRequest" where
  "example_memory_request p n =
     \<lparr> mr_Path = p, mr_AssetPath = p, mr_Size = n, mr_MediaType = [], mr_Encoding = [], mr_Format = [],
       mr_Width = 0, mr_Kind = MemoryEntryKindAsset, mr_UseCase = MemoryUseCaseServe, mr_RangeRequested = False \<rparr>"

lemma ParsedTTL_empty: "ParsedTTL (rc_MemoryCache (example_runtime [])) = 5 * minute"
  by (simp add: example_runtime_def ParsedTTL_def)

lemma ParsedTTL_10s: "ParsedTTL (rc_MemoryCache (example_runtime ''10s'')) = 10 * second"
proof -
  have group: "duration_group ''10s'' = Some (10000000000, [])"
    by (simp add: duration_group_def digit_val_def duration_unit_def Let_def)
  have "parse_duration ''10s'' = Some (10 * second)"
    by (simp add: parse_duration_def duration_groups.simps group unsigned_part_def is_sign_def Let_def second_def
        max_int64_def)
  moreover have "trim_space ''10s'' = ''10s''" by code_simp
  ultimately show ?thesis by (simp add: example_runtime_def ParsedTTL_def second_def)
qed

lemma example_classes:
  "memorySubjectPath (example_memory_request ''app.js'' 60000) = ''app.js''"
  "isTextLikeRequest (example_memory_request ''app.js'' 60000)"
  "\<not> isVariant (example_memory_request ''app.js'' 60000)"
  "memoryPriorityPaths (example_runtime s) = [''index.html'', ''index.html'', ''robots.txt'']"
proof -
  have "trim_space ''index.html'' = ''index.html''" by code_simp
  then show "memoryPriorityPaths (example_runtime s) = [''index.html'', ''index.html'', ''robots.txt'']"
    by (simp add: memoryPriorityPaths_def example_runtime_def robotsAssetPath_def)
qed code_simp+

theorem TTL_table_witness:
  "TTL (NewMemoryPolicy (Some (example_runtime []))) (example_memory_request ''app.js'' 60000) =
     5 * minute * 500 div 1000"
proof -
  have size: "mc_MaxFileSize (rc_MemoryCache (example_runtime [])) = 65536"
    by (simp add: example_runtime_def)
  have r: "\<not> mr_RangeRequested (example_memory_request ''app.js'' 60000)"
    "mr_Size (example_memory_request ''app.js'' 60000) = 60000"
    by (simp_all add: example_memory_request_def)
  have mult: "text_multiplier 65536 60000 = 500"
    by (simp add: text_multiplier_def memoryLargeFileSize_def)
  have "5 * minute \<le> max_int64 div 1250" by (simp add: minute_def second_def max_int64_def)
  with TTL_table [of "example_runtime []" "example_memory_request ''app.js'' 60000"] show ?thesis
    by (simp add: ParsedTTL_empty size r mult example_classes max_int64_def)
qed

text \<open>The configured time to live is not an upper bound of the time entries stay: with ten
  seconds configured, an image stays for a minute.\<close>

theorem TTL_exceeds_configured:
  "\<exists>cfg r. ParsedTTL (rc_MemoryCache cfg) = 10 * second \<and>
     TTL (NewMemoryPolicy (Some cfg)) r = 60 * second"
proof -
  define r where "r = example_memory_request ''logo.png'' 100"
  have "ShouldServe (NewMemoryPolicy (Some (example_runtime ''10s''))) r"
    by (simp add: ShouldServe_def NewMemoryPolicy_def Let_def example_runtime_def r_def example_memory_request_def)
  moreover have "memorySubjectPath r = ''logo.png''" "\<not> isVariant r" "\<not> isTextLikeRequest r"
    unfolding r_def by code_simp+
  moreover have "mp_priorityPaths (NewMemoryPolicy (Some (example_runtime ''10s''))) =
      [''index.html'', ''index.html'', ''robots.txt'']"
    by (simp add: NewMemoryPolicy_def Let_def example_classes)
  ultimately have "TTL (NewMemoryPolicy (Some (example_runtime ''10s''))) r = max (10 * second div 2) minute"
    by (simp add: TTL_def isPriorityPath_def genericTTL_eq ParsedTTL_10s)
  then show ?thesis using ParsedTTL_10s by (intro exI [of _ "example_runtime ''10s''"] exI [of _ r])
      (simp add: minute_def second_def)
qed

end
