(* ===== verification/PipelineKeys.thy ===== *)
theory PipelineKeys
  imports Catalog
begin

text \<open>
  \<open>internal/pipeline\<close>: requests, tasks and the keys under which work is deduplicated
  (\<open>stage.go\<close>, \<open>normalization.go\<close>, \<open>request_key.go\<close>, \<open>service_support.go\<close>,
  \<open>service_runtime_keys.go\<close>).  The builder functions return \<open>None\<close> where the code returns \<open>false\<close>;
  \<open>write\<close> is the builder's write operation, which the standard library documents never to fail.
\<close>

record PipelineRequest =
  pr_AssetPath :: string
  pr_PreferredEncodings :: "string list option"
  pr_PreferredFormats :: "string list option"
  pr_PreferredWidths :: "int list option"

record ImageVariantTask =
  ivt_Format :: string
  ivt_Width :: int

record Task =
  tk_AssetPath :: string
  tk_Encoding :: string
  tk_Format :: string
  tk_Width :: int
  tk_ImageVariants :: "ImageVariantTask list option"

definition normalizeRequestStrings :: "string list option \<Rightarrow> string list option" where
  "normalizeRequestStrings values = NilIfEmpty (NormalizeStringList values TrimLower SortStrings)"

definition normalizeRequestInts :: "int list option \<Rightarrow> int list option" where
  "normalizeRequestInts values = NilIfEmpty (NormalizePositiveIntList values)"

definition writeBuilderString :: "string \<Rightarrow> string \<Rightarrow> string option" where
  "writeBuilderString builder v = Some (builder @ v)"

definition writeBuilderByte :: "string \<Rightarrow> char \<Rightarrow> string option" where
  "writeBuilderByte builder c = Some (builder @ [c])"

fun write_list :: "('a \<Rightarrow> string) \<Rightarrow> nat \<Rightarrow> string \<Rightarrow> 'a list \<Rightarrow> string option" where
  "write_list f i builder [] = Some builder"
| "write_list f i builder (v # vs) =
     (case (if i > 0 then writeBuilderByte builder CHR '','' else Some builder) of
        None \<Rightarrow> None
      | Some b \<Rightarrow>
          (case writeBuilderString b (f v) of
             None \<Rightarrow> None | Some b' \<Rightarrow> write_list f (Suc i) b' vs))"

definition writeStringList :: "string \<Rightarrow> string list option \<Rightarrow> string option" where
  "writeStringList builder values =
     (case values of None \<Rightarrow> Some builder | Some vs \<Rightarrow> write_list (\<lambda>v. v) 0 builder vs)"

definition writeIntList :: "string \<Rightarrow> int list option \<Rightarrow> string option" where
  "writeIntList builder values =
     (case values of None \<Rightarrow> Some builder | Some vs \<Rightarrow> write_list itoa 0 builder vs)"

definition listStringToString :: "string list option \<Rightarrow> string \<Rightarrow> string" where
  "listStringToString values joiner =
     (case values of None \<Rightarrow> [] | Some vs \<Rightarrow> if vs = [] then [] else join_with joiner vs)"

definition listIntToString :: "int list option \<Rightarrow> string" where
  "listIntToString values =
     (case values of None \<Rightarrow> [] | Some vs \<Rightarrow> if vs = [] then [] else join_with '','' (map itoa vs))"

definition fallbackRequestKey ::
    "string \<Rightarrow> string list option \<Rightarrow> string list option \<Rightarrow> int list option \<Rightarrow> string" where
  "fallbackRequestKey assetPath encodings formats widths =
     assetPath @ ''|e='' @ listStringToString encodings '','' @ ''|f='' @ listStringToString formats '','' @
     ''|w='' @ listIntToString widths"

definition buildRequestKey ::
    "string \<Rightarrow> string list option \<Rightarrow> string list option \<Rightarrow> int list option \<Rightarrow> string" where
  "buildRequestKey assetPath encodings formats widths =
     (let step = (\<lambda>b f. Option.bind b f);
          built =
            step (step (step (step (step (step (writeBuilderString [] assetPath)
              (\<lambda>b. writeBuilderString b ''|e='')) (\<lambda>b. writeStringList b encodings))
              (\<lambda>b. writeBuilderString b ''|f='')) (\<lambda>b. writeStringList b formats))
              (\<lambda>b. writeBuilderString b ''|w='')) (\<lambda>b. writeIntList b widths)
      in case built of Some s \<Rightarrow> s | None \<Rightarrow> fallbackRequestKey assetPath encodings formats widths)"

definition requestKey :: "PipelineRequest \<Rightarrow> string" where
  "requestKey request =
     buildRequestKey (trim_space (pr_AssetPath request))
       (normalizeRequestStrings (pr_PreferredEncodings request))
       (normalizeRequestStrings (pr_PreferredFormats request))
       (normalizeRequestInts (pr_PreferredWidths request))"

definition imageVariantTaskKey :: "ImageVariantTask list option \<Rightarrow> string" where
  "imageVariantTaskKey vs =
     (case vs of
        None \<Rightarrow> []
      | Some ts \<Rightarrow>
          if ts = [] then []
          else join_with '','' (map (\<lambda>t. trim_space (ivt_Format t) @ '':'' @ itoa (ivt_Width t)) ts))"

definition buildStageTaskKey :: "string \<Rightarrow> Asset \<Rightarrow> Task \<Rightarrow> string" where
  "buildStageTaskKey stage_name asset task =
     join_with ''|''
       [stage_name, a_Path asset, a_SourceHash asset, tk_Encoding task, tk_Format task,
        itoa (tk_Width task), imageVariantTaskKey (tk_ImageVariants task)]"

section \<open>The two builders agree\<close>

lemma write_list_Suc: "write_list f (Suc i) b vs = Some (b @ concat (map (\<lambda>v. CHR '','' # f v) vs))"
  by (induction vs arbitrary: b i) (simp_all add: writeBuilderByte_def writeBuilderString_def)

lemma join_concat: "join_with '','' (map f (v # vs)) = f v @ concat (map (\<lambda>v. CHR '','' # f v) vs)"
  by (induction vs arbitrary: v) simp_all

lemma write_list_join: "write_list f 0 b vs = Some (b @ (if vs = [] then [] else join_with '','' (map f vs)))"
proof (cases vs)
  case (Cons v ws)
  then show ?thesis
    using join_concat [of f v ws]
    by (simp add: writeBuilderString_def write_list_Suc del: join_with.simps)
qed simp

lemma buildRequestKey_eq: "buildRequestKey p e f w = fallbackRequestKey p e f w"
proof -
  have s: "writeStringList b v = Some (b @ listStringToString v '','')" for b v
    by (simp add: writeStringList_def listStringToString_def write_list_join split: option.splits)
  have i: "writeIntList b v = Some (b @ listIntToString v)" for b v
    by (simp add: writeIntList_def listIntToString_def write_list_join split: option.splits)
  show ?thesis
    by (simp add: buildRequestKey_def fallbackRequestKey_def s i writeBuilderString_def)
qed

text \<open>The two ways of building a deduplication key (the streaming builder and its fallback) give
  the same key for every request.\<close>

theorem buildRequestKey_eq_fallback: "buildRequestKey p e f w = fallbackRequestKey p e f w"
  by (rule buildRequestKey_eq)

section \<open>A key identifies the work\<close>

text \<open>The work a request asks for: the trimmed path and the three normalised lists.\<close>

definition the_list :: "'a list option \<Rightarrow> 'a list" where
  "the_list xs = (case xs of None \<Rightarrow> [] | Some ys \<Rightarrow> ys)"

definition request_work :: "PipelineRequest \<Rightarrow> string \<times> string list \<times> string list \<times> int list" where
  "request_work r =
     (trim_space (pr_AssetPath r), the_list (normalizeRequestStrings (pr_PreferredEncodings r)),
      the_list (normalizeRequestStrings (pr_PreferredFormats r)),
      the_list (normalizeRequestInts (pr_PreferredWidths r)))"

definition plain_tokens :: "string list option \<Rightarrow> bool" where
  "plain_tokens xs \<longleftrightarrow> list_all (\<lambda>t. CHR ''|'' \<notin> set t \<and> CHR '','' \<notin> set t) (the_list xs)"

definition plain_request :: "PipelineRequest \<Rightarrow> bool" where
  "plain_request r \<longleftrightarrow> plain_tokens (pr_PreferredEncodings r) \<and> plain_tokens (pr_PreferredFormats r)"

definition comma_join :: "string list \<Rightarrow> string" where
  "comma_join xs = (if xs = [] then [] else join_with '','' xs)"

lemma comma_join_inj:
  assumes "\<forall>x\<in>set xs. x \<noteq> [] \<and> CHR '','' \<notin> set x" and "\<forall>y\<in>set ys. y \<noteq> [] \<and> CHR '','' \<notin> set y"
    and "comma_join xs = comma_join ys"
  shows "xs = ys"
proof -
  have split: "split_on CHR '','' (join_with '','' zs) = zs"
    if "zs \<noteq> []" "\<forall>z\<in>set zs. z \<noteq> [] \<and> CHR '','' \<notin> set z" for zs
    using that split_join [of zs "CHR '',''"] by simp
  have ne: "join_with '','' zs \<noteq> []" if "zs \<noteq> []" "\<forall>z\<in>set zs. z \<noteq> [] \<and> CHR '','' \<notin> set z" for zs
    using that join_with_Nil_iff [of zs "'',''"] by auto
  show ?thesis
  proof (cases "xs = [] \<or> ys = []")
    case True
    then show ?thesis using assms ne by (metis comma_join_def)
  next
    case False
    then show ?thesis using assms split by (metis comma_join_def)
  qed
qed

lemma split_on_append_sep: "split_on c (a @ c # b) = split_on c a @ split_on c b"
proof (induction a)
  case (Cons x a)
  obtain y ys where "split_on c a = y # ys" by (cases "split_on c a") auto
  with Cons show ?case by simp
qed simp

lemma split_on_inj: "split_on c a = split_on c b \<Longrightarrow> a = b"
  by (metis join_split)

lemma key_parts:
  assumes "CHR ''|'' \<notin> set E" and "CHR ''|'' \<notin> set F" and "CHR ''|'' \<notin> set W"
  shows "split_on CHR ''|'' (p @ ''|e='' @ E @ ''|f='' @ F @ ''|w='' @ W) =
    split_on CHR ''|'' p @ [''e='' @ E, ''f='' @ F, ''w='' @ W]"
proof -
  have "split_on CHR ''|'' (p @ CHR ''|'' # (''e='' @ E) @ CHR ''|'' # (''f='' @ F) @ CHR ''|'' # (''w='' @ W)) =
      split_on CHR ''|'' p @ split_on CHR ''|'' (''e='' @ E) @ split_on CHR ''|'' (''f='' @ F) @
        split_on CHR ''|'' (''w='' @ W)"
    by (simp only: split_on_append_sep)
  then show ?thesis using assms by (simp add: split_on_notin)
qed

lemma lower_not_special:
  assumes "case_free x" and "x \<notin> set t"
  shows "x \<notin> set (TrimLower t)"
proof
  assume "x \<in> set (TrimLower t)"
  then obtain c where "c \<in> set (trim_space t)" "lower_char c = x"
    by (auto simp: TrimLower_def to_lower_def)
  with lower_char_case_free [OF assms(1)] set_trim_space_subset [of t] assms(2) show False by auto
qed

lemma normalized_tokens:
  assumes "plain_tokens xs" and "t \<in> set (the_list (normalizeRequestStrings xs))"
  shows "t \<noteq> [] \<and> CHR ''|'' \<notin> set t \<and> CHR '','' \<notin> set t"
proof -
  obtain vs ws where vs: "xs = Some vs" and ws: "NormalizeStringList (Some vs) TrimLower SortStrings = Some ws"
    and t: "t \<in> set ws"
    using assms(2)
    by (cases xs) (auto simp: normalizeRequestStrings_def NilIfEmpty_def the_list_def NormalizeStringList_def
        split: option.splits if_splits)
  from NormalizeStringList_set [OF ws] t obtain v where "v \<in> set vs" "t = TrimLower v" "t \<noteq> []" by auto
  moreover have "CHR ''|'' \<notin> set v \<and> CHR '','' \<notin> set v"
    using assms(1) vs \<open>v \<in> set vs\<close> by (auto simp: plain_tokens_def the_list_def list_all_iff)
  ultimately show ?thesis
    using lower_not_special [of "CHR ''|''" v] lower_not_special [of "CHR '',''" v]
    by (simp add: case_free_def)
qed

lemma itoa_chars: "c \<in> set (itoa i) \<Longrightarrow> c \<noteq> CHR ''|'' \<and> c \<noteq> CHR '',''"
  using digits_of_chars [of c] by (auto simp: itoa_def digit_val_def Let_def split: if_splits)

lemma itoa_inj: "itoa i = itoa j \<Longrightarrow> i = j"
proof -
  have head: "hd (digits_of n) \<noteq> CHR ''-''" for n
    using digits_of_chars [of "hd (digits_of n)" n] by (auto simp: digit_val_def)
  assume eq: "itoa i = itoa j"
  show ?thesis
  proof (cases "i < 0 \<longleftrightarrow> j < 0")
    case True
    with eq show ?thesis using digits_of_inj by (auto simp: itoa_def split: if_splits) fastforce+
  next
    case False
    with eq have "\<exists>n. hd (digits_of n) = CHR ''-''"
      by (auto simp: itoa_def split: if_splits) (metis list.sel(1))+
    with head show ?thesis by blast
  qed
qed

lemma fallback_join:
  "fallbackRequestKey p e f w =
    p @ ''|e='' @ comma_join (the_list e) @ ''|f='' @ comma_join (the_list f) @ ''|w='' @
    comma_join (map itoa (the_list w))"
  by (auto simp: fallbackRequestKey_def listStringToString_def listIntToString_def comma_join_def the_list_def
      split: option.splits)

lemma requestKey_work: "requestKey r = (case request_work r of (p, e, f, w) \<Rightarrow>
    p @ ''|e='' @ comma_join e @ ''|f='' @ comma_join f @ ''|w='' @ comma_join (map itoa w))"
  by (simp add: requestKey_def buildRequestKey_eq fallback_join request_work_def)

lemma comma_join_chars:
  "\<forall>x\<in>set xs. CHR ''|'' \<notin> set x \<Longrightarrow> CHR ''|'' \<notin> set (comma_join xs)"
  using set_join_with [of "'',''" xs] by (auto simp: comma_join_def)

lemma requestKey_identifies_aux:
  assumes "plain_request r" and "plain_request q"
  shows "requestKey r = requestKey q \<longleftrightarrow> request_work r = request_work q"
proof
  assume eq: "requestKey r = requestKey q"
  obtain p e f w where r: "request_work r = (p, e, f, w)" by (metis prod_cases4)
  obtain p' e' f' w' where q: "request_work q = (p', e', f', w')" by (metis prod_cases4)
  have tok: "\<forall>x\<in>set e \<union> set f \<union> set e' \<union> set f'. x \<noteq> [] \<and> CHR ''|'' \<notin> set x \<and> CHR '','' \<notin> set x"
    using assms r q normalized_tokens by (auto simp: plain_request_def request_work_def)
  have ints: "\<forall>x\<in>set (map itoa w) \<union> set (map itoa w'). x \<noteq> [] \<and> CHR ''|'' \<notin> set x \<and> CHR '','' \<notin> set x"
  proof -
    have "itoa i \<noteq> []" for i by (simp add: itoa_def)
    then show ?thesis using itoa_chars by auto
  qed
  have "split_on CHR ''|'' p @ [''e='' @ comma_join e, ''f='' @ comma_join f, ''w='' @ comma_join (map itoa w)] =
      split_on CHR ''|'' p' @ [''e='' @ comma_join e', ''f='' @ comma_join f', ''w='' @ comma_join (map itoa w')]"
    using eq tok ints unfolding requestKey_work r q prod.case
    by (subst (1 2) key_parts [symmetric]) (auto intro!: comma_join_chars)
  then have parts: "split_on CHR ''|'' p = split_on CHR ''|'' p'" "comma_join e = comma_join e'"
      "comma_join f = comma_join f'" "comma_join (map itoa w) = comma_join (map itoa w')"
    by simp_all
  have "map itoa w = map itoa w'" by (rule comma_join_inj [OF _ _ parts(4)]) (use ints in auto)
  then have "w = w'" using itoa_inj by (metis inj_onI map_inj_on)
  moreover have "e = e'" by (rule comma_join_inj [OF _ _ parts(2)]) (use tok in auto)
  moreover have "f = f'" by (rule comma_join_inj [OF _ _ parts(3)]) (use tok in auto)
  ultimately show "request_work r = request_work q" using r q split_on_inj [OF parts(1)] by simp
qed (simp add: requestKey_work)

text \<open>Deduplication never merges different work: two requests whose names contain neither a bar
  nor a comma have the same key exactly if they ask for the same normalised work.\<close>

theorem requestKey_identifies:
  assumes "plain_request r" and "plain_request q"
  shows "requestKey r = requestKey q \<longleftrightarrow> request_work r = request_work q"
  by (rule requestKey_identifies_aux [OF assms])

definition example_pipeline_request :: "string list \<Rightarrow> PipelineRequest" where
  "example_pipeline_request encodings =
     \<lparr>pr_AssetPath = ''a|b.js'', pr_PreferredEncodings = Some encodings, pr_PreferredFormats = None,
      pr_PreferredWidths = Some [320, 320, 0]\<rparr>"

theorem requestKey_identifies_witness:
  "requestKey (example_pipeline_request [''br'', ''gzip'']) =
     requestKey (example_pipeline_request ['' GZIP'', ''br'', ''br'']) \<longleftrightarrow>
   request_work (example_pipeline_request [''br'', ''gzip'']) =
     request_work (example_pipeline_request ['' GZIP'', ''br'', ''br''])"
  by (rule requestKey_identifies; code_simp)

end
