(* ===== verification/PipelineQueue.thy ===== *)
theory PipelineQueue
  imports PipelineKeys Config "HOL-Library.Multiset"
begin

text \<open>
  The queue of the lazy pipeline (\<open>service.go\<close>, \<open>service_workers.go\<close>, \<open>service_runtime.go\<close>):
  \<open>Enqueue\<close>, \<open>runWorker\<close>, \<open>processQueuedRequest\<close> and \<open>closeTaskQueue\<close> run concurrently on the shared
  set of pending keys, the bounded channel of requests, the closing flag and the lock that orders
  sends before the close.  Every goroutine is a program counter; one step is one access to the
  shared state.  The processing of a request is a step that does not touch this state; a stage may
  panic in it, which ends the worker (the pool's panic handler only logs).

  \<open>qs_accepted\<close> and \<open>qs_taken\<close> are ghosts: the requests sent into and received from the channel.
  \<open>qs_panic\<close> records a send on, or a second close of, the closed channel.  Metrics and logs are left
  out.
\<close>

section \<open>State\<close>

text \<open>An enqueuing goroutine: before the load of the closing flag, before \<open>AddIfAbsent\<close>, before
  \<open>RLock\<close>, before the second load, before the \<open>select\<close>, before the \<open>Remove\<close> of a drop, and about to
  unlock and return.\<close>

datatype enq_pc =
    EnqIdle
  | EnqCalled PipelineRequest
  | EnqAdd PipelineRequest
  | EnqRLock PipelineRequest
  | EnqRecheck PipelineRequest
  | EnqSend PipelineRequest
  | EnqDrop PipelineRequest
  | EnqUnlock

datatype worker_pc = WorkerWait | WorkerBusy PipelineRequest | WorkerExited

text \<open>\<open>closeTaskQueue\<close> under its \<open>Once\<close>: flag, cancel, lock, close, unlock.\<close>

datatype closer_pc = CloseIdle | CloseFlagged | CloseCancelled | CloseLocked | CloseClosed | CloseDone

record queue_state =
  qs_cap :: nat
  qs_tasks :: "PipelineRequest list"
  qs_pending :: "string set"
  qs_closing :: bool
  qs_cancelled :: bool
  qs_closed :: bool
  qs_panic :: bool
  qs_accepted :: "PipelineRequest list"
  qs_taken :: "PipelineRequest list"
  qs_enq :: "enq_pc list"
  qs_workers :: "worker_pc list"
  qs_closer :: closer_pc

definition resolveQueueSize :: "Compression \<Rightarrow> int \<Rightarrow> int" where
  "resolveQueueSize cfg workers =
     (if NormalizedMode cfg \<noteq> CompressionModeLazy then 0
      else (let queueSize = QueueCapacity cfg
            in if queueSize < 1 then wrap_int (workers * 64) else queueSize))"

definition newServiceState :: "int \<Rightarrow> nat \<Rightarrow> queue_state" where
  "newServiceState queueSize callers =
     \<lparr> qs_cap = nat queueSize, qs_tasks = [], qs_pending = {}, qs_closing = False, qs_cancelled = False,
       qs_closed = False, qs_panic = False, qs_accepted = [], qs_taken = [],
       qs_enq = replicate callers EnqIdle, qs_workers = [], qs_closer = CloseIdle \<rparr>"

definition startWorkers :: "queue_state \<Rightarrow> int \<Rightarrow> queue_state" where
  "startWorkers s workers =
     s\<lparr>qs_closing := False, qs_workers := replicate (nat (max workers 1)) WorkerWait\<rparr>"

section \<open>Steps\<close>

text \<open>What one goroutine in \<open>Enqueue\<close> does next.\<close>

fun enq_next :: "Compression \<Rightarrow> queue_state \<Rightarrow> enq_pc \<Rightarrow> (enq_pc \<times> queue_state) option" where
  "enq_next cfg s EnqIdle = None"
| "enq_next cfg s (EnqCalled r) =
     (if \<not> PipelineEnabled cfg \<or> NormalizedMode cfg \<noteq> CompressionModeLazy then Some (EnqIdle, s)
      else if trim_space (pr_AssetPath r) = [] \<or> qs_closing s then Some (EnqIdle, s)
      else Some (EnqAdd r, s))"
| "enq_next cfg s (EnqAdd r) =
     (if requestKey r \<in> qs_pending s then Some (EnqIdle, s)
      else Some (EnqRLock r, s\<lparr>qs_pending := insert (requestKey r) (qs_pending s)\<rparr>))"
| "enq_next cfg s (EnqRLock r) =
     (if qs_closer s = CloseLocked \<or> qs_closer s = CloseClosed then None else Some (EnqRecheck r, s))"
| "enq_next cfg s (EnqRecheck r) =
     (if qs_closing s then Some (EnqDrop r, s) else Some (EnqSend r, s))"
| "enq_next cfg s (EnqSend r) =
     (if qs_closed s then Some (EnqUnlock, s\<lparr>qs_panic := True\<rparr>)
      else if length (qs_tasks s) < qs_cap s then
        Some (EnqUnlock, s\<lparr>qs_tasks := qs_tasks s @ [r], qs_accepted := qs_accepted s @ [r]\<rparr>)
      else Some (EnqDrop r, s))"
| "enq_next cfg s (EnqDrop r) =
     Some (EnqUnlock, s\<lparr>qs_pending := qs_pending s - {requestKey r}\<rparr>)"
| "enq_next cfg s EnqUnlock = Some (EnqIdle, s)"

fun holds_rlock :: "enq_pc \<Rightarrow> bool" where
  "holds_rlock (EnqRecheck r) = True"
| "holds_rlock (EnqSend r) = True"
| "holds_rlock (EnqDrop r) = True"
| "holds_rlock EnqUnlock = True"
| "holds_rlock _ = False"

text \<open>A worker's \<open>select\<close> takes any ready branch; processing ends normally or in a panic, and the
  deferred \<open>finishRequest\<close> runs in both cases.\<close>

definition finishRequest :: "queue_state \<Rightarrow> string \<Rightarrow> queue_state" where
  "finishRequest s key = s\<lparr>qs_pending := qs_pending s - {key}\<rparr>"

fun worker_next :: "queue_state \<Rightarrow> worker_pc \<Rightarrow> (worker_pc \<times> queue_state) list" where
  "worker_next s WorkerWait =
     (if qs_cancelled s then [(WorkerExited, s)] else []) @
     (case qs_tasks s of
        r # rs \<Rightarrow> [(WorkerBusy r, s\<lparr>qs_tasks := rs, qs_taken := qs_taken s @ [r]\<rparr>)]
      | [] \<Rightarrow> if qs_closed s then [(WorkerExited, s)] else [])"
| "worker_next s (WorkerBusy r) =
     [(WorkerWait, finishRequest s (requestKey r)), (WorkerExited, finishRequest s (requestKey r))]"
| "worker_next s WorkerExited = []"

definition closer_next :: "queue_state \<Rightarrow> queue_state option" where
  "closer_next s =
     (case qs_closer s of
        CloseIdle \<Rightarrow> Some (s\<lparr>qs_closing := True, qs_closer := CloseFlagged\<rparr>)
      | CloseFlagged \<Rightarrow> Some (s\<lparr>qs_cancelled := True, qs_closer := CloseCancelled\<rparr>)
      | CloseCancelled \<Rightarrow>
          if \<exists>e\<in>set (qs_enq s). holds_rlock e then None else Some (s\<lparr>qs_closer := CloseLocked\<rparr>)
      | CloseLocked \<Rightarrow>
          Some (s\<lparr>qs_closed := True, qs_panic := (qs_panic s \<or> qs_closed s), qs_closer := CloseClosed\<rparr>)
      | CloseClosed \<Rightarrow> Some (s\<lparr>qs_closer := CloseDone\<rparr>)
      | CloseDone \<Rightarrow> None)"

inductive queue_step :: "Compression \<Rightarrow> queue_state \<Rightarrow> queue_state \<Rightarrow> bool" for cfg where
  call: "i < length (qs_enq s) \<Longrightarrow> qs_enq s ! i = EnqIdle \<Longrightarrow>
    queue_step cfg s (s\<lparr>qs_enq := (qs_enq s)[i := EnqCalled r]\<rparr>)"
| enqueue: "i < length (qs_enq s) \<Longrightarrow> enq_next cfg s (qs_enq s ! i) = Some (pc, t) \<Longrightarrow>
    queue_step cfg s (t\<lparr>qs_enq := (qs_enq s)[i := pc]\<rparr>)"
| work: "i < length (qs_workers s) \<Longrightarrow> (pc, t) \<in> set (worker_next s (qs_workers s ! i)) \<Longrightarrow>
    queue_step cfg s (t\<lparr>qs_workers := (qs_workers s)[i := pc]\<rparr>)"
| close: "closer_next s = Some t \<Longrightarrow> queue_step cfg s t"

inductive_cases queue_stepE: "queue_step cfg s t"

inductive queue_reachable :: "Compression \<Rightarrow> int \<Rightarrow> nat \<Rightarrow> queue_state \<Rightarrow> bool" for cfg workers callers where
  start: "queue_reachable cfg workers callers
    (startWorkers (newServiceState (resolveQueueSize cfg workers) callers) workers)"
| step: "queue_reachable cfg workers callers s \<Longrightarrow> queue_step cfg s t \<Longrightarrow> queue_reachable cfg workers callers t"

section \<open>The invariant\<close>

text \<open>The keys each goroutine and the channel hold.\<close>

fun enq_keys :: "enq_pc \<Rightarrow> string multiset" where
  "enq_keys (EnqRLock r) = {#requestKey r#}"
| "enq_keys (EnqRecheck r) = {#requestKey r#}"
| "enq_keys (EnqSend r) = {#requestKey r#}"
| "enq_keys (EnqDrop r) = {#requestKey r#}"
| "enq_keys _ = {#}"

fun worker_keys :: "worker_pc \<Rightarrow> string multiset" where
  "worker_keys (WorkerBusy r) = {#requestKey r#}"
| "worker_keys _ = {#}"

definition enq_held :: "enq_pc list \<Rightarrow> string multiset" where
  "enq_held es = sum_list (map enq_keys es)"

definition worker_held :: "worker_pc list \<Rightarrow> string multiset" where
  "worker_held ws = sum_list (map worker_keys ws)"

definition held :: "queue_state \<Rightarrow> string multiset" where
  "held s = enq_held (qs_enq s) + mset (map requestKey (qs_tasks s)) + worker_held (qs_workers s)"

fun is_send :: "enq_pc \<Rightarrow> bool" where
  "is_send (EnqSend r) = True"
| "is_send _ = False"

definition closer_ok :: "queue_state \<Rightarrow> bool" where
  "closer_ok s \<longleftrightarrow>
     (qs_closing s \<longleftrightarrow> qs_closer s \<noteq> CloseIdle) \<and>
     (qs_closed s \<longleftrightarrow> qs_closer s = CloseClosed \<or> qs_closer s = CloseDone) \<and>
     (qs_closer s \<in> {CloseLocked, CloseClosed} \<longrightarrow> (\<forall>e\<in>set (qs_enq s). \<not> holds_rlock e)) \<and>
     (qs_closer s = CloseDone \<longrightarrow> (\<forall>e\<in>set (qs_enq s). \<not> is_send e))"

definition queue_ok :: "queue_state \<Rightarrow> bool" where
  "queue_ok s \<longleftrightarrow>
     finite (qs_pending s) \<and> held s = mset_set (qs_pending s) \<and>
     length (qs_tasks s) \<le> qs_cap s \<and> \<not> qs_panic s \<and> closer_ok s \<and>
     qs_accepted s = qs_taken s @ qs_tasks s"

lemma sum_list_update_add:
  "i < length xs \<Longrightarrow>
     sum_list (map f (xs[i := x])) + f (xs ! i) = sum_list (map f xs) + (f x :: 'a :: comm_monoid_add)"
proof (induction xs arbitrary: i)
  case (Cons a xs)
  then show ?case by (cases i) (auto simp: algebra_simps)
qed simp

lemma enq_held_update:
  "i < length es \<Longrightarrow> enq_held (es[i := e]) + enq_keys (es ! i) = enq_held es + enq_keys e"
  unfolding enq_held_def by (rule sum_list_update_add)

lemma worker_held_update:
  "i < length ws \<Longrightarrow> worker_held (ws[i := w]) + worker_keys (ws ! i) = worker_held ws + worker_keys w"
  unfolding worker_held_def by (rule sum_list_update_add)

section \<open>The invariant is kept\<close>

lemma mset_set_remove1:
  assumes "finite P" and "M + {#k#} = mset_set P"
  shows "M = mset_set (P - {k})"
proof -
  have "k \<in># mset_set P" unfolding assms(2) [symmetric] by simp
  then have "k \<in> P" using assms(1) by simp
  then have "mset_set (P - {k}) = mset_set P - {#k#}" using assms(1) by (simp add: mset_set_Diff)
  then show ?thesis unfolding assms(2) [symmetric] by simp
qed

lemma closer_ok_enq:
  assumes ok: "closer_ok s" and i: "i < length (qs_enq s)"
    and closer: "qs_closing t = qs_closing s" "qs_closed t = qs_closed s" "qs_closer t = qs_closer s"
    and es: "qs_enq t = (qs_enq s)[i := pc]"
    and lock: "holds_rlock pc \<Longrightarrow> holds_rlock (qs_enq s ! i) \<or> qs_closer s \<notin> {CloseLocked, CloseClosed}"
    and send: "is_send pc \<Longrightarrow> \<not> qs_closing s"
  shows "closer_ok t"
proof -
  have mem: "qs_enq s ! i \<in> set (qs_enq s)" using i by simp
  have sub: "e \<in> set (qs_enq t) \<Longrightarrow> e = pc \<or> e \<in> set (qs_enq s)" for e
    using set_update_subset_insert [of "qs_enq s" i pc] unfolding es by blast
  have "\<not> holds_rlock e" if "qs_closer s \<in> {CloseLocked, CloseClosed}" "e \<in> set (qs_enq t)" for e
    using sub [OF that(2)] that(1) ok lock mem unfolding closer_ok_def by blast
  moreover have "\<not> is_send e" if "qs_closer s = CloseDone" "e \<in> set (qs_enq t)" for e
    using sub [OF that(2)] that(1) ok send unfolding closer_ok_def by auto
  ultimately show ?thesis using ok unfolding closer_ok_def closer by simp
qed

lemma enq_next_ok:
  assumes ok: "queue_ok s" and i: "i < length (qs_enq s)"
    and next_step: "enq_next cfg s (qs_enq s ! i) = Some (pc, t)"
  shows "queue_ok (t\<lparr>qs_enq := (qs_enq s)[i := pc]\<rparr>)"
proof -
  have closer: "qs_closing t = qs_closing s" "qs_closed t = qs_closed s" "qs_closer t = qs_closer s"
    using next_step by (cases "qs_enq s ! i"; auto split: if_splits)+
  have c: "closer_ok (t\<lparr>qs_enq := (qs_enq s)[i := pc]\<rparr>)"
  proof (rule closer_ok_enq [where s = s and i = i and pc = pc])
    show "closer_ok s" using ok by (simp add: queue_ok_def)
    show "holds_rlock pc \<Longrightarrow> holds_rlock (qs_enq s ! i) \<or> qs_closer s \<notin> {CloseLocked, CloseClosed}"
      "is_send pc \<Longrightarrow> \<not> qs_closing s"
      using next_step by (cases "qs_enq s ! i"; auto split: if_splits)+
  qed (simp_all add: i closer)
  have h: "held (t\<lparr>qs_enq := (qs_enq s)[i := pc]\<rparr>) + enq_keys (qs_enq s ! i) =
     enq_held (qs_enq s) + mset (map requestKey (qs_tasks t)) + worker_held (qs_workers t) + enq_keys pc"
    using enq_held_update [OF i, of pc] by (simp add: held_def)
  have fin: "finite (qs_pending s)" and hs: "held s = mset_set (qs_pending s)"
    using ok by (simp_all add: queue_ok_def)
  have nosend: "\<not> is_send (qs_enq s ! i)" if "qs_closed s"
  proof -
    have "qs_enq s ! i \<in> set (qs_enq s)" using i by simp
    then show ?thesis using ok that unfolding queue_ok_def closer_ok_def
      by (metis holds_rlock.simps(2) insertI1 insert_commute is_send.elims(2))
  qed
  have "finite (qs_pending t) \<and> held (t\<lparr>qs_enq := (qs_enq s)[i := pc]\<rparr>) = mset_set (qs_pending t) \<and>
     length (qs_tasks t) \<le> qs_cap t \<and> \<not> qs_panic t \<and> qs_accepted t = qs_taken t @ qs_tasks t"
  proof (cases "qs_enq s ! i")
    case (EnqDrop r)
    then have t: "t = s\<lparr>qs_pending := qs_pending s - {requestKey r}\<rparr>" and pc: "pc = EnqUnlock"
      using next_step by auto
    have "held (t\<lparr>qs_enq := (qs_enq s)[i := pc]\<rparr>) + {#requestKey r#} = mset_set (qs_pending s)"
      using h EnqDrop hs unfolding held_def [of s] by (simp add: t pc)
    from mset_set_remove1 [OF fin this] ok show ?thesis by (simp add: t queue_ok_def)
  next
    case (EnqSend r)
    have nc: "\<not> qs_closed s" using nosend EnqSend by auto
    show ?thesis
    proof (cases "length (qs_tasks s) < qs_cap s")
      case True
      then have t: "t = s\<lparr>qs_tasks := qs_tasks s @ [r], qs_accepted := qs_accepted s @ [r]\<rparr>" and pc: "pc = EnqUnlock"
        using next_step EnqSend nc by auto
      have "enq_held ((qs_enq s)[i := pc]) + {#requestKey r#} = enq_held (qs_enq s)"
        using enq_held_update [OF i, of pc] EnqSend by (simp add: pc)
      then have "held (t\<lparr>qs_enq := (qs_enq s)[i := pc]\<rparr>) = held s"
        unfolding held_def by (simp add: t ac_simps)
      with True ok hs show ?thesis by (simp add: t queue_ok_def)
    next
      case False
      then have "t = s" "pc = EnqDrop r" using next_step EnqSend nc by auto
      with h EnqSend hs ok show ?thesis unfolding held_def [of s] by (simp add: queue_ok_def)
    qed
  qed (use next_step h hs ok fin in \<open>auto simp: held_def queue_ok_def split: if_splits\<close>)
  with c show ?thesis by (simp add: queue_ok_def)
qed

lemma worker_next_ok:
  assumes ok: "queue_ok s" and i: "i < length (qs_workers s)"
    and next_step: "(pc, t) \<in> set (worker_next s (qs_workers s ! i))"
  shows "queue_ok (t\<lparr>qs_workers := (qs_workers s)[i := pc]\<rparr>)"
proof -
  have h: "held (t\<lparr>qs_workers := (qs_workers s)[i := pc]\<rparr>) + worker_keys (qs_workers s ! i) =
     enq_held (qs_enq t) + mset (map requestKey (qs_tasks t)) + worker_held (qs_workers s) + worker_keys pc"
    using worker_held_update [OF i, of pc] by (simp add: held_def)
  have fin: "finite (qs_pending s)" and hs: "held s = mset_set (qs_pending s)"
    using ok by (simp_all add: queue_ok_def)
  show ?thesis
  proof (cases "qs_workers s ! i")
    case (WorkerBusy r)
    then have t: "t = s\<lparr>qs_pending := qs_pending s - {requestKey r}\<rparr>" and pc: "worker_keys pc = {#}"
      using next_step by (auto simp: finishRequest_def)
    have "held (t\<lparr>qs_workers := (qs_workers s)[i := pc]\<rparr>) + {#requestKey r#} = mset_set (qs_pending s)"
      using h WorkerBusy hs unfolding held_def [of s] by (simp add: t pc)
    from mset_set_remove1 [OF fin this] ok show ?thesis by (simp add: t queue_ok_def closer_ok_def)
  next
    case WorkerWait
    then consider (exit) "t = s" "pc = WorkerExited"
      | (take) r rs where "qs_tasks s = r # rs" "pc = WorkerBusy r"
          "t = s\<lparr>qs_tasks := rs, qs_taken := qs_taken s @ [r]\<rparr>"
      using next_step by (cases "qs_tasks s") (auto split: if_splits)
    then show ?thesis
    proof cases
      case exit
      have "worker_held ((qs_workers s)[i := pc]) = worker_held (qs_workers s)"
        using worker_held_update [OF i, of pc] WorkerWait exit by simp
      with ok exit show ?thesis by (simp add: held_def queue_ok_def closer_ok_def)
    next
      case take
      have "worker_held ((qs_workers s)[i := pc]) = worker_held (qs_workers s) + {#requestKey r#}"
        using worker_held_update [OF i, of pc] WorkerWait take(2) by simp
      then have "held (t\<lparr>qs_workers := (qs_workers s)[i := pc]\<rparr>) = held s"
        unfolding held_def by (simp add: take ac_simps)
      with ok hs show ?thesis by (simp add: take queue_ok_def closer_ok_def)
    qed
  qed (use next_step in simp)
qed

lemma closer_next_ok:
  assumes ok: "queue_ok s" and next_step: "closer_next s = Some t"
  shows "queue_ok t"
proof -
  have base: "qs_tasks t = qs_tasks s" "qs_pending t = qs_pending s" "qs_enq t = qs_enq s"
    "qs_workers t = qs_workers s" "qs_accepted t = qs_accepted s" "qs_taken t = qs_taken s" "qs_cap t = qs_cap s"
    using next_step by (auto simp: closer_next_def split: closer_pc.splits if_splits)
  have send: "is_send e \<Longrightarrow> holds_rlock e" for e by (cases e) auto
  have "\<not> qs_panic t \<and> closer_ok t"
    using ok next_step
    by (auto simp: closer_next_def queue_ok_def closer_ok_def split: closer_pc.splits if_splits dest: send)
  with ok show ?thesis by (simp add: queue_ok_def held_def base)
qed

lemma queue_step_ok: "queue_step cfg s t \<Longrightarrow> queue_ok s \<Longrightarrow> queue_ok t"
proof (induction rule: queue_step.induct)
  case (call i s r)
  have "enq_held ((qs_enq s)[i := EnqCalled r]) = enq_held (qs_enq s)"
    using enq_held_update [OF call(1), of "EnqCalled r"] call(2) by simp
  moreover have "closer_ok (s\<lparr>qs_enq := (qs_enq s)[i := EnqCalled r]\<rparr>)"
    by (rule closer_ok_enq [where s = s and i = i and pc = "EnqCalled r"])
      (use call in \<open>simp_all add: queue_ok_def\<close>)
  ultimately show ?case using call(3) by (simp add: queue_ok_def held_def)
qed (use enq_next_ok worker_next_ok closer_next_ok in blast)+

lemma queue_reachable_ok: "queue_reachable cfg workers callers s \<Longrightarrow> queue_ok s"
proof (induction rule: queue_reachable.induct)
  case start
  have "enq_held (replicate n EnqIdle) = {#}" "worker_held (replicate n WorkerWait) = {#}" for n
    by (induction n) (simp_all add: enq_held_def worker_held_def)
  then show ?case
    by (simp add: queue_ok_def startWorkers_def newServiceState_def held_def closer_ok_def)
qed (rule queue_step_ok)


section \<open>Enqueue as its caller sees it\<close>

definition Enqueue :: "Compression \<Rightarrow> PipelineRequest \<Rightarrow> queue_state \<Rightarrow> queue_state" where
  "Enqueue cfg r s =
     (if \<not> PipelineEnabled cfg \<or> NormalizedMode cfg \<noteq> CompressionModeLazy then s
      else if trim_space (pr_AssetPath r) = [] \<or> qs_closing s then s
      else (let key = requestKey r
            in if key \<in> qs_pending s then s
               else (let s1 = s\<lparr>qs_pending := insert key (qs_pending s)\<rparr>
                     in if qs_closing s1 then s1\<lparr>qs_pending := qs_pending s1 - {key}\<rparr>
                        else if length (qs_tasks s1) < qs_cap s1 then
                          s1\<lparr>qs_tasks := qs_tasks s1 @ [r], qs_accepted := qs_accepted s1 @ [r]\<rparr>
                        else s1\<lparr>qs_pending := qs_pending s1 - {key}\<rparr>)))"

text \<open>One goroutine running without interference, for up to \<open>n\<close> steps.\<close>

fun enq_run :: "Compression \<Rightarrow> nat \<Rightarrow> enq_pc \<Rightarrow> queue_state \<Rightarrow> enq_pc \<times> queue_state" where
  "enq_run cfg 0 pc s = (pc, s)"
| "enq_run cfg (Suc n) pc s =
     (case enq_next cfg s pc of None \<Rightarrow> (pc, s) | Some (pc', s') \<Rightarrow> enq_run cfg n pc' s')"

lemma enq_run_Enqueue:
  assumes "qs_closer s = CloseIdle" and "\<not> qs_closing s" and "\<not> qs_closed s"
  shows "enq_run cfg 7 (EnqCalled r) s = (EnqIdle, Enqueue cfg r s)"
  using assms by (simp add: eval_nat_numeral Enqueue_def Let_def)

lemma enq_run_reachable:
  "enq_run cfg n pc s = (pc', s') \<Longrightarrow> i < length es \<Longrightarrow>
    queue_reachable cfg workers callers (s\<lparr>qs_enq := es[i := pc]\<rparr>) \<Longrightarrow>
    queue_reachable cfg workers callers (s'\<lparr>qs_enq := es[i := pc']\<rparr>)"
proof (induction n arbitrary: pc s)
  case (Suc n)
  show ?case
  proof (cases "enq_next cfg s pc")
    case None
    with Suc.prems show ?thesis by simp
  next
    case (Some x)
    obtain pc1 s1 where x: "x = (pc1, s1)" by (cases x)
    define t where "t = s\<lparr>qs_enq := es[i := pc]\<rparr>"
    have "enq_next cfg t (qs_enq t ! i) = Some (pc1, s1\<lparr>qs_enq := es[i := pc]\<rparr>)"
      using Some x Suc.prems(2) by (cases pc) (auto simp: t_def split: if_splits)
    from queue_step.enqueue [OF _ this] Suc.prems(2)
    have "queue_step cfg t (s1\<lparr>qs_enq := es[i := pc1]\<rparr>)" by (simp add: t_def)
    then have "queue_reachable cfg workers callers (s1\<lparr>qs_enq := es[i := pc1]\<rparr>)"
      using Suc.prems(3) unfolding t_def by (metis queue_reachable.step)
    with Suc.IH [of pc1 s1] Suc.prems Some x show ?thesis by simp
  qed
qed simp

section \<open>What the queue promises\<close>

text \<open>C6: in every reachable state, however the callers, workers and the shutdown interleave: nothing is sent
  on the closed channel and it is not closed twice, the channel is within its capacity, and the
  pending set is exactly the keys of the requests in flight, each of them in flight once; and requests
  are taken in the order they were accepted, none lost and none twice.\<close>

theorem queue_safe:
  assumes "queue_reachable cfg workers callers s"
  shows "\<not> qs_panic s \<and> length (qs_tasks s) \<le> qs_cap s \<and> held s = mset_set (qs_pending s) \<and>
    distinct (map requestKey (qs_tasks s)) \<and> (\<forall>k. count (held s) k \<le> 1) \<and>
    qs_accepted s = qs_taken s @ qs_tasks s"
proof -
  have ok: "queue_ok s" using assms by (rule queue_reachable_ok)
  then have h: "held s = mset_set (qs_pending s)" and fin: "finite (qs_pending s)"
    by (simp_all add: queue_ok_def)
  have one: "count (held s) k \<le> 1" for k using fin by (simp add: h count_mset_set')
  have "count (mset (map requestKey (qs_tasks s))) k \<le> 1" for k
    using one [of k] unfolding held_def by simp
  then have "distinct (map requestKey (qs_tasks s))"
    by (metis distinct_count_atmost_1 count_mset_0_iff le_antisym less_one linorder_not_le nle_le zero_le)
  with ok h one show ?thesis by (simp add: queue_ok_def)
qed

text \<open>No key is leaked: when no caller is inside Enqueue, no worker is busy and the channel is
  empty, the pending set is empty, so the next request for any asset is accepted again.\<close>

theorem queue_quiescent_empty:
  assumes "queue_reachable cfg workers callers s" and "set (qs_enq s) \<subseteq> {EnqIdle}"
    and "\<forall>w\<in>set (qs_workers s). worker_keys w = {#}" and "qs_tasks s = []"
  shows "qs_pending s = {}"
proof -
  have "enq_held es = {#}" if "set es \<subseteq> {EnqIdle}" for es
    using that by (induction es) (auto simp: enq_held_def)
  moreover have "worker_held ws = {#}" if "\<forall>w\<in>set ws. worker_keys w = {#}" for ws
    using that by (induction ws) (auto simp: worker_held_def)
  ultimately have "held s = {#}" using assms(2-4) by (simp add: held_def)
  with queue_reachable_ok [OF assms(1)] show ?thesis
    by (simp add: queue_ok_def) (metis mset_set_empty_iff infinite_imp_nonempty)
qed

text \<open>Run without interference, \<open>Enqueue\<close> returns within seven steps with the effect of its
  sequential reading: refused, a duplicate, dropped with its key removed, or queued.\<close>

theorem Enqueue_uninterrupted:
  assumes "queue_reachable cfg workers callers s" and "\<not> qs_closing s"
  shows "enq_run cfg 7 (EnqCalled r) s = (EnqIdle, Enqueue cfg r s)"
proof -
  from queue_reachable_ok [OF assms(1)] assms(2)
  have "qs_closer s = CloseIdle" "\<not> qs_closed s" by (auto simp: queue_ok_def closer_ok_def)
  with assms(2) show ?thesis by (intro enq_run_Enqueue)
qed

definition example_lazy :: Compression where
  "example_lazy =
     \<lparr> cc_Enable = True, cc_Mode = ''lazy'', cc_CacheDir = ''cache'', cc_MinSize = 1024, cc_Workers = 2,
       cc_QueueSize = 3, cc_Encodings = ''br,gzip'', cc_CleanupEvery = [], cc_MaxAge = [], cc_ImageMaxAge = [],
       cc_EncodingMaxAge = [], cc_MaxCacheBytes = 0, cc_EncodingMaxCacheBytes = 0, cc_ImageMaxCacheBytes = 0,
       cc_BrotliQuality = 5, cc_ZstdLevel = 3, cc_GzipLevel = 6 \<rparr>"

definition example_queue :: queue_state where
  "example_queue = startWorkers (newServiceState (resolveQueueSize example_lazy 2) 1) 2"

definition example_queued :: queue_state where
  "example_queued = Enqueue example_lazy (example_pipeline_request [''br'']) example_queue"

lemma example_queue_reachable: "queue_reachable example_lazy 2 1 example_queue"
  unfolding example_queue_def by (rule queue_reachable.start)

lemma example_queued_eq:
  "example_queued =
     example_queue\<lparr>qs_pending := {requestKey (example_pipeline_request [''br''])},
       qs_tasks := [example_pipeline_request [''br'']], qs_accepted := [example_pipeline_request [''br'']]\<rparr>"
proof -
  have "PipelineEnabled example_lazy" "NormalizedMode example_lazy = CompressionModeLazy"
    "trim_space (pr_AssetPath (example_pipeline_request [''br''])) \<noteq> []"
    "qs_cap example_queue = 3"
    by code_simp+
  then show ?thesis
    by (simp add: example_queued_def Enqueue_def Let_def example_queue_def startWorkers_def newServiceState_def)
qed

lemma example_queued_reachable: "queue_reachable example_lazy 2 1 example_queued"
proof -
  have idle: "qs_enq example_queue = [EnqIdle]" "qs_enq example_queued = [EnqIdle]"
    "qs_closer example_queue = CloseIdle" "\<not> qs_closing example_queue" "\<not> qs_closed example_queue"
    by (simp_all add: example_queued_eq) (simp_all add: example_queue_def startWorkers_def newServiceState_def)
  have "queue_step example_lazy example_queue
      (example_queue\<lparr>qs_enq := (qs_enq example_queue)[0 := EnqCalled (example_pipeline_request [''br''])]\<rparr>)"
    by (rule queue_step.call) (simp_all add: idle)
  with example_queue_reachable have "queue_reachable example_lazy 2 1
      (example_queue\<lparr>qs_enq := [EnqIdle][0 := EnqCalled (example_pipeline_request [''br''])]\<rparr>)"
    by (metis idle(1) queue_reachable.step)
  from enq_run_reachable [OF enq_run_Enqueue [OF idle(3-5)] _ this]
  have "queue_reachable example_lazy 2 1 (example_queued\<lparr>qs_enq := [EnqIdle]\<rparr>)"
    by (simp add: example_queued_def)
  moreover have "example_queued\<lparr>qs_enq := [EnqIdle]\<rparr> = example_queued"
    using idle(2) by (metis queue_state.surjective queue_state.update_convs(10))
  ultimately show ?thesis by simp
qed

theorem queue_safe_witness:
  "distinct (map requestKey (qs_tasks example_queued)) \<and> length (qs_tasks example_queued) \<le> qs_cap example_queued \<and>
   qs_tasks example_queued \<noteq> []"
  using queue_safe [OF example_queued_reachable] by (simp add: example_queued_eq)

theorem queue_quiescent_empty_witness: "qs_pending example_queue = {}"
  by (rule queue_quiescent_empty [OF example_queue_reachable])
    (auto simp: example_queue_def startWorkers_def newServiceState_def)

theorem Enqueue_uninterrupted_witness:
  "enq_run example_lazy 7 (EnqCalled (example_pipeline_request [''br''])) example_queued =
     (EnqIdle, Enqueue example_lazy (example_pipeline_request [''br'']) example_queued)"
  by (rule Enqueue_uninterrupted [OF example_queued_reachable])
    (simp add: example_queued_eq example_queue_def startWorkers_def newServiceState_def)

end
