(* ===== verification/Artifact.thy ===== *)
theory Artifact
  imports Media Metadata
begin

text \<open>
  \<open>internal/artifact\<close>: the store of generated artifacts (\<open>store.go\<close>, \<open>store_path.go\<close>).

  The store writes through an \<open>os.Root\<close>, so its file system is the tree below the root: a map
  from slash paths relative to the root to nodes.  Operations of the operating system may fail:
  \<open>fault\<close> tells which calls do, and whether a failed write leaves a partial file.  A symbolic link
  carries its target below the root; following a chain of links is not modelled, only one link.
  What \<open>Lstat\<close>, \<open>OpenRoot\<close> and \<open>SameFile\<close> say about the root directory itself is the record
  \<open>root_view\<close>, with the identities of files as numbers.
\<close>

section \<open>Paths\<close>

datatype artifact_error =
    ErrUnsafePath | ErrMissingRoot | ErrRootReplaced | ErrRootSymlink | ErrRootNotDirectory
  | ErrSymlinkSegment | errArtifactParentNotDirectory | errArtifactTargetDirectory
  | ErrIO string | ErrIOBoth string string

definition cleanArtifactAssetPath :: "string \<Rightarrow> artifact_error + string" where
  "cleanArtifactAssetPath raw =
     (let trimmed = trim_char CHR ''/'' (trim_space raw)
      in if trimmed = [] then Inr ''index''
         else if CHR 0x00 \<in> set trimmed \<or> CHR 0x5C \<in> set trimmed \<or> path_is_abs trimmed then Inl ErrUnsafePath
         else (let cleaned = path_clean trimmed
               in if cleaned = ''.'' \<or> cleaned = ''..'' \<or> has_prefix cleaned ''../'' \<or>
                     HasUnsafePortablePathSegment cleaned
                  then Inl ErrUnsafePath else Inr cleaned))"

definition cleanArtifactSegment :: "string \<Rightarrow> artifact_error + string" where
  "cleanArtifactSegment raw =
     (let segment = trim_space raw
      in if segment = [] \<or> CHR ''/'' \<in> set segment \<or> CHR 0x5C \<in> set segment \<or> CHR 0x00 \<in> set segment \<or>
            IsUnsafePortablePathSegment segment
         then Inl ErrUnsafePath else Inr segment)"

definition validateArtifactSuffix :: "string \<Rightarrow> artifact_error option" where
  "validateArtifactSuffix sfx =
     (if CHR ''/'' \<in> set sfx \<or> CHR 0x5C \<in> set sfx \<or> CHR 0x00 \<in> set sfx \<or>
         HasUnsafePortablePathSegment sfx
      then Some ErrUnsafePath else None)"

definition artifactRelativePath ::
    "string \<Rightarrow> string \<Rightarrow> string \<Rightarrow> string \<Rightarrow> artifact_error + string" where
  "artifactRelativePath assetPath sourceHash ns sfx =
     (case cleanArtifactAssetPath assetPath of
        Inl e \<Rightarrow> Inl e
      | Inr clean \<Rightarrow>
          (case cleanArtifactSegment ns of
             Inl e \<Rightarrow> Inl e
           | Inr n \<Rightarrow>
               (case cleanArtifactSegment sourceHash of
                  Inl e \<Rightarrow> Inl e
                | Inr h \<Rightarrow>
                    (case validateArtifactSuffix sfx of
                       Some e \<Rightarrow> Inl e
                     | None \<Rightarrow> Inr (path_join [n, h, clean @ sfx])))))"

definition unsafeArtifactFilesystemPath :: "string \<Rightarrow> bool" where
  "unsafeArtifactFilesystemPath p \<longleftrightarrow>
     p = ''.'' \<or> path_is_abs p \<or> p = ''..'' \<or> has_prefix p ''../''"

definition unsafeArtifactSlashPath :: "string \<Rightarrow> bool" where
  "unsafeArtifactSlashPath p \<longleftrightarrow>
     p = ''.'' \<or> p = ''..'' \<or> has_prefix p ''../'' \<or> HasUnsafePortablePathSegment p"

text \<open>\<open>filepath.Abs\<close>, and \<open>filepath.Rel\<close> between two absolute paths.\<close>

definition path_abs :: "string \<Rightarrow> string \<Rightarrow> string" where
  "path_abs cwd p = (if path_is_abs p then path_clean p else path_join [cwd, p])"

definition path_segs :: "string \<Rightarrow> string list" where
  "path_segs p = filter (\<lambda>s. s \<noteq> []) (split_on CHR ''/'' p)"

fun strip_common :: "string list \<Rightarrow> string list \<Rightarrow> string list \<times> string list" where
  "strip_common (a # as) (b # bs) = (if a = b then strip_common as bs else (a # as, b # bs))"
| "strip_common as bs = (as, bs)"

definition path_rel :: "string \<Rightarrow> string \<Rightarrow> string" where
  "path_rel base targ =
     (if path_clean base = path_clean targ then ''.''
      else (case strip_common (path_segs (path_clean base)) (path_segs (path_clean targ)) of
              (bs, ts) \<Rightarrow> join_with ''/'' (replicate (length bs) ''..'' @ ts)))"

definition path_dir :: "string \<Rightarrow> string" where
  "path_dir p = path_clean (rev (dropWhile (\<lambda>c. c \<noteq> CHR ''/'') (rev p)))"

section \<open>The store\<close>

record LocalStore =
  ls_root :: string
  ls_info :: nat

datatype root_kind = RootDir | RootLink | RootOther

record root_view =
  rw_mkdir :: bool
  rw_lstat :: "(root_kind \<times> nat) option"
  rw_open :: "nat option"

definition normalizeArtifactRoot :: "string \<Rightarrow> string \<Rightarrow> artifact_error + string" where
  "normalizeArtifactRoot cwd root0 =
     (let trimmed = trim_space root0
      in if trimmed = [] then Inl ErrMissingRoot else Inr (path_abs cwd (path_clean trimmed)))"

definition newLocalStore :: "string \<Rightarrow> root_view \<Rightarrow> string \<Rightarrow> artifact_error + LocalStore" where
  "newLocalStore cwd view root0 =
     (case normalizeArtifactRoot cwd root0 of
        Inl e \<Rightarrow> Inl e
      | Inr r \<Rightarrow>
          (if \<not> rw_mkdir view then Inl (ErrIO ''mkdir'')
           else (case rw_lstat view of
                   None \<Rightarrow> Inl (ErrIO ''lstat'')
                 | Some (kind, ident) \<Rightarrow>
                     (if kind = RootLink then Inl ErrRootSymlink
                      else if kind \<noteq> RootDir then Inl ErrRootNotDirectory
                      else (case rw_open view of
                              None \<Rightarrow> Inl (ErrIO ''open'')
                            | Some opened \<Rightarrow>
                                (if ident \<noteq> opened then Inl ErrRootReplaced
                                 else Inr \<lparr> ls_root = r, ls_info = ident \<rparr>))))))"

definition PathFor :: "LocalStore \<Rightarrow> string \<Rightarrow> string \<Rightarrow> string \<Rightarrow> string \<Rightarrow> artifact_error + string" where
  "PathFor s assetPath sourceHash ns sfx =
     (case artifactRelativePath assetPath sourceHash ns sfx of
        Inl e \<Rightarrow> Inl e
      | Inr rel \<Rightarrow> Inr (path_join [ls_root s, rel]))"

definition relativePath :: "LocalStore \<Rightarrow> string \<Rightarrow> string \<Rightarrow> artifact_error + string" where
  "relativePath s cwd fullPath =
     (let absolute = path_abs cwd (path_clean (trim_space fullPath));
          rel = path_rel (ls_root s) absolute
      in if unsafeArtifactFilesystemPath rel then Inl ErrUnsafePath
         else if unsafeArtifactSlashPath rel then Inl ErrUnsafePath
         else Inr rel)"

definition openValidatedRoot :: "LocalStore \<Rightarrow> root_view \<Rightarrow> artifact_error option" where
  "openValidatedRoot s view =
     (case rw_open view of
        None \<Rightarrow> Some (ErrIO ''open'')
      | Some opened \<Rightarrow>
          (case rw_lstat view of
             None \<Rightarrow> Some (ErrIO ''lstat'')
           | Some (kind, current) \<Rightarrow>
               (if kind = RootLink \<or> kind \<noteq> RootDir \<or> opened \<noteq> current \<or> ls_info s \<noteq> current
                then Some ErrRootReplaced else None)))"

section \<open>Writing\<close>

datatype fs_node = NDir | NFile bytes | NLink string

type_synonym fs = "string \<rightharpoonup> fs_node"

datatype fs_call = CallLstat string | CallMkdir string | CallWrite string | CallRename string string | CallRemove string

datatype fs_fault = FailClean | FailPartial bytes

type_synonym faults = "fs_call \<Rightarrow> fs_fault option"

definition validateExistingArtifactParent :: "fs_node \<Rightarrow> artifact_error option" where
  "validateExistingArtifactParent node =
     (case node of
        NLink _ \<Rightarrow> Some ErrSymlinkSegment
      | NFile _ \<Rightarrow> Some errArtifactParentNotDirectory
      | NDir \<Rightarrow> None)"

definition createArtifactParent :: "faults \<Rightarrow> fs \<Rightarrow> string \<Rightarrow> artifact_error option \<times> fs" where
  "createArtifactParent fault fs current =
     (case fault (CallMkdir current) of
        Some _ \<Rightarrow> (Some (ErrIO ''mkdir''), fs)
      | None \<Rightarrow> (case fs current of Some _ \<Rightarrow> (None, fs) | None \<Rightarrow> (None, fs(current \<mapsto> NDir))))"

definition ensureArtifactParentSegment :: "faults \<Rightarrow> fs \<Rightarrow> string \<Rightarrow> artifact_error option \<times> fs" where
  "ensureArtifactParentSegment fault fs current =
     (case fault (CallLstat current) of
        Some _ \<Rightarrow> (Some (ErrIO ''lstat''), fs)
      | None \<Rightarrow>
          (case fs current of
             Some node \<Rightarrow> (validateExistingArtifactParent node, fs)
           | None \<Rightarrow> createArtifactParent fault fs current))"

definition nextArtifactParentPath :: "string \<Rightarrow> string \<Rightarrow> string" where
  "nextArtifactParentPath current segment =
     (if segment = [] then current else path_join [current, segment])"

fun ensure_parent_loop :: "faults \<Rightarrow> fs \<Rightarrow> string \<Rightarrow> string list \<Rightarrow> artifact_error option \<times> fs" where
  "ensure_parent_loop fault fs current [] = (None, fs)"
| "ensure_parent_loop fault fs current (segment # segments) =
     (let next = nextArtifactParentPath current segment
      in if next = [] then ensure_parent_loop fault fs next segments
         else (case ensureArtifactParentSegment fault fs next of
                 (Some e, fs') \<Rightarrow> (Some e, fs')
               | (None, fs') \<Rightarrow> ensure_parent_loop fault fs' next segments))"

definition ensureArtifactParent :: "faults \<Rightarrow> fs \<Rightarrow> string \<Rightarrow> artifact_error option \<times> fs" where
  "ensureArtifactParent fault fs relativeDir =
     (if relativeDir = ''.'' \<or> relativeDir = [] then (None, fs)
      else ensure_parent_loop fault fs [] (split_on CHR ''/'' relativeDir))"

definition rejectExistingArtifactSymlink :: "faults \<Rightarrow> fs \<Rightarrow> string \<Rightarrow> artifact_error option" where
  "rejectExistingArtifactSymlink fault fs p =
     (case fault (CallLstat p) of
        Some _ \<Rightarrow> Some (ErrIO ''lstat'')
      | None \<Rightarrow>
          (case fs p of
             None \<Rightarrow> None
           | Some (NLink _) \<Rightarrow> Some ErrSymlinkSegment
           | Some NDir \<Rightarrow> Some errArtifactTargetDirectory
           | Some (NFile _) \<Rightarrow> None))"

text \<open>\<open>Root.WriteFile\<close>, \<open>Root.Rename\<close> and \<open>Root.Remove\<close>; the first component tells success.\<close>

definition write_target :: "fs \<Rightarrow> string \<Rightarrow> string" where
  "write_target fs p = (case fs p of Some (NLink t) \<Rightarrow> t | _ \<Rightarrow> p)"

definition os_write :: "faults \<Rightarrow> fs \<Rightarrow> string \<Rightarrow> bytes \<Rightarrow> bool \<times> fs" where
  "os_write fault fs p data =
     (case fault (CallWrite p) of
        Some FailClean \<Rightarrow> (False, fs)
      | Some (FailPartial part) \<Rightarrow> (False, fs(write_target fs p \<mapsto> NFile part))
      | None \<Rightarrow> if fs p = Some NDir then (False, fs) else (True, fs(write_target fs p \<mapsto> NFile data)))"

definition os_rename :: "faults \<Rightarrow> fs \<Rightarrow> string \<Rightarrow> string \<Rightarrow> bool \<times> fs" where
  "os_rename fault fs p q =
     (case fault (CallRename p q) of
        Some _ \<Rightarrow> (False, fs)
      | None \<Rightarrow>
          (case fs p of
             None \<Rightarrow> (False, fs)
           | Some node \<Rightarrow> if fs q = Some NDir then (False, fs) else (True, (fs(p := None))(q \<mapsto> node))))"

definition os_remove :: "faults \<Rightarrow> fs \<Rightarrow> string \<Rightarrow> bool \<times> fs" where
  "os_remove fault fs p =
     (case fault (CallRemove p) of Some _ \<Rightarrow> (False, fs) | None \<Rightarrow> (True, fs(p := None)))"

definition tmp_path :: "string \<Rightarrow> time \<Rightarrow> string" where
  "tmp_path rel now = rel @ ''.tmp-'' @ itoa (unix_nano now)"

definition write_artifact :: "faults \<Rightarrow> time \<Rightarrow> fs \<Rightarrow> string \<Rightarrow> bytes \<Rightarrow> artifact_error option \<times> fs" where
  "write_artifact fault now fs rel data =
     (case ensureArtifactParent fault fs (path_dir rel) of
        (Some e, fs1) \<Rightarrow> (Some e, fs1)
      | (None, fs1) \<Rightarrow>
          (case rejectExistingArtifactSymlink fault fs1 rel of
             Some e \<Rightarrow> (Some e, fs1)
           | None \<Rightarrow>
               (case os_write fault fs1 (tmp_path rel now) data of
                  (False, fs2) \<Rightarrow> (Some (ErrIO ''write''), fs2)
                | (True, fs2) \<Rightarrow>
                    (case os_rename fault fs2 (tmp_path rel now) rel of
                       (True, fs3) \<Rightarrow> (None, fs3)
                     | (False, fs3) \<Rightarrow>
                         (case os_remove fault fs3 (tmp_path rel now) of
                            (True, fs4) \<Rightarrow> (Some (ErrIO ''rename''), fs4)
                          | (False, fs4) \<Rightarrow> (Some (ErrIOBoth ''rename'' ''remove''), fs4))))))"

definition Write ::
    "LocalStore \<Rightarrow> string \<Rightarrow> root_view \<Rightarrow> faults \<Rightarrow> time \<Rightarrow> fs \<Rightarrow> string \<Rightarrow> bytes \<Rightarrow> artifact_error option \<times> fs" where
  "Write s cwd view fault now fs artifactPath data =
     (case relativePath s cwd artifactPath of
        Inl e \<Rightarrow> (Some e, fs)
      | Inr rel \<Rightarrow>
          (case openValidatedRoot s view of
             Some e \<Rightarrow> (Some e, fs)
           | None \<Rightarrow> write_artifact fault now fs rel data))"

section \<open>Containment\<close>

text \<open>Paths as lists of proper segments.\<close>

definition proper :: "string list \<Rightarrow> bool" where
  "proper xs \<longleftrightarrow> (\<forall>x\<in>set xs. is_canonical x \<and> CHR ''/'' \<notin> set x)"

lemma proper_simps [simp]:
  "proper []" "proper (x # xs) \<longleftrightarrow> is_canonical x \<and> CHR ''/'' \<notin> set x \<and> proper xs"
  "proper (xs @ ys) \<longleftrightarrow> proper xs \<and> proper ys"
  by (auto simp: proper_def)

lemma split_proper: "xs \<noteq> [] \<Longrightarrow> proper xs \<Longrightarrow> split_on CHR ''/'' (join_with ''/'' xs) = xs"
  by (rule split_join) (auto simp: proper_def)

lemma clean_proper: "proper xs \<Longrightarrow> clean_segs r [] xs = xs"
  using clean_segs_canonical [of xs r "[]"] by (auto simp: proper_def)

lemma join_append: "xs \<noteq> [] \<Longrightarrow> ys \<noteq> [] \<Longrightarrow> join_with ''/'' (xs @ ys) = join_with ''/'' xs @ ''/'' @ join_with ''/'' ys"
proof (induction xs)
  case (Cons x xs)
  then show ?case by (cases xs; cases ys) auto
qed simp

lemma join_last: "join_with ''/'' (xs @ [l @ s]) = join_with ''/'' (xs @ [l]) @ s"
proof (induction xs)
  case (Cons x xs)
  then show ?case by (cases xs) auto
qed simp

lemma proper_join_ne:
  assumes "xs \<noteq> []" and "proper xs"
  shows "\<exists>c t. join_with ''/'' xs = c # t \<and> c \<noteq> CHR ''/''"
proof -
  obtain x ys where xs: "xs = x # ys" using assms(1) by (cases xs) auto
  with assms(2) obtain c t where "x = c # t" "c \<noteq> CHR ''/''"
    by (cases x) (auto simp: is_canonical_def)
  then show ?thesis by (cases ys) (simp_all add: xs)
qed

lemma path_clean_proper: "xs \<noteq> [] \<Longrightarrow> proper xs \<Longrightarrow> path_clean (join_with ''/'' xs) = join_with ''/'' xs"
proof -
  assume xs: "xs \<noteq> []" "proper xs"
  from proper_join_ne [OF this] obtain c t where "join_with ''/'' xs = c # t" "c \<noteq> CHR ''/''" by blast
  with split_proper [OF xs] clean_proper [OF xs(2)] xs(1) show ?thesis by (simp add: path_clean_def Let_def)
qed

lemma split_rooted: "split_on CHR ''/'' (CHR ''/'' # s) = [] # split_on CHR ''/'' s"
  by simp

lemma clean_rooted_proper: "proper xs \<Longrightarrow> clean_segs True [] (split_on CHR ''/'' (join_with ''/'' xs)) = xs"
  by (cases "xs = []") (simp_all add: split_proper clean_proper)

lemma path_clean_rooted_proper:
  "proper xs \<Longrightarrow> path_clean (CHR ''/'' # join_with ''/'' xs) = CHR ''/'' # join_with ''/'' xs"
  by (simp add: path_clean_rooted clean_rooted_proper)

lemma path_segs_rooted: "proper xs \<Longrightarrow> path_segs (CHR ''/'' # join_with ''/'' xs) = xs"
proof (cases "xs = []")
  case False
  assume "proper xs"
  with split_proper [OF False this] show ?thesis
    by (auto simp: path_segs_def proper_def is_canonical_def intro!: filter_True)
qed (simp add: path_segs_def)

lemma path_join_rooted:
  assumes "proper rs" and "xs \<noteq> []" and "proper xs"
  shows "path_join [CHR ''/'' # join_with ''/'' rs, join_with ''/'' xs] = CHR ''/'' # join_with ''/'' (rs @ xs)"
proof -
  have ne: "join_with ''/'' xs \<noteq> []" using proper_join_ne [OF assms(2,3)] by auto
  show ?thesis
  proof (cases "rs = []")
    case True
    with ne assms split_proper [OF assms(2,3)] clean_proper [OF assms(3)] show ?thesis
      by (simp add: path_join_def path_clean_rooted)
  next
    case False
    have "path_join [CHR ''/'' # join_with ''/'' rs, join_with ''/'' xs] =
        path_clean (CHR ''/'' # join_with ''/'' (rs @ xs))"
      using ne join_append [OF False assms(2)] by (simp add: path_join_def)
    then show ?thesis using assms by (simp add: path_clean_rooted_proper)
  qed
qed

lemma path_clean_abs_proper:
  assumes "path_is_abs p"
  shows "\<exists>xs. proper xs \<and> path_clean p = CHR ''/'' # join_with ''/'' xs"
proof -
  obtain s where p: "p = CHR ''/'' # s"
    using assms by (auto simp: path_is_abs_def gostr prefix_def)
  define xs where "xs = clean_segs True [] (split_on CHR ''/'' p)"
  have "is_canonical x \<and> CHR ''/'' \<notin> set x" if "x \<in> set xs" for x
    using that clean_segs_rooted_canonical [of "[]" x "split_on CHR ''/'' p"]
      clean_segs_subset [of True "[]" "split_on CHR ''/'' p"] split_on_no_sep [of x "CHR ''/''" p]
    by (auto simp: xs_def)
  then have "proper xs" by (simp add: proper_def)
  moreover have "path_clean p = CHR ''/'' # join_with ''/'' xs" by (simp add: p path_clean_rooted xs_def)
  ultimately show ?thesis by blast
qed

lemma path_abs_proper:
  assumes "path_is_abs cwd"
  shows "\<exists>xs. proper xs \<and> path_abs cwd p = CHR ''/'' # join_with ''/'' xs"
proof (cases "path_is_abs p")
  case True
  with path_clean_abs_proper show ?thesis by (simp add: path_abs_def)
next
  case False
  obtain c where cwd: "cwd = CHR ''/'' # c" using assms by (auto simp: path_is_abs_def gostr prefix_def)
  have "path_join [cwd, p] = path_clean (if p = [] then cwd else cwd @ ''/'' @ p)"
    by (simp add: path_join_def cwd)
  moreover have "path_is_abs (if p = [] then cwd else cwd @ ''/'' @ p)"
    by (simp add: cwd path_is_abs_def gostr)
  ultimately show ?thesis using path_clean_abs_proper False by (simp add: path_abs_def)
qed

lemma strip_common_split: "strip_common as bs = (xs, ys) \<Longrightarrow> \<exists>cs. as = cs @ xs \<and> bs = cs @ ys"
proof (induction as bs arbitrary: xs ys rule: strip_common.induct)
  case (1 a as b bs)
  then show ?case by (auto split: if_splits)
qed auto

lemma strip_common_append: "strip_common as (as @ bs) = ([], bs)"
  by (induction as; cases bs) simp_all

lemma path_rel_safe:
  assumes r: "proper r" and t: "proper t"
    and safe: "\<not> unsafeArtifactFilesystemPath (path_rel (CHR ''/'' # join_with ''/'' r) (CHR ''/'' # join_with ''/'' t))"
  shows "\<exists>xs. xs \<noteq> [] \<and> t = r @ xs \<and>
    path_rel (CHR ''/'' # join_with ''/'' r) (CHR ''/'' # join_with ''/'' t) = join_with ''/'' xs"
proof -
  obtain bs xs where st: "strip_common r t = (bs, xs)" by (cases "strip_common r t")
  from strip_common_split [OF st] obtain cs where cs: "r = cs @ bs" "t = cs @ xs" by blast
  define rel where "rel = path_rel (CHR ''/'' # join_with ''/'' r) (CHR ''/'' # join_with ''/'' t)"
  have dot: "rel \<noteq> ''.''" "rel \<noteq> ''..''" "\<not> has_prefix rel ''../''"
    using safe by (simp_all add: unsafeArtifactFilesystemPath_def rel_def)
  then have ne: "CHR ''/'' # join_with ''/'' r \<noteq> CHR ''/'' # join_with ''/'' t"
    using r t by (auto simp: rel_def path_rel_def)
  have rel: "rel = join_with ''/'' (replicate (length bs) ''..'' @ xs)"
    using ne r t st by (simp add: rel_def path_rel_def path_clean_rooted_proper path_segs_rooted)
  have "bs = []"
  proof (rule ccontr)
    assume "bs \<noteq> []"
    then obtain n where n: "length bs = Suc n" by (cases bs) auto
    show False
    proof (cases "replicate n ''..'' @ xs")
      case Nil
      with dot(2) show False by (simp add: rel n)
    next
      case (Cons y ys)
      then have "rel = ''../'' @ join_with ''/'' (y # ys)" by (simp add: rel n)
      with dot(3) show False by (simp add: gostr)
    qed
  qed
  with cs ne rel show ?thesis by (auto simp: rel_def)
qed

lemma path_rel_append:
  assumes "proper r" and "proper xs" and "xs \<noteq> []"
  shows "path_rel (CHR ''/'' # join_with ''/'' r) (CHR ''/'' # join_with ''/'' (r @ xs)) = join_with ''/'' xs"
proof -
  have "join_with ''/'' r \<noteq> join_with ''/'' (r @ xs)"
    using path_segs_rooted [of r] path_segs_rooted [of "r @ xs"] assms by (metis append_self_conv proper_simps(3))
  with assms show ?thesis
    by (simp add: path_rel_def path_clean_rooted_proper path_segs_rooted strip_common_append)
qed

definition rooted_at :: "LocalStore \<Rightarrow> string list \<Rightarrow> bool" where
  "rooted_at s rs \<longleftrightarrow> proper rs \<and> ls_root s = CHR ''/'' # join_with ''/'' rs"

lemma newLocalStore_rooted:
  assumes "path_is_abs cwd" and "newLocalStore cwd view root0 = Inr s"
  shows "\<exists>rs. rooted_at s rs"
  using assms path_abs_proper [OF assms(1), of "path_clean (trim_space root0)"]
  by (auto simp: newLocalStore_def normalizeArtifactRoot_def rooted_at_def Let_def
      split: if_splits option.splits sum.splits prod.splits)

lemma relativePath_proper:
  assumes "rooted_at s rs" and "path_is_abs cwd" and "relativePath s cwd p = Inr rel"
  shows "\<exists>xs. xs \<noteq> [] \<and> proper xs \<and> rel = join_with ''/'' xs"
proof -
  obtain t where t: "proper t" "path_abs cwd (path_clean (trim_space p)) = CHR ''/'' # join_with ''/'' t"
    using path_abs_proper [OF assms(2)] by blast
  have "\<not> unsafeArtifactFilesystemPath (path_rel (ls_root s) (path_abs cwd (path_clean (trim_space p))))"
    and rel: "rel = path_rel (ls_root s) (path_abs cwd (path_clean (trim_space p)))"
    using assms(3) by (auto simp: relativePath_def Let_def split: if_splits)
  with assms(1) t path_rel_safe [of rs t] show ?thesis
    by (auto simp: rooted_at_def)
qed

lemma path_clean_relative_proper:
  assumes t: "t \<noteq> []" "\<not> path_is_abs t" and clean: "clean = path_clean t"
    and safe: "clean \<noteq> ''.''" "clean \<noteq> ''..''" "\<not> has_prefix clean ''../''"
  shows "\<exists>xs. xs \<noteq> [] \<and> proper xs \<and> clean = join_with ''/'' xs"
proof -
  define xs where "xs = clean_segs False [] (split_on CHR ''/'' t)"
  obtain c u where cu: "t = c # u" "c \<noteq> CHR ''/''"
    using t by (cases t) (auto simp: path_is_abs_def gostr)
  have clean': "clean = (if xs = [] then ''.'' else join_with ''/'' xs)"
    using cu by (simp add: clean path_clean_def Let_def xs_def)
  with safe have ne: "xs \<noteq> []" "clean = join_with ''/'' xs" by auto
  have "dotdots_first xs"
    unfolding xs_def by (rule clean_segs_dotdots_first) (auto simp: dotdots_first_def intro!: exI [of _ 0])
  then obtain n ys where n: "xs = replicate n ''..'' @ ys" "\<forall>y\<in>set ys. is_canonical y"
    by (auto simp: dotdots_first_def)
  have "n = 0"
  proof (rule ccontr)
    assume "n \<noteq> 0"
    then obtain m where m: "n = Suc m" by (cases n) auto
    show False
    proof (cases "replicate m ''..'' @ ys")
      case Nil
      with safe ne n m show False by simp
    next
      case (Cons z zs)
      then have "clean = ''../'' @ join_with ''/'' (z # zs)" by (simp add: ne n(1) m)
      with safe(3) show False by (simp add: gostr)
    qed
  qed
  moreover have "CHR ''/'' \<notin> set x" if "x \<in> set xs" for x
    using that clean_segs_subset [of False "[]" "split_on CHR ''/'' t"] split_on_no_sep [of x "CHR ''/''" t]
    by (auto simp: xs_def)
  ultimately have "proper xs" using n by (auto simp: proper_def)
  with ne show ?thesis by blast
qed

lemma cleanArtifactAssetPath_proper:
  assumes "cleanArtifactAssetPath raw = Inr clean"
  shows "\<exists>xs. xs \<noteq> [] \<and> proper xs \<and> clean = join_with ''/'' xs"
proof (cases "trim_char CHR ''/'' (trim_space raw) = []")
  case True
  with assms have "clean = join_with ''/'' [''index'']" by (simp add: cleanArtifactAssetPath_def)
  then show ?thesis by (intro exI [of _ "[''index'']"]) (simp add: is_canonical_def)
next
  case False
  with assms show ?thesis
    by (intro path_clean_relative_proper [of "trim_char CHR ''/'' (trim_space raw)"])
      (auto simp: cleanArtifactAssetPath_def Let_def split: if_splits)
qed

lemma cleanArtifactSegment_proper:
  "cleanArtifactSegment raw = Inr n \<Longrightarrow> n = trim_space raw \<and> proper [n]"
  using safe_segment_canonical by (auto simp: cleanArtifactSegment_def Let_def split: if_splits)

lemma artifactRelativePath_proper:
  assumes "artifactRelativePath assetPath sourceHash ns sfx = Inr rel"
  shows "\<exists>xs. xs \<noteq> [] \<and> proper (trim_space ns # trim_space sourceHash # xs) \<and>
    rel = join_with ''/'' (trim_space ns # trim_space sourceHash # xs)"
proof -
  obtain clean where clean: "cleanArtifactAssetPath assetPath = Inr clean"
    and n: "cleanArtifactSegment ns = Inr (trim_space ns)" "proper [trim_space ns]"
    and h: "cleanArtifactSegment sourceHash = Inr (trim_space sourceHash)" "proper [trim_space sourceHash]"
    and sfx: "validateArtifactSuffix sfx = None"
    and rel: "rel = path_join [trim_space ns, trim_space sourceHash, clean @ sfx]"
    using assms by (auto simp: artifactRelativePath_def dest!: cleanArtifactSegment_proper
        split: sum.splits option.splits)
  obtain xs where xs: "xs \<noteq> []" "proper xs" "clean = join_with ''/'' xs"
    using cleanArtifactAssetPath_proper [OF clean] by blast
  obtain a l where al: "xs = a @ [l]" using xs(1) by (metis append_butlast_last_id)
  define ys where "ys = a @ [l @ sfx]"
  have "HasUnsafePortablePathSegment []" by code_simp
  then have sfx_ne: "sfx \<noteq> []" "CHR ''/'' \<notin> set sfx"
    using sfx by (auto simp: validateArtifactSuffix_def split: if_splits)
  have "is_canonical (l @ sfx)"
    using xs(2) sfx_ne by (cases l; cases "tl l"; cases sfx) (auto simp: al is_canonical_def)
  then have ys: "ys \<noteq> []" "proper ys" using xs(2) sfx_ne by (auto simp: ys_def al)
  have "clean @ sfx = join_with ''/'' ys" by (simp add: xs(3) al ys_def join_last)
  moreover have "trim_space ns \<noteq> []" "trim_space sourceHash \<noteq> []" "join_with ''/'' ys \<noteq> []"
    using n h proper_join_ne [OF ys] by (auto simp: is_canonical_def)
  moreover have "join_with ''/'' [trim_space ns, trim_space sourceHash, join_with ''/'' ys] =
      join_with ''/'' (trim_space ns # trim_space sourceHash # ys)"
    using ys(1) by (cases ys) auto
  ultimately have "rel = path_clean (join_with ''/'' (trim_space ns # trim_space sourceHash # ys))"
    by (simp add: rel path_join_def)
  moreover have pr: "proper (trim_space ns # trim_space sourceHash # ys)" using n h ys by simp
  ultimately show ?thesis using path_clean_proper [OF _ pr] ys(1) by auto
qed

text \<open>C24: an artifact path never leaves the directory of its namespace and source hash: the path of every
  artifact is the root, the namespace, the hash and at least one further proper segment.\<close>

theorem PathFor_contained:
  assumes "path_is_abs cwd" and "newLocalStore cwd view root0 = Inr s"
    and "PathFor s assetPath sourceHash ns sfx = Inr p"
  shows "\<exists>xs. xs \<noteq> [] \<and> (\<forall>x\<in>set xs. is_canonical x) \<and>
    path_segs p = path_segs (ls_root s) @ trim_space ns # trim_space sourceHash # xs \<and> path_clean p = p"
proof -
  obtain rs where rs: "rooted_at s rs" using newLocalStore_rooted [OF assms(1,2)] by blast
  obtain rel where rel: "artifactRelativePath assetPath sourceHash ns sfx = Inr rel"
    and p: "p = path_join [ls_root s, rel]"
    using assms(3) by (auto simp: PathFor_def split: sum.splits)
  obtain xs where xs: "xs \<noteq> []" "proper (trim_space ns # trim_space sourceHash # xs)"
    "rel = join_with ''/'' (trim_space ns # trim_space sourceHash # xs)"
    using artifactRelativePath_proper [OF rel] by blast
  have "p = CHR ''/'' # join_with ''/'' (rs @ trim_space ns # trim_space sourceHash # xs)"
    using rs xs path_join_rooted [OF _ _ xs(2), of rs] by (simp add: p rooted_at_def)
  moreover have "proper (rs @ trim_space ns # trim_space sourceHash # xs)" using rs xs(2) by (simp add: rooted_at_def)
  ultimately show ?thesis
    using xs rs path_segs_rooted path_clean_rooted_proper by (auto simp: rooted_at_def proper_def)
qed

text \<open>The store reads back the paths it hands out: \<open>Write\<close> finds the same relative path again, or
  refuses one whose file name became a reserved name by its suffix.\<close>

theorem PathFor_relativePath_roundtrip:
  assumes "path_is_abs cwd" and "newLocalStore cwd view root0 = Inr s"
    and "PathFor s assetPath sourceHash ns sfx = Inr p" and "is_trimmed p"
    and "artifactRelativePath assetPath sourceHash ns sfx = Inr rel"
  shows "relativePath s cwd p = (if HasUnsafePortablePathSegment rel then Inl ErrUnsafePath else Inr rel)"
proof -
  obtain rs where rs: "rooted_at s rs" using newLocalStore_rooted [OF assms(1,2)] by blast
  have p: "p = path_join [ls_root s, rel]" using assms(3,5) by (simp add: PathFor_def)
  obtain xs where xs: "xs \<noteq> []" "proper xs" "rel = join_with ''/'' xs"
    using artifactRelativePath_proper [OF assms(5)] by blast
  have pe: "p = CHR ''/'' # join_with ''/'' (rs @ xs)" "proper rs" "ls_root s = CHR ''/'' # join_with ''/'' rs"
    using rs xs path_join_rooted [OF _ xs(1,2), of rs] by (simp_all add: p rooted_at_def)
  have abs: "path_abs cwd (path_clean (trim_space p)) = p"
    using pe xs(2) assms(4) path_clean_rooted_proper [of "rs @ xs"]
    by (simp add: path_abs_def path_is_abs_def gostr)
  have "path_rel (ls_root s) p = rel"
    using path_rel_append [OF pe(2) xs(2,1)] by (simp add: pe(1,3) xs(3))
  moreover have "\<not> unsafeArtifactFilesystemPath rel \<and> rel \<noteq> ''.'' \<and> rel \<noteq> ''..'' \<and> \<not> has_prefix rel ''../''"
  proof -
    obtain y ys where y: "xs = y # ys" using xs(1) by (cases xs) auto
    have c: "is_canonical y" "CHR ''/'' \<notin> set y" using xs(2) y by auto
    have sp: "split_on CHR ''/'' rel = y # ys" using split_proper [OF xs(1,2)] xs(3) y by simp
    have "rel \<noteq> ''.''" "rel \<noteq> ''..''" using sp c by (auto simp: is_canonical_def)
    moreover have "\<not> has_prefix rel ''../''"
    proof
      assume "has_prefix rel ''../''"
      then obtain t where "rel = ''..'' @ CHR ''/'' # t" by (auto simp: gostr prefix_def)
      with split_on_append [of "CHR ''/''" "''..''" t] sp have "y = ''..''" by simp
      with c show False by (simp add: is_canonical_def)
    qed
    moreover have "\<not> path_is_abs rel"
      using proper_join_ne [OF xs(1,2)] xs(3) by (auto simp: path_is_abs_def gostr)
    ultimately show ?thesis by (simp add: unsafeArtifactFilesystemPath_def)
  qed
  ultimately show ?thesis using abs by (simp add: relativePath_def unsafeArtifactSlashPath_def)
qed

section \<open>Writes\<close>

lemma path_join_rel:
  assumes "proper ys" and "proper [x]"
  shows "path_join [join_with ''/'' ys, x] = join_with ''/'' (ys @ [x])"
proof (cases "ys = []")
  case True
  with assms path_clean_proper [of "[x]"] show ?thesis by (auto simp: path_join_def is_canonical_def)
next
  case False
  have "join_with ''/'' ys \<noteq> []" "x \<noteq> []"
    using proper_join_ne [OF False assms(1)] assms(2) by (auto simp: is_canonical_def)
  moreover have "join_with ''/'' (ys @ [x]) = join_with ''/'' ys @ ''/'' @ x"
    using join_append [OF False, of "[x]"] by simp
  ultimately show ?thesis
    using path_clean_proper [of "ys @ [x]"] assms by (simp add: path_join_def)
qed

lemma next_parent: "proper ys \<Longrightarrow> proper [x] \<Longrightarrow> nextArtifactParentPath (join_with ''/'' ys) x = join_with ''/'' (ys @ [x])"
  using path_join_rel [of ys x] by (auto simp: nextArtifactParentPath_def is_canonical_def)

text \<open>What creating the parents does to the tree.\<close>

definition only_new_dirs :: "fs \<Rightarrow> fs \<Rightarrow> string set \<Rightarrow> bool" where
  "only_new_dirs fs fs' A \<longleftrightarrow> (\<forall>q. fs' q \<noteq> fs q \<longrightarrow> q \<in> A \<and> fs q = None \<and> fs' q = Some NDir)"

lemma only_new_dirs_refl [simp]: "only_new_dirs fs fs A"
  by (simp add: only_new_dirs_def)

lemma only_new_dirs_trans:
  "only_new_dirs fs fs1 A \<Longrightarrow> only_new_dirs fs1 fs2 B \<Longrightarrow> A \<union> B \<subseteq> C \<Longrightarrow> only_new_dirs fs fs2 C"
  unfolding only_new_dirs_def by (metis UnCI option.distinct(1) subset_iff)

lemma ensure_segment:
  "ensureArtifactParentSegment fault fs d = (e, fs') \<Longrightarrow>
    only_new_dirs fs fs' {d} \<and> (e = None \<longrightarrow> fs' d = Some NDir)"
  by (auto simp: ensureArtifactParentSegment_def createArtifactParent_def validateExistingArtifactParent_def
      only_new_dirs_def split: option.splits fs_node.splits if_splits)

fun parents :: "string list \<Rightarrow> string list \<Rightarrow> string set" where
  "parents ys [] = {}"
| "parents ys (x # xs) = insert (join_with ''/'' (ys @ [x])) (parents (ys @ [x]) xs)"

lemma parents_take: "q \<in> parents ys xs \<Longrightarrow> \<exists>k. 1 \<le> k \<and> k \<le> length xs \<and> q = join_with ''/'' (ys @ take k xs)"
proof (induction xs arbitrary: ys)
  case (Cons x xs)
  show ?case
  proof (cases "q = join_with ''/'' (ys @ [x])")
    case True
    then show ?thesis by (intro exI [of _ 1]) simp
  next
    case False
    with Cons.prems have "q \<in> parents (ys @ [x]) xs" by simp
    from Cons.IH [OF this] obtain k where "k \<le> length xs" "q = join_with ''/'' ((ys @ [x]) @ take k xs)" by blast
    then show ?thesis by (intro exI [of _ "Suc k"]) simp
  qed
qed simp

lemma ensure_parent_loop_spec:
  "proper ys \<Longrightarrow> proper xs \<Longrightarrow> ensure_parent_loop fault fs (join_with ''/'' ys) xs = (e, fs') \<Longrightarrow>
    only_new_dirs fs fs' (parents ys xs) \<and> (e = None \<longrightarrow> (\<forall>q\<in>parents ys xs. fs' q = Some NDir))"
proof (induction xs arbitrary: ys fs)
  case Nil
  then show ?case by simp
next
  case (Cons x xs)
  define d where "d = join_with ''/'' (ys @ [x])"
  have nx: "nextArtifactParentPath (join_with ''/'' ys) x = d" using Cons.prems(1,2) by (simp add: next_parent d_def)
  have dn: "d \<noteq> []" using proper_join_ne [of "ys @ [x]"] Cons.prems(1,2) by (auto simp: d_def)
  obtain e1 fs1 where seg: "ensureArtifactParentSegment fault fs d = (e1, fs1)"
    by (cases "ensureArtifactParentSegment fault fs d")
  note s1 = ensure_segment [OF seg]
  show ?case
  proof (cases e1)
    case (Some err)
    with Cons.prems(3) nx dn seg have "fs' = fs1" "e = Some err" by auto
    with s1 show ?thesis by (auto simp: d_def [symmetric] intro: only_new_dirs_trans)
  next
    case None
    with Cons.prems(3) nx dn seg have "ensure_parent_loop fault fs1 d xs = (e, fs')" by simp
    with Cons.IH [of "ys @ [x]" fs1] Cons.prems(1,2)
    have ih: "only_new_dirs fs1 fs' (parents (ys @ [x]) xs)"
      "e = None \<longrightarrow> (\<forall>q\<in>parents (ys @ [x]) xs. fs' q = Some NDir)"
      by (simp_all add: d_def)
    have "fs' d = Some NDir" using ih(1) s1 None unfolding only_new_dirs_def by (metis option.distinct(1))
    moreover have "only_new_dirs fs fs' (parents ys (x # xs))"
      by (rule only_new_dirs_trans [OF _ ih(1)]) (use s1 in \<open>auto simp: d_def [symmetric]\<close>)
    ultimately show ?thesis using ih(2) by (simp add: d_def)
  qed
qed

lemma split_on_snoc_sep: "split_on c (s @ [c]) = split_on c s @ [[]]"
proof (induction s)
  case (Cons x s)
  obtain y ys where "split_on c s = y # ys" by (cases "split_on c s") auto
  with Cons show ?case by simp
qed simp

lemma clean_segs_snoc_Nil: "clean_segs r acc (segs @ [[]]) = clean_segs r acc segs"
  by (induction r acc segs rule: clean_segs.induct) auto

lemma path_dir_proper:
  assumes "proper (xs @ [x])"
  shows "path_dir (join_with ''/'' (xs @ [x])) = (if xs = [] then ''.'' else join_with ''/'' xs)"
proof (cases "xs = []")
  case True
  have dn: "dropWhile (\<lambda>c. c \<noteq> CHR ''/'') (rev x) = []" using assms by (auto simp: dropWhile_eq_Nil_conv)
  have "path_dir x = path_clean []" unfolding path_dir_def dn by simp
  with True show ?thesis by (simp add: path_clean_def)
next
  case False
  have "dropWhile (\<lambda>c. c \<noteq> CHR ''/'') (rev (join_with ''/'' xs @ ''/'' @ x)) = rev (join_with ''/'' xs @ ''/'')"
    using assms by (simp add: dropWhile_append)
  moreover have "path_clean (join_with ''/'' xs @ ''/'') = join_with ''/'' xs"
  proof -
    have xs: "proper xs" using assms by simp
    obtain c t where "join_with ''/'' xs = c # t" "c \<noteq> CHR ''/''"
      using proper_join_ne [OF False xs] by blast
    moreover have "split_on CHR ''/'' (join_with ''/'' xs @ ''/'') = xs @ [[]]"
      using split_proper [OF False xs] by (simp add: split_on_snoc_sep)
    ultimately show ?thesis
      using False xs by (simp add: path_clean_def Let_def clean_segs_snoc_Nil clean_proper)
  qed
  ultimately show ?thesis using False join_append [OF False, of "[x]"] by (simp add: path_dir_def)
qed

lemma ensureArtifactParent_spec:
  assumes "proper (xs @ [x])"
    and "ensureArtifactParent fault fs (path_dir (join_with ''/'' (xs @ [x]))) = (e, fs')"
  shows "only_new_dirs fs fs' (parents [] xs) \<and> (e = None \<longrightarrow> (\<forall>q\<in>parents [] xs. fs' q = Some NDir))"
proof (cases "xs = []")
  case True
  with assms path_dir_proper [OF assms(1)] show ?thesis by (simp add: ensureArtifactParent_def)
next
  case False
  have xs: "proper xs" using assms by simp
  have "join_with ''/'' xs \<noteq> ''.''" "join_with ''/'' xs \<noteq> []"
    using split_proper [OF False xs] xs by (auto simp: is_canonical_def)
  then have "ensure_parent_loop fault fs (join_with ''/'' []) xs = (e, fs')"
    using assms(2) path_dir_proper [OF assms(1)] False split_proper [OF False xs]
    by (simp add: ensureArtifactParent_def)
  from ensure_parent_loop_spec [OF _ xs this] show ?thesis by simp
qed

lemma parents_shorter:
  assumes "q \<in> parents [] xs"
  shows "length q < length (join_with ''/'' (xs @ [x]))"
proof -
  obtain k where k: "1 \<le> k" "k \<le> length xs" "q = join_with ''/'' (take k xs)"
    using parents_take [OF assms] by auto
  have "xs @ [x] = take k xs @ (drop k xs @ [x])" by simp
  moreover have "take k xs \<noteq> []" using k by auto
  ultimately have "join_with ''/'' (xs @ [x]) = q @ ''/'' @ join_with ''/'' (drop k xs @ [x])"
    using join_append [of "take k xs" "drop k xs @ [x]"] k(3) by (metis snoc_eq_iff_butlast)
  then show ?thesis by simp
qed

text \<open>After the parents are there, a write puts the data in place or leaves the file alone, and touches nothing but the file
  and its temporary file.\<close>

lemma write_artifact_cases:
  assumes w: "write_artifact fault now fs rel data = (e, fs')" and en: "ensureArtifactParent fault fs (path_dir rel) = (e1, fs1)"
    and same: "fs1 rel = fs rel" "fs1 (tmp_path rel now) = None" and ne: "tmp_path rel now \<noteq> rel"
  shows "(if e = None then fs' rel = Some (NFile data) \<and> fs' (tmp_path rel now) = None \<and> e1 = None else fs' rel = fs rel) \<and>
      (\<forall>q. fs' q \<noteq> fs1 q \<longrightarrow> q = rel \<or> q = tmp_path rel now)"
proof -
  define tmp where "tmp = tmp_path rel now"
  have wt: "write_target fs1 tmp = tmp" using same by (simp add: write_target_def tmp_def)
  show ?thesis
  proof (cases "e1 = None \<and> rejectExistingArtifactSymlink fault fs1 rel = None")
    case False
    then have "fs' = fs1 \<and> e \<noteq> None"
      using w en False
      by (cases e1; cases "rejectExistingArtifactSymlink fault fs1 rel") (auto simp: write_artifact_def)
    with same show ?thesis by auto
  next
    case True
    then have notdir: "fs1 rel \<noteq> Some NDir"
      by (auto simp: rejectExistingArtifactSymlink_def split: option.splits)
    show ?thesis
      using w en True same wt ne notdir unfolding tmp_def [symmetric]
      by (auto simp: write_artifact_def tmp_def [symmetric] os_write_def os_rename_def os_remove_def
          split: option.splits fs_fault.splits if_splits bool.splits)
  qed
qed

text \<open>C7: a write is atomic and confined.  When it succeeds the artifact has exactly the new content, every
  directory above it is a real directory and the temporary file is gone; when it fails, at whatever
  call, the artifact is what it was.  Nothing else changes but directories created on the way and
  the temporary file.\<close>

theorem Write_atomic:
  assumes "path_is_abs cwd" and "newLocalStore cwd view0 root0 = Inr s"
    and "relativePath s cwd p = Inr rel" and "fs (tmp_path rel now) = None"
    and "Write s cwd view fault now fs p data = (e, fs')"
  shows "(if e = None then fs' rel = Some (NFile data) \<and> fs' (tmp_path rel now) = None
      else fs' rel = fs rel) \<and>
    (\<forall>q. fs' q \<noteq> fs q \<longrightarrow> q = rel \<or> q = tmp_path rel now \<or>
       (fs q = None \<and> fs' q = Some NDir \<and> q \<in> parents [] (butlast (path_segs rel)))) \<and>
    (e = None \<longrightarrow> (\<forall>q\<in>parents [] (butlast (path_segs rel)). fs' q = Some NDir))"
proof (cases "openValidatedRoot s view")
  case (Some err)
  with assms(3,5) show ?thesis by (auto simp: Write_def)
next
  case None
  obtain rs where "rooted_at s rs" using newLocalStore_rooted [OF assms(1,2)] by blast
  from relativePath_proper [OF this assms(1,3)] obtain zs where zs: "zs \<noteq> []" "proper zs" "rel = join_with ''/'' zs"
    by blast
  obtain xs x where xs: "zs = xs @ [x]" using zs(1) by (metis append_butlast_last_id)
  have segs: "butlast (path_segs rel) = xs"
  proof -
    have "path_segs rel = zs"
      using split_proper [OF zs(1,2)] zs by (auto simp: path_segs_def proper_def is_canonical_def intro!: filter_True)
    then show ?thesis by (simp add: xs)
  qed
  define tmp where "tmp = tmp_path rel now"
  have tmp: "length rel < length tmp" by (simp add: tmp_def tmp_path_def)
  have short: "length q < length rel" if "q \<in> parents [] xs" for q
    using parents_shorter [OF that] by (simp add: zs(3) xs)
  then have np: "rel \<notin> parents [] xs" "tmp \<notin> parents [] xs" "tmp \<noteq> rel"
    using tmp short by (metis less_irrefl, metis less_asym, metis less_irrefl)
  have w: "write_artifact fault now fs rel data = (e, fs')" using assms(3,5) None by (simp add: Write_def)
  obtain e1 fs1 where en: "ensureArtifactParent fault fs (path_dir rel) = (e1, fs1)"
    by (cases "ensureArtifactParent fault fs (path_dir rel)")
  have pr: "proper (xs @ [x])" using zs(2) by (simp add: xs)
  have nd: "only_new_dirs fs fs1 (parents [] xs)" "e1 = None \<longrightarrow> (\<forall>q\<in>parents [] xs. fs1 q = Some NDir)"
    using ensureArtifactParent_spec [OF pr, of fault fs e1 fs1] en by (simp_all add: zs(3) xs)
  then have same: "fs1 rel = fs rel" "fs1 tmp = None"
    using np assms(4) unfolding only_new_dirs_def tmp_def [symmetric] by metis+
  have frame: "(\<forall>q. g q \<noteq> fs q \<longrightarrow> q = rel \<or> q = tmp \<or> (fs q = None \<and> g q = Some NDir \<and> q \<in> parents [] xs)) \<and>
      (\<forall>q\<in>parents [] xs. g q = fs1 q)"
    if "\<forall>q. g q \<noteq> fs1 q \<longrightarrow> q = rel \<or> q = tmp" for g
    using that nd(1) np unfolding only_new_dirs_def by metis
  have cases: "(if e = None then fs' rel = Some (NFile data) \<and> fs' tmp = None \<and> e1 = None else fs' rel = fs rel) \<and>
      (\<forall>q. fs' q \<noteq> fs1 q \<longrightarrow> q = rel \<or> q = tmp)"
    unfolding tmp_def by (rule write_artifact_cases [OF w en same [unfolded tmp_def] np(3) [unfolded tmp_def]])
  with frame [of fs'] nd(2) show ?thesis unfolding segs tmp_def [symmetric] by auto
qed

definition example_view :: root_view where
  "example_view = \<lparr> rw_mkdir = True, rw_lstat = Some (RootDir, 7), rw_open = Some 7 \<rparr>"

definition example_store :: LocalStore where
  "example_store = \<lparr> ls_root = ''/srv/cache'', ls_info = 7 \<rparr>"

lemma example_store_new: "newLocalStore ''/srv'' example_view ''cache/'' = Inr example_store"
  by code_simp

lemma example_path:
  "PathFor example_store ''js/app.js'' ''ab12'' ''encoding'' ''.br'' = Inr ''/srv/cache/encoding/ab12/js/app.js.br''"
  "artifactRelativePath ''js/app.js'' ''ab12'' ''encoding'' ''.br'' = Inr ''encoding/ab12/js/app.js.br''"
  "relativePath example_store ''/srv'' ''/srv/cache/encoding/ab12/js/app.js.br'' = Inr ''encoding/ab12/js/app.js.br''"
  "path_is_abs ''/srv''"
  by code_simp+

theorem PathFor_contained_witness:
  "\<exists>xs. xs \<noteq> [] \<and>
     path_segs ''/srv/cache/encoding/ab12/js/app.js.br'' = [''srv'', ''cache'', ''encoding'', ''ab12''] @ xs"
proof -
  have "path_segs (ls_root example_store) = [''srv'', ''cache'']"
    "trim_space ''encoding'' = ''encoding''" "trim_space ''ab12'' = ''ab12''"
    by code_simp+
  with PathFor_contained [OF example_path(4) example_store_new example_path(1)] show ?thesis by auto
qed

theorem PathFor_relativePath_roundtrip_witness:
  "relativePath example_store ''/srv'' ''/srv/cache/encoding/ab12/js/app.js.br'' =
     Inr ''encoding/ab12/js/app.js.br''"
proof -
  have "is_trimmed ''/srv/cache/encoding/ab12/js/app.js.br''"
    "\<not> HasUnsafePortablePathSegment ''encoding/ab12/js/app.js.br''"
    by code_simp+
  with PathFor_relativePath_roundtrip [OF example_path(4) example_store_new example_path(1) _ example_path(2)]
  show ?thesis by simp
qed

theorem Write_atomic_witness:
  "snd (Write example_store ''/srv'' example_view (\<lambda>_. None) 0 Map.empty
     ''/srv/cache/encoding/ab12/js/app.js.br'' ''data'') ''encoding/ab12/js/app.js.br'' = Some (NFile ''data'')"
proof -
  define out where "out = Write example_store ''/srv'' example_view (\<lambda>_. None) 0 Map.empty
     ''/srv/cache/encoding/ab12/js/app.js.br'' ''data''"
  have ok: "fst out = None" unfolding out_def by code_simp
  have "Write example_store ''/srv'' example_view (\<lambda>_. None) 0 Map.empty
     ''/srv/cache/encoding/ab12/js/app.js.br'' ''data'' = (None, snd out)"
    using ok by (metis out_def prod.collapse)
  from Write_atomic [OF example_path(4) example_store_new example_path(3) _ this]
  show ?thesis by (simp add: out_def)
qed

end
