(* ===== verification/Cleanup.thy ===== *)
theory Cleanup
  imports CachePolicy Artifact Catalog "HOL-Library.Multiset"
begin

text \<open>
  The cleanup of the artifact cache (\<open>service_cleanup_support.go\<close>, \<open>service_cleanup_result.go\<close>,
  \<open>service_cleanup_fs.go\<close>): expired files go first, then the oldest files of every namespace over its
  limit, then the oldest files over the global limit.

  The state is the set of files that exist, the catalog, the recorded hits and the events published.
  Parameters are the result of the directory walk, the calls of the operating system that fail, the
  order in which the library's priority queue pops files (\<open>pops_oldest_first\<close> is what it documents)
  and the order in which a multimap ranges over its keys.  A run holds the service's mutex from the
  scan to the end.  File sizes and their sums are far below two to the 63 and are integers here.

  \<open>os.IsNotExist\<close> looks only at errors of the package \<open>os\<close> and not through other wrappers, which
  \<open>go_error\<close> keeps apart.
\<close>

section \<open>State and environment\<close>

record cleanupFile =
  cf_path :: string
  cf_namespace :: string
  cf_size :: int
  cf_modTime :: time
  cf_lastUsed :: time

record cleanupResult =
  cr_scanned :: nat
  cr_removed :: nat
  cr_removedBytes :: int
  cr_totalBytes :: int
  cr_removedTTL :: nat
  cr_removedSize :: nat
  cr_removedTTLBytes :: int
  cr_removedSizeBytes :: int

datatype VariantRemovalReason = VariantRemovalReasonTTL | VariantRemovalReasonSize

datatype errno = ENotExist | EOther

datatype go_error = OsError errno | OopsError go_error | TextError string

fun os_IsNotExist :: "go_error \<Rightarrow> bool" where
  "os_IsNotExist (OsError e) = (e = ENotExist)"
| "os_IsNotExist _ = False"

record cleanup_state =
  cs_present :: "string set"
  cs_catalog :: IndexedCatalog
  cs_hits :: "string \<rightharpoonup> time"
  cs_events :: "(string \<times> VariantRemovalReason) list"

record cleanup_env =
  ce_cacheDir :: string
  ce_cwd :: string
  ce_root :: root_view
  ce_stuck :: "string \<Rightarrow> bool"
  ce_policy :: CompressionArtifactPolicy
  ce_pops :: "cleanupFile list \<Rightarrow> cleanupFile list"
  ce_namespaces :: "string list \<Rightarrow> string list"

definition emptyCleanupResult :: cleanupResult where
  "emptyCleanupResult =
     \<lparr> cr_scanned = 0, cr_removed = 0, cr_removedBytes = 0, cr_totalBytes = 0, cr_removedTTL = 0,
       cr_removedSize = 0, cr_removedTTLBytes = 0, cr_removedSizeBytes = 0 \<rparr>"

section \<open>Removing one file\<close>

definition cleanupRelativePathUnsafe :: "string \<Rightarrow> bool" where
  "cleanupRelativePathUnsafe p \<longleftrightarrow> p = ''.'' \<or> path_is_abs p \<or> p = ''..'' \<or> has_prefix p ''../''"

definition openValidatedCleanupRoot :: "root_view \<Rightarrow> go_error option" where
  "openValidatedCleanupRoot view =
     (case rw_lstat view of
        None \<Rightarrow> Some (OopsError (OsError ENotExist))
      | Some (kind, ident) \<Rightarrow>
          (if kind = RootLink then Some (OopsError (TextError ''symlink''))
           else if kind \<noteq> RootDir then Some (OopsError (TextError ''not a directory''))
           else (case rw_open view of
                   None \<Rightarrow> Some (OopsError (OsError EOther))
                 | Some opened \<Rightarrow> if ident \<noteq> opened then Some (OopsError (TextError ''replaced'')) else None)))"

definition openCleanupRoot :: "cleanup_env \<Rightarrow> string \<Rightarrow> go_error + string" where
  "openCleanupRoot env fullPath =
     (let cleanRoot = path_abs (ce_cwd env) (path_clean (trim_space (ce_cacheDir env)));
          cleanPath = path_abs (ce_cwd env) (path_clean (trim_space fullPath));
          rel = path_rel cleanRoot cleanPath
      in if cleanupRelativePathUnsafe rel then Inl (OopsError (TextError ''cleanup path escapes cache root''))
         else (case openValidatedCleanupRoot (ce_root env) of Some e \<Rightarrow> Inl e | None \<Rightarrow> Inr rel))"

definition removeCleanupFilePath ::
    "cleanup_env \<Rightarrow> cleanup_state \<Rightarrow> string \<Rightarrow> go_error option \<times> cleanup_state" where
  "removeCleanupFilePath env s fullPath =
     (case openCleanupRoot env fullPath of
        Inl e \<Rightarrow> (Some e, s)
      | Inr _ \<Rightarrow>
          (if ce_stuck env fullPath then (Some (OopsError (OsError EOther)), s)
           else if fullPath \<notin> cs_present s then (Some (OopsError (OsError ENotExist)), s)
           else (None, s\<lparr>cs_present := cs_present s - {fullPath}\<rparr>)))"

definition clearVariantHit :: "cleanup_state \<Rightarrow> string \<Rightarrow> cleanup_state" where
  "clearVariantHit s p = s\<lparr>cs_hits := (cs_hits s)(p := None)\<rparr>"

definition publishVariantRemoved :: "cleanup_state \<Rightarrow> string \<Rightarrow> VariantRemovalReason \<Rightarrow> cleanup_state" where
  "publishVariantRemoved s p reason =
     (if trim_space p = [] then s else s\<lparr>cs_events := cs_events s @ [(p, reason)]\<rparr>)"

definition removeCleanupFile ::
    "cleanup_env \<Rightarrow> cleanup_state \<Rightarrow> cleanupFile \<Rightarrow> VariantRemovalReason \<Rightarrow> bool \<times> cleanup_state" where
  "removeCleanupFile env s file reason =
     (case removeCleanupFilePath env s (cf_path file) of
        (e, s1) \<Rightarrow>
          (if (case e of Some err \<Rightarrow> \<not> os_IsNotExist err | None \<Rightarrow> False) then (False, s1)
           else (let s2 = s1\<lparr>cs_catalog := snd (DeleteVariantByArtifactPath (cs_catalog s1) (cf_path file))\<rparr>;
                     s3 = clearVariantHit s2 (cf_path file)
                 in (True, publishVariantRemoved s3 (cf_path file) reason))))"

section \<open>The passes\<close>

definition recordExpiredCleanupRemoval :: "cleanupResult \<Rightarrow> int \<Rightarrow> cleanupResult" where
  "recordExpiredCleanupRemoval r n =
     r\<lparr>cr_removed := cr_removed r + 1, cr_removedTTL := cr_removedTTL r + 1,
       cr_removedBytes := cr_removedBytes r + n, cr_removedTTLBytes := cr_removedTTLBytes r + n,
       cr_totalBytes := cr_totalBytes r - n\<rparr>"

definition recordSizeCleanupRemoval :: "cleanupResult \<Rightarrow> int \<Rightarrow> cleanupResult" where
  "recordSizeCleanupRemoval r n =
     r\<lparr>cr_removed := cr_removed r + 1, cr_removedSize := cr_removedSize r + 1,
       cr_removedBytes := cr_removedBytes r + n, cr_removedSizeBytes := cr_removedSizeBytes r + n,
       cr_totalBytes := cr_totalBytes r - n\<rparr>"

text \<open>\<open>filepath.Rel\<close> between two paths, which are both absolute or both relative.\<close>

definition path_rel_opt :: "string \<Rightarrow> string \<Rightarrow> string option" where
  "path_rel_opt base targ =
     (let b = path_clean base; t = path_clean targ
      in if b = t then Some ''.''
         else if path_is_abs b \<noteq> path_is_abs t then None
         else (case strip_common (if b = ''.'' then [] else path_segs b) (path_segs t) of
                 (bs, ts) \<Rightarrow>
                   if bs \<noteq> [] \<and> hd bs = ''..'' then None
                   else Some (join_with ''/'' (replicate (length bs) ''..'' @ ts))))"

definition cleanupNamespace :: "string \<Rightarrow> string \<Rightarrow> string" where
  "cleanupNamespace p base =
     (case path_rel_opt base p of
        None \<Rightarrow> []
      | Some rel \<Rightarrow> trim_space (fst (cut CHR ''/'' rel)))"

definition effectiveLastUsed :: "cleanup_state \<Rightarrow> string \<Rightarrow> time \<Rightarrow> time" where
  "effectiveLastUsed s p modTime =
     (case cs_hits s p of Some lastHit \<Rightarrow> if lastHit > modTime then lastHit else modTime | None \<Rightarrow> modTime)"

definition collectCleanupFiles :: "go_error + cleanupFile list \<Rightarrow> go_error + cleanupFile list" where
  "collectCleanupFiles walked =
     (case walked of
        Inl e \<Rightarrow> if os_IsNotExist e then Inr [] else Inl (OopsError e)
      | Inr files \<Rightarrow> Inr (sort_func (\<lambda>a b. cf_path a < cf_path b) files))"

fun prepare_files :: "cleanup_env \<Rightarrow> cleanup_state \<Rightarrow> cleanupResult \<Rightarrow> cleanupFile list \<Rightarrow> cleanupFile list \<times> cleanupResult" where
  "prepare_files env s r [] = ([], r)"
| "prepare_files env s r (file # files) =
     (let file' = file\<lparr>cf_namespace := cleanupNamespace (cf_path file) (ce_cacheDir env),
                       cf_lastUsed := effectiveLastUsed s (cf_path file) (cf_modTime file)\<rparr>;
          (files', r') = prepare_files env s (r\<lparr>cr_totalBytes := cr_totalBytes r + cf_size file\<rparr>) files
      in (file' # files', r'))"

definition prepareCleanupResult ::
    "cleanup_env \<Rightarrow> cleanup_state \<Rightarrow> cleanupFile list \<Rightarrow> cleanupFile list \<times> cleanupResult" where
  "prepareCleanupResult env s files =
     prepare_files env s (emptyCleanupResult\<lparr>cr_scanned := length files\<rparr>) files"

definition shouldRemoveExpiredFile :: "cleanup_env \<Rightarrow> cleanupFile \<Rightarrow> time \<Rightarrow> bool" where
  "shouldRemoveExpiredFile env file now =
     ShouldRemoveExpired (ce_policy env) (cf_namespace file) (cf_lastUsed file) now"

fun removeExpiredCleanupFiles ::
    "cleanup_env \<Rightarrow> time \<Rightarrow> cleanup_state \<Rightarrow> cleanupResult \<Rightarrow> cleanupFile list \<Rightarrow>
     cleanupFile list \<times> cleanup_state \<times> cleanupResult" where
  "removeExpiredCleanupFiles env now s r [] = ([], s, r)"
| "removeExpiredCleanupFiles env now s r (file # files) =
     (let (gone, s1) = (if shouldRemoveExpiredFile env file now
                        then removeCleanupFile env s file VariantRemovalReasonTTL else (False, s));
          r1 = (if gone then recordExpiredCleanupRemoval r (cf_size file) else r);
          (kept, s2, r2) = removeExpiredCleanupFiles env now s1 r1 files
      in (if gone then kept else file # kept, s2, r2))"

definition total_size :: "cleanupFile list \<Rightarrow> int" where
  "total_size files = sum_list (map cf_size files)"

text \<open>The loop that pops files until the total is within the limit.  The first component tells whether
  the queue ran empty.\<close>

fun evict_loop ::
    "cleanup_env \<Rightarrow> VariantRemovalReason \<Rightarrow> int \<Rightarrow> cleanup_state \<Rightarrow> cleanupResult \<Rightarrow> int \<Rightarrow> string set \<Rightarrow>
     cleanupFile list \<Rightarrow> bool \<times> string set \<times> cleanup_state \<times> cleanupResult" where
  "evict_loop env reason limit s r tot removed [] =
     (if tot > limit then (True, removed, s, r) else (False, removed, s, r))"
| "evict_loop env reason limit s r tot removed (file # queue) =
     (if tot > limit then
        (case removeCleanupFile env s file reason of
           (False, s1) \<Rightarrow> evict_loop env reason limit s1 r tot removed queue
         | (True, s1) \<Rightarrow>
             evict_loop env reason limit s1 (recordSizeCleanupRemoval r (cf_size file))
               (tot - cf_size file) (insert (cf_path file) removed) queue)
      else (False, removed, s, r))"

definition evictCleanupFilesBySize ::
    "cleanup_env \<Rightarrow> cleanup_state \<Rightarrow> cleanupResult \<Rightarrow> cleanupFile list \<Rightarrow> int \<Rightarrow> VariantRemovalReason \<Rightarrow>
     cleanupFile list \<times> cleanup_state \<times> cleanupResult" where
  "evictCleanupFilesBySize env s r files maxCacheBytes reason =
     (if maxCacheBytes \<le> 0 \<or> files = [] then (files, s, r)
      else if total_size files \<le> maxCacheBytes then (files, s, r)
      else (case evict_loop env reason maxCacheBytes s r (total_size files) {} (ce_pops env files) of
              (exhausted, removed, s1, r1) \<Rightarrow>
                (if exhausted then files
                 else if removed = {} then files
                 else filter (\<lambda>file. cf_path file \<notin> removed) files, s1, r1)))"

fun evict_namespaces ::
    "cleanup_env \<Rightarrow> cleanup_state \<Rightarrow> cleanupResult \<Rightarrow> cleanupFile list \<Rightarrow> string list \<Rightarrow>
     cleanupFile list \<times> cleanup_state \<times> cleanupResult" where
  "evict_namespaces env s r files [] = ([], s, r)"
| "evict_namespaces env s r files (ns # nss) =
     (let (kept, s1, r1) = evictCleanupFilesBySize env s r (filter (\<lambda>f. cf_namespace f = ns) files)
            (MaxCacheBytesForNamespace (ce_policy env) ns) VariantRemovalReasonSize;
          (rest, s2, r2) = evict_namespaces env s1 r1 files nss
      in (kept @ rest, s2, r2))"

definition enforceCleanupCacheLimitByNamespace ::
    "cleanup_env \<Rightarrow> cleanup_state \<Rightarrow> cleanupResult \<Rightarrow> cleanupFile list \<Rightarrow>
     cleanupFile list \<times> cleanup_state \<times> cleanupResult" where
  "enforceCleanupCacheLimitByNamespace env s r files =
     evict_namespaces env s r files (ce_namespaces env (distinct_by (\<lambda>x. x) (map cf_namespace files)))"

definition enforceCleanupCacheLimit ::
    "cleanup_env \<Rightarrow> cleanup_state \<Rightarrow> cleanupResult \<Rightarrow> cleanupFile list \<Rightarrow> cleanup_state \<times> cleanupResult" where
  "enforceCleanupCacheLimit env s r files =
     (case enforceCleanupCacheLimitByNamespace env s r files of
        (kept, s1, r1) \<Rightarrow>
          snd (evictCleanupFilesBySize env s1 r1 kept (ap_maxCacheBytes (ce_policy env)) VariantRemovalReasonSize))"

definition cleanupArtifacts ::
    "cleanup_env \<Rightarrow> go_error + cleanupFile list \<Rightarrow> time \<Rightarrow> cleanup_state \<Rightarrow> cleanup_state \<times> cleanupResult" where
  "cleanupArtifacts env walked now s =
     (if trim_space (ce_cacheDir env) = [] then (s, emptyCleanupResult)
      else (case collectCleanupFiles walked of
              Inl _ \<Rightarrow> (s, emptyCleanupResult)
            | Inr files0 \<Rightarrow>
                (case prepareCleanupResult env s files0 of
                   (files, r) \<Rightarrow>
                     (case removeExpiredCleanupFiles env now s r files of
                        (remaining, s1, r1) \<Rightarrow> enforceCleanupCacheLimit env s1 r1 remaining))))"

definition markVariantHitAt :: "cleanup_state \<Rightarrow> string \<Rightarrow> time \<Rightarrow> cleanup_state" where
  "markVariantHitAt s p0 hitAt =
     (let p = trim_space p0 in if p = [] then s else s\<lparr>cs_hits := (cs_hits s)(p \<mapsto> hitAt)\<rparr>)"

section \<open>What a run does\<close>

definition can_remove :: "cleanup_env \<Rightarrow> string \<Rightarrow> bool" where
  "can_remove env p \<longleftrightarrow> (case openCleanupRoot env p of Inl _ \<Rightarrow> False | Inr _ \<Rightarrow> \<not> ce_stuck env p)"

lemma openCleanupRoot_Inl: "openCleanupRoot env p = Inl e \<Longrightarrow> \<exists>e'. e = OopsError e'"
  by (auto simp: openCleanupRoot_def openValidatedCleanupRoot_def Let_def split: if_splits option.splits prod.splits)

lemma removeCleanupFile_fails:
  "\<not> (can_remove env (cf_path f) \<and> cf_path f \<in> cs_present s) \<Longrightarrow> removeCleanupFile env s f reason = (False, s)"
  by (auto simp: removeCleanupFile_def removeCleanupFilePath_def can_remove_def dest: openCleanupRoot_Inl
      split: sum.splits if_splits)

lemma removeCleanupFile_removes:
  "can_remove env (cf_path f) \<Longrightarrow> cf_path f \<in> cs_present s \<Longrightarrow>
    removeCleanupFile env s f reason =
      (True, publishVariantRemoved (clearVariantHit (s\<lparr>cs_present := cs_present s - {cf_path f},
         cs_catalog := snd (DeleteVariantByArtifactPath (cs_catalog s) (cf_path f))\<rparr>) (cf_path f)) (cf_path f) reason)"
  by (auto simp: removeCleanupFile_def removeCleanupFilePath_def can_remove_def split: sum.splits)

lemma publish_present [simp]:
  "cs_present (publishVariantRemoved s p reason) = cs_present s"
  "cs_catalog (publishVariantRemoved s p reason) = cs_catalog s"
  "cs_present (clearVariantHit s p) = cs_present s" "cs_catalog (clearVariantHit s p) = cs_catalog s"
  by (simp_all add: publishVariantRemoved_def clearVariantHit_def)

definition pops_oldest_first :: "(cleanupFile list \<Rightarrow> cleanupFile list) \<Rightarrow> bool" where
  "pops_oldest_first pops \<longleftrightarrow>
     (\<forall>files. mset (pops files) = mset files \<and> sorted (map cf_lastUsed (pops files)))"

lemma total_size_simps [simp]:
  "total_size [] = 0" "total_size (f # fs) = cf_size f + total_size fs"
  "total_size (xs @ ys) = total_size xs + total_size ys"
  by (simp_all add: total_size_def)

lemma evict_loop_spec:
  "evict_loop env reason limit s r tot R q = (ex, R', s', r') \<Longrightarrow> distinct (map cf_path q) \<Longrightarrow>
   cf_path ` set q \<subseteq> cs_present s \<Longrightarrow>
   \<exists>taken rest. q = taken @ rest \<and>
     (let rem = filter (\<lambda>f. can_remove env (cf_path f)) taken
      in R' = R \<union> cf_path ` set rem \<and> cs_present s' = cs_present s - cf_path ` set rem \<and>
         (if ex then rest = [] \<and> limit < tot - total_size rem else tot - total_size rem \<le> limit) \<and>
         (rem \<noteq> [] \<longrightarrow> limit < tot - total_size (butlast rem)))"
proof (induction q arbitrary: s r tot R)
  case Nil
  then show ?case by (auto simp: Let_def split: if_splits)
next
  case (Cons f q)
  show ?case
  proof (cases "tot > limit")
    case False
    with Cons.prems(1) show ?thesis by - (rule exI [of _ "[]"], rule exI [of _ "f # q"], auto simp: Let_def)
  next
    case True
    have fp: "cf_path f \<in> cs_present s" using Cons.prems(3) by simp
    show ?thesis
    proof (cases "can_remove env (cf_path f)")
      case no: False
      then have "removeCleanupFile env s f reason = (False, s)" by (simp add: removeCleanupFile_fails)
      with Cons.prems(1) True have "evict_loop env reason limit s r tot R q = (ex, R', s', r')" by simp
      from Cons.IH [OF this] Cons.prems(2,3) obtain taken rest where
        "q = taken @ rest" "let rem = filter (\<lambda>f. can_remove env (cf_path f)) taken
      in R' = R \<union> cf_path ` set rem \<and> cs_present s' = cs_present s - cf_path ` set rem \<and>
         (if ex then rest = [] \<and> limit < tot - total_size rem else tot - total_size rem \<le> limit) \<and>
         (rem \<noteq> [] \<longrightarrow> limit < tot - total_size (butlast rem))" by auto
      with no show ?thesis by - (rule exI [of _ "f # taken"], rule exI [of _ rest], simp)
    next
      case yes: True
      obtain s1 where s1: "removeCleanupFile env s f reason = (True, s1)" "cs_present s1 = cs_present s - {cf_path f}"
        using removeCleanupFile_removes [OF yes fp] by auto
      define r1 where "r1 = recordSizeCleanupRemoval r (cf_size f)"
      have ev: "evict_loop env reason limit s1 r1 (tot - cf_size f) (insert (cf_path f) R) q = (ex, R', s', r')"
        using Cons.prems(1) True s1(1) by (simp add: r1_def)
      have "cf_path ` set q \<subseteq> cs_present s1" using Cons.prems(2,3) s1(2) by (fastforce simp: image_iff)
      from Cons.IH [OF ev _ this] Cons.prems(2) obtain taken rest where
        q: "q = taken @ rest" and ih: "let rem = filter (\<lambda>f. can_remove env (cf_path f)) taken
      in R' = insert (cf_path f) R \<union> cf_path ` set rem \<and> cs_present s' = cs_present s1 - cf_path ` set rem \<and>
         (if ex then rest = [] \<and> limit < tot - cf_size f - total_size rem else tot - cf_size f - total_size rem \<le> limit) \<and>
         (rem \<noteq> [] \<longrightarrow> limit < tot - cf_size f - total_size (butlast rem))" by auto
      define rem where "rem = filter (\<lambda>f. can_remove env (cf_path f)) taken"
      have rem: "filter (\<lambda>f. can_remove env (cf_path f)) (f # taken) = f # rem" using yes by (simp add: rem_def)
      from ih have facts: "R' = insert (cf_path f) R \<union> cf_path ` set rem"
        "cs_present s' = cs_present s1 - cf_path ` set rem"
        "if ex then rest = [] \<and> limit < tot - cf_size f - total_size rem else tot - cf_size f - total_size rem \<le> limit"
        "rem \<noteq> [] \<longrightarrow> limit < tot - cf_size f - total_size (butlast rem)"
        unfolding Let_def rem_def by blast+
      have last: "limit < tot - total_size (butlast (f # rem))" using facts(4) True by (cases rem) auto
      have ext: "if ex then rest = [] \<and> limit < tot - total_size (f # rem) else tot - total_size (f # rem) \<le> limit"
        using facts(3) by (cases ex) (simp_all add: algebra_simps)
      have R: "R' = R \<union> cf_path ` set (f # rem)" "cs_present s' = cs_present s - cf_path ` set (f # rem)"
        using facts(1,2) s1(2) by auto
      have "f # q = (f # taken) @ rest" by (simp add: q)
      moreover have "let rem = filter (\<lambda>f. can_remove env (cf_path f)) (f # taken)
        in R' = R \<union> cf_path ` set rem \<and> cs_present s' = cs_present s - cf_path ` set rem \<and>
           (if ex then rest = [] \<and> limit < tot - total_size rem else tot - total_size rem \<le> limit) \<and>
           (rem \<noteq> [] \<longrightarrow> limit < tot - total_size (butlast rem))"
        unfolding rem Let_def by (intro conjI impI R ext last)
      ultimately show ?thesis by (rule_tac exI [of _ "f # taken"], rule_tac exI [of _ rest]) (rule conjI)
    qed
  qed
qed


text \<open>Only removals touch the state.\<close>

definition no_dangling :: "cleanup_state \<Rightarrow> bool" where
  "no_dangling s \<longleftrightarrow> catalog_ok (cs_catalog s) \<and>
     (\<forall>r\<in>recs (variants (cs_catalog s)). r_ArtifactPath r = [] \<or> r_ArtifactPath r \<in> cs_present s)"

lemma removeCleanupFile_no_dangling:
  assumes "no_dangling s"
  shows "no_dangling (snd (removeCleanupFile env s f reason))"
proof (cases "can_remove env (cf_path f) \<and> cf_path f \<in> cs_present s")
  case False
  with assms show ?thesis by (simp add: removeCleanupFile_fails)
next
  case True
  define c where "c = cs_catalog s"
  have ok: "catalog_ok c" using assms by (simp add: no_dangling_def c_def)
  note d = deleted_artifact [OF ok prod.collapse [symmetric], of "cf_path f"]
  from d(1,2) True assms show ?thesis
    by (auto simp: removeCleanupFile_removes no_dangling_def c_def)
qed

lemma removeExpired_no_dangling:
  "no_dangling s \<Longrightarrow> no_dangling (fst (snd (removeExpiredCleanupFiles env now s r files)))"
proof (induction files arbitrary: s r)
  case (Cons f files)
  then show ?case using removeCleanupFile_no_dangling [OF Cons.prems, of env f VariantRemovalReasonTTL]
    by (auto simp: Let_def split_beta split: if_splits)
qed simp

lemma evict_loop_no_dangling:
  "no_dangling s \<Longrightarrow> no_dangling (fst (snd (snd (evict_loop env reason limit s r tot R q))))"
proof (induction q arbitrary: s r tot R)
  case (Cons f q)
  then show ?case using removeCleanupFile_no_dangling [OF Cons.prems, of env f reason]
    by (auto split: prod.splits bool.splits)
qed simp

lemma evict_no_dangling:
  "no_dangling s \<Longrightarrow> no_dangling (fst (snd (evictCleanupFilesBySize env s r files limit reason)))"
  using evict_loop_no_dangling [of s env reason limit r "total_size files" "{}" "ce_pops env files"]
  by (auto simp: evictCleanupFilesBySize_def split: prod.splits)

lemma evict_namespaces_no_dangling:
  "no_dangling s \<Longrightarrow> no_dangling (fst (snd (evict_namespaces env s r files nss)))"
proof (induction nss arbitrary: s r)
  case (Cons ns nss)
  then show ?case
    using evict_no_dangling [OF Cons.prems, of env r "filter (\<lambda>f. cf_namespace f = ns) files"
        "MaxCacheBytesForNamespace (ce_policy env) ns" VariantRemovalReasonSize]
    by (auto simp: Let_def split_beta)
qed simp


text \<open>The account a run keeps.\<close>

definition balanced :: "int \<Rightarrow> cleanupResult \<Rightarrow> bool" where
  "balanced start r \<longleftrightarrow>
     cr_removed r = cr_removedTTL r + cr_removedSize r \<and>
     cr_removedBytes r = cr_removedTTLBytes r + cr_removedSizeBytes r \<and>
     cr_totalBytes r + cr_removedBytes r = start"

lemma balanced_record:
  "balanced b r \<Longrightarrow> balanced b (recordExpiredCleanupRemoval r n)"
  "balanced b r \<Longrightarrow> balanced b (recordSizeCleanupRemoval r n)"
  by (simp_all add: balanced_def recordExpiredCleanupRemoval_def recordSizeCleanupRemoval_def)

lemma prepare_files_balanced:
  "balanced b r \<Longrightarrow> balanced (b + total_size files) (snd (prepare_files env s r files))"
proof (induction files arbitrary: b r)
  case (Cons f files)
  then have "balanced (b + cf_size f) (r\<lparr>cr_totalBytes := cr_totalBytes r + cf_size f\<rparr>)"
    by (simp add: balanced_def)
  from Cons.IH [OF this] show ?case by (simp add: Let_def split_beta add.assoc)
qed simp

lemma removeExpired_balanced:
  "balanced b r \<Longrightarrow> balanced b (snd (snd (removeExpiredCleanupFiles env now s r files)))"
  by (induction files arbitrary: s r) (auto simp: Let_def split_beta balanced_record)

lemma evict_loop_balanced:
  "balanced b r \<Longrightarrow> balanced b (snd (snd (snd (evict_loop env reason limit s r tot R q))))"
  by (induction q arbitrary: s r tot R) (auto simp: balanced_record split: prod.splits bool.splits)

lemma evict_balanced:
  "balanced b r \<Longrightarrow> balanced b (snd (snd (evictCleanupFilesBySize env s r files limit reason)))"
  using evict_loop_balanced [of b r env reason limit s "total_size files" "{}" "ce_pops env files"]
  by (auto simp: evictCleanupFilesBySize_def split: prod.splits)

lemma evict_namespaces_balanced:
  "balanced b r \<Longrightarrow> balanced b (snd (snd (evict_namespaces env s r files nss)))"
  by (induction nss arbitrary: s r) (auto simp: Let_def split_beta evict_balanced)

lemma sum_sort_insert: "sum_list (map f (sort_insert lt x ys)) = f x + sum_list (map (f :: 'a \<Rightarrow> int) ys)"
  by (induction ys) auto

lemma sum_sort_func: "sum_list (map f (sort_func lt xs)) = sum_list (map (f :: 'a \<Rightarrow> int) xs)"
proof -
  have "sum_list (map f (foldl (\<lambda>acc x. sort_insert lt x acc) a xs)) = sum_list (map f a) + sum_list (map f xs)" for a
    by (induction xs arbitrary: a) (simp_all add: sum_sort_insert)
  then show ?thesis by (simp add: sort_func_def rev_map [symmetric])
qed

text \<open>The account of a run is right: what was removed is the sum of the two reasons, and what remains
  is what was scanned less what was removed.\<close>

theorem cleanup_account:
  "balanced (case walked of Inl _ \<Rightarrow> 0 | Inr files \<Rightarrow> if trim_space (ce_cacheDir env) = [] then 0 else total_size files)
     (snd (cleanupArtifacts env walked now s))"
proof -
  have start: "balanced 0 emptyCleanupResult" "balanced 0 (emptyCleanupResult\<lparr>cr_scanned := n\<rparr>)" for n
    by (simp_all add: balanced_def emptyCleanupResult_def)
  have lim: "balanced b (snd (enforceCleanupCacheLimit env s1 r1 files))" if "balanced b r1" for b s1 r1 files
    using evict_balanced [OF evict_namespaces_balanced [OF that]]
    by (auto simp: enforceCleanupCacheLimit_def enforceCleanupCacheLimitByNamespace_def split_beta)
  have prep: "balanced (total_size files) (snd (prepareCleanupResult env s files))" for files
    using prepare_files_balanced [OF start(2), of files env s] by (simp add: prepareCleanupResult_def)
  show ?thesis
  proof (cases walked)
    case (Inr files)
    have "total_size (sort_func (\<lambda>a b. cf_path a < cf_path b) files) = total_size files"
      by (simp add: total_size_def sum_sort_func)
    with prep [of "sort_func (\<lambda>a b. cf_path a < cf_path b) files"] Inr start lim removeExpired_balanced
    show ?thesis by (auto simp: cleanupArtifacts_def collectCleanupFiles_def split_beta)
  next
    case (Inl e)
    have "balanced 0 (snd (prepareCleanupResult env s []))" using prep [of "[]"] by simp
    with Inl start lim removeExpired_balanced
    show ?thesis by (auto simp: cleanupArtifacts_def collectCleanupFiles_def split_beta)
  qed
qed

section \<open>Two behaviours the code does not intend\<close>

definition example_file :: "string \<Rightarrow> int \<Rightarrow> time \<Rightarrow> cleanupFile" where
  "example_file p n t = \<lparr> cf_path = p, cf_namespace = [], cf_size = n, cf_modTime = t, cf_lastUsed = t \<rparr>"

definition example_files :: "cleanupFile list" where
  "example_files = [example_file ''/c/encoding/z'' 80 30, example_file ''/c/image/a'' 50 10, example_file ''/c/image/b'' 200 20]"

definition example_env :: "string \<Rightarrow> cleanup_env" where
  "example_env stuck =
     \<lparr> ce_cacheDir = ''/c'', ce_cwd = ''/'',
       ce_root = \<lparr> rw_mkdir = True, rw_lstat = Some (RootDir, 1), rw_open = Some 1 \<rparr>,
       ce_stuck = (\<lambda>p. p = stuck),
       ce_policy = \<lparr> ap_defaultMaxAge = 0, ap_namespaceMaxAge = Map.empty, ap_maxCacheBytes = 300,
         ap_namespaceMaxCacheBytes = Map.empty(''image'' \<mapsto> 100) \<rparr>,
       ce_pops = sort_key cf_lastUsed, ce_namespaces = (\<lambda>nss. nss) \<rparr>"

definition example_state :: "string list \<Rightarrow> cleanup_state" where
  "example_state ps = \<lparr> cs_present = set ps, cs_catalog = NewInMemoryCatalog, cs_hits = Map.empty, cs_events = [] \<rparr>"



text \<open>When a namespace cannot be brought under its limit because a file cannot be removed, the files
  removed on the way are still counted against the global limit, and a file of another namespace is
  evicted although the cache is within its limit: after the namespace pass 280 bytes are left of a
  limit of 300, yet the file of the other namespace goes too.\<close>

definition example_prepared :: "cleanupFile list" where
  "example_prepared = map (\<lambda>f. f\<lparr>cf_namespace := cleanupNamespace (cf_path f) ''/c''\<rparr>) example_files"

theorem exhausted_namespace_overevicts:
  "\<exists>env s. ap_maxCacheBytes (ce_policy env) = 300 \<and>
     cs_present (fst (snd (enforceCleanupCacheLimitByNamespace env s emptyCleanupResult example_prepared))) =
       {''/c/encoding/z'', ''/c/image/b''} \<and>
     total_size (filter (\<lambda>f. cf_path f \<in> {''/c/encoding/z'', ''/c/image/b''}) example_files) = 280 \<and>
     cs_present (fst (cleanupArtifacts env (Inr example_files) 0 s)) = {''/c/image/b''}"
proof (rule exI [of _ "example_env ''/c/image/b''"], rule exI [of _ "example_state (map cf_path example_files)"], intro conjI)
  show "cs_present (fst (snd (enforceCleanupCacheLimitByNamespace (example_env ''/c/image/b'')
      (example_state (map cf_path example_files)) emptyCleanupResult example_prepared))) =
      {''/c/encoding/z'', ''/c/image/b''}"
    by code_simp
qed code_simp+

text \<open>A file that is already gone is treated as a failed removal: the test for a missing file looks at a
  wrapped error, which it does not recognise, so the variant of the missing file stays in the catalog.\<close>

theorem missing_file_not_removed:
  assumes "cf_path f \<notin> cs_present s"
  shows "removeCleanupFile env s f reason = (False, s)"
  using assms by (simp add: removeCleanupFile_fails)

theorem missing_file_not_removed_witness:
  "removeCleanupFile (example_env []) (example_state []) (example_file ''/c/image/a'' 50 10) VariantRemovalReasonSize =
     (False, example_state [])"
  by (rule missing_file_not_removed) (simp add: example_state_def)

end
