(* ===== verification/ServerHeaders.thy ===== *)
theory ServerHeaders
  imports CachePolicy
begin

text \<open>
  The response headers and bodies of \<open>internal/server\<close>: the header plans (\<open>cache_headers.go\<close>), the
  sizes (\<open>asset_size.go\<close>), the keys of the hot response and body caches (\<open>asset_delivery.go\<close>), and
  the delivery of whole bodies and single byte ranges from bundles, local files and prepared files
  (\<open>bundle_delivery.go\<close>, \<open>range_delivery.go\<close>, \<open>local_file_delivery.go\<close>, \<open>prepared_delivery.go\<close>).

  A response is its status, its headers (a map under canonical names) and its body.  The parsing of the
  \<open>Range\<close> header belongs to the web framework and is a parameter: \<open>rng h n\<close> is what it says for the
  header \<open>h\<close> and \<open>n\<close> bytes; \<open>framework_ranges\<close> states what it documents, that a range it returns lies
  within the content.  Opening a file is the caller's; a file is its bytes.
\<close>

section \<open>Sizes and cache keys\<close>

definition nonNegativeSize :: "int \<Rightarrow> int option" where
  "nonNegativeSize n = (if n < 0 then None else Some n)"

definition variantSize :: "Variant option \<Rightarrow> int option" where
  "variantSize v = (case v of None \<Rightarrow> None | Some v \<Rightarrow> nonNegativeSize (v_Size v))"

definition assetSize :: "Asset \<Rightarrow> int option" where
  "assetSize a = nonNegativeSize (a_Size a)"

definition resolvedAssetSize :: "Result \<Rightarrow> int option" where
  "resolvedAssetSize r =
     (case variantSize (rs_Variant r) of Some n \<Rightarrow> Some n | None \<Rightarrow> assetSize (rs_Asset r))"

definition buildMemoryCacheRequest :: "Result \<Rightarrow> Request \<Rightarrow> MemoryRequest" where
  "buildMemoryCacheRequest r request =
     (let base = \<lparr> mr_Path = rs_FilePath r, mr_AssetPath = a_Path (rs_Asset r), mr_Size = a_Size (rs_Asset r),
                   mr_MediaType = a_MediaType (rs_Asset r), mr_Encoding = [], mr_Format = [], mr_Width = 0,
                   mr_Kind = MemoryEntryKindAsset, mr_UseCase = MemoryUseCaseServe,
                   mr_RangeRequested = rq_RangeRequested request \<rparr>
      in (case rs_Variant r of
            None \<Rightarrow> base
          | Some v \<Rightarrow>
              base\<lparr>mr_AssetPath := v_AssetPath v, mr_Size := v_Size v,
                   mr_MediaType := (if trim_space (v_MediaType v) \<noteq> [] then trim_space (v_MediaType v)
                                    else mr_MediaType base),
                   mr_Encoding := v_Encoding v, mr_Format := v_Format v, mr_Width := v_Width v,
                   mr_Kind := MemoryEntryKindVariant\<rparr>))"

record hotResponseKey =
  hk_filePath :: string
  hk_mediaType :: string
  hk_contentEncoding :: string
  hk_etag :: string
  hk_size :: int
  hk_requestedFormat :: string

definition hotResponseCacheKey :: "Result \<Rightarrow> string \<Rightarrow> hotResponseKey" where
  "hotResponseCacheKey r requestedFormat =
     \<lparr> hk_filePath = rs_FilePath r, hk_mediaType = rs_MediaType r, hk_contentEncoding = rs_ContentEncoding r,
       hk_etag = rs_ETag r, hk_size = (case resolvedAssetSize r of Some n \<Rightarrow> n | None \<Rightarrow> 0),
       hk_requestedFormat = requestedFormat \<rparr>"

section \<open>Header plans\<close>

record resolvedLastModifiedValue =
  lm_modTime :: "time option"
  lm_header :: "string option"

definition metadataLastModifiedValue :: "metadata \<Rightarrow> resolvedLastModifiedValue option" where
  "metadataLastModifiedValue m =
     (let modTime = MetadataModTime m; header = MetadataLastModifiedHTTP m
      in if modTime = None \<and> header = None then None
         else Some \<lparr> lm_modTime = modTime, lm_header = header \<rparr>)"

definition resolvedLastModified :: "(string \<Rightarrow> time option) \<Rightarrow> Result \<Rightarrow> resolvedLastModifiedValue" where
  "resolvedLastModified stat r =
     (case metadataLastModifiedValue (case rs_Variant r of None \<Rightarrow> Map.empty | Some v \<Rightarrow> v_Metadata v) of
        Some v \<Rightarrow> v
      | None \<Rightarrow>
          (case metadataLastModifiedValue (a_Metadata (rs_Asset r)) of
             Some v \<Rightarrow> v
           | None \<Rightarrow>
               (case FileModTime stat (rs_FilePath r) of
                  Some t \<Rightarrow> \<lparr> lm_modTime = Some t, lm_header = Some (http_time t) \<rparr>
                | None \<Rightarrow> \<lparr> lm_modTime = None, lm_header = None \<rparr>)))"

definition shouldVaryAccept :: "string \<Rightarrow> string \<Rightarrow> bool" where
  "shouldVaryAccept sourceMediaType explicitFormat =
     (if trim_space explicitFormat \<noteq> [] then False else IsImageMediaType sourceMediaType)"

definition resolvedVaryHeader :: "string \<Rightarrow> string \<Rightarrow> string" where
  "resolvedVaryHeader sourceMediaType requestedFormat =
     (if shouldVaryAccept sourceMediaType requestedFormat then ''Accept-Encoding, Accept'' else ''Accept-Encoding'')"

definition emptyable :: "string \<Rightarrow> string option" where
  "emptyable s = (if s = [] then None else Some s)"

record resolvedHeaderPlan =
  hp_contentType :: string
  hp_contentLength :: "string option"
  hp_vary :: string
  hp_etag :: "string option"
  hp_contentEncoding :: "string option"
  hp_lastModified :: "string option"
  hp_cacheControl :: string
  hp_expires :: "string option"

definition newResolvedHeaderPlan ::
    "unicode_tables \<Rightarrow> (string \<Rightarrow> time option) \<Rightarrow> time \<Rightarrow> StaticResponsePolicy \<Rightarrow> Result \<Rightarrow> string \<Rightarrow> resolvedHeaderPlan" where
  "newResolvedHeaderPlan uc stat now policy r requestedFormat =
     (let cacheControl = CacheControl uc policy (Some r)
      in \<lparr> hp_contentType = rs_MediaType r,
           hp_contentLength = map_option itoa (resolvedAssetSize r),
           hp_vary = resolvedVaryHeader (a_MediaType (rs_Asset r)) requestedFormat,
           hp_etag = emptyable (trim_space (rs_ETag r)),
           hp_contentEncoding = emptyable (trim_space (rs_ContentEncoding r)),
           hp_lastModified = lm_header (resolvedLastModified stat r),
           hp_cacheControl = cacheControl,
           hp_expires = map_option http_time (ExpiresAt now cacheControl) \<rparr>)"

record preparedHeaderPlan =
  pp_headers :: "(string \<times> string) list"
  pp_sendFileHeaders :: "(string \<times> string) list"
  pp_contentLength :: "string option"

fun appendPreparedOptionalHeaders ::
    "(string \<times> string) list \<Rightarrow> (string \<times> string option) list \<Rightarrow> (string \<times> string) list" where
  "appendPreparedOptionalHeaders headers [] = headers"
| "appendPreparedOptionalHeaders headers ((key, v) # vs) =
     appendPreparedOptionalHeaders (case v of Some x \<Rightarrow> headers @ [(key, x)] | None \<Rightarrow> headers) vs"

definition newPreparedHeaderPlan :: "resolvedHeaderPlan \<Rightarrow> preparedHeaderPlan" where
  "newPreparedHeaderPlan plan =
     \<lparr> pp_headers = appendPreparedOptionalHeaders
         [(''Content-Type'', hp_contentType plan), (''Vary'', hp_vary plan),
          (''Cache-Control'', hp_cacheControl plan)]
         [(''ETag'', hp_etag plan), (''Content-Encoding'', hp_contentEncoding plan),
          (''Last-Modified'', hp_lastModified plan), (''Expires'', hp_expires plan)],
       pp_sendFileHeaders = appendPreparedOptionalHeaders
         [(''Content-Type'', hp_contentType plan)]
         [(''Content-Encoding'', hp_contentEncoding plan), (''Last-Modified'', hp_lastModified plan)],
       pp_contentLength = hp_contentLength plan \<rparr>"

type_synonym headers = "string \<rightharpoonup> string"

definition applyOptionalHeader :: "headers \<Rightarrow> string \<Rightarrow> string option \<Rightarrow> headers" where
  "applyOptionalHeader h key v = (case v of Some x \<Rightarrow> h(key \<mapsto> x) | None \<Rightarrow> h(key := None))"

definition applyPreparedHeaders :: "headers \<Rightarrow> (string \<times> string) list \<Rightarrow> headers" where
  "applyPreparedHeaders h hs = foldl (\<lambda>h (key, v). h(key \<mapsto> v)) h hs"

definition resolved_ApplyForRange :: "resolvedHeaderPlan \<Rightarrow> headers \<Rightarrow> bool \<Rightarrow> headers" where
  "resolved_ApplyForRange p h rangeRequested =
     (let h1 = h(''Content-Type'' \<mapsto> hp_contentType p, ''Vary'' \<mapsto> hp_vary p, ''Cache-Control'' \<mapsto> hp_cacheControl p);
          h2 = (if \<not> rangeRequested then applyOptionalHeader h1 ''Content-Length'' (hp_contentLength p) else h1);
          h3 = applyOptionalHeader h2 ''ETag'' (hp_etag p);
          h4 = applyOptionalHeader h3 ''Content-Encoding'' (hp_contentEncoding p);
          h5 = applyOptionalHeader h4 ''Last-Modified'' (hp_lastModified p)
      in applyOptionalHeader h5 ''Expires'' (hp_expires p))"

definition prepared_ApplyForRange :: "preparedHeaderPlan \<Rightarrow> headers \<Rightarrow> bool \<Rightarrow> headers" where
  "prepared_ApplyForRange p h rangeRequested =
     (let h1 = applyPreparedHeaders h (pp_headers p)
      in case pp_contentLength p of
           Some n \<Rightarrow> if \<not> rangeRequested then h1(''Content-Length'' \<mapsto> n) else h1
         | None \<Rightarrow> h1)"

definition resolved_ApplySendFileOverrides :: "resolvedHeaderPlan \<Rightarrow> headers \<Rightarrow> bool \<Rightarrow> headers" where
  "resolved_ApplySendFileOverrides p h rangeRequested =
     (let h1 = h(''Content-Type'' \<mapsto> hp_contentType p);
          h2 = (if \<not> rangeRequested then applyOptionalHeader h1 ''Content-Length'' (hp_contentLength p) else h1);
          h3 = applyOptionalHeader h2 ''Content-Encoding'' (hp_contentEncoding p)
      in applyOptionalHeader h3 ''Last-Modified'' (hp_lastModified p))"

definition prepared_ApplySendFileOverrides :: "preparedHeaderPlan \<Rightarrow> headers \<Rightarrow> bool \<Rightarrow> headers" where
  "prepared_ApplySendFileOverrides p h rangeRequested =
     (let h1 = applyPreparedHeaders h (pp_sendFileHeaders p)
      in case pp_contentLength p of
           Some n \<Rightarrow> if \<not> rangeRequested then h1(''Content-Length'' \<mapsto> n) else h1
         | None \<Rightarrow> h1)"

section \<open>Bodies and ranges\<close>

record http_response =
  hr_status :: nat
  hr_headers :: headers
  hr_body :: bytes

datatype framework_range = RangeUnsupported | RangeMalformed | RangeSet "(int \<times> int) list"

datatype singleByteRangeDisposition =
    singleByteRangeSatisfiable int int | singleByteRangeUnsupported | singleByteRangeRejected

definition resolveSingleByteRange ::
    "(string \<Rightarrow> int \<Rightarrow> framework_range) \<Rightarrow> string \<Rightarrow> int \<Rightarrow> singleByteRangeDisposition" where
  "resolveSingleByteRange rng header n =
     (case rng header n of
        RangeUnsupported \<Rightarrow> singleByteRangeUnsupported
      | RangeMalformed \<Rightarrow> singleByteRangeRejected
      | RangeSet rs \<Rightarrow>
          (if CHR '','' \<in> set header \<or> length rs \<noteq> 1 then singleByteRangeRejected
           else singleByteRangeSatisfiable (fst (hd rs)) (snd (hd rs))))"

text \<open>A plan of either kind, as the interface \<open>sendFileHeaderPlan\<close> sees it.\<close>

type_synonym overrides = "headers \<Rightarrow> bool \<Rightarrow> headers"

definition byte_slice :: "bytes \<Rightarrow> int \<Rightarrow> int \<Rightarrow> bytes" where
  "byte_slice body lo n = take (nat n) (drop (nat lo) body)"

definition content_range :: "int \<Rightarrow> int \<Rightarrow> int \<Rightarrow> string" where
  "content_range lo hi n = ''bytes '' @ itoa lo @ ''-'' @ itoa hi @ ''/'' @ itoa n"

definition sendUnsatisfiedRange :: "overrides \<Rightarrow> http_response \<Rightarrow> int \<Rightarrow> http_response" where
  "sendUnsatisfiedRange plan r n =
     r\<lparr>hr_status := 416,
       hr_headers := plan ((hr_headers r)(''Content-Range'' \<mapsto> ''bytes */'' @ itoa n, ''Content-Length'' \<mapsto> ''0'')) True\<rparr>"

definition sendBundleFullBody :: "overrides \<Rightarrow> http_response \<Rightarrow> bytes \<Rightarrow> http_response" where
  "sendBundleFullBody plan r body =
     r\<lparr>hr_headers := plan (hr_headers r) False, hr_body := body\<rparr>"

definition sendBundleRangeBody ::
    "(string \<Rightarrow> int \<Rightarrow> framework_range) \<Rightarrow> string \<Rightarrow> overrides \<Rightarrow> http_response \<Rightarrow> bytes \<Rightarrow> http_response" where
  "sendBundleRangeBody rng header plan r body =
     (case resolveSingleByteRange rng header (int (length body)) of
        singleByteRangeUnsupported \<Rightarrow> sendBundleFullBody plan r body
      | singleByteRangeRejected \<Rightarrow> sendUnsatisfiedRange plan r (int (length body))
      | singleByteRangeSatisfiable lo hi \<Rightarrow>
          (let h1 = (hr_headers r)(''Content-Range'' \<mapsto> content_range lo hi (int (length body)));
               h2 = h1(''Content-Length'' \<mapsto> itoa (hi - lo + 1))
           in r\<lparr>hr_status := 206, hr_headers := plan h2 True, hr_body := drop (nat lo) (take (nat (hi + 1)) body)\<rparr>))"

definition sendBundleBody ::
    "(string \<Rightarrow> int \<Rightarrow> framework_range) \<Rightarrow> Request \<Rightarrow> string \<Rightarrow> overrides \<Rightarrow> http_response \<Rightarrow> bytes \<Rightarrow> http_response" where
  "sendBundleBody rng request header plan r body =
     (if rq_RangeRequested request then sendBundleRangeBody rng header plan r body
      else sendBundleFullBody plan r body)"

text \<open>\<open>sendServerStream\<close> sends \<open>n\<close> bytes of a stream and refuses a size beyond the platform's \<open>int\<close>.\<close>

definition sendServerStream :: "http_response \<Rightarrow> bytes \<Rightarrow> int \<Rightarrow> http_response option" where
  "sendServerStream r stream n =
     (if n < 0 \<or> n > max_int64 then None else Some (r\<lparr>hr_body := take (nat n) stream\<rparr>))"

definition sendResolvedAssetFileStream :: "overrides \<Rightarrow> http_response \<Rightarrow> bytes \<Rightarrow> http_response option" where
  "sendResolvedAssetFileStream plan r file =
     sendServerStream (r\<lparr>hr_headers := plan (hr_headers r) False\<rparr>) file (int (length file))"

definition sendResolvedAssetFileRangeBody ::
    "overrides \<Rightarrow> http_response \<Rightarrow> bytes \<Rightarrow> int \<Rightarrow> int \<Rightarrow> int \<Rightarrow> http_response option" where
  "sendResolvedAssetFileRangeBody plan r file n lo hi =
     (let len = hi - lo + 1;
          h = (hr_headers r)(''Content-Range'' \<mapsto> content_range lo hi n, ''Content-Length'' \<mapsto> itoa len)
      in sendServerStream (r\<lparr>hr_status := 206, hr_headers := plan h True\<rparr>) (byte_slice file lo len) len)"

definition sendResolvedAssetFileRange ::
    "(string \<Rightarrow> int \<Rightarrow> framework_range) \<Rightarrow> string \<Rightarrow> overrides \<Rightarrow> http_response \<Rightarrow> bytes \<Rightarrow> http_response option" where
  "sendResolvedAssetFileRange rng header plan r file =
     (case resolveSingleByteRange rng header (int (length file)) of
        singleByteRangeUnsupported \<Rightarrow>
          sendServerStream (r\<lparr>hr_headers := plan (hr_headers r) False\<rparr>) file (int (length file))
      | singleByteRangeRejected \<Rightarrow> Some (sendUnsatisfiedRange plan r (int (length file)))
      | singleByteRangeSatisfiable lo hi \<Rightarrow>
          sendResolvedAssetFileRangeBody plan r file (int (length file)) lo hi)"

definition sendPreparedLocalRange ::
    "(string \<Rightarrow> int \<Rightarrow> framework_range) \<Rightarrow> string \<Rightarrow> overrides \<Rightarrow> http_response \<Rightarrow> bytes \<Rightarrow> http_response option" where
  "sendPreparedLocalRange rng header plan r file =
     (case resolveSingleByteRange rng header (int (length file)) of
        singleByteRangeUnsupported \<Rightarrow>
          sendServerStream (r\<lparr>hr_headers := plan (hr_headers r) False\<rparr>)
            (byte_slice file 0 (int (length file))) (int (length file))
      | singleByteRangeRejected \<Rightarrow> Some (sendUnsatisfiedRange plan r (int (length file)))
      | singleByteRangeSatisfiable lo hi \<Rightarrow>
          (let len = hi - lo + 1;
               h = (hr_headers r)(''Content-Range'' \<mapsto> content_range lo hi (int (length file)),
                                  ''Content-Length'' \<mapsto> itoa len)
           in sendServerStream (r\<lparr>hr_status := 206, hr_headers := plan h True\<rparr>) (byte_slice file lo len) len))"

text \<open>Conditional requests: the framework's freshness test is a parameter.  \<open>None\<close> means go on.\<close>

definition shouldSendNotModified :: "bool \<Rightarrow> Request \<Rightarrow> bool" where
  "shouldSendNotModified fresh request = (if rq_RangeRequested request then False else fresh)"

definition handleConditionalAssetRequest :: "bool \<Rightarrow> bool \<Rightarrow> Request \<Rightarrow> http_response \<Rightarrow> http_response option" where
  "handleConditionalAssetRequest fresh isHead request r =
     (if shouldSendNotModified fresh request then Some (r\<lparr>hr_status := 304\<rparr>)
      else if isHead then Some (r\<lparr>hr_status := 200\<rparr>) else None)"

section \<open>The two delivery paths\<close>

text \<open>The replies of \<open>sendResolvedAssetFile\<close> and \<open>sendPreparedAssetFile\<close> once the file has been read (the
  theory \<open>AssetRoute\<close> adds the errors) choose by the kind of file; \<open>bundle\<close> tells whether
  the path is a reference into a bundle and \<open>trusted\<close> whether the prepared response holds a trusted
  root for its file.\<close>

definition resolved_file_reply ::
    "(string \<Rightarrow> int \<Rightarrow> framework_range) \<Rightarrow> bool \<Rightarrow> Request \<Rightarrow> string \<Rightarrow> overrides \<Rightarrow> http_response \<Rightarrow> bytes \<Rightarrow>
     http_response option" where
  "resolved_file_reply rng bundle request header plan r file =
     (if bundle then Some (sendBundleBody rng request header plan r file)
      else if rq_RangeRequested request then sendResolvedAssetFileRange rng header plan r file
      else sendResolvedAssetFileStream plan r file)"

definition prepared_local_reply ::
    "(string \<Rightarrow> int \<Rightarrow> framework_range) \<Rightarrow> bool \<Rightarrow> Request \<Rightarrow> string \<Rightarrow> overrides \<Rightarrow> http_response \<Rightarrow> bytes \<Rightarrow>
     http_response option" where
  "prepared_local_reply rng trusted request header plan r file =
     (if \<not> rq_RangeRequested request \<and> trusted then sendServerStream r file (int (length file))
      else if rq_RangeRequested request then sendPreparedLocalRange rng header plan r file
      else sendServerStream (r\<lparr>hr_headers := plan (hr_headers r) False\<rparr>) file (int (length file)))"

definition prepared_file_reply ::
    "(string \<Rightarrow> int \<Rightarrow> framework_range) \<Rightarrow> bool \<Rightarrow> bool \<Rightarrow> Request \<Rightarrow> string \<Rightarrow> overrides \<Rightarrow> http_response \<Rightarrow> bytes \<Rightarrow>
     http_response option" where
  "prepared_file_reply rng bundle trusted request header plan r file =
     (if bundle then Some (sendBundleBody rng request header plan r file)
      else prepared_local_reply rng trusted request header plan r file)"

text \<open>The link header of the resource hints goes out with a GET that asks for no range.\<close>

datatype http_method = MethodGet | MethodHead | MethodOther

definition applyResourceHints :: "http_method \<Rightarrow> Request \<Rightarrow> string \<Rightarrow> http_response \<Rightarrow> http_response" where
  "applyResourceHints meth request hint r =
     (if meth = MethodGet \<and> \<not> rq_RangeRequested request \<and> hint \<noteq> []
      then r\<lparr>hr_headers := (hr_headers r)(''Link'' \<mapsto> hint)\<rparr> else r)"

text \<open>The file is opened only once the conditions of the request have been dealt with.  \<open>cached\<close> is the body
  from the memory cache, \<open>body\<close> that of the prepared response.\<close>

definition resolved_reply ::
    "(string \<Rightarrow> int \<Rightarrow> framework_range) \<Rightarrow> bool \<Rightarrow> http_method \<Rightarrow> bool \<Rightarrow> string \<Rightarrow> Request \<Rightarrow> string \<Rightarrow>
     resolvedHeaderPlan \<Rightarrow> bytes option \<Rightarrow> bytes \<Rightarrow> http_response \<Rightarrow> http_response option" where
  "resolved_reply rng bundle meth fresh hint request header plan cached file r0 =
     (let r1 = r0\<lparr>hr_headers := resolved_ApplyForRange plan (hr_headers r0) (rq_RangeRequested request)\<rparr>
      in case handleConditionalAssetRequest fresh (meth = MethodHead) request r1 of
           Some r \<Rightarrow> Some r
         | None \<Rightarrow>
             (let r2 = applyResourceHints meth request hint r1
              in case cached of
                   Some body \<Rightarrow> Some (r2\<lparr>hr_body := body\<rparr>)
                 | None \<Rightarrow> resolved_file_reply rng bundle request header (resolved_ApplySendFileOverrides plan) r2 file))"

definition prepared_reply ::
    "(string \<Rightarrow> int \<Rightarrow> framework_range) \<Rightarrow> bool \<Rightarrow> bool \<Rightarrow> http_method \<Rightarrow> bool \<Rightarrow> string \<Rightarrow> Request \<Rightarrow> string \<Rightarrow>
     preparedHeaderPlan \<Rightarrow> bytes option \<Rightarrow> bytes \<Rightarrow> http_response \<Rightarrow> http_response option" where
  "prepared_reply rng bundle trusted meth fresh hint request header plan body file r0 =
     (let r1 = r0\<lparr>hr_headers := prepared_ApplyForRange plan (hr_headers r0) (rq_RangeRequested request)\<rparr>
      in case handleConditionalAssetRequest fresh (meth = MethodHead) request r1 of
           Some r \<Rightarrow> Some r
         | None \<Rightarrow>
             (let r2 = applyResourceHints meth request hint r1
              in if body \<noteq> None \<and> \<not> rq_RangeRequested request then Some (r2\<lparr>hr_body := the body\<rparr>)
                 else prepared_file_reply rng bundle trusted request header (prepared_ApplySendFileOverrides plan) r2 file))"

section \<open>Prepared and resolved header plans\<close>

definition managed_headers :: "string set" where
  "managed_headers = {''Content-Type'', ''Content-Length'', ''Vary'', ''ETag'', ''Content-Encoding'',
     ''Last-Modified'', ''Cache-Control'', ''Expires''}"

definition no_managed :: "headers \<Rightarrow> bool" where
  "no_managed h \<longleftrightarrow> (\<forall>k\<in>managed_headers. h k = None)"

text \<open>What the file overrides write is already there once the plan itself was applied.\<close>

definition overrides_done :: "resolvedHeaderPlan \<Rightarrow> headers \<Rightarrow> bool" where
  "overrides_done p h \<longleftrightarrow>
     h ''Content-Type'' = Some (hp_contentType p) \<and>
     h ''Content-Encoding'' = hp_contentEncoding p \<and> h ''Last-Modified'' = hp_lastModified p"

lemma applyOptionalHeader_eq: "applyOptionalHeader h k v = h(k := v)"
  by (simp add: applyOptionalHeader_def split: option.splits)


definition keep_or :: "'a option \<Rightarrow> 'a option \<Rightarrow> 'a option" where
  "keep_or old v = (case v of None \<Rightarrow> old | Some x \<Rightarrow> Some x)"

lemma keep_or_simps [simp]: "keep_or old None = old" "keep_or old (Some x) = Some x"
  by (simp_all add: keep_or_def)

lemma keep_or_None [simp]: "keep_or None v = v"
  by (simp add: keep_or_def split: option.splits)

lemma keep_or_same [simp]: "keep_or v v = v"
  by (simp add: keep_or_def split: option.splits)

lemma applyPrepared_Cons: "applyPreparedHeaders h ((k, x) # hs) = applyPreparedHeaders (h(k \<mapsto> x)) hs"
  by (simp add: applyPreparedHeaders_def)

lemma applyPrepared_append:
  "applyPreparedHeaders h (hs @ [(k, x)]) = (applyPreparedHeaders h hs)(k \<mapsto> x)"
  by (simp add: applyPreparedHeaders_def)

definition put_optional :: "headers \<Rightarrow> string \<times> string option \<Rightarrow> headers" where
  "put_optional h kv = (case snd kv of None \<Rightarrow> h | Some x \<Rightarrow> h(fst kv \<mapsto> x))"

lemma put_optional_eq: "put_optional h (k, v) = h(k := keep_or (h k) v)"
  by (cases v) (simp_all add: put_optional_def fun_upd_triv)

lemma put_optional_option: "put_optional h (k, None) = h" "put_optional h (k, Some x) = h(k \<mapsto> x)"
  by (simp_all add: put_optional_def)

lemma applyPrepared_optional:
  "applyPreparedHeaders h (appendPreparedOptionalHeaders hs os) = foldl put_optional (applyPreparedHeaders h hs) os"
proof (induction hs os rule: appendPreparedOptionalHeaders.induct)
  case (2 hs k v vs)
  then show ?case by (cases v) (simp_all add: applyPrepared_append put_optional_option del: fun_upd_apply)
qed simp

lemmas prepared_apply_defs =
  newPreparedHeaderPlan_def applyPrepared_optional applyPrepared_Cons put_optional_eq

lemma applyPrepared_Nil [simp]: "applyPreparedHeaders h [] = h"
  by (simp add: applyPreparedHeaders_def)

lemma prepared_ApplyForRange_eq:
  "prepared_ApplyForRange p h rg =
     (let h1 = applyPreparedHeaders h (pp_headers p)
      in if rg then h1 else h1(''Content-Length'' := keep_or (h1 ''Content-Length'') (pp_contentLength p)))"
  by (simp add: prepared_ApplyForRange_def keep_or_def Let_def fun_upd_idem split: option.splits)

lemma prepared_ApplySendFileOverrides_eq:
  "prepared_ApplySendFileOverrides p h rg =
     (let h1 = applyPreparedHeaders h (pp_sendFileHeaders p)
      in if rg then h1 else h1(''Content-Length'' := keep_or (h1 ''Content-Length'') (pp_contentLength p)))"
  by (simp add: prepared_ApplySendFileOverrides_def keep_or_def Let_def fun_upd_idem split: option.splits)

declare appendPreparedOptionalHeaders.simps [simp del]

lemma prepared_apply_eq:
  assumes "no_managed h"
  shows "prepared_ApplyForRange (newPreparedHeaderPlan p) h rg = resolved_ApplyForRange p h rg"
proof -
  have absent: "h ''ETag'' = None" "h ''Content-Encoding'' = None" "h ''Last-Modified'' = None"
      "h ''Expires'' = None" "h ''Content-Length'' = None"
    using assms by (simp_all add: no_managed_def managed_headers_def)
  show ?thesis
    by (cases rg) (simp_all add: prepared_ApplyForRange_eq resolved_ApplyForRange_def prepared_apply_defs
        applyOptionalHeader_eq Let_def absent fun_upd_twist)
qed

lemma resolved_apply_done: "overrides_done p (resolved_ApplyForRange p h rg)"
  by (simp add: overrides_done_def resolved_ApplyForRange_def applyOptionalHeader_eq Let_def)

lemma resolved_apply_length:
  assumes "no_managed h"
  shows "resolved_ApplyForRange p h rg ''Content-Length'' = (if rg then None else hp_contentLength p)"
  using assms
  by (simp add: resolved_ApplyForRange_def applyOptionalHeader_eq no_managed_def managed_headers_def Let_def)

lemma overrides_range:
  assumes "overrides_done p h"
  shows "resolved_ApplySendFileOverrides p h True = h"
    and "prepared_ApplySendFileOverrides (newPreparedHeaderPlan p) h True = h"
  using assms
  by (simp_all add: overrides_done_def resolved_ApplySendFileOverrides_def prepared_ApplySendFileOverrides_eq
      prepared_apply_defs applyOptionalHeader_eq Let_def fun_upd_idem)

lemma overrides_full:
  assumes "overrides_done p h" "h ''Content-Length'' = None \<or> h ''Content-Length'' = hp_contentLength p"
  shows "resolved_ApplySendFileOverrides p h False = h(''Content-Length'' := hp_contentLength p)"
    and "prepared_ApplySendFileOverrides (newPreparedHeaderPlan p) h False = h(''Content-Length'' := hp_contentLength p)"
  using assms
  by (auto simp: overrides_done_def resolved_ApplySendFileOverrides_def prepared_ApplySendFileOverrides_eq
      prepared_apply_defs applyOptionalHeader_eq Let_def fun_upd_idem)

lemma overrides_done_upd [simp]:
  "k \<noteq> ''Content-Type'' \<Longrightarrow> k \<noteq> ''Content-Encoding'' \<Longrightarrow> k \<noteq> ''Last-Modified'' \<Longrightarrow>
     overrides_done p (h(k := v)) = overrides_done p h"
  unfolding overrides_done_def by (simp add: fun_upd_other)

text \<open>The response both paths have built when the file is opened.\<close>

definition headers_ready :: "resolvedHeaderPlan \<Rightarrow> bool \<Rightarrow> http_response \<Rightarrow> bool" where
  "headers_ready p rg r \<longleftrightarrow> overrides_done p (hr_headers r) \<and>
     hr_headers r ''Content-Length'' = (if rg then None else hp_contentLength p)"

text \<open>What a single range of a body is answered with, whatever the kind of file.\<close>

definition range_response ::
    "resolvedHeaderPlan \<Rightarrow> singleByteRangeDisposition \<Rightarrow> http_response \<Rightarrow> bytes \<Rightarrow> http_response" where
  "range_response p d r body =
     (case d of
        singleByteRangeUnsupported \<Rightarrow>
          r\<lparr>hr_headers := (hr_headers r)(''Content-Length'' := hp_contentLength p), hr_body := body\<rparr>
      | singleByteRangeRejected \<Rightarrow>
          r\<lparr>hr_status := 416,
            hr_headers := (hr_headers r)(''Content-Range'' \<mapsto> ''bytes */'' @ itoa (int (length body)),
                                         ''Content-Length'' \<mapsto> ''0'')\<rparr>
      | singleByteRangeSatisfiable lo hi \<Rightarrow>
          r\<lparr>hr_status := 206,
            hr_headers := (hr_headers r)(''Content-Range'' \<mapsto> content_range lo hi (int (length body)),
                                         ''Content-Length'' \<mapsto> itoa (hi - lo + 1)),
            hr_body := byte_slice body lo (hi - lo + 1)\<rparr>)"

text \<open>The framework returns ranges that lie within the content.\<close>

definition framework_ranges :: "(string \<Rightarrow> int \<Rightarrow> framework_range) \<Rightarrow> bool" where
  "framework_ranges rng \<longleftrightarrow>
     (\<forall>h n rs. rng h n = RangeSet rs \<longrightarrow> (\<forall>(lo, hi)\<in>set rs. 0 \<le> lo \<and> lo \<le> hi \<and> hi < n))"

lemma resolveSingleByteRange_within:
  assumes "framework_ranges rng" "resolveSingleByteRange rng header n = singleByteRangeSatisfiable lo hi"
  shows "0 \<le> lo \<and> lo \<le> hi \<and> hi < n"
proof -
  obtain rs where rs: "rng header n = RangeSet rs" "length rs = 1" "hd rs = (lo, hi)"
    using assms(2) by (cases "rng header n") (auto simp: resolveSingleByteRange_def prod_eq_iff split: if_splits)
  then have "(lo, hi) \<in> set rs" by (cases rs) auto
  then show ?thesis using assms(1) rs(1) unfolding framework_ranges_def by fast
qed

lemma slice_drop_take:
  assumes "0 \<le> lo" "lo \<le> hi"
  shows "drop (nat lo) (take (nat (hi + 1)) body) = byte_slice body lo (hi - lo + 1)"
proof -
  have "nat (hi + 1) - nat lo = nat (hi - lo + 1)" using assms by linarith
  then show ?thesis by (simp add: byte_slice_def drop_take)
qed


section \<open>What is delivered\<close>

lemma headers_ready_hint:
  "headers_ready p rg r \<Longrightarrow> headers_ready p rg (applyResourceHints meth request hint r)"
  by (simp add: headers_ready_def applyResourceHints_def)

lemma stream_whole:
  assumes "int (length body) \<le> max_int64"
  shows "sendServerStream r body (int (length body)) = Some (r\<lparr>hr_body := body\<rparr>)"
  using assms by (simp add: sendServerStream_def)

lemma stream_slice:
  assumes "0 \<le> lo" "lo \<le> hi" "hi < int (length body)" "int (length body) \<le> max_int64"
  shows "sendServerStream r (byte_slice body lo (hi - lo + 1)) (hi - lo + 1) =
           Some (r\<lparr>hr_body := byte_slice body lo (hi - lo + 1)\<rparr>)"
  using assms by (simp add: sendServerStream_def byte_slice_def)

lemma byte_slice_all [simp]: "byte_slice body 0 (int (length body)) = body"
  by (simp add: byte_slice_def)

lemma headers_ready_206:
  assumes "overrides_done p h"
  shows "overrides_done p (h(''Content-Range'' \<mapsto> x, ''Content-Length'' \<mapsto> y))"
  using assms by simp

text \<open>Both plans answer a range with \<open>range_response\<close>, from a bundle as from a local file.\<close>

definition same_overrides :: "resolvedHeaderPlan \<Rightarrow> overrides \<Rightarrow> bool" where
  "same_overrides p plan \<longleftrightarrow>
     plan = resolved_ApplySendFileOverrides p \<or> plan = prepared_ApplySendFileOverrides (newPreparedHeaderPlan p)"

lemma same_overrides_range: "same_overrides p plan \<Longrightarrow> overrides_done p h \<Longrightarrow> plan h True = h"
  by (auto simp: same_overrides_def overrides_range)

lemma same_overrides_full:
  "same_overrides p plan \<Longrightarrow> overrides_done p h \<Longrightarrow> h ''Content-Length'' = None \<or> h ''Content-Length'' = hp_contentLength p \<Longrightarrow>
     plan h False = h(''Content-Length'' := hp_contentLength p)"
  by (auto simp: same_overrides_def overrides_full)

lemma unsatisfied_range:
  assumes "same_overrides p plan" "headers_ready p rg r"
  shows "sendUnsatisfiedRange plan r (int (length body)) = range_response p singleByteRangeRejected r body"
  using assms(2)
  by (simp add: sendUnsatisfiedRange_def range_response_def headers_ready_def same_overrides_range [OF assms(1)])

lemma full_body:
  assumes "same_overrides p plan" "headers_ready p rg r"
  shows "sendBundleFullBody plan r body = range_response p singleByteRangeUnsupported r body"
  using assms same_overrides_full [OF assms(1), of "hr_headers r"]
  by (simp add: sendBundleFullBody_def range_response_def headers_ready_def split: if_splits)

lemma bundle_range:
  assumes "framework_ranges rng" "same_overrides p plan" "headers_ready p rg r"
  shows "sendBundleRangeBody rng header plan r body =
           range_response p (resolveSingleByteRange rng header (int (length body))) r body"
proof (cases "resolveSingleByteRange rng header (int (length body))")
  case (singleByteRangeSatisfiable lo hi)
  have "0 \<le> lo \<and> lo \<le> hi"
    using resolveSingleByteRange_within [OF assms(1) singleByteRangeSatisfiable] by simp
  then show ?thesis
    using assms(3) singleByteRangeSatisfiable
    by (simp add: sendBundleRangeBody_def range_response_def headers_ready_def slice_drop_take
        same_overrides_range [OF assms(2)])
qed (use assms in \<open>simp_all add: sendBundleRangeBody_def full_body unsatisfied_range\<close>)

lemma local_range:
  assumes "framework_ranges rng" "headers_ready p rg r" "int (length body) \<le> max_int64"
  shows "sendResolvedAssetFileRange rng header (resolved_ApplySendFileOverrides p) r body =
           Some (range_response p (resolveSingleByteRange rng header (int (length body))) r body)"
    and "sendPreparedLocalRange rng header (prepared_ApplySendFileOverrides (newPreparedHeaderPlan p)) r body =
           Some (range_response p (resolveSingleByteRange rng header (int (length body))) r body)"
proof -
  have same: "same_overrides p (resolved_ApplySendFileOverrides p)"
      "same_overrides p (prepared_ApplySendFileOverrides (newPreparedHeaderPlan p))"
    by (simp_all add: same_overrides_def)
  have full: "h ''Content-Length'' = (if rg then None else hp_contentLength p) \<Longrightarrow>
      h ''Content-Length'' = None \<or> h ''Content-Length'' = hp_contentLength p" for h :: headers
    by (simp split: if_splits)
  note ready = assms(2) [unfolded headers_ready_def]
  note plans = same [THEN same_overrides_range] same [THEN same_overrides_full, OF _ full]
  show "sendResolvedAssetFileRange rng header (resolved_ApplySendFileOverrides p) r body =
           Some (range_response p (resolveSingleByteRange rng header (int (length body))) r body)"
  proof (cases "resolveSingleByteRange rng header (int (length body))")
    case (singleByteRangeSatisfiable lo hi)
    then show ?thesis
      using ready resolveSingleByteRange_within [OF assms(1) singleByteRangeSatisfiable] assms(3)
      by (simp add: sendResolvedAssetFileRange_def sendResolvedAssetFileRangeBody_def range_response_def
          plans stream_slice Let_def)
  qed (use ready assms(3) unsatisfied_range [OF same(1) assms(2)] in
      \<open>simp_all add: sendResolvedAssetFileRange_def range_response_def plans stream_whole del: fun_upd_apply\<close>)
  show "sendPreparedLocalRange rng header (prepared_ApplySendFileOverrides (newPreparedHeaderPlan p)) r body =
           Some (range_response p (resolveSingleByteRange rng header (int (length body))) r body)"
  proof (cases "resolveSingleByteRange rng header (int (length body))")
    case (singleByteRangeSatisfiable lo hi)
    then show ?thesis
      using ready resolveSingleByteRange_within [OF assms(1) singleByteRangeSatisfiable] assms(3)
      by (simp add: sendPreparedLocalRange_def range_response_def plans stream_slice Let_def)
  qed (use ready assms(3) unsatisfied_range [OF same(2) assms(2)] in
      \<open>simp_all add: sendPreparedLocalRange_def range_response_def plans stream_whole del: fun_upd_apply\<close>)
qed

lemma resolved_file_response:
  assumes "framework_ranges rng" "headers_ready p (rq_RangeRequested request) r" "int (length body) \<le> max_int64"
  shows "resolved_file_reply rng bundle request header (resolved_ApplySendFileOverrides p) r body =
           Some (range_response p (if rq_RangeRequested request
                   then resolveSingleByteRange rng header (int (length body)) else singleByteRangeUnsupported) r body)"
proof -
  have same: "same_overrides p (resolved_ApplySendFileOverrides p)" by (simp add: same_overrides_def)
  show ?thesis
    using full_body [OF same assms(2)] bundle_range [OF assms(1) same assms(2)] local_range(1) [OF assms]
      same_overrides_full [OF same, of "hr_headers r"] assms(2)
    by (cases "rq_RangeRequested request")
      (simp_all add: resolved_file_reply_def sendBundleBody_def sendResolvedAssetFileStream_def stream_whole assms(3)
        range_response_def headers_ready_def)
qed

lemma prepared_file_response:
  assumes "framework_ranges rng" "headers_ready p (rq_RangeRequested request) r" "int (length body) \<le> max_int64"
  shows "prepared_file_reply rng bundle trusted request header
             (prepared_ApplySendFileOverrides (newPreparedHeaderPlan p)) r body =
           Some (range_response p (if rq_RangeRequested request
                   then resolveSingleByteRange rng header (int (length body)) else singleByteRangeUnsupported) r body)"
proof -
  have same: "same_overrides p (prepared_ApplySendFileOverrides (newPreparedHeaderPlan p))"
    by (simp add: same_overrides_def)
  show ?thesis
    using full_body [OF same assms(2)] bundle_range [OF assms(1) same assms(2)] local_range(2) [OF assms]
      same_overrides_full [OF same, of "hr_headers r"] assms(2)
    by (cases "rq_RangeRequested request")
      (simp_all add: prepared_file_reply_def prepared_local_reply_def sendBundleBody_def stream_whole assms(3)
        range_response_def headers_ready_def fun_upd_idem)
qed

lemma ready_after_apply:
  assumes "no_managed (hr_headers r0)"
  shows "headers_ready p rg (r0\<lparr>hr_headers := resolved_ApplyForRange p (hr_headers r0) rg\<rparr>)"
  using assms by (simp add: headers_ready_def resolved_apply_done resolved_apply_length)

lemma memory_body:
  assumes "headers_ready p False r"
  shows "Some (r\<lparr>hr_body := body\<rparr>) = Some (range_response p singleByteRangeUnsupported r body)"
  using assms by (simp add: range_response_def headers_ready_def fun_upd_idem)

text \<open>The prepared fast path answers like the resolver path: with the plan compiled from the same
  result, the two produce the same status, headers and body for every method, condition, range and kind
  of file, whether the body comes from memory or from the file.\<close>

lemma replies_agree:
  assumes "framework_ranges rng" "no_managed (hr_headers r0)" "int (length file) \<le> max_int64"
    and "cached = None \<or> cached = Some file \<and> \<not> rq_RangeRequested request"
    and "body = None \<or> body = Some file"
  shows "prepared_reply rng bundle trusted meth fresh hint request header (newPreparedHeaderPlan p) body file r0 =
         resolved_reply rng bundle meth fresh hint request header p cached file r0"
proof -
  define rg where "rg = rq_RangeRequested request"
  define r1 where "r1 = r0\<lparr>hr_headers := resolved_ApplyForRange p (hr_headers r0) rg\<rparr>"
  define r2 where "r2 = applyResourceHints meth request hint r1"
  have prep: "r0\<lparr>hr_headers := prepared_ApplyForRange (newPreparedHeaderPlan p) (hr_headers r0) rg\<rparr> = r1"
    by (simp add: r1_def prepared_apply_eq assms(2))
  have ready: "headers_ready p rg r2"
    using headers_ready_hint ready_after_apply assms(2) by (simp add: r2_def r1_def)
  note resolved = resolved_file_response [OF assms(1) ready [unfolded rg_def] assms(3)]
  note prepared = prepared_file_response [OF assms(1) ready [unfolded rg_def] assms(3)]
  have memory: "\<not> rg \<Longrightarrow> Some (r2\<lparr>hr_body := file\<rparr>) = Some (range_response p singleByteRangeUnsupported r2 file)"
    using memory_body ready by simp
  show ?thesis
  proof (cases "handleConditionalAssetRequest fresh (meth = MethodHead) request r1")
    case (Some r)
    then show ?thesis
      by (simp add: prepared_reply_def resolved_reply_def prep flip: rg_def r1_def)
  next
    case None
    then show ?thesis
      using assms(4,5) memory
      by (auto simp: prepared_reply_def resolved_reply_def prep resolved prepared Let_def
          simp flip: rg_def r1_def r2_def)
  qed
qed


text \<open>A range request is answered exactly: a satisfiable range gives 206 with precisely the bytes from
  its first to its last position (the file is what precedes them, the body and what follows), their
  number as the content length and the range as the content range; a range the framework rejects, or more
  than one, gives 416 without a body; an unsupported unit gives the whole file with the status unchanged.\<close>

lemma range_reply_exact:
  assumes "framework_ranges rng" "no_managed (hr_headers r0)" "int (length file) \<le> max_int64"
    and "rq_RangeRequested request" "meth \<noteq> MethodHead" "hr_body r0 = []"
  shows "\<exists>r. resolved_reply rng bundle meth fresh hint request header p None file r0 = Some r \<and>
    (case resolveSingleByteRange rng header (int (length file)) of
       singleByteRangeSatisfiable lo hi \<Rightarrow>
         hr_status r = 206 \<and> file = take (nat lo) file @ hr_body r @ drop (nat (hi + 1)) file \<and>
         int (length (hr_body r)) = hi - lo + 1 \<and>
         hr_headers r ''Content-Length'' = Some (itoa (int (length (hr_body r)))) \<and>
         hr_headers r ''Content-Range'' = Some (content_range lo hi (int (length file)))
     | singleByteRangeRejected \<Rightarrow>
         hr_status r = 416 \<and> hr_body r = [] \<and> hr_headers r ''Content-Length'' = Some ''0''
     | singleByteRangeUnsupported \<Rightarrow> hr_status r = hr_status r0 \<and> hr_body r = file)"
proof -
  define r1 where "r1 = r0\<lparr>hr_headers := resolved_ApplyForRange p (hr_headers r0) True\<rparr>"
  define d where "d = resolveSingleByteRange rng header (int (length file))"
  have ready: "headers_ready p (rq_RangeRequested request) r1"
    using ready_after_apply assms(2,4) by (simp add: r1_def)
  have hint: "applyResourceHints meth request hint r1 = r1"
    by (simp add: applyResourceHints_def assms(4))
  have sent: "resolved_reply rng bundle meth fresh hint request header p None file r0 =
      Some (range_response p d r1 file)"
    using resolved_file_response [OF assms(1) ready assms(3), of "bundle" header] assms(4,5)
    by (simp add: resolved_reply_def handleConditionalAssetRequest_def shouldSendNotModified_def d_def Let_def
        hint flip: r1_def)
  show ?thesis
  proof (rule exI [of _ "range_response p d r1 file"], rule conjI, rule sent, fold d_def, cases d)
    case (singleByteRangeSatisfiable lo hi)
    then have within: "0 \<le> lo" "lo \<le> hi" "hi < int (length file)"
      using resolveSingleByteRange_within [OF assms(1), of header "int (length file)"] by (auto simp: d_def)
    then have pos: "nat lo + nat (hi - lo + 1) = nat (hi + 1)" by linarith
    have "take (nat lo) file @ byte_slice file lo (hi - lo + 1) = take (nat (hi + 1)) file"
      by (simp add: byte_slice_def flip: take_add pos)
    then have whole: "file = take (nat lo) file @ byte_slice file lo (hi - lo + 1) @ drop (nat (hi + 1)) file"
      by (metis append_assoc append_take_drop_id)
    have "int (length (byte_slice file lo (hi - lo + 1))) = hi - lo + 1"
      using within by (simp add: byte_slice_def)
    then show "case d of
        singleByteRangeSatisfiable lo hi \<Rightarrow>
         hr_status (range_response p d r1 file) = 206 \<and>
         file = take (nat lo) file @ hr_body (range_response p d r1 file) @ drop (nat (hi + 1)) file \<and>
         int (length (hr_body (range_response p d r1 file))) = hi - lo + 1 \<and>
         hr_headers (range_response p d r1 file) ''Content-Length'' =
           Some (itoa (int (length (hr_body (range_response p d r1 file))))) \<and>
         hr_headers (range_response p d r1 file) ''Content-Range'' = Some (content_range lo hi (int (length file)))
     | singleByteRangeRejected \<Rightarrow>
         hr_status (range_response p d r1 file) = 416 \<and> hr_body (range_response p d r1 file) = [] \<and>
         hr_headers (range_response p d r1 file) ''Content-Length'' = Some ''0''
     | singleByteRangeUnsupported \<Rightarrow>
         hr_status (range_response p d r1 file) = hr_status r0 \<and> hr_body (range_response p d r1 file) = file"
      using singleByteRangeSatisfiable whole by (simp add: range_response_def)
  qed (use assms(6) in \<open>simp_all add: range_response_def r1_def\<close>)
qed

definition example_range :: "string \<Rightarrow> int \<Rightarrow> framework_range" where
  "example_range h n = (if h = ''bytes=1-2'' \<and> 2 < n then RangeSet [(1, 2)] else RangeMalformed)"

lemma example_range_ok: "framework_ranges example_range"
  by (simp add: framework_ranges_def example_range_def)

definition example_plan :: resolvedHeaderPlan where
  "example_plan = \<lparr> hp_contentType = ''text/css'', hp_contentLength = Some ''4'', hp_vary = ''Accept-Encoding'',
     hp_etag = Some ''e'', hp_contentEncoding = None, hp_lastModified = None, hp_cacheControl = ''no-cache'',
     hp_expires = None \<rparr>"

definition example_range_request :: "bool \<Rightarrow> Request" where
  "example_range_request rg =
     \<lparr> rq_Path = ''a.css'', rq_Accept = [], rq_AcceptEncoding = [], rq_Width = 0, rq_Format = [],
       rq_RangeRequested = rg, rq_PreferredEncodings = None, rq_PreferredFormats = None \<rparr>"

definition fresh_response :: http_response where
  "fresh_response = \<lparr> hr_status = 200, hr_headers = Map.empty, hr_body = [] \<rparr>"

lemma fresh_no_managed: "no_managed (hr_headers fresh_response)"
  by (simp add: no_managed_def fresh_response_def)

lemma example_file_small: "int (length ''help'') \<le> max_int64"
  by (simp add: max_int64_def)

end
