(* ===== verification/Prepared.thy ===== *)
theory Prepared
  imports ServerHeaders ResolverSpec
begin

text \<open>
  The prepared fast path of \<open>internal/server\<close>: a snapshot of the catalog compiled into routes with
  ready-made headers and bodies (\<open>prepared_compile.go\<close>, \<open>prepared_model.go\<close>), the selection of a
  response for a request (\<open>prepared_select.go\<close>), and the budget of the bodies kept in memory
  (\<open>prepared_body_budget.go\<close>).

  Maps of the collection library are maps, its lists lists.  A prepared response holds the result it
  was compiled from, two header plans, the links of its resource hints and perhaps its body; whether
  its file has a trusted root is a flag.  Reading a file, the resource hints and the trusted roots
  are parameters (\<open>prepared_env\<close>).  The counts kept for the metrics are left out.
\<close>

section \<open>The budget of prepared bodies\<close>

record preparedBodyBudget =
  bb_max :: int
  bb_used :: int

definition newPreparedBodyBudget :: "runtime_config option \<Rightarrow> preparedBodyBudget" where
  "newPreparedBodyBudget cfg =
     (case cfg of
        None \<Rightarrow> \<lparr> bb_max = 0, bb_used = 0 \<rparr>
      | Some c \<Rightarrow> if \<not> memory_cache_Enabled (rc_MemoryCache c) then \<lparr> bb_max = 0, bb_used = 0 \<rparr>
                 else \<lparr> bb_max = MaxCost (rc_MemoryCache c), bb_used = 0 \<rparr>)"

definition normalizedPreparedBodyBudgetSize :: "int \<Rightarrow> int" where
  "normalizedPreparedBodyBudgetSize n = (if n \<le> 0 then 1 else n)"

definition Reserve :: "preparedBodyBudget \<Rightarrow> int \<Rightarrow> int option \<times> preparedBodyBudget" where
  "Reserve b n =
     (if bb_max b \<le> 0 \<or> n < 0 then (None, b)
      else (let reserved = normalizedPreparedBodyBudgetSize n
            in if bb_used b > wrap64 (bb_max b - reserved) then (None, b)
               else (Some reserved, b\<lparr>bb_used := wrap64 (bb_used b + reserved)\<rparr>)))"

definition Release :: "preparedBodyBudget \<Rightarrow> int \<Rightarrow> preparedBodyBudget" where
  "Release b n =
     (if n \<le> 0 then b
      else (let used = wrap64 (bb_used b - n) in b\<lparr>bb_used := (if used < 0 then 0 else used)\<rparr>))"

definition Adjust :: "preparedBodyBudget \<Rightarrow> int \<Rightarrow> int \<Rightarrow> bool \<times> preparedBodyBudget" where
  "Adjust b reserved actual0 =
     (if reserved \<le> 0 then (False, b)
      else (let actual = normalizedPreparedBodyBudgetSize actual0
            in if actual = reserved then (True, b)
               else if actual < reserved then (True, Release b (reserved - actual))
               else (let extra = actual - reserved
                     in if bb_used b > wrap64 (bb_max b - extra) then (False, Release b reserved)
                        else (True, b\<lparr>bb_used := wrap64 (bb_used b + extra)\<rparr>))))"

section \<open>Responses and routes\<close>

record preparedResponse =
  pr_result :: Result
  pr_headerPlan :: preparedHeaderPlan
  pr_explicitHeaderPlan :: preparedHeaderPlan
  pr_resourceHints :: "string list"
  pr_body :: "bytes option"
  pr_sendFile :: bool

definition pr_variant :: "preparedResponse \<Rightarrow> Variant option" where
  "pr_variant r = rs_Variant (pr_result r)"

record preparedImagePicker =
  pk_widths :: "int list"
  pk_responses :: "preparedResponse list"

record preparedRoute =
  pt_path :: string
  pt_identity :: preparedResponse
  pt_encodings :: "string \<rightharpoonup> preparedResponse"
  pt_images :: "string \<rightharpoonup> preparedResponse list"
  pt_imagePicks :: "string \<rightharpoonup> preparedImagePicker"
  pt_imageWidths :: "string \<times> int \<rightharpoonup> preparedResponse"

record preparedSnapshot =
  ps_routes :: "string \<rightharpoonup> preparedRoute"
  ps_assets :: nat

definition newPreparedRoute :: "string \<Rightarrow> preparedResponse \<Rightarrow> preparedRoute" where
  "newPreparedRoute p identity =
     \<lparr> pt_path = p, pt_identity = identity, pt_encodings = Map.empty, pt_images = Map.empty,
       pt_imagePicks = Map.empty, pt_imageWidths = Map.empty \<rparr>"

definition variantImageFormat :: "preparedResponse \<Rightarrow> string" where
  "variantImageFormat r =
     (case pr_variant r of
        None \<Rightarrow> []
      | Some v \<Rightarrow> (let format = trim_space (v_Format v)
                  in if format \<noteq> [] then format else ImageFormat (rs_MediaType (pr_result r))))"

definition addVariant :: "preparedRoute \<Rightarrow> preparedResponse \<Rightarrow> preparedRoute" where
  "addVariant rt r =
     (case pr_variant r of
        None \<Rightarrow> rt
      | Some v \<Rightarrow>
          (if v_Encoding v \<noteq> [] then rt\<lparr>pt_encodings := (pt_encodings rt)(v_Encoding v \<mapsto> r)\<rparr>
           else (let format = variantImageFormat r
                 in if format = [] then rt
                    else rt\<lparr>pt_imageWidths := (pt_imageWidths rt)((format, v_Width v) \<mapsto> r),
                            pt_images := (pt_images rt)(format \<mapsto>
                              (case pt_images rt format of None \<Rightarrow> [r] | Some rs \<Rightarrow> rs @ [r]))\<rparr>)))"

definition comparePreparedImageResponses :: "preparedResponse \<Rightarrow> preparedResponse \<Rightarrow> bool" where
  \<comment> \<open>left strictly before right\<close>
  "comparePreparedImageResponses l r =
     (case (pr_variant l, pr_variant r) of
        (Some a, Some b) \<Rightarrow>
          (if v_Format a \<noteq> v_Format b then v_Format a < v_Format b
           else if v_Width a \<noteq> v_Width b then v_Width a < v_Width b
           else v_ID a < v_ID b)
      | _ \<Rightarrow> False)"

definition picker_candidate :: "preparedResponse \<Rightarrow> (int \<times> preparedResponse) option" where
  "picker_candidate r =
     (case pr_variant r of
        None \<Rightarrow> None | Some v \<Rightarrow> if v_Width v < 0 then None else Some (v_Width v, r))"

definition newPreparedImagePicker :: "preparedResponse list \<Rightarrow> preparedImagePicker option" where
  "newPreparedImagePicker responses =
     (let candidates = distinct_by fst (List.map_filter picker_candidate responses)
      in if candidates = [] then None
         else Some \<lparr> pk_widths = map fst candidates, pk_responses = map snd candidates \<rparr>)"

text \<open>Each image list is sorted in place, and its picker stored.\<close>

definition sort_images :: "preparedResponse list \<Rightarrow> preparedResponse list" where
  "sort_images rs = sort_func comparePreparedImageResponses rs"

definition finalize :: "preparedRoute \<Rightarrow> preparedRoute" where
  "finalize rt =
     rt\<lparr>pt_images := (\<lambda>f. map_option sort_images (pt_images rt f)),
        pt_imagePicks := (\<lambda>f. case pt_images rt f of
                                None \<Rightarrow> pt_imagePicks rt f
                              | Some rs \<Rightarrow> (case newPreparedImagePicker (sort_images rs) of
                                              None \<Rightarrow> pt_imagePicks rt f | Some p \<Rightarrow> Some p))\<rparr>"

text \<open>\<open>sort.SearchInts\<close>: the binary search of the package \<open>sort\<close>.\<close>

function search_ints :: "int list \<Rightarrow> int \<Rightarrow> nat \<Rightarrow> nat \<Rightarrow> nat" where
  "search_ints xs x i j =
     (if i < j then (let h = (i + j) div 2 in if xs ! h < x then search_ints xs x (h + 1) j else search_ints xs x i h)
      else i)"
  by pat_completeness auto
termination by (relation "measure (\<lambda>(xs, x, i, j). j - i)") auto

declare search_ints.simps [simp del]

definition SearchInts :: "int list \<Rightarrow> int \<Rightarrow> nat" where
  "SearchInts xs x = search_ints xs x 0 (length xs)"

definition closest :: "preparedImagePicker \<Rightarrow> int \<Rightarrow> preparedResponse option" where
  "closest p width =
     (if width \<le> 0 \<or> pk_widths p = [] then None
      else (let index = SearchInts (pk_widths p) width
            in if index < length (pk_responses p) then Some (pk_responses p ! index)
               else Some (pk_responses p ! (length (pk_responses p) - 1))))"

section \<open>Compiling\<close>

record prepared_env =
  pe_policy :: StaticResponsePolicy
  pe_memory :: StaticMemoryPolicy
  pe_uc :: unicode_tables
  pe_stat :: "string \<Rightarrow> time option"
  pe_now :: time
  pe_read :: "string \<Rightarrow> bytes option"
  pe_hints :: "Result \<Rightarrow> string list"
  pe_trusted :: "string \<Rightarrow> bool"

definition isPreparedVariantUsable :: "Variant \<Rightarrow> string \<Rightarrow> bool" where
  "isPreparedVariantUsable v assetSourceHash =
     (if trim_space (v_ArtifactPath v) = [] then False
      else assetSourceHash = [] \<or> v_SourceHash v = [] \<or> v_SourceHash v = assetSourceHash)"

definition no_request :: Request where
  "no_request = \<lparr> rq_Path = [], rq_Accept = [], rq_AcceptEncoding = [], rq_Width = 0, rq_Format = [],
     rq_RangeRequested = False, rq_PreferredEncodings = None, rq_PreferredFormats = None \<rparr>"

definition compileBody :: "prepared_env \<Rightarrow> preparedBodyBudget \<Rightarrow> Result \<Rightarrow> bytes option \<times> preparedBodyBudget" where
  "compileBody env b res =
     (let request = buildMemoryCacheRequest res no_request
      in if \<not> ShouldServe (pe_memory env) request then (None, b)
         else (case Reserve b (mr_Size request) of
                 (None, b1) \<Rightarrow> (None, b1)
               | (Some reserved, b1) \<Rightarrow>
                   (case pe_read env (rs_FilePath res) of
                      None \<Rightarrow> (None, Release b1 reserved)
                    | Some body \<Rightarrow>
                        (case Adjust b1 reserved (int (length body)) of
                           (True, b2) \<Rightarrow> (Some body, b2) | (False, b2) \<Rightarrow> (None, b2)))))"

definition compileResponse ::
    "prepared_env \<Rightarrow> preparedBodyBudget \<Rightarrow> Result \<Rightarrow> string \<Rightarrow> preparedResponse \<times> preparedBodyBudget" where
  "compileResponse env b res explicitFormat =
     (let plan = (\<lambda>f. newPreparedHeaderPlan
                        (newResolvedHeaderPlan (pe_uc env) (pe_stat env) (pe_now env) (pe_policy env) res f));
          (body, b1) = compileBody env b res
      in (\<lparr> pr_result = res, pr_headerPlan = plan [], pr_explicitHeaderPlan = plan explicitFormat,
            pr_resourceHints = pe_hints env res, pr_body = body,
            pr_sendFile = pe_trusted env (rs_FilePath res) \<rparr>, b1))"

definition asset_result :: "Asset \<Rightarrow> Result" where
  "asset_result a =
     \<lparr> rs_Asset = a, rs_Variant = None, rs_FilePath = a_FullPath a, rs_MediaType = a_MediaType a,
       rs_ContentEncoding = [], rs_ETag = a_ETag a, rs_PreferredEncodings = None, rs_PreferredWidths = None,
       rs_PreferredFormats = None, rs_FallbackUsed = False \<rparr>"

definition variant_result :: "Asset \<Rightarrow> Variant \<Rightarrow> Result" where
  "variant_result a v =
     (let mediaType = (if trim_space (v_MediaType v) \<noteq> [] then v_MediaType v else a_MediaType a)
      in (asset_result a)\<lparr>rs_Variant := Some v, rs_FilePath := v_ArtifactPath v,
            rs_ETag := (if trim_space (v_ETag v) \<noteq> [] then v_ETag v else a_ETag a),
            rs_MediaType := (if v_Encoding v \<noteq> [] then a_MediaType a else mediaType),
            rs_ContentEncoding := v_Encoding v\<rparr>)"

definition compileAssetResponse :: "prepared_env \<Rightarrow> preparedBodyBudget \<Rightarrow> Asset \<Rightarrow> preparedResponse \<times> preparedBodyBudget" where
  "compileAssetResponse env b a = compileResponse env b (asset_result a) []"

definition compileVariantResponse ::
    "prepared_env \<Rightarrow> preparedBodyBudget \<Rightarrow> Asset \<Rightarrow> Variant \<Rightarrow> preparedResponse option \<times> preparedBodyBudget" where
  "compileVariantResponse env b a v =
     (if \<not> isPreparedVariantUsable v (a_SourceHash a) then (None, b)
      else (case compileResponse env b (variant_result a v) (v_Format v) of (r, b1) \<Rightarrow> (Some r, b1)))"

fun compileVariantResponses ::
    "prepared_env \<Rightarrow> preparedBodyBudget \<Rightarrow> Asset \<Rightarrow> Variant list \<Rightarrow> preparedResponse list \<times> preparedBodyBudget" where
  "compileVariantResponses env b a [] = ([], b)"
| "compileVariantResponses env b a (v # vs) =
     (case compileVariantResponse env b a v of
        (r, b1) \<Rightarrow> (case compileVariantResponses env b1 a vs of
                     (rs, b2) \<Rightarrow> (case r of None \<Rightarrow> (rs, b2) | Some x \<Rightarrow> (x # rs, b2))))"

definition compileRoute ::
    "prepared_env \<Rightarrow> preparedBodyBudget \<Rightarrow> Asset \<times> Variant list \<Rightarrow> preparedRoute \<times> preparedBodyBudget" where
  "compileRoute env b entry =
     (case compileAssetResponse env b (fst entry) of
        (identity, b1) \<Rightarrow>
          (case compileVariantResponses env b1 (fst entry) (snd entry) of
             (rs, b2) \<Rightarrow>
               (finalize (foldl addVariant (newPreparedRoute (a_Path (fst entry)) identity) rs), b2)))"

fun compileRoutes ::
    "prepared_env \<Rightarrow> preparedBodyBudget \<Rightarrow> (Asset \<times> Variant list) list \<Rightarrow> preparedRoute list \<times> preparedBodyBudget" where
  "compileRoutes env b [] = ([], b)"
| "compileRoutes env b (e # es) =
     (case compileRoute env b e of
        (rt, b1) \<Rightarrow> (case compileRoutes env b1 es of (rts, b2) \<Rightarrow> (rt # rts, b2)))"

definition preparedEntryAlias :: "string \<Rightarrow> string \<Rightarrow> string" where
  "preparedEntryAlias routePath entry =
     (let suff = ''/'' @ trim_space entry
      in if trim_space routePath = [] \<or> suff = ''/'' \<or> \<not> has_suffix routePath suff then []
         else trim_suffix routePath suff)"

definition add_route :: "string \<Rightarrow> (string \<rightharpoonup> preparedRoute) \<Rightarrow> preparedRoute \<Rightarrow> (string \<rightharpoonup> preparedRoute)" where
  "add_route entry routes rt =
     (let routes1 = routes(pt_path rt \<mapsto> rt); alias = preparedEntryAlias (pt_path rt) entry
      in if alias \<noteq> [] \<and> routes1 alias = None then routes1(alias \<mapsto> rt) else routes1)"

definition Compile :: "prepared_env \<Rightarrow> runtime_config \<Rightarrow> (Asset \<times> Variant list) list \<Rightarrow> preparedSnapshot" where
  "Compile env cfg entries =
     (let (rts, b) = compileRoutes env (newPreparedBodyBudget (Some cfg)) entries
      in \<lparr> ps_routes = foldl (add_route (cfg_Entry (rc_Assets cfg))) Map.empty rts, ps_assets = length rts \<rparr>)"

section \<open>Selecting a response\<close>

record preparedRequest =
  pq_Request :: Request
  pq_RequestedFormat :: string
  pq_CleanedPath :: cleaned

definition newPreparedRequest :: "Request \<Rightarrow> string \<Rightarrow> preparedRequest" where
  "newPreparedRequest request requestedFormat =
     \<lparr> pq_Request = request, pq_RequestedFormat = requestedFormat, pq_CleanedPath = Clean (rq_Path request) \<rparr>"

record preparedSelection =
  sl_response :: preparedResponse
  sl_fallbackUsed :: bool
  sl_explicitFormat :: bool

definition pickZeroWidthImageResponse :: "preparedResponse list \<Rightarrow> preparedResponse option" where
  "pickZeroWidthImageResponse rs =
     find (\<lambda>r. case pr_variant r of None \<Rightarrow> False | Some v \<Rightarrow> v_Width v = 0) rs"

definition pickImageFormat :: "preparedRoute \<Rightarrow> string \<Rightarrow> int \<Rightarrow> preparedResponse option" where
  "pickImageFormat rt format width =
     (case pt_images rt format of
        None \<Rightarrow> None
      | Some rs \<Rightarrow>
          (if rs = [] then None
           else if width \<le> 0 then
             (case pt_imageWidths rt (format, 0) of
                Some r \<Rightarrow> Some r | None \<Rightarrow> pickZeroWidthImageResponse rs)
           else (case pt_imageWidths rt (format, width) of
                   Some r \<Rightarrow> Some r
                 | None \<Rightarrow> (case pt_imagePicks rt format of
                              Some p \<Rightarrow> closest p width | None \<Rightarrow> None))))"

definition selectImageResponse :: "preparedRoute \<Rightarrow> preparedRequest \<Rightarrow> preparedResponse option" where
  "selectImageResponse rt rq =
     (if pt_images rt = Map.empty then None
      else (let asset = rs_Asset (pr_result (pt_identity rt)); width = rq_Width (pq_Request rq)
            in if pq_RequestedFormat rq \<noteq> [] then pickImageFormat rt (pq_RequestedFormat rq) width
               else (let formats = PreferredImageFormats (rq_Accept (pq_Request rq)) (pq_RequestedFormat rq)
                                     (a_MediaType asset)
                     in if width \<le> 0 \<and> list_len formats = 0 then None
                        else first_some (\<lambda>f. pickImageFormat rt f width)
                               (if list_len formats = 0 then [ImageFormat (a_MediaType asset)] else the formats))))"

text \<open>\<open>strings.EqualFold\<close> with an ASCII token: beside the letter cases, the long s and the Kelvin sign
  fold to \<open>s\<close> and \<open>k\<close>.\<close>

definition fold_rune :: "nat \<Rightarrow> nat" where
  "fold_rune r = (if r = 0x17F then 0x73 else if r = 0x212A then 0x6B
                  else if 65 \<le> r \<and> r \<le> 90 then r + 32 else r)"

definition equal_fold_ascii :: "string \<Rightarrow> string \<Rightarrow> bool" where
  "equal_fold_ascii s token \<longleftrightarrow> map fold_rune (runes s) = map fold_rune (runes token)"

definition acceptEncodingContainsToken :: "string \<Rightarrow> string \<Rightarrow> bool" where
  "acceptEncodingContainsToken header token \<longleftrightarrow>
     (\<exists>part\<in>set (split_on CHR '','' header). equal_fold_ascii (trim_space part) token)"

definition selectSimpleEncodingResponse :: "preparedRoute \<Rightarrow> string \<Rightarrow> preparedResponse option" where
  "selectSimpleEncodingResponse rt header =
     (if trim_space header = [] \<or> CHR '';'' \<in> set header \<or> CHR ''*'' \<in> set header then None
      else first_some (\<lambda>e. if acceptEncodingContainsToken header e then pt_encodings rt e else None) DefaultNames)"

definition selectEncodingResponse :: "preparedRoute \<Rightarrow> preparedRequest \<Rightarrow> preparedResponse option" where
  "selectEncodingResponse rt rq =
     (let header = rq_AcceptEncoding (pq_Request rq)
      in if rq_RangeRequested (pq_Request rq) \<or> pt_encodings rt = Map.empty then None
         else (case selectSimpleEncodingResponse rt header of
                 Some r \<Rightarrow> Some r
               | None \<Rightarrow> (case ParseAcceptEncodingNormalized header (Some DefaultNames) of
                            None \<Rightarrow> None
                          | Some es \<Rightarrow> first_some (pt_encodings rt) es)))"

definition selectResponse :: "preparedRoute \<Rightarrow> preparedRequest \<Rightarrow> bool \<Rightarrow> preparedSelection" where
  "selectResponse rt rq fallbackUsed =
     \<lparr> sl_response = (case selectImageResponse rt rq of
                        Some r \<Rightarrow> r
                      | None \<Rightarrow> (case selectEncodingResponse rt rq of Some r \<Rightarrow> r | None \<Rightarrow> pt_identity rt)),
       sl_fallbackUsed = fallbackUsed, sl_explicitFormat = (pq_RequestedFormat rq \<noteq> []) \<rparr>"

definition findPrimaryRoute :: "preparedSnapshot \<Rightarrow> assets_config \<Rightarrow> cleaned \<Rightarrow> preparedRoute option" where
  "findPrimaryRoute s cfg p =
     (if Value p = [] then ps_routes s (cfg_Entry cfg) else ps_routes s (Value p))"

definition findRoute :: "preparedSnapshot \<Rightarrow> assets_config \<Rightarrow> cleaned \<Rightarrow> (preparedRoute \<times> bool) option" where
  "findRoute s cfg p =
     (case findPrimaryRoute s cfg p of
        Some rt \<Rightarrow> Some (rt, False)
      | None \<Rightarrow>
          (if cfg_FallbackOnNotFound cfg \<and> AllowsEntryFallback p
           then map_option (\<lambda>rt. (rt, True)) (ps_routes s (Value (Clean (cfg_FallbackTarget cfg))))
           else None))"

definition snapshot_resolve :: "preparedSnapshot \<Rightarrow> assets_config \<Rightarrow> preparedRequest \<Rightarrow> preparedSelection option" where
  "snapshot_resolve s cfg rq =
     (case findRoute s cfg (pq_CleanedPath rq) of
        None \<Rightarrow> None | Some (rt, fallbackUsed) \<Rightarrow> Some (selectResponse rt rq fallbackUsed))"

section \<open>The budget is kept\<close>

definition budget_ok :: "preparedBodyBudget \<Rightarrow> bool" where
  "budget_ok b \<longleftrightarrow> 0 \<le> bb_used b \<and> bb_used b \<le> max 0 (bb_max b) \<and> bb_max b \<le> max_int64"

definition body_cost :: "bytes option \<Rightarrow> int" where
  "body_cost body = (case body of None \<Rightarrow> 0 | Some x \<Rightarrow> normalizedPreparedBodyBudgetSize (int (length x)))"

text \<open>Sizes are 64-bit integers.\<close>

definition env_fits :: "prepared_env \<Rightarrow> bool" where
  "env_fits env \<longleftrightarrow> mp_maxFileSize (pe_memory env) \<le> max_int64 \<and>
     (\<forall>p body. pe_read env p = Some body \<longrightarrow> int (length body) \<le> max_int64)"

text \<open>A budget with the same maximum and exactly \<open>n\<close> more in use.\<close>

definition charged :: "preparedBodyBudget \<Rightarrow> int \<Rightarrow> preparedBodyBudget \<Rightarrow> bool" where
  "charged b n b' \<longleftrightarrow> budget_ok b' \<and> bb_max b' = bb_max b \<and> bb_used b' = bb_used b + n"

lemma charged_0: "budget_ok b \<Longrightarrow> charged b 0 b"
  by (simp add: charged_def)

lemma charged_trans: "charged a m b \<Longrightarrow> charged b n c \<Longrightarrow> charged a (m + n) c"
  by (simp add: charged_def)

lemma charged_ok: "charged a m b \<Longrightarrow> budget_ok b"
  by (simp add: charged_def)

lemma wrap64_fits: "- max_int64 \<le> x \<Longrightarrow> x \<le> max_int64 \<Longrightarrow> wrap64 x = x"
  by (rule wrap64_id) (simp_all add: max_int64_def)

lemma normalized_size: "n \<le> max_int64 \<Longrightarrow> 0 < normalizedPreparedBodyBudgetSize n \<and> normalizedPreparedBodyBudgetSize n \<le> max_int64"
  by (simp add: normalizedPreparedBodyBudgetSize_def max_int64_def)

lemma Reserve_charged:
  assumes "budget_ok b" "n \<le> max_int64" "Reserve b n = (Some reserved, b')"
  shows "charged b reserved b' \<and> 0 < reserved \<and> reserved \<le> max_int64"
proof -
  define r where "r = normalizedPreparedBodyBudgetSize n"
  have *: "0 < bb_max b" "\<not> bb_used b > wrap64 (bb_max b - r)" "reserved = r"
      "b' = b\<lparr>bb_used := wrap64 (bb_used b + r)\<rparr>"
    using assms(3) by (auto simp: Reserve_def r_def Let_def split: if_splits)
  have r: "0 < r" "r \<le> max_int64" using normalized_size [OF assms(2)] by (simp_all add: r_def)
  have "wrap64 (bb_max b - r) = bb_max b - r"
    using *(1) r assms(1) by (intro wrap64_fits) (auto simp: budget_ok_def)
  then show ?thesis using * r assms(1) by (auto simp: charged_def budget_ok_def wrap64_fits)
qed

lemma Reserve_refused: "Reserve b n = (None, b') \<Longrightarrow> b' = b"
  by (auto simp: Reserve_def Let_def split: if_splits)

lemma Release_charged:
  assumes "budget_ok b" "0 \<le> n" "n \<le> bb_used b"
  shows "charged b (- n) (Release b n)"
proof -
  have "wrap64 (bb_used b - n) = bb_used b - n"
    using assms by (intro wrap64_fits) (auto simp: budget_ok_def max_int64_def split: if_splits)
  then show ?thesis using assms by (auto simp: charged_def budget_ok_def Release_def Let_def)
qed

lemma Adjust_charged:
  assumes "budget_ok b" "0 < reserved" "reserved \<le> bb_used b" "n \<le> max_int64" "Adjust b reserved n = (ok, b')"
  shows "charged b ((if ok then normalizedPreparedBodyBudgetSize n else 0) - reserved) b'"
proof -
  define a where "a = normalizedPreparedBodyBudgetSize n"
  have a: "0 < a" "a \<le> max_int64" using normalized_size [OF assms(4)] by (simp_all add: a_def)
  have Adj: "Adjust b reserved n =
      (if a = reserved then (True, b) else if a < reserved then (True, Release b (reserved - a))
       else if bb_used b > wrap64 (bb_max b - (a - reserved)) then (False, Release b reserved)
       else (True, b\<lparr>bb_used := wrap64 (bb_used b + (a - reserved))\<rparr>))"
    using assms(2) by (simp add: Adjust_def a_def Let_def)
  consider "a = reserved" | "a < reserved" | "reserved < a" by linarith
  then show ?thesis
  proof cases
    case 1
    then show ?thesis using assms(1,5) Adj by (simp add: charged_def flip: a_def)
  next
    case 2
    then have "charged b (- (reserved - a)) (Release b (reserved - a))"
      using assms a by (intro Release_charged) auto
    then show ?thesis using 2 assms(5) Adj by (simp flip: a_def)
  next
    case 3
    have w: "wrap64 (bb_max b - (a - reserved)) = bb_max b - (a - reserved)"
      using 3 assms(1,2,3) a by (intro wrap64_fits) (auto simp: budget_ok_def split: if_splits)
    show ?thesis
    proof (cases "bb_used b > bb_max b - (a - reserved)")
      case True
      then show ?thesis
        using 3 w assms Adj Release_charged [OF assms(1) _ assms(3)] by simp
    next
      case False
      then have "wrap64 (bb_used b + (a - reserved)) = bb_used b + (a - reserved)"
        using 3 assms(1) by (intro wrap64_fits) (auto simp: budget_ok_def)
      then show ?thesis using 3 False w assms(1,5) Adj by (auto simp: charged_def budget_ok_def a_def)
    qed
  qed
qed

lemma compileBody_charged:
  assumes "budget_ok b" "env_fits env" "compileBody env b res = (body, b')"
  shows "charged b (body_cost body) b'"
proof (cases "ShouldServe (pe_memory env) (buildMemoryCacheRequest res no_request)")
  case False
  then show ?thesis using assms by (simp add: compileBody_def Let_def body_cost_def charged_0)
next
  case serve: True
  define n where "n = mr_Size (buildMemoryCacheRequest res no_request)"
  have n: "n \<le> max_int64"
    using serve assms(2) by (auto simp: ShouldServe_def env_fits_def n_def split: if_splits)
  obtain r b1 where r: "Reserve b n = (r, b1)" by fastforce
  show ?thesis
  proof (cases r)
    case None
    then show ?thesis
      using assms(1,3) serve r Reserve_refused [of b n b1]
      by (simp add: compileBody_def Let_def body_cost_def charged_0 flip: n_def)
  next
    case (Some reserved)
    then have c: "charged b reserved b1" "0 < reserved" using Reserve_charged [OF assms(1) n] r by auto
    then have used: "budget_ok b1" "reserved \<le> bb_used b1"
      using assms(1) by (auto simp: charged_def budget_ok_def)
    show ?thesis
    proof (cases "pe_read env (rs_FilePath res)")
      case None
      have "charged b1 (- reserved) (Release b1 reserved)" using c(2) used by (intro Release_charged) auto
      from charged_trans [OF c(1) this] show ?thesis
        using None Some assms(3) serve r by (simp add: compileBody_def Let_def body_cost_def flip: n_def)
    next
      case content: (Some x)
      obtain ok b2 where a: "Adjust b1 reserved (int (length x)) = (ok, b2)" by fastforce
      have "int (length x) \<le> max_int64" using assms(2) content by (simp add: env_fits_def)
      from charged_trans [OF c(1) Adjust_charged [OF used(1) c(2) used(2) this a]]
      show ?thesis using a content Some assms(3) serve r
        by (cases ok) (auto simp: compileBody_def Let_def body_cost_def simp flip: n_def split: option.splits)
    qed
  qed
qed

definition responses_cost :: "preparedResponse list \<Rightarrow> int" where
  "responses_cost rs = (\<Sum>r\<leftarrow>rs. body_cost (pr_body r))"

lemma responses_cost_simps [simp]:
  "responses_cost [] = 0" "responses_cost (r # rs) = body_cost (pr_body r) + responses_cost rs"
  "responses_cost (rs @ qs) = responses_cost rs + responses_cost qs"
  by (simp_all add: responses_cost_def)

lemma compileResponse_charged:
  assumes "budget_ok b" "env_fits env" "compileResponse env b res f = (r, b')"
  shows "charged b (body_cost (pr_body r)) b'"
  using assms compileBody_charged [OF assms(1,2), of res]
  by (auto simp: compileResponse_def Let_def split: prod.splits)

lemma compileVariantResponses_charged:
  "budget_ok b \<Longrightarrow> env_fits env \<Longrightarrow> compileVariantResponses env b a vs = (rs, b') \<Longrightarrow> charged b (responses_cost rs) b'"
proof (induction vs arbitrary: b b' rs)
  case Nil
  then show ?case by (simp add: charged_0)
next
  case (Cons v vs)
  obtain r b1 where r: "compileVariantResponse env b a v = (r, b1)" by fastforce
  obtain qs b2 where qs: "compileVariantResponses env b1 a vs = (qs, b2)" by fastforce
  have 1: "charged b (body_cost (Option.bind r pr_body)) b1"
    using r compileResponse_charged [OF Cons.prems(1,2), of "variant_result a v" "v_Format v"] Cons.prems(1)
    by (auto simp: compileVariantResponse_def charged_0 body_cost_def split: if_splits prod.splits)
  from charged_trans [OF 1 Cons.IH [OF charged_ok [OF 1] Cons.prems(2) qs]] Cons.prems(3) r qs
  show ?case by (cases r) (auto simp: body_cost_def)
qed

text \<open>The responses a compilation makes, in order: of each entry the asset's, then its variants'.\<close>

fun compiled_responses :: "prepared_env \<Rightarrow> preparedBodyBudget \<Rightarrow> (Asset \<times> Variant list) list \<Rightarrow> preparedResponse list" where
  "compiled_responses env b [] = []"
| "compiled_responses env b (e # es) =
     (case compileAssetResponse env b (fst e) of
        (i, b1) \<Rightarrow> (case compileVariantResponses env b1 (fst e) (snd e) of
                      (rs, b2) \<Rightarrow> i # rs @ compiled_responses env b2 es))"

lemma compileRoutes_charged:
  "budget_ok b \<Longrightarrow> env_fits env \<Longrightarrow> compileRoutes env b es = (rts, b') \<Longrightarrow>
     charged b (responses_cost (compiled_responses env b es)) b'"
proof (induction es arbitrary: b b' rts)
  case Nil
  then show ?case by (simp add: charged_0)
next
  case (Cons e es)
  obtain i b1 where i: "compileAssetResponse env b (fst e) = (i, b1)" by fastforce
  obtain rs b2 where rs: "compileVariantResponses env b1 (fst e) (snd e) = (rs, b2)" by fastforce
  obtain qs b3 where qs: "compileRoutes env b2 es = (qs, b3)" by fastforce
  have 1: "charged b (body_cost (pr_body i)) b1"
    using i compileResponse_charged [OF Cons.prems(1,2)] by (simp add: compileAssetResponse_def)
  have 2: "charged b1 (responses_cost rs) b2"
    using compileVariantResponses_charged [OF charged_ok [OF 1] Cons.prems(2) rs] .
  from charged_trans [OF charged_trans [OF 1 2] Cons.IH [OF charged_ok [OF 2] Cons.prems(2) qs]]
  show ?case using Cons.prems(3) i rs qs by (auto simp: compileRoute_def algebra_simps)
qed

lemma new_budget_ok:
  assumes "mc_MaxBytes (rc_MemoryCache cfg) \<le> max_int64"
  shows "budget_ok (newPreparedBodyBudget (Some cfg))"
proof -
  have "wrap64 x \<le> max_int64" for x by (simp add: wrap64_def max_int64_def)
  then have "MaxCost (rc_MemoryCache cfg) \<le> max_int64"
    using assms by (simp add: MaxCost_def max_int64_def)
  then show ?thesis by (auto simp: newPreparedBodyBudget_def budget_ok_def memory_cache_Enabled_def max_int64_def)
qed


section \<open>What a route holds\<close>

definition is_encoded :: "preparedResponse \<Rightarrow> string \<Rightarrow> bool" where
  "is_encoded r e \<longleftrightarrow> (\<exists>v. pr_variant r = Some v \<and> v_Encoding v = e \<and> e \<noteq> [])"

definition is_image :: "preparedResponse \<Rightarrow> string \<Rightarrow> bool" where
  "is_image r f \<longleftrightarrow> (\<exists>v. pr_variant r = Some v \<and> v_Encoding v = [] \<and> variantImageFormat r = f \<and> f \<noteq> [])"

definition response_width :: "preparedResponse \<Rightarrow> int" where
  "response_width r = (case pr_variant r of None \<Rightarrow> 0 | Some v \<Rightarrow> v_Width v)"

definition last_opt :: "'a list \<Rightarrow> 'a option" where
  "last_opt xs = (if xs = [] then None else Some (last xs))"

definition some_list :: "'a list \<Rightarrow> 'a list option" where
  "some_list xs = (if xs = [] then None else Some xs)"

lemma last_opt_snoc [simp]: "last_opt (xs @ [x]) = Some x" "last_opt [] = None"
  by (simp_all add: last_opt_def)

lemma some_list_simps [simp]: "some_list [] = None" "some_list (xs @ [x]) = Some (xs @ [x])"
  "(some_list xs = None) = (xs = [])"
  by (simp_all add: some_list_def)

lemma last_opt_set: "last_opt xs = Some x \<Longrightarrow> x \<in> set xs"
  by (auto simp: last_opt_def split: if_splits)

lemma addVariants_fields:
  "pt_identity (foldl addVariant (newPreparedRoute p i) rs) = i \<and>
   pt_path (foldl addVariant (newPreparedRoute p i) rs) = p \<and>
   pt_imagePicks (foldl addVariant (newPreparedRoute p i) rs) = Map.empty \<and>
   (\<forall>e. pt_encodings (foldl addVariant (newPreparedRoute p i) rs) e = last_opt (filter (\<lambda>r. is_encoded r e) rs)) \<and>
   (\<forall>f. pt_images (foldl addVariant (newPreparedRoute p i) rs) f = some_list (filter (\<lambda>r. is_image r f) rs)) \<and>
   (\<forall>f w. pt_imageWidths (foldl addVariant (newPreparedRoute p i) rs) (f, w) =
       last_opt (filter (\<lambda>r. is_image r f \<and> response_width r = w) rs))"
proof (induction rs rule: rev_induct)
  case Nil
  then show ?case by (simp add: newPreparedRoute_def)
next
  case (snoc r rs)
  let ?rt = "foldl addVariant (newPreparedRoute p i) rs"
  show ?case
  proof (cases "pr_variant r")
    case None
    then show ?thesis using snoc by (simp add: addVariant_def is_encoded_def is_image_def)
  next
    case v: (Some v)
    have w: "response_width r = v_Width v" by (simp add: response_width_def v)
    show ?thesis
    proof (cases "v_Encoding v = []")
      case False
      then have "is_encoded r e \<longleftrightarrow> e = v_Encoding v" "\<not> is_image r f" for e f
        using v by (auto simp: is_encoded_def is_image_def)
      then show ?thesis using snoc v False by (auto simp: addVariant_def)
    next
      case True
      then have enc: "\<not> is_encoded r e" for e using v by (auto simp: is_encoded_def)
      show ?thesis
      proof (cases "variantImageFormat r = []")
        case none: True
        then have "\<not> is_image r f" for f by (auto simp: is_image_def)
        then show ?thesis using snoc v True none enc by (simp add: addVariant_def Let_def)
      next
        case False
        then have im: "is_image r f \<longleftrightarrow> f = variantImageFormat r" for f
          using v True by (auto simp: is_image_def)
        have "(case pt_images ?rt f of None \<Rightarrow> [r] | Some rs \<Rightarrow> rs @ [r]) = filter (\<lambda>r. is_image r f) rs @ [r]" for f
          using snoc by (auto simp: some_list_def)
        then show ?thesis using snoc v True False enc im w by (auto simp: addVariant_def Let_def)
      qed
    qed
  qed
qed

section \<open>The closest width\<close>

lemma search_ints_least:
  assumes "sorted xs" "i \<le> j" "j \<le> length xs" "\<forall>k<i. xs ! k < x" "\<forall>k. j \<le> k \<longrightarrow> k < length xs \<longrightarrow> x \<le> xs ! k"
  shows "search_ints xs x i j \<le> length xs \<and> (\<forall>k. k < search_ints xs x i j \<longrightarrow> xs ! k < x) \<and>
    (\<forall>k. search_ints xs x i j \<le> k \<longrightarrow> k < length xs \<longrightarrow> x \<le> xs ! k)"
  using assms
proof (induction xs x i j rule: search_ints.induct)
  case (1 xs x i j)
  define h where "h = (i + j) div 2"
  show ?case
  proof (cases "i < j")
    case False
    then have "search_ints xs x i j = i" by (subst search_ints.simps) simp
    then show ?thesis using "1.prems" False by simp
  next
    case True
    then have h: "i \<le> h" "h < j" by (simp_all add: h_def)
    show ?thesis
    proof (cases "xs ! h < x")
      case less: True
      have "xs ! k \<le> xs ! h" if "k < h + 1" for k
        using that h "1.prems"(1,3) by (intro sorted_nth_mono) auto
      then have "\<forall>k<h + 1. xs ! k < x" using less by (meson order_le_less_trans)
      note lower = this
      have "search_ints xs x (h + 1) j \<le> length xs \<and> (\<forall>k. k < search_ints xs x (h + 1) j \<longrightarrow> xs ! k < x) \<and>
          (\<forall>k. search_ints xs x (h + 1) j \<le> k \<longrightarrow> k < length xs \<longrightarrow> x \<le> xs ! k)"
        by (rule "1.IH"(1) [OF True h_def less "1.prems"(1) _ "1.prems"(3) lower "1.prems"(5)]) (use h in linarith)
      moreover have "search_ints xs x i j = search_ints xs x (h + 1) j"
        by (subst search_ints.simps) (simp add: True less Let_def flip: h_def)
      ultimately show ?thesis by simp
    next
      case ge: False
      have "xs ! h \<le> xs ! k" if "h \<le> k" "k < length xs" for k
        using that "1.prems"(1) by (intro sorted_nth_mono) auto
      then have "\<forall>k. h \<le> k \<longrightarrow> k < length xs \<longrightarrow> x \<le> xs ! k" using ge by (meson leI order_trans)
      note upper = this
      have "search_ints xs x i h \<le> length xs \<and> (\<forall>k. k < search_ints xs x i h \<longrightarrow> xs ! k < x) \<and>
          (\<forall>k. search_ints xs x i h \<le> k \<longrightarrow> k < length xs \<longrightarrow> x \<le> xs ! k)"
        by (rule "1.IH"(2) [OF True h_def ge "1.prems"(1) h(1) _ "1.prems"(4) upper]) (use h "1.prems"(3) in linarith)
      moreover have "search_ints xs x i j = search_ints xs x i h"
        by (subst search_ints.simps) (simp add: True ge Let_def flip: h_def)
      ultimately show ?thesis by simp
    qed
  qed
qed

lemma SearchInts_least:
  assumes "sorted xs"
  shows "SearchInts xs x \<le> length xs" "k < SearchInts xs x \<Longrightarrow> xs ! k < x"
    "SearchInts xs x \<le> k \<Longrightarrow> k < length xs \<Longrightarrow> x \<le> xs ! k"
  using search_ints_least [OF assms, of 0 "length xs" x] by (auto simp: SearchInts_def)

text \<open>The picker of a list in order of width returns the closest width: the narrowest at least as wide
  as asked for, else the widest.\<close>

definition closest_response :: "int \<Rightarrow> preparedResponse set \<Rightarrow> preparedResponse \<Rightarrow> bool" where
  "closest_response w R r \<longleftrightarrow> r \<in> R \<and>
     (\<forall>q\<in>R. if response_width q \<ge> w then response_width r \<ge> w \<and> response_width r \<le> response_width q
            else response_width r \<ge> w \<or> response_width r \<ge> response_width q)"

lemma sorted_distinct_by: "sorted (map k xs) \<Longrightarrow> sorted (map k (distinct_by k xs))"
proof (induction k xs rule: distinct_by.induct)
  case (2 k x xs)
  have "sorted (map k (filter (\<lambda>y. k y \<noteq> k x) xs))"
    using "2.prems" by (simp add: sorted_filter)
  then have "sorted (map k (distinct_by k (filter (\<lambda>y. k y \<noteq> k x) xs)))" by (rule "2.IH")
  then show ?case using "2.prems" set_distinct_by_subset [of k "filter (\<lambda>y. k y \<noteq> k x) xs"] by auto
qed simp

lemma closest_exact:
  assumes widths: "sorted (map response_width L)" "\<forall>r\<in>set L. pr_variant r \<noteq> None \<and> 0 \<le> response_width r"
    and "L \<noteq> []" "0 < w"
  shows "\<exists>p r. newPreparedImagePicker L = Some p \<and> closest p w = Some r \<and> closest_response w (set L) r"
proof -
  define cs where "cs = distinct_by fst (List.map_filter picker_candidate L)"
  have cand: "picker_candidate r = Some (response_width r, r)" if "r \<in> set L" for r
    using that widths(2) by (auto simp: picker_candidate_def response_width_def split: option.splits)
  have mf: "List.map_filter picker_candidate L = map (\<lambda>r. (response_width r, r)) L"
    using cand by (induction L) (simp_all add: List.map_filter_simps)
  have set_cs: "fst ` set cs = response_width ` set L" unfolding cs_def mf image_set_distinct_by by force
  have sub: "set cs \<subseteq> (\<lambda>r. (response_width r, r)) ` set L"
    using set_distinct_by_subset [of fst "map (\<lambda>r. (response_width r, r)) L"] unfolding cs_def mf by simp
  have "sorted (map fst cs)" unfolding cs_def mf using widths(1) by (intro sorted_distinct_by) (simp add: comp_def)
  note least = SearchInts_least [OF this, where x = w]
  define i where "i = SearchInts (map fst cs) w"
  have ne: "cs \<noteq> []" using set_cs assms(3) by auto
  then have picker: "newPreparedImagePicker L = Some \<lparr> pk_widths = map fst cs, pk_responses = map snd cs \<rparr>"
    by (simp add: newPreparedImagePicker_def cs_def Let_def)
  have ws: "fst (cs ! k) = response_width (snd (cs ! k)) \<and> snd (cs ! k) \<in> set L" if "k < length cs" for k
    using sub nth_mem [OF that] by auto
  define m where "m = (if i < length cs then i else length cs - 1)"
  have m: "m < length cs" using ne by (auto simp: m_def)
  have cl: "closest \<lparr> pk_widths = map fst cs, pk_responses = map snd cs \<rparr> w = Some (snd (cs ! m))"
    using ne assms(4) m by (simp add: closest_def Let_def m_def flip: i_def)
  have "if response_width q \<ge> w then response_width (snd (cs ! m)) \<ge> w \<and> response_width (snd (cs ! m)) \<le> response_width q
        else response_width (snd (cs ! m)) \<ge> w \<or> response_width (snd (cs ! m)) \<ge> response_width q" if "q \<in> set L" for q
  proof -
    from that set_cs have "response_width q \<in> fst ` set cs" by auto
    then obtain k where k: "k < length cs" "fst (cs ! k) = response_width q" by (auto simp: in_set_conv_nth)
    have srt: "a \<le> b \<Longrightarrow> b < length cs \<Longrightarrow> fst (cs ! a) \<le> fst (cs ! b)" for a b
      using sorted_nth_mono [OF \<open>sorted (map fst cs)\<close>, of a b] by simp
    show ?thesis
    proof (cases "i < length cs")
      case True
      then have wide: "w \<le> fst (cs ! i)" using least(3) [where k = i] by (simp add: i_def)
      show ?thesis
      proof (cases "w \<le> response_width q")
        case wq: True
        then have "i \<le> k" using least(2) [where k = k] k by (metis i_def leI linorder_not_less nth_map)
        then have "fst (cs ! i) \<le> fst (cs ! k)" using srt k(1) by simp
        then show ?thesis using wq wide k(2) ws [OF True] True by (simp add: m_def)
      qed (use wide ws [OF True] True in \<open>simp add: m_def\<close>)
    next
      case False
      then have "k < i" using k(1) by simp
      then have "fst (cs ! k) < w" using least(2) [where k = k] k(1) by (simp add: i_def)
      moreover have "fst (cs ! k) \<le> fst (cs ! m)" using srt k(1) m False by (simp add: m_def)
      ultimately show ?thesis using k(2) ws [OF m] by simp
    qed
  qed
  with ws [OF m] have "closest_response w (set L) (snd (cs ! m))" unfolding closest_response_def by blast
  with picker cl show ?thesis by blast
qed

lemma sort_images_widths:
  assumes "\<forall>r\<in>set L. \<exists>v. pr_variant r = Some v \<and> v_Format v = f"
  shows "sorted (map response_width (sort_images L))"
proof -
  have cmp: "comparePreparedImageResponses a b \<longleftrightarrow> response_width a < response_width b \<or>
      response_width a = response_width b \<and> v_ID (the (pr_variant a)) < v_ID (the (pr_variant b))"
    if "a \<in> set L" "b \<in> set L" for a b
  proof -
    obtain v u where "pr_variant a = Some v" "pr_variant b = Some u" "v_Format v = f" "v_Format u = f"
      using assms \<open>a \<in> set L\<close> \<open>b \<in> set L\<close> by blast
    then show ?thesis by (auto simp: comparePreparedImageResponses_def response_width_def)
  qed
  have "strict_weak_on (set L) comparePreparedImageResponses"
    unfolding strict_weak_on_def by (auto simp: cmp)
  from sorted_sort_func [OF this]
  have "sorted_wrt (\<lambda>a b. \<not> comparePreparedImageResponses b a) (sort_images L)" by (simp add: sort_images_def)
  then have "sorted_wrt (\<lambda>a b. response_width a \<le> response_width b) (sort_images L)"
    by (rule sorted_wrt_mono_rel [rotated]) (auto simp: cmp sort_images_def)
  then show ?thesis by (simp add: sorted_map)
qed


section \<open>The variants behind the responses\<close>

lemma isPreparedVariantUsable_eq: "isPreparedVariantUsable v h = isUsableVariant v h"
  by (auto simp: isPreparedVariantUsable_def isUsableVariant_def)

lemma compileResponse_result: "compileResponse env b res f = (r, b') \<Longrightarrow> pr_result r = res"
  by (auto simp: compileResponse_def Let_def split: prod.splits)

lemma compileVariantResponse_result:
  assumes "compileVariantResponse env b a v = (r, b')"
  shows "map_option pr_result r = (if isUsableVariant v (a_SourceHash a) then Some (variant_result a v) else None)"
proof (cases "isUsableVariant v (a_SourceHash a)")
  case True
  obtain x b1 where x: "compileResponse env b (variant_result a v) (v_Format v) = (x, b1)" by fastforce
  with assms True compileResponse_result [OF x] show ?thesis
    by (auto simp: compileVariantResponse_def isPreparedVariantUsable_eq)
qed (use assms in \<open>simp add: compileVariantResponse_def isPreparedVariantUsable_eq\<close>)

lemma compileVariantResponses_results:
  "compileVariantResponses env b a vs = (rs, b') \<Longrightarrow>
     map pr_result rs = map (variant_result a) (filter (\<lambda>v. isUsableVariant v (a_SourceHash a)) vs)"
proof (induction vs arbitrary: b rs b')
  case (Cons v vs)
  obtain r b1 where r: "compileVariantResponse env b a v = (r, b1)" by fastforce
  obtain qs b2 where qs: "compileVariantResponses env b1 a vs = (qs, b2)" by fastforce
  from Cons.IH [OF qs] Cons.prems r qs compileVariantResponse_result [OF r] show ?case
    by (cases r) (auto split: if_splits)
qed simp

lemma variant_result_variant [simp]: "rs_Variant (variant_result a v) = Some v" "rs_Asset (variant_result a v) = a"
  by (simp_all add: variant_result_def asset_result_def Let_def)

text \<open>The variants the pipeline makes: an encoding, or an image of a known format.\<close>

definition pipeline_variant :: "Variant \<Rightarrow> bool" where
  "pipeline_variant v \<longleftrightarrow>
     (if v_Encoding v \<noteq> [] then v_Format v = [] \<and> ImageFormat (v_MediaType v) = []
      else v_Format v \<in> set SupportedImageFormats \<and> 0 \<le> v_Width v)"

text \<open>No two variants share an encoding, or a format and width, as in the catalog.\<close>

definition slots_unique :: "Variant set \<Rightarrow> bool" where
  "slots_unique V \<longleftrightarrow>
     (\<forall>v\<in>V. \<forall>u\<in>V. v_Encoding v \<noteq> [] \<longrightarrow> v_Encoding u = v_Encoding v \<longrightarrow> u = v) \<and>
     (\<forall>v\<in>V. \<forall>u\<in>V. imageFormatKey v \<noteq> [] \<longrightarrow> imageFormatKey u = imageFormatKey v \<longrightarrow> v_Width u = v_Width v \<longrightarrow> u = v)"

lemma supported_format: "f \<in> set SupportedImageFormats \<Longrightarrow> f \<noteq> [] \<and> trim_space f = f"
  unfolding image_names by (auto; code_simp)

lemma pipeline_image:
  assumes "pipeline_variant v" "f \<noteq> []"
  shows "imageFormatKey v = f \<longleftrightarrow> v_Encoding v = [] \<and> v_Format v = f"
  using assms supported_format by (auto simp: pipeline_variant_def imageFormatKey_def split: if_splits)

lemma variant_response:
  assumes "pr_result r = variant_result a v" "pipeline_variant v"
  shows "pr_variant r = Some v" "response_width r = v_Width v"
    and "is_encoded r e \<longleftrightarrow> v_Encoding v = e \<and> e \<noteq> []"
    and "is_image r f \<longleftrightarrow> imageFormatKey v = f \<and> f \<noteq> []"
proof -
  show 1: "pr_variant r = Some v" by (simp add: pr_variant_def assms(1))
  then show "response_width r = v_Width v" "is_encoded r e \<longleftrightarrow> v_Encoding v = e \<and> e \<noteq> []"
    by (simp_all add: response_width_def is_encoded_def)
  have "v_Encoding v = [] \<Longrightarrow> variantImageFormat r = v_Format v"
    using assms(2) supported_format by (simp add: variantImageFormat_def 1 pipeline_variant_def Let_def)
  then show "is_image r f \<longleftrightarrow> imageFormatKey v = f \<and> f \<noteq> []"
    using pipeline_image [OF assms(2), of f] by (auto simp: is_image_def 1)
qed

text \<open>A route compiled from an asset and its variants.\<close>

definition usable_in :: "Asset \<Rightarrow> Variant set \<Rightarrow> Variant set" where
  "usable_in a V = {v \<in> V. isUsableVariant v (a_SourceHash a)}"

lemma responses_variants:
  assumes "map pr_result rs = map (variant_result a) (filter (\<lambda>v. isUsableVariant v (a_SourceHash a)) vs)"
  shows "pr_result ` set rs = variant_result a ` usable_in a (set vs)"
  using arg_cong [OF assms, of set] by (simp add: usable_in_def)

lemma in_responses:
  assumes "pr_result ` set rs = variant_result a ` U"
  shows "r \<in> set rs \<Longrightarrow> \<exists>v\<in>U. pr_result r = variant_result a v"
    and "v \<in> U \<Longrightarrow> \<exists>r\<in>set rs. pr_result r = variant_result a v"
  using assms by (metis (mono_tags, opaque_lifting) imageE imageI)+

text \<open>What a lookup of the route returns, in terms of the variants.\<close>

definition plain_image :: "Variant set \<Rightarrow> string \<Rightarrow> int \<Rightarrow> Variant option \<Rightarrow> bool" where
  "plain_image U f w picked =
     (case picked of
        None \<Rightarrow> (\<forall>v\<in>U. imageFormatKey v = f \<and> f \<noteq> [] \<longrightarrow> w \<le> 0 \<and> v_Width v \<noteq> 0)
      | Some b \<Rightarrow> b \<in> U \<and> imageFormatKey b = f \<and> f \<noteq> [] \<and>
          (if w \<le> 0 then v_Width b = 0
           else (\<forall>v\<in>U. imageFormatKey v = f \<longrightarrow>
                  (if v_Width v \<ge> w then v_Width b \<ge> w \<and> v_Width b \<le> v_Width v
                   else v_Width b \<ge> w \<or> v_Width b \<ge> v_Width v))))"

lemma last_opt_None [simp]: "last_opt xs = None \<longleftrightarrow> xs = []"
  by (simp add: last_opt_def)

lemma sort_images_ne [simp]: "sort_images L = [] \<longleftrightarrow> L = []"
  by (metis length_0_conv length_sort_func sort_images_def)

lemma pickImageFormat_plain:
  fixes p :: string and i :: preparedResponse
  assumes rs: "pr_result ` set rs = variant_result a ` U" and pl: "\<forall>v\<in>U. pipeline_variant v"
  defines "rt \<equiv> finalize (foldl addVariant (newPreparedRoute p i) rs)"
  shows "\<exists>picked. map_option pr_result (pickImageFormat rt f w) = map_option (variant_result a) picked \<and>
    plain_image U f w picked"
proof -
  define L where "L = filter (\<lambda>r. is_image r f) rs"
  define rt0 where "rt0 = foldl addVariant (newPreparedRoute p i) rs"
  note fields = addVariants_fields [of p i rs, folded rt0_def]
  have imgs: "pt_images rt f = map_option sort_images (some_list L)"
    and widths: "pt_imageWidths rt (f, w') = last_opt (filter (\<lambda>r. is_image r f \<and> response_width r = w') rs)"
    and picks: "pt_imagePicks rt f = (if L = [] then None else newPreparedImagePicker (sort_images L))" for w'
    using fields by (simp_all add: rt_def finalize_def some_list_def L_def split: option.splits flip: rt0_def)
  have mem: "\<exists>v\<in>U. pr_result r = variant_result a v \<and> imageFormatKey v = f \<and> f \<noteq> []" if "r \<in> set L" for r
  proof -
    have r: "r \<in> set rs" "is_image r f" using that by (simp_all add: L_def)
    obtain v where v: "v \<in> U" "pr_result r = variant_result a v" using in_responses(1) [OF rs r(1)] by blast
    then have "pipeline_variant v" using pl by blast
    from variant_response(4) [OF v(2) this] r(2) v show ?thesis by blast
  qed
  have mem': "\<exists>r\<in>set L. pr_result r = variant_result a v" if "v \<in> U" "imageFormatKey v = f" "f \<noteq> []" for v
  proof -
    note asm = that
    obtain r where r: "r \<in> set rs" "pr_result r = variant_result a v" using in_responses(2) [OF rs asm(1)] by blast
    have "pipeline_variant v" using pl asm(1) by blast
    from variant_response(4) [OF r(2) this] r asm(2,3) show ?thesis by (auto simp: L_def)
  qed
  have width: "r \<in> set L \<Longrightarrow> pr_result r = variant_result a v \<Longrightarrow> v \<in> U \<Longrightarrow> response_width r = v_Width v" for r v
    using variant_response(2) pl by blast
  show ?thesis
  proof (cases "L = []")
    case True
    then have "pickImageFormat rt f w = None" by (simp add: pickImageFormat_def imgs)
    moreover have "plain_image U f w None" using mem' True by (fastforce simp: plain_image_def)
    ultimately show ?thesis by (intro exI [of _ None]) simp
  next
    case False
    then have pick: "pickImageFormat rt f w =
        (if w \<le> 0 then
           (case last_opt (filter (\<lambda>r. is_image r f \<and> response_width r = 0) rs) of
              Some r \<Rightarrow> Some r | None \<Rightarrow> pickZeroWidthImageResponse (sort_images L))
         else (case last_opt (filter (\<lambda>r. is_image r f \<and> response_width r = w) rs) of
                 Some r \<Rightarrow> Some r
               | None \<Rightarrow> (case newPreparedImagePicker (sort_images L) of
                            Some p \<Rightarrow> closest p w | None \<Rightarrow> None)))"
      by (simp add: pickImageFormat_def imgs widths picks some_list_def cong: option.case_cong)
    have exact: "\<exists>v\<in>U. pr_result r = variant_result a v \<and> imageFormatKey v = f \<and> f \<noteq> [] \<and> v_Width v = x"
      if "last_opt (filter (\<lambda>r. is_image r f \<and> response_width r = x) rs) = Some r" for r x
    proof -
      have r: "r \<in> set L" "response_width r = x" using last_opt_set [OF that] by (auto simp: L_def)
      from mem [OF r(1)] obtain v where v: "v \<in> U" "pr_result r = variant_result a v" "imageFormatKey v = f" "f \<noteq> []"
        by blast
      moreover have "v_Width v = x" using width [OF r(1) v(2,1)] r(2) by simp
      ultimately show ?thesis by (intro bexI [of _ v] conjI)
    qed
    have inexact: "v_Width v \<noteq> x"
      if "last_opt (filter (\<lambda>r. is_image r f \<and> response_width r = x) rs) = None" "v \<in> U" "imageFormatKey v = f" "f \<noteq> []" for v x
    proof
      assume x: "v_Width v = x"
      note asm = that
      obtain r where r: "r \<in> set L" "pr_result r = variant_result a v" using mem' asm(2-4) by blast
      have "r \<in> set (filter (\<lambda>r. is_image r f \<and> response_width r = x) rs)"
        using r(1) width [OF r asm(2)] x by (simp add: L_def)
      then show False using asm(1) by (metis empty_iff empty_set last_opt_None)
    qed
    show ?thesis
    proof (cases "last_opt (filter (\<lambda>r. is_image r f \<and> response_width r = max 0 w) rs)")
      case (Some r)
      then obtain v where v: "v \<in> U" "pr_result r = variant_result a v" "imageFormatKey v = f" "f \<noteq> []" "v_Width v = max 0 w"
        using exact by blast
      moreover have "pickImageFormat rt f w = Some r" using Some by (cases "w \<le> 0") (simp_all add: pick max_def split: if_splits)
      moreover have "plain_image U f w (Some v)" using v by (simp add: plain_image_def)
      ultimately show ?thesis by (intro exI [of _ "Some v"]) simp
    next
      case None
      note absent = inexact [OF None]
      show ?thesis
      proof (cases "w \<le> 0")
        case True
        have "pickZeroWidthImageResponse (sort_images L) = None"
        proof -
          have "\<not> (case pr_variant r of None \<Rightarrow> False | Some v \<Rightarrow> v_Width v = 0)" if r: "r \<in> set L" for r
          proof -
            obtain v where "v \<in> U" "pr_result r = variant_result a v" "imageFormatKey v = f" "f \<noteq> []" using mem [OF r] by blast
            then show ?thesis using absent [of v] True by (simp add: pr_variant_def)
          qed
          then show ?thesis by (auto simp: pickZeroWidthImageResponse_def find_None_iff sort_images_def)
        qed
        then have "pickImageFormat rt f w = None" using None True by (simp add: pick)
        moreover have "plain_image U f w None" using absent True by (simp add: plain_image_def)
        ultimately show ?thesis by (intro exI [of _ None]) simp
      next
        case False
        have fmt: "\<forall>r\<in>set L. \<exists>v. pr_variant r = Some v \<and> v_Format v = f"
        proof
          fix r assume "r \<in> set L"
          then obtain v where v: "v \<in> U" "pr_result r = variant_result a v" "imageFormatKey v = f" "f \<noteq> []" using mem by blast
          then have "v_Format v = f" using pipeline_image pl by blast
          then show "\<exists>v. pr_variant r = Some v \<and> v_Format v = f" using v(2) by (simp add: pr_variant_def)
        qed
        have pos: "\<forall>r\<in>set (sort_images L). pr_variant r \<noteq> None \<and> 0 \<le> response_width r"
        proof
          fix r assume "r \<in> set (sort_images L)"
          then have r: "r \<in> set L" by (simp add: sort_images_def)
          then obtain v where v: "v \<in> U" "pr_result r = variant_result a v" "imageFormatKey v = f" "f \<noteq> []" using mem by blast
          moreover have "v_Encoding v = []" using v pipeline_image pl by blast
          ultimately show "pr_variant r \<noteq> None \<and> 0 \<le> response_width r"
            using pl width [OF r, of v] by (auto simp: pr_variant_def pipeline_variant_def)
        qed
        have "0 < w" "sort_images L \<noteq> []" using False \<open>L \<noteq> []\<close> by simp_all
        from closest_exact [OF sort_images_widths [OF fmt] pos this(2,1)]
        obtain pk r where pk: "newPreparedImagePicker (sort_images L) = Some pk" "closest pk w = Some r"
            "closest_response w (set (sort_images L)) r" by blast
        then have cl: "closest_response w (set L) r" by (simp add: sort_images_def)
        then have rL: "r \<in> set L" by (simp add: closest_response_def)
        then obtain v where v: "v \<in> U" "pr_result r = variant_result a v" "imageFormatKey v = f" "f \<noteq> []" using mem by blast
        have "if v_Width u \<ge> w then v_Width v \<ge> w \<and> v_Width v \<le> v_Width u else v_Width v \<ge> w \<or> v_Width v \<ge> v_Width u"
          if u: "u \<in> U" "imageFormatKey u = f" for u
        proof -
          obtain q where q: "q \<in> set L" "pr_result q = variant_result a u" using mem' u v(4) by blast
          then have "if response_width q \<ge> w then response_width r \<ge> w \<and> response_width r \<le> response_width q
              else response_width r \<ge> w \<or> response_width r \<ge> response_width q"
            using cl unfolding closest_response_def by blast
          then show ?thesis by (simp only: width [OF q u(1)] width [OF rL v(2,1)])
        qed
        then have "plain_image U f w (Some v)" using v False by (simp add: plain_image_def)
        moreover have "pickImageFormat rt f w = Some r" using None False pk by (simp add: pick)
        ultimately show ?thesis using v(2) by (intro exI [of _ "Some v"]) simp
      qed
    qed
  qed
qed

section \<open>Simple Accept-Encoding headers\<close>

definition ascii :: "string \<Rightarrow> bool" where
  "ascii s \<longleftrightarrow> (\<forall>c\<in>set s. of_char c < (128 :: nat))"

lemma ascii_runes: "ascii s \<Longrightarrow> runes s = map of_char s"
proof (induction s)
  case Nil
  then show ?case by (simp add: runes_def runes_of.simps)
next
  case (Cons c s)
  then have c: "of_char c < (128 :: nat)" and IH: "runes_of (map of_char s) = map of_char s"
    by (simp_all add: ascii_def runes_def)
  have "decode_rune (of_char c # map of_char s) = (of_char c, 1)"
    using c by (simp add: decode_rune_def Let_def)
  then show ?case using IH by (simp add: runes_def runes_of.simps [of "of_char c # map of_char s"])
qed

lemma of_lower_char: "(of_char (lower_char c) :: nat) = (let n = of_char c in if 65 \<le> n \<and> n \<le> 90 then n + 32 else n)"
proof (cases "65 \<le> (of_char c :: nat) \<and> (of_char c :: nat) \<le> 90")
  case True
  then have "(of_char c + 32 :: nat) < 256" by simp
  then have "(of_char (char_of (of_char c + 32 :: nat)) :: nat) = of_char c + 32" by (simp only: of_char_of mod_less)
  then show ?thesis using True by (simp add: lower_char_def Let_def)
qed (auto simp: lower_char_def Let_def)

lemma fold_lower_ascii: "of_char c < (128 :: nat) \<Longrightarrow> fold_rune (of_char c) = (of_char (lower_char c) :: nat)"
  by (simp add: of_lower_char fold_rune_def Let_def)

lemma equal_fold_ascii_lower:
  assumes "ascii s" "ascii t"
  shows "equal_fold_ascii s t \<longleftrightarrow> to_lower s = to_lower t"
proof -
  have fold: "map fold_rune (runes u) = map of_char (to_lower u)" if "ascii u" for u
    using that by (simp add: ascii_runes to_lower_def ascii_def fold_lower_ascii)
  have "inj (of_char :: char \<Rightarrow> nat)" by (simp add: inj_on_def)
  then show ?thesis by (simp add: equal_fold_ascii_def fold assms inj_map_eq_map)
qed

lemma ascii_subset: "ascii s \<Longrightarrow> set t \<subseteq> set s \<Longrightarrow> ascii t"
  by (auto simp: ascii_def)

definition simple_header :: "string \<Rightarrow> bool" where
  "simple_header h \<longleftrightarrow> trim_space h \<noteq> [] \<and> CHR '';'' \<notin> set h \<and> CHR ''*'' \<notin> set h"

definition header_tokens :: "string \<Rightarrow> string set" where
  "header_tokens h = {TrimLower part | part. part \<in> set (split_on CHR '','' h) \<and> trim_space part \<noteq> []}"

lemma ParseAcceptEntry_plain:
  assumes "CHR '';'' \<notin> set part"
  shows "ParseAcceptEntry part =
    (if trim_space part = [] then None else Some \<lparr>Token = TrimLower part, Quality = f64_one\<rparr>)"
proof -
  have "CHR '';'' \<notin> set (trim_space part)" using assms set_trim_space_subset by blast
  then show ?thesis
    by (simp add: ParseAcceptEntry_def cut_notin ParseAcceptQuality_def IsBlank_def TrimLower_def Let_def trim_space_idem)
qed

lemma set_map_filter_eq: "set (List.map_filter f xs) = {y. \<exists>x\<in>set xs. f x = Some y}"
  by (induction xs) (auto simp: List.map_filter_simps split: option.splits)

lemma simple_entries:
  assumes "CHR '';'' \<notin> set h"
  shows "set (ForEachAcceptEntry h) = (\<lambda>t. \<lparr>Token = t, Quality = f64_one\<rparr>) ` header_tokens h"
proof -
  have "CHR '';'' \<notin> set part" if "part \<in> set (split_on CHR '','' h)" for part
    using assms split_on_subset [OF that] by blast
  then show ?thesis
    unfolding accept_entries_split header_tokens_def set_map_filter_eq
    by (auto simp: ParseAcceptEntry_plain split: if_splits)
qed


lemma foldl_better_one: "foldl better (Some f64_one) (replicate n f64_one) = Some f64_one"
  by (induction n) (simp_all add: better_def)

lemma offered_one:
  assumes "set es = (\<lambda>t. \<lparr>Token = t, Quality = f64_one\<rparr>) ` T"
  shows "best_of (offered es e) = (if e \<in> T then Some f64_one else None)" "offered es e = [] \<longleftrightarrow> e \<notin> T"
proof -
  have q: "x \<in> set es \<Longrightarrow> Quality x = f64_one" for x using assms by auto
  show ne: "offered es e = [] \<longleftrightarrow> e \<notin> T"
    using assms by (auto simp: offered_def filter_empty_conv)
  obtain n where n: "offered es e = replicate n f64_one"
    unfolding offered_def by (metis (mono_tags, lifting) map_replicate_const map_cong filter_is_subset q subsetD)
  show "best_of (offered es e) = (if e \<in> T then Some f64_one else None)"
  proof (cases n)
    case 0
    then show ?thesis using n ne by (simp add: best_of_def)
  next
    case (Suc k)
    then show ?thesis using n ne foldl_better_one [of k] by (simp add: best_of_def better_def)
  qed
qed

lemma simple_quality:
  assumes "simple_header h" "e \<noteq> ''*''"
  shows "entry_quality (ForEachAcceptEntry h) e = (if e \<in> header_tokens h then Some f64_one else None)"
proof -
  have semi: "CHR '';'' \<notin> set h" and star: "CHR ''*'' \<notin> set h" using assms(1) by (simp_all add: simple_header_def)
  have "''*'' \<notin> header_tokens h"
  proof
    assume "''*'' \<in> header_tokens h"
    then obtain part where part: "part \<in> set (split_on CHR '','' h)" "''*'' = TrimLower part"
      by (auto simp: header_tokens_def)
    then have "map lower_char (trim_space part) = ''*''" by (simp add: TrimLower_def to_lower_def)
    then obtain c where c: "trim_space part = [c]" "lower_char c = CHR ''*''" by (cases "trim_space part") auto
    then have "c = CHR ''*''" using lower_char_case_free [of "CHR ''*''" c] by (simp add: case_free_def)
    then have "CHR ''*'' \<in> set part" using c(1) set_trim_space_subset [of part] by auto
    then show False using split_on_subset [OF part(1)] star by blast
  qed
  then show ?thesis
    using offered_one [OF simple_entries [OF semi]] assms(2)
    by (simp add: entry_quality_def last_quality_def)
qed

lemma nan_free_simple: "simple_header h \<Longrightarrow> nan_free h"
  using simple_entries [of h] by (auto simp: nan_free_def simple_header_def list_all_iff)

lemma sorted_position_unique:
  assumes "distinct vs" "set es \<subseteq> set vs" "sorted_wrt (\<lambda>a b. position vs a < position vs b) es"
  shows "es = filter (\<lambda>v. v \<in> set es) vs"
proof -
  have inj: "inj_on (position vs) (set vs)"
    by (metis assms(1) in_set_conv_nth inj_onI position_nth)
  have pos: "map (position vs) vs = [0..<length vs]"
    by (rule nth_equalityI) (simp_all add: position_nth assms(1))
  have "sorted_wrt (<) (map (position vs) es)" using assms(3) by (simp add: sorted_wrt_map)
  moreover have "sorted_wrt (<) (map (position vs) vs)" by (simp add: pos)
  then have "sorted_wrt (\<lambda>a b. position vs a < position vs b) vs" by (simp add: sorted_wrt_map)
  then have "sorted_wrt (\<lambda>a b. position vs a < position vs b) (filter (\<lambda>v. v \<in> set es) vs)" by (rule sorted_wrt_filter)
  then have "sorted_wrt (<) (map (position vs) (filter (\<lambda>v. v \<in> set es) vs))" by (simp add: sorted_wrt_map)
  moreover have "set (map (position vs) es) = set (map (position vs) (filter (\<lambda>v. v \<in> set es) vs))"
    using assms(2) by auto
  ultimately have "map (position vs) es = map (position vs) (filter (\<lambda>v. v \<in> set es) vs)"
    by (metis strict_sorted_equal)
  then show ?thesis
    by (rule map_inj_on) (use inj assms(2) in \<open>auto intro: inj_on_subset\<close>)
qed

lemma contains_token:
  assumes "ascii h" "ascii e" "e \<noteq> []" "to_lower e = e"
  shows "acceptEncodingContainsToken h e \<longleftrightarrow> e \<in> header_tokens h"
proof -
  have "equal_fold_ascii (trim_space part) e \<longleftrightarrow> TrimLower part = e" if "part \<in> set (split_on CHR '','' h)" for part
  proof -
    have "ascii (trim_space part)"
      using assms(1) split_on_subset [OF that] set_trim_space_subset [of part] by (meson ascii_subset order_trans)
    then show ?thesis using equal_fold_ascii_lower assms by (simp add: TrimLower_def)
  qed
  then show ?thesis
    using assms(3) by (auto simp: acceptEncodingContainsToken_def header_tokens_def TrimLower_def)
qed

lemma default_support: "newLooseEncodingSupport (Some DefaultNames) = defaultEncodingSupport"
proof -
  have "NilIfEmpty (NormalizeStringList (Some DefaultNames) TrimLower PreserveOrder) = Some DefaultNames" by code_simp
  then show ?thesis by (simp add: newLooseEncodingSupport_def defaultEncodingSupport_def)
qed

lemma parse_default:
  "ParseAcceptEncodingNormalized h (Some DefaultNames) = parseAcceptEncodingWithSupport h defaultEncodingSupport"
  by (simp add: ParseAcceptEncodingNormalized_def default_support parseAcceptEncodingWithSupport_def)

lemma default_names: "DefaultNames = [''br'', ''zstd'', ''gzip'']"
  by code_simp

lemma default_names_plain: "e \<in> set DefaultNames \<Longrightarrow> ascii e \<and> e \<noteq> [] \<and> to_lower e = e \<and> e \<noteq> ''*''"
proof -
  have "list_all (\<lambda>e. list_all (\<lambda>c. of_char c < (128 :: nat)) e \<and> e \<noteq> [] \<and> to_lower e = e \<and> e \<noteq> ''*'') DefaultNames"
    by code_simp
  then show "e \<in> set DefaultNames \<Longrightarrow> ascii e \<and> e \<noteq> [] \<and> to_lower e = e \<and> e \<noteq> ''*''"
    by (simp add: list_all_iff ascii_def)
qed

lemma simple_parse:
  assumes "simple_header h" "ascii h"
  shows "ParseAcceptEncodingNormalized h (Some DefaultNames) =
    (let es = filter (acceptEncodingContainsToken h) DefaultNames in if es = [] then None else Some es)"
proof -
  have s: "support_complete defaultEncodingSupport DefaultNames"
    using newEncodingSupport_complete [of "Some DefaultNames"]
    by (simp add: defaultEncodingSupport_def default_names)
  have d: "distinct DefaultNames" by (simp add: default_names)
  have blank: "\<not> IsBlank h" using assms(1) by (simp add: simple_header_def IsBlank_def)
  have parse: "ParseAcceptEncodingNormalized h (Some DefaultNames) =
      buildEncodingCandidates (collectEncodingPreferences h defaultEncodingSupport) defaultEncodingSupport"
    using s blank by (simp add: parse_default parseAcceptEncodingWithSupport_def support_complete_def Let_def)
  note rk = buildEncodingCandidates_ranked [OF s d nan_free_simple [OF assms(1)], folded parse]
  have q: "entry_quality (ForEachAcceptEntry h) e =
      (if acceptEncodingContainsToken h e then Some f64_one else None)" if "e \<in> set DefaultNames" for e
    using that default_names_plain [OF that] simple_quality [OF assms(1), of e] contains_token [OF assms(2), of e] by simp
  have pos: "positive (entry_quality (ForEachAcceptEntry h) e) \<longleftrightarrow> acceptEncodingContainsToken h e"
    if "e \<in> set DefaultNames" for e
    using q [OF that] by (simp add: positive_def)
  show ?thesis
  proof (cases "ParseAcceptEncodingNormalized h (Some DefaultNames)")
    case None
    then have "\<forall>e\<in>set DefaultNames. \<not> acceptEncodingContainsToken h e"
      using rk pos by (simp add: ranked_def)
    then show ?thesis using None by (simp add: filter_empty_conv)
  next
    case (Some es)
    then have es: "es \<noteq> []" "set es = {e \<in> set DefaultNames. acceptEncodingContainsToken h e}"
      and srt: "sorted_wrt (\<lambda>a b. f64_lt (the (entry_quality (ForEachAcceptEntry h) b)) (the (entry_quality (ForEachAcceptEntry h) a)) \<or>
             (entry_quality (ForEachAcceptEntry h) a = entry_quality (ForEachAcceptEntry h) b \<and>
              position DefaultNames a < position DefaultNames b)) es"
      using rk pos by (auto simp: ranked_def)
    have "sorted_wrt (\<lambda>a b. position DefaultNames a < position DefaultNames b) es"
      by (rule sorted_wrt_mono_rel [OF _ srt]) (use es q in auto)
    then have "es = filter (\<lambda>v. v \<in> set es) DefaultNames" using sorted_position_unique [OF d, of es] es by blast
    also have "\<dots> = filter (acceptEncodingContainsToken h) DefaultNames" by (rule filter_cong) (auto simp: es)
    finally show ?thesis using Some es(1) by (simp add: Let_def)
  qed
qed

lemma first_some_filter: "first_some (\<lambda>x. if P x then f x else None) xs = first_some f (filter P xs)"
  by (induction xs) (auto split: option.splits)

text \<open>Whatever the shape of the header, the encoding selected is the first of the parsed list that the
  route has.\<close>

lemma selectEncoding_parsed:
  assumes "ascii (rq_AcceptEncoding (pq_Request rq))"
  shows "selectEncodingResponse rt rq =
    (if rq_RangeRequested (pq_Request rq) then None
     else first_some (pt_encodings rt)
            (case ParseAcceptEncodingNormalized (rq_AcceptEncoding (pq_Request rq)) (Some DefaultNames) of
               None \<Rightarrow> [] | Some es \<Rightarrow> es))"
proof -
  define h where "h = rq_AcceptEncoding (pq_Request rq)"
  have none: "first_some (Map.empty :: string \<rightharpoonup> preparedResponse) es = None" for es
    by (induction es) auto
  have simple: "selectSimpleEncodingResponse rt h =
      (if simple_header h then first_some (pt_encodings rt) (filter (acceptEncodingContainsToken h) DefaultNames) else None)"
    by (simp add: selectSimpleEncodingResponse_def simple_header_def first_some_filter)
  show ?thesis
  proof (cases "simple_header h")
    case True
    then show ?thesis
      using simple_parse [OF True] assms simple none
      by (simp add: selectEncodingResponse_def Let_def flip: h_def split: option.splits)
  next
    case False
    then show ?thesis
      using simple none by (simp add: selectEncodingResponse_def Let_def flip: h_def split: option.splits)
  qed
qed

section \<open>The prepared selection and the resolver\<close>

text \<open>\<open>plain_image\<close> is the specification of the resolver on the variants the pipeline makes.\<close>

lemma matches_pipeline:
  assumes "pipeline_variant v" "imageFormatKey v = f" "f \<noteq> []"
  shows "plain_matches (selection_for a w f) v \<longleftrightarrow> isUsableVariant v (a_SourceHash a)"
proof -
  have v: "v_Encoding v = []" "v_Format v = f" using pipeline_image assms by blast+
  then have "trim_space (v_Format v) = v_Format v" using assms(1) supported_format by (simp add: pipeline_variant_def)
  then show ?thesis
    using v assms(3) by (simp add: plain_matches_def selection_for_def variantFormat_def IsBlank_def)
qed

lemma plain_image_best_width:
  assumes "\<forall>v\<in>V. pipeline_variant v"
  shows "plain_image (usable_in a V) f w picked \<longleftrightarrow> best_width (selection_for a w f) (candidates V f w) picked"
proof -
  have m: "v \<in> V \<Longrightarrow> imageFormatKey v = f \<Longrightarrow> f \<noteq> [] \<Longrightarrow>
      plain_matches (selection_for a w f) v \<longleftrightarrow> isUsableVariant v (a_SourceHash a)" for v
    using matches_pipeline assms by blast
  have w: "sel_width (selection_for a w f) = w" by (simp add: selection_for_def)
  show ?thesis
  proof (cases picked)
    case None
    then show ?thesis using m by (auto simp: plain_image_def best_width_def candidates_def usable_in_def)
  next
    case (Some b)
    show ?thesis
    proof (cases "w \<le> 0")
      case True
      then show ?thesis
        using m Some by (auto simp: plain_image_def best_width_def candidates_def usable_in_def w)
    next
      case False
      then show ?thesis
        using m Some by (auto simp: plain_image_def best_width_def candidates_def usable_in_def w)
    qed
  qed
qed

lemma plain_image_unique:
  assumes "slots_unique V" "U \<subseteq> V" "plain_image U f w p" "plain_image U f w q"
  shows "p = q"
proof -
  have same: "v = u" if "v \<in> U" "u \<in> U" "imageFormatKey v = f" "imageFormatKey u = f" "f \<noteq> []" "v_Width u = v_Width v" for v u
    using assms(1,2) that unfolding slots_unique_def by (metis subsetD)
  show ?thesis
  proof (cases p)
    case None
    then show ?thesis using assms(3,4) by (cases q) (auto simp: plain_image_def split: if_splits)
  next
    case p: (Some v)
    show ?thesis
    proof (cases q)
      case None
      then show ?thesis using p assms(3,4) by (auto simp: plain_image_def split: if_splits)
    next
      case q: (Some u)
      have vu: "v \<in> U" "u \<in> U" "imageFormatKey v = f" "imageFormatKey u = f" "f \<noteq> []"
        using assms(3,4) p q by (auto simp: plain_image_def)
      have "v_Width u = v_Width v"
      proof (cases "w \<le> 0")
        case True
        have "v_Width y = 0" if "plain_image U f w (Some y)" for y
          using that True unfolding plain_image_def option.case by simp
        then show ?thesis using assms(3) [unfolded p] assms(4) [unfolded q] by simp
      next
        case False
        have best: "imageFormatKey x = f \<Longrightarrow> if v_Width x \<ge> w then v_Width y \<ge> w \<and> v_Width y \<le> v_Width x
            else v_Width y \<ge> w \<or> v_Width y \<ge> v_Width x" if "plain_image U f w (Some y)" "x \<in> U" for x y
          using that unfolding plain_image_def option.case if_not_P [OF False] by blast
        show ?thesis
          using best [OF assms(3) [unfolded p] vu(2,4)] best [OF assms(4) [unfolded q] vu(1,3)]
          by (cases "w \<le> v_Width v"; cases "w \<le> v_Width u") simp_all
      qed
      then show ?thesis using same [OF vu] p q by simp
    qed
  qed
qed

definition first_plain :: "Variant set \<Rightarrow> int \<Rightarrow> string list \<Rightarrow> Variant option \<Rightarrow> bool" where
  "first_plain U w fs picked =
     (case picked of
        None \<Rightarrow> (\<forall>f\<in>set fs. plain_image U f w None)
      | Some v \<Rightarrow> (\<exists>as f bs. fs = as @ f # bs \<and> (\<forall>g\<in>set as. plain_image U g w None) \<and> plain_image U f w (Some v)))"

lemma first_format_plain:
  assumes "\<forall>v\<in>V. pipeline_variant v"
  shows "first_format V a w fs picked \<longleftrightarrow> first_plain (usable_in a V) w fs picked"
  by (simp add: first_format_def first_plain_def plain_image_best_width [OF assms] split: option.splits)

lemma first_plain_Cons:
  assumes "slots_unique V" "U \<subseteq> V"
  shows "first_plain U w (f # fs) picked \<longleftrightarrow>
    (if plain_image U f w None then first_plain U w fs picked else picked \<noteq> None \<and> plain_image U f w picked)"
proof (cases picked)
  case None
  then show ?thesis by (simp add: first_plain_def)
next
  case (Some v)
  show ?thesis
  proof (cases "plain_image U f w None")
    case True
    then have no: "\<not> plain_image U f w (Some v)" using plain_image_unique [OF assms] by blast
    have "(\<exists>as g bs. f # fs = as @ g # bs \<and> (\<forall>h\<in>set as. plain_image U h w None) \<and> plain_image U g w (Some v)) \<longleftrightarrow>
        (\<exists>as g bs. fs = as @ g # bs \<and> (\<forall>h\<in>set as. plain_image U h w None) \<and> plain_image U g w (Some v))"
      (is "?l \<longleftrightarrow> ?r")
    proof
      assume ?l
      then obtain as g bs where *: "f # fs = as @ g # bs" "\<forall>h\<in>set as. plain_image U h w None" "plain_image U g w (Some v)"
        by blast
      with no obtain as' where "as = f # as'" by (cases as) auto
      with * show ?r by auto
    next
      assume ?r
      then obtain as g bs where *: "fs = as @ g # bs" "\<forall>h\<in>set as. plain_image U h w None" "plain_image U g w (Some v)"
        by blast
      then have "f # fs = (f # as) @ g # bs" "\<forall>h\<in>set (f # as). plain_image U h w None" using True by simp_all
      with *(3) show ?l by blast
    qed
    then show ?thesis using True Some by (simp add: first_plain_def)
  next
    case False
    have "(\<exists>as g bs. f # fs = as @ g # bs \<and> (\<forall>h\<in>set as. plain_image U h w None) \<and> plain_image U g w (Some v)) \<longleftrightarrow>
        plain_image U f w (Some v)" (is "?l \<longleftrightarrow> ?r")
    proof
      assume ?l
      then obtain as g bs where *: "f # fs = as @ g # bs" "\<forall>h\<in>set as. plain_image U h w None" "plain_image U g w (Some v)"
        by blast
      with False have "as = []" by (cases as) auto
      with * show ?r by simp
    next
      assume ?r
      then show ?l by (intro exI [of _ "[]"] exI [of _ f] exI [of _ fs]) simp
    qed
    then show ?thesis using False Some by (simp add: first_plain_def)
  qed
qed

lemma first_plain_unique:
  assumes "slots_unique V" "U \<subseteq> V"
  shows "first_plain U w fs p \<Longrightarrow> first_plain U w fs q \<Longrightarrow> p = q"
proof (induction fs)
  case Nil
  then show ?case by (cases p; cases q) (auto simp: first_plain_def)
next
  case (Cons f fs)
  then show ?case
    using plain_image_unique [OF assms] by (auto simp: first_plain_Cons [OF assms] split: if_splits)
qed

lemma first_image_plain:
  fixes p :: string and i :: preparedResponse
  assumes rs: "pr_result ` set rs = variant_result a ` U" and pl: "\<forall>v\<in>U. pipeline_variant v" and u: "slots_unique U"
  defines "rt \<equiv> finalize (foldl addVariant (newPreparedRoute p i) rs)"
  shows "\<exists>picked. map_option pr_result (first_some (\<lambda>f. pickImageFormat rt f w) fs) = map_option (variant_result a) picked \<and>
    first_plain U w fs picked"
proof (induction fs)
  case Nil
  then show ?case by (intro exI [of _ None]) (simp add: first_plain_def)
next
  case (Cons f fs)
  note step = first_plain_Cons [OF u order_refl, of w f fs]
  obtain q where q: "map_option pr_result (pickImageFormat rt f w) = map_option (variant_result a) q" "plain_image U f w q"
    using pickImageFormat_plain [OF rs pl, of p i f w] unfolding rt_def by blast
  show ?case
  proof (cases q)
    case None
    then have none: "plain_image U f w None" using q(2) by simp
    have "pickImageFormat rt f w = None" using q(1) None by simp
    then show ?thesis using Cons.IH step none by simp
  next
    case (Some v)
    then have "\<not> plain_image U f w None" using q(2) plain_image_unique [OF u order_refl] by blast
    then show ?thesis using q Some step by (intro exI [of _ "Some v"]) (auto split: option.splits)
  qed
qed

text \<open>The encodings.\<close>

definition first_coded :: "Variant set \<Rightarrow> string list \<Rightarrow> Variant option" where
  "first_coded U es = first_some (\<lambda>e. if e \<noteq> [] \<and> (\<exists>v\<in>U. v_Encoding v = e) then Some (THE v. v \<in> U \<and> v_Encoding v = e) else None) es"

lemma coded_unique:
  assumes "slots_unique U" "v \<in> U" "v_Encoding v = e" "e \<noteq> []"
  shows "(THE v. v \<in> U \<and> v_Encoding v = e) = v"
  using assms by (intro the_equality) (auto simp: slots_unique_def)

lemma first_encoding_coded:
  assumes u: "slots_unique (usable_in a V)"
  shows "[] \<notin> set es \<Longrightarrow> first_encoding V a es picked \<Longrightarrow> picked = first_coded (usable_in a V) es"
proof (induction es)
  case Nil
  then show ?case by (cases picked) (auto simp: first_encoding_def first_coded_def)
next
  case (Cons e es)
  show ?case
  proof (cases "\<exists>v\<in>usable_in a V. v_Encoding v = e")
    case True
    then obtain v where v: "v \<in> usable_in a V" "v_Encoding v = e" "e \<noteq> []" using Cons.prems(1) by auto
    then have vV: "v \<in> V" "isUsableVariant v (a_SourceHash a)" by (simp_all add: usable_in_def)
    then obtain b where b: "picked = Some b" using Cons.prems(2) v by (cases picked) (auto simp: first_encoding_def)
    then obtain as bs where ab: "b \<in> usable_in a V" "e # es = as @ v_Encoding b # bs"
        "\<forall>e\<in>set as. \<forall>u\<in>V. e \<noteq> [] \<longrightarrow> v_Encoding u = e \<longrightarrow> \<not> isUsableVariant u (a_SourceHash a)"
      using Cons.prems(2) by (auto simp: first_encoding_def usable_in_def)
    have "as = []" using ab(2,3) v vV by (cases as) auto
    then have "v_Encoding b = e" using ab(2) by simp
    then show ?thesis using coded_unique [OF u ab(1)] v b True by (auto simp: first_coded_def)
  next
    case False
    have "first_encoding V a es picked"
    proof (cases picked)
      case None
      then show ?thesis using Cons.prems(2) by (simp add: first_encoding_def)
    next
      case (Some b)
      then obtain as bs where ab: "b \<in> V" "isUsableVariant b (a_SourceHash a)" "e # es = as @ v_Encoding b # bs"
          "\<forall>e\<in>set as. \<forall>u\<in>V. e \<noteq> [] \<longrightarrow> v_Encoding u = e \<longrightarrow> \<not> isUsableVariant u (a_SourceHash a)"
        using Cons.prems(2) by (auto simp: first_encoding_def)
      then obtain as' where "as = e # as'" using False by (cases as) (auto simp: usable_in_def)
      with ab have "es = as' @ v_Encoding b # bs"
        "\<forall>e\<in>set as'. \<forall>u\<in>V. e \<noteq> [] \<longrightarrow> v_Encoding u = e \<longrightarrow> \<not> isUsableVariant u (a_SourceHash a)" by auto
      then show ?thesis using ab(1,2) Some unfolding first_encoding_def by auto
    qed
    then show ?thesis using Cons False by (simp add: first_coded_def)
  qed
qed

lemma route_encodings:
  fixes p :: string and i :: preparedResponse
  assumes rs: "pr_result ` set rs = variant_result a ` U" and pl: "\<forall>v\<in>U. pipeline_variant v" and u: "slots_unique U"
  defines "rt \<equiv> finalize (foldl addVariant (newPreparedRoute p i) rs)"
  shows "[] \<notin> set es \<Longrightarrow>
    map_option pr_result (first_some (pt_encodings rt) es) = map_option (variant_result a) (first_coded U es)"
proof (induction es)
  case Nil
  then show ?case by (simp add: first_coded_def)
next
  case (Cons e es)
  have enc: "pt_encodings rt e = last_opt (filter (\<lambda>r. is_encoded r e) rs)"
    using addVariants_fields [of p i rs] by (simp add: rt_def finalize_def)
  show ?case
  proof (cases "pt_encodings rt e")
    case None
    have "\<not> (\<exists>v\<in>U. v_Encoding v = e)"
    proof
      assume "\<exists>v\<in>U. v_Encoding v = e"
      then obtain v where v: "v \<in> U" "v_Encoding v = e" by blast
      obtain r where r: "r \<in> set rs" "pr_result r = variant_result a v" using in_responses(2) [OF rs v(1)] by blast
      have "is_encoded r e" using variant_response(3) [OF r(2)] pl v Cons.prems by auto
      then show False using None r(1) by (simp add: enc filter_empty_conv)
    qed
    then show ?thesis using None Cons by (simp add: first_coded_def)
  next
    case (Some r)
    then have r: "r \<in> set rs" "is_encoded r e" using enc last_opt_set by fastforce+
    obtain v where v: "v \<in> U" "pr_result r = variant_result a v" using in_responses(1) [OF rs r(1)] by blast
    have "v_Encoding v = e" "e \<noteq> []" using variant_response(3) [OF v(2)] pl v(1) r(2) by auto
    then show ?thesis using coded_unique [OF u v(1)] v Some by (auto simp: first_coded_def)
  qed
qed

lemma stored_slots_unique: "slots_unique (stored_variants (run_catalog stat ops) p)"
proof -
  let ?c = "run_catalog stat ops"
  have ok: "catalog_ok ?c" and idx: "index_ok (variants ?c)" using run_catalog_ok run_index(1) by blast+
  have rec: "record_ok r" if "r \<in> recs (variants ?c)" for r using ok that by (auto simp: catalog_ok_def)
  have same: "r_Variant r = r_Variant q"
    if "r \<in> recs (variants ?c)" "q \<in> recs (variants ?c)" "conflicts r q" for r q
    using index_conflict_free [OF idx that] by simp
  have "v = u" if vu: "v \<in> stored_variants ?c p" "u \<in> stored_variants ?c p"
    and c: "v_Encoding v \<noteq> [] \<and> v_Encoding u = v_Encoding v \<or>
        imageFormatKey v \<noteq> [] \<and> imageFormatKey u = imageFormatKey v \<and> v_Width u = v_Width v" for v u
  proof -
    obtain r q where r: "r \<in> recs (variants ?c)" "r_AssetPath r = p" "v = r_Variant r"
      and q: "q \<in> recs (variants ?c)" "r_AssetPath q = p" "u = r_Variant q"
      using vu by (auto simp: stored_variants_def)
    have "conflicts r q"
      using c rec [OF r(1)] rec [OF q(1)] r(2,3) q(2,3)
      by (auto simp: conflicts_def record_ok_def Let_def image_key_def variantImageFormatKey_def)
    then show ?thesis using same r q by simp
  qed
  then show ?thesis unfolding slots_unique_def by metis
qed

lemma slots_subset: "slots_unique V \<Longrightarrow> U \<subseteq> V \<Longrightarrow> slots_unique U"
  unfolding slots_unique_def by blast

lemma selectImage_formats:
  fixes rt :: preparedRoute
  assumes "pq_RequestedFormat rq = rq_Format (pq_Request rq)"
  defines "formats \<equiv> PreferredImageFormats (rq_Accept (pq_Request rq)) (pq_RequestedFormat rq)
                        (a_MediaType (rs_Asset (pr_result (pt_identity rt))))"
  shows "selectImageResponse rt rq =
    (if rq_Width (pq_Request rq) > 0 \<or> list_len formats > 0
     then first_some (\<lambda>f. pickImageFormat rt f (rq_Width (pq_Request rq)))
            (if list_len formats = 0 then [ImageFormat (a_MediaType (rs_Asset (pr_result (pt_identity rt))))] else the formats)
     else None)"
proof (cases "pt_images rt = Map.empty")
  case True
  have "first_some (\<lambda>f. pickImageFormat rt f w) fs = None" for w fs
    by (induction fs) (simp_all add: pickImageFormat_def True)
  then show ?thesis by (simp add: selectImageResponse_def True)
next
  case False
  show ?thesis
  proof (cases "pq_RequestedFormat rq = []")
    case True
    then show ?thesis using False by (auto simp: selectImageResponse_def Let_def formats_def)
  next
    case fmt: False
    then have "formats = Some [pq_RequestedFormat rq]" by (simp add: formats_def PreferredImageFormats_def)
    then show ?thesis using False fmt by (simp add: selectImageResponse_def list_len_def split: option.splits)
  qed
qed

text \<open>What a response serves: its variant, its file and its content coding.\<close>

definition served_by :: "Result \<Rightarrow> Variant option \<times> string \<times> string" where
  "served_by res = (rs_Variant res, rs_FilePath res, rs_ContentEncoding res)"

lemma served_variant [simp]: "served_by (variant_result a v) = (Some v, v_ArtifactPath v, v_Encoding v)"
  by (simp add: served_by_def variant_result_def asset_result_def Let_def)

lemma served_record [simp]:
  "served_by \<lparr>rs_Asset = a, rs_Variant = v, rs_FilePath = p, rs_MediaType = m, rs_ContentEncoding = e, rs_ETag = t,
     rs_PreferredEncodings = x, rs_PreferredWidths = y, rs_PreferredFormats = z, rs_FallbackUsed = b\<rparr> = (v, p, e)"
  by (simp add: served_by_def)

lemma resolver_on_catalog [simp]: "rv_catalog (resolver_on cfg support c) = reader_of c"
  by (simp add: resolver_on_def)

lemma resolver_encodings:
  assumes "rq_PreferredEncodings request = None"
    and "parseAcceptEncodingWithSupport (rq_AcceptEncoding request) defaultEncodingSupport = es"
    and "pickVariant (reader_of c) a (case es of None \<Rightarrow> [] | Some es \<Rightarrow> es) = Inr pk"
  shows "\<exists>res rq'. resolve_encodings (resolver_on cfg defaultEncodingSupport c) a fb request = Inr (res, rq') \<and>
    map_option served_by res =
      map_option (\<lambda>v. served_by (variant_result a v)) (if rq_RangeRequested request then None else pk)"
proof -
  have req: "requested_encodings (resolver_on cfg defaultEncodingSupport c) request = es"
    by (simp add: requested_encodings_def assms(1,2) resolver_on_def)
  show ?thesis
  proof (cases "rq_RangeRequested request \<or> list_len es = 0")
    case True
    then have "rq_RangeRequested request \<or> pk = None"
      using assms(3) by (auto simp: list_len_def split: option.splits)
    then show ?thesis using True by (auto simp: resolve_encodings_def req Let_def)
  next
    case False
    then show ?thesis
      using assms(3)
      by (cases pk) (auto simp: resolve_encodings_def req Let_def resolveEncodingVariant_def)
  qed
qed

lemma default_encodings_ne: "es \<in> set_option (parseAcceptEncodingWithSupport h defaultEncodingSupport) \<Longrightarrow> [] \<notin> set es"
proof -
  assume es: "es \<in> set_option (parseAcceptEncodingWithSupport h defaultEncodingSupport)"
  have "set (map cand_encoding (encodingChoices p vs)) \<subseteq> set vs" for p vs
    by (auto simp: encodingChoices_iff)
  moreover have "esupp_values defaultEncodingSupport = Some DefaultNames"
    using newEncodingSupport_complete [of "Some DefaultNames"]
    by (simp add: defaultEncodingSupport_def default_names support_complete_def)
  ultimately have "set es \<subseteq> set DefaultNames"
    using es by (fastforce simp: parseAcceptEncodingWithSupport_def buildEncodingCandidates_def Let_def split: if_splits)
  then show "[] \<notin> set es" by (auto simp: default_names)
qed


text \<open>A route compiled from an asset and its variants has a response for the asset and one for each usable variant.\<close>

lemma compileRoute_responses:
  obtains i rs where "fst (compileRoute env b (a, vs)) = finalize (foldl addVariant (newPreparedRoute (a_Path a) i) rs)"
    "pt_identity (fst (compileRoute env b (a, vs))) = i" "pr_result i = asset_result a"
    "pr_result ` set rs = variant_result a ` usable_in a (set vs)"
proof -
  obtain i b1 where i: "compileAssetResponse env b a = (i, b1)" by fastforce
  obtain rs b2 where rs: "compileVariantResponses env b1 a vs = (rs, b2)" by fastforce
  have rt: "fst (compileRoute env b (a, vs)) = finalize (foldl addVariant (newPreparedRoute (a_Path a) i) rs)"
    by (simp add: compileRoute_def i rs)
  show ?thesis
  proof (rule that [OF rt])
    show "pt_identity (fst (compileRoute env b (a, vs))) = i"
      using addVariants_fields [of "a_Path a" i rs] by (simp add: rt finalize_def)
    show "pr_result i = asset_result a" using i compileResponse_result by (auto simp: compileAssetResponse_def)
    show "pr_result ` set rs = variant_result a ` usable_in a (set vs)"
      by (rule responses_variants [OF compileVariantResponses_results [OF rs]])
  qed
qed

text \<open>Both paths take the first acceptable coding of which there is a usable variant, and the asset itself without one.\<close>

lemma prepared_encoding_agrees:
  fixes stat :: "string \<Rightarrow> time option" and ops :: "catalog_op list" and a :: Asset
  defines "c \<equiv> run_catalog stat ops"
  defines "U \<equiv> usable_in a (stored_variants c (a_Path a))"
  assumes route: "rt = finalize (foldl addVariant (newPreparedRoute p i) rs)" "pt_identity rt = i" "pr_result i = asset_result a"
      "pr_result ` set rs = variant_result a ` U"
    and pipe: "\<forall>v\<in>U. pipeline_variant v"
    and req: "ascii (rq_AcceptEncoding request)" "rq_PreferredEncodings request = None"
  shows "\<exists>res rq'. resolve_encodings (resolver_on cfg defaultEncodingSupport c) a fallbackUsed request = Inr (res, rq') \<and>
    served_by (pr_result (case selectEncodingResponse rt (newPreparedRequest request format) of Some r \<Rightarrow> r | None \<Rightarrow> pt_identity rt)) =
      (case res of None \<Rightarrow> (None, a_FullPath a, []) | Some r \<Rightarrow> served_by r)"
proof -
  define rq where "rq = newPreparedRequest request format"
  define es where "es = parseAcceptEncodingWithSupport (rq_AcceptEncoding request) defaultEncodingSupport"
  define el where "el = (case es of None \<Rightarrow> [] | Some x \<Rightarrow> x)"
  have slots: "slots_unique U"
    unfolding U_def c_def by (rule slots_subset [OF stored_slots_unique]) (auto simp: usable_in_def)
  have enc: "selectEncodingResponse rt rq = (if rq_RangeRequested request then None else first_some (pt_encodings rt) el)"
    using selectEncoding_parsed [of rq rt] req(1)
    by (simp add: rq_def newPreparedRequest_def parse_default es_def el_def)
  obtain pk where pk: "pickVariant (reader_of c) a el = Inr pk" using pickVariant_total by blast
  have el: "[] \<notin> set el" using default_encodings_ne by (auto simp: el_def es_def split: option.splits)
  have coded: "pk = first_coded U el"
    using first_encoding_coded [OF slots [unfolded U_def] el] indexed.pickVariant_first [OF pk [unfolded c_def]]
    by (simp add: U_def c_def)
  have encs: "map_option pr_result (first_some (pt_encodings rt) el) = map_option (variant_result a) pk"
    unfolding coded route(1) by (rule route_encodings [OF route(4) pipe slots el])
  obtain res rq' where res: "resolve_encodings (resolver_on cfg defaultEncodingSupport c) a fallbackUsed request = Inr (res, rq')"
      "map_option served_by res = map_option (\<lambda>v. served_by (variant_result a v)) (if rq_RangeRequested request then None else pk)"
    using resolver_encodings [OF req(2) es_def [symmetric] pk [unfolded el_def]] by blast
  moreover have "served_by (pr_result (case selectEncodingResponse rt rq of Some r \<Rightarrow> r | None \<Rightarrow> pt_identity rt)) =
       (case res of None \<Rightarrow> (None, a_FullPath a, []) | Some r \<Rightarrow> served_by r)"
  proof (cases "if rq_RangeRequested request then None else pk")
    case None
    then have "selectEncodingResponse rt rq = None" using enc encs by (auto split: if_splits)
    moreover have "res = None" using res(2) None by simp
    ultimately show ?thesis by (simp add: route(2,3) served_by_def asset_result_def)
  next
    case (Some v)
    then obtain r where "selectEncodingResponse rt rq = Some r" "pr_result r = variant_result a v"
      using enc encs by (auto split: if_splits)
    moreover obtain x where "res = Some x" "served_by x = served_by (variant_result a v)" using res(2) Some by auto
    ultimately show ?thesis by simp
  qed
  ultimately show ?thesis unfolding rq_def by blast
qed

text \<open>Both paths take the image variant of the first format that has one, and an image variant has no content coding.\<close>

lemma prepared_image_agrees:
  fixes stat :: "string \<Rightarrow> time option" and ops :: "catalog_op list" and a :: Asset
  defines "c \<equiv> run_catalog stat ops"
  defines "V \<equiv> stored_variants c (a_Path a)"
  assumes route: "rt = finalize (foldl addVariant (newPreparedRoute (a_Path a) i) rs)" "pt_identity rt = i" "pr_result i = asset_result a"
      "pr_result ` set rs = variant_result a ` usable_in a V"
    and pipe: "\<forall>v\<in>V. pipeline_variant v"
    and named: "trim_space (a_Path a) \<noteq> []"
    and formats: "formats = PreferredImageFormats (rq_Accept request) (rq_Format request) (a_MediaType a)"
  shows "if rq_Width request > 0 \<or> list_len formats > 0
    then \<exists>picked. pickImageVariant (reader_of c) a (rq_Width request) formats = Inr picked \<and>
      map_option pr_result (selectImageResponse rt (newPreparedRequest request (rq_Format request))) =
        map_option (variant_result a) picked \<and> (\<forall>v. picked = Some v \<longrightarrow> v_Encoding v = [])
    else selectImageResponse rt (newPreparedRequest request (rq_Format request)) = None"
proof -
  define rq where "rq = newPreparedRequest request (rq_Format request)"
  define fs where "fs = (if list_len formats = 0 then [ImageFormat (a_MediaType a)] else the formats)"
  have img: "selectImageResponse rt rq =
      (if rq_Width request > 0 \<or> list_len formats > 0
       then first_some (\<lambda>f. pickImageFormat rt f (rq_Width request)) fs else None)"
    using selectImage_formats [of rq rt]
    by (simp add: rq_def newPreparedRequest_def route(2,3) asset_result_def formats fs_def)
  have slotsV: "slots_unique V" unfolding V_def c_def by (rule stored_slots_unique)
  then have slots: "slots_unique (usable_in a V)" by (rule slots_subset) (auto simp: usable_in_def)
  have pipeU: "\<forall>v\<in>usable_in a V. pipeline_variant v" using pipe by (auto simp: usable_in_def)
  obtain ipk where ipk: "pickImageVariant (reader_of c) a (rq_Width request) formats = Inr ipk"
    using pickImageVariant_total by blast
  have fs: "fs = (case formats of None \<Rightarrow> [ImageFormat (a_MediaType a)]
      | Some fs \<Rightarrow> if fs = [] then [ImageFormat (a_MediaType a)] else fs)"
    by (auto simp: fs_def list_len_def split: option.splits)
  have "first_format V a (rq_Width request) fs ipk"
    using indexed.pickImageVariant_first [OF named ipk [unfolded c_def]] by (simp add: fs V_def c_def)
  then have spec: "first_plain (usable_in a V) (rq_Width request) fs ipk" by (simp add: first_format_plain [OF pipe])
  obtain picked where "map_option pr_result (first_some (\<lambda>f. pickImageFormat rt f (rq_Width request)) fs) =
      map_option (variant_result a) picked" "first_plain (usable_in a V) (rq_Width request) fs picked"
    using first_image_plain [OF route(4) pipeU slots, of "a_Path a" i] unfolding route(1) by blast
  with first_plain_unique [OF slots order_refl spec]
  have prep: "map_option pr_result (first_some (\<lambda>f. pickImageFormat rt f (rq_Width request)) fs) = map_option (variant_result a) ipk"
    by simp
  have plain: "v_Encoding v = []" if some: "ipk = Some v" for v
  proof -
    obtain f where "imageFormatKey v = f" "f \<noteq> []" "v \<in> usable_in a V"
      using spec some by (auto simp: first_plain_def plain_image_def)
    then show ?thesis using pipeline_image pipeU by blast
  qed
  show ?thesis using img ipk prep plain by (simp flip: rq_def)
qed


lemma listed_stored: "set (fst (ListVariantsView (run_catalog stat ops) p)) = stored_variants (run_catalog stat ops) p"
  using listByAssetPath_listed [OF run_index(1), of stat ops p] 
  by (auto simp: ListVariantsView_def variantViewsFromRecords_def listed_def is_sorted_list_def split_beta stored_variants_def)

definition example_memory :: StaticMemoryPolicy where
  "example_memory = emptyMemoryPolicy\<lparr>mp_maxFileSize := 4096\<rparr>"

definition example_prepared_env :: prepared_env where
  "example_prepared_env =
     \<lparr> pe_policy = NewResponsePolicy None, pe_memory = example_memory,
       pe_uc = \<lparr> uc_letter = (\<lambda>_. False), uc_digit = (\<lambda>_. False), uc_upper = (\<lambda>_. False) \<rparr>,
       pe_stat = (\<lambda>_. None), pe_now = 0, pe_read = (\<lambda>p. if p = ''/srv/logo.png'' then Some ''body'' else None),
       pe_hints = (\<lambda>_. []), pe_trusted = (\<lambda>_. False) \<rparr>"

definition example_variants :: "Variant list" where
  "example_variants = fst (ListVariantsView (run_catalog (\<lambda>_. None) example_ops) ''logo.png'')"

definition example_image_request :: Request where
  "example_image_request = (example_request ''/logo.png'')\<lparr>rq_Accept := ''image/webp'', rq_Width := 500\<rparr>"


text \<open>C14: the bodies a snapshot keeps in memory stay within the configured maximum: the budget never wraps
  around or goes negative, what it has in use after a compilation is exactly the sum of the sizes of the
  bodies kept (an empty body counting as one), and that sum is at most the maximum cost.\<close>

theorem prepared_bodies_within_budget:
  assumes "env_fits env" "mc_MaxBytes (rc_MemoryCache cfg) \<le> max_int64"
    and "compileRoutes env (newPreparedBodyBudget (Some cfg)) entries = (routes, b)"
  shows "bb_used b = responses_cost (compiled_responses env (newPreparedBodyBudget (Some cfg)) entries) \<and>
    0 \<le> bb_used b \<and> bb_used b \<le> max 0 (MaxCost (rc_MemoryCache cfg))"
proof -
  have start: "bb_used (newPreparedBodyBudget (Some cfg)) = 0"
      "bb_max (newPreparedBodyBudget (Some cfg)) \<le> max 0 (MaxCost (rc_MemoryCache cfg))"
    by (simp_all add: newPreparedBodyBudget_def)
  from compileRoutes_charged [OF new_budget_ok [OF assms(2)] assms(1,3)] start
  show ?thesis by (auto simp: charged_def budget_ok_def)
qed

definition example_cache_config :: runtime_config where
  "example_cache_config =
     \<lparr> rc_MemoryCache = \<lparr> mc_Enable = True, mc_Warmup = False, mc_MaxEntries = 2, mc_MaxBytes = 6,
         mc_MaxFileSize = 4096, mc_TTL = ''5m'' \<rparr>,
       rc_Assets = example_config,
       rc_Compression = \<lparr> cc_Enable = False, cc_Mode = ''off'', cc_CacheDir = [], cc_MinSize = 0, cc_Workers = 1,
         cc_QueueSize = 1, cc_Encodings = [], cc_CleanupEvery = [], cc_MaxAge = [], cc_ImageMaxAge = [],
         cc_EncodingMaxAge = [], cc_MaxCacheBytes = 0, cc_EncodingMaxCacheBytes = 0, cc_ImageMaxCacheBytes = 0,
         cc_BrotliQuality = 5, cc_ZstdLevel = 3, cc_GzipLevel = 6 \<rparr>,
       rc_ImmutableCache = \<lparr> ic_Enable = False, ic_MaxAge = [] \<rparr> \<rparr>"

theorem prepared_bodies_within_budget_witness:
  "bb_used (snd (compileRoutes example_prepared_env (newPreparedBodyBudget (Some example_cache_config)) [(example_asset, [])])) =
     responses_cost (compiled_responses example_prepared_env (newPreparedBodyBudget (Some example_cache_config)) [(example_asset, [])]) \<and>
   0 \<le> bb_used (snd (compileRoutes example_prepared_env (newPreparedBodyBudget (Some example_cache_config)) [(example_asset, [])])) \<and>
   bb_used (snd (compileRoutes example_prepared_env (newPreparedBodyBudget (Some example_cache_config)) [(example_asset, [])]))
     \<le> max 0 (MaxCost (rc_MemoryCache example_cache_config))"
  by (rule prepared_bodies_within_budget [where routes = "fst (compileRoutes example_prepared_env
        (newPreparedBodyBudget (Some example_cache_config)) [(example_asset, [])])"])
    (simp_all add: env_fits_def example_prepared_env_def example_memory_def emptyMemoryPolicy_def max_int64_def
      example_cache_config_def)

text \<open>The alias of an entry page is not subject to the entry fallback rule.\<close>

definition dotted_asset :: Asset where
  "dotted_asset = example_asset\<lparr>a_Path := ''v1.2/index.html'', a_MediaType := ''text/html''\<rparr>"

definition dotted_catalog :: IndexedCatalog where
  "dotted_catalog = run_catalog (\<lambda>_. None) [OpUpsertAsset (Some dotted_asset)]"

lemma compileRoutes_paths: "map pt_path (fst (compileRoutes env b es)) = map (\<lambda>e. a_Path (fst e)) es"
proof (induction es arbitrary: b)
  case (Cons e es)
  obtain i b1 where i: "compileAssetResponse env b (fst e) = (i, b1)" by fastforce
  obtain rs b2 where rs: "compileVariantResponses env b1 (fst e) (snd e) = (rs, b2)" by fastforce
  obtain qs b3 where qs: "compileRoutes env b2 es = (qs, b3)" by fastforce
  show ?case
    using Cons.IH [of b2] i rs qs addVariants_fields [of "a_Path (fst e)" i rs]
    by (simp add: compileRoute_def finalize_def)
qed simp

lemma compile_single:
  "ps_routes (Compile env cfg [(a, vs)]) =
     add_route (cfg_Entry (rc_Assets cfg)) Map.empty (hd (fst (compileRoutes env (newPreparedBodyBudget (Some cfg)) [(a, vs)])))"
  by (simp add: Compile_def split: prod.splits)

text \<open>The two lookups disagree on a directory whose name has a dot: the prepared path serves
  \<open>v1.2/index.html\<close> for \<open>/v1.2\<close>, through the alias of the entry page, where the resolver answers that
  the path is not found, because a path with an extension does not fall back to an entry.\<close>

theorem prepared_alias_ignores_extension:
  "map_option (\<lambda>m. pt_path (fst m)) (findRoute (Compile env example_cache_config [(dotted_asset, vs)])
      (rc_Assets example_cache_config) (pq_CleanedPath (newPreparedRequest (example_request ''/v1.2'') []))) =
     Some ''v1.2/index.html'' \<and>
   Resolve (resolver_on (rc_Assets example_cache_config) defaultEncodingSupport dotted_catalog) True
     (example_request ''/v1.2'') = Inl ErrNotFound"
proof
  define rt where "rt = hd (fst (compileRoutes env (newPreparedBodyBudget (Some example_cache_config)) [(dotted_asset, vs)]))"
  have "map pt_path (fst (compileRoutes env (newPreparedBodyBudget (Some example_cache_config)) [(dotted_asset, vs)])) =
      [''v1.2/index.html'']"
    using compileRoutes_paths [of env _ "[(dotted_asset, vs)]"] by (simp add: dotted_asset_def)
  then have path: "pt_path rt = ''v1.2/index.html''" unfolding rt_def by (cases "fst (compileRoutes env (newPreparedBodyBudget (Some example_cache_config)) [(dotted_asset, vs)])") simp_all
  have entry: "cfg_Entry (rc_Assets example_cache_config) = ''index.html''" by code_simp
  have al: "preparedEntryAlias ''v1.2/index.html'' ''index.html'' = ''v1.2''" by code_simp
  have clean: "Value (pq_CleanedPath (newPreparedRequest (example_request ''/v1.2'') [])) = ''v1.2''" by code_simp
  show "map_option (\<lambda>m. pt_path (fst m)) (findRoute (Compile env example_cache_config [(dotted_asset, vs)])
      (rc_Assets example_cache_config) (pq_CleanedPath (newPreparedRequest (example_request ''/v1.2'') []))) =
     Some ''v1.2/index.html''"
  proof -
    have "ps_routes (Compile env example_cache_config [(dotted_asset, vs)]) ''v1.2'' = Some rt"
      unfolding compile_single entry rt_def [symmetric] add_route_def path al Let_def by simp
    then have "findPrimaryRoute (Compile env example_cache_config [(dotted_asset, vs)]) (rc_Assets example_cache_config)
        (pq_CleanedPath (newPreparedRequest (example_request ''/v1.2'') [])) = Some rt"
      unfolding findPrimaryRoute_def clean by simp
    then show ?thesis unfolding findRoute_def by (simp add: path)
  qed
  show "Resolve (resolver_on (rc_Assets example_cache_config) defaultEncodingSupport dotted_catalog) True
     (example_request ''/v1.2'') = Inl ErrNotFound"
  proof -
    have c: "Value (Clean (rq_Path (example_request ''/v1.2''))) = ''v1.2''"
        "\<not> AllowsEntryFallback (Clean (rq_Path (example_request ''/v1.2'')))" by code_simp+
    have "Option.is_none (FindAsset dotted_catalog ''v1.2'')" by code_simp
    then have "FindAsset dotted_catalog ''v1.2'' = None" by (simp add: Option.is_none_def)
    then show ?thesis
      using c by (simp add: Resolve_def findAsset_def findPrimaryAsset_def resolver_on_def findAssetForRead_eq Let_def)
  qed
qed

end
