(* ===== verification/AssetRoute.thy ===== *)
theory AssetRoute
  imports Prepared
begin

text \<open>
  The asset route of \<open>internal/server\<close>: one request from its parsing to the reply (\<open>asset_route.go\<close>,
  \<open>asset_delivery.go\<close>, \<open>prepared_delivery.go\<close>, \<open>stale_asset_recovery.go\<close>), with the errors, the retries
  when the artifact of a variant has disappeared, and the error statuses (\<open>handler.go\<close>).

  A request is a record of what the framework says about it.  Opening a file, reading a bundle and the
  in-memory cache are parameters (\<open>delivery_env\<close>); whether a failure means that the file does not exist is
  part of their answer.  \<open>Inl\<close> is an error; a reply carries whether a delivery was recorded, which is what
  the served event depends on.  The served event and the metrics are left out.
\<close>

section \<open>Requests\<close>

record http_request =
  ht_method :: http_method
  ht_path :: string
  ht_Accept :: string
  ht_AcceptEncoding :: string
  ht_Range :: string
  ht_query_w :: string
  ht_query_format :: string
  ht_fresh :: bool

definition parsePositiveInt :: "string \<Rightarrow> int" where
  "parsePositiveInt raw =
     (let trimmed = trim_space raw
      in if trimmed = [] then 0
         else (case parse_int64 trimmed of None \<Rightarrow> 0 | Some v \<Rightarrow> if v \<le> 0 then 0 else v))"

definition requestRangeRequested :: "http_request \<Rightarrow> bool" where
  "requestRangeRequested h \<longleftrightarrow> trim_space (ht_Range h) \<noteq> []"

definition buildResolverRequest :: "http_request \<Rightarrow> cleaned \<Rightarrow> string \<Rightarrow> Request" where
  "buildResolverRequest h cleanedPath requestedFormat =
     \<lparr> rq_Path = Value cleanedPath, rq_Accept = trim_space (ht_Accept h),
       rq_AcceptEncoding = trim_space (ht_AcceptEncoding h), rq_Width = parsePositiveInt (ht_query_w h),
       rq_Format = requestedFormat, rq_RangeRequested = requestRangeRequested h,
       rq_PreferredEncodings = None, rq_PreferredFormats = None \<rparr>"

section \<open>Files and errors\<close>

datatype file_error = FileMissing | FileFailed

datatype server_error = FiberError nat | MissingResolvedVariant string | WrappedError

record delivery_env =
  de_policy :: StaticResponsePolicy
  de_uc :: unicode_tables
  de_stat :: "string \<Rightarrow> time option"
  de_now :: time
  de_rng :: "string \<Rightarrow> int \<Rightarrow> framework_range"
  de_is_bundle :: "string \<Rightarrow> bool"
  de_bundle :: "string \<Rightarrow> file_error + bytes"
  de_files :: "(string \<Rightarrow> file_error + bytes) option"
  de_trusted :: "string \<Rightarrow> file_error + bytes"
  de_serve :: "MemoryRequest \<Rightarrow> bool"
  de_hot :: "Result \<Rightarrow> string \<Rightarrow> (resolvedHeaderPlan \<times> bytes) option"
  de_cached :: "string \<Rightarrow> file_error + bytes"
  de_hint :: "Result \<Rightarrow> string"

definition open_local :: "delivery_env \<Rightarrow> string \<Rightarrow> file_error + bytes" where
  "open_local env p = (case de_files env of None \<Rightarrow> Inl FileFailed | Some open_file \<Rightarrow> open_file p)"

definition readServerAssetFile :: "delivery_env \<Rightarrow> string \<Rightarrow> file_error + bytes" where
  "readServerAssetFile env p = (if de_is_bundle env p then de_bundle env p else open_local env p)"

definition newMissingResolvedVariantError :: "Result \<Rightarrow> file_error \<Rightarrow> server_error option" where
  "newMissingResolvedVariantError res e =
     (case rs_Variant res of
        None \<Rightarrow> None
      | Some v \<Rightarrow> if e = FileMissing then Some (MissingResolvedVariant (v_ArtifactPath v)) else None)"

definition file_open_error :: "Result \<Rightarrow> file_error \<Rightarrow> server_error" where
  "file_open_error res e =
     (case newMissingResolvedVariantError res e of Some m \<Rightarrow> m | None \<Rightarrow> FiberError 500)"

section \<open>The resolver path\<close>

text \<open>A reply: whether a delivery was recorded, and the response.\<close>

type_synonym reply = "server_error + bool \<times> http_response"

definition sent :: "http_response option \<Rightarrow> reply" where
  "sent r = (case r of None \<Rightarrow> Inl WrappedError | Some x \<Rightarrow> Inr (True, x))"

definition sendResolvedAssetFile ::
    "delivery_env \<Rightarrow> http_request \<Rightarrow> Request \<Rightarrow> Result \<Rightarrow> resolvedHeaderPlan \<Rightarrow> http_response \<Rightarrow> reply" where
  "sendResolvedAssetFile env h request res plan r =
     (case readServerAssetFile env (rs_FilePath res) of
        Inl e \<Rightarrow> Inl (file_open_error res e)
      | Inr body \<Rightarrow>
          sent (resolved_file_reply (de_rng env) (de_is_bundle env (rs_FilePath res)) request (ht_Range h)
                  (resolved_ApplySendFileOverrides plan) r body))"

definition shouldUseHotResponse :: "http_request \<Rightarrow> Request \<Rightarrow> Result \<Rightarrow> bool" where
  "shouldUseHotResponse h request res \<longleftrightarrow>
     trim_space (rs_FilePath res) \<noteq> [] \<and> ht_method h = MethodGet \<and> \<not> rq_RangeRequested request"

definition trySendHotResolvedAsset ::
    "delivery_env \<Rightarrow> http_request \<Rightarrow> Request \<Rightarrow> Result \<Rightarrow> string \<Rightarrow> http_response \<Rightarrow> reply option" where
  "trySendHotResolvedAsset env h request res requestedFormat r0 =
     (if \<not> shouldUseHotResponse h request res then None
      else (case de_hot env res requestedFormat of
              None \<Rightarrow> None
            | Some (plan, body) \<Rightarrow>
                (let r1 = r0\<lparr>hr_headers := resolved_ApplyForRange plan (hr_headers r0) False\<rparr>
                 in Some (case handleConditionalAssetRequest (ht_fresh h) (ht_method h = MethodHead) request r1 of
                            Some r \<Rightarrow> Inr (False, r)
                          | None \<Rightarrow> Inr (True, (applyResourceHints (ht_method h) request (de_hint env res) r1)\<lparr>hr_body := body\<rparr>)))))"

definition sendCachedResolvedAsset ::
    "delivery_env \<Rightarrow> http_request \<Rightarrow> Request \<Rightarrow> Result \<Rightarrow> resolvedHeaderPlan \<Rightarrow> http_response \<Rightarrow> reply" where
  "sendCachedResolvedAsset env h request res plan r =
     (case de_cached env (rs_FilePath res) of
        Inr body \<Rightarrow> Inr (True, r\<lparr>hr_body := body\<rparr>)
      | Inl e \<Rightarrow>
          (case newMissingResolvedVariantError res e of
             Some m \<Rightarrow> Inl m | None \<Rightarrow> sendResolvedAssetFile env h request res plan r))"

definition sendResolvedAsset ::
    "delivery_env \<Rightarrow> http_request \<Rightarrow> Request \<Rightarrow> Result \<Rightarrow> string \<Rightarrow> http_response \<Rightarrow> reply" where
  "sendResolvedAsset env h request res requestedFormat r0 =
     (let serve = de_serve env (buildMemoryCacheRequest res request)
      in case (if serve then trySendHotResolvedAsset env h request res requestedFormat r0 else None) of
           Some reply \<Rightarrow> reply
         | None \<Rightarrow>
             (let plan = newResolvedHeaderPlan (de_uc env) (de_stat env) (de_now env) (de_policy env) res requestedFormat;
                  r1 = r0\<lparr>hr_headers := resolved_ApplyForRange plan (hr_headers r0) (rq_RangeRequested request)\<rparr>
              in case handleConditionalAssetRequest (ht_fresh h) (ht_method h = MethodHead) request r1 of
                   Some r \<Rightarrow> Inr (False, r)
                 | None \<Rightarrow>
                     (let r2 = applyResourceHints (ht_method h) request (de_hint env res) r1
                      in if serve then sendCachedResolvedAsset env h request res plan r2
                         else sendResolvedAssetFile env h request res plan r2)))"

text \<open>The retries: the variant whose artifact has disappeared is dropped from the catalog and the request
  resolved again, \<open>maxVariantFallbackAttempts\<close> times at most.  The response keeps the headers an attempt
  has set.\<close>

definition maxVariantFallbackAttempts :: nat where "maxVariantFallbackAttempts = 3"

record route_env =
  rt_assets :: assets_config
  rt_support :: encodingSupport
  rt_delivery :: delivery_env
  rt_mount :: string
  rt_recovery :: bool
  rt_script :: "string \<Rightarrow> bytes"

definition failed_headers ::
    "delivery_env \<Rightarrow> http_request \<Rightarrow> Request \<Rightarrow> Result \<Rightarrow> string \<Rightarrow> http_response \<Rightarrow> http_response" where
  \<comment> \<open>the response after an attempt that found no artifact\<close>
  "failed_headers env h request res requestedFormat r0 =
     (let plan = newResolvedHeaderPlan (de_uc env) (de_stat env) (de_now env) (de_policy env) res requestedFormat
      in applyResourceHints (ht_method h) request (de_hint env res)
           (r0\<lparr>hr_headers := resolved_ApplyForRange plan (hr_headers r0) (rq_RangeRequested request)\<rparr>))"

fun retryResolvedAssetDelivery ::
    "nat \<Rightarrow> route_env \<Rightarrow> http_request \<Rightarrow> Request \<Rightarrow> string \<Rightarrow> IndexedCatalog \<Rightarrow> Result \<Rightarrow> http_response \<Rightarrow>
     reply \<times> IndexedCatalog" where
  "retryResolvedAssetDelivery 0 env h request requestedFormat c res r = (Inl (FiberError 500), c)"
| "retryResolvedAssetDelivery (Suc n) env h request requestedFormat c res r =
     (case ResolveAfterVariantArtifactMiss (rt_assets env) (rt_support env) c True request (rs_Variant res) of
        (Inl _, c') \<Rightarrow> (Inl (FiberError 404), c')
      | (Inr next, c') \<Rightarrow>
          (case sendResolvedAsset (rt_delivery env) h request next requestedFormat r of
             Inl (MissingResolvedVariant _) \<Rightarrow>
               retryResolvedAssetDelivery n env h request requestedFormat c' next
                 (failed_headers (rt_delivery env) h request next requestedFormat r)
           | reply \<Rightarrow> (reply, c')))"

definition sendResolvedAssetWithVariantFallback ::
    "route_env \<Rightarrow> http_request \<Rightarrow> Request \<Rightarrow> string \<Rightarrow> IndexedCatalog \<Rightarrow> Result \<Rightarrow> http_response \<Rightarrow>
     reply \<times> IndexedCatalog" where
  "sendResolvedAssetWithVariantFallback env h request requestedFormat c res r =
     (case sendResolvedAsset (rt_delivery env) h request res requestedFormat r of
        Inl (MissingResolvedVariant _) \<Rightarrow>
          retryResolvedAssetDelivery maxVariantFallbackAttempts env h request requestedFormat c res
            (failed_headers (rt_delivery env) h request res requestedFormat r)
      | reply \<Rightarrow> (reply, c))"


section \<open>The prepared path\<close>

record prepared_state =
  st_catalog :: IndexedCatalog
  st_snapshot :: preparedSnapshot

record prepared_route_env =
  pv_route :: route_env
  pv_compile :: prepared_env
  pv_config :: runtime_config
  pv_live :: bool

text \<open>\<open>Rebuild\<close> compiles a new snapshot of the catalog; it fails, keeping the old one, only when the
  context of the request is done (\<open>pv_live\<close>).\<close>

definition Rebuild :: "prepared_route_env \<Rightarrow> prepared_state \<Rightarrow> prepared_state" where
  "Rebuild env st =
     (if \<not> pv_live env then st
      else (case Snapshot (st_catalog st) of
              (entries, c') \<Rightarrow>
                st\<lparr>st_catalog := c', st_snapshot := Compile (pv_compile env) (pv_config env) entries\<rparr>))"

definition DeleteVariantArtifact :: "prepared_route_env \<Rightarrow> prepared_state \<Rightarrow> string \<Rightarrow> bool \<times> prepared_state" where
  "DeleteVariantArtifact env st artifactPath =
     (case DeleteVariantByArtifactPath (st_catalog st) artifactPath of
        (deleted, c') \<Rightarrow>
          (if \<not> deleted then (False, st\<lparr>st_catalog := c'\<rparr>)
           else (True, Rebuild env (st\<lparr>st_catalog := c'\<rparr>))))"

definition prepared_Resolve :: "prepared_route_env \<Rightarrow> prepared_state \<Rightarrow> preparedRequest \<Rightarrow> preparedSelection option" where
  "prepared_Resolve env st request = snapshot_resolve (st_snapshot st) (rt_assets (pv_route env)) request"

definition response_path :: "preparedResponse \<Rightarrow> string" where
  "response_path r = rs_FilePath (pr_result r)"

text \<open>The next response to try after the artifact of \<open>r\<close> was not found, if there is one.\<close>

definition next_after_miss ::
    "prepared_route_env \<Rightarrow> Request \<Rightarrow> preparedResponse \<Rightarrow> prepared_state \<Rightarrow> preparedSelection option \<times> prepared_state" where
  "next_after_miss env request r st =
     (if pr_variant r = None then (None, st)
      else (case DeleteVariantArtifact env st (response_path r) of
              (False, st') \<Rightarrow> (None, st')
            | (True, st') \<Rightarrow>
                (case prepared_Resolve env st' (newPreparedRequest request (rq_Format request)) of
                   None \<Rightarrow> (None, st')
                 | Some next \<Rightarrow>
                     (if response_path (sl_response next) = response_path r then (None, st') else (Some next, st')))))"

definition preparedManagedResponseHeaders :: "string list" where
  "preparedManagedResponseHeaders =
     [''Content-Type'', ''Content-Length'', ''Vary'', ''ETag'', ''Content-Encoding'', ''Last-Modified'',
      ''Cache-Control'', ''Expires'']"

definition delete_headers :: "string list \<Rightarrow> headers \<Rightarrow> headers" where
  "delete_headers ks h = (\<lambda>k. if k \<in> set ks then None else h k)"

text \<open>Reading the file of a prepared response: a failure is retried unless it comes from a missing file
  source, or from a trusted root for another reason than a missing file.\<close>

definition open_prepared ::
    "delivery_env \<Rightarrow> Request \<Rightarrow> preparedResponse \<Rightarrow> bool + bytes" where
  \<comment> \<open>\<open>Inl True\<close>: a failure that may be retried\<close>
  "open_prepared env request r =
     (if de_is_bundle env (response_path r) then
        (case de_bundle env (response_path r) of Inl _ \<Rightarrow> Inl True | Inr body \<Rightarrow> Inr body)
      else if \<not> rq_RangeRequested request \<and> pr_sendFile r then
        (case de_trusted env (response_path r) of Inl e \<Rightarrow> Inl (e = FileMissing) | Inr body \<Rightarrow> Inr body)
      else (case de_files env of
              None \<Rightarrow> Inl False
            | Some open_file \<Rightarrow> (case open_file (response_path r) of Inl _ \<Rightarrow> Inl True | Inr body \<Rightarrow> Inr body)))"

definition join_hints :: "string list \<Rightarrow> string" where
  "join_hints links = join_with '', '' links"

text \<open>What a retry sends is not recorded as a delivery: the outer call returns the empty label.\<close>

definition unrecorded :: "reply \<times> prepared_state \<Rightarrow> reply \<times> prepared_state" where
  "unrecorded x = (case x of (Inr (_, r), st) \<Rightarrow> (Inr (False, r), st) | (Inl e, st) \<Rightarrow> (Inl e, st))"

text \<open>\<open>None\<close> means that the fuel ran out, which \<open>sendPreparedAsset_terminates\<close> excludes.\<close>

fun sendPreparedAsset ::
    "nat \<Rightarrow> prepared_route_env \<Rightarrow> http_request \<Rightarrow> Request \<Rightarrow> preparedSelection \<Rightarrow> prepared_state \<Rightarrow> http_response \<Rightarrow>
     (reply \<times> prepared_state) option" where
  "sendPreparedAsset fuel env h request sel st r0 =
     (case fuel of
        0 \<Rightarrow> None
      | Suc n \<Rightarrow>
          (let r = sl_response sel; denv = rt_delivery (pv_route env);
               plan = (if sl_explicitFormat sel then pr_explicitHeaderPlan r else pr_headerPlan r);
               r1 = r0\<lparr>hr_headers := prepared_ApplyForRange plan (hr_headers r0) (rq_RangeRequested request)\<rparr>
           in case handleConditionalAssetRequest (ht_fresh h) (ht_method h = MethodHead) request r1 of
                Some x \<Rightarrow> Some (Inr (False, x), st)
              | None \<Rightarrow>
                  (let r2 = applyResourceHints (ht_method h) request (join_hints (pr_resourceHints r)) r1
                   in if pr_body r \<noteq> None \<and> \<not> rq_RangeRequested request
                      then Some (Inr (True, r2\<lparr>hr_body := the (pr_body r)\<rparr>), st)
                      else (case open_prepared denv request r of
                              Inr body \<Rightarrow>
                                Some (sent (prepared_file_reply (de_rng denv) (de_is_bundle denv (response_path r))
                                              (pr_sendFile r) request (ht_Range h) (prepared_ApplySendFileOverrides plan)
                                              r2 body), st)
                            | Inl retry \<Rightarrow>
                                (case (if retry then next_after_miss env request r st else (None, st)) of
                                   (None, st') \<Rightarrow> Some (Inl WrappedError, st')
                                 | (Some next, st') \<Rightarrow>
                                     map_option unrecorded (sendPreparedAsset n env h request next st'
                                       (r2\<lparr>hr_headers := delete_headers preparedManagedResponseHeaders (hr_headers r2)\<rparr>)))))))"

declare sendPreparedAsset.simps [simp del]

section \<open>The handler\<close>

definition tryStaleAssetRecovery :: "route_env \<Rightarrow> string \<Rightarrow> http_response \<Rightarrow> server_error + http_response" where
  "tryStaleAssetRecovery env assetPath r =
     (if \<not> rt_recovery env then Inl (FiberError 404)
      else if \<not> has_suffix assetPath ''.js'' then Inl (FiberError 404)
      else if \<not> IsFingerprintAssetPath (de_uc (rt_delivery env)) assetPath then Inl (FiberError 404)
      else Inr (r\<lparr>hr_headers := (hr_headers r)(''Content-Type'' \<mapsto> ''application/javascript'', ''Cache-Control'' \<mapsto> ''no-store''),
                 hr_body := rt_script env assetPath\<rparr>))"

definition handle_resolved ::
    "route_env \<Rightarrow> http_request \<Rightarrow> IndexedCatalog \<Rightarrow> http_response \<Rightarrow> (server_error + http_response) \<times> IndexedCatalog" where
  "handle_resolved env h c r =
     (let requestedFormat = NormalizeImageFormat (ht_query_format h);
          cleanedPath = CleanMounted (ht_path h) (rt_mount env);
          request = buildResolverRequest h cleanedPath requestedFormat
      in case Resolve \<lparr>rv_cfg = rt_assets env, rv_supportedEncodings = rt_support env, rv_catalog = reader_of c\<rparr>
                True request of
           Inl _ \<Rightarrow> (tryStaleAssetRecovery env (Value cleanedPath) r, c)
         | Inr res \<Rightarrow>
             (case sendResolvedAssetWithVariantFallback env h request requestedFormat c res r of
                (Inl e, c') \<Rightarrow> (Inl e, c') | (Inr (_, x), c') \<Rightarrow> (Inr x, c')))"

definition handle_prepared ::
    "nat \<Rightarrow> prepared_route_env \<Rightarrow> http_request \<Rightarrow> prepared_state \<Rightarrow> http_response \<Rightarrow>
     ((server_error + http_response) \<times> prepared_state) option" where
  "handle_prepared fuel env h st r =
     (let requestedFormat = NormalizeImageFormat (ht_query_format h);
          cleanedPath = CleanMounted (ht_path h) (rt_mount (pv_route env));
          request = buildResolverRequest h cleanedPath requestedFormat
      in case prepared_Resolve env st \<lparr>pq_Request = request, pq_RequestedFormat = requestedFormat,
                pq_CleanedPath = cleanedPath\<rparr> of
           None \<Rightarrow> Some (tryStaleAssetRecovery (pv_route env) (Value cleanedPath) r, st)
         | Some sel \<Rightarrow>
             map_option (\<lambda>(reply, st'). (case reply of Inl e \<Rightarrow> Inl e | Inr (_, x) \<Rightarrow> Inr x, st'))
               (sendPreparedAsset fuel env h request sel st r))"

text \<open>The error statuses the error handler lets through.\<close>

definition safeHTTPErrorStatus :: "server_error \<Rightarrow> nat" where
  "safeHTTPErrorStatus e =
     (case e of
        FiberError code \<Rightarrow> if code = 404 \<or> code = 400 \<or> code = 405 \<or> code = 416 \<or> code = 503 then code else 500
      | _ \<Rightarrow> 500)"

definition errorHandler :: "server_error \<Rightarrow> string \<Rightarrow> (nat \<Rightarrow> string) \<Rightarrow> http_response \<Rightarrow> http_response" where
  "errorHandler e requestID status_text r =
     (let code = safeHTTPErrorStatus e;
          body = (if code = 404 then ''Not found''
                  else if code = 500 then ''Internal Server Error'' @ CHR 0x0A # ''request_id='' @ requestID
                  else status_text code)
      in r\<lparr>hr_status := code, hr_headers := (hr_headers r)(''Content-Type'' \<mapsto> ''text/plain; charset=utf-8''),
           hr_body := body\<rparr>)"

section \<open>robots.txt\<close>

text \<open>The route of \<open>robots.go\<close> builds a delivery runtime of its own, without file sources.\<close>

definition robots_delivery :: "delivery_env \<Rightarrow> delivery_env" where
  "robots_delivery env = env\<lparr>de_files := None, de_hint := (\<lambda>_. [])\<rparr>"

definition staticRobotsAsset :: "bool \<Rightarrow> IndexedCatalog \<Rightarrow> Asset option" where
  "staticRobotsAsset override c = (if override then None else FindAsset c robotsAssetPath)"

definition robots_handler ::
    "delivery_env \<Rightarrow> bool \<Rightarrow> (unit \<Rightarrow> bytes) \<Rightarrow> http_request \<Rightarrow> IndexedCatalog \<Rightarrow> http_response \<Rightarrow> reply" where
  "robots_handler env override generated h c r =
     (case staticRobotsAsset override c of
        Some a \<Rightarrow>
          sendResolvedAsset (robots_delivery env) h (no_request\<lparr>rq_RangeRequested := requestRangeRequested h\<rparr>)
            (asset_result a) [] r
      | None \<Rightarrow>
          (let r1 = r\<lparr>hr_headers := (hr_headers r)(''Content-Type'' \<mapsto> ''text/plain; charset=utf-8''), hr_status := 200\<rparr>
           in if ht_method h = MethodHead then Inr (False, r1) else Inr (False, r1\<lparr>hr_body := generated ()\<rparr>)))"


section \<open>The prepared retries end\<close>

lemma VariantCount_card: "catalog_ok c \<Longrightarrow> VariantCount c = card (recs (variants c)) \<and> finite (recs (variants c))"
  using idx_count_card [of "variants c"] by (simp add: VariantCount_def catalog_ok_def recs_def)

lemma delete_artifact_smaller:
  assumes ok: "catalog_ok c" and del: "DeleteVariantByArtifactPath c p = (True, c')"
  shows "catalog_ok c' \<and> VariantCount c' < VariantCount c"
proof -
  note d = deleted_artifact [OF ok del]
  have "recs (variants c') \<subset> recs (variants c)" using d(2,4) by auto
  then have "card (recs (variants c')) < card (recs (variants c))"
    using VariantCount_card [OF ok] by (intro psubset_card_mono) auto
  then show ?thesis using d(1) VariantCount_card [OF ok] VariantCount_card [OF d(1)] by simp
qed

lemma snapshot_same:
  assumes ok: "catalog_ok c" and snap: "Snapshot c = (es, c')"
  shows "catalog_ok c' \<and> VariantCount c' = VariantCount c"
proof -
  have "c' = exec_op stat c OpSnapshot" for stat by (simp add: snap)
  then have "catalog_ok c'" "absc c' = absc c" using Snapshot_ok [OF ok] by metis+
  then show ?thesis using VariantCount_card [OF ok] VariantCount_card [of c'] by (simp add: absc_def)
qed

lemma next_after_miss_smaller:
  assumes ok: "catalog_ok (st_catalog st)" and "next_after_miss env request r st = (Some sel, st')"
  shows "catalog_ok (st_catalog st') \<and> VariantCount (st_catalog st') < VariantCount (st_catalog st)"
proof -
  obtain d st1 where d: "DeleteVariantArtifact env st (response_path r) = (d, st1)" by fastforce
  with assms(2) have st': "d" "st' = st1"
    by (auto simp: next_after_miss_def split: if_splits option.splits bool.splits)
  obtain d1 c1 where c1: "DeleteVariantByArtifactPath (st_catalog st) (response_path r) = (d1, c1)" by fastforce
  with d st' have "d1" "st' = Rebuild env (st\<lparr>st_catalog := c1\<rparr>)"
    by (auto simp: DeleteVariantArtifact_def split: if_splits)
  moreover have "catalog_ok c1 \<and> VariantCount c1 < VariantCount (st_catalog st)"
    using delete_artifact_smaller [OF ok] c1 \<open>d1\<close> by simp
  ultimately show ?thesis
    using snapshot_same [of c1] by (auto simp: Rebuild_def split: prod.splits if_splits)
qed

lemma sendPreparedAsset_enough:
  "catalog_ok (st_catalog st) \<Longrightarrow> VariantCount (st_catalog st) < fuel \<Longrightarrow>
     sendPreparedAsset fuel env h request sel st r0 \<noteq> None"
proof (induction fuel arbitrary: sel st r0)
  case (Suc n)
  let ?r = "sl_response sel" and ?denv = "rt_delivery (pv_route env)"
  let ?plan = "if sl_explicitFormat sel then pr_explicitHeaderPlan ?r else pr_headerPlan ?r"
  let ?r1 = "r0\<lparr>hr_headers := prepared_ApplyForRange ?plan (hr_headers r0) (rq_RangeRequested request)\<rparr>"
  note step = sendPreparedAsset.simps [of "Suc n" env h request sel st r0, unfolded Let_def nat.case]
  have rec: "sendPreparedAsset n env h request sel' st' r \<noteq> None"
    if "next_after_miss env request ?r st = (Some sel', st')" for sel' st' r
    using Suc.IH next_after_miss_smaller [OF Suc.prems(1) that] Suc.prems(2) by force
  show ?case
  proof (cases "handleConditionalAssetRequest (ht_fresh h) (ht_method h = MethodHead) request ?r1")
    case (Some x)
    then show ?thesis by (simp add: step)
  next
    case None
    note cond = this
    show ?thesis
    proof (cases "open_prepared ?denv request ?r")
      case (Inr body)
      then show ?thesis by (simp add: step cond)
    next
      case (Inl retry)
      show ?thesis
      proof (cases "if retry then next_after_miss env request ?r st else (None, st)")
        case (Pair found st')
        show ?thesis
        proof (cases found)
          case None
          then show ?thesis by (simp add: step cond Inl Pair)
        next
          case (Some sel')
          with Pair have "next_after_miss env request ?r st = (Some sel', st')" by (cases retry) auto
          from rec [OF this] show ?thesis by (simp add: step cond Inl Pair Some del: not_None_eq)
        qed
      qed
    qed
  qed
qed simp

text \<open>C15: serving a prepared response always ends: every retry has dropped a stored variant, so fuel one
  more than the number of stored variants is enough, whatever artifacts have disappeared.\<close>

theorem sendPreparedAsset_terminates:
  "\<exists>reply st'. sendPreparedAsset (Suc (VariantCount (run_catalog stat ops))) env h request sel
     \<lparr>st_catalog = run_catalog stat ops, st_snapshot = s\<rparr> r0 = Some (reply, st')"
  using sendPreparedAsset_enough [of "\<lparr>st_catalog = run_catalog stat ops, st_snapshot = s\<rparr>"] run_catalog_ok [of stat ops]
  by force

section \<open>The two paths answer alike\<close>

text \<open>The memory cache of the resolver path is coherent with the file: what it holds for a result is the
  content of the file, with the header plan of the result, and it is not asked for a range.\<close>

definition cache_coherent :: "delivery_env \<Rightarrow> Request \<Rightarrow> Result \<Rightarrow> string \<Rightarrow> bytes \<Rightarrow> bool" where
  "cache_coherent env request res requestedFormat content \<longleftrightarrow>
     (de_serve env (buildMemoryCacheRequest res request) \<longrightarrow>
        \<not> rq_RangeRequested request \<and> de_cached env (rs_FilePath res) = Inr content \<and>
        (case de_hot env res requestedFormat of None \<Rightarrow> True
         | Some (plan, body) \<Rightarrow>
             plan = newResolvedHeaderPlan (de_uc env) (de_stat env) (de_now env) (de_policy env) res requestedFormat \<and>
             body = content))"

definition attempted :: "http_request \<Rightarrow> Request \<Rightarrow> http_response \<Rightarrow> http_response option \<Rightarrow> reply" where
  "attempted h request r1 full =
     (case handleConditionalAssetRequest (ht_fresh h) (ht_method h = MethodHead) request r1 of
        Some r \<Rightarrow> Inr (False, r) | None \<Rightarrow> sent full)"

lemma sendResolvedAsset_reply:
  assumes "readServerAssetFile env (rs_FilePath res) = Inr content"
    and coherent: "cache_coherent env request res requestedFormat content"
  defines "plan \<equiv> newResolvedHeaderPlan (de_uc env) (de_stat env) (de_now env) (de_policy env) res requestedFormat"
    and "serve \<equiv> de_serve env (buildMemoryCacheRequest res request)"
  shows "sendResolvedAsset env h request res requestedFormat r0 =
    attempted h request (r0\<lparr>hr_headers := resolved_ApplyForRange plan (hr_headers r0) (rq_RangeRequested request)\<rparr>)
      (resolved_reply (de_rng env) (de_is_bundle env (rs_FilePath res)) (ht_method h) (ht_fresh h) (de_hint env res)
         request (ht_Range h) plan (if serve then Some content else None) content r0)"
proof (cases serve)
  case True
  with coherent have rg: "\<not> rq_RangeRequested request" and cached: "de_cached env (rs_FilePath res) = Inr content"
    and hot: "de_hot env res requestedFormat = None \<or> de_hot env res requestedFormat = Some (plan, content)"
    by (auto simp: cache_coherent_def serve_def plan_def split: option.splits)
  from hot show ?thesis
  proof
    assume none: "de_hot env res requestedFormat = None"
    then have "trySendHotResolvedAsset env h request res requestedFormat r0 = None"
      by (simp add: trySendHotResolvedAsset_def)
    with True cached show ?thesis
      by (simp add: sendResolvedAsset_def attempted_def resolved_reply_def sendCachedResolvedAsset_def sent_def
          Let_def flip: plan_def serve_def split: option.split)
  next
    assume "de_hot env res requestedFormat = Some (plan, content)"
    with True cached rg show ?thesis
      by (simp add: sendResolvedAsset_def attempted_def resolved_reply_def sendCachedResolvedAsset_def sent_def
          trySendHotResolvedAsset_def Let_def flip: plan_def serve_def split: option.split)
  qed
next
  case False
  with assms(1) show ?thesis
    by (simp add: sendResolvedAsset_def attempted_def resolved_reply_def sendResolvedAssetFile_def Let_def
        flip: plan_def serve_def split: option.split)
qed

lemma sendPreparedAsset_reply:
  assumes "open_prepared (rt_delivery (pv_route env)) request (sl_response sel) = Inr content"
  defines "r \<equiv> sl_response sel" and "D \<equiv> rt_delivery (pv_route env)"
  defines "plan \<equiv> (if sl_explicitFormat sel then pr_explicitHeaderPlan r else pr_headerPlan r)"
  shows "sendPreparedAsset (Suc n) env h request sel st r0 =
    Some (attempted h request (r0\<lparr>hr_headers := prepared_ApplyForRange plan (hr_headers r0) (rq_RangeRequested request)\<rparr>)
      (prepared_reply (de_rng D) (de_is_bundle D (response_path r)) (pr_sendFile r) (ht_method h) (ht_fresh h)
         (join_hints (pr_resourceHints r)) request (ht_Range h) plan (pr_body r) content r0), st)"
proof -
  define r1 where "r1 = r0\<lparr>hr_headers := prepared_ApplyForRange plan (hr_headers r0) (rq_RangeRequested request)\<rparr>"
  note step = sendPreparedAsset.simps [of "Suc n" env h request sel st r0, unfolded Let_def nat.case,
      folded r_def D_def, folded plan_def, folded r1_def]
  note reply = prepared_reply_def [unfolded Let_def, of _ _ _ _ _ _ request _ plan _ _ r0, folded r1_def]
  have opened: "open_prepared D request r = Inr content" using assms(1) by (simp add: r_def D_def)
  define full where "full = prepared_reply (de_rng D) (de_is_bundle D (response_path r)) (pr_sendFile r) (ht_method h)
    (ht_fresh h) (join_hints (pr_resourceHints r)) request (ht_Range h) plan (pr_body r) content r0"
  have "sendPreparedAsset (Suc n) env h request sel st r0 = Some (attempted h request r1 full, st)"
  proof (cases "handleConditionalAssetRequest (ht_fresh h) (ht_method h = MethodHead) request r1")
    case None
    have full: "full = (if pr_body r \<noteq> None \<and> \<not> rq_RangeRequested request
        then Some ((applyResourceHints (ht_method h) request (join_hints (pr_resourceHints r)) r1)
               \<lparr>hr_body := the (pr_body r)\<rparr>)
        else prepared_file_reply (de_rng D) (de_is_bundle D (response_path r)) (pr_sendFile r) request (ht_Range h)
               (prepared_ApplySendFileOverrides plan)
               (applyResourceHints (ht_method h) request (join_hints (pr_resourceHints r)) r1) content)"
      unfolding full_def reply None by (rule option.case(1))
    show ?thesis unfolding step None option.case attempted_def opened sum.case full
      by (simp add: sent_def)
  qed (simp add: step attempted_def)
  then show ?thesis unfolding r1_def full_def .
qed

lemma header_plan_format:
  "trim_space f = [] \<longleftrightarrow> trim_space g = [] \<Longrightarrow>
     newResolvedHeaderPlan uc stat now policy res f = newResolvedHeaderPlan uc stat now policy res g"
  by (simp add: newResolvedHeaderPlan_def resolvedVaryHeader_def shouldVaryAccept_def)



definition example_reader :: prepared_env where
  "example_reader = example_prepared_env\<lparr>pe_read := (\<lambda>_. None)\<rparr>"

definition example_delivery :: delivery_env where
  "example_delivery =
     \<lparr> de_policy = pe_policy example_reader, de_uc = pe_uc example_reader, de_stat = pe_stat example_reader,
       de_now = pe_now example_reader, de_rng = example_range, de_is_bundle = (\<lambda>_. False),
       de_bundle = (\<lambda>_. Inl FileMissing), de_files = Some (\<lambda>_. Inr ''help''),
       de_trusted = (\<lambda>_. Inl FileMissing), de_serve = (\<lambda>_. False), de_hot = (\<lambda>_ _. None),
       de_cached = (\<lambda>_. Inl FileFailed), de_hint = (\<lambda>_. []) \<rparr>"

definition example_route_env :: prepared_route_env where
  "example_route_env =
     \<lparr> pv_route = \<lparr> rt_assets = example_config,
         rt_support = defaultEncodingSupport, rt_delivery = example_delivery, rt_mount = ''/'',
         rt_recovery = False, rt_script = (\<lambda>_. []) \<rparr>,
       pv_compile = example_reader, pv_config = example_cache_config, pv_live = True \<rparr>"

definition example_selection :: "string \<Rightarrow> preparedSelection" where
  "example_selection format =
     \<lparr> sl_response = fst (compileResponse example_reader (newPreparedBodyBudget None) (asset_result example_asset) []),
       sl_fallbackUsed = False, sl_explicitFormat = (format \<noteq> []) \<rparr>"

definition example_http :: http_request where
  "example_http = \<lparr> ht_method = MethodGet, ht_path = ''/logo.png'', ht_Accept = [], ht_AcceptEncoding = [],
     ht_Range = ''bytes=1-2'', ht_query_w = [], ht_query_format = [], ht_fresh = False \<rparr>"

lemma example_file: "readServerAssetFile example_delivery p = Inr ''help''"
  "de_rng example_delivery = example_range" "\<not> de_serve example_delivery q"
  by (simp_all add: readServerAssetFile_def open_local_def example_delivery_def)

definition example_prepared_state :: prepared_state where
  "example_prepared_state =
     \<lparr> st_catalog = run_catalog (\<lambda>_. None) [],
       st_snapshot = Compile example_reader example_cache_config [] \<rparr>"



text \<open>An image asked for in a format it has no variant of gets different \<open>Vary\<close> headers from the two paths: the
  prepared response of an asset is compiled with an empty explicit format.\<close>

theorem explicit_format_vary_differs:
  "prepared_ApplyForRange (pr_explicitHeaderPlan (fst (compileAssetResponse pe b example_asset))) Map.empty rg ''Vary'' =
     Some ''Accept-Encoding, Accept'' \<and>
   resolved_ApplyForRange (newResolvedHeaderPlan (pe_uc pe) (pe_stat pe) (pe_now pe) (pe_policy pe)
     (asset_result example_asset) ''png'') Map.empty rg ''Vary'' = Some ''Accept-Encoding''"
proof -
  have vary: "resolved_ApplyForRange p Map.empty rg ''Vary'' = Some (hp_vary p)" for p
    by (simp add: resolved_ApplyForRange_def applyOptionalHeader_eq Let_def)
  have plan: "pr_explicitHeaderPlan (fst (compileAssetResponse pe b example_asset)) =
      newPreparedHeaderPlan (newResolvedHeaderPlan (pe_uc pe) (pe_stat pe) (pe_now pe) (pe_policy pe)
        (asset_result example_asset) [])"
    by (simp add: compileAssetResponse_def compileResponse_def split: prod.split)
  have image: "IsImageMediaType (a_MediaType (rs_Asset (asset_result example_asset)))"
    "trim_space ''png'' \<noteq> []" "trim_space [] = []" by code_simp+
  have none: "no_managed Map.empty" by (simp add: no_managed_def)
  show ?thesis unfolding plan prepared_apply_eq [OF none] vary
    using image by (simp add: newResolvedHeaderPlan_def resolvedVaryHeader_def shouldVaryAccept_def Let_def)
qed

text \<open>The static \<open>robots.txt\<close> cannot be delivered when the memory cache does not serve it, as for a range
  request: the runtime of the robots route has no file sources.\<close>

theorem robots_static_range_fails:
  assumes "FindAsset c robotsAssetPath = Some a" "\<not> de_is_bundle env (a_FullPath a)" "requestRangeRequested h"
    and "\<And>request. rq_RangeRequested request \<Longrightarrow> \<not> de_serve env (buildMemoryCacheRequest (asset_result a) request)"
    and "ht_method h \<noteq> MethodHead"
  shows "robots_handler env False generated h c r = Inl (FiberError 500)"
proof -
  have "\<not> de_serve env (buildMemoryCacheRequest (asset_result a) (no_request\<lparr>rq_RangeRequested := True\<rparr>))"
    by (rule assms(4)) simp
  then show ?thesis
    using assms(1-3,5)
    by (simp add: robots_handler_def staticRobotsAsset_def sendResolvedAsset_def robots_delivery_def Let_def
        handleConditionalAssetRequest_def shouldSendNotModified_def sendResolvedAssetFile_def readServerAssetFile_def
        open_local_def asset_result_def file_open_error_def newMissingResolvedVariantError_def)
qed

end
