(* ===== verification/PreparedRebuild.thy ===== *)
theory PreparedRebuild
  imports Prelude
begin

text \<open>
  The rebuild worker of the prepared snapshot (\<open>prepared_service.go\<close>) as a state machine: the event
  handlers that call \<open>rebuildAsync\<close>, the worker of \<open>runRebuildWorker\<close>, the requests that rebuild directly
  (\<open>DeleteVariantArtifact\<close>) and \<open>stop\<close>, interleaved at every access to a shared atomic and around the
  mutex of \<open>Rebuild\<close>.

  The contents of the catalog and of the snapshot are counted versions: every change of the catalog is a
  new version, and compiling stores the version that was read.  What one compilation computes is
  \<open>Prepared.Compile\<close>.  A compilation fails only when its context is done.
\<close>

section \<open>States\<close>

text \<open>Where a goroutine stands: an event handler, a worker, or a request that rebuilds.\<close>

datatype rebuild_pc =
    Returned
  | NotifyCheck | NotifyFlag | NotifyClaim | NotifySpawn
  | WorkerCheck | WorkerForget | WorkerLeave | WorkerSwap | WorkerLock | WorkerRead | WorkerStore nat
  | WorkerRelease | WorkerReload | WorkerReclaim
  | DirectLock | DirectRead | DirectStore nat

datatype stop_pc = StopIdle | StopFlagged | StopWaiting | StopDone | StopTimedOut

record rebuild_state =
  rb_running :: bool
  rb_again :: bool
  rb_stopped :: bool
  rb_cancelled :: bool
  rb_catalog :: nat
  rb_snapshot :: nat
  rb_threads :: "rebuild_pc list"
  rb_stop :: stop_pc

fun holds_mutex :: "rebuild_pc \<Rightarrow> bool" where
  "holds_mutex WorkerRead = True" | "holds_mutex (WorkerStore n) = True"
| "holds_mutex DirectRead = True" | "holds_mutex (DirectStore n) = True"
| "holds_mutex _ = False"

text \<open>The goroutines the wait group counts.\<close>

fun live_worker :: "rebuild_pc \<Rightarrow> bool" where
  "live_worker WorkerCheck = True" | "live_worker WorkerForget = True" | "live_worker WorkerLeave = True"
| "live_worker WorkerSwap = True" | "live_worker WorkerLock = True" | "live_worker WorkerRead = True"
| "live_worker (WorkerStore n) = True" | "live_worker WorkerRelease = True" | "live_worker WorkerReload = True"
| "live_worker WorkerReclaim = True"
| "live_worker _ = False"

definition mutex_free :: "rebuild_state \<Rightarrow> bool" where
  "mutex_free s \<longleftrightarrow> list_all (\<lambda>t. \<not> holds_mutex t) (rb_threads s)"

section \<open>Steps\<close>

text \<open>What a goroutine does next: where it goes, the goroutines it starts, and the new state; \<open>fails\<close> tells
  whether the context of a request may be done.\<close>

fun rebuildAsync :: "rebuild_state \<Rightarrow> rebuild_pc \<Rightarrow> (rebuild_pc \<times> rebuild_pc list \<times> rebuild_state) list" where
  "rebuildAsync s NotifyCheck = [(if rb_stopped s then Returned else NotifyFlag, [], s)]"
| "rebuildAsync s NotifyFlag = [(NotifyClaim, [], s\<lparr>rb_again := True\<rparr>)]"
| "rebuildAsync s NotifyClaim =
     [if rb_running s then (Returned, [], s) else (NotifySpawn, [], s\<lparr>rb_running := True\<rparr>)]"
| "rebuildAsync s NotifySpawn = [(Returned, [WorkerCheck], s)]"
| "rebuildAsync s _ = []"

fun releaseRebuildWorker :: "rebuild_state \<Rightarrow> rebuild_pc \<Rightarrow> (rebuild_pc \<times> rebuild_pc list \<times> rebuild_state) list" where
  "releaseRebuildWorker s WorkerRelease = [(WorkerReload, [], s\<lparr>rb_running := False\<rparr>)]"
| "releaseRebuildWorker s WorkerReload = [(if rb_again s then WorkerReclaim else Returned, [], s)]"
| "releaseRebuildWorker s WorkerReclaim =
     [if rb_running s then (Returned, [], s) else (WorkerCheck, [], s\<lparr>rb_running := True\<rparr>)]"
| "releaseRebuildWorker s _ = []"

text \<open>\<open>Rebuild\<close>, by a worker or by a request: wait for the mutex, read the catalog, store the snapshot.\<close>

fun rebuild_step ::
    "bool \<Rightarrow> rebuild_state \<Rightarrow> rebuild_pc \<Rightarrow> (rebuild_pc \<times> rebuild_pc list \<times> rebuild_state) list" where
  "rebuild_step fails s WorkerLock = (if mutex_free s then [(WorkerRead, [], s)] else [])"
| "rebuild_step fails s WorkerRead = [(WorkerStore (rb_catalog s), [], s)]"
| "rebuild_step fails s (WorkerStore n) =
     (WorkerCheck, [], s\<lparr>rb_snapshot := n\<rparr>) # (if rb_cancelled s then [(WorkerCheck, [], s)] else [])"
| "rebuild_step fails s DirectLock = (if mutex_free s then [(DirectRead, [], s)] else [])"
| "rebuild_step fails s DirectRead = [(DirectStore (rb_catalog s), [], s)]"
| "rebuild_step fails s (DirectStore n) =
     (Returned, [], s\<lparr>rb_snapshot := n\<rparr>) # (if fails then [(Returned, [], s)] else [])"
| "rebuild_step fails s _ = []"

fun runRebuildWorker :: "rebuild_state \<Rightarrow> rebuild_pc \<Rightarrow> (rebuild_pc \<times> rebuild_pc list \<times> rebuild_state) list" where
  "runRebuildWorker s WorkerCheck = [(if rb_stopped s \<or> rb_cancelled s then WorkerForget else WorkerSwap, [], s)]"
| "runRebuildWorker s WorkerForget = [(WorkerLeave, [], s\<lparr>rb_again := False\<rparr>)]"
| "runRebuildWorker s WorkerLeave = [(Returned, [], s\<lparr>rb_running := False\<rparr>)]"
| "runRebuildWorker s WorkerSwap =
     [if rb_again s then (WorkerLock, [], s\<lparr>rb_again := False\<rparr>) else (WorkerRelease, [], s)]"
| "runRebuildWorker s _ = []"

definition thread_next ::
    "bool \<Rightarrow> rebuild_state \<Rightarrow> rebuild_pc \<Rightarrow> (rebuild_pc \<times> rebuild_pc list \<times> rebuild_state) list" where
  "thread_next fails s pc =
     rebuildAsync s pc @ runRebuildWorker s pc @ rebuild_step fails s pc @ releaseRebuildWorker s pc"

definition stop_next :: "rebuild_state \<Rightarrow> rebuild_state list" where
  "stop_next s =
     (case rb_stop s of
        StopIdle \<Rightarrow> [s\<lparr>rb_stopped := True, rb_stop := StopFlagged\<rparr>]
      | StopFlagged \<Rightarrow> [s\<lparr>rb_cancelled := True, rb_stop := StopWaiting\<rparr>]
      | StopWaiting \<Rightarrow>
          (if list_all (\<lambda>t. \<not> live_worker t) (rb_threads s) then [s\<lparr>rb_stop := StopDone\<rparr>] else []) @
          [s\<lparr>rb_stop := StopTimedOut\<rparr>]
      | _ \<Rightarrow> [])"

inductive thread_step :: "bool \<Rightarrow> rebuild_state \<Rightarrow> rebuild_state \<Rightarrow> bool" for fails where
  "i < length (rb_threads s) \<Longrightarrow> (pc, spawned, t) \<in> set (thread_next fails s (rb_threads s ! i)) \<Longrightarrow>
     thread_step fails s (t\<lparr>rb_threads := (rb_threads s)[i := pc] @ spawned\<rparr>)"

text \<open>A change of the catalog is followed by its event, whose handler is a new goroutine; an event without
  a change may come at any time; a direct rebuild (the first one, or after a request has deleted
  a variant) follows its change of the catalog.\<close>

inductive rebuild_step_to :: "bool \<Rightarrow> rebuild_state \<Rightarrow> rebuild_state \<Rightarrow> bool" for fails where
  changed: "rebuild_step_to fails s
    (s\<lparr>rb_catalog := Suc (rb_catalog s), rb_threads := rb_threads s @ [NotifyCheck]\<rparr>)"
| event: "rebuild_step_to fails s (s\<lparr>rb_threads := rb_threads s @ [NotifyCheck]\<rparr>)"
| direct: "rebuild_step_to fails s
    (s\<lparr>rb_catalog := Suc (rb_catalog s), rb_threads := rb_threads s @ [DirectLock]\<rparr>)"
| thread: "thread_step fails s t \<Longrightarrow> rebuild_step_to fails s t"
| stop: "t \<in> set (stop_next s) \<Longrightarrow> rebuild_step_to fails s t"

definition started :: rebuild_state where
  "started =
     \<lparr> rb_running = False, rb_again = False, rb_stopped = False, rb_cancelled = False, rb_catalog = 0,
       rb_snapshot = 0, rb_threads = [], rb_stop = StopIdle \<rparr>"

inductive rebuild_reachable :: "bool \<Rightarrow> rebuild_state \<Rightarrow> bool" for fails where
  start: "rebuild_reachable fails started"
| step: "rebuild_reachable fails s \<Longrightarrow> rebuild_step_to fails s t \<Longrightarrow> rebuild_reachable fails t"


section \<open>The invariant\<close>

fun owns_flag :: "rebuild_pc \<Rightarrow> bool" where
  "owns_flag NotifySpawn = True" | "owns_flag WorkerCheck = True" | "owns_flag WorkerForget = True"
| "owns_flag WorkerLeave = True" | "owns_flag WorkerSwap = True" | "owns_flag WorkerLock = True"
| "owns_flag WorkerRead = True" | "owns_flag (WorkerStore n) = True" | "owns_flag WorkerRelease = True"
| "owns_flag _ = False"

fun watches :: "rebuild_pc \<Rightarrow> bool" where
  "watches NotifyClaim = True" | "watches WorkerReload = True" | "watches WorkerReclaim = True"
| "watches _ = False"

text \<open>Goroutines on their way to a snapshot of version \<open>v\<close>.\<close>

fun will_store :: "nat \<Rightarrow> rebuild_pc \<Rightarrow> bool" where
  "will_store v NotifyCheck = True" | "will_store v NotifyFlag = True"
| "will_store v WorkerLock = True" | "will_store v WorkerRead = True" | "will_store v (WorkerStore n) = (n = v)"
| "will_store v DirectLock = True" | "will_store v DirectRead = True" | "will_store v (DirectStore n) = (n = v)"
| "will_store v _ = False"

fun stored_version :: "rebuild_pc \<Rightarrow> nat option" where
  "stored_version (WorkerStore n) = Some n" | "stored_version (DirectStore n) = Some n"
| "stored_version _ = None"

fun leaving :: "rebuild_pc \<Rightarrow> bool" where
  "leaving WorkerForget = True" | "leaving WorkerLeave = True" | "leaving _ = False"

fun past_check :: "rebuild_pc \<Rightarrow> bool" where
  "past_check WorkerSwap = True" | "past_check WorkerLock = True" | "past_check WorkerRead = True"
| "past_check (WorkerStore n) = True" | "past_check WorkerRelease = True" | "past_check WorkerReload = True"
| "past_check WorkerReclaim = True" | "past_check _ = False"

definition one_worker :: "rebuild_state \<Rightarrow> bool" where
  "one_worker s \<longleftrightarrow>
     length (filter owns_flag (rb_threads s)) = (if rb_running s then 1 else 0) \<and>
     length (filter holds_mutex (rb_threads s)) \<le> 1"

definition versions_ok :: "rebuild_state \<Rightarrow> bool" where
  "versions_ok s \<longleftrightarrow>
     rb_snapshot s \<le> rb_catalog s \<and>
     (\<forall>t\<in>set (rb_threads s). \<forall>n. stored_version t = Some n \<longrightarrow> rb_snapshot s \<le> n \<and> n \<le> rb_catalog s)"

definition stop_ok :: "rebuild_state \<Rightarrow> bool" where
  "stop_ok s \<longleftrightarrow>
     (rb_cancelled s \<longrightarrow> rb_stopped s) \<and> (rb_stopped s \<longleftrightarrow> rb_stop s \<noteq> StopIdle) \<and>
     (\<forall>t\<in>set (rb_threads s). leaving t \<longrightarrow> rb_stopped s) \<and>
     (rb_stop s = StopDone \<longrightarrow> (\<forall>t\<in>set (rb_threads s). \<not> past_check t))"

definition flag_seen :: "rebuild_state \<Rightarrow> bool" where
  "flag_seen s \<longleftrightarrow>
     (\<not> rb_stopped s \<longrightarrow> rb_again s \<longrightarrow> rb_running s \<or> list_ex watches (rb_threads s))"

definition change_seen :: "bool \<Rightarrow> rebuild_state \<Rightarrow> bool" where
  "change_seen fails s \<longleftrightarrow>
     (\<not> rb_stopped s \<longrightarrow> \<not> fails \<longrightarrow>
        rb_snapshot s = rb_catalog s \<or> rb_again s \<or> list_ex (will_store (rb_catalog s)) (rb_threads s))"

definition rebuild_ok :: "bool \<Rightarrow> rebuild_state \<Rightarrow> bool" where
  "rebuild_ok fails s \<longleftrightarrow> one_worker s \<and> versions_ok s \<and> stop_ok s \<and> flag_seen s \<and> change_seen fails s"

lemma thread_stepD:
  assumes "thread_step fails s t"
  obtains us pc0 vs pc spawned u where "rb_threads s = us @ pc0 # vs"
    and "(pc, spawned, u) \<in> set (thread_next fails s pc0)"
    and "t = u\<lparr>rb_threads := us @ pc # vs @ spawned\<rparr>"
  using assms
proof cases
  case (1 i pc spawned u)
  have "rb_threads s = take i (rb_threads s) @ rb_threads s ! i # drop (Suc i) (rb_threads s)"
    using 1(2) by (rule id_take_nth_drop)
  moreover have "(rb_threads s)[i := pc] @ spawned =
      take i (rb_threads s) @ pc # drop (Suc i) (rb_threads s) @ spawned"
    using upd_conv_take_nth_drop [OF 1(2), of pc] by simp
  ultimately show thesis using that 1(1,3) by metis
qed

lemma thread_next_threads: "(pc, spawned, u) \<in> set (thread_next fails s pc0) \<Longrightarrow>
    rb_threads u = rb_threads s \<and> rb_stop u = rb_stop s \<and> rb_stopped u = rb_stopped s \<and>
    rb_cancelled u = rb_cancelled s \<and> rb_catalog u = rb_catalog s \<and> (spawned = [] \<or> spawned = [WorkerCheck])"
  by (cases pc0) (auto simp: thread_next_def split: if_splits)

lemma thread_one_worker:
  assumes "one_worker s" "rb_threads s = us @ pc0 # vs" "(pc, spawned, u) \<in> set (thread_next fails s pc0)"
  shows "one_worker (u\<lparr>rb_threads := us @ pc # vs @ spawned\<rparr>)"
  using assms by (cases pc0) (auto simp: one_worker_def thread_next_def mutex_free_def list_all_iff filter_empty_conv split: if_splits)

lemma thread_versions:
  assumes "one_worker s" "versions_ok s" "rb_threads s = us @ pc0 # vs"
    "(pc, spawned, u) \<in> set (thread_next fails s pc0)"
  shows "versions_ok (u\<lparr>rb_threads := us @ pc # vs @ spawned\<rparr>)"
proof -
  have others: "stored_version t = None" if "holds_mutex pc0" "t \<in> set us \<union> set vs" for t
  proof -
    have "length (filter holds_mutex us) + length (filter holds_mutex vs) = 0"
      using assms(1,3) that(1) by (simp add: one_worker_def)
    then have "\<not> holds_mutex t" using that(2) by (auto simp: filter_empty_conv)
    then show ?thesis by (cases t) auto
  qed
  show ?thesis
    using assms(2-4) others by (cases pc0) (auto simp: versions_ok_def thread_next_def split: if_splits)
qed

lemma thread_stop_ok:
  assumes "stop_ok s" "rb_threads s = us @ pc0 # vs" "(pc, spawned, u) \<in> set (thread_next fails s pc0)"
  shows "stop_ok (u\<lparr>rb_threads := us @ pc # vs @ spawned\<rparr>)"
  using assms by (cases pc0) (auto simp: stop_ok_def thread_next_def split: if_splits)

lemma thread_flag_seen:
  assumes "one_worker s" "flag_seen s" "stop_ok s" "rb_threads s = us @ pc0 # vs"
    "(pc, spawned, u) \<in> set (thread_next fails s pc0)"
  shows "flag_seen (u\<lparr>rb_threads := us @ pc # vs @ spawned\<rparr>)"
proof -
  have "rb_running s" if "owns_flag pc0"
    using assms(1,4) that by (simp add: one_worker_def split: if_splits)
  then show ?thesis using assms(2-5)
    by (cases pc0) (auto simp: flag_seen_def stop_ok_def thread_next_def split: if_splits)
qed

lemma thread_change_seen:
  assumes "versions_ok s" "change_seen fails s" "stop_ok s" "rb_threads s = us @ pc0 # vs"
    "(pc, spawned, u) \<in> set (thread_next fails s pc0)"
  shows "change_seen fails (u\<lparr>rb_threads := us @ pc # vs @ spawned\<rparr>)"
  using assms by (cases pc0) (auto simp: versions_ok_def change_seen_def stop_ok_def thread_next_def split: if_splits)

lemma thread_step_ok:
  assumes "thread_step fails s t" "rebuild_ok fails s"
  shows "rebuild_ok fails t"
  using assms(1)
proof (rule thread_stepD)
  fix us pc0 vs pc spawned u
  assume st: "rb_threads s = us @ pc0 # vs" "(pc, spawned, u) \<in> set (thread_next fails s pc0)"
    and t: "t = u\<lparr>rb_threads := us @ pc # vs @ spawned\<rparr>"
  from assms(2) have "one_worker s" "versions_ok s" "stop_ok s" "flag_seen s" "change_seen fails s"
    by (simp_all add: rebuild_ok_def)
  then show ?thesis unfolding rebuild_ok_def t
    using thread_one_worker [OF _ st] thread_versions [OF _ _ st] thread_stop_ok [OF _ st]
      thread_flag_seen [OF _ _ _ st] thread_change_seen [OF _ _ _ st] by blast
qed

lemma stop_next_ok:
  assumes "t \<in> set (stop_next s)" "rebuild_ok fails s"
  shows "rebuild_ok fails t"
proof -
  have live: "past_check x \<Longrightarrow> live_worker x" for x by (cases x) auto
  show ?thesis using assms
    by (auto simp: stop_next_def rebuild_ok_def one_worker_def versions_ok_def stop_ok_def flag_seen_def
        change_seen_def list_all_iff dest: live split: stop_pc.splits if_splits)
qed

lemma new_thread_ok:
  assumes ok: "rebuild_ok fails s" and pc: "pc = NotifyCheck \<or> pc = DirectLock" and v: "rb_catalog s \<le> v"
  shows "rebuild_ok fails (s\<lparr>rb_catalog := v, rb_threads := rb_threads s @ [pc]\<rparr>)"
proof -
  let ?t = "s\<lparr>rb_catalog := v, rb_threads := rb_threads s @ [pc]\<rparr>"
  have "one_worker ?t" using ok pc by (auto simp: rebuild_ok_def one_worker_def)
  moreover have "versions_ok ?t" unfolding versions_ok_def
    using ok pc v le_trans [of _ "rb_catalog s" v] by (auto simp: rebuild_ok_def versions_ok_def)
  moreover have "stop_ok ?t" using ok pc by (auto simp: rebuild_ok_def stop_ok_def)
  moreover have "flag_seen ?t" using ok by (auto simp: rebuild_ok_def flag_seen_def)
  moreover have "change_seen fails ?t" using pc by (auto simp: change_seen_def)
  ultimately show ?thesis by (simp add: rebuild_ok_def)
qed

lemma rebuild_step_ok: "rebuild_step_to fails s t \<Longrightarrow> rebuild_ok fails s \<Longrightarrow> rebuild_ok fails t"
proof (induction rule: rebuild_step_to.induct)
  case (thread s t)
  then show ?case by (rule thread_step_ok)
next
  case (stop t s)
  then show ?case by (rule stop_next_ok)
next
  case (event s)
  then show ?case using new_thread_ok [of fails s NotifyCheck "rb_catalog s"] by simp
qed (rule new_thread_ok; simp)+

lemma rebuild_reachable_ok: "rebuild_reachable fails s \<Longrightarrow> rebuild_ok fails s"
proof (induction rule: rebuild_reachable.induct)
  case start
  show ?case by (simp add: started_def rebuild_ok_def one_worker_def versions_ok_def stop_ok_def
        flag_seen_def change_seen_def)
qed (rule rebuild_step_ok)

section \<open>Settling\<close>

text \<open>Without new events the goroutines come to rest.  An event that has not set \<open>rebuildAgain\<close> counts two,
  the flag one; with their sum fixed, the steps to the next test of the flag go down.\<close>

fun event_cost :: "rebuild_pc \<Rightarrow> nat" where
  "event_cost NotifyCheck = 2" | "event_cost NotifyFlag = 2" | "event_cost _ = 0"

fun steps_left :: "bool \<Rightarrow> rebuild_pc \<Rightarrow> nat" where
  "steps_left again Returned = 0"
| "steps_left again NotifyCheck = 22" | "steps_left again NotifyFlag = 21" | "steps_left again NotifyClaim = 20"
| "steps_left again NotifySpawn = 19"
| "steps_left again WorkerLock = 14" | "steps_left again WorkerRead = 13" | "steps_left again (WorkerStore n) = 12"
| "steps_left again WorkerCheck = (if again then 4 else 8)"
| "steps_left again WorkerForget = (if again then 3 else 2)" | "steps_left again WorkerLeave = 1"
| "steps_left again WorkerSwap = (if again then 3 else 7)"
| "steps_left again WorkerRelease = (if again then 7 else 6)"
| "steps_left again WorkerReload = (if again then 6 else 1)"
| "steps_left again WorkerReclaim = (if again then 5 else 9)"
| "steps_left again DirectLock = 3" | "steps_left again DirectRead = 2" | "steps_left again (DirectStore n) = 1"

definition pending_events :: "rebuild_state \<Rightarrow> nat" where
  "pending_events s = sum_list (map event_cost (rb_threads s)) + (if rb_again s then 1 else 0)"

definition pending_steps :: "rebuild_state \<Rightarrow> nat" where
  "pending_steps s = sum_list (map (steps_left (rb_again s)) (rb_threads s))"

lemma thread_step_measure:
  assumes "thread_step fails s t"
  shows "(t, s) \<in> measures [pending_events, pending_steps]"
  using assms
proof (rule thread_stepD)
  fix us pc0 vs pc spawned u
  assume st: "rb_threads s = us @ pc0 # vs" "(pc, spawned, u) \<in> set (thread_next fails s pc0)"
    and t: "t = u\<lparr>rb_threads := us @ pc # vs @ spawned\<rparr>"
  show ?thesis using st
    by (cases pc0) (auto simp: t pending_events_def pending_steps_def thread_next_def split: if_splits)
qed

lemma no_infinite_run: "\<not> (\<exists>f. f 0 = s \<and> (\<forall>i. thread_step fails (f i) (f (Suc i))))"
proof
  assume "\<exists>f. f 0 = s \<and> (\<forall>i. thread_step fails (f i) (f (Suc i)))"
  then obtain f where "\<forall>i. thread_step fails (f i) (f (Suc i))" by blast
  then have "\<forall>i. (f (Suc i), f i) \<in> measures [pending_events, pending_steps]"
    using thread_step_measure by blast
  then show False using wf_measures [of "[pending_events, pending_steps]"]
    unfolding wf_iff_no_infinite_down_chain by blast
qed

text \<open>A goroutine that waits for the mutex is not stuck: its holder can step.\<close>

lemma thread_next_blocked:
  "thread_next fails s pc = [] \<Longrightarrow> pc = Returned \<or> (\<not> mutex_free s \<and> \<not> holds_mutex pc)"
  by (cases pc) (auto simp: thread_next_def split: if_splits)

lemma thread_step_member:
  assumes "pc0 \<in> set (rb_threads s)" "thread_next fails s pc0 \<noteq> []"
  shows "\<exists>t. thread_step fails s t"
proof -
  obtain i where "i < length (rb_threads s)" "rb_threads s ! i = pc0" using assms(1) by (auto simp: in_set_conv_nth)
  moreover obtain pc spawned u where "(pc, spawned, u) \<in> set (thread_next fails s pc0)"
    using assms(2) by (cases "thread_next fails s pc0") auto
  ultimately show ?thesis using thread_step.intros by metis
qed

lemma at_rest:
  assumes "\<not> (\<exists>t. thread_step fails s t)"
  shows "list_all (\<lambda>pc. pc = Returned) (rb_threads s)"
proof -
  have none: "thread_next fails s pc = []" if "pc \<in> set (rb_threads s)" for pc
    using assms that thread_step_member by blast
  have "mutex_free s"
    unfolding mutex_free_def list_all_iff using none thread_next_blocked by (metis holds_mutex.simps(5))
  then show ?thesis unfolding list_all_iff using none thread_next_blocked by blast
qed

lemma thread_run_ok:
  assumes "(thread_step fails)\<^sup>*\<^sup>* s t" and "rebuild_ok fails s"
  shows "rebuild_ok fails t \<and> rb_stopped t = rb_stopped s \<and> rb_catalog t = rb_catalog s"
  using assms
proof (induction rule: rtranclp_induct)
  case (step t u)
  from step.hyps(2) have "rb_stopped u = rb_stopped t \<and> rb_catalog u = rb_catalog t"
    by (rule thread_stepD) (use thread_next_threads in fastforce)
  with step show ?case using thread_step_ok by metis
qed simp

lemma run_to_rest: "\<exists>t. (thread_step fails)\<^sup>*\<^sup>* s t \<and> \<not> (\<exists>u. thread_step fails t u)"
proof -
  have "wf (measures [pending_events, pending_steps])" by simp
  then show ?thesis
  proof (induction s rule: wf_induct_rule)
    case (less s)
    show ?case
    proof (cases "\<exists>t. thread_step fails s t")
      case True
      then obtain t where t: "thread_step fails s t" by blast
      with less.IH [OF thread_step_measure [OF t]] show ?thesis by (meson converse_rtranclp_into_rtranclp)
    qed blast
  qed
qed

section \<open>What the rebuild worker promises\<close>


text \<open>One compilation at a time, and none after the end.  In every reachable state at most one goroutine
  is inside \<open>Rebuild\<close> and at most one worker is rebuilding or about to; once \<open>stop\<close> has returned without a
  timeout no worker touches the file sources again; and a snapshot is never replaced by one of an older
  catalog.\<close>

theorem rebuild_exclusive:
  assumes "rebuild_reachable fails s"
  shows "length (filter holds_mutex (rb_threads s)) \<le> 1 \<and> length (filter owns_flag (rb_threads s)) \<le> 1 \<and>
    (rb_stop s = StopDone \<longrightarrow> list_all (\<lambda>pc. \<not> past_check pc) (rb_threads s)) \<and>
    (\<forall>t. rebuild_step_to fails s t \<longrightarrow> rb_snapshot s \<le> rb_snapshot t)"
proof (intro conjI allI impI)
  have ok: "rebuild_ok fails s" using assms by (rule rebuild_reachable_ok)
  then show "length (filter holds_mutex (rb_threads s)) \<le> 1" "length (filter owns_flag (rb_threads s)) \<le> 1"
    by (auto simp: rebuild_ok_def one_worker_def)
  show "list_all (\<lambda>pc. \<not> past_check pc) (rb_threads s)" if "rb_stop s = StopDone"
    using ok that by (simp add: rebuild_ok_def stop_ok_def list_all_iff)
  fix t assume "rebuild_step_to fails s t"
  then show "rb_snapshot s \<le> rb_snapshot t"
  proof cases
    case thread
    then show ?thesis
    proof (rule thread_stepD)
      fix us pc0 vs pc spawned u
      assume "rb_threads s = us @ pc0 # vs" "(pc, spawned, u) \<in> set (thread_next fails s pc0)"
        "t = u\<lparr>rb_threads := us @ pc # vs @ spawned\<rparr>"
      with ok show ?thesis
        by (cases pc0) (auto simp: rebuild_ok_def versions_ok_def thread_next_def split: if_splits)
    qed
  next
    case stop
    then show ?thesis by (auto simp: stop_next_def split: stop_pc.splits if_splits)
  qed simp_all
qed

definition example_changed :: rebuild_state where
  "example_changed = started\<lparr>rb_catalog := 1, rb_threads := [NotifyCheck]\<rparr>"

lemma example_changed_reachable: "rebuild_reachable fails example_changed"
  using rebuild_reachable.step [OF rebuild_reachable.start rebuild_step_to.changed, of fails]
  by (simp add: example_changed_def started_def)


theorem rebuild_exclusive_witness:
  "length (filter owns_flag (rb_threads example_changed)) \<le> 1 \<and> rb_threads example_changed \<noteq> []"
  using rebuild_exclusive [OF example_changed_reachable, of True] by (simp add: example_changed_def)

text \<open>A request whose context is done while it rebuilds leaves the snapshot stale: the variant is gone from the
  catalog, no event is published, and every goroutine is at rest.\<close>

theorem abandoned_delete_stale:
  "\<exists>s. rebuild_reachable True s \<and> list_all (\<lambda>pc. pc = Returned) (rb_threads s) \<and> \<not> rb_stopped s \<and>
     rb_snapshot s < rb_catalog s"
proof -
  define s where "s pc = started\<lparr>rb_catalog := 1, rb_threads := [pc]\<rparr>" for pc
  have "rebuild_reachable True (s DirectLock)"
    using rebuild_reachable.step [OF rebuild_reachable.start rebuild_step_to.direct, of True]
    by (simp add: s_def started_def)
  moreover have step: "rebuild_reachable True (s pc')"
    if "rebuild_reachable True (s pc)" "(pc', [], s pc) \<in> set (thread_next True (s pc) pc)" for pc pc'
  proof -
    have "thread_step True (s pc) ((s pc)\<lparr>rb_threads := (rb_threads (s pc))[0 := pc'] @ []\<rparr>)"
      using that(2) by (intro thread_step.intros) (simp_all add: s_def)
    then have "thread_step True (s pc) (s pc')" by (simp add: s_def)
    with that(1) show ?thesis using rebuild_reachable.step rebuild_step_to.thread by metis
  qed
  ultimately have "rebuild_reachable True (s DirectRead)"
    by (simp add: thread_next_def mutex_free_def s_def)
  then have "rebuild_reachable True (s (DirectStore 1))"
    by (rule step) (simp add: thread_next_def s_def)
  then have "rebuild_reachable True (s Returned)"
    by (rule step) (simp add: thread_next_def)
  then show ?thesis by (rule exI [where x = "s Returned", OF conjI]) (simp add: s_def started_def)
qed

end
