(* ===== verification/Stages.thy ===== *)
theory Stages
  imports Config PipelineKeys Artifact Catalog
begin

text \<open>
  The generation of variants (\<open>internal/pipeline\<close>): the stages of \<open>compression_stage.go\<close>,
  \<open>image_stage.go\<close> and \<open>image_stage_support.go\<close>, the registry of codings (\<open>internal/contentcoding\<close>), and
  \<open>Service.process\<close> with the execution of tasks and the publication of variants (\<open>service.go\<close>,
  \<open>service_runtime.go\<close>).

  The compressors and the image engine are parameters, as are the content of source files, the clock and
  the faults of the file system; the moment at which something happens is a tick of the state.  A request
  is processed without interference; concurrent executions of one task share a single run, which changes
  nothing here.  Metrics and logs are left out.
\<close>

section \<open>Codings\<close>

record Options =
  op_BrotliQuality :: int
  op_GzipLevel :: int
  op_ZstdLevel :: int

definition clampGzipLevel :: "int \<Rightarrow> int" where
  "clampGzipLevel level = (if level < 1 \<or> level > 9 then -1 else level)"

definition clampBrotliQuality :: "int \<Rightarrow> int" where
  "clampBrotliQuality q = (if q < 0 then 0 else if q > 11 then 11 else q)"

definition clampZstdLevel :: "int \<Rightarrow> int" where
  "clampZstdLevel level = (if level < 0 then 0 else if level > 22 then 22 else level)"

text \<open>The compressors of the third-party libraries, at a level.\<close>

record codecs =
  cd_brotli :: "int \<Rightarrow> bytes \<Rightarrow> bytes option"
  cd_zstd :: "int \<Rightarrow> bytes \<Rightarrow> bytes option"
  cd_gzip :: "int \<Rightarrow> bytes \<Rightarrow> bytes option"

record Strategy =
  sy_Name :: string
  sy_Suffix :: string
  sy_Compress :: "bytes \<Rightarrow> bytes option"

definition NewBrotliStrategy :: "codecs \<Rightarrow> int \<Rightarrow> Strategy" where
  "NewBrotliStrategy cd quality =
     \<lparr> sy_Name = ''br'', sy_Suffix = ''.br'', sy_Compress = cd_brotli cd (clampBrotliQuality quality) \<rparr>"

definition NewZstdStrategy :: "codecs \<Rightarrow> int \<Rightarrow> Strategy" where
  "NewZstdStrategy cd level =
     \<lparr> sy_Name = ''zstd'', sy_Suffix = ''.zst'', sy_Compress = cd_zstd cd (clampZstdLevel level) \<rparr>"

definition NewGzipStrategy :: "codecs \<Rightarrow> int \<Rightarrow> Strategy" where
  "NewGzipStrategy cd level =
     \<lparr> sy_Name = ''gzip'', sy_Suffix = ''.gz'', sy_Compress = cd_gzip cd (clampGzipLevel level) \<rparr>"

definition newBuiltinStrategies :: "codecs \<Rightarrow> Options \<Rightarrow> Strategy list" where
  "newBuiltinStrategies cd opts =
     [NewBrotliStrategy cd (op_BrotliQuality opts), NewZstdStrategy cd (op_ZstdLevel opts),
      NewGzipStrategy cd (op_GzipLevel opts)]"

record Registry =
  rg_strategies :: "string \<rightharpoonup> Strategy"
  rg_names :: "string list"

definition NewRegistry :: "codecs \<Rightarrow> Options \<Rightarrow> string list option \<Rightarrow> Registry" where
  "NewRegistry cd opts enabled0 =
     (let all = map_of (map (\<lambda>s. (sy_Name s, s)) (newBuiltinStrategies cd opts));
          enabled = (case NormalizeNames enabled0 of None \<Rightarrow> DefaultNames | Some ns \<Rightarrow> if ns = [] then DefaultNames else ns)
      in \<lparr> rg_strategies = foldl (\<lambda>m name. case all name of Some s \<Rightarrow> m(name \<mapsto> s) | None \<Rightarrow> m) Map.empty enabled,
           rg_names = enabled \<rparr>)"

definition Lookup :: "Registry \<Rightarrow> string \<Rightarrow> Strategy option" where
  "Lookup r name = rg_strategies r name"

definition Names :: "Registry \<Rightarrow> string list" where
  "Names r = (if rg_names r = [] then DefaultNames else rg_names r)"

section \<open>The state and its environment\<close>

record ImageConfig =
  ic_Enable :: bool
  ic_Widths :: string
  ic_Formats :: string
  ic_JPEGQuality :: int
  ic_MaxSourceBytes :: int
  ic_MaxSourcePixels :: int
  ic_MaxWidth :: int
  ic_MaxHeight :: int
  ic_MaxOutputVariants :: int
  ic_MaxConcurrentSources :: int
  ic_MaxMemoryBytes :: int
  ic_MinSavingRatio :: f64
  ic_MinSavingBytes :: int

definition ParsedWidths :: "ImageConfig \<Rightarrow> int list" where
  "ParsedWidths cfg = ParseWidths (ic_Widths cfg)"

definition ParsedFormats :: "ImageConfig \<Rightarrow> string list" where
  "ParsedFormats cfg = (if trim_space (ic_Formats cfg) = [] then [] else split_on CHR '','' (ic_Formats cfg))"

record imageGenerateLimits =
  il_MaxSourceBytes :: int
  il_MaxSourcePixels :: int
  il_MaxWidth :: int
  il_MaxHeight :: int
  il_MaxMemoryBytes :: int

record imageVariantGenerateRequest =
  ig_TargetFormat :: string
  ig_TargetWidth :: int

record imageGenerateBatchRequest =
  ib_SourcePath :: string
  ib_SourceBytes :: int
  ib_SourceMediaType :: string
  ib_Variants :: "imageVariantGenerateRequest list"
  ib_JPEGQuality :: int
  ib_Limits :: imageGenerateLimits

record imageGenerateResult =
  ir_Payload :: bytes
  ir_Width :: int
  ir_Height :: int
  ir_SourceWidth :: int
  ir_SourceHeight :: int
  ir_SourceBytes :: int
  ir_TargetFormat :: string
  ir_MediaType :: string
  ir_Extension :: string

datatype stage_error =
    ErrVariantSkipped | MissingSourceHash | ContextDone | SourceUnreadable | UnsupportedEncoding | CompressFailed
  | ArtifactFailed artifact_error | UnsupportedFormat string | EngineFailed | CatalogFailed catalog_error

record image_engine =
  ie_Name :: string
  ie_SupportsSourceMediaType :: "string \<Rightarrow> bool"
  ie_SupportedTargetFormats :: "string list option"
  ie_GenerateBatch :: "imageGenerateBatchRequest \<Rightarrow> stage_error + imageGenerateResult list"

record pipeline_env =
  pn_comp :: Compression
  pn_image :: ImageConfig
  pn_registry :: Registry
  pn_engine :: "image_engine option"
  pn_store :: LocalStore
  pn_cwd :: string
  pn_view :: "nat \<Rightarrow> root_view"
  pn_faults :: "nat \<Rightarrow> faults"
  pn_now :: "nat \<Rightarrow> time"
  pn_live :: "nat \<Rightarrow> bool"
  pn_read :: "string \<Rightarrow> bytes option"
  pn_outside :: "string \<Rightarrow> bool"
  pn_stat :: "string \<Rightarrow> time option"

record pipeline_state =
  ps_catalog :: IndexedCatalog
  ps_fs :: fs
  ps_tick :: nat
  ps_generated :: "(string \<times> string \<times> string \<times> int) list"

text \<open>\<open>os.Stat\<close> on the path of an artifact; whether a path that is not in the store, or a link, leads to a file is
  left open.\<close>

definition artifact_exists :: "pipeline_env \<Rightarrow> pipeline_state \<Rightarrow> string \<Rightarrow> bool" where
  "artifact_exists env st p =
     (case relativePath (pn_store env) (pn_cwd env) p of
        Inl _ \<Rightarrow> pn_outside env p
      | Inr rel \<Rightarrow> (case ps_fs st rel of None \<Rightarrow> False | Some (NLink _) \<Rightarrow> pn_outside env p | Some _ \<Rightarrow> True))"

definition tick :: "pipeline_state \<Rightarrow> pipeline_state" where
  "tick st = st\<lparr>ps_tick := Suc (ps_tick st)\<rparr>"

definition store_write :: "pipeline_env \<Rightarrow> pipeline_state \<Rightarrow> string \<Rightarrow> bytes \<Rightarrow> artifact_error option \<times> pipeline_state" where
  "store_write env st p data =
     (let t = ps_tick st
      in case Write (pn_store env) (pn_cwd env) (pn_view env t) (pn_faults env t) (pn_now env t) (ps_fs st) p data of
           (e, fs') \<Rightarrow> (e, tick (st\<lparr>ps_fs := fs'\<rparr>)))"

section \<open>The compression stage\<close>

definition isCompressible :: "Asset \<Rightarrow> bool" where
  "isCompressible a = IsCompressibleMediaType (a_MediaType a)"

definition normalizeEncodings :: "string list option \<Rightarrow> string list option" where
  "normalizeEncodings encodings = (if encodings = None then None else NormalizeNames encodings)"

definition filterConfiguredEncodings :: "string list option \<Rightarrow> string list \<Rightarrow> string list option" where
  "filterConfiguredEncodings encodings supported =
     (case encodings of None \<Rightarrow> None | Some es \<Rightarrow> Some (filter (\<lambda>e. e \<in> set supported) es))"

definition hasEncodingVariant :: "pipeline_env \<Rightarrow> pipeline_state \<Rightarrow> Variant \<Rightarrow> string \<Rightarrow> string \<Rightarrow> bool" where
  "hasEncodingVariant env st v sourceHash encoding =
     (if v_Encoding v \<noteq> encoding then False
      else if sourceHash \<noteq> [] \<and> v_SourceHash v \<noteq> [] \<and> v_SourceHash v \<noteq> sourceHash then False
      else if v_ArtifactPath v = [] then False
      else artifact_exists env st (v_ArtifactPath v))"

definition compression_WarmupEnabled :: "Compression \<Rightarrow> bool" where
  "compression_WarmupEnabled cfg \<longleftrightarrow> PipelineEnabled cfg \<and> NormalizedMode cfg = CompressionModeWarmup"

definition compression_Plan :: "pipeline_env \<Rightarrow> pipeline_state \<Rightarrow> Asset \<Rightarrow> PipelineRequest \<Rightarrow> Task list" where
  "compression_Plan env st a request =
     (if \<not> PipelineEnabled (pn_comp env) \<or> \<not> isCompressible a then []
      else (let supported = Names (pn_registry env);
                encodings = (case filterConfiguredEncodings (normalizeEncodings (pr_PreferredEncodings request)) supported of
                               None \<Rightarrow> supported | Some es \<Rightarrow> if es = [] then supported else es)
            in map (\<lambda>e. \<lparr> tk_AssetPath = a_Path a, tk_Encoding = e, tk_Format = [], tk_Width = 0, tk_ImageVariants = None \<rparr>)
                 (filter (\<lambda>e. case FindEncodingVariant (ps_catalog st) (a_Path a) e of
                                 None \<Rightarrow> True | Some v \<Rightarrow> \<not> hasEncodingVariant env st v (a_SourceHash a) e) encodings)))"

definition compress :: "Registry \<Rightarrow> bytes \<Rightarrow> string \<Rightarrow> stage_error + bytes \<times> string" where
  "compress r raw encoding =
     (case Lookup r encoding of
        None \<Rightarrow> Inl UnsupportedEncoding
      | Some s \<Rightarrow> (case sy_Compress s raw of None \<Rightarrow> Inl CompressFailed | Some data \<Rightarrow> Inr (data, sy_Suffix s)))"

definition compression_Execute ::
    "pipeline_env \<Rightarrow> pipeline_state \<Rightarrow> Task \<Rightarrow> Asset \<Rightarrow> (stage_error + Variant) \<times> pipeline_state" where
  "compression_Execute env st task a =
     (if a_SourceHash a = [] then (Inl MissingSourceHash, st)
      else if \<not> pn_live env (ps_tick st) then (Inl ContextDone, st)
      else
        (case pn_read env (a_FullPath a) of
           None \<Rightarrow> (Inl SourceUnreadable, st)
         | Some raw \<Rightarrow>
             if int (length raw) < cc_MinSize (pn_comp env) then (Inl ErrVariantSkipped, st)
             else
               (case compress (pn_registry env) raw (tk_Encoding task) of
                  Inl e \<Rightarrow> (Inl e, st)
                | Inr (compressed, sfx) \<Rightarrow>
                    if length compressed \<ge> length raw then (Inl ErrVariantSkipped, st)
                    else
                      (case PathFor (pn_store env) (a_Path a) (a_SourceHash a) ''encoding'' sfx of
                         Inl e \<Rightarrow> (Inl (ArtifactFailed e), st)
                       | Inr targetPath \<Rightarrow>
                           (case store_write env st targetPath compressed of
                              (Some e, st') \<Rightarrow> (Inl (ArtifactFailed e), st')
                            | (None, st') \<Rightarrow>
                                (Inr \<lparr> v_ID = a_Path a @ sfx, v_AssetPath = a_Path a, v_ArtifactPath = targetPath,
                                       v_Size = int (length compressed), v_MediaType = a_MediaType a,
                                       v_SourceHash = a_SourceHash a,
                                       v_ETag = CHR 0x22 # a_SourceHash a @ ''-'' @ tk_Encoding task @ [CHR 0x22],
                                       v_Encoding = tk_Encoding task, v_Format = [], v_Width = 0,
                                       v_Metadata = MetadataWithModTime [''stage'' \<mapsto> ''compression'']
                                                      (pn_now env (ps_tick st')) \<rparr>, tick st'))))))"

section \<open>The image stage: what is planned\<close>

definition isResizableImage :: "image_engine option \<Rightarrow> Asset \<Rightarrow> bool" where
  "isResizableImage engine a =
     (case engine of
        None \<Rightarrow> False
      | Some e \<Rightarrow> if \<not> IsImageMediaType (a_MediaType a) then False else ie_SupportsSourceMediaType e (a_MediaType a))"

definition filterSupportedImageFormats :: "string list option \<Rightarrow> string list option \<Rightarrow> string list option" where
  "filterSupportedImageFormats formats supported =
     (case NormalizeImageFormats formats of
        None \<Rightarrow> None
      | Some normalized \<Rightarrow>
          (case supported of
             None \<Rightarrow> Some normalized
           | Some ss \<Rightarrow>
               if normalized = [] \<or> ss = [] then Some normalized
               else Some (filter (\<lambda>f. f \<in> set ss) normalized)))"

definition planFormats :: "pipeline_env \<Rightarrow> Asset \<Rightarrow> PipelineRequest \<Rightarrow> string list option" where
  "planFormats env a request =
     (let supported = (case pn_engine env of None \<Rightarrow> None | Some e \<Rightarrow> NormalizeImageFormats (ie_SupportedTargetFormats e));
          formats = filterSupportedImageFormats (pr_PreferredFormats request) supported
      in if formats \<noteq> None \<and> formats \<noteq> Some [] then formats
         else (let sourceFormat = ImageFormat (a_MediaType a);
                   defaults = filterSupportedImageFormats (Some (ParsedFormats (pn_image env))) supported;
                   defaults' = (if sourceFormat \<noteq> []
                                then Some ((case defaults of None \<Rightarrow> [] | Some fs \<Rightarrow> fs) @ [sourceFormat]) else defaults)
               in filterSupportedImageFormats defaults' supported))"

definition shouldPlanOriginalFormatVariants :: "string list option \<Rightarrow> string \<Rightarrow> bool" where
  "shouldPlanOriginalFormatVariants formats sourceFormat =
     (case formats of None \<Rightarrow> False | Some fs \<Rightarrow> list_ex (\<lambda>f. f \<noteq> [] \<and> f \<noteq> sourceFormat) fs)"

definition planWidths :: "pipeline_env \<Rightarrow> Asset \<Rightarrow> PipelineRequest \<Rightarrow> string list option \<Rightarrow> int list" where
  "planWidths env a request formats =
     (case pr_PreferredWidths request of
        Some (w # ws) \<Rightarrow> w # ws
      | _ \<Rightarrow>
          (case pr_PreferredFormats request of
             Some (f # fs) \<Rightarrow> [0]
           | _ \<Rightarrow>
               distinct_by id (sort (ParsedWidths (pn_image env) @
                 (if shouldPlanOriginalFormatVariants formats (ImageFormat (a_MediaType a)) then [0] else [])))))"

definition isMatchingImageVariant ::
    "pipeline_env \<Rightarrow> pipeline_state \<Rightarrow> Variant \<Rightarrow> string \<Rightarrow> int \<Rightarrow> string \<Rightarrow> bool" where
  "isMatchingImageVariant env st v sourceHash width format =
     (if v_Width v \<noteq> width then False
      else if format \<noteq> [] \<and> v_Format v \<noteq> format then False
      else if sourceHash \<noteq> [] \<and> v_SourceHash v \<noteq> [] \<and> v_SourceHash v \<noteq> sourceHash then False
      else if v_ArtifactPath v = [] then False
      else artifact_exists env st (v_ArtifactPath v))"

definition shouldCreateImageTask :: "pipeline_env \<Rightarrow> pipeline_state \<Rightarrow> Asset \<Rightarrow> int \<Rightarrow> string \<Rightarrow> bool" where
  "shouldCreateImageTask env st a width format =
     (if width < 0 then False
      else if width = 0 \<and> format = ImageFormat (a_MediaType a) then False
      else (case FindImageVariant (ps_catalog st) (a_Path a) format width of
              None \<Rightarrow> True
            | Some v \<Rightarrow> \<not> isMatchingImageVariant env st v (a_SourceHash a) width format))"

definition planImageVariants ::
    "pipeline_env \<Rightarrow> pipeline_state \<Rightarrow> Asset \<Rightarrow> string list \<Rightarrow> int list \<Rightarrow> ImageVariantTask list" where
  "planImageVariants env st a formats widths =
     concat (map (\<lambda>format. map (\<lambda>width. \<lparr> ivt_Format = format, ivt_Width = width \<rparr>)
                             (filter (\<lambda>width. shouldCreateImageTask env st a width format) widths)) formats)"

definition limitImageVariantTasks :: "ImageVariantTask list \<Rightarrow> int \<Rightarrow> ImageVariantTask list" where
  "limitImageVariantTasks vs limit =
     (if vs = [] \<or> limit \<le> 0 \<or> int (length vs) \<le> limit then vs else take (nat limit) vs)"

definition planTasks :: "pipeline_env \<Rightarrow> pipeline_state \<Rightarrow> Asset \<Rightarrow> string list \<Rightarrow> int list \<Rightarrow> Task list" where
  "planTasks env st a formats widths =
     (let vs = limitImageVariantTasks (planImageVariants env st a formats widths) (ic_MaxOutputVariants (pn_image env))
      in case vs of
           [] \<Rightarrow> []
         | v # _ \<Rightarrow> [\<lparr> tk_AssetPath = a_Path a, tk_Encoding = [], tk_Format = ivt_Format v, tk_Width = ivt_Width v,
                       tk_ImageVariants = Some vs \<rparr>])"

definition image_Plan :: "pipeline_env \<Rightarrow> pipeline_state \<Rightarrow> Asset \<Rightarrow> PipelineRequest \<Rightarrow> Task list" where
  "image_Plan env st a request =
     (if \<not> ic_Enable (pn_image env) \<or> \<not> isResizableImage (pn_engine env) a then []
      else (let formats = planFormats env a request; widths = planWidths env a request formats
            in case formats of
                 None \<Rightarrow> []
               | Some fs \<Rightarrow> if widths = [] \<or> fs = [] then [] else planTasks env st a fs widths))"

section \<open>The image stage: what is written\<close>

definition resolveTargetFormat :: "string \<Rightarrow> int \<Rightarrow> Asset \<Rightarrow> stage_error + string" where
  "resolveTargetFormat format width a =
     (let source = ImageFormat (a_MediaType a); target = (if format = [] then source else format)
      in if width < 0 then Inl ErrVariantSkipped
         else if width = 0 \<and> target = source then Inl ErrVariantSkipped
         else if target = [] then Inl (UnsupportedFormat format)
         else Inr target)"

definition resolveImageVariantTargetFormat :: "ImageVariantTask \<Rightarrow> Asset \<Rightarrow> stage_error + string" where
  "resolveImageVariantTargetFormat v a = resolveTargetFormat (ivt_Format v) (ivt_Width v) a"

definition imageGenerateRequests :: "Task \<Rightarrow> Asset \<Rightarrow> stage_error + imageVariantGenerateRequest list" where
  "imageGenerateRequests task a =
     (case tk_ImageVariants task of
        Some (v # vs) \<Rightarrow>
          Inr (List.map_filter (\<lambda>v. case resolveImageVariantTargetFormat v a of
                 Inl _ \<Rightarrow> None
               | Inr f \<Rightarrow> Some \<lparr> ig_TargetFormat = f, ig_TargetWidth = ivt_Width v \<rparr>) (v # vs))
      | _ \<Rightarrow>
          (case resolveTargetFormat (tk_Format task) (tk_Width task) a of
             Inl e \<Rightarrow> Inl e
           | Inr f \<Rightarrow> Inr [\<lparr> ig_TargetFormat = f, ig_TargetWidth = tk_Width task \<rparr>]))"

definition imageGenerateLimitsFromConfig :: "ImageConfig \<Rightarrow> imageGenerateLimits" where
  "imageGenerateLimitsFromConfig cfg =
     \<lparr> il_MaxSourceBytes = ic_MaxSourceBytes cfg, il_MaxSourcePixels = ic_MaxSourcePixels cfg,
       il_MaxWidth = ic_MaxWidth cfg, il_MaxHeight = ic_MaxHeight cfg, il_MaxMemoryBytes = ic_MaxMemoryBytes cfg \<rparr>"

definition sameSourceImageVariant :: "Asset \<Rightarrow> imageGenerateResult \<Rightarrow> bool" where
  "sameSourceImageVariant a r \<longleftrightarrow> ir_Width r = ir_SourceWidth r \<and> ir_MediaType r = a_MediaType a"

definition imageSavingPolicyEnabled :: "ImageConfig \<Rightarrow> bool" where
  "imageSavingPolicyEnabled cfg \<longleftrightarrow> ic_MinSavingBytes cfg > 0 \<or> f64_lt f64_zero (ic_MinSavingRatio cfg)"

definition belowMinSavingBytes :: "ImageConfig \<Rightarrow> int \<Rightarrow> bool" where
  "belowMinSavingBytes cfg savedBytes \<longleftrightarrow> ic_MinSavingBytes cfg > 0 \<and> savedBytes < ic_MinSavingBytes cfg"

definition f64_quotient :: "int \<Rightarrow> int \<Rightarrow> rat" where
  "f64_quotient a b = f64_of (f64_of (of_int a) / f64_of (of_int b))"

definition belowMinSavingRatio :: "ImageConfig \<Rightarrow> int \<Rightarrow> int \<Rightarrow> bool" where
  "belowMinSavingRatio cfg savedBytes sourceBytes \<longleftrightarrow>
     f64_lt f64_zero (ic_MinSavingRatio cfg) \<and> f64_lt (Fin (f64_quotient savedBytes sourceBytes)) (ic_MinSavingRatio cfg)"

definition shouldSkipImageArtifactBySavings :: "ImageConfig \<Rightarrow> Asset \<Rightarrow> imageGenerateResult \<Rightarrow> int \<Rightarrow> bool" where
  "shouldSkipImageArtifactBySavings cfg a r sourceBytes =
     (let savedBytes = sourceBytes - int (length (ir_Payload r))
      in if savedBytes \<le> 0 then sameSourceImageVariant a r \<or> imageSavingPolicyEnabled cfg
         else if belowMinSavingBytes cfg savedBytes then True
         else if belowMinSavingRatio cfg savedBytes sourceBytes then True
         else False)"

definition shouldSkipImageArtifact :: "ImageConfig \<Rightarrow> Asset \<Rightarrow> imageGenerateResult \<Rightarrow> bool" where
  "shouldSkipImageArtifact cfg a r =
     (let sourceBytes = (if ir_SourceBytes r > 0 then ir_SourceBytes r else a_Size a)
      in if sourceBytes \<le> 0 \<or> ir_Payload r = [] then False
         else shouldSkipImageArtifactBySavings cfg a r sourceBytes)"

definition imageVariantSuffix :: "int \<Rightarrow> string \<Rightarrow> string \<Rightarrow> string" where
  "imageVariantSuffix width format ext =
     (let parts = (if width > 0 then [''w'' @ itoa width] else []) @ (if format \<noteq> [] then [''f'' @ format] else [])
      in if parts = [] then ext else ''.'' @ join_with ''.'' parts @ ext)"

definition imageVariantID :: "string \<Rightarrow> int \<Rightarrow> string \<Rightarrow> string" where
  "imageVariantID assetPath width format =
     join_with ''|'' ([assetPath] @ (if width > 0 then [''width='' @ itoa width] else []) @
       (if format \<noteq> [] then [''format='' @ format] else []))"

definition imageVariantETag :: "string \<Rightarrow> int \<Rightarrow> string \<Rightarrow> string" where
  "imageVariantETag sourceHash width format =
     [CHR 0x22] @ join_with ''-'' ([sourceHash] @ (if width > 0 then [''w'' @ itoa width] else []) @
       (if format \<noteq> [] then [format] else [])) @ [CHR 0x22]"

definition savingRatio :: "int \<Rightarrow> int \<Rightarrow> rat" where
  "savingRatio sourceBytes outputBytes =
     (if sourceBytes \<le> 0 \<or> outputBytes \<ge> sourceBytes then 0 else f64_quotient (sourceBytes - outputBytes) sourceBytes)"

text \<open>\<open>fmt.Sprintf("%.6f", r)\<close> of a non-negative number.\<close>

definition format_6f :: "rat \<Rightarrow> string" where
  "format_6f r = (let n = round_half_even (r * 1000000) in itoa (n div 1000000) @ ''.'' @ pad 6 (n mod 1000000))"

definition imageVariantMetadata :: "string \<Rightarrow> imageGenerateResult \<Rightarrow> metadata" where
  "imageVariantMetadata engine r =
     (let outputBytes = int (length (ir_Payload r))
      in [''stage'' \<mapsto> ''image'', ''backend'' \<mapsto> engine, ''source_bytes'' \<mapsto> itoa (ir_SourceBytes r),
          ''source_pixels'' \<mapsto> itoa (wrap64 (ir_SourceWidth r * ir_SourceHeight r)),
          ''source_width'' \<mapsto> itoa (ir_SourceWidth r), ''source_height'' \<mapsto> itoa (ir_SourceHeight r),
          ''output_bytes'' \<mapsto> itoa outputBytes, ''output_width'' \<mapsto> itoa (ir_Width r),
          ''output_height'' \<mapsto> itoa (ir_Height r),
          ''saved_bytes'' \<mapsto> itoa (max (ir_SourceBytes r - outputBytes) 0),
          ''saving_ratio'' \<mapsto> format_6f (savingRatio (ir_SourceBytes r) outputBytes),
          ''image_engine'' \<mapsto> engine, ''target_format'' \<mapsto> ir_TargetFormat r])"

definition writeImageVariant ::
    "pipeline_env \<Rightarrow> string \<Rightarrow> pipeline_state \<Rightarrow> Asset \<Rightarrow> imageGenerateResult \<Rightarrow>
     (stage_error + Variant) \<times> pipeline_state" where
  "writeImageVariant env engine st a r =
     (case PathFor (pn_store env) (a_Path a) (a_SourceHash a) ''image''
             (imageVariantSuffix (ir_Width r) (ir_TargetFormat r) (ir_Extension r)) of
        Inl e \<Rightarrow> (Inl (ArtifactFailed e), st)
      | Inr targetPath \<Rightarrow>
          (case store_write env st targetPath (ir_Payload r) of
             (Some e, st') \<Rightarrow> (Inl (ArtifactFailed e), st')
           | (None, st') \<Rightarrow>
               (Inr \<lparr> v_ID = imageVariantID (a_Path a) (ir_Width r) (ir_TargetFormat r), v_AssetPath = a_Path a,
                      v_ArtifactPath = targetPath, v_Size = int (length (ir_Payload r)), v_MediaType = ir_MediaType r,
                      v_SourceHash = a_SourceHash a,
                      v_ETag = imageVariantETag (a_SourceHash a) (ir_Width r) (ir_TargetFormat r),
                      v_Encoding = [], v_Format = ir_TargetFormat r, v_Width = ir_Width r,
                      v_Metadata = MetadataWithModTime (imageVariantMetadata engine r) (pn_now env (ps_tick st')) \<rparr>,
                tick st')))"

fun write_results ::
    "pipeline_env \<Rightarrow> string \<Rightarrow> pipeline_state \<Rightarrow> Asset \<Rightarrow> imageGenerateResult list \<Rightarrow>
     (stage_error + Variant list) \<times> pipeline_state" where
  "write_results env engine st a [] = (Inr [], st)"
| "write_results env engine st a (r # rs) =
     (if ir_Width r \<le> 0 \<or> shouldSkipImageArtifact (pn_image env) a r then write_results env engine st a rs
      else (case writeImageVariant env engine st a r of
              (Inl e, st') \<Rightarrow> (Inl e, st')
            | (Inr v, st') \<Rightarrow>
                (case write_results env engine st' a rs of
                   (Inl e, st'') \<Rightarrow> (Inl e, st'') | (Inr vs, st'') \<Rightarrow> (Inr (v # vs), st''))))"

definition writeImageVariants ::
    "pipeline_env \<Rightarrow> string \<Rightarrow> pipeline_state \<Rightarrow> Asset \<Rightarrow> imageGenerateResult list \<Rightarrow>
     (stage_error + Variant list) \<times> pipeline_state" where
  "writeImageVariants env engine st a rs =
     (case write_results env engine st a rs of
        (Inl e, st') \<Rightarrow> (Inl e, st')
      | (Inr vs, st') \<Rightarrow> if vs = [] then (Inl ErrVariantSkipped, st') else (Inr vs, st'))"

definition ExecuteBatch ::
    "pipeline_env \<Rightarrow> pipeline_state \<Rightarrow> Task \<Rightarrow> Asset \<Rightarrow> (stage_error + Variant list) \<times> pipeline_state" where
  "ExecuteBatch env st task a =
     (if \<not> pn_live env (ps_tick st) then (Inl ContextDone, st)
      else
        (case imageGenerateRequests task a of
           Inl e \<Rightarrow> (Inl e, st)
         | Inr requests \<Rightarrow>
             if requests = [] then (Inl ErrVariantSkipped, st)
             else
               (case (pn_read env (a_FullPath a), pn_engine env) of
                  (None, _) \<Rightarrow> (Inl SourceUnreadable, st)
                | (Some source, None) \<Rightarrow> (Inl EngineFailed, st)
                | (Some source, Some engine) \<Rightarrow>
                    (case ie_GenerateBatch engine
                        \<lparr> ib_SourcePath = a_FullPath a, ib_SourceBytes = int (length source),
                          ib_SourceMediaType = a_MediaType a, ib_Variants = requests,
                          ib_JPEGQuality = ic_JPEGQuality (pn_image env),
                          ib_Limits = imageGenerateLimitsFromConfig (pn_image env) \<rparr> of
                       Inl e \<Rightarrow> (Inl e, st)
                     | Inr results \<Rightarrow> writeImageVariants env (ie_Name engine) st a results))))"

section \<open>Processing a request\<close>

record Stage =
  sg_Name :: string
  sg_Plan :: "pipeline_state \<Rightarrow> Asset \<Rightarrow> PipelineRequest \<Rightarrow> Task list"
  sg_Execute :: "pipeline_state \<Rightarrow> Task \<Rightarrow> Asset \<Rightarrow> (stage_error + Variant list) \<times> pipeline_state"

definition compressionStage :: "pipeline_env \<Rightarrow> Stage" where
  "compressionStage env =
     \<lparr> sg_Name = ''compression'', sg_Plan = compression_Plan env,
       sg_Execute = (\<lambda>st task a. case compression_Execute env st task a of
                                   (Inl e, st') \<Rightarrow> (Inl e, st') | (Inr v, st') \<Rightarrow> (Inr [v], st')) \<rparr>"

definition imageStage :: "pipeline_env \<Rightarrow> Stage" where
  "imageStage env = \<lparr> sg_Name = ''image'', sg_Plan = image_Plan env, sg_Execute = ExecuteBatch env \<rparr>"

text \<open>The registrations are sorted by order and name; an absent stage sorts last and is dropped.\<close>

definition stage_before :: "int \<times> Stage option \<Rightarrow> int \<times> Stage option \<Rightarrow> bool" where
  "stage_before l r =
     (if fst l \<noteq> fst r then fst l < fst r
      else (case (snd l, snd r) of
              (None, _) \<Rightarrow> False | (Some _, None) \<Rightarrow> True | (Some a, Some b) \<Rightarrow> sg_Name a < sg_Name b))"

definition buildStages :: "(int \<times> Stage option) list \<Rightarrow> Stage list" where
  "buildStages registrations = List.map_filter snd (sort_func stage_before registrations)"

definition executeStageTaskBatch ::
    "Stage \<Rightarrow> pipeline_state \<Rightarrow> Asset \<Rightarrow> Task \<Rightarrow> (stage_error + Variant list) \<times> pipeline_state" where
  "executeStageTaskBatch sg st a task =
     (case sg_Execute sg st task a of
        (Inl e, st') \<Rightarrow> (if e = ErrVariantSkipped then (Inr [], st') else (Inl e, st'))
      | (Inr vs, st') \<Rightarrow> (Inr vs, st'))"

definition publishVariantGenerated :: "pipeline_state \<Rightarrow> string \<Rightarrow> Variant \<Rightarrow> pipeline_state" where
  "publishVariantGenerated st name v =
     (if trim_space (v_ArtifactPath v) = [] then st
      else st\<lparr>ps_generated := ps_generated st @ [(v_AssetPath v, v_ArtifactPath v, trim_space name, v_Size v)]\<rparr>)"

definition upsertStageVariant ::
    "pipeline_env \<Rightarrow> Stage \<Rightarrow> pipeline_state \<Rightarrow> Variant \<Rightarrow> stage_error option \<times> pipeline_state" where
  "upsertStageVariant env sg st v =
     (case UpsertVariant (pn_stat env) (ps_catalog st) (Some v) of
        Inl e \<Rightarrow> (Some (CatalogFailed e), st)
      | Inr c \<Rightarrow> (None, publishVariantGenerated (st\<lparr>ps_catalog := c\<rparr>) (sg_Name sg) v))"

fun upsert_variants ::
    "pipeline_env \<Rightarrow> Stage \<Rightarrow> pipeline_state \<Rightarrow> Variant list \<Rightarrow> stage_error option \<times> pipeline_state" where
  "upsert_variants env sg st [] = (None, st)"
| "upsert_variants env sg st (v # vs) =
     (case upsertStageVariant env sg st v of
        (Some e, st') \<Rightarrow> (Some e, st') | (None, st') \<Rightarrow> upsert_variants env sg st' vs)"

fun run_tasks ::
    "pipeline_env \<Rightarrow> Stage \<Rightarrow> Asset \<Rightarrow> pipeline_state \<Rightarrow> Task list \<Rightarrow> stage_error option \<times> pipeline_state" where
  "run_tasks env sg a st [] = (None, st)"
| "run_tasks env sg a st (t # ts) =
     (case executeStageTaskBatch sg st a t of
        (Inl e, st1) \<Rightarrow> (Some e, st1)
      | (Inr vs, st1) \<Rightarrow>
          (case upsert_variants env sg st1 vs of
             (Some e, st2) \<Rightarrow> (Some e, st2) | (None, st2) \<Rightarrow> run_tasks env sg a st2 ts))"

fun run_stages ::
    "pipeline_env \<Rightarrow> Asset \<Rightarrow> PipelineRequest \<Rightarrow> pipeline_state \<Rightarrow> Stage list \<Rightarrow> stage_error option \<times> pipeline_state" where
  "run_stages env a request st [] = (None, st)"
| "run_stages env a request st (sg # sgs) =
     (case run_tasks env sg a st (sg_Plan sg st a request) of
        (Some e, st') \<Rightarrow> (Some e, st') | (None, st') \<Rightarrow> run_stages env a request st' sgs)"

definition process ::
    "pipeline_env \<Rightarrow> Stage list \<Rightarrow> pipeline_state \<Rightarrow> PipelineRequest \<Rightarrow> stage_error option \<times> pipeline_state" where
  "process env stages st request =
     (case FindAsset (ps_catalog st) (pr_AssetPath request) of
        None \<Rightarrow> (None, st)
      | Some a \<Rightarrow>
          if \<not> pn_live env (ps_tick st) then (Some ContextDone, st)
          else run_stages env a request st stages)"

section \<open>What a write keeps\<close>

text \<open>The cache directory has no symbolic links, and the store never makes one.  The name of a temporary file ends
  with a digit, that of an artifact does not.\<close>

definition no_links :: "fs \<Rightarrow> bool" where
  "no_links t \<longleftrightarrow> (\<forall>q l. t q \<noteq> Some (NLink l))"

definition artifact_name :: "string \<Rightarrow> bool" where
  "artifact_name q \<longleftrightarrow> q \<noteq> [] \<and> digit_val (last q) = None"

lemma tmp_path_not_artifact: "\<not> artifact_name (tmp_path rel now)"
proof -
  have "digit_val (last (digits_of k)) \<noteq> None" for k
    using digits_of_chars [of "last (digits_of k)" k] by simp
  then have "digit_val (last (itoa n)) \<noteq> None" for n by (simp add: itoa_def)
  then show ?thesis by (simp add: artifact_name_def tmp_path_def)
qed

text \<open>The artifacts other than \<open>rel\<close> are kept, and there is a file at \<open>rel\<close> afterwards if there was one.\<close>

definition artifacts_kept :: "string \<Rightarrow> fs \<Rightarrow> fs \<Rightarrow> bool" where
  "artifacts_kept rel t t' \<longleftrightarrow>
     (\<forall>q d. artifact_name q \<longrightarrow> t q = Some (NFile d) \<longrightarrow>
        (if q = rel then \<exists>d'. t' q = Some (NFile d') else t' q = Some (NFile d)))"

lemma new_dirs_keep:
  assumes "only_new_dirs t t1 A"
  shows "no_links t \<Longrightarrow> no_links t1" and "t q = Some (NFile d) \<Longrightarrow> t1 q = Some (NFile d)"
  using assms unfolding only_new_dirs_def no_links_def by (metis fs_node.distinct(3) option.inject, metis option.distinct(1))

lemma write_artifact_keeps:
  assumes links: "no_links t1" and art: "\<And>q d. artifact_name q \<Longrightarrow> t q = Some (NFile d) \<Longrightarrow> t1 q = Some (NFile d)"
    and "os_write fault t1 tmp data = (ok, t2)" "\<not> artifact_name tmp"
  shows "no_links t2 \<and> (\<forall>q d. artifact_name q \<longrightarrow> t q = Some (NFile d) \<longrightarrow> t2 q = Some (NFile d)) \<and>
    (ok \<longrightarrow> t2 tmp = Some (NFile data))"
proof -
  have "write_target t1 tmp = tmp"
    using links by (auto simp: write_target_def no_links_def split: option.splits fs_node.splits)
  with assms show ?thesis
    by (auto simp: os_write_def no_links_def split: option.splits fs_fault.splits if_splits)
qed

lemma Write_frame:
  assumes "path_is_abs cwd" and "newLocalStore cwd view0 root0 = Inr s" and links: "no_links t"
    and w: "Write s cwd view fault now t p data = (e, t')"
  shows "no_links t' \<and>
    (case relativePath s cwd p of
       Inl _ \<Rightarrow> e \<noteq> None \<and> t' = t
     | Inr rel \<Rightarrow> artifacts_kept rel t t' \<and> (e = None \<longrightarrow> t' rel = Some (NFile data)))"
proof (cases "relativePath s cwd p")
  case (Inl err)
  with w links show ?thesis by (auto simp: Write_def)
next
  case (Inr rel)
  have refl: "artifacts_kept rel t t" by (auto simp: artifacts_kept_def)
  show ?thesis
  proof (cases "openValidatedRoot s view")
    case (Some err)
    with w Inr links refl show ?thesis by (auto simp: Write_def)
  next
    case None
    define tmp where "tmp = tmp_path rel now"
    have na: "\<not> artifact_name tmp" by (simp add: tmp_def tmp_path_not_artifact)
    have wa: "write_artifact fault now t rel data = (e, t')" using w Inr None by (simp add: Write_def)
    obtain rs where "rooted_at s rs" using newLocalStore_rooted [OF assms(1,2)] by blast
    from relativePath_proper [OF this assms(1) Inr] obtain zs where zs: "zs \<noteq> []" "proper zs" "rel = join_with ''/'' zs"
      by blast
    obtain xs x where xs: "zs = xs @ [x]" using zs(1) by (metis append_butlast_last_id)
    obtain e1 t1 where en: "ensureArtifactParent fault t (path_dir rel) = (e1, t1)"
      by (cases "ensureArtifactParent fault t (path_dir rel)")
    have nd: "only_new_dirs t t1 (parents [] xs)"
      using ensureArtifactParent_spec [of xs x fault t e1 t1] en zs by (simp add: xs)
    note l1 = new_dirs_keep(1) [OF nd links] and k1 = new_dirs_keep(2) [OF nd]
    have kept1: "artifacts_kept rel t t1" using k1 by (auto simp: artifacts_kept_def)
    obtain ok t2 where os: "os_write fault t1 tmp data = (ok, t2)" by fastforce
    note k2 = write_artifact_keeps [OF l1 k1 os na]
    have kept2: "artifacts_kept rel t t2" using k2 by (auto simp: artifacts_kept_def)
    have removed: "no_links (g(tmp := None)) \<and> artifacts_kept rel t (g(tmp := None))"
      if "no_links g" "artifacts_kept rel t g" for g
      using that na by (auto simp: no_links_def artifacts_kept_def)
    have renamed: "no_links (t2(tmp := None, rel \<mapsto> NFile data)) \<and>
        artifacts_kept rel t (t2(tmp := None, rel \<mapsto> NFile data))"
      using k2 na by (auto simp: no_links_def artifacts_kept_def)
    show ?thesis
    proof (cases "e1 = None \<and> rejectExistingArtifactSymlink fault t1 rel = None \<and> ok")
      case False
      then consider (dir) err where "e1 = Some err" | (link) err where "e1 = None"
          "rejectExistingArtifactSymlink fault t1 rel = Some err"
        | (tmp) "e1 = None" "rejectExistingArtifactSymlink fault t1 rel = None" "\<not> ok"
        by (cases e1; cases "rejectExistingArtifactSymlink fault t1 rel") auto
      then have "\<exists>err t3. write_artifact fault now t rel data = (Some err, t3) \<and> (t3 = t1 \<or> t3 = t2)"
        by cases (use en os in \<open>simp_all add: write_artifact_def flip: tmp_def\<close>)
      then have "(t' = t1 \<or> t' = t2) \<and> e \<noteq> None" using wa by auto
      with Inr l1 k2 kept1 kept2 show ?thesis by auto
    next
      case True
      show ?thesis
        using wa en os True k2 Inr kept2 removed [of t2] renamed
        by (auto simp: write_artifact_def tmp_def [symmetric] os_rename_def os_remove_def
            split: option.splits if_splits bool.splits)
    qed
  qed
qed

section \<open>The contract of a stage\<close>

text \<open>What the environment of the stages is assumed to be: a store on an absolute root, and suffixes of
  artifacts that do not end with a digit, as those of the built-in codings and of image files.\<close>

definition suffix_ok :: "string \<Rightarrow> bool" where
  "suffix_ok sfx \<longleftrightarrow> artifact_name sfx \<and> graphic (last sfx)"

definition store_env :: "pipeline_env \<Rightarrow> bool" where
  "store_env env \<longleftrightarrow>
     path_is_abs (pn_cwd env) \<and> (\<exists>view root. newLocalStore (pn_cwd env) view root = Inr (pn_store env)) \<and>
     (\<forall>s\<in>ran (rg_strategies (pn_registry env)). suffix_ok (sy_Suffix s)) \<and>
     (\<forall>engine request rs r. pn_engine env = Some engine \<longrightarrow> ie_GenerateBatch engine request = Inr rs \<longrightarrow>
        r \<in> set rs \<longrightarrow> suffix_ok (ir_Extension r))"

text \<open>The artifact of a variant is in the store, with the size the variant has.\<close>

definition written :: "pipeline_env \<Rightarrow> pipeline_state \<Rightarrow> Variant \<Rightarrow> bool" where
  "written env st v \<longleftrightarrow>
     (\<exists>rel d. relativePath (pn_store env) (pn_cwd env) (v_ArtifactPath v) = Inr rel \<and> artifact_name rel \<and>
        ps_fs st rel = Some (NFile d))"

definition written_exactly :: "pipeline_env \<Rightarrow> pipeline_state \<Rightarrow> Variant \<Rightarrow> bytes \<Rightarrow> bool" where
  "written_exactly env st v d \<longleftrightarrow>
     (\<exists>rel. relativePath (pn_store env) (pn_cwd env) (v_ArtifactPath v) = Inr rel \<and> artifact_name rel \<and>
        ps_fs st rel = Some (NFile d)) \<and> v_Size v = int (length d)"

definition artifacts_present :: "pipeline_state \<Rightarrow> pipeline_state \<Rightarrow> bool" where
  "artifacts_present st st' \<longleftrightarrow>
     (\<forall>q d. artifact_name q \<longrightarrow> ps_fs st q = Some (NFile d) \<longrightarrow> (\<exists>d'. ps_fs st' q = Some (NFile d')))"

lemma artifacts_present_refl: "artifacts_present st st"
  by (auto simp: artifacts_present_def)

lemma artifacts_present_trans: "artifacts_present st st' \<Longrightarrow> artifacts_present st' st'' \<Longrightarrow> artifacts_present st st''"
  unfolding artifacts_present_def by blast

lemma artifacts_kept_present: "artifacts_kept rel t t' \<Longrightarrow> ps_fs st = t \<Longrightarrow> ps_fs st' = t' \<Longrightarrow> artifacts_present st st'"
  unfolding artifacts_kept_def artifacts_present_def by (metis (full_types))

lemma written_present: "written env st v \<Longrightarrow> artifacts_present st st' \<Longrightarrow> written env st' v"
  unfolding written_def artifacts_present_def by blast

lemma written_same: "ps_fs st' = ps_fs st \<Longrightarrow> written env st' v = written env st v"
  by (simp add: written_def)

lemma written_exactly_written: "written_exactly env st v d \<Longrightarrow> written env st v"
  by (auto simp: written_exactly_def written_def)

text \<open>A stage writes artifacts and leaves the catalog to the service; what it returns has been written.\<close>

locale publishing_stage =
  fixes stage :: "pipeline_env \<Rightarrow> Stage"
  assumes keeps: "store_env env \<Longrightarrow> no_links (ps_fs st) \<Longrightarrow> sg_Execute (stage env) st task a = (res, st') \<Longrightarrow>
      ps_catalog st' = ps_catalog st \<and> no_links (ps_fs st') \<and> artifacts_present st st'"
    and writes: "store_env env \<Longrightarrow> no_links (ps_fs st) \<Longrightarrow> sg_Execute (stage env) st task a = (Inr vs, st') \<Longrightarrow>
      v \<in> set vs \<Longrightarrow> v_AssetPath v = a_Path a \<and> written env st' v"

lemma store_write_frame:
  assumes env: "store_env env" and links: "no_links (ps_fs st)" and w: "store_write env st p data = (e, st')"
  shows "ps_catalog st' = ps_catalog st \<and> no_links (ps_fs st') \<and> artifacts_present st st' \<and>
    (e = None \<longrightarrow> (\<exists>rel. relativePath (pn_store env) (pn_cwd env) p = Inr rel \<and> artifacts_kept rel (ps_fs st) (ps_fs st') \<and>
       ps_fs st' rel = Some (NFile data)))"
proof -
  obtain t' where t': "Write (pn_store env) (pn_cwd env) (pn_view env (ps_tick st)) (pn_faults env (ps_tick st))
      (pn_now env (ps_tick st)) (ps_fs st) p data = (e, t')" "st' = tick (st\<lparr>ps_fs := t'\<rparr>)"
    using w by (auto simp: store_write_def Let_def split: prod.splits)
  obtain view root where s: "path_is_abs (pn_cwd env)" "newLocalStore (pn_cwd env) view root = Inr (pn_store env)"
    using env by (auto simp: store_env_def)
  note frame = Write_frame [OF s links t'(1)]
  have "artifacts_present st st'"
  proof (cases "relativePath (pn_store env) (pn_cwd env) p")
    case (Inl err)
    with frame show ?thesis by (simp add: t'(2) tick_def artifacts_present_def)
  next
    case (Inr rel)
    with frame have "artifacts_kept rel (ps_fs st) t'" by simp
    then show ?thesis by (rule artifacts_kept_present) (simp_all add: t'(2) tick_def)
  qed
  with frame t'(2) show ?thesis
    by (auto simp: tick_def split: sum.splits)
qed

text \<open>The relative path the store finds for a path it has handed out ends with the suffix.\<close>

lemma path_join_abs_ends:
  assumes "rooted_at s rs" "proper xs" "xs \<noteq> []" "join_with ''/'' xs = z @ sfx" "sfx \<noteq> []"
  shows "hd (path_join [ls_root s, join_with ''/'' xs]) = CHR ''/'' \<and>
    last (path_join [ls_root s, join_with ''/'' xs]) = last sfx"
proof -
  have "path_join [ls_root s, join_with ''/'' xs] = CHR ''/'' # join_with ''/'' (rs @ xs)"
    using assms(1-3) path_join_rooted [OF _ assms(3,2), of rs] by (simp add: rooted_at_def)
  moreover have "join_with ''/'' (rs @ xs) =
      (if rs = [] then join_with ''/'' xs else join_with ''/'' rs @ ''/'' @ join_with ''/'' xs)"
    using join_append [of rs xs] assms(3) by simp
  ultimately show ?thesis using assms(4,5) by simp
qed

lemma artifactRelativePath_ends:
  assumes "artifactRelativePath assetPath sourceHash ns sfx = Inr rel"
  shows "\<exists>z. rel = z @ sfx"
proof -
  obtain clean where clean: "cleanArtifactAssetPath assetPath = Inr clean"
    and n: "cleanArtifactSegment ns = Inr (trim_space ns)" "proper [trim_space ns]"
    and h: "cleanArtifactSegment sourceHash = Inr (trim_space sourceHash)" "proper [trim_space sourceHash]"
    and sfx: "validateArtifactSuffix sfx = None"
    and rel: "rel = path_join [trim_space ns, trim_space sourceHash, clean @ sfx]"
    using assms by (auto simp: artifactRelativePath_def dest!: cleanArtifactSegment_proper
        split: sum.splits option.splits)
  obtain xs where xs: "xs \<noteq> []" "proper xs" "clean = join_with ''/'' xs"
    using cleanArtifactAssetPath_proper [OF clean] by blast
  obtain a l where al: "xs = a @ [l]" using xs(1) by (metis append_butlast_last_id)
  have "HasUnsafePortablePathSegment []" by code_simp
  then have sfx_ne: "sfx \<noteq> []" "CHR ''/'' \<notin> set sfx"
    using sfx by (auto simp: validateArtifactSuffix_def split: if_splits)
  have "is_canonical (l @ sfx)"
    using xs(2) sfx_ne by (cases l; cases "tl l"; cases sfx) (auto simp: al is_canonical_def)
  then have ys: "proper (a @ [l @ sfx])" using xs(2) sfx_ne by (auto simp: al)
  have clean_sfx: "clean @ sfx = join_with ''/'' (a @ [l @ sfx])" by (simp add: xs(3) al join_last)
  have ne: "trim_space ns \<noteq> []" "trim_space sourceHash \<noteq> []" "clean @ sfx \<noteq> []"
    using n h sfx_ne by (auto simp: is_canonical_def)
  have "join_with ''/'' [trim_space ns, trim_space sourceHash, clean @ sfx] =
      join_with ''/'' (trim_space ns # trim_space sourceHash # a @ [l @ sfx])"
    unfolding clean_sfx by (cases "a @ [l @ sfx]") auto
  then have "rel = path_clean (join_with ''/'' (trim_space ns # trim_space sourceHash # a @ [l @ sfx]))"
    using ne by (simp add: rel path_join_def)
  also have "\<dots> = join_with ''/'' (trim_space ns # trim_space sourceHash # a @ [l @ sfx])"
    using n h ys by (intro path_clean_proper) auto
  also have "\<dots> = (trim_space ns @ ''/'' @ trim_space sourceHash @ ''/'' @ clean) @ sfx"
    unfolding append_assoc clean_sfx by (cases "a @ [l @ sfx]") auto
  finally show ?thesis by blast
qed

lemma store_root:
  assumes "store_env env"
  obtains view root where "path_is_abs (pn_cwd env)" "newLocalStore (pn_cwd env) view root = Inr (pn_store env)"
  using assms by (auto simp: store_env_def)

lemma PathFor_back:
  assumes env: "store_env env" and p: "PathFor (pn_store env) assetPath sourceHash ns sfx = Inr p" and sfx: "suffix_ok sfx"
    and found: "relativePath (pn_store env) (pn_cwd env) p = Inr rel"
  shows "artifactRelativePath assetPath sourceHash ns sfx = Inr rel \<and> artifact_name rel"
proof -
  obtain view root where s: "path_is_abs (pn_cwd env)" "newLocalStore (pn_cwd env) view root = Inr (pn_store env)"
    using env by (rule store_root)
  obtain rel' where rel': "artifactRelativePath assetPath sourceHash ns sfx = Inr rel'"
    "p = path_join [ls_root (pn_store env), rel']" using p by (auto simp: PathFor_def split: sum.splits)
  obtain z where z: "rel' = z @ sfx" using artifactRelativePath_ends [OF rel'(1)] by blast
  obtain rs where rs: "rooted_at (pn_store env) rs" using newLocalStore_rooted [OF s] by blast
  obtain xs where xs: "xs \<noteq> []" "proper xs" "rel' = join_with ''/'' xs"
    using artifactRelativePath_proper [OF rel'(1)] by blast
  have ne: "sfx \<noteq> []" using sfx by (simp add: suffix_ok_def artifact_name_def)
  have ends: "hd p = CHR ''/'' \<and> last p = last sfx"
    using path_join_abs_ends [OF rs xs(2,1), of z sfx] xs(3) z ne rel'(2) by simp
  moreover have "p \<noteq> []"
    using path_join_rooted [OF _ xs(1,2), of rs] rs xs(3) rel'(2) by (simp add: rooted_at_def)
  ultimately have "is_trimmed p"
    using sfx by (intro is_trimmed_graphic) (simp_all add: suffix_ok_def graphic_def)
  from PathFor_relativePath_roundtrip [OF s p this rel'(1)] found have "rel = rel'" by (auto split: if_splits)
  then show ?thesis using rel'(1) z ne sfx by (simp add: suffix_ok_def artifact_name_def)
qed

lemma store_write_done:
  assumes "store_env env" "no_links (ps_fs st)" "PathFor (pn_store env) assetPath sourceHash ns sfx = Inr p"
    "suffix_ok sfx" "store_write env st p data = (None, st')"
  shows "\<exists>rel. artifactRelativePath assetPath sourceHash ns sfx = Inr rel \<and> artifact_name rel \<and>
    relativePath (pn_store env) (pn_cwd env) p = Inr rel \<and> artifacts_kept rel (ps_fs st) (ps_fs st') \<and>
    ps_fs st' rel = Some (NFile data)"
  using store_write_frame [OF assms(1,2,5)] PathFor_back [OF assms(1,3,4)] by auto

section \<open>The two stages keep the contract\<close>

lemma tick_simps [simp]: "ps_fs (tick st) = ps_fs st" "ps_catalog (tick st) = ps_catalog st"
  "ps_generated (tick st) = ps_generated st"
  by (simp_all add: tick_def)

text \<open>What an execution of the compression stage does.\<close>

definition compressed_variant :: "Asset \<Rightarrow> string \<Rightarrow> string \<Rightarrow> string \<Rightarrow> bytes \<Rightarrow> Variant \<Rightarrow> bool" where
  "compressed_variant a encoding sfx p data v \<longleftrightarrow>
     v_ID v = a_Path a @ sfx \<and> v_AssetPath v = a_Path a \<and> v_ArtifactPath v = p \<and> v_Size v = int (length data) \<and>
     v_MediaType v = a_MediaType a \<and> v_SourceHash v = a_SourceHash a \<and> v_Encoding v = encoding \<and>
     v_Format v = [] \<and> v_Width v = 0"

lemma compression_Execute_cases:
  assumes "compression_Execute env st task a = (res, st')"
  obtains (failed) e where "res = Inl e" "st' = st"
  | (unwritten) p data err where "store_write env st p data = (Some err, st')" "res = Inl (ArtifactFailed err)"
  | (generated) raw data sfx p st1 v where "pn_read env (a_FullPath a) = Some raw"
      "compress (pn_registry env) raw (tk_Encoding task) = Inr (data, sfx)"
      "PathFor (pn_store env) (a_Path a) (a_SourceHash a) ''encoding'' sfx = Inr p"
      "store_write env st p data = (None, st1)" "st' = tick st1" "res = Inr v"
      "compressed_variant a (tk_Encoding task) sfx p data v" "cc_MinSize (pn_comp env) \<le> int (length raw)"
      "length data < length raw"
proof (cases "\<exists>e. res = Inl e \<and> st' = st")
  case True
  then show thesis using failed by blast
next
  case False
  with assms obtain raw where raw: "a_SourceHash a \<noteq> []" "pn_live env (ps_tick st)" "pn_read env (a_FullPath a) = Some raw"
    "\<not> int (length raw) < cc_MinSize (pn_comp env)"
    by (auto simp: compression_Execute_def split: if_splits option.splits)
  note ex = assms [unfolded compression_Execute_def, simplified raw if_False if_True not_True_eq_False option.case]
  from False ex obtain data sfx where data: "compress (pn_registry env) raw (tk_Encoding task) = Inr (data, sfx)"
    "\<not> length raw \<le> length data"
    by (cases "compress (pn_registry env) raw (tk_Encoding task)") (auto split: if_splits)
  from False ex data obtain p where p: "PathFor (pn_store env) (a_Path a) (a_SourceHash a) ''encoding'' sfx = Inr p"
    by (cases "PathFor (pn_store env) (a_Path a) (a_SourceHash a) ''encoding'' sfx") auto
  obtain err st1 where w: "store_write env st p data = (err, st1)" by fastforce
  show thesis
  proof (cases err)
    case (Some x)
    with ex data p w have "res = Inl (ArtifactFailed x)" "st1 = st'" by simp_all
    with unwritten w Some show thesis by blast
  next
    case None
    with ex data p w have "st' = tick st1" "\<exists>v. res = Inr v \<and> compressed_variant a (tk_Encoding task) sfx p data v"
      by (simp_all add: compressed_variant_def) auto
    with generated raw data p w None show thesis by auto
  qed
qed

lemma compress_suffix:
  assumes "store_env env" "compress (pn_registry env) raw e = Inr (data, sfx)"
  shows "suffix_ok sfx"
  using assms by (auto simp: compress_def Lookup_def store_env_def ran_def split: option.splits)

interpretation compression: publishing_stage compressionStage
proof
  fix env st task a res st'
  assume env: "store_env env" and links: "no_links (ps_fs st)"
    and run: "sg_Execute (compressionStage env) st task a = (res, st')"
  obtain res1 where ex: "compression_Execute env st task a = (res1, st')"
    using run by (cases "compression_Execute env st task a") (auto simp: compressionStage_def split: sum.splits)
  then show "ps_catalog st' = ps_catalog st \<and> no_links (ps_fs st') \<and> artifacts_present st st'"
  proof (cases rule: compression_Execute_cases)
    case failed
    with links show ?thesis by (simp add: artifacts_present_refl)
  next
    case unwritten
    with store_write_frame [OF env links unwritten(1)] show ?thesis by simp
  next
    case generated
    with store_write_frame [OF env links generated(4)] show ?thesis by (simp add: artifacts_present_def)
  qed
next
  fix env st task a vs st' v
  assume env: "store_env env" and links: "no_links (ps_fs st)" and v: "v \<in> set vs"
    and run: "sg_Execute (compressionStage env) st task a = (Inr vs, st')"
  have ex: "compression_Execute env st task a = (Inr v, st')"
    using run v by (cases "compression_Execute env st task a") (auto simp: compressionStage_def split: sum.splits)
  then show "v_AssetPath v = a_Path a \<and> written env st' v"
  proof (cases rule: compression_Execute_cases)
    case (generated raw data sfx p st1 w)
    from store_write_done [OF env links generated(3) compress_suffix [OF env generated(2)] generated(4)]
      generated(5-7) show ?thesis by (auto simp: written_def compressed_variant_def)
  qed simp_all
qed

lemma writeImageVariant_frame:
  assumes env: "store_env env" and links: "no_links (ps_fs st)" and w: "writeImageVariant env nm st a r = (res, st')"
  shows "ps_catalog st' = ps_catalog st \<and> no_links (ps_fs st') \<and> artifacts_present st st'"
proof (cases "PathFor (pn_store env) (a_Path a) (a_SourceHash a) ''image''
    (imageVariantSuffix (ir_Width r) (ir_TargetFormat r) (ir_Extension r))")
  case (Inl e)
  with w links show ?thesis by (auto simp: writeImageVariant_def artifacts_present_refl)
next
  case (Inr p)
  obtain e st1 where s: "store_write env st p (ir_Payload r) = (e, st1)" by fastforce
  with w Inr have "st' = st1 \<or> st' = tick st1" by (auto simp: writeImageVariant_def split: option.splits)
  with store_write_frame [OF env links s] show ?thesis by (auto simp: artifacts_present_def)
qed

lemma imageVariantSuffix_ok: "suffix_ok ext \<Longrightarrow> suffix_ok (imageVariantSuffix w f ext)"
  by (auto simp: imageVariantSuffix_def Let_def suffix_ok_def artifact_name_def)

lemma writeImageVariant_written:
  assumes env: "store_env env" and links: "no_links (ps_fs st)" and ext: "suffix_ok (ir_Extension r)"
    and w: "writeImageVariant env nm st a r = (Inr v, st')"
  shows "v_AssetPath v = a_Path a \<and> written env st' v"
proof -
  obtain p st1 where p: "PathFor (pn_store env) (a_Path a) (a_SourceHash a) ''image''
      (imageVariantSuffix (ir_Width r) (ir_TargetFormat r) (ir_Extension r)) = Inr p"
    and s: "store_write env st p (ir_Payload r) = (None, st1)" "st' = tick st1"
    and v: "v_AssetPath v = a_Path a" "v_ArtifactPath v = p"
    using w by (auto simp: writeImageVariant_def split: sum.splits option.splits prod.splits)
  from store_write_done [OF env links p imageVariantSuffix_ok [OF ext] s(1)] s(2) v
  show ?thesis by (auto simp: written_def)
qed

lemma write_results_frame:
  "store_env env \<Longrightarrow> no_links (ps_fs st) \<Longrightarrow> write_results env nm st a rs = (res, st') \<Longrightarrow>
     ps_catalog st' = ps_catalog st \<and> no_links (ps_fs st') \<and> artifacts_present st st'"
proof (induction env nm st a rs arbitrary: res st' rule: write_results.induct)
  case (1 env nm st a)
  then show ?case by (simp add: artifacts_present_refl)
next
  case (2 env nm st a r rs)
  show ?case
  proof (cases "ir_Width r \<le> 0 \<or> shouldSkipImageArtifact (pn_image env) a r")
    case True
    with 2 show ?thesis by simp
  next
    case False
    obtain w st1 where w: "writeImageVariant env nm st a r = (w, st1)" by fastforce
    note fr = writeImageVariant_frame [OF 2(3,4) w]
    show ?thesis
    proof (cases w)
      case (Inl e)
      with 2(5) False w fr show ?thesis by simp
    next
      case (Inr v)
      obtain res2 st2 where rest: "write_results env nm st1 a rs = (res2, st2)" by fastforce
      have "st' = st2" using 2(5) False w Inr rest by (auto split: sum.splits)
      moreover have "ps_catalog st2 = ps_catalog st1 \<and> no_links (ps_fs st2) \<and> artifacts_present st1 st2"
        using "2.IH"(2) [OF False w [symmetric] Inr 2(3) _ rest] fr by blast
      ultimately show ?thesis using fr artifacts_present_trans by metis
    qed
  qed
qed

lemma write_results_written:
  "store_env env \<Longrightarrow> no_links (ps_fs st) \<Longrightarrow> \<forall>r\<in>set rs. suffix_ok (ir_Extension r) \<Longrightarrow>
     write_results env nm st a rs = (Inr vs, st') \<Longrightarrow> v \<in> set vs \<Longrightarrow> v_AssetPath v = a_Path a \<and> written env st' v"
proof (induction env nm st a rs arbitrary: vs st' rule: write_results.induct)
  case (2 env nm st a r rs)
  show ?case
  proof (cases "ir_Width r \<le> 0 \<or> shouldSkipImageArtifact (pn_image env) a r")
    case True
    with 2 show ?thesis by simp
  next
    case False
    obtain v1 st1 us where w: "writeImageVariant env nm st a r = (Inr v1, st1)"
      and rest: "write_results env nm st1 a rs = (Inr us, st')" and vs: "vs = v1 # us"
      using 2(6) False by (auto split: sum.splits prod.splits)
    note fr = writeImageVariant_frame [OF 2(3,4) w]
    have v1: "v_AssetPath v1 = a_Path a \<and> written env st1 v1"
      using writeImageVariant_written [OF 2(3,4) _ w] 2(5) by simp
    moreover have "artifacts_present st1 st'" using write_results_frame [OF 2(3) _ rest] fr by blast
    ultimately have "v_AssetPath v1 = a_Path a \<and> written env st' v1" using written_present by blast
    moreover have "v_AssetPath v = a_Path a \<and> written env st' v" if "v \<in> set us"
      using "2.IH"(2) [OF False w [symmetric] refl 2(3) _ _ rest that] fr 2(5) by simp
    ultimately show ?thesis using 2(7) vs by auto
  qed
qed simp

lemma ExecuteBatch_results:
  assumes "ExecuteBatch env st task a = (res, st')"
  obtains (failed) e where "res = Inl e" "st' = st"
  | (engine) engine request rs where "pn_engine env = Some engine" "ie_GenerateBatch engine request = Inr rs"
      "writeImageVariants env (ie_Name engine) st a rs = (res, st')"
  using assms by (auto simp: ExecuteBatch_def split: if_splits sum.splits option.splits)

lemma writeImageVariants_results:
  assumes "writeImageVariants env nm st a rs = (res, st')"
  shows "\<exists>res1. write_results env nm st a rs = (res1, st') \<and> (\<forall>vs. res = Inr vs \<longrightarrow> res1 = Inr vs)"
  using assms by (auto simp: writeImageVariants_def split: prod.splits sum.splits if_splits)

interpretation image: publishing_stage imageStage
proof
  fix env st task a res st'
  assume env: "store_env env" and links: "no_links (ps_fs st)"
    and "sg_Execute (imageStage env) st task a = (res, st')"
  then have "ExecuteBatch env st task a = (res, st')" by (simp add: imageStage_def)
  then show "ps_catalog st' = ps_catalog st \<and> no_links (ps_fs st') \<and> artifacts_present st st'"
  proof (cases rule: ExecuteBatch_results)
    case failed
    with links show ?thesis by (simp add: artifacts_present_refl)
  next
    case engine
    then show ?thesis using writeImageVariants_results write_results_frame [OF env links] by metis
  qed
next
  fix env st task a vs st' v
  assume env: "store_env env" and links: "no_links (ps_fs st)" and v: "v \<in> set vs"
    and "sg_Execute (imageStage env) st task a = (Inr vs, st')"
  then have "ExecuteBatch env st task a = (Inr vs, st')" by (simp add: imageStage_def)
  then show "v_AssetPath v = a_Path a \<and> written env st' v"
  proof (cases rule: ExecuteBatch_results)
    case (engine engine request rs)
    have "\<forall>r\<in>set rs. suffix_ok (ir_Extension r)"
      using env engine(1,2) by (auto simp: store_env_def)
    moreover have "write_results env (ie_Name engine) st a rs = (Inr vs, st')"
      using writeImageVariants_results [OF engine(3)] by auto
    ultimately show ?thesis using write_results_written [OF env links] v by blast
  qed simp
qed

section \<open>Publication\<close>

text \<open>Since the catalog had the records \<open>R\<close>, only variants whose artifact is in the store have been added.\<close>

definition sound_since :: "pipeline_env \<Rightarrow> variantRecord set \<Rightarrow> pipeline_state \<Rightarrow> bool" where
  "sound_since env R st \<longleftrightarrow>
     no_links (ps_fs st) \<and> catalog_ok (ps_catalog st) \<and>
     (\<forall>r\<in>recs (variants (ps_catalog st)). r \<in> R \<or> written env st (r_Variant r))"

lemma record_artifact: "v_ArtifactPath (r_Variant (variant_record stat v)) = v_ArtifactPath v"
  "v_AssetPath (r_Variant (variant_record stat v)) = v_AssetPath v"
  "v_Size (r_Variant (variant_record stat v)) = v_Size v"
  "v_SourceHash (r_Variant (variant_record stat v)) = v_SourceHash v"
  "v_Encoding (r_Variant (variant_record stat v)) = v_Encoding v"
  by (simp_all add: variant_record_def newVariantRecord_def prepareVariant_def Let_def)

lemma written_record [simp]: "written env st (r_Variant (variant_record stat v)) = written env st v"
  by (simp add: written_def record_artifact)

lemma publish_simps [simp]: "ps_fs (publishVariantGenerated st n v) = ps_fs st"
  "ps_catalog (publishVariantGenerated st n v) = ps_catalog st"
  by (simp_all add: publishVariantGenerated_def)

lemma upsertStageVariant_effect:
  assumes ok: "catalog_ok (ps_catalog st)" and up: "upsertStageVariant env sg st v = (e, st')"
  shows "ps_fs st' = ps_fs st \<and> catalog_ok (ps_catalog st') \<and>
    (if e = None then recs (variants (ps_catalog st')) =
       abs_upsert (recs (variants (ps_catalog st))) (variant_record (pn_stat env) v)
     else st' = st) \<and>
    abs_assets (assetsByPath (ps_catalog st')) = abs_assets (assetsByPath (ps_catalog st)) \<and>
    (e = None \<longleftrightarrow> v_AssetPath v \<in> dom (abs_assets (assetsByPath (ps_catalog st))))"
proof (cases "UpsertVariant (pn_stat env) (ps_catalog st) (Some v)")
  case (Inl err)
  then have "v_AssetPath v \<notin> dom (abs_assets (assetsByPath (ps_catalog st)))"
    by (auto simp: UpsertVariant_def buildVariantRecord_def dom_abs_assets_map_of
        variant_record_def [symmetric] split: option.splits)
  with Inl ok up show ?thesis by (auto simp: upsertStageVariant_def)
next
  case (Inr c)
  then have "exec_op (pn_stat env) (ps_catalog st) (OpUpsertVariant (Some v)) = c" by (simp add: keep_def)
  moreover have "v_AssetPath v \<in> dom (abs_assets (assetsByPath (ps_catalog st)))"
    using Inr by (auto simp: UpsertVariant_def buildVariantRecord_def dom_abs_assets_map_of
        variant_record_def [symmetric] split: option.splits)
  ultimately have "catalog_ok c \<and> recs (variants c) =
      abs_upsert (recs (variants (ps_catalog st))) (variant_record (pn_stat env) v) \<and>
      abs_assets (assetsByPath c) = abs_assets (assetsByPath (ps_catalog st))"
    using UpsertVariant_ok [OF ok, of "pn_stat env" "Some v"] by (auto simp: absc_def)
  moreover have "e = None" "ps_catalog st' = c" "ps_fs st' = ps_fs st"
    using Inr up by (auto simp: upsertStageVariant_def)
  ultimately show ?thesis using \<open>v_AssetPath v \<in> _\<close> by simp
qed

lemma upsertStageVariant_sound:
  assumes "sound_since env R st" "written env st v" "upsertStageVariant env sg st v = (e, st')"
  shows "sound_since env R st' \<and> ps_fs st' = ps_fs st"
proof -
  have ok: "catalog_ok (ps_catalog st)" using assms(1) by (simp add: sound_since_def)
  note eff = upsertStageVariant_effect [OF ok assms(3)]
  have same: "written env st' x = written env st x" for x using eff by (simp add: written_def)
  show ?thesis
  proof (cases "e = None")
    case True
    have "r \<in> R \<or> written env st (r_Variant r)" if "r \<in> recs (variants (ps_catalog st'))" for r
      using that eff True assms(1,2) by (auto simp: sound_since_def abs_upsert_def)
    with eff assms(1) show ?thesis by (simp add: sound_since_def same)
  next
    case False
    with eff assms(1) show ?thesis by simp
  qed
qed

lemma upsert_variants_sound:
  "sound_since env R st \<Longrightarrow> \<forall>v\<in>set vs. written env st v \<Longrightarrow> upsert_variants env sg st vs = (e, st') \<Longrightarrow>
     sound_since env R st' \<and> ps_fs st' = ps_fs st"
proof (induction vs arbitrary: st)
  case (Cons v vs)
  obtain e1 st1 where up: "upsertStageVariant env sg st v = (e1, st1)" by fastforce
  have s1: "sound_since env R st1 \<and> ps_fs st1 = ps_fs st"
    using upsertStageVariant_sound [OF Cons.prems(1) _ up] Cons.prems(2) by simp
  show ?case
  proof (cases e1)
    case None
    have "\<forall>v\<in>set vs. written env st1 v" using Cons.prems(2) s1 by (simp add: written_def)
    with Cons.IH [of st1] Cons.prems(3) up None s1 show ?thesis by simp
  next
    case (Some x)
    with Cons.prems(3) up s1 show ?thesis by simp
  qed
qed simp

lemma sound_since_kept:
  assumes "sound_since env R st" "ps_catalog st' = ps_catalog st" "no_links (ps_fs st')" "artifacts_present st st'"
  shows "sound_since env R st'"
  using assms written_present unfolding sound_since_def by metis

lemma artifacts_present_fs: "ps_fs st' = ps_fs st \<Longrightarrow> artifacts_present st st'"
  by (simp add: artifacts_present_def)

context publishing_stage begin

lemma run_tasks_sound:
  "store_env env \<Longrightarrow> sound_since env R st \<Longrightarrow> run_tasks env (stage env) a st ts = (e, st') \<Longrightarrow>
     sound_since env R st' \<and> artifacts_present st st'"
proof (induction ts arbitrary: st)
  case Nil
  then show ?case by (simp add: artifacts_present_refl)
next
  case (Cons t ts)
  have links: "no_links (ps_fs st)" using Cons.prems(2) by (simp add: sound_since_def)
  obtain res st1 where ex: "sg_Execute (stage env) st t a = (res, st1)" by fastforce
  note k = keeps [OF Cons.prems(1) links ex]
  have s1: "sound_since env R st1" using sound_since_kept [OF Cons.prems(2)] k by blast
  show ?case
  proof (cases res)
    case (Inl err)
    show ?thesis
    proof (cases "err = ErrVariantSkipped")
      case True
      then have "run_tasks env (stage env) a st1 ts = (e, st')"
        using Cons.prems(3) ex Inl by (simp add: executeStageTaskBatch_def)
      from Cons.IH [OF Cons.prems(1) s1 this] k show ?thesis using artifacts_present_trans by blast
    next
      case False
      then have "st' = st1" using Cons.prems(3) ex Inl by (simp add: executeStageTaskBatch_def)
      with s1 k show ?thesis by simp
    qed
  next
    case (Inr vs)
    have "\<forall>v\<in>set vs. written env st1 v" using writes [OF Cons.prems(1) links] ex Inr by blast
    moreover obtain e2 st2 where up: "upsert_variants env (stage env) st1 vs = (e2, st2)" by fastforce
    ultimately have s2: "sound_since env R st2" "artifacts_present st1 st2"
      using upsert_variants_sound [OF s1] artifacts_present_fs by blast+
    then have p2: "artifacts_present st st2" using k artifacts_present_trans by blast
    show ?thesis
    proof (cases e2)
      case None
      then have "run_tasks env (stage env) a st2 ts = (e, st')"
        using Cons.prems(3) ex Inr up by (simp add: executeStageTaskBatch_def)
      from Cons.IH [OF Cons.prems(1) s2(1) this] p2 show ?thesis using artifacts_present_trans by blast
    next
      case (Some x)
      then have "st' = st2" using Cons.prems(3) ex Inr up by (simp add: executeStageTaskBatch_def)
      with s2 p2 show ?thesis by simp
    qed
  qed
qed

end

lemma run_stages_sound:
  "store_env env \<Longrightarrow> sound_since env R st \<Longrightarrow> set sgs \<subseteq> {compressionStage env, imageStage env} \<Longrightarrow>
     run_stages env a request st sgs = (e, st') \<Longrightarrow> sound_since env R st' \<and> artifacts_present st st'"
proof (induction sgs arbitrary: st)
  case Nil
  then show ?case by (simp add: artifacts_present_refl)
next
  case (Cons sg sgs)
  obtain e1 st1 where t: "run_tasks env sg a st (sg_Plan sg st a request) = (e1, st1)" by fastforce
  have "sg = compressionStage env \<or> sg = imageStage env" using Cons.prems(3) by simp
  then have s1: "sound_since env R st1 \<and> artifacts_present st st1"
    using compression.run_tasks_sound image.run_tasks_sound Cons.prems(1,2) t by blast
  show ?case
  proof (cases e1)
    case None
    then have "run_stages env a request st1 sgs = (e, st')" using Cons.prems(4) t by simp
    with Cons.IH [of st1] Cons.prems(1,3) s1 show ?thesis using artifacts_present_trans by fastforce
  next
    case (Some x)
    with Cons.prems(4) t s1 show ?thesis by simp
  qed
qed


section \<open>Every encoding is served\<close>

text \<open>The suffixes of different codings end differently, so their artifacts never share a path.\<close>

definition suffixes_distinct :: "Registry \<Rightarrow> bool" where
  "suffixes_distinct reg \<longleftrightarrow>
     (\<forall>e e' s s'. e \<noteq> e' \<longrightarrow> Lookup reg e = Some s \<longrightarrow> Lookup reg e' = Some s' \<longrightarrow> last (sy_Suffix s) \<noteq> last (sy_Suffix s'))"

lemma NewRegistry_lookup:
  "Lookup (NewRegistry cd opts enabled) e = Some s \<Longrightarrow>
     (e, s) \<in> set (map (\<lambda>s. (sy_Name s, s)) (newBuiltinStrategies cd opts))"
proof -
  let ?all = "map (\<lambda>s. (sy_Name s, s)) (newBuiltinStrategies cd opts)"
  have fold: "foldl (\<lambda>m name. case map_of ?all name of Some s \<Rightarrow> m(name \<mapsto> s) | None \<Rightarrow> m) m names e = Some s \<Longrightarrow>
      m e = Some s \<or> map_of ?all e = Some s" for m names
  proof (induction names arbitrary: m)
    case (Cons n names)
    then show ?case
      by (cases "map_of ?all n") (fastforce split: if_splits simp: fun_upd_def)+
  qed simp
  assume "Lookup (NewRegistry cd opts enabled) e = Some s"
  then have "map_of ?all e = Some s"
    using fold [of Map.empty] by (auto simp: Lookup_def NewRegistry_def Let_def)
  then show ?thesis by (rule map_of_SomeD)
qed

lemma NewRegistry_suffixes:
  "suffixes_distinct (NewRegistry cd opts enabled)"
  "s \<in> ran (rg_strategies (NewRegistry cd opts enabled)) \<Longrightarrow> suffix_ok (sy_Suffix s)"
proof -
  show "suffixes_distinct (NewRegistry cd opts enabled)"
    unfolding suffixes_distinct_def
  proof (intro allI impI)
    fix e e' s s'
    assume ne: "e \<noteq> e'" and l: "Lookup (NewRegistry cd opts enabled) e = Some s"
      "Lookup (NewRegistry cd opts enabled) e' = Some s'"
    from NewRegistry_lookup [OF l(1)] NewRegistry_lookup [OF l(2)] ne
    show "last (sy_Suffix s) \<noteq> last (sy_Suffix s')"
      by (auto simp: newBuiltinStrategies_def NewBrotliStrategy_def NewZstdStrategy_def NewGzipStrategy_def)
  qed
  have "suffix_ok ''.br''" "suffix_ok ''.zst''" "suffix_ok ''.gz''" by code_simp+
  moreover assume "s \<in> ran (rg_strategies (NewRegistry cd opts enabled))"
  then obtain e where "Lookup (NewRegistry cd opts enabled) e = Some s" by (auto simp: ran_def Lookup_def)
  ultimately show "suffix_ok (sy_Suffix s)"
    using NewRegistry_lookup [of cd opts enabled e s]
    by (auto simp: newBuiltinStrategies_def NewBrotliStrategy_def NewZstdStrategy_def NewGzipStrategy_def)
qed

lemma compressible_no_image_format: "IsCompressibleMediaType m \<Longrightarrow> ImageFormat m = []"
proof -
  assume m: "IsCompressibleMediaType m"
  have "associate MediaType imageFormatDescriptors (TrimLower m) = None"
  proof (cases "associate MediaType imageFormatDescriptors (TrimLower m)")
    case (Some d)
    have "TrimLower m = NormalizeMediaType m" by (simp add: TrimLower_def NormalizeMediaType_def)
    moreover have "TrimLower m \<in> set [''image/jpeg'', ''image/png'', ''image/webp'', ''image/avif'']"
      using associate_Some [OF Some] by (auto simp: imageFormatDescriptors_def)
    ultimately show ?thesis using compressible_excludes_media [OF m] by (auto simp: has_prefix_def)
  qed simp
  then show "ImageFormat m = []" by (simp add: ImageFormat_def LookupImageDescriptorByMediaType_def)
qed

text \<open>The coding \<open>e\<close> of an asset is served: a variant for the current source is listed and its file is the compressed
  source.\<close>

definition covered :: "pipeline_env \<Rightarrow> Asset \<Rightarrow> pipeline_state \<Rightarrow> string \<Rightarrow> bytes \<Rightarrow> string \<Rightarrow> bool" where
  "covered env a st e data sfx \<longleftrightarrow>
     (\<exists>r\<in>recs (variants (ps_catalog st)).
        r_AssetPath r = a_Path a \<and> r_Encoding r = e \<and> r_ID r = a_Path a @ sfx \<and>
        PathFor (pn_store env) (a_Path a) (a_SourceHash a) ''encoding'' sfx = Inr (r_ArtifactPath r) \<and>
        v_ArtifactPath (r_Variant r) = r_ArtifactPath r \<and> v_SourceHash (r_Variant r) = a_SourceHash a \<and>
        written_exactly env st (r_Variant r) data)"

definition worthwhile :: "pipeline_env \<Rightarrow> bytes \<Rightarrow> string \<Rightarrow> bytes \<Rightarrow> string \<Rightarrow> bool" where
  "worthwhile env raw e data sfx \<longleftrightarrow>
     compress (pn_registry env) raw e = Inr (data, sfx) \<and> cc_MinSize (pn_comp env) \<le> int (length raw) \<and>
     length data < length raw"

lemma compression_skip:
  assumes "compression_Execute env st task a = (Inl ErrVariantSkipped, st')" "pn_read env (a_FullPath a) = Some raw"
  shows "\<not> worthwhile env raw (tk_Encoding task) data sfx"
  using assms
  by (auto simp: compression_Execute_def worthwhile_def compress_def
      split: if_splits option.splits sum.splits prod.splits)

lemma different_suffix_paths:
  assumes env: "store_env env" "suffixes_distinct (pn_registry env)" and ne: "e \<noteq> e'"
    and c: "compress (pn_registry env) raw e = Inr (data, sfx)" "compress (pn_registry env) raw' e' = Inr (data', sfx')"
    and p: "PathFor (pn_store env) ap h ns sfx = Inr p" "PathFor (pn_store env) ap h ns sfx' = Inr p'"
    and rel: "relativePath (pn_store env) (pn_cwd env) p = Inr rel" "relativePath (pn_store env) (pn_cwd env) p' = Inr rel'"
  shows "rel \<noteq> rel' \<and> p \<noteq> p' \<and> sfx \<noteq> sfx'"
proof -
  have s: "suffix_ok sfx" "suffix_ok sfx'" using compress_suffix [OF env(1)] c by blast+
  have l: "last sfx \<noteq> last sfx'"
    using c env(2) ne by (auto simp: compress_def suffixes_distinct_def split: option.splits)
  obtain z z' where "rel = z @ sfx" "rel' = z' @ sfx'"
    using PathFor_back [OF env(1) p(1) s(1) rel(1)] PathFor_back [OF env(1) p(2) s(2) rel(2)] artifactRelativePath_ends
    by blast
  moreover have "sfx \<noteq> []" "sfx' \<noteq> []" using s by (simp_all add: suffix_ok_def artifact_name_def)
  ultimately have "last rel = last sfx" "last rel' = last sfx'" by simp_all
  with l rel show ?thesis by auto
qed

lemma compression_task_covers:
  assumes env: "store_env env" "suffixes_distinct (pn_registry env)" and links: "no_links (ps_fs st)"
    and ok: "catalog_ok (ps_catalog st)" and a: "isCompressible a" "pn_read env (a_FullPath a) = Some raw"
    and ex: "executeStageTaskBatch (compressionStage env) st a t = (Inr vs, st1)"
    and up: "upsert_variants env (compressionStage env) st1 vs = (None, st2)"
  shows "(worthwhile env raw (tk_Encoding t) data sfx \<longrightarrow> covered env a st2 (tk_Encoding t) data sfx) \<and>
    (covered env a st e d s \<longrightarrow> compress (pn_registry env) raw e = Inr (d, s) \<longrightarrow> covered env a st2 e d s) \<and>
    no_links (ps_fs st2) \<and> catalog_ok (ps_catalog st2)"
proof -
  obtain res st' where run: "compression_Execute env st t a = (res, st')" by fastforce
  have res: "(res = Inl ErrVariantSkipped \<and> vs = [] \<or> (\<exists>v. res = Inr v \<and> vs = [v])) \<and> st1 = st'"
    using ex run by (auto simp: executeStageTaskBatch_def compressionStage_def split: sum.splits if_splits)
  from run show ?thesis
  proof (cases rule: compression_Execute_cases)
    case (failed err)
    with res have skip: "res = Inl ErrVariantSkipped" "vs = []" "st1 = st" by auto
    then have "st2 = st" using up by simp
    with compression_skip [of env st t a st raw] run failed skip a(2) links ok show ?thesis by auto
  next
    case (unwritten p data err)
    with res show ?thesis by simp
  next
    case (generated raw' data' sfx' p st0 v)
    have raw': "raw' = raw" using generated(1) a(2) by simp
    have vs: "vs = [v]" "st1 = tick st0" using res generated by auto
    note suf = compress_suffix [OF env(1) generated(2)]
    obtain rel where rel: "relativePath (pn_store env) (pn_cwd env) p = Inr rel" "artifact_name rel"
      "artifacts_kept rel (ps_fs st) (ps_fs st0)" "ps_fs st0 rel = Some (NFile data')"
      using store_write_done [OF env(1) links generated(3) suf generated(4)] by blast
    note fr = store_write_frame [OF env(1) links generated(4)]
    define rec where "rec = variant_record (pn_stat env) v"
    have up1: "upsertStageVariant env (compressionStage env) st1 v = (None, st2)"
      using up vs by (auto split: prod.splits option.splits)
    have ok1: "catalog_ok (ps_catalog st1)" using ok fr vs by simp
    note eff = upsertStageVariant_effect [OF ok1 up1, folded rec_def]
    have fs2: "ps_fs st2 = ps_fs st0" and cat2: "catalog_ok (ps_catalog st2)"
      and recs2: "recs (variants (ps_catalog st2)) = abs_upsert (recs (variants (ps_catalog st))) rec"
      using eff fr vs by auto
    note v = generated(7) [unfolded compressed_variant_def]
    have "a_Path a @ sfx' \<noteq> []" using suf by (simp add: suffix_ok_def artifact_name_def)
    then have rec: "r_AssetPath rec = a_Path a" "r_ID rec = a_Path a @ sfx'" "r_ArtifactPath rec = p"
      "r_Encoding rec = tk_Encoding t" "r_ImageFormat rec = []"
      using v compressible_no_image_format a(1)
      by (auto simp: rec_def variant_record_def newVariantRecord_def Let_def prepareVariant_def imageFormatKey_def
          isCompressible_def)
    have new: "covered env a st2 (tk_Encoding t) data' sfx'"
      unfolding covered_def
    proof (rule bexI [of _ rec])
      show "rec \<in> recs (variants (ps_catalog st2))" by (simp add: recs2 abs_upsert_def)
      show "r_AssetPath rec = a_Path a \<and> r_Encoding rec = tk_Encoding t \<and> r_ID rec = a_Path a @ sfx' \<and>
        PathFor (pn_store env) (a_Path a) (a_SourceHash a) ''encoding'' sfx' = Inr (r_ArtifactPath rec) \<and>
        v_ArtifactPath (r_Variant rec) = r_ArtifactPath rec \<and> v_SourceHash (r_Variant rec) = a_SourceHash a \<and>
        written_exactly env st2 (r_Variant rec) data'"
        using rec v generated(3) rel fs2 by (simp add: written_exactly_def rec_def record_artifact)
    qed
    have old: "covered env a st2 e d s" if cov: "covered env a st e d s" and c: "compress (pn_registry env) raw e = Inr (d, s)"
    proof (cases "e = tk_Encoding t")
      case True
      with c generated(2) raw' new show ?thesis by simp
    next
      case False
      obtain r where r: "r \<in> recs (variants (ps_catalog st))" "r_AssetPath r = a_Path a" "r_Encoding r = e"
        "r_ID r = a_Path a @ s" "PathFor (pn_store env) (a_Path a) (a_SourceHash a) ''encoding'' s = Inr (r_ArtifactPath r)"
        "v_ArtifactPath (r_Variant r) = r_ArtifactPath r" "v_SourceHash (r_Variant r) = a_SourceHash a"
        and w: "written_exactly env st (r_Variant r) d"
        using cov by (auto simp: covered_def)
      obtain rel0 where rel0: "relativePath (pn_store env) (pn_cwd env) (r_ArtifactPath r) = Inr rel0" "artifact_name rel0"
        "ps_fs st rel0 = Some (NFile d)" using w r(6) by (auto simp: written_exactly_def)
      from different_suffix_paths [OF env False c generated(2) r(5) generated(3) rel0(1) rel(1)]
      have diff: "rel0 \<noteq> rel" "r_ArtifactPath r \<noteq> p" "s \<noteq> sfx'" by auto
      have "\<not> conflicts rec r"
        using diff False r rec by (auto simp: conflicts_def variantRecordKey_def)
      then have "r \<in> recs (variants (ps_catalog st2))" using r(1) by (simp add: recs2 abs_upsert_def)
      moreover have "ps_fs st2 rel0 = Some (NFile d)"
        using rel(3) rel0 diff(1) by (simp add: fs2 artifacts_kept_def)
      then have "written_exactly env st2 (r_Variant r) d"
        using w rel0 r(6) by (auto simp: written_exactly_def)
      ultimately show ?thesis using r unfolding covered_def by blast
    qed
    have "covered env a st2 (tk_Encoding t) data sfx" if "worthwhile env raw (tk_Encoding t) data sfx"
      using that new generated(2) raw' by (simp add: worthwhile_def)
    with old cat2 fs2 fr show ?thesis by auto
  qed
qed

lemma compression_tasks_cover:
  assumes env: "store_env env" "suffixes_distinct (pn_registry env)"
    and a: "isCompressible a" "pn_read env (a_FullPath a) = Some raw"
  shows "no_links (ps_fs st) \<Longrightarrow> catalog_ok (ps_catalog st) \<Longrightarrow>
     run_tasks env (compressionStage env) a st ts = (None, st') \<Longrightarrow>
     (\<forall>t\<in>set ts. \<forall>data sfx. worthwhile env raw (tk_Encoding t) data sfx \<longrightarrow> covered env a st' (tk_Encoding t) data sfx) \<and>
     (\<forall>e d s. covered env a st e d s \<longrightarrow> compress (pn_registry env) raw e = Inr (d, s) \<longrightarrow> covered env a st' e d s)"
proof (induction ts arbitrary: st)
  case (Cons t ts)
  obtain vs st1 where ex: "executeStageTaskBatch (compressionStage env) st a t = (Inr vs, st1)"
    using Cons.prems(3) by (auto split: sum.splits prod.splits)
  obtain st2 where up: "upsert_variants env (compressionStage env) st1 vs = (None, st2)"
    and rest: "run_tasks env (compressionStage env) a st2 ts = (None, st')"
    using Cons.prems(3) ex by (auto split: option.splits prod.splits)
  note one = compression_task_covers [OF env Cons.prems(1,2) a ex up]
  note more = Cons.IH [OF _ _ rest]
  have "covered env a st' (tk_Encoding t) data sfx" if "worthwhile env raw (tk_Encoding t) data sfx" for data sfx
    using that one more by (simp add: worthwhile_def)
  then show ?case using one more by auto
qed simp

lemma planned_compressible: "t \<in> set (compression_Plan env st a request) \<Longrightarrow> isCompressible a"
  by (auto simp: compression_Plan_def split: if_splits)

lemma store_root_slash:
  assumes "store_env env" "PathFor (pn_store env) ap h ns sfx = Inr p"
  shows "p \<noteq> []"
proof -
  obtain view root where s: "path_is_abs (pn_cwd env)" "newLocalStore (pn_cwd env) view root = Inr (pn_store env)"
    using assms(1) by (rule store_root)
  obtain rel where rel: "artifactRelativePath ap h ns sfx = Inr rel" "p = path_join [ls_root (pn_store env), rel]"
    using assms(2) by (auto simp: PathFor_def split: sum.splits)
  obtain rs where rs: "rooted_at (pn_store env) rs" using newLocalStore_rooted [OF s] by blast
  obtain xs where xs: "xs \<noteq> []" "proper xs" "rel = join_with ''/'' xs"
    using artifactRelativePath_proper [OF rel(1)] by blast
  show ?thesis using path_join_rooted [OF _ xs(1,2), of rs] rs xs(3) rel(2) by (simp add: rooted_at_def)
qed

lemma covered_not_planned:
  assumes env: "store_env env" and ok: "catalog_ok (ps_catalog st)" and e: "e \<noteq> []" and cov: "covered env a st e data sfx"
  shows "\<exists>v. FindEncodingVariant (ps_catalog st) (a_Path a) e = Some v \<and> v_SourceHash v = a_SourceHash a \<and>
    written_exactly env st v data \<and> hasEncodingVariant env st v (a_SourceHash a) e"
proof -
  obtain r where r: "r \<in> recs (variants (ps_catalog st))" "r_AssetPath r = a_Path a" "r_Encoding r = e"
    "PathFor (pn_store env) (a_Path a) (a_SourceHash a) ''encoding'' sfx = Inr (r_ArtifactPath r)"
    "v_ArtifactPath (r_Variant r) = r_ArtifactPath r" "v_SourceHash (r_Variant r) = a_SourceHash a"
    "written_exactly env st (r_Variant r) data"
    using cov by (auto simp: covered_def)
  have "record_ok r" using r(1) ok by (simp add: catalog_ok_def)
  then have enc: "v_Encoding (r_Variant r) = e" using r(3) by (simp add: record_ok_def Let_def)
  have "findEncoding (variants (ps_catalog st)) (a_Path a) e = Some r"
    using findEncoding_iff [of "variants (ps_catalog st)"] ok r e by (simp add: catalog_ok_def)
  moreover have "artifact_exists env st (r_ArtifactPath r)"
    using r(5,7) by (auto simp: written_exactly_def artifact_exists_def)
  ultimately show ?thesis
    using r enc store_root_slash [OF env r(4)]
    by (intro exI [of _ "r_Variant r"])
      (simp add: FindEncodingVariant_def FindEncodingVariantViewResult_def hasEncodingVariant_def)
qed

lemma planned_encoding:
  "t \<in> set (compression_Plan env st a request) \<Longrightarrow> (\<And>v. FindEncodingVariant (ps_catalog st) (a_Path a) (tk_Encoding t) = Some v \<Longrightarrow>
     \<not> hasEncodingVariant env st v (a_SourceHash a) (tk_Encoding t))"
  by (auto simp: compression_Plan_def Let_def split: if_splits option.splits)

text \<open>C18: a successful run of the compression stage serves every coding it planned: for each one whose compression
  is worth it, the lookup by encoding finds a variant of the current source whose artifact is in the store and
  is exactly the compressed source, of the recorded size; and the coding is not planned again.\<close>

theorem compression_serves_planned:
  assumes "store_env env" "suffixes_distinct (pn_registry env)" "no_links (ps_fs st)" "catalog_ok (ps_catalog st)"
    and "FindAsset (ps_catalog st) (pr_AssetPath request) = Some a" "pn_read env (a_FullPath a) = Some raw"
    and run: "process env [compressionStage env] st request = (None, st')"
    and t: "t \<in> set (compression_Plan env st a request)" and e: "tk_Encoding t \<noteq> []"
    and worth: "worthwhile env raw (tk_Encoding t) data sfx"
  shows "(\<exists>v. FindEncodingVariant (ps_catalog st') (a_Path a) (tk_Encoding t) = Some v \<and>
      v_SourceHash v = a_SourceHash a \<and> written_exactly env st' v data) \<and>
    t \<notin> set (compression_Plan env st' a request)"
proof -
  have tasks: "run_tasks env (compressionStage env) a st (compression_Plan env st a request) = (None, st')"
    using run assms(5) by (auto simp: process_def compressionStage_def split: if_splits prod.splits option.splits)
  have "sound_since env (recs (variants (ps_catalog st))) st" using assms(3,4) by (simp add: sound_since_def)
  from compression.run_tasks_sound [OF assms(1) this tasks] have ok: "catalog_ok (ps_catalog st')"
    by (simp add: sound_since_def)
  have "covered env a st' (tk_Encoding t) data sfx"
    using compression_tasks_cover [OF assms(1,2) planned_compressible [OF t] assms(6,3,4) tasks] t worth by blast
  from covered_not_planned [OF assms(1) ok e this] planned_encoding [of t env st' a request] show ?thesis by blast
qed

section \<open>Concrete instances\<close>

definition example_codecs :: codecs where
  "example_codecs = \<lparr> cd_brotli = (\<lambda>_ d. Some (take 2 d)), cd_zstd = (\<lambda>_ d. Some (take 3 d)),
     cd_gzip = (\<lambda>_ d. Some (take 4 d)) \<rparr>"

definition example_registry :: Registry where
  "example_registry = NewRegistry example_codecs \<lparr> op_BrotliQuality = 5, op_GzipLevel = 5, op_ZstdLevel = 3 \<rparr> None"

definition example_compression :: Compression where
  "example_compression = \<lparr> cc_Enable = True, cc_Mode = ''lazy'', cc_CacheDir = ''cache'', cc_MinSize = 5, cc_Workers = 2,
     cc_QueueSize = 8, cc_Encodings = ''br'', cc_CleanupEvery = [], cc_MaxAge = [], cc_ImageMaxAge = [],
     cc_EncodingMaxAge = [], cc_MaxCacheBytes = 0, cc_EncodingMaxCacheBytes = 0, cc_ImageMaxCacheBytes = 0,
     cc_BrotliQuality = 5, cc_ZstdLevel = 3, cc_GzipLevel = 5 \<rparr>"

definition example_image :: ImageConfig where
  "example_image = \<lparr> ic_Enable = False, ic_Widths = [], ic_Formats = [], ic_JPEGQuality = 78, ic_MaxSourceBytes = 0,
     ic_MaxSourcePixels = 0, ic_MaxWidth = 0, ic_MaxHeight = 0, ic_MaxOutputVariants = 0, ic_MaxConcurrentSources = 0,
     ic_MaxMemoryBytes = 0, ic_MinSavingRatio = f64_zero, ic_MinSavingBytes = 0 \<rparr>"

definition example_pipeline :: pipeline_env where
  "example_pipeline = \<lparr> pn_comp = example_compression, pn_image = example_image, pn_registry = example_registry,
     pn_engine = None, pn_store = example_store, pn_cwd = ''/srv'', pn_view = (\<lambda>_. example_view), pn_faults = (\<lambda>_ _. None),
     pn_now = (\<lambda>t. int t), pn_live = (\<lambda>_. True),
     pn_read = (\<lambda>p. if p = ''/srv/www/app.js'' then Some ''let x=1'' else None), pn_outside = (\<lambda>_. False),
     pn_stat = (\<lambda>_. None) \<rparr>"

definition example_script :: Asset where
  "example_script = \<lparr> a_Path = ''app.js'', a_FullPath = ''/srv/www/app.js'', a_Size = 7, a_MediaType = ''text/javascript'',
     a_SourceHash = ''ab12'', a_ETag = [], a_Metadata = Map.empty \<rparr>"

definition example_pipeline_state :: pipeline_state where
  "example_pipeline_state = \<lparr> ps_catalog = run_catalog (\<lambda>_. None) [OpUpsertAsset (Some example_script)],
     ps_fs = Map.empty, ps_tick = 0, ps_generated = [] \<rparr>"

definition example_stage_request :: PipelineRequest where
  "example_stage_request = \<lparr> pr_AssetPath = ''app.js'', pr_PreferredEncodings = Some [''br''], pr_PreferredFormats = None,
     pr_PreferredWidths = None \<rparr>"

definition example_task :: Task where
  "example_task = \<lparr> tk_AssetPath = ''app.js'', tk_Encoding = ''br'', tk_Format = [], tk_Width = 0, tk_ImageVariants = None \<rparr>"

lemma example_pipeline_ok:
  "store_env example_pipeline" "suffixes_distinct (pn_registry example_pipeline)"
  "no_links (ps_fs example_pipeline_state)" "catalog_ok (ps_catalog example_pipeline_state)"
proof -
  have "suffix_ok (sy_Suffix s)" if "s \<in> ran (rg_strategies example_registry)" for s
    using that NewRegistry_suffixes(2) unfolding example_registry_def by blast
  then show "store_env example_pipeline"
    using example_store_new example_path(4) by (auto simp: store_env_def example_pipeline_def)
  show "suffixes_distinct (pn_registry example_pipeline)"
    by (simp add: example_pipeline_def example_registry_def NewRegistry_suffixes(1))
  show "catalog_ok (ps_catalog example_pipeline_state)"
    using run_catalog_ok by (simp add: example_pipeline_state_def)
qed (simp add: no_links_def example_pipeline_state_def)

definition example_outcome :: "stage_error option \<times> pipeline_state" where
  "example_outcome =
     process example_pipeline [compressionStage example_pipeline] example_pipeline_state example_stage_request"

lemma example_outcome_eq:
  "process example_pipeline [compressionStage example_pipeline] example_pipeline_state example_stage_request =
     (fst example_outcome, snd example_outcome)"
  by (simp add: example_outcome_def)

lemma example_found: "FindAsset (ps_catalog example_pipeline_state) ''app.js'' = Some example_script"
  "dom (abs_assets (assetsByPath (ps_catalog example_pipeline_state))) = {''app.js''}"
proof -
  have "absc (ps_catalog example_pipeline_state) = (Map.empty(''app.js'' \<mapsto> example_script), {})"
    using run_catalog_ok [of "\<lambda>_. None" "[OpUpsertAsset (Some example_script)]"]
    by (simp add: example_pipeline_state_def abs_run_def put_asset_def prepareAsset_def EnsureMetadataModTime_def
        MetadataModTime_def FileModTime_def example_script_def)
  then have a: "abs_assets (assetsByPath (ps_catalog example_pipeline_state)) = Map.empty(''app.js'' \<mapsto> example_script)"
    by (simp add: absc_def)
  then show "dom (abs_assets (assetsByPath (ps_catalog example_pipeline_state))) = {''app.js''}" by simp
  show "FindAsset (ps_catalog example_pipeline_state) ''app.js'' = Some example_script"
    using fun_cong [OF a, of "''app.js''"]
    by (auto simp: FindAsset_def FindAssetViewResult_def abs_assets_def split: option.splits)
qed

lemma example_plan:
  "compression_Plan example_pipeline example_pipeline_state example_script example_stage_request = [example_task]"
  by code_simp

lemma example_outcome_done: "fst example_outcome = None"
proof -
  let ?env = example_pipeline and ?st = example_pipeline_state and ?p = "''/srv/cache/encoding/ab12/app.js.br''"
  have "fst (Write (pn_store ?env) (pn_cwd ?env) (pn_view ?env 0) (pn_faults ?env 0) (pn_now ?env 0) Map.empty ?p ''le'') = None"
    by code_simp
  then obtain st1 where w: "store_write ?env ?st ?p ''le'' = (None, st1)"
    by (cases "Write (pn_store ?env) (pn_cwd ?env) (pn_view ?env 0) (pn_faults ?env 0) (pn_now ?env 0) Map.empty ?p ''le''")
      (auto simp: store_write_def Let_def example_pipeline_state_def)
  have facts: "a_SourceHash example_script \<noteq> []" "pn_live ?env (ps_tick ?st)" "pn_read ?env (a_FullPath example_script) = Some ''let x=1''"
    "\<not> int (length ''let x=1'') < cc_MinSize (pn_comp ?env)"
    "compress (pn_registry ?env) ''let x=1'' (tk_Encoding example_task) = Inr (''le'', ''.br'')"
    "PathFor (pn_store ?env) (a_Path example_script) (a_SourceHash example_script) ''encoding'' ''.br'' = Inr ?p"
    by code_simp+
  obtain v where ex: "compression_Execute ?env ?st example_task example_script = (Inr v, tick st1)" "v_AssetPath v = ''app.js''"
    using facts w by (simp add: compression_Execute_def) (simp add: example_script_def)
  note fr = store_write_frame [OF example_pipeline_ok(1,3) w]
  obtain e st2 where up: "upsertStageVariant ?env (compressionStage ?env) (tick st1) v = (e, st2)" by fastforce
  have "catalog_ok (ps_catalog (tick st1))" using fr example_pipeline_ok(4) by simp
  from upsertStageVariant_effect [OF this up] fr ex(2) example_found(2) have "e = None" by simp
  with up ex(1) example_plan example_found(1) facts(2) show ?thesis
    by (simp add: example_outcome_def process_def example_stage_request_def compressionStage_def
        executeStageTaskBatch_def)
qed


theorem compression_serves_planned_witness:
  "\<exists>v. FindEncodingVariant (ps_catalog (snd example_outcome)) ''app.js'' ''br'' = Some v \<and> v_SourceHash v = ''ab12'' \<and>
     written_exactly example_pipeline (snd example_outcome) v ''le''"
proof -
  have find: "FindAsset (ps_catalog example_pipeline_state) (pr_AssetPath example_stage_request) = Some example_script"
    using example_found(1) by (simp add: example_stage_request_def)
  have read: "pn_read example_pipeline (a_FullPath example_script) = Some ''let x=1''" by code_simp
  have planned: "example_task \<in> set (compression_Plan example_pipeline example_pipeline_state example_script example_stage_request)"
    by (simp add: example_plan)
  have worth: "worthwhile example_pipeline ''let x=1'' (tk_Encoding example_task) ''le'' ''.br''" by code_simp
  have run: "process example_pipeline [compressionStage example_pipeline] example_pipeline_state example_stage_request =
      (None, snd example_outcome)"
    using example_outcome_eq example_outcome_done by simp
  from compression_serves_planned [OF example_pipeline_ok find read run planned _ worth]
  show ?thesis by (simp add: example_task_def example_script_def)
qed

end
