(* ===== verification/ImageEngine.thy ===== *)
theory ImageEngine
  imports Stages
begin

text \<open>
  The image engines (\<open>internal/pipeline/image_engine*.go\<close>): the limits on a source and the estimate of the memory
  of a batch (\<open>image_engine_support.go\<close>), the memory budget (\<open>image_memory_budget.go\<close>), the engine on libvips
  (\<open>image_engine_libvips.go\<close>, \<open>_support.go\<close>, \<open>_export.go\<close>) and the engine of binaries without it
  (\<open>image_engine_disabled.go\<close>).

  libvips is a parameter: what it reads, computes and encodes, and which calls fail.  Its images live outside
  the Go heap, so the state has one cell per image that was opened and not closed yet, and a flag that is set
  when a closed image is used or closed again.  The semaphore of the budget is a parameter as well: whether
  an acquisition succeeded before the context ended.  Telemetry and logs are left out.
\<close>

section \<open>Limits\<close>

record imageSourceSnapshot =
  is_width :: int
  is_height :: int
  is_bytes :: int

definition imageSourceBytes :: "int \<Rightarrow> imageGenerateLimits \<Rightarrow> stage_error + int" where
  "imageSourceBytes n limits =
     (if n \<le> 0 then Inl ErrVariantSkipped
      else if il_MaxSourceBytes limits > 0 \<and> n > il_MaxSourceBytes limits then Inl ErrVariantSkipped
      else Inr n)"

text \<open>A product in 64 bits, absent when it overflows.\<close>

definition checkedImageMul :: "int \<Rightarrow> int \<Rightarrow> int option" where
  "checkedImageMul l r =
     (if l < 0 \<or> r < 0 then None
      else if l = 0 \<or> r = 0 then Some 0
      else if l > max_int64 div r then None
      else Some (l * r))"

definition imagePixelCount :: "int \<Rightarrow> int \<Rightarrow> int option" where
  "imagePixelCount width height = (if width \<le> 0 \<or> height \<le> 0 then Some 0 else checkedImageMul width height)"

definition validateImagePixelLimits :: "imageSourceSnapshot \<Rightarrow> imageGenerateLimits \<Rightarrow> stage_error option" where
  "validateImagePixelLimits source limits =
     (case imagePixelCount (is_width source) (is_height source) of
        None \<Rightarrow> Some ErrVariantSkipped
      | Some pixels \<Rightarrow>
          if il_MaxSourcePixels limits > 0 \<and> pixels > il_MaxSourcePixels limits then Some ErrVariantSkipped
          else (case checkedImageMul pixels 4 of
                  None \<Rightarrow> Some ErrVariantSkipped
                | Some decodeBytes \<Rightarrow>
                    if il_MaxMemoryBytes limits > 0 \<and> decodeBytes > il_MaxMemoryBytes limits then Some ErrVariantSkipped
                    else None))"

definition validateImageSourceLimits :: "imageSourceSnapshot \<Rightarrow> imageGenerateLimits \<Rightarrow> stage_error option" where
  "validateImageSourceLimits source limits =
     (if is_width source \<le> 0 \<or> is_height source \<le> 0 then Some ErrVariantSkipped
      else if il_MaxWidth limits > 0 \<and> is_width source > il_MaxWidth limits then Some ErrVariantSkipped
      else if il_MaxHeight limits > 0 \<and> is_height source > il_MaxHeight limits then Some ErrVariantSkipped
      else validateImagePixelLimits source limits)"

definition imageRawMemoryBytes :: "int \<Rightarrow> int \<Rightarrow> int" where
  "imageRawMemoryBytes width height =
     (case imagePixelCount width height of
        None \<Rightarrow> max_int64
      | Some pixels \<Rightarrow> (case checkedImageMul pixels 4 of None \<Rightarrow> max_int64 | Some bytes \<Rightarrow> bytes))"

definition saturatingImageAdd :: "int \<Rightarrow> int \<Rightarrow> int" where
  "saturatingImageAdd l r = (if l > max_int64 - r then max_int64 else l + r)"

definition scaledImageHeight :: "int \<Rightarrow> int \<Rightarrow> int \<Rightarrow> int" where
  "scaledImageHeight sourceHeight width sourceWidth =
     (if sourceHeight \<le> 0 \<or> width \<le> 0 \<or> sourceWidth \<le> 0 then 1
      else (case checkedImageMul sourceHeight width of
              None \<Rightarrow> sourceHeight | Some numerator \<Rightarrow> max 1 (numerator div sourceWidth)))"

definition normalizedImageOutputWidth :: "int \<Rightarrow> int \<Rightarrow> int" where
  "normalizedImageOutputWidth sourceWidth targetWidth =
     (if targetWidth \<le> 0 \<or> targetWidth \<ge> sourceWidth then sourceWidth else targetWidth)"

text \<open>The widths of the outputs, each once, in descending order.\<close>

definition uniqueImageOutputWidths :: "int \<Rightarrow> imageVariantGenerateRequest list \<Rightarrow> int list" where
  "uniqueImageOutputWidths sourceWidth requests =
     rev (sort (remdups (map (\<lambda>v. normalizedImageOutputWidth sourceWidth (ig_TargetWidth v)) requests)))"

definition estimateImageBatchMemoryBytes :: "int \<Rightarrow> int \<Rightarrow> imageVariantGenerateRequest list \<Rightarrow> int" where
  "estimateImageBatchMemoryBytes sourceWidth sourceHeight requests =
     foldl (\<lambda>totalBytes width.
              if width = sourceWidth then totalBytes
              else saturatingImageAdd totalBytes
                     (imageRawMemoryBytes width (scaledImageHeight sourceHeight width sourceWidth)))
       (imageRawMemoryBytes sourceWidth sourceHeight) (uniqueImageOutputWidths sourceWidth requests)"

definition clampImageQuality :: "int \<Rightarrow> int" where
  "clampImageQuality quality = (if quality < 1 then 1 else if quality > 100 then 100 else quality)"

section \<open>The images of libvips\<close>

record 'i vips_ops =
  vi_open :: "string \<Rightarrow> 'i option"
  vi_rotate :: "'i \<Rightarrow> 'i option"
  vi_width :: "'i \<Rightarrow> int"
  vi_height :: "'i \<Rightarrow> int"
  vi_copy :: "'i \<Rightarrow> 'i option"
  vi_resize :: "rat \<Rightarrow> 'i \<Rightarrow> 'i option"
  vi_export :: "string \<Rightarrow> int \<Rightarrow> 'i \<Rightarrow> bytes option"

record 'i vips_state =
  vs_images :: "nat \<rightharpoonup> 'i"
  vs_next :: nat
  vs_held :: int
  vs_misused :: bool

definition vips_new :: "'i \<Rightarrow> 'i vips_state \<Rightarrow> nat \<times> 'i vips_state" where
  "vips_new i st =
     (vs_next st, st\<lparr>vs_images := (vs_images st)(vs_next st \<mapsto> i), vs_next := Suc (vs_next st)\<rparr>)"

definition vips_close :: "nat \<Rightarrow> 'i vips_state \<Rightarrow> 'i vips_state" where
  "vips_close h st =
     (case vs_images st h of
        None \<Rightarrow> st\<lparr>vs_misused := True\<rparr> | Some _ \<Rightarrow> st\<lparr>vs_images := (vs_images st)(h := None)\<rparr>)"

text \<open>Reading from an image, and changing it in place.\<close>

definition vips_read :: "('i \<Rightarrow> 'a) \<Rightarrow> 'a \<Rightarrow> nat \<Rightarrow> 'i vips_state \<Rightarrow> 'a \<times> 'i vips_state" where
  "vips_read f dflt h st =
     (case vs_images st h of None \<Rightarrow> (dflt, st\<lparr>vs_misused := True\<rparr>) | Some i \<Rightarrow> (f i, st))"

definition vips_change :: "('i \<Rightarrow> 'i option) \<Rightarrow> nat \<Rightarrow> 'i vips_state \<Rightarrow> bool \<times> 'i vips_state" where
  "vips_change f h st =
     (case vs_images st h of
        None \<Rightarrow> (False, st\<lparr>vs_misused := True\<rparr>)
      | Some i \<Rightarrow> (case f i of None \<Rightarrow> (False, st) | Some j \<Rightarrow> (True, st\<lparr>vs_images := (vs_images st)(h \<mapsto> j)\<rparr>)))"

section \<open>The engine\<close>

record 'i libvipsImageEngine =
  le_vips :: "'i vips_ops"
  le_memory :: "int option"
  le_acquire :: "int \<Rightarrow> bool"
  le_startupErr :: bool

record libvipsSourceImage =
  ls_ref :: nat
  ls_width :: int
  ls_height :: int
  ls_bytes :: int

definition newImageMemoryBudget :: "int \<Rightarrow> int option" where
  "newImageMemoryBudget limit = (if limit \<le> 0 then None else Some limit)"

text \<open>What was acquired, for the release.\<close>

definition AcquireContext ::
    "int option \<Rightarrow> (int \<Rightarrow> bool) \<Rightarrow> int \<Rightarrow> 'i vips_state \<Rightarrow> (stage_error + int) \<times> 'i vips_state" where
  "AcquireContext budget acquire bytes st =
     (case budget of
        None \<Rightarrow> (Inr 0, st)
      | Some limit \<Rightarrow>
          if bytes \<le> 0 then (Inr 0, st)
          else if bytes > limit then (Inl ErrVariantSkipped, st)
          else if \<not> acquire bytes then (Inl ContextDone, st)
          else (Inr bytes, st\<lparr>vs_held := vs_held st + bytes\<rparr>))"

definition releaseMemory :: "int \<Rightarrow> 'i vips_state \<Rightarrow> 'i vips_state" where
  "releaseMemory bytes st = st\<lparr>vs_held := vs_held st - bytes\<rparr>"

definition acquireSourceMemory ::
    "'i libvipsImageEngine \<Rightarrow> imageGenerateBatchRequest \<Rightarrow> libvipsSourceImage \<Rightarrow> 'i vips_state \<Rightarrow>
     (stage_error + int) \<times> 'i vips_state" where
  "acquireSourceMemory engine request source st =
     AcquireContext (le_memory engine) (le_acquire engine)
       (estimateImageBatchMemoryBytes (ls_width source) (ls_height source) (ib_Variants request)) st"

definition loadSourceImage ::
    "'i libvipsImageEngine \<Rightarrow> imageGenerateBatchRequest \<Rightarrow> 'i vips_state \<Rightarrow>
     (stage_error + libvipsSourceImage \<times> int) \<times> 'i vips_state" where
  "loadSourceImage engine request st =
     (case imageSourceBytes (ib_SourceBytes request) (ib_Limits request) of
        Inl e \<Rightarrow> (Inl e, st)
      | Inr sourceBytes \<Rightarrow>
          (case vi_open (le_vips engine) (ib_SourcePath request) of
             None \<Rightarrow> (Inl EngineFailed, st)
           | Some i \<Rightarrow>
               (let (ref, st1) = vips_new i st;
                    (ok, st2) = vips_change (vi_rotate (le_vips engine)) ref st1
                in if \<not> ok then (Inl EngineFailed, vips_close ref st2)
                   else
                     (let (width, st3) = vips_read (vi_width (le_vips engine)) 0 ref st2;
                          (height, st4) = vips_read (vi_height (le_vips engine)) 0 ref st3;
                          source = \<lparr> ls_ref = ref, ls_width = width, ls_height = height, ls_bytes = sourceBytes \<rparr>
                      in case validateImageSourceLimits
                             \<lparr> is_width = width, is_height = height, is_bytes = sourceBytes \<rparr> (ib_Limits request) of
                           Some e \<Rightarrow> (Inl e, vips_close ref st4)
                         | None \<Rightarrow>
                             (case acquireSourceMemory engine request source st4 of
                                (Inl e, st5) \<Rightarrow> (Inl e, vips_close ref st5)
                              | (Inr acquired, st5) \<Rightarrow> (Inr (source, acquired), st5))))))"

definition resizeLibvipsImage ::
    "'i vips_ops \<Rightarrow> nat \<Rightarrow> int \<Rightarrow> int \<Rightarrow> 'i vips_state \<Rightarrow> nat option \<times> 'i vips_state" where
  "resizeLibvipsImage ops source sourceWidth width st =
     (let (copied, st1) = vips_read (vi_copy ops) None source st
      in case copied of
           None \<Rightarrow> (None, st1)
         | Some i \<Rightarrow>
             (let (resized, st2) = vips_new i st1;
                  (ok, st3) = vips_change (vi_resize ops (f64_quotient width sourceWidth)) resized st2
              in if ok then (Some resized, st3) else (None, vips_close resized st3)))"

text \<open>Each image of the pyramid is closed once, except the source.\<close>

definition closeLibvipsPyramid :: "(int \<times> nat) list \<Rightarrow> nat \<Rightarrow> 'i vips_state \<Rightarrow> 'i vips_state" where
  "closeLibvipsPyramid pyramid source st =
     snd (foldl (\<lambda>(closed, st) h. if h \<in> closed then (closed, st) else (insert h closed, vips_close h st))
            ({source}, st) (map snd pyramid))"

fun build_pyramid ::
    "'i vips_ops \<Rightarrow> libvipsSourceImage \<Rightarrow> int list \<Rightarrow> (int \<times> nat) list \<Rightarrow> nat \<Rightarrow> int \<Rightarrow> 'i vips_state \<Rightarrow>
     (stage_error + (int \<times> nat) list) \<times> 'i vips_state" where
  "build_pyramid ops source [] pyramid current currentWidth st = (Inr pyramid, st)"
| "build_pyramid ops source (width # widths) pyramid current currentWidth st =
     (if width = ls_width source then build_pyramid ops source widths pyramid current currentWidth st
      else if width > currentWidth then
        build_pyramid ops source widths ((width, ls_ref source) # pyramid) current currentWidth st
      else
        (case resizeLibvipsImage ops current currentWidth width st of
           (None, st') \<Rightarrow> (Inl EngineFailed, closeLibvipsPyramid pyramid (ls_ref source) st')
         | (Some resized, st') \<Rightarrow> build_pyramid ops source widths ((width, resized) # pyramid) resized width st'))"

definition buildLibvipsPyramid ::
    "'i vips_ops \<Rightarrow> libvipsSourceImage \<Rightarrow> imageVariantGenerateRequest list \<Rightarrow> 'i vips_state \<Rightarrow>
     (stage_error + (int \<times> nat) list) \<times> 'i vips_state" where
  "buildLibvipsPyramid ops source requests st =
     build_pyramid ops source (uniqueImageOutputWidths (ls_width source) requests)
       [(ls_width source, ls_ref source)] (ls_ref source) (ls_width source) st"

text \<open>The payload for a descriptor; the quality of PNG is not set.\<close>

definition exportLibvipsImagePayload ::
    "'i vips_ops \<Rightarrow> nat \<Rightarrow> string \<Rightarrow> int \<Rightarrow> 'i vips_state \<Rightarrow> (stage_error + bytes) \<times> 'i vips_state" where
  "exportLibvipsImagePayload ops out format quality st =
     (if format \<in> {''jpeg'', ''webp'', ''avif'', ''png''} then
        (case vips_read (vi_export ops format (if format = ''png'' then 0 else clampImageQuality quality)) None out st of
           (None, st') \<Rightarrow> (Inl EngineFailed, st') | (Some payload, st') \<Rightarrow> (Inr payload, st'))
      else (Inl EngineFailed, st))"

definition exportLibvipsImage ::
    "'i vips_ops \<Rightarrow> nat \<Rightarrow> string \<Rightarrow> int \<Rightarrow> 'i vips_state \<Rightarrow>
     (stage_error + bytes \<times> string \<times> string) \<times> 'i vips_state" where
  "exportLibvipsImage ops out format quality st =
     (case LookupImageDescriptor (NormalizeImageFormat format) of
        None \<Rightarrow> (Inl EngineFailed, st)
      | Some d \<Rightarrow>
          (case exportLibvipsImagePayload ops out (Name d) quality st of
             (Inl e, st') \<Rightarrow> (Inl e, st')
           | (Inr payload, st') \<Rightarrow> (Inr (payload, Extension d, MediaType d), st')))"

definition libvipsGenerateResult ::
    "'i vips_ops \<Rightarrow> libvipsSourceImage \<Rightarrow> nat \<Rightarrow> imageVariantGenerateRequest \<Rightarrow> bytes \<Rightarrow> string \<Rightarrow> string \<Rightarrow>
     'i vips_state \<Rightarrow> imageGenerateResult \<times> 'i vips_state" where
  "libvipsGenerateResult ops source out variant payload ext mediaType st =
     (let (width, st1) = vips_read (vi_width ops) 0 out st;
          (height, st2) = vips_read (vi_height ops) 0 out st1
      in (\<lparr> ir_Payload = payload, ir_Width = width, ir_Height = height, ir_SourceWidth = ls_width source,
            ir_SourceHeight = ls_height source, ir_SourceBytes = ls_bytes source,
            ir_TargetFormat = NormalizeImageFormat (ig_TargetFormat variant), ir_MediaType = mediaType,
            ir_Extension = ext \<rparr>, st2))"

definition exportLibvipsVariant ::
    "'i vips_ops \<Rightarrow> imageGenerateBatchRequest \<Rightarrow> libvipsSourceImage \<Rightarrow> (int \<times> nat) list \<Rightarrow>
     imageVariantGenerateRequest \<Rightarrow> 'i vips_state \<Rightarrow> (stage_error + imageGenerateResult) \<times> 'i vips_state" where
  "exportLibvipsVariant ops request source pyramid variant st =
     (case map_of pyramid (normalizedImageOutputWidth (ls_width source) (ig_TargetWidth variant)) of
        None \<Rightarrow> (Inl EngineFailed, st)
      | Some out \<Rightarrow>
          (case exportLibvipsImage ops out (ig_TargetFormat variant) (ib_JPEGQuality request) st of
             (Inl e, st') \<Rightarrow> (Inl e, st')
           | (Inr (payload, ext, mediaType), st') \<Rightarrow>
               (case libvipsGenerateResult ops source out variant payload ext mediaType st' of
                  (r, st'') \<Rightarrow> (Inr r, st''))))"

fun exportLibvipsVariants ::
    "'i vips_ops \<Rightarrow> imageGenerateBatchRequest \<Rightarrow> libvipsSourceImage \<Rightarrow> (int \<times> nat) list \<Rightarrow>
     imageVariantGenerateRequest list \<Rightarrow> 'i vips_state \<Rightarrow> (stage_error + imageGenerateResult list) \<times> 'i vips_state" where
  "exportLibvipsVariants ops request source pyramid [] st = (Inr [], st)"
| "exportLibvipsVariants ops request source pyramid (v # vs) st =
     (case exportLibvipsVariant ops request source pyramid v st of
        (Inl e, st') \<Rightarrow> (Inl e, st')
      | (Inr r, st') \<Rightarrow>
          (case exportLibvipsVariants ops request source pyramid vs st' of
             (Inl e, st'') \<Rightarrow> (Inl e, st'') | (Inr rs, st'') \<Rightarrow> (Inr (r # rs), st'')))"

definition generateLibvipsVariants ::
    "'i vips_ops \<Rightarrow> imageGenerateBatchRequest \<Rightarrow> libvipsSourceImage \<Rightarrow> 'i vips_state \<Rightarrow>
     (stage_error + imageGenerateResult list) \<times> 'i vips_state" where
  "generateLibvipsVariants ops request source st =
     (case buildLibvipsPyramid ops source (ib_Variants request) st of
        (Inl e, st') \<Rightarrow> (Inl e, st')
      | (Inr pyramid, st') \<Rightarrow>
          (case exportLibvipsVariants ops request source pyramid (ib_Variants request) st' of
             (res, st'') \<Rightarrow> (res, closeLibvipsPyramid pyramid (ls_ref source) st'')))"

definition GenerateBatch ::
    "'i libvipsImageEngine \<Rightarrow> imageGenerateBatchRequest \<Rightarrow> 'i vips_state \<Rightarrow>
     (stage_error + imageGenerateResult list) \<times> 'i vips_state" where
  "GenerateBatch engine request st =
     (if le_startupErr engine then (Inl EngineFailed, st)
      else if ib_Variants request = [] then (Inr [], st)
      else
        (case loadSourceImage engine request st of
           (Inl e, st') \<Rightarrow> (Inl e, st')
         | (Inr (source, acquired), st') \<Rightarrow>
             (case generateLibvipsVariants (le_vips engine) request source st' of
                (res, st'') \<Rightarrow> (res, releaseMemory acquired (vips_close (ls_ref source) st'')))))"

definition SupportsSourceMediaType :: "'i libvipsImageEngine \<Rightarrow> string \<Rightarrow> bool" where
  "SupportsSourceMediaType engine mediaType =
     (if le_startupErr engine then False else ImageFormat mediaType \<in> {''jpeg'', ''png'', ''webp'', ''avif''})"

definition SupportedTargetFormats :: "'i libvipsImageEngine \<Rightarrow> string list option" where
  "SupportedTargetFormats engine =
     (if le_startupErr engine then Some [] else Some [''jpeg'', ''png'', ''webp'', ''avif''])"

definition newLibvipsImageEngine :: "'i vips_ops \<Rightarrow> ImageConfig \<Rightarrow> (int \<Rightarrow> bool) \<Rightarrow> bool \<Rightarrow> 'i libvipsImageEngine" where
  "newLibvipsImageEngine ops cfg acquire failed =
     \<lparr> le_vips = ops, le_memory = newImageMemoryBudget (ic_MaxMemoryBytes cfg), le_acquire = acquire,
       le_startupErr = failed \<rparr>"

text \<open>The engine as the stage sees it, started with no image open.\<close>

definition no_images :: "'i vips_state" where
  "no_images = \<lparr> vs_images = Map.empty, vs_next = 0, vs_held = 0, vs_misused = False \<rparr>"

definition libvips_engine :: "'i libvipsImageEngine \<Rightarrow> image_engine" where
  "libvips_engine engine =
     \<lparr> ie_Name = ''libvips'', ie_SupportsSourceMediaType = SupportsSourceMediaType engine,
       ie_SupportedTargetFormats = SupportedTargetFormats engine,
       ie_GenerateBatch = (\<lambda>request. fst (GenerateBatch engine request no_images)) \<rparr>"

definition disabledImageEngine :: image_engine where
  "disabledImageEngine =
     \<lparr> ie_Name = ''disabled'', ie_SupportsSourceMediaType = (\<lambda>_. False), ie_SupportedTargetFormats = Some [],
       ie_GenerateBatch = (\<lambda>_. Inl ErrVariantSkipped) \<rparr>"

definition validateImageEngineForWarmup :: "ImageConfig \<Rightarrow> stage_error option" where
  "validateImageEngineForWarmup cfg = (if ic_Enable cfg then Some EngineFailed else None)"

section \<open>No image is lost\<close>

definition unused_above :: "'i vips_state \<Rightarrow> bool" where
  "unused_above st \<longleftrightarrow> (\<forall>h\<ge>vs_next st. vs_images st h = None)"

text \<open>The state \<open>st\<close> differs from \<open>st0\<close> by the open images \<open>H\<close>, all opened since.\<close>

definition opened :: "'i vips_state \<Rightarrow> nat set \<Rightarrow> 'i vips_state \<Rightarrow> bool" where
  "opened st0 H st \<longleftrightarrow>
     unused_above st \<and> vs_held st = vs_held st0 \<and> vs_misused st = vs_misused st0 \<and>
     (\<forall>h\<in>H. vs_images st0 h = None \<and> (\<exists>i. vs_images st h = Some i)) \<and>
     (\<forall>h. h \<notin> H \<longrightarrow> vs_images st h = vs_images st0 h)"

lemma opened_refl: "unused_above st \<Longrightarrow> opened st {} st"
  by (simp add: opened_def)

lemma opened_new:
  assumes "opened st0 H st" "unused_above st0" "vs_next st0 \<le> vs_next st" "vips_new i st = (h, st')"
  shows "h \<notin> H \<and> opened st0 (insert h H) st' \<and> vs_next st0 \<le> vs_next st'"
proof -
  have h: "h = vs_next st" "st' = st\<lparr>vs_images := (vs_images st)(h \<mapsto> i), vs_next := Suc h\<rparr>"
    using assms(4) by (auto simp: vips_new_def)
  then have "vs_images st h = None" "vs_images st0 h = None"
    using assms(1-3) by (auto simp: opened_def unused_above_def)
  with h assms(1,3) show ?thesis by (auto simp: opened_def unused_above_def)
qed

lemma opened_close: "opened st0 (insert h H) st \<Longrightarrow> h \<notin> H \<Longrightarrow> opened st0 H (vips_close h st)"
  by (auto simp: opened_def vips_close_def unused_above_def split: option.splits)

lemma vips_close_next [simp]: "vs_next (vips_close h st) = vs_next st"
  by (simp add: vips_close_def split: option.splits)

lemma opened_read: "opened st0 H st \<Longrightarrow> h \<in> H \<Longrightarrow> vips_read f d h st = (x, st') \<Longrightarrow> st' = st"
  by (auto simp: opened_def vips_read_def split: option.splits)

lemma opened_change:
  assumes "opened st0 H st" "h \<in> H" "vips_change f h st = (ok, st')"
  shows "opened st0 H st' \<and> vs_next st' = vs_next st"
proof -
  obtain i where "vs_images st h = Some i" using assms(1,2) by (auto simp: opened_def)
  with assms show ?thesis
    by (auto simp: opened_def vips_change_def unused_above_def split: option.splits if_splits)
qed

lemma close_all:
  "opened st0 (insert s (set hs - C)) st \<Longrightarrow> s \<in> C \<Longrightarrow>
     opened st0 {s} (snd (foldl (\<lambda>(closed, st) h. if h \<in> closed then (closed, st) else (insert h closed, vips_close h st))
       (C, st) hs))"
proof (induction hs arbitrary: C st)
  case (Cons h hs)
  show ?case
  proof (cases "h \<in> C")
    case True
    then have "set (h # hs) - C = set hs - C" by auto
    with Cons True show ?thesis by simp
  next
    case False
    then have "insert s (set (h # hs) - C) = insert h (insert s (set hs - insert h C))"
      and "h \<notin> insert s (set hs - insert h C)" using Cons.prems(2) by auto
    with Cons.prems opened_close have "opened st0 (insert s (set hs - insert h C)) (vips_close h st)" by metis
    with Cons.IH [OF this] Cons.prems(2) False show ?thesis by simp
  qed
qed simp

lemma closeLibvipsPyramid_closes:
  "opened st0 (insert s (snd ` set pyramid)) st \<Longrightarrow> opened st0 {s} (closeLibvipsPyramid pyramid s st)"
  using close_all [of st0 s "map snd pyramid" "{s}" st] by (simp add: closeLibvipsPyramid_def insert_Diff_if)

lemma resizeLibvipsImage_opened:
  assumes "opened st0 H st" "unused_above st0" "vs_next st0 \<le> vs_next st" "h \<in> H"
    and "resizeLibvipsImage ops h sw w st = (res, st')"
  shows "vs_next st0 \<le> vs_next st' \<and>
    (case res of None \<Rightarrow> opened st0 H st' | Some r \<Rightarrow> opened st0 (insert r H) st')"
proof -
  obtain copied st1 where c: "vips_read (vi_copy ops) None h st = (copied, st1)" by fastforce
  note st1 = opened_read [OF assms(1,4) c]
  show ?thesis
  proof (cases copied)
    case None
    with assms c st1 show ?thesis by (auto simp: resizeLibvipsImage_def)
  next
    case (Some i)
    obtain r st2 where n: "vips_new i st1 = (r, st2)" by fastforce
    obtain ok st3 where x: "vips_change (vi_resize ops (f64_quotient w sw)) r st2 = (ok, st3)" by fastforce
    note o2 = opened_new [OF assms(1-3) n [unfolded st1]]
    then have o3: "opened st0 (insert r H) st3 \<and> vs_next st3 = vs_next st2"
      using opened_change [OF _ _ x] by blast
    have "(res, st') = (if ok then (Some r, st3) else (None, vips_close r st3))"
      using assms(5) c Some n x by (simp add: resizeLibvipsImage_def)
    with o2 o3 opened_close show ?thesis by (auto split: if_splits)
  qed
qed

text \<open>The calls that work on an open image succeed.\<close>

definition vips_works :: "'i vips_ops \<Rightarrow> bool" where
  "vips_works ops \<longleftrightarrow> (\<forall>i. vi_copy ops i \<noteq> None) \<and> (\<forall>x i. vi_resize ops x i \<noteq> None) \<and> (\<forall>f q i. vi_export ops f q i \<noteq> None)"

lemma resize_fails: "resizeLibvipsImage ops h sw w st = (None, st') \<Longrightarrow> vs_images st h = Some i \<Longrightarrow> \<not> vips_works ops"
  by (auto simp: resizeLibvipsImage_def vips_works_def vips_read_def vips_change_def vips_new_def Let_def
      split: option.splits if_splits)

lemma build_pyramid_opened:
  "opened st0 (insert (ls_ref source) (snd ` set pyramid)) st \<Longrightarrow> unused_above st0 \<Longrightarrow> vs_next st0 \<le> vs_next st \<Longrightarrow>
     current \<in> insert (ls_ref source) (snd ` set pyramid) \<Longrightarrow>
     build_pyramid ops source widths pyramid current currentWidth st = (res, st') \<Longrightarrow>
     (case res of
        Inl _ \<Rightarrow> opened st0 {ls_ref source} st' \<and> \<not> vips_works ops
      | Inr p \<Rightarrow> opened st0 (insert (ls_ref source) (snd ` set p)) st' \<and> fst ` set pyramid \<subseteq> fst ` set p \<and>
          (\<forall>w\<in>set widths. w = ls_width source \<or> w \<in> fst ` set p))"
proof (induction ops source widths pyramid current currentWidth st arbitrary: res st' rule: build_pyramid.induct)
  case (1 ops source pyramid current currentWidth st)
  then show ?case by auto
next
  case (2 ops source width widths pyramid current currentWidth st)
  consider (same) "width = ls_width source" | (larger) "width \<noteq> ls_width source" "width > currentWidth"
    | (smaller) "width \<noteq> ls_width source" "\<not> width > currentWidth" by blast
  then show ?case
  proof cases
    case same
    with "2.IH"(1) [OF same "2.prems"(1-4)] "2.prems"(5) show ?thesis by (auto split: sum.splits)
  next
    case larger
    have H: "insert (ls_ref source) (snd ` set ((width, ls_ref source) # pyramid)) =
        insert (ls_ref source) (snd ` set pyramid)" by simp
    from larger "2.IH"(2) [OF larger, unfolded H, OF "2.prems"(1-4)] "2.prems"(5) show ?thesis
      by (auto split: sum.splits)
  next
    case smaller
    obtain r st1 where rz: "resizeLibvipsImage ops current currentWidth width st = (r, st1)" by fastforce
    note o = resizeLibvipsImage_opened [OF "2.prems"(1-4) rz]
    show ?thesis
    proof (cases r)
      case None
      obtain i where "vs_images st current = Some i"
        using "2.prems"(1,4) unfolding opened_def by blast
      then have "\<not> vips_works ops" by (rule resize_fails [OF rz [unfolded None]])
      with o None smaller rz "2.prems"(5) closeLibvipsPyramid_closes show ?thesis by auto
    next
      case (Some h)
      have H: "insert (ls_ref source) (snd ` set ((width, h) # pyramid)) =
          insert h (insert (ls_ref source) (snd ` set pyramid))" by auto
      have "build_pyramid ops source widths ((width, h) # pyramid) h width st1 = (res, st')"
        using smaller rz Some "2.prems"(5) by simp
      with "2.IH"(3) [OF smaller rz [symmetric] Some, unfolded H] o Some "2.prems"(2) show ?thesis
        by (auto split: sum.splits)
    qed
  qed
qed

lemma pyramid_lookup:
  assumes "(\<exists>v\<in>set vs. w = normalizedImageOutputWidth sw (ig_TargetWidth v))"
  shows "w \<in> set (uniqueImageOutputWidths sw vs)"
  using assms by (auto simp: uniqueImageOutputWidths_def)

definition known_formats :: "imageVariantGenerateRequest list \<Rightarrow> bool" where
  "known_formats vs \<longleftrightarrow> (\<forall>v\<in>set vs. LookupImageDescriptor (NormalizeImageFormat (ig_TargetFormat v)) \<noteq> None)"

text \<open>What the engine produces for one request from the images of a pyramid that has the width.\<close>

lemma exportLibvipsVariant_result:
  assumes o: "opened st0 H st" "snd ` set pyramid \<subseteq> H"
    and w: "normalizedImageOutputWidth (ls_width source) (ig_TargetWidth v) \<in> fst ` set pyramid"
    and run: "exportLibvipsVariant ops request source pyramid v st = (res, st')"
  shows "st' = st \<and>
    (case res of
       Inl e \<Rightarrow> \<not> (vips_works ops \<and> known_formats [v])
     | Inr r \<Rightarrow> \<exists>d i q. LookupImageDescriptor (NormalizeImageFormat (ig_TargetFormat v)) = Some d \<and>
         i \<in> ran (vs_images st) \<and> vi_export ops (Name d) q i = Some (ir_Payload r) \<and>
         r = \<lparr> ir_Payload = ir_Payload r, ir_Width = vi_width ops i, ir_Height = vi_height ops i,
               ir_SourceWidth = ls_width source, ir_SourceHeight = ls_height source, ir_SourceBytes = ls_bytes source,
               ir_TargetFormat = NormalizeImageFormat (ig_TargetFormat v), ir_MediaType = MediaType d,
               ir_Extension = Extension d \<rparr>)"
proof -
  obtain out where out: "map_of pyramid (normalizedImageOutputWidth (ls_width source) (ig_TargetWidth v)) = Some out"
    using w by (metis imageE map_of_eq_None_iff not_None_eq image_eqI)
  then have outH: "out \<in> H" using map_of_SomeD o(2) by force
  then obtain i where i: "vs_images st out = Some i" using o(1) by (auto simp: opened_def)
  show ?thesis
  proof (cases "LookupImageDescriptor (NormalizeImageFormat (ig_TargetFormat v))")
    case None
    with run out show ?thesis by (auto simp: exportLibvipsVariant_def exportLibvipsImage_def known_formats_def)
  next
    case (Some d)
    then have fmt: "Name d \<in> {''jpeg'', ''webp'', ''avif'', ''png''}"
      unfolding LookupImageDescriptor_def
      by (drule_tac associate_Some) (auto simp: imageFormatDescriptors_def)
    define q where "q = (if Name d = ''png'' then 0 else clampImageQuality (ib_JPEGQuality request))"
    have pay: "exportLibvipsImagePayload ops out (Name d) (ib_JPEGQuality request) st =
        (case vi_export ops (Name d) q i of None \<Rightarrow> Inl EngineFailed | Some p \<Rightarrow> Inr p, st)"
      unfolding exportLibvipsImagePayload_def if_P [OF fmt] q_def [symmetric]
      by (simp add: vips_read_def i split: option.splits)
    show ?thesis
    proof (cases "vi_export ops (Name d) q i")
      case None
      then have "exportLibvipsImage ops out (ig_TargetFormat v) (ib_JPEGQuality request) st = (Inl EngineFailed, st)"
        using Some pay by (simp add: exportLibvipsImage_def)
      with run out None show ?thesis by (auto simp: exportLibvipsVariant_def vips_works_def simp del: not_None_eq)
    next
      case (Some p)
      then have "exportLibvipsImage ops out (ig_TargetFormat v) (ib_JPEGQuality request) st =
          (Inr (p, Extension d, MediaType d), st)"
        using \<open>LookupImageDescriptor _ = Some d\<close> pay by (simp add: exportLibvipsImage_def)
      with run out i have "st' = st" "res = Inr \<lparr> ir_Payload = p, ir_Width = vi_width ops i, ir_Height = vi_height ops i,
          ir_SourceWidth = ls_width source, ir_SourceHeight = ls_height source, ir_SourceBytes = ls_bytes source,
          ir_TargetFormat = NormalizeImageFormat (ig_TargetFormat v), ir_MediaType = MediaType d,
          ir_Extension = Extension d \<rparr>"
        by (simp_all add: exportLibvipsVariant_def libvipsGenerateResult_def vips_read_def)
      moreover have "i \<in> ran (vs_images st)" using i by (rule ranI)
      ultimately show ?thesis using Some \<open>LookupImageDescriptor _ = Some d\<close> by auto
    qed
  qed
qed

definition result_for :: "libvipsSourceImage \<Rightarrow> imageVariantGenerateRequest \<Rightarrow> imageGenerateResult \<Rightarrow> bool" where
  "result_for source v r \<longleftrightarrow>
     ir_TargetFormat r = NormalizeImageFormat (ig_TargetFormat v) \<and>
     (\<exists>d. LookupImageDescriptor (ir_TargetFormat r) = Some d \<and> ir_MediaType r = MediaType d \<and> ir_Extension r = Extension d) \<and>
     ir_SourceWidth r = ls_width source \<and> ir_SourceHeight r = ls_height source \<and> ir_SourceBytes r = ls_bytes source"

lemma exportLibvipsVariants_results:
  assumes o: "opened st0 H st" "snd ` set pyramid \<subseteq> H"
  shows "(\<And>v. v \<in> set vs \<Longrightarrow> normalizedImageOutputWidth (ls_width source) (ig_TargetWidth v) \<in> fst ` set pyramid) \<Longrightarrow>
    exportLibvipsVariants ops request source pyramid vs st = (res, st') \<Longrightarrow>
    st' = st \<and>
    (case res of
       Inl e \<Rightarrow> \<not> (vips_works ops \<and> known_formats vs)
     | Inr rs \<Rightarrow> list_all2 (result_for source) vs rs)"
proof (induction vs arbitrary: res st')
  case (Cons v vs)
  obtain r st1 where one: "exportLibvipsVariant ops request source pyramid v st = (r, st1)" by fastforce
  note res1 = exportLibvipsVariant_result [OF o Cons.prems(1) [OF list.set_intros(1)] one]
  then have st1: "st1 = st" by blast
  show ?case
  proof (cases r)
    case (Inl e)
    with res1 one Cons.prems(2) show ?thesis by (auto simp: known_formats_def)
  next
    case (Inr x)
    with res1 have x: "result_for source v x"
      by (auto simp: result_for_def) (metis imageGenerateResult.select_convs)+
    obtain rs st2 where rest: "exportLibvipsVariants ops request source pyramid vs st = (rs, st2)" by fastforce
    have IH: "st2 = st \<and> (case rs of
       Inl e \<Rightarrow> \<not> (vips_works ops \<and> known_formats vs)
     | Inr rs \<Rightarrow> list_all2 (result_for source) vs rs)"
      using Cons.IH [OF _ rest] Cons.prems(1) by simp
    have "(res, st') = (case rs of Inl e \<Rightarrow> (Inl e, st2) | Inr ys \<Rightarrow> (Inr (x # ys), st2))"
      using Cons.prems(2) one Inr st1 rest by simp
    with IH x show ?thesis by (cases rs) (auto simp: known_formats_def)
  qed
qed simp

lemma generateLibvipsVariants_results:
  assumes o: "opened st0 {ls_ref source} st" "unused_above st0" "vs_next st0 \<le> vs_next st"
    and run: "generateLibvipsVariants ops request source st = (res, st')"
  shows "opened st0 {ls_ref source} st' \<and>
    (case res of
       Inl e \<Rightarrow> \<not> (vips_works ops \<and> known_formats (ib_Variants request))
     | Inr rs \<Rightarrow> list_all2 (result_for source) (ib_Variants request) rs)"
proof -
  let ?vs = "ib_Variants request" and ?s = "ls_ref source"
  obtain p st1 where build: "buildLibvipsPyramid ops source ?vs st = (p, st1)" by fastforce
  have b: "case p of
      Inl _ \<Rightarrow> opened st0 {?s} st1 \<and> \<not> vips_works ops
    | Inr q \<Rightarrow> opened st0 (insert ?s (snd ` set q)) st1 \<and> ls_width source \<in> fst ` set q \<and>
        (\<forall>w\<in>set (uniqueImageOutputWidths (ls_width source) ?vs). w = ls_width source \<or> w \<in> fst ` set q)"
    using build_pyramid_opened [of st0 source "[(ls_width source, ls_ref source)]" st ?s ops
      "uniqueImageOutputWidths (ls_width source) ?vs" "ls_width source" p st1] o(1-3) build
    by (cases p) (simp_all add: buildLibvipsPyramid_def)
  show ?thesis
  proof (cases p)
    case (Inl e)
    with b Inl run build show ?thesis by (auto simp: generateLibvipsVariants_def)
  next
    case (Inr pyr)
    obtain r st2 where ex: "exportLibvipsVariants ops request source pyr ?vs st1 = (r, st2)" by fastforce
    have o1: "opened st0 (insert ?s (snd ` set pyr)) st1" using b Inr by simp
    have "\<And>v. v \<in> set ?vs \<Longrightarrow> normalizedImageOutputWidth (ls_width source) (ig_TargetWidth v) \<in> fst ` set pyr"
    proof -
      fix v assume "v \<in> set ?vs"
      then have "normalizedImageOutputWidth (ls_width source) (ig_TargetWidth v) \<in>
          set (uniqueImageOutputWidths (ls_width source) ?vs)" by (intro pyramid_lookup) blast
      moreover have "ls_width source \<in> fst ` set pyr"
        "\<forall>w\<in>set (uniqueImageOutputWidths (ls_width source) ?vs). w = ls_width source \<or> w \<in> fst ` set pyr"
        using b Inr by simp_all
      ultimately show "normalizedImageOutputWidth (ls_width source) (ig_TargetWidth v) \<in> fst ` set pyr" by metis
    qed
    from exportLibvipsVariants_results [OF o1 _ this ex]
    have e: "st2 = st1 \<and> (case r of Inl e \<Rightarrow> \<not> (vips_works ops \<and> known_formats ?vs)
      | Inr rs \<Rightarrow> list_all2 (result_for source) ?vs rs)" by blast
    then have "opened st0 {?s} (closeLibvipsPyramid pyr ?s st2)"
      using closeLibvipsPyramid_closes [OF o1] by simp
    with e run build Inr ex show ?thesis by (simp add: generateLibvipsVariants_def)
  qed
qed


text \<open>The source an execution works on is within the limits, and its memory within the budget.\<close>

definition within_limits :: "imageGenerateLimits \<Rightarrow> libvipsSourceImage \<Rightarrow> bool" where
  "within_limits l source \<longleftrightarrow>
     0 < ls_width source \<and> 0 < ls_height source \<and> 0 < ls_bytes source \<and>
     (il_MaxSourceBytes l > 0 \<longrightarrow> ls_bytes source \<le> il_MaxSourceBytes l) \<and>
     (il_MaxWidth l > 0 \<longrightarrow> ls_width source \<le> il_MaxWidth l) \<and>
     (il_MaxHeight l > 0 \<longrightarrow> ls_height source \<le> il_MaxHeight l) \<and>
     (il_MaxSourcePixels l > 0 \<longrightarrow> ls_width source * ls_height source \<le> il_MaxSourcePixels l) \<and>
     (il_MaxMemoryBytes l > 0 \<longrightarrow> ls_width source * ls_height source * 4 \<le> il_MaxMemoryBytes l) \<and>
     ls_width source * ls_height source * 4 \<le> max_int64"

lemma checkedImageMul_exact:
  assumes "0 \<le> l" "0 \<le> r"
  shows "checkedImageMul l r = (if l * r \<le> max_int64 then Some (l * r) else None)"
proof (cases "l = 0 \<or> r = 0")
  case True
  with assms show ?thesis by (auto simp: checkedImageMul_def max_int64_def)
next
  case False
  then have "0 < r" "0 < l" using assms by auto
  have "l > max_int64 div r \<longleftrightarrow> l * r > max_int64"
  proof
    assume "l > max_int64 div r"
    then have "(max_int64 div r + 1) * r \<le> l * r" using \<open>0 < r\<close> by (intro mult_right_mono) auto
    moreover have "(max_int64 div r + 1) * r = max_int64 div r * r + r" by (simp add: distrib_right)
    then have "max_int64 < (max_int64 div r + 1) * r"
      using div_mult_mod_eq [of max_int64 r] pos_mod_bound [OF \<open>0 < r\<close>, of max_int64] by linarith
    ultimately show "l * r > max_int64" by linarith
  next
    assume big: "l * r > max_int64"
    show "l > max_int64 div r"
    proof (rule ccontr)
      assume "\<not> l > max_int64 div r"
      then have "l * r \<le> max_int64 div r * r" using \<open>0 < r\<close> by (intro mult_right_mono) auto
      also have "\<dots> \<le> max_int64"
        using div_mult_mod_eq [of max_int64 r] pos_mod_sign [OF \<open>0 < r\<close>, of max_int64] by linarith
      finally show False using big by simp
    qed
  qed
  then show ?thesis using False assms by (auto simp: checkedImageMul_def)
qed

lemma imageSourceBytes_limits:
  "imageSourceBytes n l = Inr b \<Longrightarrow> b = n \<and> 0 < n \<and> (il_MaxSourceBytes l > 0 \<longrightarrow> n \<le> il_MaxSourceBytes l)"
  by (auto simp: imageSourceBytes_def split: if_splits)

lemma validateImageSourceLimits_limits:
  assumes "validateImageSourceLimits \<lparr> is_width = w, is_height = h, is_bytes = b \<rparr> l = None" "0 < b"
    "il_MaxSourceBytes l > 0 \<longrightarrow> b \<le> il_MaxSourceBytes l"
  shows "within_limits l \<lparr> ls_ref = ref, ls_width = w, ls_height = h, ls_bytes = b \<rparr>"
proof -
  have pos: "0 < w" "0 < h" using assms(1) by (auto simp: validateImageSourceLimits_def split: if_splits)
  then have "0 \<le> w * h" by simp
  with pos assms show ?thesis
    by (auto simp: validateImageSourceLimits_def validateImagePixelLimits_def imagePixelCount_def checkedImageMul_exact
        within_limits_def split: if_splits)
qed

text \<open>What loading a source leaves: one image more when it succeeded, nothing otherwise.\<close>

lemma loadSourceImage_results:
  assumes un: "unused_above st" and run: "loadSourceImage engine request st = (res, st')"
  shows "vs_next st \<le> vs_next st' \<and>
    (case res of
       Inl e \<Rightarrow> opened st {} st'
     | Inr (source, acquired) \<Rightarrow>
         opened st {ls_ref source} (st'\<lparr>vs_held := vs_held st\<rparr>) \<and> vs_held st' = vs_held st + acquired \<and>
         within_limits (ib_Limits request) source \<and>
         (\<forall>limit. le_memory engine = Some limit \<longrightarrow> 0 \<le> limit \<longrightarrow>
            estimateImageBatchMemoryBytes (ls_width source) (ls_height source) (ib_Variants request) \<le> limit))"
proof -
  consider (early) e where "res = Inl e" "st' = st"
    | (read) n i where "imageSourceBytes (ib_SourceBytes request) (ib_Limits request) = Inr n"
      "vi_open (le_vips engine) (ib_SourcePath request) = Some i"
    using run by (auto simp: loadSourceImage_def split: sum.splits option.splits)
  then show ?thesis
  proof cases
    case early
    then show ?thesis using opened_refl [OF un] by simp
  next
    case read
    obtain ref st1 where n: "vips_new i st = (ref, st1)" by fastforce
    obtain ok st2 where r: "vips_change (vi_rotate (le_vips engine)) ref st1 = (ok, st2)" by fastforce
    obtain w st3 where w: "vips_read (vi_width (le_vips engine)) 0 ref st2 = (w, st3)" by fastforce
    obtain h st4 where h: "vips_read (vi_height (le_vips engine)) 0 ref st3 = (h, st4)" by fastforce
    define source where "source = \<lparr> ls_ref = ref, ls_width = w, ls_height = h, ls_bytes = n \<rparr>"
    obtain acq st5 where a: "acquireSourceMemory engine request source st4 = (acq, st5)" by fastforce
    have o1: "opened st {ref} st1 \<and> vs_next st \<le> vs_next st1" using opened_new [OF opened_refl [OF un] un _ n] by simp
    then have o2: "opened st {ref} st2" "vs_next st \<le> vs_next st2" using opened_change [OF _ _ r] by auto
    have st3: "st3 = st2" using opened_read [OF o2(1) _ w] by simp
    then have st4: "st4 = st2" using opened_read [OF o2(1) _ h [unfolded st3]] by simp
    have closed: "opened st {} (vips_close ref st2) \<and> vs_next st \<le> vs_next (vips_close ref st2)"
      using opened_close [of st ref "{}" st2] o2 by simp
    note load = run [unfolded loadSourceImage_def read sum.case option.case n r w h Let_def prod.case source_def [symmetric] a]
    show ?thesis
    proof (cases ok)
      case False
      with load closed show ?thesis by auto
    next
      case True
      show ?thesis
      proof (cases "validateImageSourceLimits \<lparr> is_width = w, is_height = h, is_bytes = n \<rparr> (ib_Limits request)")
        case (Some e)
        with load True closed st4 show ?thesis by auto
      next
        case None
        have lim: "within_limits (ib_Limits request) source"
          unfolding source_def using validateImageSourceLimits_limits [OF None] imageSourceBytes_limits [OF read(1)] by blast
        show ?thesis
        proof (cases acq)
          case (Inl e)
          then have "st5 = st2" using a st4
            by (auto simp: acquireSourceMemory_def AcquireContext_def split: option.splits if_splits)
          with load True None Inl closed show ?thesis by auto
        next
          case (Inr k)
          then have "st5 = st2\<lparr>vs_held := vs_held st2 + k\<rparr>" and
            "\<forall>limit. le_memory engine = Some limit \<longrightarrow> 0 \<le> limit \<longrightarrow>
              estimateImageBatchMemoryBytes (ls_width source) (ls_height source) (ib_Variants request) \<le> limit"
            using a st4 by (auto simp: acquireSourceMemory_def AcquireContext_def split: option.splits if_splits)
          moreover have "res = Inr (source, k)" "st' = st5" using load True None Inr by simp_all
          moreover have "vs_held st2 = vs_held st" using o2 by (simp add: opened_def)
          moreover have "ls_ref source = ref" by (simp add: source_def)
          ultimately show ?thesis using o2 lim by (simp add: opened_def unused_above_def)
        qed
      qed
    qed
  qed
qed


lemma GenerateBatch_results:
  assumes un: "unused_above st" and run: "GenerateBatch engine request st = (res, st')"
  shows "opened st {} st'"
    and "res = Inr rs \<Longrightarrow> ib_Variants request \<noteq> [] \<Longrightarrow>
      \<exists>source. within_limits (ib_Limits request) source \<and> list_all2 (result_for source) (ib_Variants request) rs \<and>
        (\<forall>limit. le_memory engine = Some limit \<longrightarrow> 0 \<le> limit \<longrightarrow>
           estimateImageBatchMemoryBytes (ls_width source) (ls_height source) (ib_Variants request) \<le> limit)"
    and "res = Inl e \<Longrightarrow> \<not> le_startupErr engine \<Longrightarrow> vips_works (le_vips engine) \<Longrightarrow> known_formats (ib_Variants request) \<Longrightarrow>
      fst (loadSourceImage engine request st) = Inl e"
proof -
  let ?P = "opened st {} st' \<and>
    (\<forall>rs. res = Inr rs \<longrightarrow> ib_Variants request \<noteq> [] \<longrightarrow>
      (\<exists>source. within_limits (ib_Limits request) source \<and> list_all2 (result_for source) (ib_Variants request) rs \<and>
        (\<forall>limit. le_memory engine = Some limit \<longrightarrow> 0 \<le> limit \<longrightarrow>
           estimateImageBatchMemoryBytes (ls_width source) (ls_height source) (ib_Variants request) \<le> limit))) \<and>
    (\<forall>e. res = Inl e \<longrightarrow> \<not> le_startupErr engine \<longrightarrow> vips_works (le_vips engine) \<longrightarrow> known_formats (ib_Variants request) \<longrightarrow>
      fst (loadSourceImage engine request st) = Inl e)"
  have ?P
  proof (cases "le_startupErr engine \<or> ib_Variants request = []")
    case True
    with run opened_refl [OF un] show ?thesis by (auto simp: GenerateBatch_def split: if_splits)
  next
    case False
    obtain l st1 where l: "loadSourceImage engine request st = (l, st1)" by fastforce
    note load = loadSourceImage_results [OF un l]
    show ?thesis
    proof (cases l)
      case (Inl e)
      with False run l load show ?thesis by (auto simp: GenerateBatch_def)
    next
      case (Inr sa)
      then obtain source k where sa: "l = Inr (source, k)" by (cases sa) simp
      obtain r st2 where g: "generateLibvipsVariants (le_vips engine) request source st1 = (r, st2)" by fastforce
      define st0 where "st0 = st\<lparr>vs_held := vs_held st + k\<rparr>"
      have "opened st0 {ls_ref source} st1" "unused_above st0" "vs_next st0 \<le> vs_next st1"
        using load sa un by (auto simp: st0_def opened_def unused_above_def)
      note gen = generateLibvipsVariants_results [OF this g]
      have res: "res = r" "st' = releaseMemory k (vips_close (ls_ref source) st2)"
        using False run l sa g by (simp_all add: GenerateBatch_def)
      have "opened st0 {} (vips_close (ls_ref source) st2)"
        using gen opened_close [of st0 "ls_ref source" "{}" st2] by simp
      then have "opened st {} st'"
        by (auto simp: res st0_def opened_def releaseMemory_def unused_above_def)
      with gen load sa res show ?thesis by (auto simp: l split: sum.splits)
    qed
  qed
  then show "opened st {} st'"
    and "res = Inr rs \<Longrightarrow> ib_Variants request \<noteq> [] \<Longrightarrow>
      \<exists>source. within_limits (ib_Limits request) source \<and> list_all2 (result_for source) (ib_Variants request) rs \<and>
        (\<forall>limit. le_memory engine = Some limit \<longrightarrow> 0 \<le> limit \<longrightarrow>
           estimateImageBatchMemoryBytes (ls_width source) (ls_height source) (ib_Variants request) \<le> limit)"
    and "res = Inl e \<Longrightarrow> \<not> le_startupErr engine \<Longrightarrow> vips_works (le_vips engine) \<Longrightarrow> known_formats (ib_Variants request) \<Longrightarrow>
      fst (loadSourceImage engine request st) = Inl e"
    by blast+
qed

text \<open>C19: a batch of images leaks nothing and never touches a closed image: whichever call of libvips fails, whatever
  the limits reject and whether or not the budget was granted, exactly the images that were open before
  are open afterwards with their content, the memory that was acquired has been released, and no image was used
  or closed after it had been closed.\<close>

theorem GenerateBatch_no_leak:
  assumes "unused_above st" and "GenerateBatch engine request st = (res, st')"
  shows "vs_images st' = vs_images st \<and> vs_held st' = vs_held st \<and> vs_misused st' = vs_misused st"
  using GenerateBatch_results(1) [OF assms] by (auto simp: opened_def)

text \<open>C20: a batch is complete and bounded: when it succeeds there is one result for each requested variant, in the order
  of the requests, with the media type and extension of its format; they come from a source within every
  configured limit, whose estimated memory is within the budget; and when libvips works and the formats are
  known, only the loading of the source can make it fail.\<close>

theorem GenerateBatch_complete:
  assumes "unused_above st" "\<not> le_startupErr engine" "ib_Variants request \<noteq> []" "le_memory engine = newImageMemoryBudget budget"
  shows "case fst (GenerateBatch engine request st) of
      Inl e \<Rightarrow> vips_works (le_vips engine) \<and> known_formats (ib_Variants request) \<longrightarrow>
        fst (loadSourceImage engine request st) = Inl e
    | Inr rs \<Rightarrow> \<exists>source. within_limits (ib_Limits request) source \<and>
        list_all2 (result_for source) (ib_Variants request) rs \<and>
        (0 < budget \<longrightarrow>
          estimateImageBatchMemoryBytes (ls_width source) (ls_height source) (ib_Variants request) \<le> budget)"
proof (cases "fst (GenerateBatch engine request st)")
  case (Inl e)
  with GenerateBatch_results(3) [OF assms(1) surjective_pairing Inl] assms(2) show ?thesis by auto
next
  case (Inr rs)
  have "0 < budget \<Longrightarrow> le_memory engine = Some budget" using assms(4) by (simp add: newImageMemoryBudget_def)
  with GenerateBatch_results(2) [OF assms(1) surjective_pairing Inr assms(3)] show ?thesis
    by (fastforce simp: Inr)
qed


section \<open>The estimate of the memory\<close>

definition raw_bytes :: "int \<Rightarrow> int \<Rightarrow> int" where
  "raw_bytes w h = 4 * (w * h)"

text \<open>What the outputs of the batch and the source take, decoded, without any bound.\<close>

definition batch_bytes :: "int \<Rightarrow> int \<Rightarrow> imageVariantGenerateRequest list \<Rightarrow> int" where
  "batch_bytes sw sh vs =
     raw_bytes sw sh + (\<Sum>w\<in>set (uniqueImageOutputWidths sw vs) - {sw}. raw_bytes w (max 1 (sh * w div sw)))"

lemma imageRawMemoryBytes_exact:
  assumes "0 < w" "0 < h"
  shows "imageRawMemoryBytes w h = min max_int64 (raw_bytes w h)"
proof -
  have "0 \<le> w * h" using assms by simp
  moreover have "0 \<le> max_int64" by (simp add: max_int64_def)
  ultimately show ?thesis
    using assms by (auto simp: imageRawMemoryBytes_def imagePixelCount_def checkedImageMul_exact raw_bytes_def min_def)
qed

lemma saturatingImageAdd_exact:
  "0 \<le> a \<Longrightarrow> 0 \<le> b \<Longrightarrow> saturatingImageAdd (min max_int64 a) (min max_int64 b) = min max_int64 (a + b)"
  by (auto simp: saturatingImageAdd_def min_def max_int64_def)

lemma estimate_step:
  assumes "0 < sw" "0 < sh" "0 < w" "w < sw" "raw_bytes sw sh \<le> t"
  shows "saturatingImageAdd (min max_int64 t) (imageRawMemoryBytes w (scaledImageHeight sh w sw)) =
    min max_int64 (t + raw_bytes w (max 1 (sh * w div sw)))"
proof (cases "sh * w \<le> max_int64")
  case True
  have "scaledImageHeight sh w sw = max 1 (sh * w div sw)"
    using assms True by (simp add: scaledImageHeight_def checkedImageMul_exact)
  moreover have "0 \<le> raw_bytes w (max 1 (sh * w div sw))" "0 \<le> raw_bytes sw sh" using assms by (simp_all add: raw_bytes_def)
  then have "0 \<le> raw_bytes w (max 1 (sh * w div sw))" "0 \<le> t" using assms(5) by simp_all
  ultimately show ?thesis using assms by (simp add: imageRawMemoryBytes_exact saturatingImageAdd_exact)
next
  case False
  have nn: "0 \<le> raw_bytes w (max 1 (sh * w div sw))" "0 \<le> raw_bytes w sh" using assms by (simp_all add: raw_bytes_def)
  have "sh * w \<le> sh * sw" using assms by simp
  with False have "max_int64 < sh * sw" by simp
  moreover have "raw_bytes sw sh = 4 * (sh * sw)" by (simp add: raw_bytes_def mult.commute)
  ultimately have "max_int64 < t" using assms(5) by (simp add: max_int64_def)
  moreover have "scaledImageHeight sh w sw = sh" using assms False by (simp add: scaledImageHeight_def checkedImageMul_exact)
  ultimately show ?thesis using nn assms by (simp add: imageRawMemoryBytes_exact saturatingImageAdd_def min_def max_int64_def)
qed

text \<open>C21: the estimate of the memory of a batch is exact: it is the size of the decoded source and of one decoded image
  for every distinct width that is produced, cut off at the largest 64 bit integer; no product and no sum wraps
  around, however large the images are, so a batch that needs more than the budget is never admitted.\<close>

theorem estimateImageBatchMemoryBytes_exact:
  assumes "0 < sw" "0 < sh"
  shows "estimateImageBatchMemoryBytes sw sh vs = min max_int64 (batch_bytes sw sh vs)"
proof -
  let ?add = "\<lambda>total w. if w = sw then total
      else saturatingImageAdd total (imageRawMemoryBytes w (scaledImageHeight sh w sw))"
  let ?raw = "\<lambda>w. raw_bytes w (max 1 (sh * w div sw))"
  have pos: "0 < w \<and> w \<le> sw" if "w \<in> set (uniqueImageOutputWidths sw vs)" for w
    using that assms by (auto simp: uniqueImageOutputWidths_def normalizedImageOutputWidth_def split: if_splits)
  have "foldl ?add (min max_int64 t) ws = min max_int64 (t + sum_list (map ?raw (filter (\<lambda>w. w \<noteq> sw) ws)))"
    if "raw_bytes sw sh \<le> t" "\<forall>w\<in>set ws. 0 < w \<and> w \<le> sw" for t ws
    using that
  proof (induction ws arbitrary: t)
    case (Cons w ws)
    show ?case
    proof (cases "w = sw")
      case False
      have "0 \<le> ?raw w" using Cons.prems by (simp add: raw_bytes_def)
      then have "raw_bytes sw sh \<le> t + ?raw w" using Cons.prems by simp
      from Cons.IH [OF this] Cons.prems False estimate_step [OF assms _ _ Cons.prems(1), of w] show ?thesis
        by (simp add: add.assoc)
    qed (use Cons in simp)
  qed simp
  from this [of "raw_bytes sw sh" "uniqueImageOutputWidths sw vs"]
  have "estimateImageBatchMemoryBytes sw sh vs =
      min max_int64 (raw_bytes sw sh + sum_list (map ?raw (filter (\<lambda>w. w \<noteq> sw) (uniqueImageOutputWidths sw vs))))"
    using pos by (simp add: estimateImageBatchMemoryBytes_def imageRawMemoryBytes_exact [OF assms])
  moreover have "sum_list (map ?raw (filter (\<lambda>w. w \<noteq> sw) (uniqueImageOutputWidths sw vs))) =
      (\<Sum>w\<in>set (uniqueImageOutputWidths sw vs) - {sw}. ?raw w)"
  proof -
    have "distinct (filter (\<lambda>w. w \<noteq> sw) (uniqueImageOutputWidths sw vs))" by (simp add: uniqueImageOutputWidths_def)
    then show ?thesis by (simp add: sum_list_distinct_conv_sum_set set_diff_eq)
  qed
  ultimately show ?thesis by (simp add: batch_bytes_def)
qed

text \<open>The engine meets what the stages assume of one.\<close>

lemma libvips_extension_ok:
  assumes "ie_GenerateBatch (libvips_engine engine) request = Inr rs" "r \<in> set rs"
  shows "suffix_ok (ir_Extension r)"
proof -
  obtain res st' where run: "GenerateBatch engine request no_images = (res, st')" by fastforce
  have res: "res = Inr rs" using assms(1) run by (simp add: libvips_engine_def)
  have ne: "ib_Variants request \<noteq> []"
    using run res assms(2) by (auto simp: GenerateBatch_def split: if_splits)
  have "unused_above no_images" by (simp add: unused_above_def no_images_def)
  from GenerateBatch_results(2) [OF this run res ne] obtain source v where "result_for source v r"
    using assms(2) by (auto simp: list_all2_conv_all_nth in_set_conv_nth)
  then obtain d where "associate Name imageFormatDescriptors (TrimLower (ir_TargetFormat r)) = Some d" "ir_Extension r = Extension d"
    by (auto simp: result_for_def LookupImageDescriptor_def)
  then have "ir_Extension r \<in> {''.jpg'', ''.png'', ''.webp'', ''.avif''}"
    using associate_Some by (fastforce simp: imageFormatDescriptors_def)
  moreover have "suffix_ok ''.jpg''" "suffix_ok ''.png''" "suffix_ok ''.webp''" "suffix_ok ''.avif''" by code_simp+
  ultimately show ?thesis by auto
qed

lemma libvips_store_env:
  assumes "path_is_abs (pn_cwd env)" "newLocalStore (pn_cwd env) view root0 = Inr (pn_store env)"
    and "pn_registry env = NewRegistry cd opts enabled" "pn_engine env \<in> {None, Some (libvips_engine engine), Some disabledImageEngine}"
  shows "store_env env"
  using assms NewRegistry_suffixes(2) [of _ cd opts enabled] libvips_extension_ok [of engine]
  unfolding store_env_def by (fastforce simp: disabledImageEngine_def)


section \<open>Concrete instances\<close>

text \<open>Images as their dimensions; the encoder writes the format.\<close>

definition example_vips :: "(int \<times> int) vips_ops" where
  "example_vips =
     \<lparr> vi_open = (\<lambda>p. if p = ''/srv/www/a.png'' then Some (800, 600) else None), vi_rotate = Some,
       vi_width = fst, vi_height = snd, vi_copy = Some, vi_resize = (\<lambda>r (w, h). Some (\<lfloor>rat_of_int w * r\<rfloor>, \<lfloor>rat_of_int h * r\<rfloor>)),
       vi_export = (\<lambda>f q i. Some f) \<rparr>"

definition example_libvips :: "(int \<times> int) libvipsImageEngine" where
  "example_libvips =
     \<lparr> le_vips = example_vips, le_memory = newImageMemoryBudget 4000000, le_acquire = (\<lambda>_. True), le_startupErr = False \<rparr>"

definition example_batch :: imageGenerateBatchRequest where
  "example_batch =
     \<lparr> ib_SourcePath = ''/srv/www/a.png'', ib_SourceBytes = 5000, ib_SourceMediaType = ''image/png'',
       ib_Variants = [\<lparr> ig_TargetFormat = ''webp'', ig_TargetWidth = 400 \<rparr>, \<lparr> ig_TargetFormat = ''jpg'', ig_TargetWidth = 0 \<rparr>],
       ib_JPEGQuality = 78,
       ib_Limits = \<lparr> il_MaxSourceBytes = 0, il_MaxSourcePixels = 500000, il_MaxWidth = 0, il_MaxHeight = 0, il_MaxMemoryBytes = 0 \<rparr> \<rparr>"

lemma no_images_ok: "unused_above no_images"
  by (simp add: unused_above_def no_images_def)

theorem GenerateBatch_no_leak_witness:
  "vs_images (snd (GenerateBatch example_libvips example_batch no_images)) = Map.empty \<and>
   vs_held (snd (GenerateBatch example_libvips example_batch no_images)) = 0 \<and>
   \<not> vs_misused (snd (GenerateBatch example_libvips example_batch no_images))"
  using GenerateBatch_no_leak [OF no_images_ok surjective_pairing [of "GenerateBatch example_libvips example_batch no_images"]]
  by (simp add: no_images_def)

theorem GenerateBatch_complete_witness:
  "\<exists>rs. fst (GenerateBatch example_libvips example_batch no_images) = Inr rs \<and>
     map ir_TargetFormat rs = [''webp'', ''jpeg'']"
proof -
  have "\<not> isl (fst (loadSourceImage example_libvips example_batch no_images))" by code_simp
  then have load: "fst (loadSourceImage example_libvips example_batch no_images) \<noteq> Inl e" for e by auto
  have fmts: "NormalizeImageFormat ''webp'' = ''webp''" "NormalizeImageFormat ''jpg'' = ''jpeg''" by code_simp+
  have "LookupImageDescriptor ''webp'' \<noteq> None" "LookupImageDescriptor ''jpeg'' \<noteq> None" by code_simp+
  then have ok: "vips_works (le_vips example_libvips)" "known_formats (ib_Variants example_batch)"
    by (auto simp: vips_works_def known_formats_def example_libvips_def example_vips_def example_batch_def fmts)
  from GenerateBatch_complete [OF no_images_ok, of example_libvips example_batch 4000000] load ok
  show ?thesis
    by (auto simp: example_libvips_def example_batch_def result_for_def fmts list_all2_Cons1 split: sum.splits)
qed

theorem estimateImageBatchMemoryBytes_exact_witness:
  "estimateImageBatchMemoryBytes 800 600 (ib_Variants example_batch) = min max_int64 (batch_bytes 800 600 (ib_Variants example_batch))"
  by (rule estimateImageBatchMemoryBytes_exact) simp_all

end
