(* ===== verification/SourceCatalog.thy ===== *)
theory SourceCatalog
  imports Stages CachePolicy
begin

text \<open>
  The catalog of source files (\<open>internal/sourcecatalog\<close>): the filter of paths (\<open>path_filter.go\<close>), the
  recognition and validation of compressed sidecars (\<open>sidecar.go\<close>, \<open>sidecar_variants.go\<close>,
  \<open>internal/contentcoding/validation.go\<close>), the building and reuse of assets (\<open>asset_builder.go\<close>), the variants a
  bundle lists explicitly (\<open>explicit_bundle_variants.go\<close>) and the scan that composes them (\<open>scanner.go\<close>).

  What the source holds is a parameter: the files a walk visits, the lookup of a file, the prefix of a file, its
  hash, and what the libraries that detect media types, match glob patterns and decode payloads say.  A
  \<open>Map\<close> is an association list.  The builds of one scan are independent and run in parallel; an error of any
  of them fails the scan, here the first in order.
\<close>

section \<open>Maps with sorted enumeration\<close>

definition SortedKeys :: "(string \<times> 'v) list \<Rightarrow> string list" where
  "SortedKeys m = sort (map fst m)"

definition SortedEntries :: "(string \<times> 'v) list \<Rightarrow> (string \<times> 'v) list" where
  "SortedEntries m = sort_key fst m"

section \<open>The source\<close>

record SourceFile =
  sf_Path :: string
  sf_FullPath :: string
  sf_Kind :: string
  sf_Size :: int
  sf_IsDir :: bool
  sf_ModTime :: time
  sf_MediaType :: string
  sf_SourceHash :: string
  sf_ETag :: string
  sf_AssetPath :: string
  sf_Encoding :: string
  sf_Format :: string
  sf_Width :: int

datatype scan_error =
  ScanContextDone | WalkFailed | GlobFailed | InvalidGlob | HashFailed | ReadFailed | FindFailed

record source_env =
  sn_Walk :: "scan_error + SourceFile list"
  sn_FindFile :: "string \<Rightarrow> scan_error + SourceFile option"
  sn_ReadPrefix :: "string \<Rightarrow> scan_error + bytes option"
  sn_HashFile :: "string \<Rightarrow> string option"
  sn_DetectFile :: "string \<Rightarrow> string option"
  sn_Detect :: "bytes \<Rightarrow> string option"
  sn_TypeByExtension :: "string \<Rightarrow> string"
  sn_same_mime :: "string \<Rightarrow> string \<Rightarrow> bool"
  sn_decode :: "string \<Rightarrow> bytes \<Rightarrow> (bytes \<times> bool) option"
  sn_Match :: "string \<Rightarrow> string \<Rightarrow> bool option"
  sn_ValidatePattern :: "string \<Rightarrow> bool"
  sn_print :: "nat \<Rightarrow> bool"
  sn_walk_live :: "nat \<Rightarrow> bool"
  sn_build_live :: "nat \<Rightarrow> bool"

section \<open>Media types of files\<close>

definition OctetStream :: string where "OctetStream = ''application/octet-stream''"

definition binaryMagicMIMEs :: "string \<Rightarrow> string option" where
  "binaryMagicMIMEs = map_of (map (\<lambda>m. (m, m))
     [''image/png'', ''image/jpeg'', ''image/jpg'', ''image/svg+xml'', ''image/webp'', ''image/avif'', ''image/gif''])"

definition detectKnownBinaryMIME :: "string \<Rightarrow> string option" where
  "detectKnownBinaryMIME raw = binaryMagicMIMEs raw"

definition detectMIMEByContent :: "source_env \<Rightarrow> string \<Rightarrow> string option" where
  "detectMIMEByContent env filePath =
     (case sn_DetectFile env filePath of None \<Rightarrow> None | Some m \<Rightarrow> detectKnownBinaryMIME (normalizeMIME m))"

definition detectMIMEByStdlib :: "source_env \<Rightarrow> string \<Rightarrow> string option" where
  "detectMIMEByStdlib env filePath =
     (let normalized = normalizeMIME (sn_TypeByExtension env (to_lower (path_ext filePath)))
      in if normalized = [] then None else Some normalized)"

definition DetectMIME :: "source_env \<Rightarrow> string \<Rightarrow> string" where
  "DetectMIME env filePath =
     (case detectMIMEByExtension filePath of
        Some m \<Rightarrow> m
      | None \<Rightarrow>
          (case detectMIMEByContent env filePath of
             Some m \<Rightarrow> m
           | None \<Rightarrow> (case detectMIMEByStdlib env filePath of Some m \<Rightarrow> m | None \<Rightarrow> OctetStream)))"

definition DetectMIMEBytes :: "source_env \<Rightarrow> bytes \<Rightarrow> string" where
  "DetectMIMEBytes env body =
     (if body = [] then OctetStream
      else (case sn_Detect env body of
              None \<Rightarrow> OctetStream
            | Some mtype \<Rightarrow>
                (let normalized = normalizeMIME mtype
                 in case detectKnownBinaryMIME normalized of
                      Some m \<Rightarrow> m
                    | None \<Rightarrow> if normalized = [] then OctetStream else normalized)))"

definition mimeCompatible :: "source_env \<Rightarrow> string \<Rightarrow> string \<Rightarrow> bool" where
  "mimeCompatible env expected detected =
     (if sn_same_mime env expected detected then True
      else (sn_same_mime env expected ''image/jpeg'' \<or> sn_same_mime env expected ''image/jpg'') \<and>
           (sn_same_mime env detected ''image/jpeg'' \<or> sn_same_mime env detected ''image/jpg''))"

definition HasMatchingMagic :: "source_env \<Rightarrow> string \<Rightarrow> bytes \<Rightarrow> bool" where
  "HasMatchingMagic env filePath body =
     (case expectedMagicMIME filePath of
        None \<Rightarrow> True | Some expected \<Rightarrow> mimeCompatible env expected (DetectMIMEBytes env body))"

section \<open>Payloads\<close>

text \<open>The decoder of a coding gives what it decoded of a sample and whether it then failed.\<close>

definition normalizedEncoding :: "string \<Rightarrow> string" where
  "normalizedEncoding encoding = trim_space (to_lower encoding)"

definition payloadReader :: "source_env \<Rightarrow> string \<Rightarrow> bytes \<Rightarrow> (bytes \<times> bool) option" where
  "payloadReader env encoding sample =
     (if normalizedEncoding encoding \<in> {''gzip'', ''zstd'', ''br''} then sn_decode env (normalizedEncoding encoding) sample
      else None)"

definition canReadPayloadPrefix :: "bytes \<times> bool \<Rightarrow> bool" where
  "canReadPayloadPrefix reader = (case reader of (content, failed) \<Rightarrow> content \<noteq> [] \<or> \<not> failed)"

definition IsValidPayload :: "source_env \<Rightarrow> string \<Rightarrow> bytes \<Rightarrow> bool" where
  "IsValidPayload env encoding sample =
     (if sample = [] then False
      else (case payloadReader env encoding sample of None \<Rightarrow> False | Some reader \<Rightarrow> canReadPayloadPrefix reader))"

definition DecodePayloadPrefix :: "source_env \<Rightarrow> string \<Rightarrow> bytes \<Rightarrow> int \<Rightarrow> bytes option" where
  "DecodePayloadPrefix env encoding sample maxBytes =
     (if sample = [] \<or> maxBytes \<le> 0 then None
      else (case payloadReader env encoding sample of
              None \<Rightarrow> None
            | Some (content, failed) \<Rightarrow>
                (let body = take (nat maxBytes) content in if body = [] then None else Some body)))"

section \<open>The filter of paths\<close>

definition normalizeSourcePath :: "string \<Rightarrow> string" where
  "normalizeSourcePath p =
     (let trimmed = trim_space p in if trimmed = [] then [] else trim_prefix (path_clean trimmed) ''/'')"

record assetPathFilter =
  af_include :: "string list"
  af_exclude :: "string list"
  af_err :: "scan_error option"

definition normalizeGlobPattern :: "string \<Rightarrow> string" where
  "normalizeGlobPattern rawPattern =
     (let pattern = trim_space rawPattern
      in if pattern = [] then []
         else (let p = path_clean (trim_prefix pattern ''/'') in if p = ''.'' then [] else p))"

definition normalizeGlobPatterns :: "source_env \<Rightarrow> string list \<Rightarrow> scan_error + string list" where
  "normalizeGlobPatterns env patterns =
     run_all (\<lambda>acc raw. let pattern = normalizeGlobPattern raw
                       in if pattern = [] then Inr acc
                          else if \<not> sn_ValidatePattern env pattern then Inl InvalidGlob
                          else Inr (acc @ [pattern])) [] patterns"

definition newAssetPathFilter :: "source_env \<Rightarrow> (string list \<times> string list) option \<Rightarrow> assetPathFilter" where
  "newAssetPathFilter env assets =
     (case assets of
        None \<Rightarrow> \<lparr> af_include = [], af_exclude = [], af_err = None \<rparr>
      | Some (inc, exc) \<Rightarrow>
          (case normalizeGlobPatterns env inc of
             Inl e \<Rightarrow> \<lparr> af_include = [], af_exclude = [], af_err = Some e \<rparr>
           | Inr included \<Rightarrow>
               (case normalizeGlobPatterns env exc of
                  Inl e \<Rightarrow> \<lparr> af_include = [], af_exclude = [], af_err = Some e \<rparr>
                | Inr excluded \<Rightarrow> \<lparr> af_include = included, af_exclude = excluded, af_err = None \<rparr>)))"

fun matchesAnyGlob :: "source_env \<Rightarrow> string list \<Rightarrow> string \<Rightarrow> scan_error + bool" where
  "matchesAnyGlob env [] assetPath = Inr False"
| "matchesAnyGlob env (pattern # patterns) assetPath =
     (case sn_Match env pattern assetPath of
        None \<Rightarrow> Inl GlobFailed | Some True \<Rightarrow> Inr True | Some False \<Rightarrow> matchesAnyGlob env patterns assetPath)"

definition matchesInclude :: "source_env \<Rightarrow> assetPathFilter \<Rightarrow> string \<Rightarrow> scan_error + bool" where
  "matchesInclude env f assetPath = (if af_include f = [] then Inr True else matchesAnyGlob env (af_include f) assetPath)"

definition Allow :: "source_env \<Rightarrow> assetPathFilter \<Rightarrow> string \<Rightarrow> scan_error + bool" where
  "Allow env f rawPath =
     (case af_err f of
        Some e \<Rightarrow> Inl e
      | None \<Rightarrow>
          (let assetPath = normalizeSourcePath rawPath
           in if assetPath = [] then Inr False
              else if af_include f = [] \<and> af_exclude f = [] then Inr True
              else (case matchesInclude env f assetPath of
                      Inl e \<Rightarrow> Inl e
                    | Inr False \<Rightarrow> Inr False
                    | Inr True \<Rightarrow>
                        (case matchesAnyGlob env (af_exclude f) assetPath of
                           Inl e \<Rightarrow> Inl e | Inr excluded \<Rightarrow> Inr (\<not> excluded)))))"

section \<open>Sidecars\<close>

definition SourceSidecarStage :: string where "SourceSidecarStage = ''source_sidecar''"

record sidecarMatcher =
  sm_encoding :: string
  sm_suffix :: string

record SidecarMatch =
  mt_AssetPath :: string
  mt_Encoding :: string
  mt_Suffix :: string

definition IsSourceSidecarVariant :: "Variant \<Rightarrow> bool" where
  "IsSourceSidecarVariant v \<longleftrightarrow>
     trim_space (case v_Metadata v ''stage'' of None \<Rightarrow> [] | Some s \<Rightarrow> s) = SourceSidecarStage"

definition buildSidecarMatchers :: "Registry \<Rightarrow> sidecarMatcher list" where
  "buildSidecarMatchers registry =
     sort_func (\<lambda>l r. if length (sm_suffix l) = length (sm_suffix r) then sm_encoding l < sm_encoding r
                     else length (sm_suffix r) < length (sm_suffix l))
       (List.map_filter (\<lambda>name. map_option (\<lambda>s. \<lparr> sm_encoding = sy_Name s, sm_suffix = sy_Suffix s \<rparr>) (Lookup registry name))
         (Names registry))"

text \<open>The runes of a string in reverse order.\<close>

definition encode_rune :: "nat \<Rightarrow> string" where
  "encode_rune r = map char_of
     (if r < 0x80 then [r]
      else if r < 0x800 then [0xC0 + r div 64, 0x80 + r mod 64]
      else if r < 0x10000 then [0xE0 + r div 4096, 0x80 + r div 64 mod 64, 0x80 + r mod 64]
      else [0xF0 + r div 262144, 0x80 + r div 4096 mod 64, 0x80 + r div 64 mod 64, 0x80 + r mod 64])"

definition reverseString :: "string \<Rightarrow> string" where
  "reverseString s = concat (map encode_rune (rev (runes s)))"

definition buildSidecarMatcherTrie :: "sidecarMatcher list \<Rightarrow> (string \<times> sidecarMatcher) list" where
  "buildSidecarMatcherTrie matchers =
     foldl (\<lambda>trie m. if sm_suffix m \<noteq> [] then AList.update (reverseString (sm_suffix m)) m trie else trie) [] matchers"

text \<open>The longest key of a trie that is a prefix of a string.\<close>

definition LongestPrefix :: "(string \<times> 'v) list \<Rightarrow> string \<Rightarrow> (string \<times> 'v) option" where
  "LongestPrefix trie s = first_some (\<lambda>p. map_option (Pair p) (map_of trie p)) (rev (prefixes s))"

definition matchSidecarWithTrie :: "string \<Rightarrow> (string \<times> sidecarMatcher) list \<Rightarrow> sidecarMatcher option" where
  "matchSidecarWithTrie p trie =
     (case LongestPrefix trie (reverseString p) of
        None \<Rightarrow> None | Some (matcherKey, m) \<Rightarrow> if matcherKey = [] then None else Some m)"

definition normalizedAssetPath :: "string \<Rightarrow> string \<Rightarrow> string" where
  "normalizedAssetPath p sfx = trim_space (trim_suffix p sfx)"

record Scanner =
  sc_matchers :: "sidecarMatcher list"
  sc_matcherTrie :: "(string \<times> sidecarMatcher) list"
  sc_pathFilter :: assetPathFilter

definition newScanner :: "Registry \<Rightarrow> assetPathFilter \<Rightarrow> Scanner" where
  "newScanner registry pathFilter =
     (let matchers = buildSidecarMatchers registry
      in \<lparr> sc_matchers = matchers, sc_matcherTrie = buildSidecarMatcherTrie matchers, sc_pathFilter = pathFilter \<rparr>)"

definition NewScannerWithAssets :: "source_env \<Rightarrow> Registry \<Rightarrow> (string list \<times> string list) option \<Rightarrow> Scanner" where
  "NewScannerWithAssets env registry assets = newScanner registry (newAssetPathFilter env assets)"

definition MatchSidecarPath :: "Scanner \<Rightarrow> string \<Rightarrow> SidecarMatch option" where
  "MatchSidecarPath s p =
     (let normalized = normalizeSourcePath p
      in if normalized = [] then None
         else (case matchSidecarWithTrie normalized (sc_matcherTrie s) of
                 None \<Rightarrow> None
               | Some m \<Rightarrow>
                   (let assetPath = trim_suffix normalized (sm_suffix m)
                    in if assetPath = [] \<or> assetPath = normalized then None
                       else Some \<lparr> mt_AssetPath = assetPath, mt_Encoding = sm_encoding m, mt_Suffix = sm_suffix m \<rparr>)))"

definition FindFile :: "source_env \<Rightarrow> Scanner \<Rightarrow> string \<Rightarrow> scan_error + SourceFile option" where
  "FindFile env s p =
     (let normalized = normalizeSourcePath p
      in if normalized = [] then Inr None
         else (case Allow env (sc_pathFilter s) normalized of
                 Inl e \<Rightarrow> Inl e
               | Inr False \<Rightarrow> Inr None
               | Inr True \<Rightarrow> sn_FindFile env normalized))"

definition collectSourceFiles ::
    "source_env \<Rightarrow> Scanner \<Rightarrow> scan_error + (string \<times> SourceFile) list \<times> int" where
  "collectSourceFiles env s =
     (case sn_Walk env of
        Inl e \<Rightarrow> Inl e
      | Inr files \<Rightarrow>
          run_all (\<lambda>(filesByPath, totalBytes) (i, f).
            if \<not> sn_walk_live env i then Inl ScanContextDone
            else if sf_IsDir f then Inr (filesByPath, totalBytes)
            else (case Allow env (sc_pathFilter s) (sf_Path f) of
                    Inl e \<Rightarrow> Inl e
                  | Inr False \<Rightarrow> Inr (filesByPath, totalBytes)
                  | Inr True \<Rightarrow> Inr (AList.update (sf_Path f) f filesByPath, wrap64 (totalBytes + sf_Size f))))
            ([], 0) (enumerate 0 files))"

section \<open>Variants a bundle lists\<close>

definition normalizedExplicitBundleVariantKind :: "string \<Rightarrow> string" where
  "normalizedExplicitBundleVariantKind kind =
     (if trim_space kind = ''compression'' then ''compression'' else if trim_space kind = ''image'' then ''image'' else [])"

definition isExplicitBundleVariantFile :: "SourceFile \<Rightarrow> bool" where
  "isExplicitBundleVariantFile f \<longleftrightarrow> normalizedExplicitBundleVariantKind (sf_Kind f) \<noteq> []"

definition explicitBundleVariantMetadata :: "SourceFile \<Rightarrow> string \<Rightarrow> string \<Rightarrow> metadata" where
  "explicitBundleVariantMetadata f assetPath kind =
     MetadataWithModTime [''stage'' \<mapsto> kind, ''source'' \<mapsto> assetPath, ''bundle_path'' \<mapsto> sf_Path f] (sf_ModTime f)"

definition buildExplicitBundleVariant :: "SourceFile \<Rightarrow> Asset \<Rightarrow> Variant" where
  "buildExplicitBundleVariant f a =
     (let kind = normalizedExplicitBundleVariantKind (sf_Kind f)
      in \<lparr> v_ID = VariantID (normalizeSourcePath (sf_AssetPath f)) (sf_Encoding f) (sf_Format f) (sf_Width f),
           v_AssetPath = a_Path a, v_ArtifactPath = sf_FullPath f, v_Size = sf_Size f,
           v_MediaType = FirstNonBlank [sf_MediaType f, a_MediaType a],
           v_SourceHash = FirstNonBlank [sf_SourceHash f, a_SourceHash a],
           v_ETag = FirstNonBlank [sf_ETag f, a_ETag a],
           v_Encoding = trim_space (sf_Encoding f), v_Format = trim_space (sf_Format f), v_Width = sf_Width f,
           v_Metadata = explicitBundleVariantMetadata f (a_Path a) kind \<rparr>)"

definition explicitBundleVariantAsset :: "(string \<times> Asset) list \<Rightarrow> SourceFile \<Rightarrow> Asset option" where
  "explicitBundleVariantAsset assets f = map_of assets (normalizeSourcePath (sf_AssetPath f))"

definition buildExplicitBundleVariants ::
    "(string \<times> SourceFile) list \<Rightarrow> (string \<times> Asset) list \<Rightarrow> (string \<times> Variant) list" where
  "buildExplicitBundleVariants filesByPath assets =
     foldl (\<lambda>vs (_, f).
              if \<not> isExplicitBundleVariantFile f then vs
              else (case explicitBundleVariantAsset assets f of
                      None \<Rightarrow> vs
                    | Some a \<Rightarrow> (let v = buildExplicitBundleVariant f a in AList.update (v_ID v) v vs)))
       [] (SortedEntries filesByPath)"

section \<open>Recognising sidecars\<close>

record sidecarFile =
  sd_File :: SourceFile
  sd_assetPath :: string
  sd_encoding :: string
  sd_suffix :: string

definition matchSidecar ::
    "string \<Rightarrow> (string \<times> SourceFile) list \<Rightarrow> (string \<times> sidecarMatcher) list \<Rightarrow> SidecarMatch option" where
  "matchSidecar p filesByPath trie =
     (case matchSidecarWithTrie p trie of
        None \<Rightarrow> None
      | Some m \<Rightarrow>
          (let assetPath = normalizedAssetPath p (sm_suffix m)
           in if assetPath = [] \<or> assetPath = p then None
              else if map_of filesByPath assetPath = None then None
              else Some \<lparr> mt_AssetPath = assetPath, mt_Encoding = sm_encoding m, mt_Suffix = sm_suffix m \<rparr>))"

definition recognizeSidecars ::
    "(string \<times> SourceFile) list \<Rightarrow> sidecarMatcher list \<Rightarrow> (string \<times> sidecarFile) list" where
  "recognizeSidecars filesByPath matchers =
     (let trie = buildSidecarMatcherTrie matchers
      in foldl (\<lambda>sidecars (p, f).
                  if isExplicitBundleVariantFile f then sidecars
                  else (case matchSidecar p filesByPath trie of
                          None \<Rightarrow> sidecars
                        | Some m \<Rightarrow> AList.update (sf_Path f)
                            \<lparr> sd_File = f, sd_assetPath = mt_AssetPath m, sd_encoding = mt_Encoding m, sd_suffix = mt_Suffix m \<rparr>
                            sidecars)) [] (SortedEntries filesByPath))"

section \<open>Building assets\<close>

text \<open>\<open>fmt.Sprintf("%q", s)\<close>.\<close>

definition hex_digits :: "nat \<Rightarrow> nat \<Rightarrow> string" where
  "hex_digits n r = map (\<lambda>i. ''0123456789abcdef'' ! (r div 16 ^ i mod 16)) (rev [0..<n])"

function quote_bytes :: "(nat \<Rightarrow> bool) \<Rightarrow> nat list \<Rightarrow> string" where
  "quote_bytes printable bs =
     (if bs = [] then []
      else (let (r, w) = decode_rune bs; c = char_of (hd bs)
            in (if r = 0xFFFD \<and> w = 1 then CHR 0x5C # ''x'' @ hex_digits 2 (hd bs)
                else if c = CHR 0x22 \<or> c = CHR 0x5C then [CHR 0x5C, c]
                else if (if r < 0x80 then 0x20 \<le> r \<and> r < 0x7F else printable r) then map char_of (take w bs)
                else if r = 7 then CHR 0x5C # ''a'' else if r = 8 then CHR 0x5C # ''b''
                else if r = 9 then CHR 0x5C # ''t'' else if r = 10 then CHR 0x5C # ''n''
                else if r = 11 then CHR 0x5C # ''v'' else if r = 12 then CHR 0x5C # ''f''
                else if r = 13 then CHR 0x5C # ''r''
                else if r < 0x20 \<or> r = 0x7F then CHR 0x5C # ''x'' @ hex_digits 2 r
                else if r < 0x10000 then CHR 0x5C # ''u'' @ hex_digits 4 r
                else CHR 0x5C # ''U'' @ hex_digits 8 r) @ quote_bytes printable (drop w bs)))"
  by auto
termination
proof (relation "measure (length \<circ> snd)", goal_cases)
  case (2 printable bs x r w)
  have "snd (decode_rune bs) = w" using 2 by (metis snd_conv)
  with decode_rune_width [of bs] 2(1) show ?case by simp
qed simp

declare quote_bytes.simps [simp del]

definition go_quote :: "(nat \<Rightarrow> bool) \<Rightarrow> string \<Rightarrow> string" where
  "go_quote printable s = [CHR 0x22] @ quote_bytes printable (map of_char s) @ [CHR 0x22]"

definition sourceFileHash :: "source_env \<Rightarrow> SourceFile \<Rightarrow> scan_error + string" where
  "sourceFileHash env f =
     (let sourceHash = trim_space (sf_SourceHash f)
      in if sourceHash \<noteq> [] then Inr sourceHash
         else (case sn_HashFile env (sf_FullPath f) of None \<Rightarrow> Inl HashFailed | Some h \<Rightarrow> Inr h))"

definition assetMetadata :: "SourceFile \<Rightarrow> metadata" where
  "assetMetadata f = MetadataWithModTime Map.empty (sf_ModTime f)"

definition BuildAsset :: "source_env \<Rightarrow> SourceFile \<Rightarrow> scan_error + Asset" where
  "BuildAsset env f =
     (case sourceFileHash env f of
        Inl e \<Rightarrow> Inl e
      | Inr sourceHash \<Rightarrow>
          (let etag = trim_space (sf_ETag f); mediaType = trim_space (sf_MediaType f)
           in Inr \<lparr> a_Path = sf_Path f, a_FullPath = sf_FullPath f, a_Size = sf_Size f,
                    a_MediaType = (if mediaType = [] then DetectMIME env (sf_FullPath f) else mediaType),
                    a_SourceHash = sourceHash,
                    a_ETag = (if etag = [] then go_quote (sn_print env) sourceHash else etag),
                    a_Metadata = assetMetadata f \<rparr>))"

definition canReuseAsset :: "Asset \<Rightarrow> SourceFile \<Rightarrow> bool" where
  "canReuseAsset a f \<longleftrightarrow>
     (case MetadataModTime (a_Metadata a) of
        None \<Rightarrow> False
      | Some modTime \<Rightarrow>
          a_Path a = sf_Path f \<and> a_FullPath a = sf_FullPath f \<and> a_Size a = sf_Size f \<and> a_MediaType a \<noteq> [] \<and>
          a_SourceHash a \<noteq> [] \<and> a_ETag a \<noteq> [] \<and> modTime = sf_ModTime f)"

definition reusableAsset :: "(string \<times> Asset) list \<Rightarrow> string \<Rightarrow> SourceFile \<Rightarrow> Asset option" where
  "reusableAsset existingAssets p f =
     (case map_of existingAssets p of
        None \<Rightarrow> None
      | Some a \<Rightarrow> if canReuseAsset a f then Some (a\<lparr>a_Metadata := MetadataWithModTime (a_Metadata a) (sf_ModTime f)\<rparr>) else None)"

definition collectAssetBuildCandidates ::
    "(string \<times> SourceFile) list \<Rightarrow> (string \<times> sidecarFile) list \<Rightarrow> (string \<times> Asset) list \<Rightarrow>
     (string \<times> Asset) list \<times> (string \<times> SourceFile) list" where
  "collectAssetBuildCandidates filesByPath sidecars existingAssets =
     foldl (\<lambda>(assets, candidates) (p, f).
              if map_of sidecars p \<noteq> None then (assets, candidates)
              else if isExplicitBundleVariantFile f then (assets, candidates)
              else (case reusableAsset existingAssets p f of
                      Some a \<Rightarrow> (AList.update p a assets, candidates)
                    | None \<Rightarrow> (assets, candidates @ [(p, f)])))
       ([], []) (SortedEntries filesByPath)"

definition buildAssets ::
    "source_env \<Rightarrow> (string \<times> SourceFile) list \<Rightarrow> (string \<times> sidecarFile) list \<Rightarrow> (string \<times> Asset) list \<Rightarrow>
     scan_error + (string \<times> Asset) list" where
  "buildAssets env filesByPath sidecars existingAssets =
     (case collectAssetBuildCandidates filesByPath sidecars existingAssets of
        (assets, candidates) \<Rightarrow>
          run_all (\<lambda>assets (i, p, f).
            if \<not> sn_build_live env i then Inl ScanContextDone
            else (case BuildAsset env f of Inl e \<Rightarrow> Inl e | Inr a \<Rightarrow> Inr (AList.update p a assets)))
            assets (enumerate 0 candidates))"

section \<open>Building sidecar variants\<close>

definition trustedEncodedSidecarPayload :: "source_env \<Rightarrow> sidecarFile \<Rightarrow> bytes \<Rightarrow> bool" where
  "trustedEncodedSidecarPayload env sidecar payload =
     (if \<not> IsValidPayload env (sd_encoding sidecar) payload then False
      else if \<not> RequiresMagicValidation (sd_assetPath sidecar) then True
      else (case DecodePayloadPrefix env (sd_encoding sidecar) payload 512 of
              None \<Rightarrow> False | Some decoded \<Rightarrow> HasMatchingMagic env (sd_assetPath sidecar) decoded))"

definition trustedSourceSidecarPayload :: "source_env \<Rightarrow> sidecarFile \<Rightarrow> scan_error + bool" where
  "trustedSourceSidecarPayload env sidecar =
     (if sf_Size (sd_File sidecar) \<le> 0 then Inr False
      else (case sn_ReadPrefix env (sf_Path (sd_File sidecar)) of
              Inl e \<Rightarrow> Inl e
            | Inr None \<Rightarrow> Inr False
            | Inr (Some payload) \<Rightarrow> Inr (trustedEncodedSidecarPayload env sidecar payload)))"

definition canReuseSidecarVariant :: "Variant \<Rightarrow> sidecarFile \<Rightarrow> Asset \<Rightarrow> bool" where
  "canReuseSidecarVariant v sidecar a =
     (if \<not> IsSourceSidecarVariant v then False
      else (case MetadataModTime (v_Metadata v) of
              None \<Rightarrow> False
            | Some modTime \<Rightarrow>
                v_ArtifactPath v = sf_FullPath (sd_File sidecar) \<and> v_Encoding v = sd_encoding sidecar \<and>
                v_Size v = sf_Size (sd_File sidecar) \<and> v_ETag v \<noteq> [] \<and> modTime = sf_ModTime (sd_File sidecar)))"

definition updateReusableSidecarVariant :: "Variant \<Rightarrow> sidecarFile \<Rightarrow> Asset \<Rightarrow> Variant" where
  "updateReusableSidecarVariant v sidecar a =
     v\<lparr> v_ID := sd_assetPath sidecar @ sd_suffix sidecar, v_AssetPath := a_Path a,
        v_ArtifactPath := sf_FullPath (sd_File sidecar), v_Size := sf_Size (sd_File sidecar),
        v_Encoding := sd_encoding sidecar, v_SourceHash := a_SourceHash a, v_MediaType := a_MediaType a,
        v_Metadata := MetadataWithModTime (v_Metadata v) (sf_ModTime (sd_File sidecar)) \<rparr>"

definition reusableSidecarVariant :: "(string \<times> Variant) list \<Rightarrow> sidecarFile \<Rightarrow> Asset \<Rightarrow> Variant option" where
  "reusableSidecarVariant existingSidecars sidecar a =
     (case map_of existingSidecars (sf_FullPath (sd_File sidecar)) of
        None \<Rightarrow> None
      | Some v \<Rightarrow> if canReuseSidecarVariant v sidecar a then Some (updateReusableSidecarVariant v sidecar a) else None)"

definition sidecarETag :: "source_env \<Rightarrow> SourceFile \<Rightarrow> scan_error + string" where
  "sidecarETag env f =
     (let etag = trim_space (sf_ETag f)
      in if etag \<noteq> [] then Inr etag
         else (case sn_HashFile env (sf_FullPath f) of
                 None \<Rightarrow> Inl HashFailed | Some h \<Rightarrow> Inr (go_quote (sn_print env) h)))"

definition sidecarMetadata :: "SourceFile \<Rightarrow> string \<Rightarrow> metadata" where
  "sidecarMetadata f sourcePath =
     MetadataWithModTime [''stage'' \<mapsto> SourceSidecarStage, ''source'' \<mapsto> sourcePath] (sf_ModTime f)"

definition BuildSourceSidecarVariant :: "source_env \<Rightarrow> SourceFile \<Rightarrow> SidecarMatch \<Rightarrow> Asset \<Rightarrow> scan_error + Variant" where
  "BuildSourceSidecarVariant env f m a =
     (case sidecarETag env f of
        Inl e \<Rightarrow> Inl e
      | Inr etag \<Rightarrow>
          Inr \<lparr> v_ID = mt_AssetPath m @ mt_Suffix m, v_AssetPath = mt_AssetPath m, v_ArtifactPath = sf_FullPath f,
                v_Size = sf_Size f, v_MediaType = a_MediaType a, v_SourceHash = a_SourceHash a, v_ETag = etag,
                v_Encoding = mt_Encoding m, v_Format = [], v_Width = 0,
                v_Metadata = sidecarMetadata f (mt_AssetPath m) \<rparr>)"

definition sidecar_match :: "sidecarFile \<Rightarrow> SidecarMatch" where
  "sidecar_match sidecar =
     \<lparr> mt_AssetPath = sd_assetPath sidecar, mt_Encoding = sd_encoding sidecar, mt_Suffix = sd_suffix sidecar \<rparr>"

definition buildSidecarVariant :: "source_env \<Rightarrow> sidecarFile \<Rightarrow> Asset \<Rightarrow> scan_error + Variant" where
  "buildSidecarVariant env sidecar a = BuildSourceSidecarVariant env (sd_File sidecar) (sidecar_match sidecar) a"

text \<open>The check and the build of a sidecar outside a scan; absent when its payload is not trusted.\<close>

definition scanner_BuildSourceSidecarVariant ::
    "source_env \<Rightarrow> SourceFile \<Rightarrow> SidecarMatch \<Rightarrow> Asset \<Rightarrow> scan_error + Variant option" where
  "scanner_BuildSourceSidecarVariant env f m a =
     (let sidecar = \<lparr> sd_File = f, sd_assetPath = mt_AssetPath m, sd_encoding = mt_Encoding m, sd_suffix = mt_Suffix m \<rparr>
      in case trustedSourceSidecarPayload env sidecar of
           Inl e \<Rightarrow> Inl e
         | Inr False \<Rightarrow> Inr None
         | Inr True \<Rightarrow> (case BuildSourceSidecarVariant env f m a of Inl e \<Rightarrow> Inl e | Inr v \<Rightarrow> Inr (Some v)))"

definition collectSidecarVariantBuildCandidates ::
    "source_env \<Rightarrow> (string \<times> sidecarFile) list \<Rightarrow> (string \<times> Asset) list \<Rightarrow> (string \<times> Variant) list \<Rightarrow>
     scan_error + (string \<times> Variant) list \<times> (sidecarFile \<times> Asset) list" where
  "collectSidecarVariantBuildCandidates env sidecars assets existingSidecars =
     run_all (\<lambda>(vs, candidates) (_, sidecar).
       case map_of assets (sd_assetPath sidecar) of
         None \<Rightarrow> Inr (vs, candidates)
       | Some a \<Rightarrow>
           (case trustedSourceSidecarPayload env sidecar of
              Inl e \<Rightarrow> Inl e
            | Inr False \<Rightarrow> Inr (vs, candidates)
            | Inr True \<Rightarrow>
                (case reusableSidecarVariant existingSidecars sidecar a of
                   Some v \<Rightarrow> Inr (AList.update (v_ID v) v vs, candidates)
                 | None \<Rightarrow> Inr (vs, candidates @ [(sidecar, a)]))))
       ([], []) (SortedEntries sidecars)"

definition buildSidecarVariants ::
    "source_env \<Rightarrow> (string \<times> sidecarFile) list \<Rightarrow> (string \<times> Asset) list \<Rightarrow> (string \<times> Variant) list \<Rightarrow>
     scan_error + (string \<times> Variant) list" where
  "buildSidecarVariants env sidecars assets existingSidecars =
     (case collectSidecarVariantBuildCandidates env sidecars assets existingSidecars of
        Inl e \<Rightarrow> Inl e
      | Inr (vs, candidates) \<Rightarrow>
          run_all (\<lambda>vs (i, sidecar, a).
            if \<not> sn_build_live env i then Inl ScanContextDone
            else (case buildSidecarVariant env sidecar a of Inl e \<Rightarrow> Inl e | Inr v \<Rightarrow> Inr (AList.update (v_ID v) v vs)))
            vs (enumerate 0 candidates))"

section \<open>The scan\<close>

record scan_snapshot =
  sn_Assets :: "(string \<times> Asset) list"
  sn_Variants :: "(string \<times> Variant) list"
  sn_TotalBytes :: int

text \<open>What a catalog already lists: its assets by path, and its sidecars by the path of the file.\<close>

definition buildExistingScanState ::
    "IndexedCatalog option \<Rightarrow> ((string \<times> Asset) list \<times> (string \<times> Variant) list) \<times> IndexedCatalog option" where
  "buildExistingScanState cat0 =
     (case cat0 of
        None \<Rightarrow> (([], []), None)
      | Some cat \<Rightarrow>
          (let (assets, cat1) = AllAssets cat; (vs, cat2) = ListVariantsByStage cat1 SourceSidecarStage
           in ((foldl (\<lambda>m a. AList.update (a_Path a) a m) [] assets,
                foldl (\<lambda>m v. AList.update (v_ArtifactPath v) v m) [] (filter IsSourceSidecarVariant vs)), Some cat2)))"

definition ScanWithCatalog ::
    "source_env \<Rightarrow> Scanner \<Rightarrow> IndexedCatalog option \<Rightarrow> (scan_error + scan_snapshot) \<times> IndexedCatalog option" where
  "ScanWithCatalog env s cat =
     (case af_err (sc_pathFilter s) of
        Some e \<Rightarrow> (Inl e, cat)
      | None \<Rightarrow>
          (case collectSourceFiles env s of
             Inl e \<Rightarrow> (Inl e, cat)
           | Inr (filesByPath, totalBytes) \<Rightarrow>
               (case buildExistingScanState cat of
                  ((existingAssets, existingSidecars), cat') \<Rightarrow>
                    (let sidecars = recognizeSidecars filesByPath (sc_matchers s)
                     in case buildAssets env filesByPath sidecars existingAssets of
                          Inl e \<Rightarrow> (Inl e, cat')
                        | Inr assets \<Rightarrow>
                            (case buildSidecarVariants env sidecars assets existingSidecars of
                               Inl e \<Rightarrow> (Inl e, cat')
                             | Inr vs \<Rightarrow>
                                 (Inr \<lparr> sn_Assets = assets,
                                        sn_Variants = foldl (\<lambda>m (k, v). AList.update k v m) vs
                                          (buildExplicitBundleVariants filesByPath assets),
                                        sn_TotalBytes = totalBytes \<rparr>, cat'))))))"

section \<open>What a scan finds\<close>

lemma SortedEntries_set [simp]: "set (SortedEntries m) = set m"
  by (simp add: SortedEntries_def)

lemma update_keys [simp]: "fst ` set (AList.update k v m) = insert k (fst ` set m)"
  by (induction m) auto

lemma update_entries: "x \<in> set (AList.update k v m) \<Longrightarrow> x = (k, v) \<or> x \<in> set m"
  by (induction m) (auto split: if_splits)

text \<open>A map whose entries satisfy \<open>P\<close>, with each key once.\<close>

definition map_all :: "('k \<Rightarrow> 'v \<Rightarrow> bool) \<Rightarrow> ('k \<times> 'v) list \<Rightarrow> bool" where
  "map_all P m \<longleftrightarrow> distinct (map fst m) \<and> (\<forall>(k, v)\<in>set m. P k v)"

lemma map_all_Nil [simp]: "map_all P []"
  by (simp add: map_all_def)

lemma map_all_update: "map_all P m \<Longrightarrow> P k v \<Longrightarrow> map_all P (AList.update k v m)"
  using update_entries by (fastforce simp: map_all_def distinct_update)

lemma map_all_lookup: "map_all P m \<Longrightarrow> map_of m k = Some v \<Longrightarrow> P k v"
  using map_of_SomeD by (fastforce simp: map_all_def)

lemma map_all_dom: "map_all P m \<Longrightarrow> map_of m k = None \<longleftrightarrow> k \<notin> fst ` set m"
  by (simp add: map_of_eq_None_iff)

abbreviation files_ok :: "(string \<times> SourceFile) list \<Rightarrow> bool" where
  "files_ok \<equiv> map_all (\<lambda>p f. sf_Path f = p \<and> \<not> sf_IsDir f)"

lemma collectSourceFiles_files:
  assumes "collectSourceFiles env s = Inr (files, bytes)"
  shows "files_ok files"
proof -
  obtain fs where walk: "sn_Walk env = Inr fs" using assms by (auto simp: collectSourceFiles_def split: sum.splits)
  define step where "step = (\<lambda>(filesByPath, totalBytes) (i, f :: SourceFile).
            if \<not> sn_walk_live env i then Inl ScanContextDone
            else if sf_IsDir f then Inr (filesByPath, totalBytes)
            else (case Allow env (sc_pathFilter s) (sf_Path f) of
                    Inl e \<Rightarrow> Inl e
                  | Inr False \<Rightarrow> Inr (filesByPath, totalBytes)
                  | Inr True \<Rightarrow> Inr (AList.update (sf_Path f) f filesByPath, wrap64 (totalBytes + sf_Size f))))"
  have run: "run_all step ([], 0) (enumerate 0 fs) = Inr (files, bytes)"
    using assms walk by (simp add: collectSourceFiles_def step_def)
  have "files_ok (fst (files, bytes))"
  proof (rule run_all_invariant [where P = "\<lambda>x. files_ok (fst x)", OF run])
    fix st x st' assume "files_ok (fst st)" "step st x = Inr st'"
    then show "files_ok (fst st')"
      by (auto simp: step_def map_all_update split: prod.splits if_splits sum.splits bool.splits)
  qed simp
  then show ?thesis by simp
qed

text \<open>The assets: one for each file that is neither a sidecar nor listed as a variant.\<close>

definition plain_file :: "(string \<times> sidecarFile) list \<Rightarrow> string \<times> SourceFile \<Rightarrow> bool" where
  "plain_file sidecars x \<longleftrightarrow> map_of sidecars (fst x) = None \<and> \<not> isExplicitBundleVariantFile (snd x)"

definition asset_of :: "string \<Rightarrow> SourceFile \<Rightarrow> Asset \<Rightarrow> bool" where
  "asset_of p f a \<longleftrightarrow> a_Path a = p \<and> a_FullPath a = sf_FullPath f \<and> a_Size a = sf_Size f"

abbreviation assets_of :: "(string \<times> SourceFile) list \<Rightarrow> (string \<times> Asset) list \<Rightarrow> bool" where
  "assets_of files \<equiv> map_all (\<lambda>p a. \<exists>f. map_of files p = Some f \<and> asset_of p f a)"

lemma BuildAsset_of: "BuildAsset env f = Inr a \<Longrightarrow> asset_of (sf_Path f) f a"
  by (auto simp: BuildAsset_def asset_of_def Let_def split: sum.splits)

lemma reusableAsset_of: "reusableAsset ex p f = Some a \<Longrightarrow> asset_of (sf_Path f) f a"
  by (auto simp: reusableAsset_def canReuseAsset_def asset_of_def split: option.splits if_splits)

definition collect_step ::
    "(string \<times> sidecarFile) list \<Rightarrow> (string \<times> Asset) list \<Rightarrow> (string \<times> Asset) list \<times> (string \<times> SourceFile) list \<Rightarrow>
     string \<times> SourceFile \<Rightarrow> (string \<times> Asset) list \<times> (string \<times> SourceFile) list" where
  "collect_step sidecars ex st x =
     (if \<not> plain_file sidecars x then st
      else (case reusableAsset ex (fst x) (snd x) of
              Some a \<Rightarrow> (AList.update (fst x) a (fst st), snd st) | None \<Rightarrow> (fst st, snd st @ [x])))"

lemma collectAssetBuildCandidates_step:
  "collectAssetBuildCandidates files sidecars ex = foldl (collect_step sidecars ex) ([], []) (SortedEntries files)"
proof -
  have "(\<lambda>(assets, candidates) (p, f).
              if map_of sidecars p \<noteq> None then (assets, candidates)
              else if isExplicitBundleVariantFile f then (assets, candidates)
              else (case reusableAsset ex p f of
                      Some a \<Rightarrow> (AList.update p a assets, candidates)
                    | None \<Rightarrow> (assets, candidates @ [(p, f)]))) = collect_step sidecars ex"
    by (auto simp: fun_eq_iff collect_step_def plain_file_def split: option.splits)
  then show ?thesis by (simp add: collectAssetBuildCandidates_def)
qed

lemma collectAssetBuildCandidates_split:
  assumes files: "files_ok files"
  shows "set xs \<subseteq> set files \<Longrightarrow> assets_of files (fst st) \<Longrightarrow> foldl (collect_step sidecars ex) st xs = (as, cs) \<Longrightarrow>
    assets_of files as \<and> set cs \<subseteq> set (snd st) \<union> set xs \<and>
    fst ` set as \<union> fst ` set cs = fst ` set (fst st) \<union> fst ` set (snd st) \<union> fst ` {x \<in> set xs. plain_file sidecars x}"
proof (induction xs arbitrary: st)
  case (Cons x xs)
  obtain p f where x: "x = (p, f)" by fastforce
  have pf: "map_of files p = Some f" "sf_Path f = p"
    using Cons.prems(1) files x by (auto simp: map_all_def)
  let ?S = "{x \<in> set xs. plain_file sidecars x}"
  have S: "{y \<in> set (x # xs). plain_file sidecars y} = (if plain_file sidecars x then insert x ?S else ?S)" by auto
  note IH = Cons.IH [OF _ _ Cons.prems(3) [unfolded foldl_Cons]]
  have sub: "set xs \<subseteq> set files" using Cons.prems(1) by simp
  consider (skip) "\<not> plain_file sidecars x" | (reuse) a where "plain_file sidecars x" "reusableAsset ex p f = Some a"
    | (build) "plain_file sidecars x" "reusableAsset ex p f = None" by fastforce
  then show ?case
  proof cases
    case skip
    then have "collect_step sidecars ex st x = st" by (simp add: collect_step_def)
    with IH [OF sub] Cons.prems(2) skip show ?thesis unfolding S by auto
  next
    case reuse
    then have st': "collect_step sidecars ex st x = (AList.update p a (fst st), snd st)" by (simp add: collect_step_def x)
    have "assets_of files (AList.update p a (fst st))"
      using Cons.prems(2) reusableAsset_of [OF reuse(2)] pf by (auto intro: map_all_update)
    with IH [OF sub] reuse(1) show ?thesis unfolding S st' by (auto simp: x)
  next
    case build
    then have st': "collect_step sidecars ex st x = (fst st, snd st @ [x])" by (simp add: collect_step_def x)
    with IH [OF sub] Cons.prems(2) build(1) show ?thesis unfolding S st' by (auto simp: x)
  qed
qed auto

lemma buildAssets_all:
  assumes files: "files_ok files" and run: "buildAssets env files sidecars ex = Inr assets"
  shows "assets_of files assets \<and> fst ` set assets = fst ` {x \<in> set files. plain_file sidecars x}"
proof -
  obtain as cs where c: "collectAssetBuildCandidates files sidecars ex = (as, cs)" by fastforce
  note split = collectAssetBuildCandidates_split [OF files _ _ c [unfolded collectAssetBuildCandidates_step], simplified]
  define step where "step = (\<lambda>assets (i, p :: string, f).
            if \<not> sn_build_live env i then Inl ScanContextDone
            else (case BuildAsset env f of Inl e \<Rightarrow> Inl e | Inr a \<Rightarrow> Inr (AList.update p a assets)))"
  have "run_all step as0 ys = Inr assets \<Longrightarrow> assets_of files as0 \<Longrightarrow> snd ` set ys \<subseteq> set files \<Longrightarrow>
      assets_of files assets \<and> fst ` set assets = fst ` set as0 \<union> (fst \<circ> snd) ` set ys" for as0 ys
  proof (induction ys arbitrary: as0)
    case (Cons y ys)
    obtain i p f where y: "y = (i, p, f)" by (cases y)
    have pf: "map_of files p = Some f" "sf_Path f = p" using Cons.prems(3) files y by (auto simp: map_all_def)
    obtain a where a: "BuildAsset env f = Inr a" "run_all step (AList.update p a as0) ys = Inr assets"
      using Cons.prems(1) y by (auto simp: step_def split: sum.splits if_splits)
    have "assets_of files (AList.update p a as0)"
      using Cons.prems(2) BuildAsset_of [OF a(1)] pf by (auto intro: map_all_update)
    with Cons.IH [OF a(2) this] Cons.prems(3) y show ?case by auto
  qed simp
  from this [of as "enumerate 0 cs"] run c split
  have "assets_of files assets \<and> fst ` set assets = fst ` set as \<union> (fst \<circ> snd) ` set (enumerate 0 cs)"
    by (simp add: buildAssets_def step_def [symmetric] flip: set_map)
  moreover have "(fst \<circ> snd) ` set (enumerate 0 cs) = fst ` set cs"
    by (metis image_comp map_snd_enumerate set_map)
  ultimately show ?thesis using split by simp
qed

text \<open>The sidecars: the files whose name is that of another file with the suffix of a coding.\<close>

definition sidecar_ok :: "(string \<times> SourceFile) list \<Rightarrow> sidecarMatcher list \<Rightarrow> string \<Rightarrow> sidecarFile \<Rightarrow> bool" where
  "sidecar_ok files ms p sd \<longleftrightarrow>
     map_of files p = Some (sd_File sd) \<and> \<not> isExplicitBundleVariantFile (sd_File sd) \<and>
     matchSidecar p files (buildSidecarMatcherTrie ms) = Some (sidecar_match sd)"

definition is_sidecar_path :: "(string \<times> SourceFile) list \<Rightarrow> sidecarMatcher list \<Rightarrow> string \<Rightarrow> bool" where
  "is_sidecar_path files ms p \<longleftrightarrow> matchSidecar p files (buildSidecarMatcherTrie ms) \<noteq> None"

lemma recognizeSidecars_all:
  assumes files: "files_ok files"
  shows "map_all (sidecar_ok files ms) (recognizeSidecars files ms) \<and>
    fst ` set (recognizeSidecars files ms) =
      fst ` {x \<in> set files. \<not> isExplicitBundleVariantFile (snd x) \<and> is_sidecar_path files ms (fst x)}"
proof -
  define step where "step = (\<lambda>sidecars (p :: string, f).
      if isExplicitBundleVariantFile f then sidecars
      else (case matchSidecar p files (buildSidecarMatcherTrie ms) of
              None \<Rightarrow> sidecars
            | Some m \<Rightarrow> AList.update (sf_Path f)
                \<lparr> sd_File = f, sd_assetPath = mt_AssetPath m, sd_encoding = mt_Encoding m, sd_suffix = mt_Suffix m \<rparr> sidecars))"
  have "set xs \<subseteq> set files \<Longrightarrow> map_all (sidecar_ok files ms) m \<Longrightarrow>
      map_all (sidecar_ok files ms) (foldl step m xs) \<and>
      fst ` set (foldl step m xs) =
        fst ` set m \<union> fst ` {x \<in> set xs. \<not> isExplicitBundleVariantFile (snd x) \<and> is_sidecar_path files ms (fst x)}" for m xs
  proof (induction xs arbitrary: m)
    case (Cons x xs)
    obtain p f where x: "x = (p, f)" by fastforce
    have pf: "map_of files p = Some f" "sf_Path f = p" using Cons.prems(1) files x by (auto simp: map_all_def)
    let ?S = "\<lambda>xs. {x \<in> set xs. \<not> isExplicitBundleVariantFile (snd x) \<and> is_sidecar_path files ms (fst x)}"
    have sub: "set xs \<subseteq> set files" using Cons.prems(1) by simp
    show ?case
    proof (cases "isExplicitBundleVariantFile f \<or> matchSidecar p files (buildSidecarMatcherTrie ms) = None")
      case True
      then have "step m x = m" "?S (x # xs) = ?S xs" by (auto simp: step_def x is_sidecar_path_def)
      with Cons.IH [OF sub Cons.prems(2)] show ?thesis by simp
    next
      case False
      then obtain mt where mt: "matchSidecar p files (buildSidecarMatcherTrie ms) = Some mt" "\<not> isExplicitBundleVariantFile f"
        by auto
      define sd where "sd = \<lparr> sd_File = f, sd_assetPath = mt_AssetPath mt, sd_encoding = mt_Encoding mt, sd_suffix = mt_Suffix mt \<rparr>"
      have step: "step m x = AList.update p sd m" using mt pf by (simp add: step_def x sd_def)
      have S: "?S (x # xs) = insert x (?S xs)" using mt by (auto simp: x is_sidecar_path_def)
      have "sidecar_ok files ms p sd" using mt pf by (simp add: sidecar_ok_def sd_def sidecar_match_def)
      from Cons.IH [OF sub map_all_update [OF Cons.prems(2) this]] show ?thesis
        unfolding foldl_Cons step S by (auto simp: x)
    qed
  qed simp
  from this [of "SortedEntries files" "[]"] show ?thesis
    by (simp add: recognizeSidecars_def step_def)
qed

text \<open>The variants of a scan belong to its assets.\<close>

definition variant_of :: "(string \<times> Asset) list \<Rightarrow> string \<Rightarrow> Variant \<Rightarrow> bool" where
  "variant_of assets k v \<longleftrightarrow> v_ID v = k \<and> (\<exists>a. map_of assets (v_AssetPath v) = Some a \<and>
     (v_SourceHash v = a_SourceHash a \<or> (\<exists>f. isExplicitBundleVariantFile f \<and> v = buildExplicitBundleVariant f a)))"

lemma sidecar_built:
  assumes assets: "map_all (\<lambda>p a. a_Path a = p) assets" and a: "map_of assets (sd_assetPath sd) = Some a"
  shows "buildSidecarVariant env sd a = Inr v \<Longrightarrow> variant_of assets (v_ID v) v"
    and "reusableSidecarVariant ex sd a = Some v \<Longrightarrow> variant_of assets (v_ID v) v"
proof -
  have p: "a_Path a = sd_assetPath sd" using map_all_lookup [OF assets a] .
  show "buildSidecarVariant env sd a = Inr v \<Longrightarrow> variant_of assets (v_ID v) v"
    using a by (auto simp: buildSidecarVariant_def BuildSourceSidecarVariant_def sidecar_match_def variant_of_def
        split: sum.splits)
  show "reusableSidecarVariant ex sd a = Some v \<Longrightarrow> variant_of assets (v_ID v) v"
    using a p by (auto simp: reusableSidecarVariant_def updateReusableSidecarVariant_def variant_of_def
        split: option.splits if_splits)
qed

lemma buildSidecarVariants_all:
  assumes assets: "map_all (\<lambda>p a. a_Path a = p) assets" and run: "buildSidecarVariants env sidecars assets ex = Inr vs"
  shows "map_all (variant_of assets) vs"
proof -
  obtain vs0 cs where c: "collectSidecarVariantBuildCandidates env sidecars assets ex = Inr (vs0, cs)"
    using run by (auto simp: buildSidecarVariants_def split: sum.splits)
  have "map_all (variant_of assets) (fst (vs0, cs)) \<and>
      (\<forall>(sd, a)\<in>set (snd (vs0, cs)). map_of assets (sd_assetPath sd) = Some a)"
  proof (rule run_all_invariant [where P = "\<lambda>st. map_all (variant_of assets) (fst st) \<and>
      (\<forall>(sd, a)\<in>set (snd st). map_of assets (sd_assetPath sd) = Some a)",
      OF c [unfolded collectSidecarVariantBuildCandidates_def]])
    fix st x st'
    assume P: "map_all (variant_of assets) (fst st) \<and> (\<forall>(sd, a)\<in>set (snd st). map_of assets (sd_assetPath sd) = Some a)"
      and step: "(case st of (vs, candidates) \<Rightarrow> \<lambda>(uu, sidecar).
       case map_of assets (sd_assetPath sidecar) of
         None \<Rightarrow> Inr (vs, candidates)
       | Some a \<Rightarrow>
           (case trustedSourceSidecarPayload env sidecar of
              Inl e \<Rightarrow> Inl e
            | Inr False \<Rightarrow> Inr (vs, candidates)
            | Inr True \<Rightarrow>
                (case reusableSidecarVariant ex sidecar a of
                   Some v \<Rightarrow> Inr (AList.update (v_ID v) v vs, candidates)
                 | None \<Rightarrow> Inr (vs, candidates @ [(sidecar, a)])))) x = Inr st'"
    obtain ws ds k sd where st: "st = (ws, ds)" "x = (k, sd)" by (metis surj_pair)
    consider (same) "st' = st" | (reused) a v where "map_of assets (sd_assetPath sd) = Some a"
        "reusableSidecarVariant ex sd a = Some v" "st' = (AList.update (v_ID v) v ws, ds)"
      | (candidate) a where "map_of assets (sd_assetPath sd) = Some a" "st' = (ws, ds @ [(sd, a)])"
      using step by (auto simp: st split: option.splits sum.splits bool.splits)
    then show "map_all (variant_of assets) (fst st') \<and> (\<forall>(sd, a)\<in>set (snd st'). map_of assets (sd_assetPath sd) = Some a)"
    proof cases
      case reused
      with P st sidecar_built(2) [OF assets reused(1,2)] show ?thesis by (auto intro: map_all_update)
    qed (use P st in auto)
  qed simp
  then have vs0: "map_all (variant_of assets) vs0" and cs: "\<forall>(sd, a)\<in>set cs. map_of assets (sd_assetPath sd) = Some a"
    by simp_all
  show ?thesis
  proof (rule run_all_invariant [where P = "map_all (variant_of assets)"])
    show "run_all (\<lambda>vs (i, sidecar, a).
            if \<not> sn_build_live env i then Inl ScanContextDone
            else (case buildSidecarVariant env sidecar a of Inl e \<Rightarrow> Inl e | Inr v \<Rightarrow> Inr (AList.update (v_ID v) v vs)))
            vs0 (enumerate 0 cs) = Inr vs"
      using run c by (simp add: buildSidecarVariants_def)
  next
    fix ws x ws'
    assume x: "x \<in> set (enumerate 0 cs)" and ws: "map_all (variant_of assets) ws"
      and step: "(case x of (i, sidecar, a) \<Rightarrow>
            if \<not> sn_build_live env i then Inl ScanContextDone
            else (case buildSidecarVariant env sidecar a of Inl e \<Rightarrow> Inl e | Inr v \<Rightarrow> Inr (AList.update (v_ID v) v ws))) = Inr ws'"
    obtain i sd a where xe: "x = (i, sd, a)" by (metis surj_pair)
    have "(sd, a) \<in> set cs" using x xe by (metis in_set_enumerate_eq snd_conv nth_mem diff_zero add_0 less_diff_conv2 le0)
    then have "map_of assets (sd_assetPath sd) = Some a" using cs by auto
    with step xe ws sidecar_built(1) [OF assets] show "map_all (variant_of assets) ws'"
      by (auto split: if_splits sum.splits intro: map_all_update)
  qed (rule vs0)
qed

lemma buildExplicitBundleVariants_all:
  assumes assets: "map_all (\<lambda>p a. a_Path a = p) assets"
  shows "map_all (variant_of assets) (buildExplicitBundleVariants files assets)"
proof -
  define step where "step = (\<lambda>vs (_ :: string, f).
              if \<not> isExplicitBundleVariantFile f then vs
              else (case explicitBundleVariantAsset assets f of
                      None \<Rightarrow> vs
                    | Some a \<Rightarrow> (let v = buildExplicitBundleVariant f a in AList.update (v_ID v) v vs)))"
  have "map_all (variant_of assets) m \<Longrightarrow> map_all (variant_of assets) (foldl step m xs)" for m xs
  proof (induction xs arbitrary: m)
    case (Cons x xs)
    obtain p f where x: "x = (p, f)" by fastforce
    have "map_all (variant_of assets) (step m x)"
    proof (cases "isExplicitBundleVariantFile f")
      case True
      show ?thesis
      proof (cases "explicitBundleVariantAsset assets f")
        case (Some a)
        then have a: "map_of assets (normalizeSourcePath (sf_AssetPath f)) = Some a" by (simp add: explicitBundleVariantAsset_def)
        moreover have "v_AssetPath (buildExplicitBundleVariant f a) = a_Path a"
          by (simp add: buildExplicitBundleVariant_def Let_def)
        ultimately have "map_of assets (v_AssetPath (buildExplicitBundleVariant f a)) = Some a"
          using map_all_lookup [OF assets a] by simp
        with True have "variant_of assets (v_ID (buildExplicitBundleVariant f a)) (buildExplicitBundleVariant f a)"
          unfolding variant_of_def by blast
        with Cons.prems Some True show ?thesis by (simp add: step_def x Let_def map_all_update)
      qed (use Cons.prems True in \<open>simp add: step_def x\<close>)
    qed (use Cons.prems in \<open>simp add: step_def x\<close>)
    from Cons.IH [OF this] show ?case by simp
  qed simp
  then show ?thesis by (simp add: buildExplicitBundleVariants_def step_def)
qed

lemma foldl_update_all:
  "map_all P m \<Longrightarrow> map_all P m' \<Longrightarrow> map_all P (foldl (\<lambda>m (k, v). AList.update k v m) m m')"
proof (induction m' arbitrary: m)
  case (Cons x m')
  obtain k v where x: "x = (k, v)" by fastforce
  have "map_all P (AList.update k v m)" "map_all P m'"
    using Cons.prems by (auto simp: x map_all_def [of P "(k, v) # m'"] map_all_def [of P m'] intro: map_all_update)
  from Cons.IH [OF this] show ?case by (simp add: x)
qed simp

lemma scan_parts:
  assumes "ScanWithCatalog env s cat = (Inr snap, cat')"
  obtains files bytes existing where "collectSourceFiles env s = Inr (files, bytes)" "sn_TotalBytes snap = bytes"
    "buildExistingScanState cat = (existing, cat')"
    "buildAssets env files (recognizeSidecars files (sc_matchers s)) (fst existing) = Inr (sn_Assets snap)"
    "map_all (variant_of (sn_Assets snap)) (sn_Variants snap)"
    "assets_of files (sn_Assets snap)" "files_ok files"
proof -
  obtain files bytes where f: "collectSourceFiles env s = Inr (files, bytes)"
    using assms by (auto simp: ScanWithCatalog_def split: option.splits sum.splits)
  obtain assets0 sidecars0 cat1 where e: "buildExistingScanState cat = ((assets0, sidecars0), cat1)" by (metis surj_pair)
  let ?sd = "recognizeSidecars files (sc_matchers s)"
  obtain assets vs where b: "buildAssets env files ?sd assets0 = Inr assets"
    "buildSidecarVariants env ?sd assets sidecars0 = Inr vs"
    "snap = \<lparr> sn_Assets = assets, sn_Variants = foldl (\<lambda>m (k, v). AList.update k v m) vs (buildExplicitBundleVariants files assets),
       sn_TotalBytes = bytes \<rparr>" "cat' = cat1"
    using assms f e by (auto simp: ScanWithCatalog_def Let_def split: option.splits sum.splits)
  note files = collectSourceFiles_files [OF f]
  note assets = buildAssets_all [OF files b(1)]
  then have "map_all (\<lambda>p a. a_Path a = p) assets" by (auto simp: map_all_def asset_of_def)
  then have "map_all (variant_of assets) (sn_Variants snap)"
    using buildSidecarVariants_all b(2) buildExplicitBundleVariants_all by (auto simp: b(3) intro: foldl_update_all)
  with that [OF f, of "(assets0, sidecars0)"] e b assets files show thesis by simp
qed


definition scan_file :: "string \<Rightarrow> int \<Rightarrow> SourceFile" where
  "scan_file p n = \<lparr> sf_Path = p, sf_FullPath = ''/srv/'' @ p, sf_Kind = [], sf_Size = n, sf_IsDir = False, sf_ModTime = zero_time,
     sf_MediaType = ''text/javascript'', sf_SourceHash = ''h1'', sf_ETag = ''e1'', sf_AssetPath = [], sf_Encoding = [],
     sf_Format = [], sf_Width = 0 \<rparr>"

definition example_source :: source_env where
  "example_source = \<lparr> sn_Walk = Inr [scan_file ''app.js'' 10, scan_file ''app.js.br'' 4],
     sn_FindFile = (\<lambda>p. Inr (if p = ''app.js'' then Some (scan_file p 10) else None)), sn_ReadPrefix = (\<lambda>p. Inr (Some ''body'')),
     sn_HashFile = (\<lambda>p. Some ''h1''),
     sn_DetectFile = (\<lambda>p. None), sn_Detect = (\<lambda>b. None), sn_TypeByExtension = (\<lambda>e. []), sn_same_mime = (=),
     sn_decode = (\<lambda>e b. Some (b, False)), sn_Match = (\<lambda>p s. Some (p = s)), sn_ValidatePattern = (\<lambda>p. True),
     sn_print = (\<lambda>n. True), sn_walk_live = (\<lambda>n. True), sn_build_live = (\<lambda>n. True) \<rparr>"

definition example_scanner :: Scanner where
  "example_scanner =
     (let ms = [\<lparr> sm_encoding = ''br'', sm_suffix = ''.br'' \<rparr>]
      in \<lparr> sc_matchers = ms, sc_matcherTrie = buildSidecarMatcherTrie ms,
           sc_pathFilter = \<lparr> af_include = [], af_exclude = [], af_err = None \<rparr> \<rparr>)"

definition example_source_files :: "(string \<times> SourceFile) list" where
  "example_source_files = [(''app.js'', scan_file ''app.js'' 10), (''app.js.br'', scan_file ''app.js.br'' 4)]"

lemma example_collected: "collectSourceFiles example_source example_scanner = Inr (example_source_files, 14)"
  by code_simp

lemma example_sidecar_paths:
  "\<not> is_sidecar_path example_source_files (sc_matchers example_scanner) ''app.js''"
  "is_sidecar_path example_source_files (sc_matchers example_scanner) ''app.js.br''"
proof -
  have "Option.is_none (matchSidecar ''app.js'' example_source_files (buildSidecarMatcherTrie (sc_matchers example_scanner)))"
    "\<not> Option.is_none (matchSidecar ''app.js.br'' example_source_files (buildSidecarMatcherTrie (sc_matchers example_scanner)))"
    by code_simp+
  then show "\<not> is_sidecar_path example_source_files (sc_matchers example_scanner) ''app.js''"
    "is_sidecar_path example_source_files (sc_matchers example_scanner) ''app.js.br''"
    by (simp_all add: is_sidecar_path_def Option.is_none_def)
qed

definition scanned_paths :: "(scan_error + scan_snapshot) \<times> IndexedCatalog option \<Rightarrow> (string list \<times> string list) option" where
  "scanned_paths res = (case fst res of Inl _ \<Rightarrow> None | Inr snap \<Rightarrow> Some (map fst (sn_Assets snap), map fst (sn_Variants snap)))"

lemma scanned_pathsE:
  assumes "scanned_paths res = Some (as, vs)"
  obtains snap c where "res = (Inr snap, c)" "map fst (sn_Assets snap) = as" "map fst (sn_Variants snap) = vs"
  using assms by (cases res) (auto simp: scanned_paths_def split: sum.splits)

lemma example_scan: "scanned_paths (ScanWithCatalog example_source example_scanner None) = Some ([''app.js''], [''app.js.br''])"
  by code_simp


end
