(* ===== verification/SourceRescan.thy ===== *)
theory SourceRescan
  imports SourceCatalog Cleanup
begin

text \<open>
  The synchronisation of the catalog with the source (\<open>internal/task/source_rescan*.go\<close>): the full rescan, which
  reconciles the catalog with a scan, and the incremental one, which applies a batch of change events.

  The state is the catalog, the paths whose bodies the memory cache holds, the files present on disk, and the
  report.  Whether the directory of a file can be opened is a parameter.  A set whose order the code leaves open
  is a list.  A rescan runs under its mutex, so it is not interleaved with another; metrics, events and logs are
  left out.
\<close>

section \<open>The run\<close>

record SourceRescanReport =
  rp_TotalBytes :: int
  rp_Scanned :: nat
  rp_Added :: nat
  rp_Updated :: nat
  rp_Removed :: nat
  rp_RemovedVariants :: nat
  rp_RemovedArtifacts :: nat
  rp_CacheInvalidations :: nat

definition emptyReport :: SourceRescanReport where
  "emptyReport = \<lparr> rp_TotalBytes = 0, rp_Scanned = 0, rp_Added = 0, rp_Updated = 0, rp_Removed = 0,
     rp_RemovedVariants = 0, rp_RemovedArtifacts = 0, rp_CacheInvalidations = 0 \<rparr>"

record ChangeEvent =
  ev_Path :: string
  ev_Op :: string
  ev_FullRescan :: bool

datatype rescan_error = FullRescanRequired | ScanError scan_error | SyncCatalogError catalog_error

record rescan_env =
  rv_source :: source_env
  rv_scanner :: Scanner
  rv_stat :: "string \<Rightarrow> time option"
  rv_cwd :: string
  rv_view :: "string \<Rightarrow> root_view"
  rv_stuck :: "string \<Rightarrow> bool"

record sourceRescanRun =
  rn_catalog :: IndexedCatalog
  rn_cached :: "string set"
  rn_present :: "string set"
  rn_report :: SourceRescanReport

text \<open>A \<open>Range\<close> loop that stops at the first error; what it changed before stays.\<close>

fun range_until :: "('a \<Rightarrow> 's \<Rightarrow> 'e option \<times> 's) \<Rightarrow> 'a list \<Rightarrow> 's \<Rightarrow> 'e option \<times> 's" where
  "range_until f [] st = (None, st)"
| "range_until f (x # xs) st = (case f x st of (Some e, st') \<Rightarrow> (Some e, st') | (None, st') \<Rightarrow> range_until f xs st')"

definition catalog_result :: "sourceRescanRun \<Rightarrow> catalog_error + IndexedCatalog \<Rightarrow> rescan_error option \<times> sourceRescanRun" where
  "catalog_result st r = (case r of Inl e \<Rightarrow> (Some (SyncCatalogError e), st) | Inr c \<Rightarrow> (None, st\<lparr>rn_catalog := c\<rparr>))"

definition on_report :: "(SourceRescanReport \<Rightarrow> SourceRescanReport) \<Rightarrow> sourceRescanRun \<Rightarrow> sourceRescanRun" where
  "on_report f st = st\<lparr>rn_report := f (rn_report st)\<rparr>"

section \<open>Removing what a variant leaves\<close>

definition openValidatedDirectoryRoot :: "root_view \<Rightarrow> go_error option" where
  "openValidatedDirectoryRoot view =
     (case rw_lstat view of
        None \<Rightarrow> Some (OopsError (OsError ENotExist))
      | Some (kind, ident) \<Rightarrow>
          if kind = RootLink then Some (OopsError (TextError ''root symlink not allowed''))
          else if kind \<noteq> RootDir then Some (OopsError (TextError ''root is not a directory''))
          else (case rw_open view of
                  None \<Rightarrow> Some (OopsError (OsError EOther))
                | Some opened \<Rightarrow> if ident \<noteq> opened then Some (OopsError (TextError ''root was replaced'')) else None))"

definition removeFileFromParentRoot :: "rescan_env \<Rightarrow> string \<Rightarrow> sourceRescanRun \<Rightarrow> go_error option \<times> sourceRescanRun" where
  "removeFileFromParentRoot env rawPath st =
     (let absolute = path_abs (rv_cwd env) (path_clean (trim_space rawPath)); parent = path_dir absolute; name = path_base absolute
      in if name = ''.'' \<or> name = ''/'' then (Some (OopsError (TextError ''artifact path has no file name'')), st)
         else (case openValidatedDirectoryRoot (rv_view env parent) of
                 Some e \<Rightarrow> (Some e, st)
               | None \<Rightarrow>
                   if rv_stuck env absolute then (Some (OopsError (OsError EOther)), st)
                   else if absolute \<notin> rn_present st then (Some (OopsError (OsError ENotExist)), st)
                   else (None, st\<lparr>rn_present := rn_present st - {absolute}\<rparr>)))"

definition removeArtifactFile :: "rescan_env \<Rightarrow> string \<Rightarrow> sourceRescanRun \<Rightarrow> nat \<times> sourceRescanRun" where
  "removeArtifactFile env p st =
     (if trim_space p = [] then (0, st)
      else (case removeFileFromParentRoot env p st of
              (None, st') \<Rightarrow> (1, st') | (Some e, st') \<Rightarrow> if \<not> os_IsNotExist e then (0, st') else (1, st')))"

definition removeVariantArtifact :: "rescan_env \<Rightarrow> Variant \<Rightarrow> sourceRescanRun \<Rightarrow> nat \<times> sourceRescanRun" where
  "removeVariantArtifact env v st =
     (if IsSourceSidecarVariant v then (0, st) else removeArtifactFile env (v_ArtifactPath v) st)"

definition run_invalidateAssetCache :: "string \<Rightarrow> sourceRescanRun \<Rightarrow> nat \<times> sourceRescanRun" where
  "run_invalidateAssetCache p st =
     (if p \<in> rn_cached st then (1, st\<lparr>rn_cached := rn_cached st - {p}\<rparr>) else (0, st))"

definition count_invalidation :: "string \<Rightarrow> sourceRescanRun \<Rightarrow> sourceRescanRun" where
  "count_invalidation p st =
     (case run_invalidateAssetCache p st of
        (n, st') \<Rightarrow> on_report (\<lambda>r. r\<lparr>rp_CacheInvalidations := rp_CacheInvalidations r + n\<rparr>) st')"

definition removeAssetVariants :: "rescan_env \<Rightarrow> Variant list \<Rightarrow> sourceRescanRun \<Rightarrow> nat \<times> sourceRescanRun" where
  "removeAssetVariants env vs st =
     foldl (\<lambda>(removed, st) v.
              let st1 = count_invalidation (v_ArtifactPath v) st; (n, st2) = removeVariantArtifact env v st1
              in (Suc removed, on_report (\<lambda>r. r\<lparr>rp_RemovedArtifacts := rp_RemovedArtifacts r + n\<rparr>) st2)) (0, st) vs"

definition invalidateAssetAndVariants :: "rescan_env \<Rightarrow> string \<Rightarrow> Variant list \<Rightarrow> sourceRescanRun \<Rightarrow> sourceRescanRun" where
  "invalidateAssetAndVariants env assetPath vs st =
     (case removeAssetVariants env vs (count_invalidation assetPath st) of
        (n, st') \<Rightarrow> on_report (\<lambda>r. r\<lparr>rp_RemovedVariants := rp_RemovedVariants r + n\<rparr>) st')"

definition drop_variants :: "rescan_env \<Rightarrow> string \<Rightarrow> string \<Rightarrow> sourceRescanRun \<Rightarrow> sourceRescanRun" where
  "drop_variants env assetPath fullPath st =
     (case DeleteVariants (rn_catalog st) assetPath of
        (vs, c) \<Rightarrow> invalidateAssetAndVariants env fullPath vs (st\<lparr>rn_catalog := c\<rparr>))"

definition drop_asset :: "rescan_env \<Rightarrow> string \<Rightarrow> string \<Rightarrow> sourceRescanRun \<Rightarrow> sourceRescanRun" where
  "drop_asset env assetPath fullPath st =
     (case DeleteAsset (rn_catalog st) assetPath of
        (vs, c) \<Rightarrow> invalidateAssetAndVariants env fullPath vs (st\<lparr>rn_catalog := c\<rparr>))"

definition delete_artifact :: "string \<Rightarrow> sourceRescanRun \<Rightarrow> sourceRescanRun" where
  "delete_artifact p st =
     (case DeleteVariantByArtifactPath (rn_catalog st) p of
        (False, c) \<Rightarrow> st\<lparr>rn_catalog := c\<rparr>
      | (True, c) \<Rightarrow> count_invalidation p
          (on_report (\<lambda>r. r\<lparr>rp_RemovedVariants := rp_RemovedVariants r + 1\<rparr>) (st\<lparr>rn_catalog := c\<rparr>)))"

section \<open>The full rescan\<close>

definition indexAssetsByPath :: "Asset list \<Rightarrow> (string \<times> Asset) list" where
  "indexAssetsByPath assets = foldl (\<lambda>m a. AList.update (a_Path a) a m) [] assets"

definition totalAssetBytes :: "Asset list \<Rightarrow> int" where
  "totalAssetBytes assets = foldl (\<lambda>n a. wrap64 (n + a_Size a)) 0 assets"

definition assetChanged :: "Asset \<Rightarrow> Asset \<Rightarrow> bool" where
  "assetChanged existing new \<longleftrightarrow>
     a_FullPath existing \<noteq> a_FullPath new \<or> a_Size existing \<noteq> a_Size new \<or> a_MediaType existing \<noteq> a_MediaType new \<or>
     a_SourceHash existing \<noteq> a_SourceHash new \<or> a_ETag existing \<noteq> a_ETag new"

definition syncScannedAsset ::
    "rescan_env \<Rightarrow> string \<times> Asset \<Rightarrow> (string \<times> Asset) list \<times> sourceRescanRun \<Rightarrow>
     rescan_error option \<times> (string \<times> Asset) list \<times> sourceRescanRun" where
  "syncScannedAsset env entry st =
     (case (entry, st) of
        ((assetPath, a), (existingByPath, run)) \<Rightarrow>
          (let existing = map_of existingByPath assetPath;
               existing' = AList.delete assetPath existingByPath;
               run1 = (case existing of
                         None \<Rightarrow> on_report (\<lambda>r. r\<lparr>rp_Added := rp_Added r + 1\<rparr>) run
                       | Some e \<Rightarrow>
                           if assetChanged e a
                           then drop_variants env assetPath (a_FullPath e)
                                  (on_report (\<lambda>r. r\<lparr>rp_Updated := rp_Updated r + 1\<rparr>) run)
                           else run)
           in case catalog_result run1 (UpsertAsset (rv_stat env) (rn_catalog run1) (Some a)) of
                (e, run2) \<Rightarrow> (e, existing', run2)))"

definition reconcileScannedAssets ::
    "rescan_env \<Rightarrow> (string \<times> Asset) list \<Rightarrow> (string \<times> Asset) list \<times> sourceRescanRun \<Rightarrow>
     rescan_error option \<times> (string \<times> Asset) list \<times> sourceRescanRun" where
  "reconcileScannedAssets env scanned st = range_until (syncScannedAsset env) (SortedEntries scanned) st"

definition reconcileRemovedAssets :: "rescan_env \<Rightarrow> (string \<times> Asset) list \<Rightarrow> sourceRescanRun \<Rightarrow> sourceRescanRun" where
  "reconcileRemovedAssets env existingByPath run =
     foldl (\<lambda>run (p, a). drop_asset env p (a_FullPath a) (on_report (\<lambda>r. r\<lparr>rp_Removed := rp_Removed r + 1\<rparr>) run))
       run (SortedEntries existingByPath)"

definition indexSourceSidecarVariants :: "sourceRescanRun \<Rightarrow> (string \<times> Variant) list \<times> sourceRescanRun" where
  "indexSourceSidecarVariants run =
     (case ListVariantsByStage (rn_catalog run) SourceSidecarStage of
        (vs, c) \<Rightarrow>
          (foldl (\<lambda>m v. if IsSourceSidecarVariant v then AList.update (v_ID v) v m else m) [] vs, run\<lparr>rn_catalog := c\<rparr>))"

definition upsert_scanned ::
    "rescan_env \<Rightarrow> string \<times> Variant \<Rightarrow> (string \<times> Variant) list \<times> sourceRescanRun \<Rightarrow>
     rescan_error option \<times> (string \<times> Variant) list \<times> sourceRescanRun" where
  "upsert_scanned env entry st =
     (case catalog_result (snd st) (UpsertVariant (rv_stat env) (rn_catalog (snd st)) (Some (snd entry))) of
        (Some e, run) \<Rightarrow> (Some e, fst st, run)
      | (None, run) \<Rightarrow> (None, AList.delete (fst entry) (fst st), run))"

definition reconcileSourceSidecars ::
    "rescan_env \<Rightarrow> (string \<times> Variant) list \<Rightarrow> sourceRescanRun \<Rightarrow> rescan_error option \<times> sourceRescanRun" where
  "reconcileSourceSidecars env scannedVariants run =
     (case range_until (upsert_scanned env) (SortedEntries scannedVariants) (indexSourceSidecarVariants run) of
        (Some e, _, run') \<Rightarrow> (Some e, run')
      | (None, existingByID, run') \<Rightarrow>
          (None, foldl (\<lambda>run (_, v). delete_artifact (v_ArtifactPath v) run) run' (SortedEntries existingByID)))"

definition collectScannedSnapshot ::
    "rescan_env \<Rightarrow> sourceRescanRun \<Rightarrow> (rescan_error + scan_snapshot) \<times> sourceRescanRun" where
  "collectScannedSnapshot env run =
     (case ScanWithCatalog (rv_source env) (rv_scanner env) (Some (rn_catalog run)) of
        (res, c) \<Rightarrow>
          (let run' = run\<lparr>rn_catalog := the c\<rparr>
           in case res of
                Inl e \<Rightarrow> (Inl (ScanError e), run')
              | Inr snap \<Rightarrow> (Inr snap, on_report (\<lambda>r. r\<lparr>rp_TotalBytes := sn_TotalBytes snap,
                                                          rp_Scanned := length (sn_Assets snap)\<rparr>) run')))"

definition syncFull :: "rescan_env \<Rightarrow> sourceRescanRun \<Rightarrow> rescan_error option \<times> sourceRescanRun" where
  "syncFull env run =
     (case collectScannedSnapshot env run of
        (Inl e, run1) \<Rightarrow> (Some e, run1)
      | (Inr snap, run1) \<Rightarrow>
          (case AllAssets (rn_catalog run1) of
             (assets, c) \<Rightarrow>
               (case reconcileScannedAssets env (sn_Assets snap) (indexAssetsByPath assets, run1\<lparr>rn_catalog := c\<rparr>) of
                  (Some e, _, run2) \<Rightarrow> (Some e, run2)
                | (None, existingByPath, run2) \<Rightarrow>
                    reconcileSourceSidecars env (sn_Variants snap) (reconcileRemovedAssets env existingByPath run2))))"

section \<open>The incremental rescan\<close>

record sourceRescanSidecarChange =
  sk_match :: SidecarMatch
  sk_file :: SourceFile

record sourceRescanChangeSet =
  cg_deletedAssets :: "string list"
  cg_deletedSourceSidecars :: "(string \<times> SidecarMatch) list"
  cg_changedAssets :: "(string \<times> SourceFile) list"
  cg_changedSourceSidecars :: "(string \<times> sourceRescanSidecarChange) list"
  cg_touchedAssetPaths :: "string list"

definition newSourceRescanChangeSet :: sourceRescanChangeSet where
  "newSourceRescanChangeSet = \<lparr> cg_deletedAssets = [], cg_deletedSourceSidecars = [], cg_changedAssets = [],
     cg_changedSourceSidecars = [], cg_touchedAssetPaths = [] \<rparr>"

definition normalizeChangePath :: "string \<Rightarrow> string" where
  "normalizeChangePath rawPath =
     (let trimmed = trim_space rawPath in if trimmed = [] then [] else trim_prefix (path_clean trimmed) ''/'')"

datatype source_change = sourceChangeUnknown | sourceChangeWrite | sourceChangeDelete | sourceChangeFallback

definition classifyChange :: "string \<Rightarrow> source_change" where
  "classifyChange rawOp =
     (let op = trim_space (to_upper rawOp)
      in if op = [] then sourceChangeUnknown
         else if contains_sub op ''RENAME'' \<or> contains_sub op ''MOVE'' then sourceChangeFallback
         else if contains_sub op ''CREATE'' \<and> contains_sub op ''REMOVE'' then sourceChangeFallback
         else if contains_sub op ''CREATE'' \<or> contains_sub op ''WRITE'' then sourceChangeWrite
         else if contains_sub op ''REMOVE'' then sourceChangeDelete
         else sourceChangeUnknown)"

definition touch :: "string \<Rightarrow> sourceRescanChangeSet \<Rightarrow> sourceRescanChangeSet" where
  "touch p cg = cg\<lparr>cg_touchedAssetPaths := List.insert p (cg_touchedAssetPaths cg)\<rparr>"

definition recordAssetDelete :: "Scanner \<Rightarrow> sourceRescanChangeSet \<Rightarrow> string \<Rightarrow> sourceRescanChangeSet" where
  "recordAssetDelete s cg p =
     (case MatchSidecarPath s p of
        None \<Rightarrow>
          (let cg1 = touch p (cg\<lparr>cg_deletedAssets := List.insert p (cg_deletedAssets cg)\<rparr>)
           in cg1\<lparr>cg_changedAssets := AList.delete p (cg_changedAssets cg1)\<rparr>)
      | Some m \<Rightarrow>
          (let cg1 = cg\<lparr>cg_deletedSourceSidecars := AList.update p m (cg_deletedSourceSidecars cg)\<rparr>
           in if mt_AssetPath m \<noteq> [] then touch (mt_AssetPath m) cg1 else cg1))"

definition changedAssetMatchPath ::
    "sourceRescanChangeSet \<Rightarrow> SidecarMatch \<Rightarrow> string \<Rightarrow> SourceFile \<Rightarrow> sourceRescanChangeSet" where
  "changedAssetMatchPath cg m sidecarPath f =
     (if mt_AssetPath m = [] then cg
      else touch (mt_AssetPath m)
        (cg\<lparr>cg_changedSourceSidecars := AList.update sidecarPath \<lparr> sk_match = m, sk_file = f \<rparr> (cg_changedSourceSidecars cg)\<rparr>))"

definition recordAssetWrite ::
    "rescan_env \<Rightarrow> sourceRescanChangeSet \<Rightarrow> string \<Rightarrow> rescan_error + sourceRescanChangeSet" where
  "recordAssetWrite env cg p =
     (let m = MatchSidecarPath (rv_scanner env) p
      in if (if m \<noteq> None then map_of (cg_changedSourceSidecars cg) p \<noteq> None else map_of (cg_changedAssets cg) p \<noteq> None)
         then Inr cg
         else (case FindFile (rv_source env) (rv_scanner env) p of
                 Inl e \<Rightarrow> Inl (ScanError e)
               | Inr None \<Rightarrow> Inr cg
               | Inr (Some f) \<Rightarrow>
                   (let cg1 = touch p cg
                    in case m of
                         Some mt \<Rightarrow> Inr (changedAssetMatchPath cg1 mt p f)
                       | None \<Rightarrow> Inr (cg1\<lparr>cg_changedAssets := AList.update p f (cg_changedAssets cg1)\<rparr>))))"

definition addChangeToIncrementalSet ::
    "rescan_env \<Rightarrow> sourceRescanChangeSet \<Rightarrow> string \<Rightarrow> string \<Rightarrow> rescan_error + sourceRescanChangeSet" where
  "addChangeToIncrementalSet env cg rawPath rawOp =
     (let p = normalizeChangePath rawPath
      in if p = [] then Inr cg
         else (case classifyChange rawOp of
                 sourceChangeUnknown \<Rightarrow> Inr cg
               | sourceChangeFallback \<Rightarrow> Inl FullRescanRequired
               | sourceChangeDelete \<Rightarrow> Inr (recordAssetDelete (rv_scanner env) cg p)
               | sourceChangeWrite \<Rightarrow> recordAssetWrite env cg p))"

definition normalizeIncrementalTargets :: "sourceRescanChangeSet \<Rightarrow> sourceRescanChangeSet" where
  "normalizeIncrementalTargets cg =
     (let cg1 = cg\<lparr>cg_changedAssets := foldl (\<lambda>m p. AList.delete p m) (cg_changedAssets cg) (cg_deletedAssets cg)\<rparr>;
          kept = filter (\<lambda>(_, c). mt_AssetPath (sk_match c) \<notin> set (cg_deletedAssets cg1)) (cg_changedSourceSidecars cg1)
      in (foldl (\<lambda>cg (_, c). touch (mt_AssetPath (sk_match c)) cg) cg1 kept)\<lparr>cg_changedSourceSidecars := kept\<rparr>)"

definition buildIncrementalChangeSet :: "rescan_env \<Rightarrow> ChangeEvent list \<Rightarrow> rescan_error + sourceRescanChangeSet" where
  "buildIncrementalChangeSet env changes =
     (case run_all (\<lambda>cg ev. if ev_FullRescan ev then Inl FullRescanRequired
                           else addChangeToIncrementalSet env cg (trim_space (ev_Path ev)) (ev_Op ev))
             newSourceRescanChangeSet changes of
        Inl e \<Rightarrow> Inl e | Inr cg \<Rightarrow> Inr (normalizeIncrementalTargets cg))"

definition changes_isEmpty :: "sourceRescanChangeSet \<Rightarrow> bool" where
  "changes_isEmpty cg \<longleftrightarrow> cg_deletedAssets cg = [] \<and> cg_deletedSourceSidecars cg = [] \<and> cg_changedAssets cg = [] \<and>
     cg_changedSourceSidecars cg = []"

definition processDeletedAssets :: "rescan_env \<Rightarrow> string list \<Rightarrow> sourceRescanRun \<Rightarrow> sourceRescanRun" where
  "processDeletedAssets env deletedAssets run =
     foldl (\<lambda>run p. case FindAsset (rn_catalog run) p of
                      None \<Rightarrow> run
                    | Some existing \<Rightarrow>
                        drop_asset env p (a_FullPath existing) (on_report (\<lambda>r. r\<lparr>rp_Removed := rp_Removed r + 1\<rparr>) run))
       run deletedAssets"

definition removeSidecarVariants :: "SidecarMatch \<Rightarrow> sourceRescanRun \<Rightarrow> sourceRescanRun" where
  "removeSidecarVariants m run =
     (if mt_AssetPath m = [] then run
      else (case ListVariantsView (rn_catalog run) (mt_AssetPath m) of
              (vs, c) \<Rightarrow>
                foldl (\<lambda>run v. delete_artifact (v_ArtifactPath v) run) (run\<lparr>rn_catalog := c\<rparr>)
                  (filter (\<lambda>v. v_Encoding v = mt_Encoding m \<and> v_ID v = mt_AssetPath m @ mt_Suffix m) vs)))"

definition processDeletedSourceSidecars ::
    "(string \<times> SidecarMatch) list \<Rightarrow> sourceRescanRun \<Rightarrow> sourceRescanRun" where
  "processDeletedSourceSidecars deleted run = foldl (\<lambda>run (_, m). removeSidecarVariants m run) run deleted"

definition run_buildSidecarVariant ::
    "rescan_env \<Rightarrow> Asset \<Rightarrow> sidecarMatcher \<Rightarrow> rescan_error + Variant option" where
  "run_buildSidecarVariant env a matcher =
     (case FindFile (rv_source env) (rv_scanner env) (a_Path a @ sm_suffix matcher) of
        Inl e \<Rightarrow> Inl (ScanError e)
      | Inr None \<Rightarrow> Inr None
      | Inr (Some f) \<Rightarrow>
          (case scanner_BuildSourceSidecarVariant (rv_source env) f
                  \<lparr> mt_AssetPath = a_Path a, mt_Encoding = sm_encoding matcher, mt_Suffix = sm_suffix matcher \<rparr> a of
             Inl e \<Rightarrow> Inl (ScanError e) | Inr v \<Rightarrow> Inr v))"

definition rebuildSourceSidecarsForAsset ::
    "rescan_env \<Rightarrow> Asset \<Rightarrow> sourceRescanRun \<Rightarrow> rescan_error option \<times> sourceRescanRun" where
  "rebuildSourceSidecarsForAsset env a run =
     range_until (\<lambda>matcher run.
       case run_buildSidecarVariant env a matcher of
         Inl e \<Rightarrow> (Some e, run)
       | Inr None \<Rightarrow> (None, run)
       | Inr (Some v) \<Rightarrow> catalog_result run (UpsertVariant (rv_stat env) (rn_catalog run) (Some v)))
       (sc_matchers (rv_scanner env)) run"

definition upsertAssetAndSidecars ::
    "rescan_env \<Rightarrow> string \<Rightarrow> SourceFile \<Rightarrow> sourceRescanRun \<Rightarrow> rescan_error option \<times> sourceRescanRun" where
  "upsertAssetAndSidecars env assetPath f run =
     (case BuildAsset (rv_source env) f of
        Inl e \<Rightarrow> (Some (ScanError e), run)
      | Inr new \<Rightarrow>
          (let existing = FindAsset (rn_catalog run) assetPath
           in if (case existing of None \<Rightarrow> False | Some e \<Rightarrow> \<not> assetChanged e new) then (None, run)
              else
                (let run1 = (case existing of
                       Some e \<Rightarrow> drop_variants env assetPath (a_FullPath e)
                                   (on_report (\<lambda>r. r\<lparr>rp_Updated := rp_Updated r + 1\<rparr>) run)
                     | None \<Rightarrow> on_report (\<lambda>r. r\<lparr>rp_Added := rp_Added r + 1\<rparr>) run)
                 in case catalog_result run1 (UpsertAsset (rv_stat env) (rn_catalog run1) (Some new)) of
                      (Some e, run2) \<Rightarrow> (Some e, run2)
                    | (None, run2) \<Rightarrow> rebuildSourceSidecarsForAsset env new run2)))"

definition processChangedAssets ::
    "rescan_env \<Rightarrow> (string \<times> SourceFile) list \<Rightarrow> sourceRescanRun \<Rightarrow> rescan_error option \<times> sourceRescanRun" where
  "processChangedAssets env changed run =
     range_until (\<lambda>(p, f) run. if sf_Path f = [] then (None, run) else upsertAssetAndSidecars env p f run)
       (SortedEntries changed) run"

definition upsertSidecarVariant ::
    "rescan_env \<Rightarrow> sourceRescanSidecarChange \<Rightarrow> sourceRescanRun \<Rightarrow> rescan_error option \<times> sourceRescanRun" where
  "upsertSidecarVariant env change run =
     (case FindAsset (rn_catalog run) (mt_AssetPath (sk_match change)) of
        None \<Rightarrow> (None, run)
      | Some a \<Rightarrow>
          (case scanner_BuildSourceSidecarVariant (rv_source env) (sk_file change) (sk_match change) a of
             Inl e \<Rightarrow> (Some (ScanError e), run)
           | Inr None \<Rightarrow> (None, removeSidecarVariants (sk_match change) run)
           | Inr (Some v) \<Rightarrow> catalog_result run (UpsertVariant (rv_stat env) (rn_catalog run) (Some v))))"

definition processChangedSourceSidecars ::
    "rescan_env \<Rightarrow> (string \<times> sourceRescanSidecarChange) list \<Rightarrow> sourceRescanRun \<Rightarrow> rescan_error option \<times> sourceRescanRun" where
  "processChangedSourceSidecars env changed run =
     range_until (\<lambda>(_, c) run. upsertSidecarVariant env c run) (SortedEntries changed) run"

definition syncIncrementally ::
    "rescan_env \<Rightarrow> ChangeEvent list \<Rightarrow> sourceRescanRun \<Rightarrow> rescan_error option \<times> sourceRescanRun" where
  "syncIncrementally env changes run =
     (case buildIncrementalChangeSet env changes of
        Inl e \<Rightarrow> (Some e, run)
      | Inr cg \<Rightarrow>
          if changes_isEmpty cg then (None, run)
          else
            (let run1 = processDeletedAssets env (cg_deletedAssets cg) run;
                 run2 = processDeletedSourceSidecars (cg_deletedSourceSidecars cg) run1
             in case processChangedAssets env (cg_changedAssets cg) run2 of
                  (Some e, run3) \<Rightarrow> (Some e, run3)
                | (None, run3) \<Rightarrow>
                    (case processChangedSourceSidecars env (cg_changedSourceSidecars cg) run3 of
                       (Some e, run4) \<Rightarrow> (Some e, run4)
                     | (None, run4) \<Rightarrow>
                         (case AllAssets (rn_catalog run4) of
                            (assets, c) \<Rightarrow>
                              (None, on_report (\<lambda>r. r\<lparr>rp_TotalBytes := totalAssetBytes assets,
                                                        rp_Scanned := length (cg_touchedAssetPaths cg)\<rparr>)
                                       (run4\<lparr>rn_catalog := c\<rparr>))))))"

definition sync_sources :: "rescan_env \<Rightarrow> ChangeEvent list \<Rightarrow> sourceRescanRun \<Rightarrow> rescan_error option \<times> sourceRescanRun" where
  "sync_sources env changes run =
     (if changes \<noteq> [] then
        (case syncIncrementally env changes run of
           (None, run') \<Rightarrow> (None, run')
         | (Some e, run') \<Rightarrow> if e \<noteq> FullRescanRequired then (Some e, run') else syncFull env (run'\<lparr>rn_report := emptyReport\<rparr>))
      else syncFull env run)"

definition syncSourceCatalog :: "rescan_env \<Rightarrow> ChangeEvent list \<Rightarrow> sourceRescanRun \<Rightarrow> rescan_error option \<times> sourceRescanRun" where
  "syncSourceCatalog env changes run = sync_sources env changes (run\<lparr>rn_report := emptyReport\<rparr>)"

section \<open>The abstract catalog of a run\<close>

definition cat_is :: "sourceRescanRun \<Rightarrow> abs_catalog \<Rightarrow> bool" where
  "cat_is run s \<longleftrightarrow> catalog_ok (rn_catalog run) \<and> absc (rn_catalog run) = s"

lemma on_report_catalog [simp]: "rn_catalog (on_report f run) = rn_catalog run"
  by (simp add: on_report_def)

lemma count_invalidation_catalog [simp]: "rn_catalog (count_invalidation p run) = rn_catalog run"
  by (simp add: count_invalidation_def run_invalidateAssetCache_def)

lemma removeFileFromParentRoot_catalog:
  "removeFileFromParentRoot env p run = (e, st') \<Longrightarrow> rn_catalog st' = rn_catalog run"
  by (auto simp: removeFileFromParentRoot_def Let_def split: option.splits if_splits)

lemma removeArtifactFile_catalog: "rn_catalog (snd (removeArtifactFile env p run)) = rn_catalog run"
  by (auto simp: removeArtifactFile_def split: option.splits prod.splits dest: removeFileFromParentRoot_catalog)

lemma removeVariantArtifact_catalog: "rn_catalog (snd (removeVariantArtifact env v run)) = rn_catalog run"
  by (simp add: removeVariantArtifact_def removeArtifactFile_catalog)

lemma removeAssetVariants_catalog: "rn_catalog (snd (removeAssetVariants env vs run)) = rn_catalog run"
proof -
  have "rn_catalog (snd (foldl (\<lambda>(removed, st) v.
              let st1 = count_invalidation (v_ArtifactPath v) st; (n, st2) = removeVariantArtifact env v st1
              in (Suc removed, on_report (\<lambda>r. r\<lparr>rp_RemovedArtifacts := rp_RemovedArtifacts r + n\<rparr>) st2)) (k, run) vs)) =
      rn_catalog run" for k
    by (induction vs arbitrary: k run)
      (simp_all add: Let_def split_beta removeVariantArtifact_catalog)
  then show ?thesis by (simp add: removeAssetVariants_def)
qed

lemma invalidate_catalog [simp]: "rn_catalog (invalidateAssetAndVariants env p vs run) = rn_catalog run"
  by (simp add: invalidateAssetAndVariants_def split_beta removeAssetVariants_catalog)

lemma cat_is_report [simp]: "cat_is (on_report f run) s = cat_is run s" "cat_is (count_invalidation p run) s = cat_is run s"
  "cat_is (run\<lparr>rn_report := r\<rparr>) s = cat_is run s"
  by (simp_all add: cat_is_def)

lemma drop_variants_cat:
  "cat_is run s \<Longrightarrow> cat_is (drop_variants env p q run) (fst s, {r \<in> snd s. r_AssetPath r \<noteq> p})"
  using DeleteVariants_ok [of "rn_catalog run" "\<lambda>_. None" p] by (auto simp: cat_is_def drop_variants_def split_beta)

lemma drop_asset_cat:
  "cat_is run s \<Longrightarrow> cat_is (drop_asset env p q run) ((fst s)(p := None), {r \<in> snd s. r_AssetPath r \<noteq> p})"
  using DeleteAsset_ok [of "rn_catalog run" "\<lambda>_. None" p] by (auto simp: cat_is_def drop_asset_def split_beta)

lemma delete_artifact_cat:
  "cat_is run s \<Longrightarrow> cat_is (delete_artifact p run) (fst s, {r \<in> snd s. r_ArtifactPath r \<noteq> p \<or> p = []})"
  using DeleteArtifact_ok [of "rn_catalog run" "\<lambda>_. None" p]
  by (cases "DeleteVariantByArtifactPath (rn_catalog run) p") (auto simp: cat_is_def delete_artifact_def split: bool.splits)

lemma upsert_asset_cat:
  assumes "cat_is run s"
  shows "\<exists>run'. catalog_result run (UpsertAsset stat (rn_catalog run) (Some a)) = (None, run') \<and>
    cat_is run' (put_asset stat (fst s) a, snd s)"
proof -
  obtain c where c: "UpsertAsset stat (rn_catalog run) (Some a) = Inr c"
    by (simp add: UpsertAsset_def buildAssetRecord_def)
  with UpsertAsset_ok [of "rn_catalog run" stat "Some a"] assms show ?thesis
    by (auto simp: catalog_result_def cat_is_def keep_def)
qed

lemma upsert_variant_cat:
  assumes "cat_is run s" "v_AssetPath v \<in> dom (fst s)"
  shows "\<exists>run'. catalog_result run (UpsertVariant stat (rn_catalog run) (Some v)) = (None, run') \<and>
    cat_is run' (fst s, abs_upsert (snd s) (variant_record stat v))"
proof -
  have "map_of (assetsByPath (rn_catalog run)) (r_AssetPath (variant_record stat v)) \<noteq> None"
    using assms by (auto simp: cat_is_def absc_def abs_assets_def)
  then obtain c where c: "UpsertVariant stat (rn_catalog run) (Some v) = Inr c"
    by (auto simp: UpsertVariant_def buildVariantRecord_def variant_record_def [symmetric])
  with UpsertVariant_ok [of "rn_catalog run" stat "Some v"] assms show ?thesis
    by (auto simp: catalog_result_def cat_is_def keep_def)
qed

section \<open>The full rescan reaches the scan\<close>

lemma reconcileScannedAssets_cat:
  "map_all (\<lambda>p a. a_Path a = p) xs \<Longrightarrow> cat_is run (A, R) \<Longrightarrow>
   \<exists>ex' run'. range_until (syncScannedAsset env) xs (ex, run) = (None, ex', run') \<and>
     map_of ex' = map_of ex |` (- fst ` set xs) \<and>
     cat_is run' (\<lambda>p. case map_of xs p of Some a \<Rightarrow> Some (prepareAsset (rv_stat env) a) | None \<Rightarrow> A p,
       {r \<in> R. \<not> (\<exists>e a. map_of xs (r_AssetPath r) = Some a \<and> map_of ex (r_AssetPath r) = Some e \<and> assetChanged e a)})"
proof (induction xs arbitrary: ex run A R)
  case Nil
  then show ?case by simp
next
  case (Cons x xs)
  obtain p a where x: "x = (p, a)" by fastforce
  have xs: "map_all (\<lambda>p a. a_Path a = p) xs" "a_Path a = p" "p \<notin> fst ` set xs"
    using Cons.prems(1) by (auto simp: map_all_def x)
  let ?stat = "rv_stat env"
  define run1 where "run1 = (case map_of ex p of
                         None \<Rightarrow> on_report (\<lambda>r. r\<lparr>rp_Added := rp_Added r + 1\<rparr>) run
                       | Some e \<Rightarrow>
                           if assetChanged e a
                           then drop_variants env p (a_FullPath e)
                                  (on_report (\<lambda>r. r\<lparr>rp_Updated := rp_Updated r + 1\<rparr>) run)
                           else run)"
  define R1 where "R1 = {r \<in> R. \<not> (r_AssetPath r = p \<and> (\<exists>e. map_of ex p = Some e \<and> assetChanged e a))}"
  have "cat_is run1 (A, R1)"
  proof (cases "\<exists>e. map_of ex p = Some e \<and> assetChanged e a")
    case True
    then have "cat_is run1 (A, {r \<in> R. r_AssetPath r \<noteq> p})" "R1 = {r \<in> R. r_AssetPath r \<noteq> p}"
      using Cons.prems(2) drop_variants_cat [of _ "(A, R)"] by (auto simp: run1_def R1_def)
    then show ?thesis by simp
  next
    case False
    then have "R1 = R" by (auto simp: R1_def)
    with Cons.prems(2) False show ?thesis by (auto simp: run1_def split: option.splits)
  qed
  from upsert_asset_cat [OF this, of ?stat a] obtain run2 where
    run2: "catalog_result run1 (UpsertAsset ?stat (rn_catalog run1) (Some a)) = (None, run2)"
    and cat2: "cat_is run2 (A(p \<mapsto> prepareAsset ?stat a), R1)"
    by (auto simp: put_asset_def xs(2))
  have step: "syncScannedAsset env x (ex, run) = (None, AList.delete p ex, run2)"
    using run2 by (simp add: syncScannedAsset_def x Let_def run1_def [symmetric])
  from Cons.IH [OF xs(1) cat2, of "AList.delete p ex"] obtain ex' run' where
    rest: "range_until (syncScannedAsset env) xs (AList.delete p ex, run2) = (None, ex', run')"
    and ex': "map_of ex' = map_of (AList.delete p ex) |` (- fst ` set xs)"
    and cat': "cat_is run' (\<lambda>q. case map_of xs q of Some a \<Rightarrow> Some (prepareAsset ?stat a)
        | None \<Rightarrow> (A(p \<mapsto> prepareAsset ?stat a)) q,
      {r \<in> R1. \<not> (\<exists>e a. map_of xs (r_AssetPath r) = Some a \<and> map_of (AList.delete p ex) (r_AssetPath r) = Some e \<and>
        assetChanged e a)})"
    by blast
  have none: "map_of xs p = None" using xs(3) by (simp add: map_of_eq_None_iff)
  have "range_until (syncScannedAsset env) (x # xs) (ex, run) = (None, ex', run')"
    using step rest by simp
  moreover have "map_of ex' = map_of ex |` (- fst ` set (x # xs))"
    unfolding ex' by (auto simp: x delete_conv' restrict_map_def fun_eq_iff)
  moreover have "(\<lambda>q. case map_of xs q of Some a \<Rightarrow> Some (prepareAsset ?stat a) | None \<Rightarrow> (A(p \<mapsto> prepareAsset ?stat a)) q) =
      (\<lambda>q. case map_of (x # xs) q of Some a \<Rightarrow> Some (prepareAsset ?stat a) | None \<Rightarrow> A q)"
    using none by (auto simp: x fun_eq_iff split: option.splits)
  moreover have "{r \<in> R1. \<not> (\<exists>e a. map_of xs (r_AssetPath r) = Some a \<and>
        map_of (AList.delete p ex) (r_AssetPath r) = Some e \<and> assetChanged e a)} =
      {r \<in> R. \<not> (\<exists>e a. map_of (x # xs) (r_AssetPath r) = Some a \<and> map_of ex (r_AssetPath r) = Some e \<and> assetChanged e a)}"
    using none by (auto simp: x R1_def delete_conv')
  ultimately show ?case using cat' by metis
qed

lemma reconcileRemovedAssets_cat:
  "cat_is run (A, R) \<Longrightarrow>
     cat_is (reconcileRemovedAssets env ex run) (A |` (- fst ` set ex), {r \<in> R. r_AssetPath r \<notin> fst ` set ex})"
proof -
  have "cat_is run (A, R) \<Longrightarrow>
      cat_is (foldl (\<lambda>run (p, a). drop_asset env p (a_FullPath a) (on_report (\<lambda>r. r\<lparr>rp_Removed := rp_Removed r + 1\<rparr>) run)) run xs)
        (A |` (- fst ` set xs), {r \<in> R. r_AssetPath r \<notin> fst ` set xs})" for xs
  proof (induction xs arbitrary: run A R)
    case Nil
    then show ?case by (simp add: restrict_map_def)
  next
    case (Cons x xs)
    obtain p a where x: "x = (p, a)" by fastforce
    let ?run = "drop_asset env p (a_FullPath a) (on_report (\<lambda>r. r\<lparr>rp_Removed := rp_Removed r + 1\<rparr>) run)"
    have "cat_is ?run (A(p := None), {r \<in> R. r_AssetPath r \<noteq> p})"
      using drop_asset_cat [of "on_report (\<lambda>r. r\<lparr>rp_Removed := rp_Removed r + 1\<rparr>) run" "(A, R)"] Cons.prems by simp
    from Cons.IH [OF this]
    have "cat_is (foldl (\<lambda>run (p, a). drop_asset env p (a_FullPath a) (on_report (\<lambda>r. r\<lparr>rp_Removed := rp_Removed r + 1\<rparr>) run)) ?run xs)
        (A(p := None) |` (- fst ` set xs), {r \<in> {r \<in> R. r_AssetPath r \<noteq> p}. r_AssetPath r \<notin> fst ` set xs})" .
    moreover have "A(p := None) |` (- fst ` set xs) = A |` (- fst ` set (x # xs))"
      by (auto simp: x restrict_map_def fun_eq_iff)
    moreover have "{r \<in> {r \<in> R. r_AssetPath r \<noteq> p}. r_AssetPath r \<notin> fst ` set xs} = {r \<in> R. r_AssetPath r \<notin> fst ` set (x # xs)}"
      by (auto simp: x)
    ultimately show ?case by (simp add: x)
  qed
  from this [of "SortedEntries ex"] show "cat_is run (A, R) \<Longrightarrow> ?thesis" by (simp add: reconcileRemovedAssets_def)
qed

lemma upsert_scanned_cat:
  "\<forall>x\<in>set xs. v_AssetPath (snd x) \<in> dom A \<Longrightarrow> cat_is run (A, R) \<Longrightarrow>
   \<exists>ids' run' R'. range_until (upsert_scanned env) xs (ids, run) = (None, ids', run') \<and> cat_is run' (A, R') \<and>
     map_of ids' = map_of ids |` (- fst ` set xs) \<and>
     R' \<subseteq> {r \<in> R. \<forall>x\<in>set xs. \<not> conflicts (variant_record (rv_stat env) (snd x)) r} \<union>
       (\<lambda>x. variant_record (rv_stat env) (snd x)) ` set xs"
proof (induction xs arbitrary: ids run R)
  case Nil
  then show ?case by auto
next
  case (Cons x xs)
  let ?rec = "\<lambda>x. variant_record (rv_stat env) (snd x)"
  from upsert_variant_cat [OF Cons.prems(2), of "snd x" "rv_stat env"] Cons.prems(1) obtain run1 where
    run1: "catalog_result run (UpsertVariant (rv_stat env) (rn_catalog run) (Some (snd x))) = (None, run1)"
    and cat1: "cat_is run1 (A, abs_upsert R (?rec x))" by auto
  from Cons.IH [OF _ cat1, of "AList.delete (fst x) ids"] Cons.prems(1) obtain ids' run' R' where
    rest: "range_until (upsert_scanned env) xs (AList.delete (fst x) ids, run1) = (None, ids', run')" "cat_is run' (A, R')"
    "R' \<subseteq> {r \<in> abs_upsert R (?rec x). \<forall>x\<in>set xs. \<not> conflicts (?rec x) r} \<union> ?rec ` set xs"
    and ids: "map_of ids' = map_of (AList.delete (fst x) ids) |` (- fst ` set xs)"
    by auto
  have "upsert_scanned env x (ids, run) = (None, AList.delete (fst x) ids, run1)"
    using run1 by (simp add: upsert_scanned_def)
  moreover have "map_of ids' = map_of ids |` (- fst ` set (x # xs))"
    unfolding ids by (auto simp: delete_conv' restrict_map_def fun_eq_iff)
  moreover have "R' \<subseteq> {r \<in> R. \<forall>x\<in>set (x # xs). \<not> conflicts (?rec x) r} \<union> ?rec ` set (x # xs)"
    using rest(3) by (auto simp: abs_upsert_def)
  ultimately show ?case using rest(1,2) by auto
qed

lemma delete_artifacts_cat:
  "cat_is run (A, R) \<Longrightarrow>
   cat_is (foldl (\<lambda>run (_, v). delete_artifact (v_ArtifactPath v) run) run xs)
     (A, {r \<in> R. r_ArtifactPath r \<noteq> [] \<longrightarrow> r_ArtifactPath r \<notin> v_ArtifactPath ` snd ` set xs})"
proof (induction xs arbitrary: run R)
  case (Cons x xs)
  obtain k v where x: "x = (k, v)" by fastforce
  from delete_artifact_cat [OF Cons.prems, of "v_ArtifactPath v"]
  have "cat_is (delete_artifact (v_ArtifactPath v) run) (A, {r \<in> R. r_ArtifactPath r \<noteq> v_ArtifactPath v \<or> v_ArtifactPath v = []})"
    by simp
  from Cons.IH [OF this] have "cat_is (foldl (\<lambda>run (_, v). delete_artifact (v_ArtifactPath v) run) run (x # xs))
     (A, {r \<in> {r \<in> R. r_ArtifactPath r \<noteq> v_ArtifactPath v \<or> v_ArtifactPath v = []}.
        r_ArtifactPath r \<noteq> [] \<longrightarrow> r_ArtifactPath r \<notin> v_ArtifactPath ` snd ` set xs})"
    by (simp add: x)
  moreover have "{r \<in> {r \<in> R. r_ArtifactPath r \<noteq> v_ArtifactPath v \<or> v_ArtifactPath v = []}.
        r_ArtifactPath r \<noteq> [] \<longrightarrow> r_ArtifactPath r \<notin> v_ArtifactPath ` snd ` set xs} =
      {r \<in> R. r_ArtifactPath r \<noteq> [] \<longrightarrow> r_ArtifactPath r \<notin> v_ArtifactPath ` snd ` set (x # xs)}"
    by (auto simp: x)
  ultimately show ?case by simp
qed simp

lemma index_lookup:
  "distinct (map f xs) \<Longrightarrow>
   map_of (foldl (\<lambda>m a. AList.update (f a) a m) m xs) = map_of m ++ map_of (map (\<lambda>a. (f a, a)) xs)"
proof (induction xs arbitrary: m)
  case (Cons x xs)
  then have "map_of (map (\<lambda>a. (f a, a)) xs) (f x) = None" by (auto simp: map_of_eq_None_iff image_image)
  with Cons show ?case by (auto simp: update_conv' map_add_def fun_eq_iff split: option.splits)
qed simp

lemma option_ext: "(\<And>a. x = Some a \<longleftrightarrow> y = Some a) \<Longrightarrow> x = y"
  by (cases x; cases y) auto

lemma AllAssets_cat:
  assumes ok: "catalog_ok c" and all: "AllAssets c = (assets, c')"
  shows "catalog_ok c' \<and> absc c' = absc c \<and> map_of (indexAssetsByPath assets) = fst (absc c)"
proof -
  obtain rs where rs: "sortedAssets c = (rs, c')" "assets = map ar_Asset rs"
    using all by (auto simp: AllAssets_def split: prod.splits)
  note s = sortedAssets_ok [OF ok]
  have set: "set rs = snd ` set (assetsByPath c)" and sorted: "sorted_wrt (\<lambda>a b. ar_Path a < ar_Path b) rs"
    using s(3) by (auto simp: sorted_assets_def rs)
  have al: "assets_ok (assetsByPath c)" using ok by (simp add: catalog_ok_def)
  then have paths: "\<forall>r\<in>set rs. a_Path (ar_Asset r) = ar_Path r" by (auto simp: set assets_ok_def)
  have "distinct (map ar_Path rs)"
    using sorted by (induction rs) auto
  then have d: "distinct (map a_Path assets)"
    using paths by (simp add: rs comp_def cong: map_cong)
  have "map_of (map (\<lambda>a. (a_Path a, a)) assets) p = abs_assets (assetsByPath c) p" for p
  proof -
    have m: "map_of (map (\<lambda>a. (a_Path a, a)) assets) p = Some a \<longleftrightarrow> a \<in> set assets \<and> a_Path a = p" for a
      using map_of_eq_Some_iff [of "map (\<lambda>a. (a_Path a, a)) assets"] d by (auto simp: comp_def)
    have b: "abs_assets (assetsByPath c) p = Some a \<longleftrightarrow> a \<in> set assets \<and> a_Path a = p" for a
    proof -
      have "map_of (assetsByPath c) p = Some r \<longleftrightarrow> r \<in> set rs \<and> ar_Path r = p" for r
        using al map_of_eq_Some_iff [of "assetsByPath c" p r] by (auto simp: set assets_ok_def image_iff) force
      then show ?thesis using paths by (auto simp: abs_assets_def rs)
    qed
    have "map_of (map (\<lambda>a. (a_Path a, a)) assets) p = Some a \<longleftrightarrow> abs_assets (assetsByPath c) p = Some a" for a
      by (simp only: m b)
    then show ?thesis by (intro option_ext) auto
  qed
  with s(1,2) show ?thesis
    by (simp add: indexAssetsByPath_def index_lookup [OF d] rs(1) absc_def fun_eq_iff)
qed

lemma ListVariantsByStage_cat:
  assumes ok: "catalog_ok c" and all: "ListVariantsByStage c s = (vs, c')"
  shows "catalog_ok c' \<and> absc c' = absc c \<and> (s \<noteq> [] \<longrightarrow> set vs = r_Variant ` {r \<in> snd (absc c). r_Stage r = s})"
proof -
  have idx: "index_ok (variants c)" using ok by (simp add: catalog_ok_def)
  note l = listByStage_listed [OF idx, of s]
  have e: "c' = c\<lparr>variants := snd (listByStage (variants c) s)\<rparr>" "vs = map r_Variant (fst (listByStage (variants c) s))"
    using all by (auto simp: ListVariantsByStage_def variantViewsFromRecords_def split: prod.splits)
  from listed_state [OF ok l] l show ?thesis
    by (auto simp: e listed_def is_sorted_list_def absc_def)
qed

lemma scan_keeps:
  assumes ok: "catalog_ok c" and scan: "ScanWithCatalog env s (Some c) = (res, c')"
  shows "\<exists>c''. c' = Some c'' \<and> catalog_ok c'' \<and> absc c'' = absc c"
proof -
  obtain assets c1 where a: "AllAssets c = (assets, c1)" by fastforce
  obtain vs c2 where v: "ListVariantsByStage c1 SourceSidecarStage = (vs, c2)" by fastforce
  have "catalog_ok c2 \<and> absc c2 = absc c"
    using AllAssets_cat [OF ok a] ListVariantsByStage_cat [OF _ v] by auto
  moreover have "snd (buildExistingScanState (Some c)) = Some c2"
    by (simp add: buildExistingScanState_def a v Let_def)
  ultimately show ?thesis
    using scan ok by (auto simp: ScanWithCatalog_def Let_def split: option.splits sum.splits prod.splits)
qed

text \<open>The sidecars of a catalog by identifier.\<close>

lemma sidecar_index:
  "map_of m i = Some w \<or> (\<exists>v\<in>set vs. P v \<and> v_ID v = i) \<Longrightarrow>
   \<exists>w'. map_of (foldl (\<lambda>m v. if P v then AList.update (v_ID v) v m else m) m vs) i = Some w' \<and>
     (map_of m i = Some w' \<or> w' \<in> set vs \<and> P w' \<and> v_ID w' = i)"
proof (induction vs arbitrary: m w)
  case (Cons v vs)
  let ?m = "if P v then AList.update (v_ID v) v m else m"
  have "\<exists>w. map_of ?m i = Some w \<or> (\<exists>v\<in>set vs. P v \<and> v_ID v = i)"
    using Cons.prems by (auto simp: update_conv')
  then obtain w0 where "map_of ?m i = Some w0 \<or> (\<exists>v\<in>set vs. P v \<and> v_ID v = i)" ..
  from Cons.IH [OF this] obtain w' where w': "map_of (foldl (\<lambda>m v. if P v then AList.update (v_ID v) v m else m) ?m vs) i = Some w'"
    "map_of ?m i = Some w' \<or> w' \<in> set vs \<and> P w' \<and> v_ID w' = i" by blast
  from w'(2) have "map_of m i = Some w' \<or> w' \<in> set (v # vs) \<and> P w' \<and> v_ID w' = i"
    by (auto simp: update_conv' split: if_splits)
  with w'(1) show ?case by auto
qed auto

text \<open>A sidecar record, and catalogs and scans in which the identifier of a sidecar names one asset.\<close>

definition source_sidecar :: "variantRecord \<Rightarrow> bool" where
  "source_sidecar r \<longleftrightarrow> IsSourceSidecarVariant (r_Variant r) \<and> r_ID r \<noteq> []"

definition sidecars_named :: "variantRecord set \<Rightarrow> Variant set \<Rightarrow> bool" where
  "sidecars_named R vs \<longleftrightarrow> (\<forall>r\<in>R. source_sidecar r \<longrightarrow>
     (\<forall>r'\<in>R. source_sidecar r' \<longrightarrow> r_ID r' = r_ID r \<longrightarrow> r_AssetPath r' = r_AssetPath r) \<and>
     (\<forall>v\<in>vs. v_ID v = r_ID r \<longrightarrow> v_AssetPath v = r_AssetPath r))"

lemma stage_sidecar: "record_ok r \<Longrightarrow> r_Stage r = SourceSidecarStage \<longleftrightarrow> IsSourceSidecarVariant (r_Variant r)"
  by (auto simp: record_ok_def Let_def stageKey_def IsSourceSidecarVariant_def)

lemma cat_record:
  assumes "cat_is run (A, R)" "r \<in> R"
  shows "record_ok r" "r_AssetPath r \<in> dom A" "v_ID (r_Variant r) = r_ID r" "v_ArtifactPath (r_Variant r) = r_ArtifactPath r"
  using assms by (auto simp: cat_is_def catalog_ok_def absc_def record_ok_def Let_def)

lemma cat_keyed:
  assumes "cat_is run (A, R)" "r \<in> R" "r' \<in> R" "r_AssetPath r = r_AssetPath r'" "r_ID r = r_ID r'"
  shows "r = r'"
proof -
  have "keyed R" using assms(1) recs_keyed by (auto simp: cat_is_def catalog_ok_def index_ok_def absc_def)
  moreover have "variantRecordKey r = variantRecordKey r'" using assms(4,5) by (simp add: variantRecordKey_def)
  ultimately show ?thesis using assms(2,3) unfolding keyed_def by (auto dest: inj_onD)
qed

lemma conflicts_named:
  "v_ID v \<noteq> [] \<Longrightarrow> v_ID v = r_ID r \<Longrightarrow> v_AssetPath v = r_AssetPath r \<Longrightarrow> conflicts (variant_record stat v) r"
  by (simp add: conflicts_def variantRecordKey_def variant_record_def newVariantRecord_def Let_def prepareVariant_def)

lemma indexSourceSidecarVariants_cat:
  assumes run: "cat_is run (A, R)" and ix: "indexSourceSidecarVariants run = (ids, run')"
  shows "cat_is run' (A, R)"
    and "r \<in> R \<Longrightarrow> source_sidecar r \<Longrightarrow> \<exists>r'\<in>R. source_sidecar r' \<and> r_ID r' = r_ID r \<and> map_of ids (r_ID r) = Some (r_Variant r')"
proof -
  obtain vs c where l: "ListVariantsByStage (rn_catalog run) SourceSidecarStage = (vs, c)" by fastforce
  have ok: "catalog_ok (rn_catalog run)" "absc (rn_catalog run) = (A, R)" using run by (auto simp: cat_is_def)
  have ne: "SourceSidecarStage \<noteq> []" by (simp add: SourceSidecarStage_def)
  have c: "catalog_ok c" "absc c = (A, R)" and vs: "set vs = r_Variant ` {r \<in> R. r_Stage r = SourceSidecarStage}"
    using ListVariantsByStage_cat [OF ok(1) l] ok(2) ne by auto
  have e: "run' = run\<lparr>rn_catalog := c\<rparr>"
    "ids = foldl (\<lambda>m v. if IsSourceSidecarVariant v then AList.update (v_ID v) v m else m) [] vs"
    using ix l by (auto simp: indexSourceSidecarVariants_def)
  show "cat_is run' (A, R)" using c by (simp add: e cat_is_def)
  assume r: "r \<in> R" "source_sidecar r"
  have "r_Variant r \<in> set vs \<and> v_ID (r_Variant r) = r_ID r"
    using r vs stage_sidecar cat_record [OF run r(1)] by (auto simp: source_sidecar_def)
  then have "\<exists>v\<in>set vs. IsSourceSidecarVariant v \<and> v_ID v = r_ID r" using r(2) by (auto simp: source_sidecar_def)
  then obtain w where w: "map_of ids (r_ID r) = Some w" "w \<in> set vs" "IsSourceSidecarVariant w" "v_ID w = r_ID r"
    using sidecar_index [of "[]" "r_ID r" undefined vs IsSourceSidecarVariant] by (auto simp: e)
  then obtain r' where r': "r' \<in> R" "w = r_Variant r'" using vs by auto
  then have "r_ID r' = r_ID r" using w(4) cat_record(3) [OF run r'(1)] by simp
  with w r' r(2) show "\<exists>r'\<in>R. source_sidecar r' \<and> r_ID r' = r_ID r \<and> map_of ids (r_ID r) = Some (r_Variant r')"
    by (auto simp: source_sidecar_def)
qed

lemma reconcileSourceSidecars_cat:
  assumes run: "cat_is run (A, R)" and dom: "\<forall>x\<in>set scanned. v_AssetPath (snd x) \<in> dom A"
    and keys: "\<forall>x\<in>set scanned. v_ID (snd x) = fst x" and named: "sidecars_named R (snd ` set scanned)"
  shows "\<exists>run' R'. reconcileSourceSidecars env scanned run = (None, run') \<and> cat_is run' (A, R') \<and>
    R' \<subseteq> {r \<in> R. \<not> (source_sidecar r \<and> r_ArtifactPath r \<noteq> [])} \<union> variant_record (rv_stat env) ` snd ` set scanned"
proof -
  obtain ids run1 where ix: "indexSourceSidecarVariants run = (ids, run1)" by fastforce
  note index = indexSourceSidecarVariants_cat [OF run ix]
  from upsert_scanned_cat [of "SortedEntries scanned" A run1 R env ids] dom index(1) obtain ids' run2 R2 where
    up: "range_until (upsert_scanned env) (SortedEntries scanned) (ids, run1) = (None, ids', run2)" "cat_is run2 (A, R2)"
    and ids': "map_of ids' = map_of ids |` (- fst ` set scanned)"
    and R2: "R2 \<subseteq> {r \<in> R. \<forall>x\<in>set scanned. \<not> conflicts (variant_record (rv_stat env) (snd x)) r} \<union>
       (\<lambda>x. variant_record (rv_stat env) (snd x)) ` set scanned"
    by auto
  let ?gone = "v_ArtifactPath ` snd ` set ids'"
  have "\<not> (source_sidecar r \<and> r_ArtifactPath r \<noteq> [])"
    if r: "r \<in> R" "\<forall>x\<in>set scanned. \<not> conflicts (variant_record (rv_stat env) (snd x)) r"
      and left: "r_ArtifactPath r \<noteq> [] \<longrightarrow> r_ArtifactPath r \<notin> ?gone" for r
  proof
    assume s: "source_sidecar r \<and> r_ArtifactPath r \<noteq> []"
    then obtain r' where r': "r' \<in> R" "source_sidecar r'" "r_ID r' = r_ID r" "map_of ids (r_ID r) = Some (r_Variant r')"
      using index(2) r(1) by blast
    have "r_AssetPath r' = r_AssetPath r" using named r(1) r'(1-3) s unfolding sidecars_named_def by blast
    then have eq: "r' = r" using cat_keyed [OF run r'(1) r(1)] r'(3) by simp
    have "r_ID r \<notin> fst ` set scanned"
    proof
      assume "r_ID r \<in> fst ` set scanned"
      then obtain v where v: "(r_ID r, v) \<in> set scanned" by auto
      then have "v_ID v = r_ID r" "v \<in> snd ` set scanned" using keys by force+
      moreover from this have "v_AssetPath v = r_AssetPath r"
        using named r(1) s unfolding sidecars_named_def by blast
      ultimately have "conflicts (variant_record (rv_stat env) v) r"
        using s by (intro conflicts_named) (auto simp: source_sidecar_def)
      then show False using r(2) v by force
    qed
    then have "map_of ids' (r_ID r) = Some (r_Variant r)" using r'(4) by (simp add: ids' eq restrict_map_def)
    then have "r_ArtifactPath r \<in> ?gone"
      using map_of_SomeD [of ids' "r_ID r" "r_Variant r"] by (force simp flip: cat_record(4) [OF run r(1)])
    with left s show False by simp
  qed
  moreover have "R2 \<subseteq> {r \<in> R. \<forall>x\<in>set scanned. \<not> conflicts (variant_record (rv_stat env) (snd x)) r} \<union>
       variant_record (rv_stat env) ` snd ` set scanned"
    using R2 by (simp add: image_image)
  ultimately have "{r \<in> R2. r_ArtifactPath r \<noteq> [] \<longrightarrow> r_ArtifactPath r \<notin> ?gone} \<subseteq>
      {r \<in> R. \<not> (source_sidecar r \<and> r_ArtifactPath r \<noteq> [])} \<union> variant_record (rv_stat env) ` snd ` set scanned"
    by blast
  with delete_artifacts_cat [OF up(2), of "SortedEntries ids'"] show ?thesis
    using up(1) by (auto simp: reconcileSourceSidecars_def ix)
qed

lemma SortedEntries_map: 
  assumes "map_all P m"
  shows "map_all P (SortedEntries m)" "map_of (SortedEntries m) = map_of m"
proof -
  have "mset (map fst (SortedEntries m)) = mset (map fst m)" by (simp add: SortedEntries_def)
  then have d: "distinct (map fst (SortedEntries m))" using assms by (metis map_all_def mset_eq_imp_distinct_iff)
  then show "map_all P (SortedEntries m)" using assms by (simp add: map_all_def)
  have d': "distinct (map fst m)" using assms by (simp add: map_all_def)
  show "map_of (SortedEntries m) = map_of m"
    using map_of_eq_Some_iff [OF d] map_of_eq_Some_iff [OF d'] by (intro ext option_ext) simp
qed

lemma reconcileAssets_cat:
  assumes assets: "map_all (\<lambda>p a. a_Path a = p) scanned" and run: "cat_is run (A, R)" and ex: "map_of ex = A"
  shows "\<exists>ex' run'. reconcileScannedAssets env scanned (ex, run) = (None, ex', run') \<and>
    cat_is (reconcileRemovedAssets env ex' run') (\<lambda>p. map_option (prepareAsset (rv_stat env)) (map_of scanned p),
      {r \<in> R. \<exists>e a. map_of scanned (r_AssetPath r) = Some a \<and> A (r_AssetPath r) = Some e \<and> \<not> assetChanged e a})"
proof -
  note sorted = SortedEntries_map [OF assets]
  from reconcileScannedAssets_cat [OF sorted(1) run, of env ex] obtain ex' run' where
    step: "reconcileScannedAssets env scanned (ex, run) = (None, ex', run')"
    and ex': "map_of ex' = A |` (- fst ` set scanned)"
    and run': "cat_is run' (\<lambda>p. case map_of scanned p of Some a \<Rightarrow> Some (prepareAsset (rv_stat env) a) | None \<Rightarrow> A p,
       {r \<in> R. \<not> (\<exists>e a. map_of scanned (r_AssetPath r) = Some a \<and> A (r_AssetPath r) = Some e \<and> assetChanged e a)})"
    by (auto simp: reconcileScannedAssets_def sorted(2) ex)
  have dom: "fst ` set ex' = dom A - fst ` set scanned"
    by (simp flip: dom_map_of_conv_image_fst add: ex') blast
  have sdom: "p \<in> fst ` set scanned \<longleftrightarrow> map_of scanned p \<noteq> None" for p by (simp add: map_of_eq_None_iff)
  have "(\<lambda>p. case map_of scanned p of Some a \<Rightarrow> Some (prepareAsset (rv_stat env) a) | None \<Rightarrow> A p) |` (- fst ` set ex') =
      (\<lambda>p. map_option (prepareAsset (rv_stat env)) (map_of scanned p))"
    by (auto simp: fun_eq_iff restrict_map_def dom sdom split: option.splits)
  moreover have "{r \<in> {r \<in> R. \<not> (\<exists>e a. map_of scanned (r_AssetPath r) = Some a \<and> A (r_AssetPath r) = Some e \<and> assetChanged e a)}.
        r_AssetPath r \<notin> fst ` set ex'} =
      {r \<in> R. \<exists>e a. map_of scanned (r_AssetPath r) = Some a \<and> A (r_AssetPath r) = Some e \<and> \<not> assetChanged e a}"
    using cat_record(2) [OF run] by (auto simp: dom sdom) blast+
  ultimately show ?thesis using step reconcileRemovedAssets_cat [OF run', of env ex'] by auto
qed


definition example_old :: Asset where
  "example_old = \<lparr> a_Path = ''old.js'', a_FullPath = ''/srv/old.js'', a_Size = 3, a_MediaType = ''text/javascript'',
     a_SourceHash = ''h0'', a_ETag = ''e0'', a_Metadata = Map.empty \<rparr>"

definition example_run :: sourceRescanRun where
  "example_run = \<lparr> rn_catalog = run_catalog (\<lambda>_. None) [OpUpsertAsset (Some example_old)], rn_cached = {''/srv/old.js''},
     rn_present = {}, rn_report = emptyReport \<rparr>"

definition example_rescan_env :: rescan_env where
  "example_rescan_env = \<lparr> rv_source = example_source, rv_scanner = example_scanner, rv_stat = (\<lambda>_. None), rv_cwd = ''/'',
     rv_view = (\<lambda>_. example_view), rv_stuck = (\<lambda>_. False) \<rparr>"

lemma example_rescan:
  "scanned_paths (ScanWithCatalog (rv_source example_rescan_env) (rv_scanner example_rescan_env) (Some (rn_catalog example_run))) =
   Some ([''app.js''], [''app.js.br''])"
  by code_simp

lemma example_run_catalog: "catalog_ok (rn_catalog example_run)" "snd (absc (rn_catalog example_run)) = {}"
  using run_catalog_ok [of "\<lambda>_. None" "[OpUpsertAsset (Some example_old)]"] by (simp_all add: example_run_def abs_run_def)


section \<open>Any rescan keeps the catalog coherent\<close>

definition lacks :: "string set \<Rightarrow> sourceRescanRun \<Rightarrow> bool" where
  "lacks S run \<longleftrightarrow> catalog_ok (rn_catalog run) \<and> dom (fst (absc (rn_catalog run))) \<inter> S = {}"

lemma lacks_cat: "lacks S run \<Longrightarrow> cat_is run (absc (rn_catalog run))"
  by (simp add: lacks_def cat_is_def)

lemma cat_lacks: "cat_is run s \<Longrightarrow> dom (fst s) \<inter> S = {} \<Longrightarrow> lacks S run"
  by (auto simp: lacks_def cat_is_def)

lemma lacks_report [simp]: "lacks S (on_report f run) = lacks S run" "lacks S (run\<lparr>rn_report := r\<rparr>) = lacks S run"
  by (simp_all add: lacks_def)

lemma lacks_drop_variants: "lacks S run \<Longrightarrow> lacks S (drop_variants env p q run)"
  by (rule cat_lacks [OF drop_variants_cat [OF lacks_cat]]) (auto simp: lacks_def)

lemma lacks_drop_asset: "lacks S run \<Longrightarrow> lacks S (drop_asset env p q run)"
  by (rule cat_lacks [OF drop_asset_cat [OF lacks_cat]]) (auto simp: lacks_def)

lemma lacks_delete_artifact: "lacks S run \<Longrightarrow> lacks S (delete_artifact p run)"
  by (rule cat_lacks [OF delete_artifact_cat [OF lacks_cat]]) (auto simp: lacks_def)

lemma lacks_upsert_asset:
  assumes "lacks S run" "a_Path a \<notin> S"
  shows "lacks S (snd (catalog_result run (UpsertAsset stat (rn_catalog run) (Some a))))"
proof -
  from upsert_asset_cat [OF lacks_cat [OF assms(1)], of stat a] obtain run' where
    "catalog_result run (UpsertAsset stat (rn_catalog run) (Some a)) = (None, run')"
    "cat_is run' (put_asset stat (fst (absc (rn_catalog run))) a, snd (absc (rn_catalog run)))" by blast
  moreover from this have "lacks S run'"
    by (rule_tac cat_lacks) (use assms in \<open>auto simp: lacks_def put_asset_def disjoint_iff domIff split: if_splits\<close>)
  ultimately show ?thesis by simp
qed

lemma lacks_upsert_variant:
  assumes "lacks S run"
  shows "lacks S (snd (catalog_result run (UpsertVariant stat (rn_catalog run) v)))"
  using UpsertVariant_ok [of "rn_catalog run" stat v] assms
  by (cases "UpsertVariant stat (rn_catalog run) v")
    (auto simp: lacks_def catalog_result_def keep_def split: option.splits if_splits)

lemma lacks_list: "lacks S run \<Longrightarrow> ListVariantsView (rn_catalog run) p = (vs, c) \<Longrightarrow> lacks S (run\<lparr>rn_catalog := c\<rparr>)"
  using listed_state [OF _ listByAssetPath_listed, of "rn_catalog run" p]
  by (auto simp: lacks_def ListVariantsView_def catalog_ok_def split: prod.splits)

lemma lacks_all: "lacks S run \<Longrightarrow> AllAssets (rn_catalog run) = (as, c) \<Longrightarrow> lacks S (run\<lparr>rn_catalog := c\<rparr>)"
  using AllAssets_cat by (fastforce simp: lacks_def)

lemma foldl_keeps: "(\<And>x st. x \<in> set xs \<Longrightarrow> P st \<Longrightarrow> P (f st x)) \<Longrightarrow> P st \<Longrightarrow> P (foldl f st xs)"
  by (induction xs arbitrary: st) auto

lemma range_until_keeps:
  "(\<And>x st. x \<in> set xs \<Longrightarrow> P st \<Longrightarrow> P (snd (f x st))) \<Longrightarrow> P st \<Longrightarrow> P (snd (range_until f xs st))"
proof (induction xs arbitrary: st)
  case (Cons x xs)
  obtain e st' where f: "f x st = (e, st')" by fastforce
  with Cons.prems have "P st'" by (metis list.set_intros(1) snd_conv)
  with Cons f show ?case by (cases e) auto
qed simp

lemma lacks_removeSidecarVariants: "lacks S run \<Longrightarrow> lacks S (removeSidecarVariants m run)"
  unfolding removeSidecarVariants_def
  by (auto split: prod.splits intro!: foldl_keeps [where P = "lacks S"] lacks_delete_artifact lacks_list)

lemma lacks_rebuild: "lacks S run \<Longrightarrow> lacks S (snd (rebuildSourceSidecarsForAsset env a run))"
  unfolding rebuildSourceSidecarsForAsset_def
  by (rule range_until_keeps [where P = "lacks S"])
    (auto split: sum.splits option.splits intro: lacks_upsert_variant)

lemma lacks_upsertAssetAndSidecars:
  assumes "lacks S run" "sf_Path f \<notin> S"
  shows "lacks S (snd (upsertAssetAndSidecars env p f run))"
proof (cases "BuildAsset (rv_source env) f")
  case (Inr a)
  have p: "a_Path a \<notin> S" using BuildAsset_of [OF Inr] assms(2) by (simp add: asset_of_def)
  define run1 where "run1 = (case FindAsset (rn_catalog run) p of
       Some e \<Rightarrow> drop_variants env p (a_FullPath e) (on_report (\<lambda>r. r\<lparr>rp_Updated := rp_Updated r + 1\<rparr>) run)
     | None \<Rightarrow> on_report (\<lambda>r. r\<lparr>rp_Added := rp_Added r + 1\<rparr>) run)"
  have "lacks S run1" using assms(1) by (auto simp: run1_def lacks_drop_variants split: option.splits)
  then have "lacks S (snd (catalog_result run1 (UpsertAsset (rv_stat env) (rn_catalog run1) (Some a))))"
    using p by (rule lacks_upsert_asset)
  then show ?thesis using assms(1)
    by (auto simp: upsertAssetAndSidecars_def Inr Let_def run1_def [symmetric] lacks_rebuild split: prod.splits option.splits)
qed (simp add: upsertAssetAndSidecars_def assms)

lemma lacks_upsertSidecarVariant: "lacks S run \<Longrightarrow> lacks S (snd (upsertSidecarVariant env c run))"
  by (auto simp: upsertSidecarVariant_def split: option.splits sum.splits intro: lacks_upsert_variant lacks_removeSidecarVariants)

lemma lacks_incremental_steps:
  shows lacks_processDeletedAssets: "lacks S run \<Longrightarrow> lacks S (processDeletedAssets env ps run)"
    and lacks_processDeletedSourceSidecars: "lacks S run \<Longrightarrow> lacks S (processDeletedSourceSidecars ds run)"
    and lacks_processChangedAssets:
      "lacks S run \<Longrightarrow> \<forall>x\<in>set fs. sf_Path (snd x) \<notin> S \<Longrightarrow> lacks S (snd (processChangedAssets env fs run))"
    and lacks_processChangedSourceSidecars: "lacks S run \<Longrightarrow> lacks S (snd (processChangedSourceSidecars env cs run))"
  unfolding processDeletedAssets_def processDeletedSourceSidecars_def processChangedAssets_def processChangedSourceSidecars_def
  by (auto intro!: foldl_keeps [where P = "lacks S"] range_until_keeps [where P = "lacks S"] lacks_drop_asset
      lacks_removeSidecarVariants lacks_upsertAssetAndSidecars lacks_upsertSidecarVariant split: option.splits prod.splits) force

lemma lacks_syncIncrementally:
  assumes "lacks S run" and cg: "buildIncrementalChangeSet env changes = Inr cg"
    and "lacks S' (processDeletedAssets env (cg_deletedAssets cg) run)" "\<forall>x\<in>set (cg_changedAssets cg). sf_Path (snd x) \<notin> S'"
    and "S' \<subseteq> S \<or> \<not> changes_isEmpty cg"
  shows "lacks S' (snd (syncIncrementally env changes run))"
proof (cases "changes_isEmpty cg")
  case True
  then show ?thesis using assms by (auto simp: syncIncrementally_def lacks_def)
next
  case False
  let ?run2 = "processDeletedSourceSidecars (cg_deletedSourceSidecars cg) (processDeletedAssets env (cg_deletedAssets cg) run)"
  obtain e3 run3 where 3: "processChangedAssets env (cg_changedAssets cg) ?run2 = (e3, run3)" by fastforce
  obtain e4 run4 where 4: "processChangedSourceSidecars env (cg_changedSourceSidecars cg) run3 = (e4, run4)" by fastforce
  obtain as c where all: "AllAssets (rn_catalog run4) = (as, c)" by fastforce
  have "lacks S' run3" using lacks_processChangedAssets [of S' ?run2 "cg_changedAssets cg" env]
      lacks_processDeletedSourceSidecars assms(3,4) 3 by simp
  moreover from this have "lacks S' run4" using lacks_processChangedSourceSidecars [of S' run3 env] 4 by (metis snd_conv)
  moreover from this have "lacks S' (run4\<lparr>rn_catalog := c\<rparr>)" using all by (rule lacks_all)
  ultimately show ?thesis
    using cg False 3 4 all by (cases e3; cases e4) (simp_all add: syncIncrementally_def Let_def)
qed


lemma lacks_processDeleted_paths:
  assumes "lacks {} run"
  shows "lacks (set ps) (processDeletedAssets env ps run)"
proof -
  define step where "step = (\<lambda>run p. case FindAsset (rn_catalog run) p of
                      None \<Rightarrow> run
                    | Some existing \<Rightarrow>
                        drop_asset env p (a_FullPath existing) (on_report (\<lambda>r. r\<lparr>rp_Removed := rp_Removed r + 1\<rparr>) run))"
  have step: "lacks (insert p S) (step run p)" if "lacks S run" for p S run
  proof (cases "FindAsset (rn_catalog run) p")
    case None
    then have "p \<notin> dom (fst (absc (rn_catalog run)))"
      by (auto simp: FindAsset_def FindAssetViewResult_def absc_def abs_assets_def split: option.splits)
    with that None show ?thesis by (auto simp: step_def lacks_def)
  next
    case (Some a)
    let ?run = "on_report (\<lambda>r. r\<lparr>rp_Removed := rp_Removed r + 1\<rparr>) run"
    have "lacks (insert p S) (drop_asset env p (a_FullPath a) ?run)"
      by (rule cat_lacks [OF drop_asset_cat [OF lacks_cat [of S]]]) (use that in \<open>auto simp: lacks_def\<close>)
    then show ?thesis by (simp add: step_def Some)
  qed
  have "lacks S run \<Longrightarrow> lacks (S \<union> set ps) (foldl step run ps)" for S run
  proof (induction ps arbitrary: S run)
    case (Cons p ps)
    from Cons.IH [OF step [OF Cons.prems]] show ?case by simp
  qed simp
  from this [OF assms] show ?thesis by (simp add: processDeletedAssets_def step_def)
qed

lemma lacks_syncScannedAsset:
  assumes "lacks {} run"
  shows "lacks {} (snd (snd (syncScannedAsset env (p, a) (ex, run))))"
proof -
  define run1 where "run1 = (case map_of ex p of
                         None \<Rightarrow> on_report (\<lambda>r. r\<lparr>rp_Added := rp_Added r + 1\<rparr>) run
                       | Some e \<Rightarrow>
                           if assetChanged e a
                           then drop_variants env p (a_FullPath e)
                                  (on_report (\<lambda>r. r\<lparr>rp_Updated := rp_Updated r + 1\<rparr>) run)
                           else run)"
  have "lacks {} run1" using assms by (auto simp: run1_def lacks_drop_variants split: option.splits)
  then have "lacks {} (snd (catalog_result run1 (UpsertAsset (rv_stat env) (rn_catalog run1) (Some a))))"
    by (rule lacks_upsert_asset) simp
  moreover obtain e run2 where "catalog_result run1 (UpsertAsset (rv_stat env) (rn_catalog run1) (Some a)) = (e, run2)" by fastforce
  ultimately show ?thesis by (simp add: syncScannedAsset_def Let_def run1_def [symmetric])
qed

lemma lacks_reconcile:
  shows lacks_reconcileScannedAssets: "lacks {} run \<Longrightarrow> lacks {} (snd (snd (reconcileScannedAssets env scanned (ex, run))))"
    and lacks_reconcileRemovedAssets: "lacks {} run \<Longrightarrow> lacks {} (reconcileRemovedAssets env ex run)"
proof -
  assume "lacks {} run"
  then show "lacks {} (snd (snd (reconcileScannedAssets env scanned (ex, run))))"
    unfolding reconcileScannedAssets_def
    by (rule_tac range_until_keeps [where P = "\<lambda>st. lacks {} (snd st)"]) (auto simp: lacks_syncScannedAsset)
next
  assume "lacks {} run"
  then show "lacks {} (reconcileRemovedAssets env ex run)"
    unfolding reconcileRemovedAssets_def by (auto intro!: foldl_keeps [where P = "lacks {}"] lacks_drop_asset)
qed

lemma lacks_reconcileSourceSidecars:
  assumes "lacks {} run"
  shows "lacks {} (snd (reconcileSourceSidecars env scanned run))"
proof -
  obtain ids run1 where ix: "indexSourceSidecarVariants run = (ids, run1)" by fastforce
  have "lacks {} run1"
    using indexSourceSidecarVariants_cat(1) [OF _ ix] lacks_cat [OF assms] by (metis cat_lacks inf_bot_right prod.collapse)
  moreover obtain e ids' run2 where up: "range_until (upsert_scanned env) (SortedEntries scanned) (ids, run1) = (e, ids', run2)"
    by (metis surj_pair)
  ultimately have "lacks {} run2"
    using range_until_keeps [where P = "\<lambda>st. lacks {} (snd st)" and f = "upsert_scanned env" and xs = "SortedEntries scanned"
        and st = "(ids, run1)"] lacks_upsert_variant
    by (force simp: upsert_scanned_def split_beta split: option.splits)
  moreover have "lacks {} (foldl (\<lambda>run (_, v). delete_artifact (v_ArtifactPath v) run) run2 xs)" for xs :: "(string \<times> Variant) list"
    using calculation by (auto intro!: foldl_keeps [where P = "lacks {}"] lacks_delete_artifact)
  ultimately show ?thesis by (auto simp: reconcileSourceSidecars_def ix up split: option.splits)
qed

lemma lacks_syncFull:
  assumes "lacks {} run"
  shows "lacks {} (snd (syncFull env run))"
proof -
  obtain res c where scan: "ScanWithCatalog (rv_source env) (rv_scanner env) (Some (rn_catalog run)) = (res, c)" by fastforce
  obtain c1 where c1: "c = Some c1" "catalog_ok c1" using scan_keeps [OF _ scan] assms by (auto simp: lacks_def)
  obtain r run1 where run1: "collectScannedSnapshot env run = (r, run1)" by fastforce
  have ok1: "lacks {} run1" using run1 scan c1
    by (auto simp: collectScannedSnapshot_def lacks_def Let_def split: sum.splits)
  obtain as c2 where all: "AllAssets (rn_catalog run1) = (as, c2)" by fastforce
  note ok2 = lacks_all [OF ok1 all]
  show ?thesis
  proof (cases r)
    case (Inr snap)
    obtain e ex run2 where rec: "reconcileScannedAssets env (sn_Assets snap) (indexAssetsByPath as, run1\<lparr>rn_catalog := c2\<rparr>) = (e, ex, run2)"
      by (metis surj_pair)
    have "lacks {} run2" using lacks_reconcileScannedAssets [OF ok2, of env "sn_Assets snap" "indexAssetsByPath as"] rec by simp
    then show ?thesis
      by (cases e) (simp_all add: syncFull_def run1 Inr all rec lacks_reconcileRemovedAssets lacks_reconcileSourceSidecars)
  qed (simp add: syncFull_def run1 ok1)
qed



end
