(* ===== verification/SpackBundle.thy ===== *)
theory SpackBundle
  imports Artifact Metadata "HOL-Library.Word" "HOL-Library.AList" "HOL-Library.Multiset"
begin

text \<open>
  The bundle format (\<open>internal/spackbundle\<close>): cleaned paths, the framed index, the limits and the budget, the check
  and the extraction of an archive, the reader, the writer, and the references to files of a bundle.

  An archive is the list of the entries that the tar reader finds behind the magic and the decompressor; an entry
  has its header and the bytes that can be read of it.  The JSON encoding of the index and SHA-256 are parameters, and so is
  what opening a source file of a bundle gives.
\<close>

section \<open>Paths\<close>

datatype bundle_error =
  BadBundlePath | NotNormalized | ReservedPath | DuplicatePath | BadBundleMagic | IndexNotFirst | IndexMagicMismatch | IndexTruncated |
  IndexTooLarge | IndexSizeMismatch | IndexUndecodable | UnsupportedVersion | UnsupportedKind | BadSHA256 |
  TooManyFiles | TooManyBytes | NegativeSize | FileTooLarge | NotRegular | SizeMismatch | SHA256Mismatch |
  UndeclaredFile | MissingFile | FileNotFound | Unreadable | BundleCanceled | BadReference | BadOutput | BadRoot | BadSource | WriteFailed

definition validateRawBundlePath :: "string \<Rightarrow> bundle_error option" where
  "validateRawBundlePath trimmed =
     (if trimmed = [] then Some BadBundlePath
      else if CHR 0x00 \<in> set trimmed \<or> CHR 0x5C \<in> set trimmed then Some BadBundlePath
      else if path_is_abs trimmed then Some BadBundlePath else None)"

definition validateCleanBundlePath :: "string \<Rightarrow> bundle_error option" where
  "validateCleanBundlePath cleaned =
     (if cleaned = ''.'' \<or> cleaned = ''..'' \<or> has_prefix cleaned ''../'' then Some BadBundlePath
      else if HasUnsafePortablePathSegment cleaned then Some BadBundlePath
      else if cleaned = ''.spack'' \<or> has_prefix cleaned ''.spack/'' then Some ReservedPath else None)"

definition cleanBundlePath :: "string \<Rightarrow> bundle_error + string" where
  "cleanBundlePath raw =
     (let trimmed = trim_space raw
      in case validateRawBundlePath trimmed of
           Some e \<Rightarrow> Inl e
         | None \<Rightarrow>
             (let cleaned = path_clean trimmed
              in case validateCleanBundlePath cleaned of Some e \<Rightarrow> Inl e | None \<Rightarrow> Inr cleaned))"

definition isMetadataPath :: "string \<Rightarrow> bool" where
  "isMetadataPath name = (let cleaned = path_clean name in cleaned = ''.spack'' \<or> has_prefix cleaned ''.spack/'')"

definition IndexPath :: string where "IndexPath = ''.spack/index.bin''"

definition IsBundlePath :: "string \<Rightarrow> bool" where
  "IsBundlePath bundlePath \<longleftrightarrow> equal_fold (path_ext (trim_space bundlePath)) ''.spack''"

definition normalizedBundlePath :: "string \<Rightarrow> string \<Rightarrow> bundle_error + string" where
  "normalizedBundlePath cwd bundlePath =
     (let p = trim_space bundlePath in if p = [] then Inl BadBundlePath else Inr (path_abs cwd (path_clean p)))"

section \<open>The index\<close>

record IndexFile =
  xf_Path :: string
  xf_Kind :: string
  xf_Size :: int
  xf_SHA256 :: string
  xf_MediaType :: string
  xf_SourceHash :: string
  xf_ETag :: string
  xf_AssetPath :: string
  xf_Encoding :: string
  xf_Format :: string
  xf_Width :: int

record Index =
  xi_APIVersion :: string
  xi_Kind :: string
  xi_CreatedAt :: time
  xi_Files :: "IndexFile list"

record bundleLimits =
  bl_indexBytes :: int
  bl_files :: int
  bl_expandedBytes :: int
  bl_fileBytes :: int

definition productionBundleLimits :: bundleLimits where
  "productionBundleLimits = \<lparr> bl_indexBytes = 768 * 2 ^ 20, bl_files = 1000000, bl_expandedBytes = 64 * 2 ^ 30,
     bl_fileBytes = 2 * 2 ^ 30 \<rparr>"

text \<open>\<open>encoding/json\<close> on the index, and \<open>sha256.Sum256\<close>.\<close>

record bundle_codec =
  bc_Marshal :: "Index \<Rightarrow> bytes option"
  bc_Unmarshal :: "bytes \<Rightarrow> Index option"
  bc_sha256 :: "bytes \<Rightarrow> bytes"

definition FormatVersion :: string where "FormatVersion = ''spack.io/aot/v2alpha1''"

definition indexMagic :: bytes where "indexMagic = ''SPACKIDX'' @ [CHR 0x00]"

definition checkedUint32 :: "int \<Rightarrow> (32 word) option" where
  "checkedUint32 n = (if n < 0 \<or> n > 2 ^ 32 - 1 then None else Some (word_of_int n))"

definition AppendUint32 :: "bytes \<Rightarrow> 32 word \<Rightarrow> bytes" where
  "AppendUint32 b w = b @ map (\<lambda>i. char_of (unat w div 256 ^ i)) [3, 2, 1, 0]"

definition Uint32 :: "bytes \<Rightarrow> 32 word" where
  "Uint32 b = of_nat (foldl (\<lambda>n c. n * 256 + of_char c) 0 (take 4 b))"

definition marshalIndex :: "bundle_codec \<Rightarrow> bundleLimits \<Rightarrow> Index \<Rightarrow> bundle_error + bytes" where
  "marshalIndex codec limits index0 =
     (let index = index0\<lparr>xi_APIVersion := FormatVersion, xi_Kind := ''BundleIndex''\<rparr>
      in case bc_Marshal codec index of
           None \<Rightarrow> Inl IndexUndecodable
         | Some payload \<Rightarrow>
             (let overhead = int (length indexMagic) + 4
              in if bl_indexBytes limits < overhead \<or> int (length payload) > bl_indexBytes limits - overhead then Inl IndexTooLarge
                 else (case checkedUint32 (int (length payload)) of
                         None \<Rightarrow> Inl IndexTooLarge
                       | Some size32 \<Rightarrow> Inr (AppendUint32 indexMagic size32 @ payload))))"

definition unmarshalIndex :: "bundle_codec \<Rightarrow> bundleLimits \<Rightarrow> bytes \<Rightarrow> bundle_error + Index" where
  "unmarshalIndex codec limits body =
     (if \<not> has_prefix body indexMagic then Inl IndexMagicMismatch
      else if length body < length indexMagic + 4 then Inl IndexTruncated
      else if int (length body) > bl_indexBytes limits then Inl IndexTooLarge
      else
        (let size32 = Uint32 (take 4 (drop (length indexMagic) body));
             payload = drop (length indexMagic + 4) body
         in if uint size32 > bl_indexBytes limits - int (length indexMagic) - 4 then Inl IndexTooLarge
            else if int (length payload) \<noteq> uint size32 then Inl IndexSizeMismatch
            else (case bc_Unmarshal codec payload of
                    None \<Rightarrow> Inl IndexUndecodable
                  | Some index \<Rightarrow>
                      if xi_APIVersion index \<noteq> FormatVersion then Inl UnsupportedVersion
                      else if xi_Kind index \<noteq> ''BundleIndex'' then Inl UnsupportedKind
                      else Inr index)))"

section \<open>Limits\<close>

record bundleBudget =
  bb_limits :: bundleLimits
  bb_files :: int
  bb_expandedBytes :: int

definition newBudget :: "bundleLimits \<Rightarrow> bundleBudget" where
  "newBudget limits = \<lparr> bb_limits = limits, bb_files = 0, bb_expandedBytes = 0 \<rparr>"

definition validateBundleFileCount :: "int \<Rightarrow> bundleLimits \<Rightarrow> bundle_error option" where
  "validateBundleFileCount n limits = (if n < 0 \<or> n > bl_files limits then Some TooManyFiles else None)"

definition budget_add :: "bundleBudget \<Rightarrow> int \<Rightarrow> bundle_error + bundleBudget" where
  "budget_add budget size0 =
     (if size0 < 0 then Inl NegativeSize
      else if bb_files budget \<ge> bl_files (bb_limits budget) then Inl TooManyFiles
      else if size0 > bl_expandedBytes (bb_limits budget) - bb_expandedBytes budget then Inl TooManyBytes
      else Inr (budget\<lparr>bb_files := bb_files budget + 1, bb_expandedBytes := bb_expandedBytes budget + size0\<rparr>))"

definition maxBundleEntryBytes :: "string \<Rightarrow> bundleLimits \<Rightarrow> int" where
  "maxBundleEntryBytes filePath limits = (if filePath = IndexPath then bl_indexBytes limits else bl_fileBytes limits)"

definition validateBundleEntrySize :: "string \<Rightarrow> int \<Rightarrow> int \<Rightarrow> bundle_error option" where
  "validateBundleEntrySize filePath size0 maxBytes =
     (if size0 \<ge> 0 \<and> size0 \<le> maxBytes then None else if filePath = IndexPath then Some IndexTooLarge else Some FileTooLarge)"

text \<open>\<open>hex.EncodeToString\<close> and \<open>hex.DecodeString\<close>.\<close>

definition hex_digit :: "nat \<Rightarrow> char" where
  "hex_digit d = ''0123456789abcdef'' ! d"

definition hex_encode :: "bytes \<Rightarrow> string" where
  "hex_encode b = concat (map (\<lambda>c. [hex_digit (of_char c div 16), hex_digit (of_char c mod 16)]) b)"

definition hex_val :: "char \<Rightarrow> nat option" where
  "hex_val c =
     (let n = of_char c :: nat
      in if 48 \<le> n \<and> n \<le> 57 then Some (n - 48)
         else if 97 \<le> n \<and> n \<le> 102 then Some (n - 87)
         else if 65 \<le> n \<and> n \<le> 70 then Some (n - 55) else None)"

fun hex_decode :: "string \<Rightarrow> bytes option" where
  "hex_decode [] = Some []"
| "hex_decode [c] = None"
| "hex_decode (a # b # s) =
     (case (hex_val a, hex_val b, hex_decode s) of
        (Some h, Some l, Some rest) \<Rightarrow> Some (char_of (h * 16 + l) # rest) | _ \<Rightarrow> None)"

definition validateIndexFileHash :: "IndexFile \<Rightarrow> bundle_error option" where
  "validateIndexFileHash f =
     (case hex_decode (xf_SHA256 f) of
        None \<Rightarrow> Some BadSHA256 | Some sha \<Rightarrow> if length sha \<noteq> 32 then Some BadSHA256 else None)"

definition validateIndexFile :: "IndexFile \<Rightarrow> string list \<Rightarrow> bundleLimits \<Rightarrow> bundle_error + string list" where
  "validateIndexFile f seen limits =
     (case cleanBundlePath (xf_Path f) of
        Inl e \<Rightarrow> Inl e
      | Inr cleaned \<Rightarrow>
          if cleaned \<noteq> xf_Path f then Inl NotNormalized
          else if xf_Size f < 0 \<or> xf_Size f > bl_fileBytes limits then Inl FileTooLarge
          else (case validateIndexFileHash f of
                  Some e \<Rightarrow> Inl e
                | None \<Rightarrow> if xf_Path f \<in> set seen then Inl DuplicatePath else Inr (xf_Path f # seen)))"

definition validateIndex :: "Index \<Rightarrow> bundleLimits \<Rightarrow> bundle_error option" where
  "validateIndex index limits =
     (case validateBundleFileCount (int (length (xi_Files index))) limits of
        Some e \<Rightarrow> Some e
      | None \<Rightarrow>
          (case run_all (\<lambda>(seen, budget) f.
                  case validateIndexFile f seen limits of
                    Inl e \<Rightarrow> Inl e
                  | Inr seen' \<Rightarrow> (case budget_add budget (xf_Size f) of Inl e \<Rightarrow> Inl e | Inr budget' \<Rightarrow> Inr (seen', budget')))
                ([], newBudget limits) (xi_Files index) of
             Inl e \<Rightarrow> Some e | Inr _ \<Rightarrow> None))"

definition indexFileMap :: "Index \<Rightarrow> (string \<times> IndexFile) list" where
  "indexFileMap index = foldl (\<lambda>m f. AList.update (xf_Path f) f m) [] (xi_Files index)"

section \<open>The entries of an archive\<close>

record tar_header =
  th_Name :: string
  th_Reg :: bool
  th_Size :: int

text \<open>The bytes that can be read of an entry, and whether reading then fails.\<close>

type_synonym tar_body = "bytes \<times> bool"

datatype tar_item = TarEntry tar_header tar_body | TarBroken

text \<open>\<open>io.LimitReader\<close> read to its end.\<close>

definition read_limited :: "int \<Rightarrow> tar_body \<Rightarrow> bundle_error + bytes" where
  "read_limited n body =
     (case body of (content, failed) \<Rightarrow>
        if failed \<and> int (length content) < n then Inl Unreadable else Inr (take (nat n) content))"

definition cleanTarEntryPath :: "tar_header \<Rightarrow> bundle_error + string" where
  "cleanTarEntryPath h =
     (let cleaned = path_clean (th_Name h)
      in if cleaned = IndexPath then Inr cleaned
         else if isMetadataPath cleaned then Inl ReservedPath else cleanBundlePath cleaned)"

definition readTarEntryBody :: "tar_header \<Rightarrow> tar_body \<Rightarrow> string \<Rightarrow> int \<Rightarrow> bundle_error + bytes" where
  "readTarEntryBody h body filePath maxBytes =
     (if \<not> th_Reg h then Inl NotRegular
      else (case validateBundleEntrySize filePath (th_Size h) maxBytes of
              Some e \<Rightarrow> Inl e
            | None \<Rightarrow>
                (case read_limited (th_Size h + 1) body of
                   Inl e \<Rightarrow> Inl e
                 | Inr content \<Rightarrow> if int (length content) \<noteq> th_Size h then Inl SizeMismatch else Inr content)))"

definition verifyCopiedPayload :: "IndexFile \<Rightarrow> int \<Rightarrow> bytes \<Rightarrow> bundle_error option" where
  "verifyCopiedPayload expected written digest =
     (if written \<noteq> xf_Size expected then Some SizeMismatch
      else if hex_encode digest \<noteq> xf_SHA256 expected then Some SHA256Mismatch else None)"

definition verifyBody :: "bundle_codec \<Rightarrow> IndexFile \<Rightarrow> bytes \<Rightarrow> bundle_error option" where
  "verifyBody codec expected body = verifyCopiedPayload expected (int (length body)) (bc_sha256 codec body)"

definition readBundleIndex ::
    "bundle_codec \<Rightarrow> bundleLimits \<Rightarrow> tar_item list \<Rightarrow> bundle_error + Index \<times> (string \<times> IndexFile) list \<times> tar_item list" where
  "readBundleIndex codec limits items =
     (case items of
        [] \<Rightarrow> Inl Unreadable
      | TarBroken # _ \<Rightarrow> Inl Unreadable
      | TarEntry h body # rest \<Rightarrow>
          (case cleanTarEntryPath h of
             Inl e \<Rightarrow> Inl e
           | Inr entryPath \<Rightarrow>
               if entryPath \<noteq> IndexPath then Inl IndexNotFirst
               else (case readTarEntryBody h body entryPath (bl_indexBytes limits) of
                       Inl e \<Rightarrow> Inl e
                     | Inr content \<Rightarrow>
                         (case unmarshalIndex codec limits content of
                            Inl e \<Rightarrow> Inl e
                          | Inr index \<Rightarrow>
                              (case validateIndex index limits of
                                 Some e \<Rightarrow> Inl e | None \<Rightarrow> Inr (index, indexFileMap index, rest))))))"

definition lookupPayloadEntry ::
    "tar_header \<Rightarrow> (string \<times> IndexFile) list \<Rightarrow> string list \<Rightarrow> bundle_error + string \<times> IndexFile" where
  "lookupPayloadEntry h expected seen =
     (case cleanTarEntryPath h of
        Inl e \<Rightarrow> Inl e
      | Inr entryPath \<Rightarrow>
          (case map_of expected entryPath of
             None \<Rightarrow> Inl UndeclaredFile
           | Some f \<Rightarrow> if entryPath \<in> set seen then Inl DuplicatePath else Inr (entryPath, f)))"

definition ensureAllIndexFilesSeen :: "(string \<times> IndexFile) list \<Rightarrow> string list \<Rightarrow> bundle_error option" where
  "ensureAllIndexFilesSeen expected seen = (if fst ` set expected \<subseteq> set seen then None else Some MissingFile)"

text \<open>The loop over the entries that verification and extraction share: the check of the context, the budget, the lookup,
  and what is done with an entry.  \<open>live i\<close> tells whether the context is live at the \<open>i\<close>-th entry.\<close>

fun payload_loop ::
    "(nat \<Rightarrow> bool) \<Rightarrow> (tar_header \<Rightarrow> tar_body \<Rightarrow> IndexFile \<Rightarrow> 's \<Rightarrow> bundle_error option \<times> 's) \<Rightarrow>
     (string \<times> IndexFile) list \<Rightarrow> nat \<Rightarrow> string list \<Rightarrow> bundleBudget \<Rightarrow> tar_item list \<Rightarrow> 's \<Rightarrow> bundle_error option \<times> 's" where
  "payload_loop live entry expected i seen budget items st =
     (if \<not> live i then (Some BundleCanceled, st)
      else (case items of
              [] \<Rightarrow> (ensureAllIndexFilesSeen expected seen, st)
            | TarBroken # _ \<Rightarrow> (Some Unreadable, st)
            | TarEntry h body # rest \<Rightarrow>
                (case budget_add budget (th_Size h) of
                   Inl e \<Rightarrow> (Some e, st)
                 | Inr budget' \<Rightarrow>
                     (case lookupPayloadEntry h expected seen of
                        Inl e \<Rightarrow> (Some e, st)
                      | Inr (entryPath, f) \<Rightarrow>
                          (case entry h body f st of
                             (Some e, st') \<Rightarrow> (Some e, st')
                           | (None, st') \<Rightarrow>
                               payload_loop live entry expected (Suc i) (entryPath # seen) budget' rest st')))))"

declare payload_loop.simps [simp del]

section \<open>Verification\<close>

definition verifyTarEntry :: "bundle_codec \<Rightarrow> tar_header \<Rightarrow> tar_body \<Rightarrow> IndexFile \<Rightarrow> unit \<Rightarrow> bundle_error option \<times> unit" where
  "verifyTarEntry codec h body expected st =
     (if \<not> th_Reg h then Some NotRegular
      else if th_Size h \<noteq> xf_Size expected then Some SizeMismatch
      else (case read_limited (xf_Size expected + 1) body of
              Inl e \<Rightarrow> Some e
            | Inr content \<Rightarrow> verifyCopiedPayload expected (int (length content)) (bc_sha256 codec content)), st)"

definition verifyBundleEntries ::
    "bundle_codec \<Rightarrow> (nat \<Rightarrow> bool) \<Rightarrow> (string \<times> IndexFile) list \<Rightarrow> bundleLimits \<Rightarrow> tar_item list \<Rightarrow> bundle_error option" where
  "verifyBundleEntries codec live expected limits items =
     fst (payload_loop live (verifyTarEntry codec) expected 0 [] (newBudget limits) items ())"

definition verifyBundleWithLimits ::
    "bundle_codec \<Rightarrow> (nat \<Rightarrow> bool) \<Rightarrow> bundleLimits \<Rightarrow> tar_item list \<Rightarrow> bundle_error + Index" where
  "verifyBundleWithLimits codec live limits items =
     (case readBundleIndex codec limits items of
        Inl e \<Rightarrow> Inl e
      | Inr (index, expected, rest) \<Rightarrow>
          (case verifyBundleEntries codec live expected limits rest of Some e \<Rightarrow> Inl e | None \<Rightarrow> Inr index))"

section \<open>Extraction\<close>

text \<open>The files below the directory of the extraction, by their path relative to it.  A file cannot be created where one
  exists, below a file, or where there is a directory; other failures of the system are a parameter.\<close>

type_synonym extracted = "(string \<times> bytes) list"

definition can_create :: "extracted \<Rightarrow> string \<Rightarrow> bool" where
  "can_create files p \<longleftrightarrow> (\<forall>(q, _)\<in>set files. q \<noteq> p \<and> \<not> has_prefix p (q @ ''/'') \<and> \<not> has_prefix q (p @ ''/''))"

definition isPathInside :: "string \<Rightarrow> string \<Rightarrow> bool" where
  "isPathInside root0 fullPath =
     (let rel = path_rel root0 fullPath in rel \<noteq> ''.'' \<and> rel \<noteq> ''..'' \<and> \<not> has_prefix rel ''../'')"

definition writeExtractedFile ::
    "bundle_codec \<Rightarrow> (string \<Rightarrow> bool) \<Rightarrow> tar_body \<Rightarrow> IndexFile \<Rightarrow> extracted \<Rightarrow> bundle_error option \<times> extracted" where
  "writeExtractedFile codec fault body expected files =
     (if fault (xf_Path expected) \<or> \<not> can_create files (xf_Path expected) then (Some WriteFailed, files)
      else
        (let written = take (nat (xf_Size expected + 1)) (fst body)
         in ((case read_limited (xf_Size expected + 1) body of
                Inl e \<Rightarrow> Some e
              | Inr content \<Rightarrow> verifyCopiedPayload expected (int (length content)) (bc_sha256 codec content)),
             (xf_Path expected, written) # files)))"

definition extractTarEntry ::
    "bundle_codec \<Rightarrow> (string \<Rightarrow> bool) \<Rightarrow> string \<Rightarrow> tar_header \<Rightarrow> tar_body \<Rightarrow> IndexFile \<Rightarrow> extracted \<Rightarrow>
     bundle_error option \<times> extracted" where
  "extractTarEntry codec fault root0 h body expected files =
     (if \<not> th_Reg h then (Some NotRegular, files)
      else if th_Size h \<noteq> xf_Size expected then (Some SizeMismatch, files)
      else if \<not> isPathInside root0 (path_join [root0, xf_Path expected]) then (Some BadBundlePath, files)
      else writeExtractedFile codec fault body expected files)"

definition extractBundleEntries ::
    "bundle_codec \<Rightarrow> (nat \<Rightarrow> bool) \<Rightarrow> (string \<Rightarrow> bool) \<Rightarrow> string \<Rightarrow> (string \<times> IndexFile) list \<Rightarrow> bundleLimits \<Rightarrow> tar_item list \<Rightarrow>
     bundle_error option \<times> extracted" where
  "extractBundleEntries codec live fault root0 expected limits items =
     payload_loop live (extractTarEntry codec fault root0) expected 0 [] (newBudget limits) items []"

definition extractBundleStream ::
    "bundle_codec \<Rightarrow> (nat \<Rightarrow> bool) \<Rightarrow> (string \<Rightarrow> bool) \<Rightarrow> string \<Rightarrow> bundleLimits \<Rightarrow> tar_item list \<Rightarrow>
     (bundle_error + Index) \<times> extracted" where
  "extractBundleStream codec live fault root0 limits items =
     (case readBundleIndex codec limits items of
        Inl e \<Rightarrow> (Inl e, [])
      | Inr (index, expected, rest) \<Rightarrow>
          (case extractBundleEntries codec live fault root0 expected limits rest of
             (Some e, files) \<Rightarrow> (Inl e, files) | (None, files) \<Rightarrow> (Inr index, files)))"

section \<open>The reader\<close>

text \<open>A reader caches the index it has read; the entries are those of the file at the time of the call.\<close>

record Reader =
  rd_limits :: bundleLimits
  rd_index :: "Index option"

fun readBundleEntry :: "bundleLimits \<Rightarrow> string \<Rightarrow> tar_item list \<Rightarrow> bundle_error + bytes" where
  "readBundleEntry limits filePath [] = Inl FileNotFound"
| "readBundleEntry limits filePath (TarBroken # _) = Inl Unreadable"
| "readBundleEntry limits filePath (TarEntry h body # rest) =
     (case cleanTarEntryPath h of
        Inl e \<Rightarrow> Inl e
      | Inr p \<Rightarrow>
          if p \<noteq> filePath then readBundleEntry limits filePath rest
          else readTarEntryBody h body p (maxBundleEntryBytes p limits))"

definition reader_Index :: "bundle_codec \<Rightarrow> tar_item list \<Rightarrow> Reader \<Rightarrow> (bundle_error + Index) \<times> Reader" where
  "reader_Index codec items r =
     (case rd_index r of
        Some index \<Rightarrow> (Inr index, r)
      | None \<Rightarrow>
          (case readBundleEntry (rd_limits r) IndexPath items of
             Inl e \<Rightarrow> (Inl e, r)
           | Inr body \<Rightarrow>
               (case unmarshalIndex codec (rd_limits r) body of
                  Inl e \<Rightarrow> (Inl e, r)
                | Inr index \<Rightarrow>
                    (case validateIndex index (rd_limits r) of
                       Some e \<Rightarrow> (Inl e, r) | None \<Rightarrow> (Inr index, r\<lparr>rd_index := Some index\<rparr>)))))"

definition lookupIndexFile ::
    "bundle_codec \<Rightarrow> tar_item list \<Rightarrow> string \<Rightarrow> Reader \<Rightarrow> (bundle_error + string \<times> IndexFile) \<times> Reader" where
  "lookupIndexFile codec items filePath r =
     (case cleanBundlePath filePath of
        Inl e \<Rightarrow> (Inl e, r)
      | Inr cleanPath \<Rightarrow>
          (case reader_Index codec items r of
             (Inl e, r') \<Rightarrow> (Inl e, r')
           | (Inr index, r') \<Rightarrow>
               (case map_of (indexFileMap index) cleanPath of
                  None \<Rightarrow> (Inl FileNotFound, r') | Some f \<Rightarrow> (Inr (cleanPath, f), r'))))"

definition reader_ReadFile :: "bundle_codec \<Rightarrow> tar_item list \<Rightarrow> string \<Rightarrow> Reader \<Rightarrow> (bundle_error + bytes) \<times> Reader" where
  "reader_ReadFile codec items filePath r =
     (case lookupIndexFile codec items filePath r of
        (Inl e, r') \<Rightarrow> (Inl e, r')
      | (Inr (cleanPath, expected), r') \<Rightarrow>
          (case readBundleEntry (rd_limits r') cleanPath items of
             Inl e \<Rightarrow> (Inl e, r')
           | Inr body \<Rightarrow> (case verifyBody codec expected body of Some e \<Rightarrow> (Inl e, r') | None \<Rightarrow> (Inr body, r'))))"

definition reader_Stat :: "bundle_codec \<Rightarrow> tar_item list \<Rightarrow> string \<Rightarrow> Reader \<Rightarrow> (bundle_error + string \<times> int) \<times> Reader" where
  "reader_Stat codec items filePath r =
     (case lookupIndexFile codec items filePath r of
        (Inl e, r') \<Rightarrow> (Inl e, r')
      | (Inr (cleanPath, f), r') \<Rightarrow>
          if xf_Size f < 0 then (Inl NegativeSize, r') else (Inr (cleanPath, xf_Size f), r'))"

section \<open>The writer\<close>

record BundleFile =
  bf_Path :: string
  bf_FullPath :: string
  bf_Kind :: string
  bf_Size :: int
  bf_SHA256 :: string
  bf_MediaType :: string
  bf_SourceHash :: string
  bf_ETag :: string
  bf_AssetPath :: string
  bf_Encoding :: string
  bf_Format :: string
  bf_Width :: int
  bf_AllowExternal :: bool
  bf_root :: string
  bf_rootRelativePath :: string

record WriteOptions =
  wo_Output :: string
  wo_Root :: string
  wo_Files :: "BundleFile list"
  wo_Now :: time

record WriteSummary =
  wm_Output :: string
  wm_Files :: nat
  wm_Bytes :: int

text \<open>What the system says of a path, and what opening the source of a file gives: the size \<open>Stat\<close> reports and what can be
  read; a source is opened twice, to be hashed and to be written.\<close>

record write_env =
  we_cwd :: string
  we_lstat :: "string \<Rightarrow> (root_kind \<times> int) option"
  we_hash_open :: "BundleFile \<Rightarrow> (int \<times> tar_body) option"
  we_write_open :: "BundleFile \<Rightarrow> (int \<times> tar_body) option"
  we_hash_live :: "nat \<Rightarrow> bool"
  we_write_live :: "nat \<Rightarrow> bool"

definition normalizedRootPath :: "write_env \<Rightarrow> string \<Rightarrow> bundle_error + string" where
  "normalizedRootPath env root0 =
     (let trimmed = trim_space root0
      in if trimmed = [] then Inl BadRoot
         else (let absolute = path_abs (we_cwd env) (path_clean trimmed)
               in case we_lstat env absolute of
                    None \<Rightarrow> Inl BadRoot
                  | Some (kind, _) \<Rightarrow> if kind \<noteq> RootDir then Inl BadRoot else Inr absolute))"

definition normalizedOutputPath :: "write_env \<Rightarrow> string \<Rightarrow> bundle_error + string" where
  "normalizedOutputPath env output =
     (let trimmed = trim_space output in if trimmed = [] then Inl BadOutput else Inr (path_abs (we_cwd env) (path_clean trimmed)))"

fun lstat_segments :: "write_env \<Rightarrow> string \<Rightarrow> string \<Rightarrow> (root_kind \<times> int) option \<Rightarrow> string list \<Rightarrow> bundle_error + (root_kind \<times> int) option" where
  "lstat_segments env root0 current info [] = Inr info"
| "lstat_segments env root0 current info (segment # segments) =
     (let current' = (if current = [] then segment else path_join [current, segment])
      in case we_lstat env (path_join [root0, current']) of
           None \<Rightarrow> Inl BadSource
         | Some (kind, size0) \<Rightarrow>
             if kind = RootLink then Inl BadSource else lstat_segments env root0 current' (Some (kind, size0)) segments)"

definition lstatBundlePathWithinRoot :: "write_env \<Rightarrow> string \<Rightarrow> string \<Rightarrow> bundle_error + (root_kind \<times> int) option" where
  "lstatBundlePathWithinRoot env root0 rel0 = lstat_segments env root0 [] None (split_on CHR ''/'' rel0)"

definition isPathOutsideRoot :: "string \<Rightarrow> bool" where
  "isPathOutsideRoot rel \<longleftrightarrow> rel = ''.'' \<or> path_is_abs rel \<or> rel = ''..'' \<or> has_prefix rel ''../''"

definition statRootBundleFile :: "write_env \<Rightarrow> string \<Rightarrow> string \<Rightarrow> bundle_error + string \<times> string \<times> int" where
  "statRootBundleFile env root0 fullPath =
     (let rel0 = path_rel root0 fullPath
      in if isPathOutsideRoot rel0 then Inl BadSource
         else (case lstatBundlePathWithinRoot env root0 rel0 of
                 Inl e \<Rightarrow> Inl e
               | Inr None \<Rightarrow> Inl BadSource
               | Inr (Some (kind, size0)) \<Rightarrow> if kind = RootDir then Inl BadSource else Inr (fullPath, rel0, size0)))"

definition statExternalBundleFile :: "write_env \<Rightarrow> string \<Rightarrow> bundle_error + int" where
  "statExternalBundleFile env fullPath =
     (case we_lstat env fullPath of
        None \<Rightarrow> Inl BadSource | Some (kind, size0) \<Rightarrow> if kind = RootLink \<or> kind = RootDir then Inl BadSource else Inr size0)"

definition statBundleFile :: "write_env \<Rightarrow> string \<Rightarrow> BundleFile \<Rightarrow> bundle_error + string \<times> string \<times> int" where
  "statBundleFile env root0 f =
     (let fullPath = path_abs (we_cwd env) (path_clean (bf_FullPath f))
      in if bf_AllowExternal f
         then (case statExternalBundleFile env fullPath of Inl e \<Rightarrow> Inl e | Inr size0 \<Rightarrow> Inr (fullPath, [], size0))
         else statRootBundleFile env root0 fullPath)"

definition normalizeFile :: "write_env \<Rightarrow> string \<Rightarrow> BundleFile \<Rightarrow> string list \<Rightarrow> bundle_error + BundleFile \<times> string list" where
  "normalizeFile env root0 f seen =
     (case cleanBundlePath (bf_Path f) of
        Inl e \<Rightarrow> Inl e
      | Inr cleanPath \<Rightarrow>
          if cleanPath \<in> set seen then Inl DuplicatePath
          else (case statBundleFile env root0 f of
                  Inl e \<Rightarrow> Inl e
                | Inr (fullPath, rel0, size0) \<Rightarrow>
                    Inr (f\<lparr>bf_Path := cleanPath, bf_FullPath := fullPath, bf_Size := size0, bf_root := root0,
                           bf_rootRelativePath := rel0\<rparr>, cleanPath # seen)))"

definition normalizeFiles :: "write_env \<Rightarrow> string \<Rightarrow> BundleFile list \<Rightarrow> bundle_error + BundleFile list" where
  "normalizeFiles env root0 files =
     (case run_all (\<lambda>(normalized, seen) f.
              case normalizeFile env root0 f seen of
                Inl e \<Rightarrow> Inl e | Inr (f', seen') \<Rightarrow> Inr (normalized @ [f'], seen')) ([], []) files of
        Inl e \<Rightarrow> Inl e | Inr (normalized, _) \<Rightarrow> Inr (sort_key bf_Path normalized))"

definition validateBundleFiles :: "BundleFile list \<Rightarrow> bundleLimits \<Rightarrow> bundle_error option" where
  "validateBundleFiles files limits =
     (case validateBundleFileCount (int (length files)) limits of
        Some e \<Rightarrow> Some e
      | None \<Rightarrow>
          (case run_all (\<lambda>budget f. if bf_Size f > bl_fileBytes limits then Inl FileTooLarge else budget_add budget (bf_Size f))
                  (newBudget limits) files of
             Inl e \<Rightarrow> Some e | Inr _ \<Rightarrow> None))"

definition normalizeWriteInputs :: "write_env \<Rightarrow> WriteOptions \<Rightarrow> bundleLimits \<Rightarrow> bundle_error + string \<times> BundleFile list" where
  "normalizeWriteInputs env options limits =
     (case validateBundleFileCount (int (length (wo_Files options))) limits of
        Some e \<Rightarrow> Inl e
      | None \<Rightarrow>
          (case normalizedOutputPath env (wo_Output options) of
             Inl e \<Rightarrow> Inl e
           | Inr output \<Rightarrow>
               (case normalizedRootPath env (wo_Root options) of
                  Inl e \<Rightarrow> Inl e
                | Inr root0 \<Rightarrow>
                    (case normalizeFiles env root0 (wo_Files options) of
                       Inl e \<Rightarrow> Inl e
                     | Inr files \<Rightarrow> (case validateBundleFiles files limits of Some e \<Rightarrow> Inl e | None \<Rightarrow> Inr (output, files))))))"

definition prepareBundleFilePayload :: "bundle_codec \<Rightarrow> write_env \<Rightarrow> nat \<Rightarrow> BundleFile \<Rightarrow> bundle_error + BundleFile" where
  "prepareBundleFilePayload codec env i f =
     (if \<not> we_hash_live env i then Inl BundleCanceled
      else (case we_hash_open env f of
              None \<Rightarrow> Inl BadSource
            | Some (size0, content, failed) \<Rightarrow>
                if size0 \<noteq> bf_Size f then Inl SizeMismatch
                else if failed then Inl Unreadable
                else if int (length content) \<noteq> bf_Size f then Inl SizeMismatch
                else Inr (f\<lparr>bf_SHA256 := hex_encode (bc_sha256 codec content)\<rparr>)))"

definition bundlePayloadTotalBytes :: "BundleFile list \<Rightarrow> int" where
  "bundlePayloadTotalBytes payloads = (\<Sum>f\<leftarrow>payloads. bf_Size f)"

definition prepareBundleFilePayloads :: "bundle_codec \<Rightarrow> write_env \<Rightarrow> BundleFile list \<Rightarrow> bundle_error + BundleFile list \<times> int" where
  "prepareBundleFilePayloads codec env files =
     (case run_all (\<lambda>acc (i, f). case prepareBundleFilePayload codec env i f of Inl e \<Rightarrow> Inl e | Inr p \<Rightarrow> Inr (acc @ [p]))
             [] (enumerate 0 files) of
        Inl e \<Rightarrow> Inl e | Inr payloads \<Rightarrow> Inr (payloads, bundlePayloadTotalBytes payloads))"

definition index_file :: "BundleFile \<Rightarrow> IndexFile" where
  "index_file f = \<lparr> xf_Path = bf_Path f, xf_Kind = bf_Kind f, xf_Size = bf_Size f, xf_SHA256 = bf_SHA256 f,
     xf_MediaType = bf_MediaType f, xf_SourceHash = bf_SourceHash f, xf_ETag = bf_ETag f, xf_AssetPath = bf_AssetPath f,
     xf_Encoding = bf_Encoding f, xf_Format = bf_Format f, xf_Width = bf_Width f \<rparr>"

definition buildIndex :: "BundleFile list \<Rightarrow> time \<Rightarrow> Index" where
  "buildIndex payloads now =
     \<lparr> xi_APIVersion = [], xi_Kind = [], xi_CreatedAt = now, xi_Files = map index_file payloads \<rparr>"

definition writeBundleIndex :: "bundle_codec \<Rightarrow> bundleLimits \<Rightarrow> Index \<Rightarrow> bundle_error + tar_item" where
  "writeBundleIndex codec limits index =
     (case marshalIndex codec limits index of
        Inl e \<Rightarrow> Inl e
      | Inr body \<Rightarrow> Inr (TarEntry \<lparr> th_Name = IndexPath, th_Reg = True, th_Size = int (length body) \<rparr> (body, False)))"

text \<open>The tar writer refuses bytes beyond the size of the header.\<close>

definition writePreparedBundleFile :: "bundle_codec \<Rightarrow> write_env \<Rightarrow> BundleFile \<Rightarrow> bundle_error + tar_item" where
  "writePreparedBundleFile codec env f =
     (case we_write_open env f of
        None \<Rightarrow> Inl BadSource
      | Some (size0, content, failed) \<Rightarrow>
          if size0 \<noteq> bf_Size f then Inl SizeMismatch
          else if int (length content) > bf_Size f then Inl WriteFailed
          else if failed then Inl Unreadable
          else if int (length content) \<noteq> bf_Size f then Inl SizeMismatch
          else if hex_encode (bc_sha256 codec content) \<noteq> bf_SHA256 f then Inl SHA256Mismatch
          else Inr (TarEntry \<lparr> th_Name = bf_Path f, th_Reg = True, th_Size = bf_Size f \<rparr> (content, False)))"

definition writePreparedBundleFiles :: "bundle_codec \<Rightarrow> write_env \<Rightarrow> BundleFile list \<Rightarrow> bundle_error + tar_item list" where
  "writePreparedBundleFiles codec env payloads =
     run_all (\<lambda>items (i, f).
       if \<not> we_write_live env i then Inl BundleCanceled
       else (case writePreparedBundleFile codec env f of Inl e \<Rightarrow> Inl e | Inr item \<Rightarrow> Inr (items @ [item])))
       [] (enumerate 0 payloads)"

text \<open>The archive is published by a rename, so a failure leaves the output as it was; the result is the summary and the
  entries of the published archive.\<close>

definition writeWithLimits ::
    "bundle_codec \<Rightarrow> write_env \<Rightarrow> WriteOptions \<Rightarrow> bundleLimits \<Rightarrow> bundle_error + WriteSummary \<times> tar_item list" where
  "writeWithLimits codec env options limits =
     (case normalizeWriteInputs env options limits of
        Inl e \<Rightarrow> Inl e
      | Inr (output, files) \<Rightarrow>
          (case prepareBundleFilePayloads codec env files of
             Inl e \<Rightarrow> Inl e
           | Inr (payloads, totalBytes) \<Rightarrow>
               (case writeBundleIndex codec limits (buildIndex payloads (wo_Now options)) of
                  Inl e \<Rightarrow> Inl e
                | Inr item \<Rightarrow>
                    (case writePreparedBundleFiles codec env payloads of
                       Inl e \<Rightarrow> Inl e
                     | Inr items \<Rightarrow>
                         Inr (\<lparr> wm_Output = output, wm_Files = length payloads, wm_Bytes = totalBytes \<rparr>, item # items)))))"

section \<open>References\<close>

text \<open>\<open>base64.RawURLEncoding\<close>; the decoder skips line ends and ignores the unused low bits of the last character.\<close>

definition b64_char :: "nat \<Rightarrow> char" where
  "b64_char n = ''ABCDEFGHIJKLMNOPQRSTUVWXYZabcdefghijklmnopqrstuvwxyz0123456789-_'' ! n"

definition b64_val :: "char \<Rightarrow> nat option" where
  "b64_val c =
     (let n = of_char c :: nat
      in if 65 \<le> n \<and> n \<le> 90 then Some (n - 65)
         else if 97 \<le> n \<and> n \<le> 122 then Some (n - 71)
         else if 48 \<le> n \<and> n \<le> 57 then Some (n + 4)
         else if n = 45 then Some 62 else if n = 95 then Some 63 else None)"

fun b64_groups :: "nat list \<Rightarrow> nat list" where
  "b64_groups [] = []"
| "b64_groups [a] = [a div 4, a mod 4 * 16]"
| "b64_groups [a, b] = [a div 4, a mod 4 * 16 + b div 16, b mod 16 * 4]"
| "b64_groups (a # b # c # rest) =
     a div 4 # (a mod 4 * 16 + b div 16) # (b mod 16 * 4 + c div 64) # c mod 64 # b64_groups rest"

fun b64_ungroup :: "nat list \<Rightarrow> nat list option" where
  "b64_ungroup [] = Some []"
| "b64_ungroup [x] = None"
| "b64_ungroup [x, y] = Some [x * 4 + y div 16]"
| "b64_ungroup [x, y, z] = Some [x * 4 + y div 16, y mod 16 * 16 + z div 4]"
| "b64_ungroup (x # y # z # w # rest) =
     map_option (\<lambda>bs. (x * 4 + y div 16) # (y mod 16 * 16 + z div 4) # (z mod 4 * 64 + w) # bs) (b64_ungroup rest)"

definition encodeReferencePart :: "string \<Rightarrow> string" where
  "encodeReferencePart s = map b64_char (b64_groups (map of_char s))"

definition decodeReferencePart :: "string \<Rightarrow> bundle_error + string" where
  "decodeReferencePart s =
     (let cs = filter (\<lambda>c. c \<noteq> CHR 0x0A \<and> c \<noteq> CHR 0x0D) s
      in if \<exists>c\<in>set cs. b64_val c = None then Inl BadReference
         else (case b64_ungroup (map (the \<circ> b64_val) cs) of None \<Rightarrow> Inl BadReference | Some bs \<Rightarrow> Inr (map char_of bs)))"

definition referencePrefix :: string where "referencePrefix = ''spackbundle:''"

definition NewReference :: "string \<Rightarrow> string \<Rightarrow> string \<Rightarrow> bundle_error + string" where
  "NewReference cwd bundlePath filePath =
     (case normalizedBundlePath cwd bundlePath of
        Inl e \<Rightarrow> Inl e
      | Inr b \<Rightarrow>
          (case cleanBundlePath filePath of
             Inl e \<Rightarrow> Inl e
           | Inr f \<Rightarrow> Inr (referencePrefix @ encodeReferencePart b @ ''.'' @ encodeReferencePart f)))"

definition IsReference :: "string \<Rightarrow> bool" where
  "IsReference p \<longleftrightarrow> has_prefix (trim_space p) referencePrefix"

record Reference =
  rf_BundlePath :: string
  rf_FilePath :: string

definition ParseReference :: "string \<Rightarrow> bundle_error + Reference" where
  "ParseReference p0 =
     (let p = trim_space p0
      in if \<not> has_prefix p referencePrefix then Inl BadReference
         else (case cut CHR ''.'' (trim_prefix p referencePrefix) of
                 (left, right, found) \<Rightarrow>
                   if \<not> found \<or> left = [] \<or> right = [] then Inl BadReference
                   else (case decodeReferencePart left of
                           Inl e \<Rightarrow> Inl e
                         | Inr b \<Rightarrow>
                             (case decodeReferencePart right of
                                Inl e \<Rightarrow> Inl e
                              | Inr f0 \<Rightarrow>
                                  (case cleanBundlePath f0 of
                                     Inl e \<Rightarrow> Inl e | Inr f \<Rightarrow> Inr \<lparr> rf_BundlePath = b, rf_FilePath = f \<rparr>)))))"

section \<open>Encodings\<close>

lemma hex_val_digit: "d < 16 \<Longrightarrow> hex_val (hex_digit d) = Some d"
proof -
  have "list_all (\<lambda>d. hex_val (hex_digit d) = Some d) [0..<16]" by code_simp
  then show "d < 16 \<Longrightarrow> ?thesis" by (simp add: list_all_iff)
qed

lemma hex_decode_encode: "hex_decode (hex_encode b) = Some b"
proof (induction b)
  case (Cons c b)
  have "(of_char c :: nat) div 16 < 16" using nat_of_char_less_256 [of c] by (simp add: less_mult_imp_div_less)
  with Cons show ?case by (simp add: hex_encode_def hex_val_digit)
qed (simp add: hex_encode_def)

lemma Uint32_AppendUint32: "Uint32 (AppendUint32 [] w) = w"
proof -
  define q0 q1 q2 q3 where q: "q0 = unat w" "q1 = q0 div 256" "q2 = q1 div 256" "q3 = q2 div 256"
  have lt: "q0 < 4294967296" using unsigned_less [of w] by (simp add: q)
  have d: "unat w div 16777216 = q3" "unat w div 65536 = q2" "unat w div 256 = q1"
    by (simp_all add: q flip: div_mult2_eq)
  have "q3 < 256" using lt by (simp add: q less_mult_imp_div_less flip: div_mult2_eq)
  then have "((q3 mod 256 * 256 + q2 mod 256) * 256 + q1 mod 256) * 256 + q0 mod 256 = q0"
    by (simp add: q)
  moreover have "foldl (\<lambda>n c. n * 256 + of_char c) 0 (take 4 (AppendUint32 [] w)) =
      ((q3 mod 256 * 256 + q2 mod 256) * 256 + q1 mod 256) * 256 + q0 mod 256"
    by (simp add: AppendUint32_def power_numeral_reduce d del: distrib_right_numeral) (simp add: q(1))
  ultimately show ?thesis by (simp add: Uint32_def q(1))
qed

lemma AppendUint32_split: "AppendUint32 b w = b @ AppendUint32 [] w" "length (AppendUint32 [] w) = 4"
  by (simp_all add: AppendUint32_def)

lemma unmarshal_marshal:
  assumes m: "marshalIndex codec limits index = Inr body"
    and law: "\<And>payload. bc_Marshal codec (index\<lparr>xi_APIVersion := FormatVersion, xi_Kind := ''BundleIndex''\<rparr>) = Some payload \<Longrightarrow>
      bc_Unmarshal codec payload = Some (index\<lparr>xi_APIVersion := FormatVersion, xi_Kind := ''BundleIndex''\<rparr>)"
  shows "unmarshalIndex codec limits body = Inr (index\<lparr>xi_APIVersion := FormatVersion, xi_Kind := ''BundleIndex''\<rparr>)"
    and "int (length body) \<le> bl_indexBytes limits"
proof -
  let ?index = "index\<lparr>xi_APIVersion := FormatVersion, xi_Kind := ''BundleIndex''\<rparr>"
  obtain payload where p: "bc_Marshal codec ?index = Some payload"
    using m by (auto simp: marshalIndex_def Let_def split: option.splits)
  define n where "n = int (length payload)"
  have fits: "n \<le> bl_indexBytes limits - 13" "n < 2 ^ 32"
    and body: "body = indexMagic @ AppendUint32 [] (word_of_int n) @ payload"
    using m p AppendUint32_split(1) [of indexMagic "word_of_int n"]
    by (auto simp: marshalIndex_def Let_def n_def checkedUint32_def indexMagic_def split: if_splits option.splits)
  have magic: "length indexMagic = 9" by (simp add: indexMagic_def)
  have len: "length body = 13 + length payload" by (simp add: body magic AppendUint32_split(2))
  have "take 4 (drop (length indexMagic) body) = AppendUint32 [] (word_of_int n)"
    by (simp add: body AppendUint32_split(2))
  moreover have "drop (length indexMagic + 4) body = payload"
    by (simp add: body AppendUint32_split(2))
  moreover have "0 \<le> n" by (simp add: n_def)
  then have "uint (word_of_int n :: 32 word) = n"
    using fits(2) by (simp add: uint_word_of_int take_bit_int_eq_self)
  moreover have "has_prefix body indexMagic" by (simp add: body gostr)
  ultimately show "unmarshalIndex codec limits body = Inr ?index"
    using fits len magic law [OF p] Uint32_AppendUint32
    by (simp add: unmarshalIndex_def Let_def n_def)
  show "int (length body) \<le> bl_indexBytes limits" using fits len by (simp add: n_def)
qed

section \<open>Paths of a bundle\<close>

lemma cleanBundlePath_proper:
  assumes "cleanBundlePath raw = Inr c"
  shows "\<exists>xs. xs \<noteq> [] \<and> proper xs \<and> c = join_with ''/'' xs" "validateCleanBundlePath c = None"
    "CHR 0x00 \<notin> set c" "CHR 0x5C \<notin> set c"
proof -
  let ?t = "trim_space raw"
  have t: "?t \<noteq> []" "\<not> path_is_abs ?t" "CHR 0x00 \<notin> set ?t" "CHR 0x5C \<notin> set ?t" and c: "c = path_clean ?t"
    and v: "validateCleanBundlePath c = None"
    using assms by (auto simp: cleanBundlePath_def validateRawBundlePath_def Let_def split: option.splits if_splits)
  have safe: "c \<noteq> ''.''" "c \<noteq> ''..''" "\<not> has_prefix c ''../''"
    using v by (auto simp: validateCleanBundlePath_def split: if_splits)
  show "\<exists>xs. xs \<noteq> [] \<and> proper xs \<and> c = join_with ''/'' xs"
    by (rule path_clean_relative_proper [OF t(1,2) c safe])
  show "validateCleanBundlePath c = None" by (rule v)
  have sub: "set c \<subseteq> {CHR ''/'', CHR ''.''} \<union> set ?t"
  proof
    fix x assume x: "x \<in> set c"
    show "x \<in> {CHR ''/'', CHR ''.''} \<union> set ?t"
    proof (cases "clean_segs False [] (split_on CHR ''/'' ?t) = []")
      case True
      with x t c show ?thesis by (cases ?t) (auto simp: path_clean_def path_is_abs_def gostr)
    next
      case False
      then have "c = join_with ''/'' (clean_segs False [] (split_on CHR ''/'' ?t))"
        using t c by (cases ?t) (auto simp: path_clean_def path_is_abs_def gostr Let_def)
      then obtain seg where "x = CHR ''/'' \<or> x \<in> set seg \<and> seg \<in> set (split_on CHR ''/'' ?t)"
        using x set_join_with [of "''/''"] clean_segs_subset [of False "[]"] by fastforce
      then show ?thesis using split_on_subset by blast
    qed
  qed
  show "CHR 0x00 \<notin> set c" "CHR 0x5C \<notin> set c" using sub t by auto
qed

lemma cleanBundlePath_fixed:
  assumes c: "cleanBundlePath raw = Inr c" and trimmed: "is_trimmed c"
  shows "cleanBundlePath c = Inr c" "path_clean c = c" "c \<noteq> IndexPath" "\<not> isMetadataPath c"
proof -
  obtain xs where xs: "xs \<noteq> []" "proper xs" "c = join_with ''/'' xs" using cleanBundlePath_proper(1) [OF c] by blast
  show clean: "path_clean c = c" using path_clean_proper [OF xs(1,2)] by (simp add: xs(3))
  obtain d t where dt: "c = d # t" "d \<noteq> CHR ''/''" using proper_join_ne [OF xs(1,2)] xs(3) by auto
  note p = cleanBundlePath_proper [OF c]
  then show "cleanBundlePath c = Inr c"
    using dt trimmed clean by (simp add: cleanBundlePath_def validateRawBundlePath_def Let_def path_is_abs_def gostr)
  show "c \<noteq> IndexPath" "\<not> isMetadataPath c"
    using p(2) clean by (auto simp: validateCleanBundlePath_def IndexPath_def isMetadataPath_def Let_def gostr split: if_splits)
qed

text \<open>A path that is its own cleaning.\<close>

definition bundle_path :: "string \<Rightarrow> bool" where
  "bundle_path p \<longleftrightarrow> cleanBundlePath p = Inr p"

lemma bundle_path_entry:
  assumes "bundle_path p" "th_Name h = p"
  shows "cleanTarEntryPath h = Inr p" "p \<noteq> IndexPath"
proof -
  have c: "cleanBundlePath p = Inr p" using assms by (simp add: bundle_path_def)
  obtain xs where "xs \<noteq> []" "proper xs" "p = join_with ''/'' xs" using cleanBundlePath_proper(1) [OF c] by blast
  then have clean: "path_clean p = p" using path_clean_proper by simp
  have "p \<noteq> IndexPath" "\<not> isMetadataPath p"
    using cleanBundlePath_proper(2) [OF c] clean
    by (auto simp: validateCleanBundlePath_def IndexPath_def isMetadataPath_def Let_def gostr split: if_splits)
  with c clean assms(2) show "cleanTarEntryPath h = Inr p" "p \<noteq> IndexPath"
    by (simp_all add: cleanTarEntryPath_def Let_def)
qed

lemma entry_path:
  assumes "cleanTarEntryPath h = Inr p" "p \<noteq> IndexPath"
  shows "\<exists>xs. xs \<noteq> [] \<and> proper xs \<and> p = join_with ''/'' xs"
  using assms cleanBundlePath_proper(1) by (auto simp: cleanTarEntryPath_def Let_def split: if_splits)

section \<open>What the index and the budget allow\<close>

definition fits :: "bundleBudget \<Rightarrow> int list \<Rightarrow> bool" where
  "fits b ss \<longleftrightarrow> (\<forall>s\<in>set ss. 0 \<le> s) \<and>
     (ss \<noteq> [] \<longrightarrow> bb_files b + int (length ss) \<le> bl_files (bb_limits b) \<and>
                  bb_expandedBytes b + sum_list ss \<le> bl_expandedBytes (bb_limits b))"

lemma budget_add_iff:
  "budget_add b s = Inr b' \<longleftrightarrow> 0 \<le> s \<and> bb_files b < bl_files (bb_limits b) \<and>
     bb_expandedBytes b + s \<le> bl_expandedBytes (bb_limits b) \<and>
     b' = b\<lparr>bb_files := bb_files b + 1, bb_expandedBytes := bb_expandedBytes b + s\<rparr>"
  by (auto simp: budget_add_def)

lemma fits_Cons:
  "fits b (s # ss) \<longleftrightarrow> (\<exists>b'. budget_add b s = Inr b' \<and> fits b' ss)"
proof (cases "ss = []")
  case False
  have "0 \<le> sum_list ss" if "\<forall>s\<in>set ss. 0 \<le> s" using that by (simp add: sum_list_nonneg)
  with False show ?thesis by (cases ss) (auto simp: fits_def budget_add_iff)
qed (auto simp: fits_def budget_add_iff)

definition entry_ok :: "bundleLimits \<Rightarrow> IndexFile \<Rightarrow> bool" where
  "entry_ok limits f \<longleftrightarrow> bundle_path (xf_Path f) \<and> 0 \<le> xf_Size f \<and> xf_Size f \<le> bl_fileBytes limits \<and>
     validateIndexFileHash f = None"

lemma validateIndexFile_iff:
  "validateIndexFile f seen limits = Inr seen' \<longleftrightarrow> entry_ok limits f \<and> xf_Path f \<notin> set seen \<and> seen' = xf_Path f # seen"
  by (auto simp: validateIndexFile_def entry_ok_def bundle_path_def split: sum.splits option.splits)

definition index_step :: "bundleLimits \<Rightarrow> string list \<times> bundleBudget \<Rightarrow> IndexFile \<Rightarrow> bundle_error + string list \<times> bundleBudget" where
  "index_step limits = (\<lambda>(seen, budget) f.
     case validateIndexFile f seen limits of
       Inl e \<Rightarrow> Inl e
     | Inr seen' \<Rightarrow> (case budget_add budget (xf_Size f) of Inl e \<Rightarrow> Inl e | Inr budget' \<Rightarrow> Inr (seen', budget')))"

lemma index_run:
  "(\<exists>st. run_all (index_step limits) (seen, b) fs = Inr st) \<longleftrightarrow>
     (\<forall>f\<in>set fs. entry_ok limits f) \<and> distinct (map xf_Path fs) \<and> xf_Path ` set fs \<inter> set seen = {} \<and> fits b (map xf_Size fs)"
proof (induction fs arbitrary: seen b)
  case Nil
  then show ?case by (simp add: fits_def)
next
  case (Cons f fs)
  show ?case
  proof (cases "entry_ok limits f \<and> xf_Path f \<notin> set seen \<and> (\<exists>b'. budget_add b (xf_Size f) = Inr b')")
    case True
    then obtain b' where b': "budget_add b (xf_Size f) = Inr b'" by blast
    have "index_step limits (seen, b) f = Inr (xf_Path f # seen, b')"
      using True b' by (simp add: index_step_def validateIndexFile_iff [THEN iffD2])
    with Cons.IH [of "xf_Path f # seen" b'] True b' show ?thesis by (auto simp: fits_Cons)
  next
    case False
    have "\<exists>e. index_step limits (seen, b) f = Inl e"
      using False validateIndexFile_iff [of f seen limits]
      by (auto simp: index_step_def split: sum.splits)
    with False show ?thesis by (auto simp: fits_Cons)
  qed
qed

lemma validateIndex_iff:
  "validateIndex index limits = None \<longleftrightarrow> int (length (xi_Files index)) \<le> bl_files limits \<and>
     (\<forall>f\<in>set (xi_Files index). entry_ok limits f) \<and> distinct (map xf_Path (xi_Files index)) \<and>
     fits (newBudget limits) (map xf_Size (xi_Files index))"
  using index_run [of limits "[]" "newBudget limits" "xi_Files index"]
  unfolding index_step_def by (auto simp: validateIndex_def validateBundleFileCount_def split: sum.splits)

lemma indexFileMap_lookup:
  assumes "distinct (map xf_Path (xi_Files index))"
  shows "map_of (indexFileMap index) p = Some f \<longleftrightarrow> f \<in> set (xi_Files index) \<and> xf_Path f = p"
    and "fst ` set (indexFileMap index) = xf_Path ` set (xi_Files index)"
proof -
  have "distinct (map xf_Path fs) \<Longrightarrow> fst ` set m \<inter> xf_Path ` set fs = {} \<Longrightarrow>
      (map_of (foldl (\<lambda>m f. AList.update (xf_Path f) f m) m fs) p = Some f \<longleftrightarrow> map_of m p = Some f \<or> f \<in> set fs \<and> xf_Path f = p)"
    for fs m
  proof (induction fs arbitrary: m)
    case (Cons g fs)
    have "map_of m (xf_Path g) = None" using Cons.prems(2) by (auto simp: map_of_eq_None_iff)
    with Cons.IH [of "AList.update (xf_Path g) g m"] Cons.prems show ?case
      by (auto simp: update_conv' dom_update image_iff)
  qed simp
  from this [of "xi_Files index" "[]"] assms
  show "map_of (indexFileMap index) p = Some f \<longleftrightarrow> f \<in> set (xi_Files index) \<and> xf_Path f = p"
    by (simp add: indexFileMap_def)
  have "fst ` set (foldl (\<lambda>m f. AList.update (xf_Path f) f m) m fs) = fst ` set m \<union> xf_Path ` set fs" for fs m
    by (induction fs arbitrary: m) (auto simp: dom_update)
  from this [of "[]" "xi_Files index"]
  show "fst ` set (indexFileMap index) = xf_Path ` set (xi_Files index)" by (simp add: indexFileMap_def)
qed

section \<open>What an extraction leaves\<close>

definition stored_bytes :: "extracted \<Rightarrow> int" where
  "stored_bytes files = (\<Sum>(p, b)\<leftarrow>files. int (length b))"

definition declared :: "bundleLimits \<Rightarrow> (string \<times> IndexFile) list \<Rightarrow> bool" where
  "declared limits expected \<longleftrightarrow> (\<forall>p f. map_of expected p = Some f \<longrightarrow> xf_Path f = p \<and> entry_ok limits f)"

definition verified :: "bundle_codec \<Rightarrow> IndexFile \<Rightarrow> bytes \<Rightarrow> bool" where
  "verified codec f b \<longleftrightarrow> int (length b) = xf_Size f \<and> hex_encode (bc_sha256 codec b) = xf_SHA256 f"

lemma verifyCopiedPayload_iff: "verifyCopiedPayload f n digest = None \<longleftrightarrow> n = xf_Size f \<and> hex_encode digest = xf_SHA256 f"
  by (simp add: verifyCopiedPayload_def)

lemma extractTarEntry_cases:
  assumes "extractTarEntry codec fault root0 h body f files = (e, files')"
  shows "files' = files \<and> e \<noteq> None \<or>
    th_Size h = xf_Size f \<and> (\<exists>b. files' = (xf_Path f, b) # files \<and> xf_Path f \<notin> fst ` set files \<and>
      (0 \<le> xf_Size f \<longrightarrow> int (length b) \<le> xf_Size f + 1) \<and> (e = None \<longrightarrow> verified codec f b))"
proof -
  have read: "read_limited n body = Inr c \<Longrightarrow> c = take (nat n) (fst body)" for n c
    by (auto simp: read_limited_def split: prod.splits if_splits)
  show ?thesis using assms read
    by (fastforce simp: extractTarEntry_def writeExtractedFile_def Let_def can_create_def verified_def verifyCopiedPayload_iff
        split: if_splits sum.splits)
qed

lemma extract_loop:
  "payload_loop live (extractTarEntry codec fault root0) expected i seen budget items files = (e, files') \<Longrightarrow>
   declared limits expected \<Longrightarrow> fst ` set files \<subseteq> fst ` set expected \<Longrightarrow> distinct (map fst files) \<Longrightarrow>
   fst ` set files = set seen \<Longrightarrow> \<forall>(p, b)\<in>set files. \<forall>f. map_of expected p = Some f \<longrightarrow> verified codec f b \<Longrightarrow>
   stored_bytes files \<le> bb_expandedBytes budget \<Longrightarrow> bb_expandedBytes budget \<le> max 0 (bl_expandedBytes (bb_limits budget)) \<Longrightarrow>
   fst ` set files' \<subseteq> fst ` set expected \<and> distinct (map fst files') \<and>
   stored_bytes files' \<le> max 0 (bl_expandedBytes (bb_limits budget)) + 1 \<and>
   (e = None \<longrightarrow> fst ` set files' = fst ` set expected \<and>
      (\<forall>(p, b)\<in>set files'. \<forall>f. map_of expected p = Some f \<longrightarrow> verified codec f b))"
proof (induction live "extractTarEntry codec fault root0" expected i seen budget items files rule: payload_loop.induct)
  case (1 live expected i seen budget items files)
  note loop = payload_loop.simps [of live "extractTarEntry codec fault root0" expected i seen budget items files]
  show ?case
  proof (cases "live i \<and> items \<noteq> [] \<and> hd items \<noteq> TarBroken")
    case False
    then have "files' = files \<and> (e = None \<longrightarrow> ensureAllIndexFilesSeen expected seen = None)"
      using 1(2) unfolding loop by (cases items) (auto split: if_splits tar_item.splits)
    with 1(3-) show ?thesis by (auto simp: ensureAllIndexFilesSeen_def split: if_splits)
  next
    case True
    then obtain h body rest where items: "items = TarEntry h body # rest" "live i"
      by (cases items; cases "hd items") auto
    show ?thesis
    proof (cases "budget_add budget (th_Size h)")
      case (Inl err)
      with 1(2-) items show ?thesis unfolding loop by auto
    next
      case b': (Inr b')
      note add = b' [unfolded budget_add_iff]
      show ?thesis
      proof (cases "lookupPayloadEntry h expected seen")
        case (Inl err)
        with 1(2-) items b' show ?thesis unfolding loop by auto
      next
        case (Inr pf)
        obtain p f where pf: "pf = (p, f)" by fastforce
        have p: "map_of expected p = Some f" "p \<notin> set seen" "xf_Path f = p" "entry_ok limits f"
          using Inr 1(3) by (auto simp: pf lookupPayloadEntry_def declared_def split: sum.splits option.splits if_splits)
        obtain e1 files1 where step: "extractTarEntry codec fault root0 h body f files = (e1, files1)" by fastforce
        have size0: "0 \<le> xf_Size f" using p(4) by (simp add: entry_ok_def)
        have pin: "p \<in> fst ` set expected" using p(1) by (metis map_of_SomeD fst_conv imageI)
        from extractTarEntry_cases [OF step] consider (same) "files1 = files" "e1 \<noteq> None"
          | (new) b where "files1 = (p, b) # files" "p \<notin> fst ` set files" "int (length b) \<le> xf_Size f + 1"
            "th_Size h = xf_Size f" "e1 = None \<longrightarrow> verified codec f b"
          using size0 p(3) by auto
        then show ?thesis
        proof cases
          case same
          then have "files' = files" "e \<noteq> None" using 1(2) items b' Inr pf step unfolding loop by auto
          moreover have "stored_bytes files \<le> max 0 (bl_expandedBytes (bb_limits budget)) + 1" using 1(8,9) by linarith
          ultimately show ?thesis using 1(4,5) by (cases e) simp_all
        next
          case new
          have bytes: "stored_bytes files1 = int (length b) + stored_bytes files" by (simp add: stored_bytes_def new)
          show ?thesis
          proof (cases e1)
            case (Some err)
            then have "files' = files1" "e \<noteq> None" using 1(2) items b' Inr pf step unfolding loop by auto
            with 1(3-) new pin add bytes show ?thesis by auto
          next
            case None
            have rec: "payload_loop live (extractTarEntry codec fault root0) expected (Suc i) (p # seen) b' rest files1 = (e, files')"
              using 1(2) items b' Inr pf step None unfolding loop by auto
            have v: "verified codec f b" using new None by simp
            have "stored_bytes files1 \<le> bb_expandedBytes b'"
              using v new(4) add 1(8) bytes by (auto simp: verified_def)
            moreover have "bb_limits b' = bb_limits budget" "bb_expandedBytes b' \<le> max 0 (bl_expandedBytes (bb_limits b'))"
              using add by auto
            moreover have "\<forall>(q, c)\<in>set files1. \<forall>g. map_of expected q = Some g \<longrightarrow> verified codec g c"
              using 1(7) v p(1) by (auto simp: new(1))
            moreover have "fst ` set files1 \<subseteq> fst ` set expected" "distinct (map fst files1)" "fst ` set files1 = set (p # seen)"
              using 1(4-6) new(1,2) pin by auto
            ultimately show ?thesis using 1(1) [OF _ items(1) refl b' Inr pf [symmetric] step [symmetric] None rec 1(3)] items(2) by auto
          qed
        qed
      qed
    qed
  qed
qed


lemma sum_list_take_le: "\<forall>s\<in>set ss. (0::int) \<le> s \<Longrightarrow> sum_list ss \<ge> 0"
  by (simp add: sum_list_nonneg)

lemma readBundleIndex_declared:
  assumes "readBundleIndex codec limits items = Inr (index, expected, rest)"
  shows "expected = indexFileMap index" "validateIndex index limits = None" "declared limits expected"
    "fst ` set expected = xf_Path ` set (xi_Files index)"
    "f \<in> set (xi_Files index) \<longleftrightarrow> map_of expected (xf_Path f) = Some f"
proof -
  show e: "expected = indexFileMap index" and v: "validateIndex index limits = None"
    using assms by (auto simp: readBundleIndex_def split: list.splits tar_item.splits sum.splits if_splits option.splits)
  have d: "distinct (map xf_Path (xi_Files index))" and ok: "\<forall>f\<in>set (xi_Files index). entry_ok limits f"
    using v by (simp_all add: validateIndex_iff)
  note l = indexFileMap_lookup [OF d]
  show "declared limits expected" using l(1) ok by (auto simp: declared_def e)
  show "fst ` set expected = xf_Path ` set (xi_Files index)" using l(2) by (simp add: e)
  show "f \<in> set (xi_Files index) \<longleftrightarrow> map_of expected (xf_Path f) = Some f" using l(1) by (auto simp: e)
qed

text \<open>Every path that a read index declares is a clean path below the root and not one of the metadata.\<close>

lemma declared_path:
  assumes "declared limits expected" "p \<in> fst ` set expected"
  shows "(\<exists>xs. xs \<noteq> [] \<and> proper xs \<and> p = join_with ''/'' xs) \<and> \<not> isMetadataPath p"
proof -
  obtain f where "map_of expected p = Some f" using assms(2) map_of_eq_None_iff [of expected p] by auto
  then have c: "cleanBundlePath p = Inr p" using assms(1) by (auto simp: declared_def entry_ok_def bundle_path_def)
  obtain xs where xs: "xs \<noteq> []" "proper xs" "p = join_with ''/'' xs" using cleanBundlePath_proper(1) [OF c] by blast
  then have "path_clean p = p" using path_clean_proper by simp
  with cleanBundlePath_proper(2) [OF c] have "\<not> isMetadataPath p"
    by (auto simp: validateCleanBundlePath_def isMetadataPath_def Let_def split: if_splits)
  with xs show ?thesis by blast
qed

text \<open>C31: extracting an archive, whatever it holds, writes only below the directory of the extraction, at clean paths
  outside the reserved namespace that the index declares, each once, and in total at most one byte more than the limit on expanded
  bytes, also when it fails half way; when it succeeds, it has written exactly the files of the index, each with the size
  and the SHA-256 the index gives.\<close>

theorem extractBundleStream_safe:
  assumes "extractBundleStream codec live fault root0 limits items = (res, files)"
  shows "(\<forall>(p, b)\<in>set files. (\<exists>xs. xs \<noteq> [] \<and> proper xs \<and> p = join_with ''/'' xs) \<and> \<not> isMetadataPath p) \<and>
    distinct (map fst files) \<and> stored_bytes files \<le> max 0 (bl_expandedBytes limits) + 1 \<and>
    (\<forall>index. res = Inr index \<longrightarrow> fst ` set files = xf_Path ` set (xi_Files index) \<and>
      (\<forall>f\<in>set (xi_Files index). \<exists>b. map_of files (xf_Path f) = Some b \<and> verified codec f b))"
proof (cases "readBundleIndex codec limits items")
  case (Inl e)
  with assms show ?thesis by (auto simp: extractBundleStream_def stored_bytes_def)
next
  case (Inr r)
  obtain index expected rest where r: "r = (index, expected, rest)" by (cases r) auto
  note i = readBundleIndex_declared [OF Inr [unfolded r]]
  obtain e where loop: "payload_loop live (extractTarEntry codec fault root0) expected 0 [] (newBudget limits) rest [] = (e, files)"
    and res: "res = (case e of Some err \<Rightarrow> Inl err | None \<Rightarrow> Inr index)"
    using assms Inr r by (auto simp: extractBundleStream_def extractBundleEntries_def split: prod.splits option.splits)
  have l: "fst ` set files \<subseteq> fst ` set expected" "distinct (map fst files)"
      "stored_bytes files \<le> max 0 (bl_expandedBytes limits) + 1"
      "e = None \<Longrightarrow> fst ` set files = fst ` set expected"
      "e = None \<Longrightarrow> \<forall>(p, b)\<in>set files. \<forall>f. map_of expected p = Some f \<longrightarrow> verified codec f b"
    using extract_loop [OF loop i(3)] by (simp_all add: stored_bytes_def newBudget_def)
  have paths: "\<forall>(p, b)\<in>set files. (\<exists>xs. xs \<noteq> [] \<and> proper xs \<and> p = join_with ''/'' xs) \<and> \<not> isMetadataPath p"
  proof (intro ballI, clarify)
    fix p b assume "(p, b) \<in> set files"
    then have "p \<in> fst ` set expected" using l(1) by force
    then show "(\<exists>xs. xs \<noteq> [] \<and> proper xs \<and> p = join_with ''/'' xs) \<and> \<not> isMetadataPath p" by (rule declared_path [OF i(3)])
  qed
  have contents: "\<exists>b. map_of files (xf_Path f) = Some b \<and> verified codec f b"
    if "e = None" "f \<in> set (xi_Files index)" for f
  proof -
    have f: "map_of expected (xf_Path f) = Some f" using that(2) i(5) by simp
    then have "xf_Path f \<in> fst ` set files" using l(4) [OF that(1)] by (metis map_of_SomeD fst_conv imageI)
    then obtain b where "map_of files (xf_Path f) = Some b" using map_of_eq_None_iff [of files "xf_Path f"] by auto
    moreover from this have "verified codec f b" using l(5) [OF that(1)] f map_of_SomeD by fastforce
    ultimately show ?thesis by blast
  qed
  show ?thesis
  proof (cases e)
    case None
    with res l(4) i(4) have "res = Inr index" "fst ` set files = xf_Path ` set (xi_Files index)" by simp_all
    with paths l(2,3) contents [OF None] show ?thesis by simp
  next
    case (Some err)
    with res paths l(2,3) show ?thesis by simp
  qed
qed

section \<open>What the writer writes\<close>

lemma run_all_collect:
  "run_all (\<lambda>acc x. case g x of Inl e \<Rightarrow> Inl e | Inr y \<Rightarrow> Inr (acc @ [y])) acc xs = Inr ys \<longleftrightarrow>
   (\<exists>zs. list_all2 (\<lambda>x z. g x = Inr z) xs zs \<and> ys = acc @ zs)"
proof (induction xs arbitrary: acc)
  case (Cons x xs)
  then show ?case by (cases "g x") (auto simp: list_all2_Cons1)
qed auto

lemma list_all2_enumerate: "list_all2 (\<lambda>(i :: nat, x) z. P i x z) (enumerate n xs) zs \<Longrightarrow> (\<And>i x z. P i x z \<Longrightarrow> Q x z) \<Longrightarrow> list_all2 Q xs zs"
  by (induction xs arbitrary: n zs) (auto simp: list_all2_Cons1)

definition clean_names :: "BundleFile list \<Rightarrow> string set" where
  "clean_names fs = {p. \<exists>f\<in>set fs. cleanBundlePath (bf_Path f) = Inr p}"

lemma normalizeFiles_names:
  assumes "normalizeFiles env root0 fs = Inr ns"
  shows "distinct (map bf_Path ns)" "bf_Path ` set ns = clean_names fs" "length ns = length fs"
proof -
  define step where "step = (\<lambda>(normalized, seen) f.
              case normalizeFile env root0 f seen of
                Inl e \<Rightarrow> Inl e | Inr (f', seen') \<Rightarrow> Inr (normalized @ [f'], seen'))"
  obtain ms seen where run: "run_all step ([], []) fs = Inr (ms, seen)" and ns: "ns = sort_key bf_Path ms"
    using assms by (auto simp: normalizeFiles_def step_def split: sum.splits prod.splits)
  have "run_all step (ms0, seen0) fs = Inr (ms, seen) \<Longrightarrow> set seen0 = bf_Path ` set ms0 \<Longrightarrow> distinct (map bf_Path ms0) \<Longrightarrow>
      distinct (map bf_Path ms) \<and> bf_Path ` set ms = bf_Path ` set ms0 \<union> clean_names fs \<and> length ms = length ms0 + length fs" for ms0 seen0
  proof (induction fs arbitrary: ms0 seen0)
    case Nil
    then show ?case by (simp add: clean_names_def)
  next
    case (Cons f fs)
    obtain ms1 seen1 where s1: "step (ms0, seen0) f = Inr (ms1, seen1)" and rest: "run_all step (ms1, seen1) fs = Inr (ms, seen)"
      using Cons.prems(1) by (auto split: sum.splits)
    obtain f' where nf: "normalizeFile env root0 f seen0 = Inr (f', seen1)" and ms1: "ms1 = ms0 @ [f']"
      using s1 by (auto simp: step_def split: sum.splits prod.splits)
    have "seen1 = bf_Path f' # seen0" "cleanBundlePath (bf_Path f) = Inr (bf_Path f')" "bf_Path f' \<notin> set seen0"
      using nf by (auto simp: normalizeFile_def split: sum.splits if_splits prod.splits)
    note f' = ms1 this
    have "clean_names (f # fs) = insert (bf_Path f') (clean_names fs)" using f'(3) by (auto simp: clean_names_def)
    with Cons.IH [OF rest] Cons.prems(2,3) f' show ?case by auto
  qed
  from this [OF run] have ms: "distinct (map bf_Path ms)" "bf_Path ` set ms = clean_names fs" "length ms = length fs" by simp_all
  have "mset (map bf_Path ns) = mset (map bf_Path ms)" by (simp add: ns)
  then show "distinct (map bf_Path ns)" using ms(1) by (metis mset_eq_imp_distinct_iff)
  show "bf_Path ` set ns = clean_names fs" "length ns = length fs" using ms by (simp_all add: ns)
qed

lemma budget_run:
  "(\<exists>b'. run_all (\<lambda>budget f. if bf_Size f > m then Inl FileTooLarge else budget_add budget (bf_Size f)) b fs = Inr b') \<Longrightarrow>
   (\<forall>f\<in>set fs. bf_Size f \<le> m) \<and> fits b (map bf_Size fs)"
proof (induction fs arbitrary: b)
  case Nil
  then show ?case by (simp add: fits_def)
next
  case (Cons f fs)
  then show ?case by (auto simp: fits_Cons split: if_splits sum.splits)
qed

text \<open>The entry of a file and its content.\<close>

definition payload_item :: "IndexFile \<times> bytes \<Rightarrow> tar_item" where
  "payload_item fc = TarEntry \<lparr> th_Name = xf_Path (fst fc), th_Reg = True, th_Size = xf_Size (fst fc) \<rparr> (snd fc, False)"

definition payload_ok :: "bundle_codec \<Rightarrow> IndexFile \<times> bytes \<Rightarrow> bool" where
  "payload_ok codec fc \<longleftrightarrow> bundle_path (xf_Path (fst fc)) \<and> verified codec (fst fc) (snd fc)"

lemma verify_complete:
  "\<forall>fc\<in>set fcs. payload_ok codec fc \<and> map_of expected (xf_Path (fst fc)) = Some (fst fc) \<Longrightarrow>
   distinct (map (xf_Path \<circ> fst) fcs) \<Longrightarrow> (xf_Path \<circ> fst) ` set fcs \<inter> set seen = {} \<Longrightarrow>
   fits budget (map (xf_Size \<circ> fst) fcs) \<Longrightarrow> fst ` set expected \<subseteq> set seen \<union> (xf_Path \<circ> fst) ` set fcs \<Longrightarrow>
   payload_loop (\<lambda>_. True) (verifyTarEntry codec) expected i seen budget (map payload_item fcs) () = (None, ())"
proof (induction fcs arbitrary: i seen budget)
  case Nil
  then show ?case by (simp add: payload_loop.simps [where items = "[]"] ensureAllIndexFilesSeen_def)
next
  case (Cons fc fcs)
  obtain f c where fc: "fc = (f, c)" by fastforce
  let ?h = "\<lparr> th_Name = xf_Path f, th_Reg = True, th_Size = xf_Size f \<rparr>"
  have ok: "bundle_path (xf_Path f)" "int (length c) = xf_Size f" "hex_encode (bc_sha256 codec c) = xf_SHA256 f"
    "map_of expected (xf_Path f) = Some f"
    using Cons.prems(1) by (auto simp: fc payload_ok_def verified_def)
  obtain b' where b': "budget_add budget (xf_Size f) = Inr b'" "fits b' (map (xf_Size \<circ> fst) fcs)"
    using Cons.prems(4) by (auto simp: fc fits_Cons comp_def)
  have "lookupPayloadEntry ?h expected seen = Inr (xf_Path f, f)"
    using bundle_path_entry(1) [OF ok(1), of ?h] ok(4) Cons.prems(3) by (simp add: lookupPayloadEntry_def fc)
  moreover have "verifyTarEntry codec ?h (c, False) f () = (None, ())"
    using ok(2,3) by (simp add: verifyTarEntry_def read_limited_def verifyCopiedPayload_def)
  ultimately have "payload_loop (\<lambda>_. True) (verifyTarEntry codec) expected i seen budget (map payload_item (fc # fcs)) () =
      payload_loop (\<lambda>_. True) (verifyTarEntry codec) expected (Suc i) (xf_Path f # seen) b' (map payload_item fcs) ()"
    using b'(1) by (simp add: payload_loop.simps [where items = "_ # _"] payload_item_def fc)
  moreover have "\<dots> = (None, ())"
    by (rule Cons.IH) (use Cons.prems b'(2) in \<open>auto simp: fc comp_def\<close>)
  ultimately show ?case by simp
qed

lemma read_complete:
  "\<forall>fc\<in>set fcs. payload_ok codec fc \<and> xf_Size (fst fc) \<le> bl_fileBytes limits \<Longrightarrow> distinct (map (xf_Path \<circ> fst) fcs) \<Longrightarrow>
   (f, c) \<in> set fcs \<Longrightarrow> readBundleEntry limits (xf_Path f) (map payload_item fcs) = Inr c"
proof (induction fcs)
  case (Cons fc fcs)
  obtain g d where fc: "fc = (g, d)" by fastforce
  have ok: "bundle_path (xf_Path g)" "int (length d) = xf_Size g" "xf_Size g \<le> bl_fileBytes limits"
    using Cons.prems(1) by (auto simp: fc payload_ok_def verified_def)
  have clean: "cleanTarEntryPath \<lparr> th_Name = xf_Path g, th_Reg = True, th_Size = xf_Size g \<rparr> = Inr (xf_Path g)"
    "xf_Path g \<noteq> IndexPath"
    using bundle_path_entry [OF ok(1), of "\<lparr> th_Name = xf_Path g, th_Reg = True, th_Size = xf_Size g \<rparr>"] by simp_all
  show ?case
  proof (cases "xf_Path g = xf_Path f")
    case True
    have "(f, c) = (g, d)"
      using Cons.prems(2,3) True by (auto simp: fc image_iff)
    with clean ok show ?thesis
      by (simp add: fc payload_item_def readTarEntryBody_def maxBundleEntryBytes_def validateBundleEntrySize_def read_limited_def)
  next
    case False
    with Cons clean show ?thesis by (auto simp: fc payload_item_def)
  qed
qed simp

lemma prepared_payload:
  "prepareBundleFilePayload codec env i f = Inr g \<Longrightarrow> \<exists>sha. g = f\<lparr>bf_SHA256 := sha\<rparr>"
  by (auto simp: prepareBundleFilePayload_def split: option.splits if_splits prod.splits)

lemma written_payload:
  "writePreparedBundleFile codec env f = Inr item \<Longrightarrow>
   \<exists>c. item = payload_item (index_file f, c) \<and> verified codec (index_file f) c \<and> we_write_open env f = Some (bf_Size f, c, False)"
  by (auto simp: writePreparedBundleFile_def payload_item_def index_file_def verified_def split: option.splits if_splits prod.splits)

text \<open>What a successful write publishes.\<close>

lemma writeWithLimits_parts:
  assumes "writeWithLimits codec env options limits = Inr (summary, items)"
  obtains payloads body cs where
    "marshalIndex codec limits (buildIndex payloads (wo_Now options)) = Inr body"
    "items = TarEntry \<lparr> th_Name = IndexPath, th_Reg = True, th_Size = int (length body) \<rparr> (body, False) #
       map payload_item (zip (map index_file payloads) cs)"
    "length cs = length payloads" "\<forall>(f, c)\<in>set (zip payloads cs). verified codec (index_file f) c \<and>
       we_write_open env f = Some (bf_Size f, c, False)"
    "distinct (map bf_Path payloads)" "bf_Path ` set payloads = clean_names (wo_Files options)"
    "int (length payloads) \<le> bl_files limits" "\<forall>f\<in>set payloads. bf_Size f \<le> bl_fileBytes limits"
    "fits (newBudget limits) (map bf_Size payloads)"
proof -
  obtain root0 files payloads n body items' where
    files: "normalizeFiles env root0 (wo_Files options) = Inr files" "validateBundleFiles files limits = None"
    and prep: "prepareBundleFilePayloads codec env files = Inr (payloads, n)"
    and body: "marshalIndex codec limits (buildIndex payloads (wo_Now options)) = Inr body"
    and items: "items = TarEntry \<lparr> th_Name = IndexPath, th_Reg = True, th_Size = int (length body) \<rparr> (body, False) # items'"
    and wr: "writePreparedBundleFiles codec env payloads = Inr items'"
    using assms by (auto simp: writeWithLimits_def normalizeWriteInputs_def writeBundleIndex_def
        split: sum.splits prod.splits option.splits)
  have "list_all2 (\<lambda>(i, f) g. prepareBundleFilePayload codec env i f = Inr g) (enumerate 0 files) payloads"
  proof -
    let ?g = "\<lambda>(i, f). prepareBundleFilePayload codec env i f"
    have "(\<lambda>acc (i, f). case prepareBundleFilePayload codec env i f of Inl e \<Rightarrow> Inl e | Inr p \<Rightarrow> Inr (acc @ [p])) =
      (\<lambda>acc x. case ?g x of Inl e \<Rightarrow> Inl e | Inr y \<Rightarrow> Inr (acc @ [y]))"
      by (auto simp: fun_eq_iff)
    then have "list_all2 (\<lambda>x z. ?g x = Inr z) (enumerate 0 files) payloads"
      using prep run_all_collect [of ?g "[]" "enumerate 0 files" payloads]
      by (auto simp: prepareBundleFilePayloads_def split: sum.splits)
    then show ?thesis by (rule list_all2_mono) auto
  qed
  then have same: "list_all2 (\<lambda>f g. \<exists>sha. g = f\<lparr>bf_SHA256 := sha\<rparr>) files payloads"
    by (rule list_all2_enumerate) (rule prepared_payload)
  have maps: "map bf_Path payloads = map bf_Path files" "map bf_Size payloads = map bf_Size files"
    using same by (induction files payloads rule: list_all2_induct) auto
  have "list_all2 (\<lambda>(i, f) item. writePreparedBundleFile codec env f = Inr item) (enumerate 0 payloads) items'"
  proof -
    let ?g = "\<lambda>(i, f). if \<not> we_write_live env i then Inl BundleCanceled else writePreparedBundleFile codec env f"
    have "(\<lambda>items (i, f).
       if \<not> we_write_live env i then Inl BundleCanceled
       else (case writePreparedBundleFile codec env f of Inl e \<Rightarrow> Inl e | Inr item \<Rightarrow> Inr (items @ [item]))) =
      (\<lambda>acc x. case ?g x of Inl e \<Rightarrow> Inl e | Inr y \<Rightarrow> Inr (acc @ [y]))"
      by (auto simp: fun_eq_iff)
    then have "list_all2 (\<lambda>x z. ?g x = Inr z) (enumerate 0 payloads) items'"
      using wr run_all_collect [of ?g "[]" "enumerate 0 payloads" items'] by (simp add: writePreparedBundleFiles_def)
    then show ?thesis by (rule list_all2_mono) (auto split: if_splits)
  qed
  then have "list_all2 (\<lambda>f item. \<exists>c. item = payload_item (index_file f, c) \<and> verified codec (index_file f) c \<and>
      we_write_open env f = Some (bf_Size f, c, False)) payloads items'"
    by (rule list_all2_enumerate) (rule written_payload)
  then have "\<exists>cs. length cs = length payloads \<and> items' = map payload_item (zip (map index_file payloads) cs) \<and>
      (\<forall>(f, c)\<in>set (zip payloads cs). verified codec (index_file f) c \<and> we_write_open env f = Some (bf_Size f, c, False))"
  proof (induction payloads items' rule: list_all2_induct)
    case (Cons f fs item its)
    then obtain c cs where "item = payload_item (index_file f, c)" "length cs = length fs"
      "its = map payload_item (zip (map index_file fs) cs)" "verified codec (index_file f) c"
      "we_write_open env f = Some (bf_Size f, c, False)"
      "\<forall>(f, c)\<in>set (zip fs cs). verified codec (index_file f) c \<and> we_write_open env f = Some (bf_Size f, c, False)"
      by blast
    then show ?case by (intro exI [of _ "c # cs"]) auto
  qed simp
  then obtain cs where cs: "length cs = length payloads" "items' = map payload_item (zip (map index_file payloads) cs)"
      "\<forall>(f, c)\<in>set (zip payloads cs). verified codec (index_file f) c \<and> we_write_open env f = Some (bf_Size f, c, False)"
    by blast
  have v: "int (length files) \<le> bl_files limits" "(\<forall>f\<in>set files. bf_Size f \<le> bl_fileBytes limits) \<and> fits (newBudget limits) (map bf_Size files)"
    using files(2) budget_run [of "bl_fileBytes limits" "newBudget limits" files]
    by (auto simp: validateBundleFiles_def validateBundleFileCount_def split: sum.splits option.splits if_splits)
  have len: "length payloads = length files" using same by (simp add: list_all2_lengthD)
  note names = normalizeFiles_names [OF files(1)]
  have "bf_Size ` set payloads = bf_Size ` set files" "bf_Path ` set payloads = bf_Path ` set files"
    using maps by (metis set_map)+
  then have sizes: "\<forall>f\<in>set payloads. bf_Size f \<le> bl_fileBytes limits" and ps: "bf_Path ` set payloads = clean_names (wo_Files options)"
    using v(2) names(2) by (auto, metis image_eqI imageE)
  show thesis
    by (rule that [OF body _ cs(1,3) _ ps _ sizes]) (use items cs(2) names(1) maps v len in simp_all)
qed

lemma distinct_zip_paths:
  "length cs = length fs \<Longrightarrow> map (xf_Path \<circ> fst) (zip (map index_file fs) cs) = map bf_Path fs \<and>
   map (xf_Size \<circ> fst) (zip (map index_file fs) cs) = map bf_Size fs"
  by (induction fs cs rule: list_induct2') (auto simp: index_file_def)

text \<open>An archive that holds an index and the payloads \<open>fcs\<close> of its files, each with the size and the hash of the index.\<close>

definition index_header :: "bytes \<Rightarrow> tar_header" where
  "index_header body = \<lparr> th_Name = IndexPath, th_Reg = True, th_Size = int (length body) \<rparr>"

definition archive_holds :: "bundle_codec \<Rightarrow> bundleLimits \<Rightarrow> tar_item list \<Rightarrow> Index \<Rightarrow> (IndexFile \<times> bytes) list \<Rightarrow> bool" where
  "archive_holds codec limits items index fcs \<longleftrightarrow>
     (\<exists>body. items = TarEntry (index_header body) (body, False) # map payload_item fcs \<and>
        unmarshalIndex codec limits body = Inr index \<and> int (length body) \<le> bl_indexBytes limits) \<and>
     validateIndex index limits = None \<and> map fst fcs = xi_Files index \<and> (\<forall>fc\<in>set fcs. payload_ok codec fc)"

lemma read_index_header:
  assumes "int (length body) \<le> bl_indexBytes limits"
  shows "cleanTarEntryPath (index_header body) = Inr IndexPath"
    and "readTarEntryBody (index_header body) (body, False) IndexPath (bl_indexBytes limits) = Inr body"
  using assms
  by (simp_all add: index_header_def cleanTarEntryPath_def IndexPath_def path_clean_def Let_def readTarEntryBody_def
      validateBundleEntrySize_def read_limited_def)

lemma archive_verifies:
  assumes "archive_holds codec limits items index fcs"
  shows "verifyBundleWithLimits codec (\<lambda>_. True) limits items = Inr index"
proof -
  obtain body where items: "items = TarEntry (index_header body) (body, False) # map payload_item fcs"
    and unm: "unmarshalIndex codec limits body = Inr index" "int (length body) \<le> bl_indexBytes limits"
    and valid: "validateIndex index limits = None" and fcs: "xi_Files index = map fst fcs" "\<forall>fc\<in>set fcs. payload_ok codec fc"
    using assms unfolding archive_holds_def by metis
  have d: "distinct (map xf_Path (xi_Files index))" "fits (newBudget limits) (map xf_Size (xi_Files index))"
    using valid by (simp_all add: validateIndex_iff)
  have "payload_loop (\<lambda>_. True) (verifyTarEntry codec) (indexFileMap index) 0 [] (newBudget limits) (map payload_item fcs) () =
      (None, ())"
  proof (rule verify_complete)
    show "\<forall>fc\<in>set fcs. payload_ok codec fc \<and> map_of (indexFileMap index) (xf_Path (fst fc)) = Some (fst fc)"
      using fcs indexFileMap_lookup(1) [OF d(1)] by simp
    show "distinct (map (xf_Path \<circ> fst) fcs)" "fits (newBudget limits) (map (xf_Size \<circ> fst) fcs)"
      using d by (simp_all add: fcs(1))
    show "fst ` set (indexFileMap index) \<subseteq> set [] \<union> (xf_Path \<circ> fst) ` set fcs"
      unfolding indexFileMap_lookup(2) [OF d(1)] fcs(1) by (simp add: image_comp)
  qed simp
  moreover have "readBundleIndex codec limits items = Inr (index, indexFileMap index, map payload_item fcs)"
    by (simp add: readBundleIndex_def items read_index_header [OF unm(2)] unm(1) valid)
  ultimately show ?thesis by (simp add: verifyBundleWithLimits_def verifyBundleEntries_def)
qed

lemma archive_reads:
  assumes a: "archive_holds codec limits items index fcs" and c: "(f, c) \<in> set fcs"
  shows "fst (reader_ReadFile codec items (xf_Path f) \<lparr> rd_limits = limits, rd_index = None \<rparr>) = Inr c"
proof -
  obtain body where items: "items = TarEntry (index_header body) (body, False) # map payload_item fcs"
    and unm: "unmarshalIndex codec limits body = Inr index" "int (length body) \<le> bl_indexBytes limits"
    and valid: "validateIndex index limits = None" and fcs: "xi_Files index = map fst fcs" "\<forall>fc\<in>set fcs. payload_ok codec fc"
    using a unfolding archive_holds_def by metis
  have d: "distinct (map xf_Path (xi_Files index))" and ok: "\<forall>f\<in>set (xi_Files index). entry_ok limits f"
    using valid by (simp_all add: validateIndex_iff)
  have p: "bundle_path (xf_Path f)" "verified codec f c" using fcs(2) c by (auto simp: payload_ok_def)
  have ne: "IndexPath \<noteq> xf_Path f"
    using bundle_path_entry(2) [OF p(1), of "\<lparr> th_Name = xf_Path f, th_Reg = True, th_Size = 0 \<rparr>"] by simp
  have "readBundleEntry limits (xf_Path f) (map payload_item fcs) = Inr c"
  proof (rule read_complete [OF _ _ c])
    show "\<forall>fc\<in>set fcs. payload_ok codec fc \<and> xf_Size (fst fc) \<le> bl_fileBytes limits"
      using fcs ok by (simp add: entry_ok_def)
    show "distinct (map (xf_Path \<circ> fst) fcs)" using d by (simp add: fcs(1))
  qed
  then have read: "readBundleEntry limits (xf_Path f) items = Inr c"
    using ne by (simp add: items read_index_header [OF unm(2)])
  have "reader_Index codec items \<lparr> rd_limits = limits, rd_index = None \<rparr> = (Inr index, \<lparr> rd_limits = limits, rd_index = Some index \<rparr>)"
    by (simp add: reader_Index_def items read_index_header [OF unm(2)] maxBundleEntryBytes_def unm(1) valid)
  moreover have "f \<in> set (xi_Files index)" using c by (force simp: fcs(1))
  then have "map_of (indexFileMap index) (xf_Path f) = Some f" using indexFileMap_lookup(1) [OF d] by simp
  ultimately show ?thesis
    using read p by (simp add: reader_ReadFile_def lookupIndexFile_def bundle_path_def verifyBody_def verifyCopiedPayload_def verified_def)
qed

text \<open>The writer makes such an archive.\<close>

lemma written_archive:
  assumes written: "writeWithLimits codec env options limits = Inr (summary, items)"
    and json: "\<And>index payload. bc_Marshal codec index = Some payload \<Longrightarrow> bc_Unmarshal codec payload = Some index"
    and sha: "\<And>b. length (bc_sha256 codec b) = 32"
    and names: "\<And>p. p \<in> clean_names (wo_Files options) \<Longrightarrow> is_trimmed p"
  obtains index fcs where "archive_holds codec limits items index fcs"
    "xf_Path ` set (xi_Files index) = clean_names (wo_Files options)"
    "\<And>f c. (f, c) \<in> set fcs \<Longrightarrow> \<exists>g. bf_Path g = xf_Path f \<and> we_write_open env g = Some (xf_Size f, c, False)"
proof -
  obtain payloads body cs where
    body: "marshalIndex codec limits (buildIndex payloads (wo_Now options)) = Inr body"
    and items: "items = TarEntry \<lparr> th_Name = IndexPath, th_Reg = True, th_Size = int (length body) \<rparr> (body, False) #
       map payload_item (zip (map index_file payloads) cs)"
    and cs: "length cs = length payloads" "\<forall>(f, c)\<in>set (zip payloads cs). verified codec (index_file f) c \<and>
       we_write_open env f = Some (bf_Size f, c, False)"
    and ps: "distinct (map bf_Path payloads)" "bf_Path ` set payloads = clean_names (wo_Files options)"
    and lim: "int (length payloads) \<le> bl_files limits" "\<forall>f\<in>set payloads. bf_Size f \<le> bl_fileBytes limits"
    "fits (newBudget limits) (map bf_Size payloads)"
    using written by (rule writeWithLimits_parts)
  define index where "index = (buildIndex payloads (wo_Now options))\<lparr>xi_APIVersion := FormatVersion, xi_Kind := ''BundleIndex''\<rparr>"
  define fcs where "fcs = zip (map index_file payloads) cs"
  have files: "xi_Files index = map index_file payloads" by (simp add: index_def buildIndex_def)
  have fst_fcs: "map fst fcs = xi_Files index" by (simp add: fcs_def files cs(1))
  have bp: "bundle_path (bf_Path g)" if "g \<in> set payloads" for g
  proof -
    have "bf_Path g \<in> clean_names (wo_Files options)" using ps(2) that by blast
    with names cleanBundlePath_fixed(1) show ?thesis by (auto simp: clean_names_def bundle_path_def)
  qed
  have fc: "\<exists>g\<in>set payloads. f = index_file g \<and> payload_ok codec (f, c) \<and> we_write_open env g = Some (bf_Size g, c, False)"
    if mem: "(f, c) \<in> set fcs" for f c
  proof -
    have "fcs = map (\<lambda>(x, y). (index_file x, y)) (zip payloads cs)" unfolding fcs_def by (rule zip_map1)
    then obtain g where "f = index_file g" "(g, c) \<in> set (zip payloads cs)" using mem by auto
    with cs(2) bp show ?thesis by (force simp: payload_ok_def index_file_def dest: set_zip_leftD)
  qed
  have "entry_ok limits f" if f: "f \<in> set (xi_Files index)" for f
  proof -
    obtain c where "(f, c) \<in> set fcs" using f unfolding fst_fcs [symmetric] by auto
    from fc [OF this] obtain g where g: "g \<in> set payloads" "f = index_file g" "payload_ok codec (f, c)" by blast
    have "0 \<le> xf_Size f" "hex_decode (xf_SHA256 f) = Some (bc_sha256 codec c)"
      using g(3) hex_decode_encode [of "bc_sha256 codec c"] by (auto simp: payload_ok_def verified_def)
    with g lim(2) bp sha show ?thesis by (auto simp: entry_ok_def validateIndexFileHash_def index_file_def)
  qed
  moreover have "distinct (map xf_Path (xi_Files index))" "map xf_Size (xi_Files index) = map bf_Size payloads"
    using ps(1) by (simp_all add: files comp_def index_file_def)
  ultimately have valid: "validateIndex index limits = None" using lim by (simp add: validateIndex_iff) (simp add: files)
  have "archive_holds codec limits items index fcs"
    unfolding archive_holds_def using unmarshal_marshal [OF body json] valid fst_fcs fc
    by (auto simp: items fcs_def index_header_def index_def)
  moreover have "xf_Path ` set (xi_Files index) = clean_names (wo_Files options)"
    by (simp add: files image_image index_file_def flip: ps(2))
  moreover have "\<exists>g. bf_Path g = xf_Path f \<and> we_write_open env g = Some (xf_Size f, c, False)" if "(f, c) \<in> set fcs" for f c
    using fc [OF that] by (auto simp: index_file_def)
  ultimately show ?thesis by (rule that)
qed


section \<open>References\<close>

lemma list_all_below: "list_all P [0..<k] \<Longrightarrow> n < k \<Longrightarrow> P n"
  by (simp add: list_all_iff)

lemma b64_chars: "n < 64 \<Longrightarrow> b64_val (b64_char n) = Some n \<and> graphic (b64_char n) \<and> b64_char n \<noteq> CHR ''.'' \<and>
    b64_char n \<noteq> CHR 0x0A \<and> b64_char n \<noteq> CHR 0x0D"
proof -
  let ?cs = "''ABCDEFGHIJKLMNOPQRSTUVWXYZabcdefghijklmnopqrstuvwxyz0123456789-_''"
  have v: "map b64_val ?cs = map Some [0..<64]" by code_simp
  have g: "list_all (\<lambda>c. graphic c \<and> c \<noteq> CHR ''.'' \<and> c \<noteq> CHR 0x0A \<and> c \<noteq> CHR 0x0D) ?cs" by code_simp
  have len: "length ?cs = 64" by simp
  assume n: "n < 64"
  have "b64_val (?cs ! n) = map b64_val ?cs ! n" using n len by (simp only: nth_map)
  also have "\<dots> = Some n" using n by (simp only: v nth_map length_upt nth_upt) simp
  finally show ?thesis
    using g n len unfolding b64_char_def list_all_iff by (metis nth_mem)
qed

lemma b64_groups_less: "\<forall>b\<in>set bs. b < 256 \<Longrightarrow> x \<in> set (b64_groups bs) \<Longrightarrow> x < 64"
proof (induction bs rule: b64_groups.induct)
  case (2 a)
  have "a mod 4 < 4" by simp
  with 2 show ?case by auto
next
  case (3 a b)
  have "a mod 4 < 4" "b mod 16 < 16" by simp_all
  with 3 show ?case by auto
next
  case (4 a b c rest)
  have "a mod 4 < 4" "b mod 16 < 16" "c mod 64 < 64" by simp_all
  with 4 show ?case by auto
qed simp

lemma b64_ungroup_groups: "\<forall>b\<in>set bs. b < 256 \<Longrightarrow> b64_ungroup (b64_groups bs) = Some bs"
proof (induction bs rule: b64_groups.induct)
  case (2 a)
  have "a div 4 * 4 + a mod 4 * 16 div 16 = a" by simp
  then show ?case by simp
next
  case (3 a b)
  have "a div 4 * 4 + (a mod 4 * 16 + b div 16) div 16 = a" "(a mod 4 * 16 + b div 16) mod 16 * 16 + b mod 16 * 4 div 4 = b"
    using 3 by auto
  then show ?case by simp
next
  case (4 a b c rest)
  have "a div 4 * 4 + (a mod 4 * 16 + b div 16) div 16 = a"
    "(a mod 4 * 16 + b div 16) mod 16 * 16 + (b mod 16 * 4 + c div 64) div 4 = b"
    "(b mod 16 * 4 + c div 64) mod 4 * 64 + c mod 64 = c"
    using 4 by auto
  with 4 show ?case by simp
qed simp

lemma encodeReferencePart_chars: "c \<in> set (encodeReferencePart s) \<Longrightarrow> graphic c \<and> c \<noteq> CHR ''.'' \<and> c \<noteq> CHR 0x0A \<and> c \<noteq> CHR 0x0D"
  using b64_groups_less [of "map of_char s"] b64_chars by (auto simp: encodeReferencePart_def)

lemma encodeReferencePart_ne: "s \<noteq> [] \<Longrightarrow> encodeReferencePart s \<noteq> []"
  by (cases "map of_char s :: nat list" rule: b64_groups.cases) (auto simp: encodeReferencePart_def)

lemma decode_encode_part: "decodeReferencePart (encodeReferencePart s) = Inr s"
proof -
  let ?ns = "b64_groups (map of_char s)"
  have less: "\<forall>x\<in>set ?ns. x < 64" using b64_groups_less [of "map of_char s"] by auto
  have f: "filter (\<lambda>c. c \<noteq> CHR 0x0A \<and> c \<noteq> CHR 0x0D) (encodeReferencePart s) = encodeReferencePart s"
    using encodeReferencePart_chars by (simp add: filter_id_conv)
  have "map (the \<circ> b64_val) (encodeReferencePart s) = ?ns"
    using less b64_chars by (simp add: encodeReferencePart_def map_idI)
  moreover have "\<not> (\<exists>c\<in>set (encodeReferencePart s). b64_val c = None)"
    using less b64_chars by (auto simp: encodeReferencePart_def)
  moreover have "b64_ungroup ?ns = Some (map of_char s)" by (rule b64_ungroup_groups) auto
  ultimately show ?thesis by (simp add: decodeReferencePart_def f Let_def comp_def)
qed

text \<open>A reference names what it was made of: parsing the reference to a file of a bundle gives the absolute path of the
  bundle and the cleaned path of the file (when that path has no white space at its ends), and it is recognised as a reference.\<close>

theorem ParseReference_NewReference:
  assumes r: "NewReference cwd bundlePath filePath = Inr r"
    and b: "normalizedBundlePath cwd bundlePath = Inr b" and f: "cleanBundlePath filePath = Inr f" and trimmed: "is_trimmed f"
  shows "IsReference r \<and> (b \<noteq> [] \<longrightarrow> ParseReference r = Inr \<lparr> rf_BundlePath = b, rf_FilePath = f \<rparr>)"
proof -
  let ?e = encodeReferencePart
  have r: "r = referencePrefix @ ?e b @ ''.'' @ ?e f" using r b f by (simp add: NewReference_def)
  obtain xs where "xs \<noteq> []" "proper xs" "f = join_with ''/'' xs" using cleanBundlePath_proper(1) [OF f] by blast
  then have fne: "f \<noteq> []" using proper_join_ne [of xs] by auto
  have "last r = last (?e f)" using encodeReferencePart_ne [OF fne] by (simp add: r)
  then have "graphic (last r)" using encodeReferencePart_chars [of "last (?e f)" f] encodeReferencePart_ne [OF fne] by simp
  then have trim: "trim_space r = r"
    by (intro trim_space_id is_trimmed_graphic) (simp_all add: r referencePrefix_def graphic_def [of "CHR ''s''"])
  have "CHR ''.'' \<notin> set (?e b)" using encodeReferencePart_chars by blast
  then have "cut CHR ''.'' (?e b @ ''.'' @ ?e f) = (?e b, ?e f, True)" by (simp add: cut_append)
  moreover have pre: "has_prefix r referencePrefix" by (simp add: r gostr)
  moreover have "trim_prefix r referencePrefix = ?e b @ ''.'' @ ?e f" by (simp only: r trim_prefix_append)
  ultimately have "b \<noteq> [] \<Longrightarrow> ParseReference r = Inr \<lparr> rf_BundlePath = b, rf_FilePath = f \<rparr>"
    using encodeReferencePart_ne [of b] encodeReferencePart_ne [OF fne] cleanBundlePath_fixed(1) [OF f trimmed]
    by (simp add: ParseReference_def trim Let_def decode_encode_part)
  with trim pre show ?thesis by (simp add: IsReference_def)
qed

theorem ParseReference_NewReference_witness:
  "\<exists>r. NewReference ''/srv'' ''site.spack'' ''css/app.css'' = Inr r \<and>
     ParseReference r = Inr \<lparr> rf_BundlePath = ''/srv/site.spack'', rf_FilePath = ''css/app.css'' \<rparr>"
proof -
  have b: "normalizedBundlePath ''/srv'' ''site.spack'' = Inr ''/srv/site.spack''" by code_simp
  have f: "cleanBundlePath ''css/app.css'' = Inr ''css/app.css''" by code_simp
  have t: "is_trimmed ''css/app.css''" by code_simp
  obtain r where r: "NewReference ''/srv'' ''site.spack'' ''css/app.css'' = Inr r" using b f by (simp add: NewReference_def)
  from ParseReference_NewReference [OF r b f t] r show ?thesis by simp
qed

text \<open>A cleaned path may begin with a blank that cleaning it again removes: such a file is bundled, but the index of the
  bundle is then refused.\<close>

theorem cleanBundlePath_blank:
  "cleanBundlePath ''a/../ b.js'' = Inr '' b.js'' \<and> cleanBundlePath '' b.js'' = Inr ''b.js'' \<and>
   validateIndexFile \<lparr> xf_Path = '' b.js'', xf_Kind = [], xf_Size = 1, xf_SHA256 = replicate 64 CHR ''0'', xf_MediaType = [],
     xf_SourceHash = [], xf_ETag = [], xf_AssetPath = [], xf_Encoding = [], xf_Format = [], xf_Width = 0 \<rparr> []
     productionBundleLimits = Inl NotNormalized"
  by code_simp

text \<open>A SHA-256 in upper case passes the validation of the index and never matches.\<close>

theorem uppercase_SHA256_never_matches:
  assumes "CHR ''A'' \<in> set (xf_SHA256 f)"
  shows "\<not> verified codec f b"
proof -
  have "CHR ''A'' \<notin> set (hex_encode d)" for d
  proof -
    have "list_all (\<lambda>d. hex_digit d \<noteq> CHR ''A'') [0..<16]" by code_simp
    then have n: "CHR ''A'' \<noteq> hex_digit d" if "d < 16" for d
      using list_all_below [of "\<lambda>d. hex_digit d \<noteq> CHR ''A''" 16 d] that by auto
    have "(of_char c :: nat) div 16 < 16" for c using nat_of_char_less_256 [of c] by (simp add: less_mult_imp_div_less)
    with n show ?thesis by (auto simp: hex_encode_def)
  qed
  with assms show ?thesis by (metis verified_def)
qed

definition example_index :: Index where
  "example_index = \<lparr> xi_APIVersion = FormatVersion, xi_Kind = ''BundleIndex'',
     xi_CreatedAt = 0, xi_Files = [\<lparr> xf_Path = ''app.js'', xf_Kind = ''asset'', xf_Size = 2,
       xf_SHA256 = concat (replicate 32 ''41''), xf_MediaType = [],
       xf_SourceHash = [], xf_ETag = [], xf_AssetPath = [], xf_Encoding = [], xf_Format = [], xf_Width = 0 \<rparr>] \<rparr>"

text \<open>A codec that encodes one index.\<close>

definition example_codec :: bundle_codec where
  "example_codec = \<lparr> bc_Marshal = (\<lambda>index. if index = example_index then Some ''{}'' else None),
     bc_Unmarshal = (\<lambda>_. Some example_index), bc_sha256 = (\<lambda>_. replicate 32 CHR ''A'') \<rparr>"

definition example_archive :: "tar_item list" where
  "example_archive =
     [TarEntry \<lparr> th_Name = IndexPath, th_Reg = True, th_Size = 15 \<rparr> (AppendUint32 indexMagic 2 @ ''{}'', False),
      TarEntry \<lparr> th_Name = ''app.js'', th_Reg = True, th_Size = 2 \<rparr> (''hi'', False)]"


lemma example_unmarshal:
  "unmarshalIndex example_codec productionBundleLimits (AppendUint32 indexMagic 2 @ ''{}'') = Inr example_index"
proof -
  have "marshalIndex example_codec productionBundleLimits example_index = Inr (AppendUint32 indexMagic 2 @ ''{}'')"
    by (simp add: marshalIndex_def example_codec_def example_index_def Let_def indexMagic_def productionBundleLimits_def checkedUint32_def)
  from unmarshal_marshal(1) [OF this] show ?thesis
    by (simp add: example_codec_def example_index_def)
qed

theorem extractBundleStream_safe_witness:
  "(case extractBundleStream example_codec (\<lambda>_. True) (\<lambda>_. False) ''/out'' productionBundleLimits example_archive of (res, files) \<Rightarrow>
      files = [(''app.js'', ''hi'')] \<and> \<not> isMetadataPath ''app.js'' \<and> res = Inr example_index)"
proof -
  let ?h = "\<lparr> th_Name = ''app.js'', th_Reg = True, th_Size = 2 \<rparr>"
  have rbi: "readBundleIndex example_codec productionBundleLimits example_archive =
      Inr (example_index, [(''app.js'', hd (xi_Files example_index))], [TarEntry ?h (''hi'', False)])"
  proof -
    have "cleanTarEntryPath \<lparr> th_Name = IndexPath, th_Reg = True, th_Size = 15 \<rparr> = Inr IndexPath" by code_simp
    moreover have "readTarEntryBody \<lparr> th_Name = IndexPath, th_Reg = True, th_Size = 15 \<rparr> (AppendUint32 indexMagic 2 @ ''{}'', False)
        IndexPath (bl_indexBytes productionBundleLimits) = Inr (AppendUint32 indexMagic 2 @ ''{}'')"
      by (simp add: readTarEntryBody_def read_limited_def validateBundleEntrySize_def productionBundleLimits_def
          AppendUint32_def indexMagic_def)
    moreover have "validateIndex example_index productionBundleLimits = None" by code_simp
    moreover have "indexFileMap example_index = [(''app.js'', hd (xi_Files example_index))]" by code_simp
    ultimately show ?thesis by (simp add: readBundleIndex_def example_archive_def example_unmarshal)
  qed
  have "extractBundleEntries example_codec (\<lambda>_. True) (\<lambda>_. False) ''/out'' [(''app.js'', hd (xi_Files example_index))]
      productionBundleLimits [TarEntry ?h (''hi'', False)] = (None, [(''app.js'', ''hi'')])" by code_simp
  with rbi have e: "extractBundleStream example_codec (\<lambda>_. True) (\<lambda>_. False) ''/out'' productionBundleLimits example_archive =
      (Inr example_index, [(''app.js'', ''hi'')])"
    by (simp add: extractBundleStream_def)
  from extractBundleStream_safe [OF e] e show ?thesis by simp
qed

definition example_write_env :: write_env where
  "example_write_env = \<lparr> we_cwd = ''/'', we_lstat = (\<lambda>p. if p = ''/site'' then Some (RootDir, 0)
       else if p = ''/site/app.js'' then Some (RootOther, 2) else None),
     we_hash_open = (\<lambda>_. Some (2, ''hi'', False)), we_write_open = (\<lambda>_. Some (2, ''hi'', False)),
     we_hash_live = (\<lambda>_. True), we_write_live = (\<lambda>_. True) \<rparr>"

definition example_options :: WriteOptions where
  "example_options = \<lparr> wo_Output = ''out.spack'', wo_Root = ''/site'', wo_Files = [\<lparr> bf_Path = ''app.js'', bf_FullPath = ''/site/app.js'',
     bf_Kind = ''asset'', bf_Size = 0, bf_SHA256 = [], bf_MediaType = [], bf_SourceHash = [], bf_ETag = [], bf_AssetPath = [],
     bf_Encoding = [], bf_Format = [], bf_Width = 0, bf_AllowExternal = False, bf_root = [], bf_rootRelativePath = [] \<rparr>], wo_Now = 0 \<rparr>"



definition example_file0 :: BundleFile where
  "example_file0 = (hd (wo_Files example_options))\<lparr>bf_Size := 2, bf_root := ''/site'', bf_rootRelativePath := ''app.js''\<rparr>"

lemma example_write:
  "\<exists>summary items. writeWithLimits example_codec example_write_env example_options productionBundleLimits = Inr (summary, items)"
proof -
  let ?f = "example_file0\<lparr>bf_SHA256 := concat (replicate 32 ''41'')\<rparr>"
  have "normalizeWriteInputs example_write_env example_options productionBundleLimits = Inr (''/out.spack'', [example_file0])" by code_simp
  moreover have "prepareBundleFilePayloads example_codec example_write_env [example_file0] = Inr ([?f], 2)" by code_simp
  moreover have "marshalIndex example_codec productionBundleLimits (buildIndex [?f] (wo_Now example_options)) = Inr (AppendUint32 indexMagic 2 @ ''{}'')"
    by (simp add: marshalIndex_def example_codec_def example_index_def Let_def indexMagic_def productionBundleLimits_def checkedUint32_def
        buildIndex_def index_file_def example_file0_def example_options_def)
  moreover have "Option.is_none (case writePreparedBundleFiles example_codec example_write_env [?f] of Inl e \<Rightarrow> Some e | Inr _ \<Rightarrow> None)" by code_simp
  then obtain items where "writePreparedBundleFiles example_codec example_write_env [?f] = Inr items"
    by (auto simp: Option.is_none_def split: sum.splits)
  ultimately show ?thesis by (simp add: writeWithLimits_def writeBundleIndex_def)
qed


end
