(* ===== verification/HintService.thy ===== *)
theory HintService
  imports Config Media VariantIndex
begin

text \<open>
  The preload hints of HTML assets (\<open>internal/server/resource_hints.go\<close>, \<open>resource_hints_helpers.go\<close>): which tags give a
  hint, how a hint is rendered as a \<open>Link\<close> value, the limits on their number and bytes, and the cache of the hints by asset.

  The HTML tokenizer is a parameter: an open file gives the tokens of its first bytes and whether tokenizing then fails.
  Of \<open>url.Parse\<close> the scheme is defined; which other URLs it refuses is a parameter.
\<close>

section \<open>Hints of tags\<close>

record resourceHint =
  h_url :: string
  h_rel :: string
  h_as :: string
  h_crossorigin :: string

datatype html_token = StartTag string "(string \<times> string) list" | OtherToken

definition htmlTagAttrs :: "(string \<times> string) list \<Rightarrow> (string \<times> string) list" where
  "htmlTagAttrs attrs = foldl (\<lambda>m (k, v). AList.update (to_lower k) v m) [] attrs"

definition attr :: "(string \<times> string) list \<Rightarrow> string \<Rightarrow> string" where
  "attr attrs k = (case map_of attrs k of None \<Rightarrow> [] | Some v \<Rightarrow> v)"

text \<open>The scheme \<open>url.Parse\<close> finds before the fragment; absent where it is an error.\<close>

fun scheme_scan :: "nat \<Rightarrow> string \<Rightarrow> string \<Rightarrow> string option" where
  "scheme_scan i seen [] = Some []"
| "scheme_scan i seen (c # s) =
     (if list_all (\<lambda>k. CHR ''a'' \<le> k \<and> k \<le> CHR ''z'') (to_lower [c]) then scheme_scan (Suc i) (seen @ [c]) s
      else if c \<in> set ''0123456789+-.''
      then (if i = 0 then Some [] else scheme_scan (Suc i) (seen @ [c]) s)
      else if c = CHR '':'' then (if i = 0 then None else Some seen)
      else Some [])"

definition url_scheme :: "string \<Rightarrow> string option" where
  "url_scheme rawURL = (case cut CHR ''#'' rawURL of (u, _, _) \<Rightarrow> map_option to_lower (scheme_scan 0 [] u))"

definition isValidResourceHintURL :: "(string \<Rightarrow> bool) \<Rightarrow> string \<Rightarrow> bool" where
  "isValidResourceHintURL rejects raw =
     (let value = trim_space raw
      in if value = [] \<or> has_prefix value ''#'' then False
         else if (\<exists>c\<in>set value. c \<in> {CHR 0x0D, CHR 0x0A, CHR ''<'', CHR ''>''}) \<or> (\<exists>c\<in>set value. c \<in> {CHR '' '', CHR 0x09}) then False
         else if rejects value then False
         else (case url_scheme value of
                 None \<Rightarrow> False | Some scheme \<Rightarrow> to_lower scheme = [] \<or> to_lower scheme = ''http'' \<or> to_lower scheme = ''https''))"

definition scriptResourceHint :: "(string \<Rightarrow> bool) \<Rightarrow> (string \<times> string) list \<Rightarrow> resourceHint option" where
  "scriptResourceHint rejects attrs =
     (let src = attr attrs ''src''
      in if \<not> isValidResourceHintURL rejects src then None
         else (let scriptType = to_lower (trim_space (attr attrs ''type''))
               in if scriptType = ''module''
                  then Some \<lparr> h_url = src, h_rel = ''modulepreload'', h_as = [], h_crossorigin = attr attrs ''crossorigin'' \<rparr>
                  else if scriptType = [] \<or> contains_sub scriptType ''javascript''
                  then Some \<lparr> h_url = src, h_rel = ''preload'', h_as = ''script'', h_crossorigin = attr attrs ''crossorigin'' \<rparr>
                  else None))"

text \<open>\<open>strings.Fields\<close>.\<close>

function fields_from :: "string \<Rightarrow> string \<Rightarrow> string list" where
  "fields_from word s =
     (if s = [] then (if word = [] then [] else [word])
      else (case strip_first space_seqs s of
              Some rest \<Rightarrow> (if word = [] then [] else [word]) @ fields_from [] rest
            | None \<Rightarrow> fields_from (word @ [hd s]) (tl s)))"
  by auto
termination
  by (relation "measure (length \<circ> snd)") (auto dest: strip_first_shorter)

declare fields_from.simps [simp del]

definition splitRelValues :: "string \<Rightarrow> string list" where
  "splitRelValues raw = remdups (fields_from [] (to_lower raw))"

definition resourceHintURLPath :: "string \<Rightarrow> string" where
  "resourceHintURLPath rawURL = (let value = fst (cut CHR ''?'' rawURL) in fst (cut CHR ''#'' value))"

definition inferResourceHintAs :: "string \<Rightarrow> string" where
  "inferResourceHintAs rawURL =
     (let ext = to_lower (path_ext (resourceHintURLPath rawURL))
      in if ext \<in> {''.js'', ''.mjs''} then ''script''
         else if ext = ''.css'' then ''style''
         else if ext \<in> {''.woff'', ''.woff2'', ''.ttf'', ''.otf''} then ''font''
         else if ext \<in> {''.jpg'', ''.jpeg'', ''.png'', ''.gif'', ''.webp'', ''.avif'', ''.svg''} then ''image'' else [])"

definition preloadResourceHint :: "string \<Rightarrow> (string \<times> string) list \<Rightarrow> resourceHint option" where
  "preloadResourceHint href attrs =
     (let as0 = to_lower (trim_space (attr attrs ''as'')); as1 = (if as0 = [] then inferResourceHintAs href else as0)
      in if as1 = [] then None
         else (let crossorigin = attr attrs ''crossorigin''
               in Some \<lparr> h_url = href, h_rel = ''preload'', h_as = as1,
                         h_crossorigin = (if as1 = ''font'' \<and> crossorigin = [] then ''anonymous'' else crossorigin) \<rparr>))"

definition linkResourceHint :: "(string \<Rightarrow> bool) \<Rightarrow> (string \<times> string) list \<Rightarrow> resourceHint option" where
  "linkResourceHint rejects attrs =
     (let href = attr attrs ''href''; crossorigin = attr attrs ''crossorigin''
      in if \<not> isValidResourceHintURL rejects href then None
         else (let rel = set (splitRelValues (attr attrs ''rel''))
               in if ''stylesheet'' \<in> rel then Some \<lparr> h_url = href, h_rel = ''preload'', h_as = ''style'', h_crossorigin = crossorigin \<rparr>
                  else if ''modulepreload'' \<in> rel then Some \<lparr> h_url = href, h_rel = ''modulepreload'', h_as = [], h_crossorigin = crossorigin \<rparr>
                  else if ''preload'' \<in> rel then preloadResourceHint href attrs
                  else if ''prefetch'' \<in> rel
                  then Some \<lparr> h_url = href, h_rel = ''prefetch'', h_as = attr attrs ''as'', h_crossorigin = crossorigin \<rparr>
                  else if ''preconnect'' \<in> rel then Some \<lparr> h_url = href, h_rel = ''preconnect'', h_as = [], h_crossorigin = crossorigin \<rparr>
                  else if ''dns-prefetch'' \<in> rel then Some \<lparr> h_url = href, h_rel = ''dns-prefetch'', h_as = [], h_crossorigin = [] \<rparr>
                  else None))"

definition resourceHintFromTag :: "(string \<Rightarrow> bool) \<Rightarrow> string \<Rightarrow> (string \<times> string) list \<Rightarrow> resourceHint option" where
  "resourceHintFromTag rejects tag attrs =
     (if to_lower tag = ''script'' then scriptResourceHint rejects attrs
      else if to_lower tag = ''link'' then linkResourceHint rejects attrs else None)"

definition resourceHintCrossoriginHeader :: "string \<Rightarrow> string" where
  "resourceHintCrossoriginHeader crossorigin =
     (let c = to_lower (trim_space crossorigin)
      in if c = [] then [] else if c = ''anonymous'' then ''crossorigin'' else ''crossorigin='' @ crossorigin)"

definition hint_Header :: "(string \<Rightarrow> bool) \<Rightarrow> resourceHint \<Rightarrow> string option" where
  "hint_Header rejects h =
     (if \<not> isValidResourceHintURL rejects (h_url h) \<or> h_rel h = [] then None
      else Some (join_with ''; '' (filter (\<lambda>p. p \<noteq> [])
        [''<'' @ h_url h @ ''>'', ''rel='' @ h_rel h, (if h_as h \<noteq> [] then ''as='' @ h_as h else []),
         resourceHintCrossoriginHeader (h_crossorigin h)])))"

section \<open>The hints of a page\<close>

text \<open>The links so far, in order and without repetition, and the bytes of the header they make; the result tells whether
  to go on.\<close>

definition appendResourceHint ::
    "(string \<Rightarrow> bool) \<Rightarrow> ResourceHints \<Rightarrow> resourceHint \<Rightarrow> string list \<times> int \<Rightarrow> bool \<times> string list \<times> int" where
  "appendResourceHint rejects cfg hint st =
     (case st of (links, headerBytes) \<Rightarrow>
        (case hint_Header rejects hint of
           None \<Rightarrow> (True, st)
         | Some header \<Rightarrow>
             if header \<in> set links then (True, st)
             else if int (length links) \<ge> LinkLimit cfg then (False, st)
             else (let nextBytes = headerBytes + int (length header) + (if links \<noteq> [] then 2 else 0)
                   in if nextBytes > HeaderByteLimit cfg then (False, st) else (True, links @ [header], nextBytes))))"

definition consumeStartTagResourceHint ::
    "(string \<Rightarrow> bool) \<Rightarrow> ResourceHints \<Rightarrow> string \<Rightarrow> (string \<times> string) list \<Rightarrow> string list \<times> int \<Rightarrow> bool \<times> string list \<times> int" where
  "consumeStartTagResourceHint rejects cfg name attrs st =
     (case resourceHintFromTag rejects name (htmlTagAttrs attrs) of
        None \<Rightarrow> (True, st) | Some hint \<Rightarrow> appendResourceHint rejects cfg hint st)"

fun collect_tokens :: "(string \<Rightarrow> bool) \<Rightarrow> ResourceHints \<Rightarrow> html_token list \<Rightarrow> bool \<Rightarrow> string list \<times> int \<Rightarrow> string list \<times> bool" where
  "collect_tokens rejects cfg [] failed st = (fst st, failed)"
| "collect_tokens rejects cfg (OtherToken # ts) failed st = collect_tokens rejects cfg ts failed st"
| "collect_tokens rejects cfg (StartTag name attrs # ts) failed st =
     (case consumeStartTagResourceHint rejects cfg name attrs st of
        (False, st') \<Rightarrow> (fst st', False) | (True, st') \<Rightarrow> collect_tokens rejects cfg ts failed st')"

definition collectResourceHintsFromHTML ::
    "(string \<Rightarrow> bool) \<Rightarrow> ResourceHints \<Rightarrow> html_token list \<times> bool \<Rightarrow> string list \<times> bool" where
  "collectResourceHintsFromHTML rejects cfg doc = collect_tokens rejects cfg (fst doc) (snd doc) ([], 0)"

text \<open>Absent links are those of a file that cannot be opened.\<close>

definition parseHTMLResourceHints ::
    "(string \<Rightarrow> bool) \<Rightarrow> (string \<Rightarrow> (html_token list \<times> bool) option) \<Rightarrow> string \<Rightarrow> ResourceHints \<Rightarrow> string list option \<times> bool" where
  "parseHTMLResourceHints rejects open_file filePath cfg =
     (case open_file (path_clean filePath) of
        None \<Rightarrow> (None, True)
      | Some doc \<Rightarrow> (case collectResourceHintsFromHTML rejects cfg doc of (links, failed) \<Rightarrow> (Some links, failed)))"

section \<open>The service\<close>

record resourceHintCacheEntry =
  ce_links :: "string list option"
  ce_header :: string

definition resourceHintHeader :: "string list option \<Rightarrow> string" where
  "resourceHintHeader links = (case links of None \<Rightarrow> [] | Some ls \<Rightarrow> if ls = [] then [] else join_with '', '' ls)"

definition isResourceHintHTML :: "string \<Rightarrow> bool" where
  "isResourceHintHTML mediaType =
     (let normalized = NormalizeMediaType mediaType in has_prefix normalized ''text/html'' \<or> contains_sub normalized ''application/xhtml'')"

definition resourceHintCacheKey :: "Asset \<Rightarrow> string" where
  "resourceHintCacheKey a =
     (let sfx = (if trim_space (a_SourceHash a) \<noteq> [] then trim_space (a_SourceHash a) else trim_space (a_ETag a))
      in if sfx = [] then a_FullPath a else a_FullPath a @ ''|'' @ sfx)"

type_synonym hint_cache = "(string \<times> resourceHintCacheEntry) list"

definition hint_Entry ::
    "(string \<Rightarrow> bool) \<Rightarrow> (string \<Rightarrow> (html_token list \<times> bool) option) \<Rightarrow> ResourceHints \<Rightarrow> Asset option \<Rightarrow> hint_cache \<Rightarrow>
     resourceHintCacheEntry option \<times> hint_cache" where
  "hint_Entry rejects open_file cfg result cache =
     (case result of
        None \<Rightarrow> (None, cache)
      | Some a \<Rightarrow>
          if \<not> hints_Enabled cfg \<or> \<not> isResourceHintHTML (a_MediaType a) then (None, cache)
          else (let key = resourceHintCacheKey a
                in case map_of cache key of
                     Some cached \<Rightarrow> (Some cached, cache)
                   | None \<Rightarrow>
                       (let links = fst (parseHTMLResourceHints rejects open_file (a_FullPath a) cfg);
                            entry = \<lparr> ce_links = links, ce_header = resourceHintHeader links \<rparr>
                        in (Some entry, AList.update key entry cache))))"

definition Links ::
    "(string \<Rightarrow> bool) \<Rightarrow> (string \<Rightarrow> (html_token list \<times> bool) option) \<Rightarrow> ResourceHints \<Rightarrow> Asset option \<Rightarrow> hint_cache \<Rightarrow>
     string list option \<times> hint_cache" where
  "Links rejects open_file cfg result cache =
     (case hint_Entry rejects open_file cfg result cache of
        (None, c) \<Rightarrow> (None, c) | (Some entry, c) \<Rightarrow> (ce_links entry, c))"

definition EarlyHintsEnabled :: "ResourceHints \<Rightarrow> bool" where
  "EarlyHintsEnabled cfg \<longleftrightarrow> hints_Enabled cfg \<and> rh_EarlyHints cfg"

section \<open>The limits hold\<close>

lemma length_join: "length (join_with sep xs) = (\<Sum>x\<leftarrow>xs. length x) + (length xs - 1) * length sep"
proof (induction xs)
  case (Cons x xs)
  then show ?case by (cases xs) simp_all
qed simp

text \<open>What the links of a page keep: their limits, and the bytes counted are those of the header.\<close>

definition links_ok :: "ResourceHints \<Rightarrow> string list \<times> int \<Rightarrow> bool" where
  "links_ok cfg st \<longleftrightarrow> (fst st = [] \<or> int (length (fst st)) \<le> LinkLimit cfg \<and> snd st \<le> HeaderByteLimit cfg) \<and>
     snd st = int (length (join_with '', '' (fst st))) \<and> distinct (fst st)"

lemma appendResourceHint_ok:
  "links_ok cfg st \<Longrightarrow> appendResourceHint rejects cfg h st = (b, st') \<Longrightarrow> links_ok cfg st'"
proof -
  assume ok: "links_ok cfg st" and app: "appendResourceHint rejects cfg h st = (b, st')"
  obtain links n where st: "st = (links, n)" by fastforce
  consider "st' = st" | header where "st' = (links @ [header], n + int (length header) + (if links \<noteq> [] then 2 else 0))"
    "header \<notin> set links" "int (length links) < LinkLimit cfg" "snd st' \<le> HeaderByteLimit cfg"
    using app by (auto simp: appendResourceHint_def st Let_def split: option.splits if_splits)
  then show ?thesis
  proof cases
    case 2
    with ok st show ?thesis by (cases links) (auto simp: links_ok_def length_join)
  qed (use ok in simp)
qed

lemma collect_tokens_ok: "links_ok cfg st \<Longrightarrow> \<exists>n. links_ok cfg (fst (collect_tokens rejects cfg ts failed st), n)"
proof (induction rejects cfg ts failed st rule: collect_tokens.induct)
  case (1 rejects cfg failed st)
  then show ?case by (intro exI [of _ "snd st"]) simp
next
  case (3 rejects cfg name attrs ts failed st)
  obtain b st' where c: "consumeStartTagResourceHint rejects cfg name attrs st = (b, st')" by (metis surj_pair)
  have ok: "links_ok cfg st'"
    using 3(2) c appendResourceHint_ok by (auto simp: consumeStartTagResourceHint_def split: option.splits)
  show ?case
  proof (cases b)
    case True
    with 3(1) [OF c [symmetric]] c ok show ?thesis by simp
  next
    case False
    with c ok show ?thesis by (intro exI [of _ "snd st'"]) simp
  qed
qed simp

text \<open>C40: the hints of a page never exceed their limits, whatever the page holds: at most the configured number of links, none
  twice, and a \<open>Link\<close> header of at most the configured number of bytes.\<close>

theorem resource_hints_bounded:
  "case fst (collectResourceHintsFromHTML rejects cfg doc) of links \<Rightarrow>
     int (length links) \<le> max 0 (LinkLimit cfg) \<and> int (length (resourceHintHeader (Some links))) \<le> max 0 (HeaderByteLimit cfg) \<and>
     distinct links"
proof -
  have "links_ok cfg ([], 0)" by (simp add: links_ok_def)
  from collect_tokens_ok [OF this, of rejects "fst doc" "snd doc"] obtain n where
    "links_ok cfg (fst (collectResourceHintsFromHTML rejects cfg doc), n)" by (auto simp: collectResourceHintsFromHTML_def)
  then show ?thesis by (auto simp: links_ok_def resourceHintHeader_def)
qed

text \<open>The check for line breaks sees the trimmed URL, the header has it untrimmed: a page can put a line break into the header.\<close>

theorem hint_header_line_break:
  "resourceHintFromTag (\<lambda>_. False) ''script'' (htmlTagAttrs [(''src'', ''/a.js'' @ [CHR 0x0D, CHR 0x0A])]) =
     Some \<lparr> h_url = ''/a.js'' @ [CHR 0x0D, CHR 0x0A], h_rel = ''preload'', h_as = ''script'', h_crossorigin = [] \<rparr> \<and>
   hint_Header (\<lambda>_. False) \<lparr> h_url = ''/a.js'' @ [CHR 0x0D, CHR 0x0A], h_rel = ''preload'', h_as = ''script'', h_crossorigin = [] \<rparr> =
     Some (''</a.js'' @ [CHR 0x0D, CHR 0x0A] @ ''>; rel=preload; as=script'')"
  by code_simp

text \<open>A page that could not be opened once has no hints from then on: the failure is cached under the hash of the page.\<close>

theorem hint_failure_cached:
  assumes "hints_Enabled cfg" "isResourceHintHTML (a_MediaType a)" "map_of cache (resourceHintCacheKey a) = None"
  shows "fst (hint_Entry rejects later cfg (Some a) (snd (hint_Entry rejects (\<lambda>_. None) cfg (Some a) cache))) =
    Some \<lparr> ce_links = None, ce_header = [] \<rparr>"
  using assms by (simp add: hint_Entry_def Let_def parseHTMLResourceHints_def resourceHintHeader_def update_conv')

theorem hint_failure_cached_witness:
  "\<exists>a cfg. fst (hint_Entry (\<lambda>_. False) (\<lambda>_. Some ([], False)) cfg (Some a) (snd (hint_Entry (\<lambda>_. False) (\<lambda>_. None) cfg (Some a) []))) =
    Some \<lparr> ce_links = None, ce_header = [] \<rparr>"
proof -
  let ?a = "\<lparr> a_Path = ''index.html'', a_FullPath = ''/srv/index.html'', a_Size = 9, a_MediaType = ''text/html'', a_SourceHash = ''h'',
    a_ETag = [], a_Metadata = Map.empty \<rparr>"
  have "isResourceHintHTML ''text/html''" by code_simp
  then have html: "isResourceHintHTML (a_MediaType ?a)" by simp
  obtain cfg where "hints_Enabled cfg"
  proof
    show "hints_Enabled \<lparr> rh_Enable = True, rh_EarlyHints = False, rh_MaxLinks = 8, rh_MaxHeaderBytes = 1024 \<rparr>"
      by (simp add: hints_Enabled_def LinkLimit_def HeaderByteLimit_def)
  qed
  from hint_failure_cached [OF this html, of "[]"] show ?thesis by auto
qed

end
