(* ===== verification/LocalSource.thy ===== *)
theory LocalSource
  imports SpackBundle SourceCatalog
begin

text \<open>
  \<open>internal/source\<close>: the directory or extracted bundle the assets come from (\<open>resolver.go\<close>, \<open>factory.go\<close>,
  \<open>localfs*.go\<close>), on a file system that anybody may change between two calls.

  The operating system is a parameter: \<open>source_os\<close> says what the call made at a moment answers, and every call takes
  one moment, so whatever happens between two calls is covered.  A file is known by its identity, which
  \<open>os.SameFile\<close> compares.  The state has the moment, the handles that are open, and for every closed source what
  closing it returned.  The resources of a source are identified by the handle of its root.  The walk of a directory,
  the extraction of a bundle and the reading of its index are parameters as well.  Paths are those of Unix, where
  \<open>prepareLocalFSRoot\<close> does nothing.  Finalizers, locks and logs are left out: the lock of a source makes each use of
  the root happen before or after its close.
\<close>

section \<open>The operating system\<close>

datatype source_error =
  FileNotExist | SystemError | ErrSymlinkNotAllowed | ErrSourceRootReplaced | SourceNotDirectory | SourceIsDirectory | SourceNotRegular |
  SourceEscaped | InvalidSourcePath | SourceClosed | SourceNil | RootRequired | BadAssetsRoot | BadIndexPath string | BundleFailed |
  SourceContextNil | CloseFailed

datatype file_kind = RegularFile | DirectoryFile | SymlinkFile | SpecialFile

record file_info =
  fi_id :: nat
  fi_kind :: file_kind
  fi_size :: int
  fi_modtime :: time

record source_os =
  so_cwd :: string
  so_lstat :: "nat \<Rightarrow> string \<Rightarrow> source_error + file_info"
  so_open_root :: "nat \<Rightarrow> string \<Rightarrow> source_error option"
  so_root_stat :: "nat \<Rightarrow> nat \<Rightarrow> source_error + file_info"
  so_root_lstat :: "nat \<Rightarrow> nat \<Rightarrow> string \<Rightarrow> source_error + file_info"
  so_root_open :: "nat \<Rightarrow> nat \<Rightarrow> string \<Rightarrow> source_error option"
  so_fstat :: "nat \<Rightarrow> nat \<Rightarrow> source_error + file_info"
  so_read :: "nat \<Rightarrow> nat \<Rightarrow> source_error + bytes"
  so_close :: "nat \<Rightarrow> nat \<Rightarrow> source_error option"
  so_walk :: "nat \<Rightarrow> string \<Rightarrow> (string \<times> file_kind \<times> (source_error + file_info)) list \<times> source_error option"
  so_extract :: "nat \<Rightarrow> string \<Rightarrow> source_error + string \<times> Index"
  so_bundle_index :: "nat \<Rightarrow> string \<Rightarrow> source_error + Index"
  so_discard :: "nat \<Rightarrow> string \<Rightarrow> source_error option"

record source_world =
  sw_now :: nat
  sw_handles :: "nat list"
  sw_closed :: "nat \<rightharpoonup> source_error list"

type_synonym 'a io = "source_world \<Rightarrow> (source_error + 'a) \<times> source_world"

definition give :: "'a \<Rightarrow> 'a io" where "give x = (\<lambda>w. (Inr x, w))"

definition fail :: "source_error \<Rightarrow> 'a io" where "fail e = (\<lambda>w. (Inl e, w))"

definition after :: "'a io \<Rightarrow> ('a \<Rightarrow> 'b io) \<Rightarrow> 'b io" where
  "after m f = (\<lambda>w. case m w of (Inl e, w') \<Rightarrow> (Inl e, w') | (Inr x, w') \<Rightarrow> f x w')"

text \<open>A clean-up that runs only when the rest fails.\<close>

definition or_else :: "'a io \<Rightarrow> unit io \<Rightarrow> 'a io" where
  "or_else m undo = (\<lambda>w. case m w of (Inl e, w') \<Rightarrow> (Inl e, snd (undo w')) | (Inr x, w') \<Rightarrow> (Inr x, w'))"

definition unless_error :: "source_error option \<Rightarrow> unit io" where
  "unless_error e = (case e of None \<Rightarrow> give () | Some e \<Rightarrow> fail e)"

definition ask :: "(nat \<Rightarrow> source_error + 'a) \<Rightarrow> 'a io" where
  "ask f = (\<lambda>w. (f (sw_now w), w\<lparr>sw_now := Suc (sw_now w)\<rparr>))"

text \<open>A handle is named by the moment it was opened.\<close>

definition open_handle :: "(nat \<Rightarrow> source_error option) \<Rightarrow> nat io" where
  "open_handle f = (\<lambda>w. case f (sw_now w) of
     Some e \<Rightarrow> (Inl e, w\<lparr>sw_now := Suc (sw_now w)\<rparr>)
   | None \<Rightarrow> (Inr (sw_now w), w\<lparr>sw_now := Suc (sw_now w), sw_handles := sw_now w # sw_handles w\<rparr>))"

definition close_handle :: "source_os \<Rightarrow> nat \<Rightarrow> source_world \<Rightarrow> source_error option \<times> source_world" where
  "close_handle os h w = (so_close os (sw_now w) h, w\<lparr>sw_now := Suc (sw_now w), sw_handles := remove1 h (sw_handles w)\<rparr>)"

definition discardClose :: "source_os \<Rightarrow> nat \<Rightarrow> unit io" where
  "discardClose os h = (\<lambda>w. (Inr (), snd (close_handle os h w)))"

section \<open>Paths and roots\<close>

definition cleanRelativeAssetPath :: "string \<Rightarrow> string option" where
  "cleanRelativeAssetPath raw =
     (let trimmed = trim_space raw
      in if trimmed = [] \<or> CHR 0x00 \<in> set trimmed \<or> CHR 0x5C \<in> set trimmed \<or> path_is_abs trimmed then None
         else (let cleaned = path_clean trimmed
               in if cleaned = ''.'' \<or> cleaned = ''..'' \<or> has_prefix cleaned ''../'' \<or> HasUnsafePortablePathSegment cleaned
                  then None else Some cleaned))"

definition isSymlink :: "file_info \<Rightarrow> bool" where "isSymlink info \<longleftrightarrow> fi_kind info = SymlinkFile"

definition same_file :: "file_info \<Rightarrow> file_info \<Rightarrow> bool" where "same_file a b \<longleftrightarrow> fi_id a = fi_id b"

fun lstat_rest :: "source_os \<Rightarrow> nat \<Rightarrow> string \<Rightarrow> string list \<Rightarrow> file_info \<Rightarrow> file_info io" where
  "lstat_rest os h currentPath [] info = give info"
| "lstat_rest os h currentPath (segment # segs) _ =
     (let p = (if currentPath = [] then segment else path_join [currentPath, segment])
      in after (ask (\<lambda>t. so_root_lstat os t h p))
           (\<lambda>info. if isSymlink info then fail ErrSymlinkNotAllowed else lstat_rest os h p segs info))"

definition lstatPathWithinRoot :: "source_os \<Rightarrow> nat \<Rightarrow> string \<Rightarrow> file_info io" where
  "lstatPathWithinRoot os h relPath =
     lstat_rest os h [] (split_on CHR ''/'' relPath) \<lparr> fi_id = 0, fi_kind = SpecialFile, fi_size = 0, fi_modtime = 0 \<rparr>"

definition validateOpenedDirectoryRoot :: "file_info \<Rightarrow> file_info \<Rightarrow> source_error option" where
  "validateOpenedDirectoryRoot openedInfo currentInfo =
     (if isSymlink currentInfo then Some ErrSymlinkNotAllowed
      else if fi_kind currentInfo \<noteq> DirectoryFile then Some SourceNotDirectory
      else if \<not> same_file openedInfo currentInfo then Some ErrSourceRootReplaced else None)"

definition validateCurrentLocalFSRoot :: "source_os \<Rightarrow> nat \<Rightarrow> string \<Rightarrow> file_info \<Rightarrow> unit io" where
  "validateCurrentLocalFSRoot os h base rootInfo =
     after (ask (\<lambda>t. so_root_stat os t h)) (\<lambda>openedInfo.
     after (ask (\<lambda>t. so_lstat os t base)) (\<lambda>currentInfo.
     after (unless_error (validateOpenedDirectoryRoot openedInfo currentInfo)) (\<lambda>_.
     if same_file rootInfo currentInfo then give () else fail ErrSourceRootReplaced)))"

section \<open>A source\<close>

record bundleSource =
  bs_path :: string
  bs_root :: string
  bs_index :: Index
  bs_entries :: "(string \<times> IndexFile) list"

record LocalFS =
  lf_root :: string
  lf_rootInfo :: file_info
  lf_dir :: nat
  lf_bundle :: "bundleSource option"

definition newBundleSource :: "string \<Rightarrow> string \<Rightarrow> Index \<Rightarrow> source_error + bundleSource" where
  "newBundleSource bundlePath extractedRoot index =
     (case run_all (\<lambda>m f. case cleanRelativeAssetPath (xf_Path f) of
                            None \<Rightarrow> Inl (BadIndexPath (xf_Path f))
                          | Some p \<Rightarrow> Inr (AList.update p (f\<lparr>xf_Path := p\<rparr>) m)) [] (xi_Files index) of
        Inl e \<Rightarrow> Inl e
      | Inr entries \<Rightarrow> Inr \<lparr> bs_path = bundlePath, bs_root = extractedRoot, bs_index = index, bs_entries = entries \<rparr>)"

definition bundleFile :: "bundleSource \<Rightarrow> IndexFile \<Rightarrow> source_error + SourceFile" where
  "bundleFile b entry =
     (case cleanRelativeAssetPath (xf_Path entry) of
        None \<Rightarrow> Inl (BadIndexPath (xf_Path entry))
      | Some p \<Rightarrow> Inr \<lparr> sf_Path = p, sf_FullPath = path_join [bs_root b, p], sf_Kind = xf_Kind entry, sf_Size = xf_Size entry,
          sf_IsDir = False, sf_ModTime = xi_CreatedAt (bs_index b), sf_MediaType = xf_MediaType entry,
          sf_SourceHash = xf_SourceHash entry, sf_ETag = xf_ETag entry, sf_AssetPath = xf_AssetPath entry,
          sf_Encoding = xf_Encoding entry, sf_Format = xf_Format entry, sf_Width = xf_Width entry \<rparr>)"

definition findBundleFile :: "bundleSource \<Rightarrow> string \<Rightarrow> source_error + SourceFile option" where
  "findBundleFile b relPath =
     (case map_of (bs_entries b) relPath of
        None \<Rightarrow> Inr None | Some entry \<Rightarrow> (case bundleFile b entry of Inl e \<Rightarrow> Inl e | Inr f \<Rightarrow> Inr (Some f)))"

definition useRoot :: "nat \<Rightarrow> (nat \<Rightarrow> 'a io) \<Rightarrow> 'a io" where
  "useRoot r use = (\<lambda>w. if sw_closed w r \<noteq> None then (Inl SourceClosed, w) else use r w)"

text \<open>\<open>localFSResources.close\<close> and \<open>localFSResourceState.close\<close>: the first call closes the root and removes an extracted
  bundle, later ones return what it returned.\<close>

definition close_resources :: "source_os \<Rightarrow> LocalFS \<Rightarrow> source_world \<Rightarrow> source_error list \<times> source_world" where
  "close_resources os s w =
     (case sw_closed w (lf_dir s) of
        Some errs \<Rightarrow> (errs, w)
      | None \<Rightarrow>
          (let (e1, w1) = close_handle os (lf_dir s) w;
               (e2, w2) = (case lf_bundle s of
                             None \<Rightarrow> (None, w1)
                           | Some b \<Rightarrow> (so_discard os (sw_now w1) (bs_root b), w1\<lparr>sw_now := Suc (sw_now w1)\<rparr>));
               errs = List.map_filter id [e1, e2]
           in (errs, w2\<lparr>sw_closed := (sw_closed w2)(lf_dir s \<mapsto> errs)\<rparr>)))"

definition source_Cleanup :: "source_os \<Rightarrow> LocalFS \<Rightarrow> source_world \<Rightarrow> source_error list \<times> source_world" where
  "source_Cleanup os s w = close_resources os s w"

definition source_relativePath :: "source_os \<Rightarrow> LocalFS \<Rightarrow> string \<Rightarrow> source_error + string" where
  "source_relativePath os s fullPath =
     (let absolute = path_abs (so_cwd os) (path_clean (trim_space fullPath));
          rel = path_rel (lf_root s) absolute
      in if rel = ''.'' \<or> path_is_abs rel \<or> rel = ''..'' \<or> has_prefix rel ''../'' then Inl SourceEscaped
         else (case cleanRelativeAssetPath rel of None \<Rightarrow> Inl InvalidSourcePath | Some cleaned \<Rightarrow> Inr cleaned))"

definition validateCurrentRoot :: "source_os \<Rightarrow> LocalFS \<Rightarrow> nat \<Rightarrow> unit io" where
  "validateCurrentRoot os s h = validateCurrentLocalFSRoot os h (lf_root s) (lf_rootInfo s)"

definition lstatRegularFile :: "source_os \<Rightarrow> nat \<Rightarrow> string \<Rightarrow> file_info io" where
  "lstatRegularFile os h relPath =
     after (lstatPathWithinRoot os h relPath) (\<lambda>info.
       if fi_kind info = DirectoryFile then fail SourceIsDirectory
       else if fi_kind info \<noteq> RegularFile then fail SourceNotRegular else give info)"

definition openStableFile :: "source_os \<Rightarrow> nat \<Rightarrow> string \<Rightarrow> (nat \<times> file_info) io" where
  "openStableFile os h relPath =
     after (lstatRegularFile os h relPath) (\<lambda>info.
     after (open_handle (\<lambda>t. so_root_open os t h relPath)) (\<lambda>file.
     or_else
       (after (ask (\<lambda>t. so_fstat os t file)) (\<lambda>openedInfo.
        if fi_kind openedInfo = DirectoryFile then fail SourceIsDirectory
        else after (lstatRegularFile os h relPath) (\<lambda>currentInfo.
          if \<not> same_file info openedInfo \<or> \<not> same_file currentInfo openedInfo then fail ErrSourceRootReplaced
          else give (file, openedInfo))))
       (discardClose os file)))"

definition source_OpenFile :: "source_os \<Rightarrow> LocalFS \<Rightarrow> string \<Rightarrow> (nat \<times> file_info) io" where
  "source_OpenFile os s fullPath =
     (case source_relativePath os s fullPath of
        Inl e \<Rightarrow> fail e
      | Inr relPath \<Rightarrow>
          useRoot (lf_dir s) (\<lambda>h.
            after (validateCurrentRoot os s h) (\<lambda>_.
            after (openStableFile os h relPath) (\<lambda>opened.
            after (or_else (validateCurrentRoot os s h) (discardClose os (fst opened))) (\<lambda>_. give opened)))))"

text \<open>\<open>io.ReadAll\<close> and the close, whose error counts only when reading did not fail.\<close>

definition read_all :: "source_os \<Rightarrow> (bytes \<Rightarrow> bytes) \<Rightarrow> nat \<Rightarrow> bytes io" where
  "read_all os cut_off file = (\<lambda>w.
     case ask (\<lambda>t. so_read os t file) w of
       (body, w1) \<Rightarrow> (case close_handle os file w1 of
         (closeErr, w2) \<Rightarrow> ((case body of Inl e \<Rightarrow> Inl e
                             | Inr b \<Rightarrow> (case closeErr of Some e \<Rightarrow> Inl e | None \<Rightarrow> Inr (cut_off b))), w2)))"

definition source_ReadFile :: "source_os \<Rightarrow> LocalFS \<Rightarrow> string \<Rightarrow> bytes io" where
  "source_ReadFile os s fullPath = after (source_OpenFile os s fullPath) (\<lambda>(file, _). read_all os id file)"

definition readPrefixRelativePath :: "string \<Rightarrow> int \<Rightarrow> string option" where
  "readPrefixRelativePath assetPath maxBytes = (if maxBytes \<le> 0 then None else cleanRelativeAssetPath assetPath)"

definition ReadPrefix :: "source_os \<Rightarrow> LocalFS \<Rightarrow> string \<Rightarrow> int \<Rightarrow> bytes option io" where
  "ReadPrefix os s assetPath maxBytes =
     (case readPrefixRelativePath assetPath maxBytes of
        None \<Rightarrow> give None
      | Some relPath \<Rightarrow>
          (\<lambda>w. case source_OpenFile os s (path_join [lf_root s, relPath]) w of
                 (Inl FileNotExist, w') \<Rightarrow> (Inr None, w')
               | (Inl e, w') \<Rightarrow> (Inl e, w')
               | (Inr (file, _), w') \<Rightarrow> after (read_all os (take (nat maxBytes)) file) (\<lambda>body. give (Some body)) w'))"

text \<open>What \<open>TrustedReadOnlyPath\<close> answers for a trusted file: the root it is read under, and its path there.\<close>

definition TrustedReadOnlyPath :: "source_os \<Rightarrow> LocalFS \<Rightarrow> string \<Rightarrow> (nat \<times> string) option io" where
  "TrustedReadOnlyPath os s fullPath =
     (case lf_bundle s of
        None \<Rightarrow> give None
      | Some b \<Rightarrow>
          (case source_relativePath os s fullPath of
             Inl e \<Rightarrow> fail e
           | Inr relPath \<Rightarrow>
               if map_of (bs_entries b) relPath = None then give None
               else after (useRoot (lf_dir s) (\<lambda>h.
                      after (validateCurrentRoot os s h) (\<lambda>_.
                      after (lstatRegularFile os h relPath) (\<lambda>_. validateCurrentRoot os s h))))
                    (\<lambda>_. give (Some (lf_dir s, relPath)))))"

section \<open>Listing and finding files\<close>

definition validateDirectoryRoot :: "LocalFS \<Rightarrow> file_info \<Rightarrow> source_error option" where
  "validateDirectoryRoot s info =
     (if fi_kind info \<noteq> DirectoryFile then Some SourceNotDirectory
      else if same_file (lf_rootInfo s) info then None else Some ErrSourceRootReplaced)"

definition validateRoot :: "source_os \<Rightarrow> LocalFS \<Rightarrow> unit io" where
  "validateRoot os s =
     after (ask (\<lambda>t. so_lstat os t (lf_root s))) (\<lambda>info.
       if isSymlink info then fail ErrSymlinkNotAllowed else unless_error (validateDirectoryRoot s info))"

definition cleanFastwalkRelativePath :: "string \<Rightarrow> string \<Rightarrow> source_error + string" where
  "cleanFastwalkRelativePath base walkPath =
     (let rel = path_rel base walkPath
      in if rel = ''.'' then Inr ''.''
         else if path_is_abs rel \<or> rel = ''..'' \<or> has_prefix rel ''../'' then Inl SourceEscaped
         else (let cleaned = path_clean rel
               in if cleaned = ''.'' \<or> cleaned = ''..'' \<or> has_prefix cleaned ''../'' then Inl SourceEscaped else Inr cleaned))"

definition plain_file :: "string \<Rightarrow> string \<Rightarrow> file_info \<Rightarrow> bool \<Rightarrow> SourceFile" where
  "plain_file p full info dir =
     \<lparr> sf_Path = p, sf_FullPath = full, sf_Kind = [], sf_Size = fi_size info, sf_IsDir = dir, sf_ModTime = fi_modtime info,
       sf_MediaType = [], sf_SourceHash = [], sf_ETag = [], sf_AssetPath = [], sf_Encoding = [], sf_Format = [], sf_Width = 0 \<rparr>"

definition buildFastwalkFile :: "string \<Rightarrow> string \<times> file_kind \<times> (source_error + file_info) \<Rightarrow> source_error + SourceFile" where
  "buildFastwalkFile base entry =
     (case entry of (walkPath, kind, info) \<Rightarrow>
        (case cleanFastwalkRelativePath base walkPath of
           Inl e \<Rightarrow> Inl e
         | Inr relPath \<Rightarrow>
             if kind = SymlinkFile then Inl ErrSymlinkNotAllowed
             else (case info of
                     Inl e \<Rightarrow> Inl e
                   | Inr i \<Rightarrow> Inr (plain_file relPath (path_join [base, relPath]) i (kind = DirectoryFile)))))"

definition walkDirectory :: "source_os \<Rightarrow> LocalFS \<Rightarrow> SourceFile list io" where
  "walkDirectory os s =
     after (ask (\<lambda>t. case so_walk os t (lf_root s) of
                       (entries, err) \<Rightarrow>
                         (case run_all (\<lambda>files e. case buildFastwalkFile (lf_root s) e of Inl e \<Rightarrow> Inl e | Inr f \<Rightarrow> Inr (files @ [f]))
                                 [] entries of
                            Inl e \<Rightarrow> Inl e
                          | Inr files \<Rightarrow> (case err of Some e \<Rightarrow> Inl e | None \<Rightarrow> Inr files)))) (\<lambda>files.
     after (validateRoot os s) (\<lambda>_. give (sort_key sf_Path files)))"

fun collect_bundle :: "bundleSource \<Rightarrow> IndexFile list \<Rightarrow> SourceFile list \<times> source_error option" where
  "collect_bundle b [] = ([], None)"
| "collect_bundle b (entry # es) =
     (case bundleFile b entry of
        Inl e \<Rightarrow> ([], Some e) | Inr f \<Rightarrow> (case collect_bundle b es of (fs, err) \<Rightarrow> (f # fs, err)))"

text \<open>\<open>Walk\<close>: the files its callback sees, in order, and the error that ends the walk, when the callback returns none.\<close>

definition source_Walk :: "source_os \<Rightarrow> LocalFS \<Rightarrow> (SourceFile list \<times> source_error option) io" where
  "source_Walk os s =
     after (validateRoot os s) (\<lambda>_.
       case lf_bundle s of
         Some b \<Rightarrow> give (collect_bundle b (xi_Files (bs_index b)))
       | None \<Rightarrow> after (walkDirectory os s) (\<lambda>files. give (files, None)))"

definition source_FindFile :: "source_os \<Rightarrow> LocalFS \<Rightarrow> string \<Rightarrow> SourceFile option io" where
  "source_FindFile os s assetPath =
     (case cleanRelativeAssetPath assetPath of
        None \<Rightarrow> give None
      | Some relPath \<Rightarrow>
          after (validateRoot os s) (\<lambda>_.
            case lf_bundle s of
              Some b \<Rightarrow> (case findBundleFile b relPath of Inl e \<Rightarrow> fail e | Inr f \<Rightarrow> give f)
            | None \<Rightarrow>
                (\<lambda>w. case useRoot (lf_dir s) (\<lambda>h. lstatPathWithinRoot os h relPath) w of
                       (Inl FileNotExist, w') \<Rightarrow> (Inr None, w')
                     | (Inl e, w') \<Rightarrow> (Inl e, w')
                     | (Inr info, w') \<Rightarrow>
                         after (validateRoot os s) (\<lambda>_.
                           give (Some (plain_file relPath (path_join [lf_root s, relPath]) info (fi_kind info = DirectoryFile)))) w')))"

section \<open>Opening a source\<close>

definition discard_extracted :: "source_os \<Rightarrow> string \<Rightarrow> unit io" where
  "discard_extracted os r = (\<lambda>w. (Inr (), w\<lparr>sw_now := Suc (sw_now w)\<rparr>))"

text \<open>The handle of the root, and its identity.\<close>

definition resolveLocalFSDirectoryRoot :: "source_os \<Rightarrow> string \<Rightarrow> (nat \<times> file_info) io" where
  "resolveLocalFSDirectoryRoot os base =
     after (open_handle (\<lambda>t. so_open_root os t base)) (\<lambda>h.
     or_else
       (after (ask (\<lambda>t. so_root_stat os t h)) (\<lambda>openedInfo.
        after (ask (\<lambda>t. so_lstat os t base)) (\<lambda>currentInfo.
        after (unless_error (validateOpenedDirectoryRoot openedInfo currentInfo)) (\<lambda>_. give (h, currentInfo)))))
       (discardClose os h))"

definition resolveLocalFSBundleRoot :: "source_os \<Rightarrow> string \<Rightarrow> LocalFS io" where
  "resolveLocalFSBundleRoot os bundle =
     after (ask (\<lambda>t. so_extract os t bundle)) (\<lambda>(extracted, index).
     or_else
       (after (resolveLocalFSDirectoryRoot os extracted) (\<lambda>(h, info).
        case newBundleSource bundle extracted index of
          Inl e \<Rightarrow> after (discardClose os h) (\<lambda>_. fail e)
        | Inr b \<Rightarrow> give \<lparr> lf_root = extracted, lf_rootInfo = info, lf_dir = h, lf_bundle = Some b \<rparr>))
       (discard_extracted os extracted))"

datatype source_type = TypeDirectory | TypeBundle

record BundleMetadata =
  bm_FormatVersion :: string
  bm_IndexKind :: string
  bm_CreatedAt :: time
  bm_FileCount :: int
  bm_AssetCount :: int
  bm_SourceSidecarCount :: int
  bm_CompressedFileCount :: int
  bm_TotalBytes :: int

record Resolved =
  rv_ConfiguredRoot :: string
  rv_Root :: string
  rv_Type :: source_type
  rv_Info :: file_info
  rv_Bundle :: "BundleMetadata option"

definition summarizeBundleMetadata :: "Index \<Rightarrow> BundleMetadata" where
  "summarizeBundleMetadata index =
     (let fs = xi_Files index;
          number = (\<lambda>P. int (length (filter P fs)))
      in \<lparr> bm_FormatVersion = xi_APIVersion index, bm_IndexKind = xi_Kind index, bm_CreatedAt = xi_CreatedAt index,
           bm_FileCount = int (length fs),
           bm_AssetCount = number (\<lambda>f. xf_Kind f = ''asset'' \<or> xf_Kind f = []),
           bm_SourceSidecarCount = number (\<lambda>f. xf_Kind f = ''source_sidecar''),
           bm_CompressedFileCount = number (\<lambda>f. trim_space (xf_Encoding f) \<noteq> []),
           bm_TotalBytes = (\<Sum>f\<leftarrow>fs. xf_Size f) \<rparr>)"

definition source_Resolve :: "source_os \<Rightarrow> string \<Rightarrow> Resolved io" where
  "source_Resolve os base =
     (let configuredRoot = trim_space base
      in if configuredRoot = [] then fail RootRequired
         else let resolvedRoot = path_abs (so_cwd os) (path_clean configuredRoot)
         in after (ask (\<lambda>t. so_lstat os t resolvedRoot)) (\<lambda>info.
              if isSymlink info then fail ErrSymlinkNotAllowed
              else if fi_kind info = DirectoryFile
              then give \<lparr> rv_ConfiguredRoot = configuredRoot, rv_Root = resolvedRoot, rv_Type = TypeDirectory, rv_Info = info, rv_Bundle = None \<rparr>
              else if fi_kind info = RegularFile \<and> IsBundlePath resolvedRoot
              then after (ask (\<lambda>t. so_bundle_index os t resolvedRoot)) (\<lambda>index.
                     give \<lparr> rv_ConfiguredRoot = configuredRoot, rv_Root = resolvedRoot, rv_Type = TypeBundle, rv_Info = info,
                       rv_Bundle = Some (summarizeBundleMetadata index) \<rparr>)
              else fail BadAssetsRoot))"

definition resolveLocalFSResolvedRoot :: "source_os \<Rightarrow> Resolved \<Rightarrow> LocalFS io" where
  "resolveLocalFSResolvedRoot os resolved =
     (case rv_Type resolved of
        TypeDirectory \<Rightarrow>
          after (resolveLocalFSDirectoryRoot os (rv_Root resolved)) (\<lambda>(h, info).
            give \<lparr> lf_root = rv_Root resolved, lf_rootInfo = info, lf_dir = h, lf_bundle = None \<rparr>)
      | TypeBundle \<Rightarrow> resolveLocalFSBundleRoot os (rv_Root resolved))"

definition LocalFSContext :: "source_os \<Rightarrow> bool \<Rightarrow> string option \<Rightarrow> LocalFS io" where
  "LocalFSContext os has_ctx cfg_root =
     (if \<not> has_ctx then fail SourceContextNil
      else case cfg_root of
             None \<Rightarrow> fail RootRequired
           | Some r \<Rightarrow> after (source_Resolve os r) (resolveLocalFSResolvedRoot os))"

definition NewLocalDirectory :: "source_os \<Rightarrow> string \<Rightarrow> LocalFS option io" where
  "NewLocalDirectory os base0 =
     (let base = trim_space base0
      in if base = [] then give None
         else let absolute = path_abs (so_cwd os) (path_clean base)
         in after (ask (\<lambda>t. so_lstat os t absolute)) (\<lambda>info.
              if fi_kind info \<noteq> DirectoryFile \<and> \<not> isSymlink info then give None
              else after (resolveLocalFSDirectoryRoot os absolute) (\<lambda>(h, i).
                     give (Some \<lparr> lf_root = absolute, lf_rootInfo = i, lf_dir = h, lf_bundle = None \<rparr>))))"

definition source_Root :: "LocalFS option \<Rightarrow> string" where
  "source_Root s = (case s of None \<Rightarrow> [] | Some f \<Rightarrow> lf_root f)"

definition bundleIndexBytes :: "Index \<Rightarrow> int" where
  "bundleIndexBytes index = (\<Sum>f\<leftarrow>xi_Files index. xf_Size f)"

record source_Stats =
  ss_Mode :: string
  ss_BundleExtractionFiles :: int
  ss_BundleExtractionBytes :: int

definition source_stats :: "LocalFS option \<Rightarrow> source_Stats" where
  "source_stats s =
     (case s of
        None \<Rightarrow> \<lparr> ss_Mode = ''unknown'', ss_BundleExtractionFiles = 0, ss_BundleExtractionBytes = 0 \<rparr>
      | Some f \<Rightarrow>
          (case lf_bundle f of
             None \<Rightarrow> \<lparr> ss_Mode = ''direct'', ss_BundleExtractionFiles = 0, ss_BundleExtractionBytes = 0 \<rparr>
           | Some b \<Rightarrow> \<lparr> ss_Mode = ''aot'', ss_BundleExtractionFiles = int (length (xi_Files (bs_index b))),
               ss_BundleExtractionBytes = bundleIndexBytes (bs_index b) \<rparr>))"

section \<open>Facts about single calls\<close>

lemma after_Inr: "after m f w = (Inr y, w') \<longleftrightarrow> (\<exists>x v. m w = (Inr x, v) \<and> f x v = (Inr y, w'))"
  by (auto simp: after_def split: prod.splits sum.splits)

lemma or_else_Inr: "or_else m u w = (Inr y, w') \<longleftrightarrow> m w = (Inr y, w')"
  by (auto simp: or_else_def split: prod.splits sum.splits)

lemma ask_Inr: "ask f w = (Inr x, w') \<longleftrightarrow> f (sw_now w) = Inr x \<and> w' = w\<lparr>sw_now := Suc (sw_now w)\<rparr>"
  by (auto simp: ask_def)

lemma open_handle_Inr: "open_handle f w = (Inr h, w') \<longleftrightarrow>
    f (sw_now w) = None \<and> h = sw_now w \<and> w' = w\<lparr>sw_now := Suc h, sw_handles := h # sw_handles w\<rparr>"
  by (auto simp: open_handle_def split: option.splits)

lemma give_Inr: "give x w = (Inr y, w') \<longleftrightarrow> y = x \<and> w' = w"
  by (auto simp: give_def)

lemma fail_Inr: "fail e w = (Inr y, w') \<longleftrightarrow> False"
  by (simp add: fail_def)

lemma unless_error_Inr: "unless_error e w = (Inr u, w') \<longleftrightarrow> e = None \<and> w' = w"
  by (auto simp: unless_error_def give_def fail_def split: option.splits)

lemmas io_Inr = after_Inr or_else_Inr ask_Inr open_handle_Inr give_Inr fail_Inr unless_error_Inr

text \<open>What a call does to the handles: an error leaves them, a success adds those of its result.\<close>

definition opens :: "('a \<Rightarrow> nat list) \<Rightarrow> 'a io \<Rightarrow> bool" where
  "opens h m \<longleftrightarrow> (\<forall>w. sw_closed (snd (m w)) = sw_closed w \<and> sw_now w \<le> sw_now (snd (m w)) \<and>
     sw_handles (snd (m w)) = (case fst (m w) of Inl _ \<Rightarrow> sw_handles w | Inr x \<Rightarrow> h x @ sw_handles w))"

abbreviation keeps :: "'a io \<Rightarrow> bool" where "keeps \<equiv> opens (\<lambda>_. [])"

named_theorems handles

lemma opensI:
  assumes "\<And>w e w'. m w = (Inl e, w') \<Longrightarrow> sw_closed w' = sw_closed w \<and> sw_now w \<le> sw_now w' \<and> sw_handles w' = sw_handles w"
    and "\<And>w x w'. m w = (Inr x, w') \<Longrightarrow> sw_closed w' = sw_closed w \<and> sw_now w \<le> sw_now w' \<and> sw_handles w' = h x @ sw_handles w"
  shows "opens h m"
  unfolding opens_def
proof
  fix w
  obtain r w' where m: "m w = (r, w')" by (cases "m w")
  with assms [of w] show "sw_closed (snd (m w)) = sw_closed w \<and> sw_now w \<le> sw_now (snd (m w)) \<and>
      sw_handles (snd (m w)) = (case fst (m w) of Inl _ \<Rightarrow> sw_handles w | Inr x \<Rightarrow> h x @ sw_handles w)"
    by (cases r) auto
qed

lemma opens_Inl: "opens h m \<Longrightarrow> m w = (Inl e, w') \<Longrightarrow> sw_closed w' = sw_closed w \<and> sw_now w \<le> sw_now w' \<and> sw_handles w' = sw_handles w"
  by (auto simp: opens_def dest!: spec [of _ w])

lemma opens_Inr: "opens h m \<Longrightarrow> m w = (Inr x, w') \<Longrightarrow> sw_closed w' = sw_closed w \<and> sw_now w \<le> sw_now w' \<and> sw_handles w' = h x @ sw_handles w"
  by (auto simp: opens_def dest!: spec [of _ w])

lemma keeps_ask [handles]: "keeps (ask f)" by (simp add: opens_def ask_def split: sum.split)
lemma keeps_give [handles]: "h x = [] \<Longrightarrow> opens h (give x)" by (simp add: opens_def give_def)
lemma opens_fail [handles]: "opens h (fail e)" by (simp add: opens_def fail_def)
lemma keeps_unless [handles]: "keeps (unless_error e)"
  by (auto simp: opens_def unless_error_def give_def fail_def split: option.splits)
lemma opens_open [handles]: "opens (\<lambda>h. [h]) (open_handle f)"
  by (auto simp: opens_def open_handle_def split: option.splits)
lemma keeps_discard_extracted [handles]: "keeps (discard_extracted os r)" by (simp add: opens_def discard_extracted_def)

lemma opens_after [handles]:
  assumes m: "keeps m" and f: "\<And>x. opens h (f x)"
  shows "opens h (after m f)"
proof (rule opensI)
  fix w e w'
  assume "after m f w = (Inl e, w')"
  then consider "m w = (Inl e, w')" | x v where "m w = (Inr x, v)" "f x v = (Inl e, w')"
    by (auto simp: after_def split: prod.splits sum.splits)
  then show "sw_closed w' = sw_closed w \<and> sw_now w \<le> sw_now w' \<and> sw_handles w' = sw_handles w"
  proof cases
    case 1
    with opens_Inl [OF m] show ?thesis by blast
  next
    case 2
    from opens_Inr [OF m 2(1)] opens_Inl [OF f 2(2)] show ?thesis by auto
  qed
next
  fix w y w'
  assume "after m f w = (Inr y, w')"
  then obtain x v where "m w = (Inr x, v)" "f x v = (Inr y, w')" by (auto simp: after_Inr)
  from opens_Inr [OF m this(1)] opens_Inr [OF f this(2)]
  show "sw_closed w' = sw_closed w \<and> sw_now w \<le> sw_now w' \<and> sw_handles w' = h y @ sw_handles w" by auto
qed

text \<open>A handle that is closed again when the rest fails.\<close>

lemma opens_guarded:
  assumes m: "opens (\<lambda>x. [g x]) m" and f: "\<And>x. keeps (f x)"
    and h: "\<And>x v y w'. f x v = (Inr y, w') \<Longrightarrow> h y = [g x]"
  shows "opens h (after m (\<lambda>x. or_else (f x) (discardClose os (g x))))"
proof (rule opensI)
  fix w e w'
  assume "after m (\<lambda>x. or_else (f x) (discardClose os (g x))) w = (Inl e, w')"
  then consider "m w = (Inl e, w')"
    | x v v' where "m w = (Inr x, v)" "f x v = (Inl e, v')" "w' = snd (close_handle os (g x) v')"
    by (auto simp: after_def or_else_def discardClose_def split: prod.splits sum.splits)
  then show "sw_closed w' = sw_closed w \<and> sw_now w \<le> sw_now w' \<and> sw_handles w' = sw_handles w"
  proof cases
    case 1
    with opens_Inl [OF m] show ?thesis by blast
  next
    case 2
    from opens_Inr [OF m 2(1)] opens_Inl [OF f 2(2)] 2(3) show ?thesis by (auto simp: close_handle_def)
  qed
next
  fix w y w'
  assume "after m (\<lambda>x. or_else (f x) (discardClose os (g x))) w = (Inr y, w')"
  then obtain x v where *: "m w = (Inr x, v)" "f x v = (Inr y, w')" by (auto simp: io_Inr)
  from opens_Inr [OF m *(1)] opens_Inr [OF f *(2)] h [OF *(2)]
  show "sw_closed w' = sw_closed w \<and> sw_now w \<le> sw_now w' \<and> sw_handles w' = h y @ sw_handles w" by auto
qed

lemma opens_give: "opens g m \<Longrightarrow> (\<And>x. h (k x) = g x) \<Longrightarrow> opens h (after m (\<lambda>x. give (k x)))"
proof (rule opensI)
  fix w e w'
  assume m: "opens g m" and "after m (\<lambda>x. give (k x)) w = (Inl e, w')"
  then have "m w = (Inl e, w')" by (auto simp: after_def give_def split: prod.splits sum.splits)
  with opens_Inl [OF m] show "sw_closed w' = sw_closed w \<and> sw_now w \<le> sw_now w' \<and> sw_handles w' = sw_handles w" by blast
next
  fix w y w'
  assume m: "opens g m" and h: "\<And>x. h (k x) = g x" and "after m (\<lambda>x. give (k x)) w = (Inr y, w')"
  then obtain x where "m w = (Inr x, w')" "y = k x" by (auto simp: io_Inr)
  with opens_Inr [OF m] h show "sw_closed w' = sw_closed w \<and> sw_now w \<le> sw_now w' \<and> sw_handles w' = h y @ sw_handles w" by auto
qed

lemma opens_or_else [handles]: "opens h m \<Longrightarrow> keeps u \<Longrightarrow> opens h (or_else m u)"
proof (rule opensI)
  fix w e w'
  assume m: "opens h m" and u: "keeps u" and "or_else m u w = (Inl e, w')"
  then obtain v where v: "m w = (Inl e, v)" "w' = snd (u v)" by (auto simp: or_else_def split: prod.splits sum.splits)
  obtain r where "u v = (r, w')" using v by (cases "u v") auto
  with opens_Inl [OF m v(1)] opens_Inl [OF u, of v _ w'] opens_Inr [OF u, of v _ w']
  show "sw_closed w' = sw_closed w \<and> sw_now w \<le> sw_now w' \<and> sw_handles w' = sw_handles w" by (cases r) auto
next
  fix w y w'
  assume m: "opens h m" and "or_else m u w = (Inr y, w')"
  with opens_Inr [OF m] show "sw_closed w' = sw_closed w \<and> sw_now w \<le> sw_now w' \<and> sw_handles w' = h y @ sw_handles w"
    by (simp add: or_else_Inr)
qed

lemma keeps_useRoot [handles]: "(\<And>r. opens h (f r)) \<Longrightarrow> opens h (useRoot r f)"
  unfolding opens_def useRoot_def by auto

section \<open>No handle is lost\<close>

lemma keeps_lstat_rest [handles]: "keeps (lstat_rest os h p segs info)"
  by (induction segs arbitrary: p info) (auto simp: Let_def intro!: handles)

lemma keeps_lstatPathWithinRoot [handles]: "keeps (lstatPathWithinRoot os h p)"
  by (simp add: lstatPathWithinRoot_def handles)

lemma keeps_validateCurrentRoot [handles]: "keeps (validateCurrentRoot os s h)"
  unfolding validateCurrentRoot_def validateCurrentLocalFSRoot_def by (auto intro!: handles)

lemma keeps_validateRoot [handles]: "keeps (validateRoot os s)"
  unfolding validateRoot_def by (auto intro!: handles)

lemma keeps_lstatRegularFile [handles]: "keeps (lstatRegularFile os h p)"
  unfolding lstatRegularFile_def by (auto intro!: handles)

lemma opens_openStableFile [handles]: "opens (\<lambda>x. [fst x]) (openStableFile os h p)"
  unfolding openStableFile_def
  by (rule opens_after, rule handles, rule opens_guarded, rule handles)
    (auto simp: io_Inr split: if_splits intro!: handles)

lemma or_else_give: "after (or_else m u) (\<lambda>_. give x) = or_else (after m (\<lambda>_. give x)) u"
  by (rule ext) (simp add: after_def or_else_def give_def split: prod.split sum.split)

lemma opens_OpenFile [handles]: "opens (\<lambda>x. [fst x]) (source_OpenFile os s p)"
proof (cases "source_relativePath os s p")
  case (Inr q)
  have "opens (\<lambda>x. [fst x]) (after (openStableFile os h q) (\<lambda>opened.
      or_else (after (validateCurrentRoot os s h) (\<lambda>_. give opened)) (discardClose os (fst opened))))" for h
    by (rule opens_guarded, rule handles) (auto simp: io_Inr intro!: handles)
  then show ?thesis
    unfolding source_OpenFile_def Inr sum.case or_else_give
    by (intro keeps_useRoot opens_after [OF keeps_validateCurrentRoot])
qed (simp add: source_OpenFile_def handles)

lemma read_all_closes:
  "read_all os cut_off file w = (r, w') \<Longrightarrow>
    sw_handles w' = remove1 file (sw_handles w) \<and> sw_closed w' = sw_closed w \<and> sw_now w \<le> sw_now w'"
  by (auto simp: read_all_def ask_def close_handle_def split: sum.splits option.splits)

lemma keeps_open_and_read: "keeps (after (source_OpenFile os s p) (\<lambda>(file, _). read_all os c file))"
proof (rule opensI)
  fix w e w'
  assume "after (source_OpenFile os s p) (\<lambda>(file, _). read_all os c file) w = (Inl e, w')"
  then consider "source_OpenFile os s p w = (Inl e, w')"
    | x v where "source_OpenFile os s p w = (Inr x, v)" "read_all os c (fst x) v = (Inl e, w')"
    by (auto simp: after_def split: prod.splits sum.splits)
  then show "sw_closed w' = sw_closed w \<and> sw_now w \<le> sw_now w' \<and> sw_handles w' = sw_handles w"
  proof cases
    case 1
    with opens_Inl [OF opens_OpenFile] show ?thesis by blast
  next
    case 2
    with opens_Inr [OF opens_OpenFile 2(1)] read_all_closes [OF 2(2)] show ?thesis by simp
  qed
next
  fix w y w'
  assume "after (source_OpenFile os s p) (\<lambda>(file, _). read_all os c file) w = (Inr y, w')"
  then obtain x v where *: "source_OpenFile os s p w = (Inr x, v)" "read_all os c (fst x) v = (Inr y, w')"
    by (auto simp: after_Inr)
  with opens_Inr [OF opens_OpenFile *(1)] read_all_closes [OF *(2)]
  show "sw_closed w' = sw_closed w \<and> sw_now w \<le> sw_now w' \<and> sw_handles w' = [] @ sw_handles w" by simp
qed

lemma keeps_ReadFile [handles]: "keeps (source_ReadFile os s p)"
  unfolding source_ReadFile_def by (rule keeps_open_and_read)

lemma keeps_ReadPrefix [handles]: "keeps (ReadPrefix os s p n)"
proof (cases "readPrefixRelativePath p n")
  case (Some q)
  let ?m = "after (source_OpenFile os s (path_join [lf_root s, q])) (\<lambda>(file, _). read_all os (take (nat n)) file)"
  have "snd (ReadPrefix os s p n w) = snd (?m w)" for w
    by (auto simp: ReadPrefix_def Some after_def give_def split: prod.split sum.split source_error.split)
  moreover have "keeps ?m" by (rule keeps_open_and_read)
  ultimately show ?thesis by (auto simp: opens_def split: sum.splits)
qed (simp add: ReadPrefix_def handles)

lemma opens_resolveLocalFSDirectoryRoot [handles]: "opens (\<lambda>x. [fst x]) (resolveLocalFSDirectoryRoot os p)"
  unfolding resolveLocalFSDirectoryRoot_def
  by (rule opens_guarded, rule handles) (auto simp: io_Inr intro!: handles)

text \<open>A check after an opening call, which closes the handle when it fails.\<close>

lemma opens_checked:
  assumes m: "opens (\<lambda>x. [g x]) m"
    and f: "\<And>x. (\<exists>e. f x = after (discardClose os (g x)) (\<lambda>_. fail e)) \<or> (\<exists>y. f x = give y \<and> h y = [g x])"
  shows "opens h (after m f)"
proof (rule opensI)
  fix w e w'
  assume "after m f w = (Inl e, w')"
  then consider "m w = (Inl e, w')" | x v where "m w = (Inr x, v)" "f x v = (Inl e, w')"
    by (auto simp: after_def split: prod.splits sum.splits)
  then show "sw_closed w' = sw_closed w \<and> sw_now w \<le> sw_now w' \<and> sw_handles w' = sw_handles w"
  proof cases
    case 1
    with opens_Inl [OF m] show ?thesis by blast
  next
    case 2
    from f [of x] 2(2) have "w' = snd (close_handle os (g x) v)"
      by (auto simp: after_def discardClose_def fail_def give_def)
    with opens_Inr [OF m 2(1)] show ?thesis by (simp add: close_handle_def)
  qed
next
  fix w y w'
  assume "after m f w = (Inr y, w')"
  then obtain x v where *: "m w = (Inr x, v)" "f x v = (Inr y, w')" by (auto simp: after_Inr)
  from f [of x] *(2) have "h y = [g x]" "w' = v" by (auto simp: io_Inr)
  with opens_Inr [OF m *(1)]
  show "sw_closed w' = sw_closed w \<and> sw_now w \<le> sw_now w' \<and> sw_handles w' = h y @ sw_handles w" by simp
qed

lemma opens_resolveLocalFSBundleRoot [handles]: "opens (\<lambda>s. [lf_dir s]) (resolveLocalFSBundleRoot os p)"
proof -
  have "opens (\<lambda>s. [lf_dir s]) (after (resolveLocalFSDirectoryRoot os x) (\<lambda>(h, info).
      case newBundleSource p x index of
          Inl e \<Rightarrow> after (discardClose os h) (\<lambda>_. fail e)
        | Inr b \<Rightarrow> give \<lparr> lf_root = x, lf_rootInfo = info, lf_dir = h, lf_bundle = Some b \<rparr>))" for x index
    by (rule opens_checked [OF opens_resolveLocalFSDirectoryRoot]) (auto split: sum.split prod.split)
  from opens_or_else [OF this keeps_discard_extracted] show ?thesis
    unfolding resolveLocalFSBundleRoot_def by (intro opens_after [OF keeps_ask]) (simp add: split_paired_all)
qed

lemma opens_resolveLocalFSResolvedRoot [handles]: "opens (\<lambda>s. [lf_dir s]) (resolveLocalFSResolvedRoot os r)"
proof (cases "rv_Type r")
  case TypeDirectory
  have "opens (\<lambda>s. [lf_dir s]) (after (resolveLocalFSDirectoryRoot os (rv_Root r))
      (\<lambda>x. give \<lparr> lf_root = rv_Root r, lf_rootInfo = snd x, lf_dir = fst x, lf_bundle = None \<rparr>))"
    by (rule opens_give [OF opens_resolveLocalFSDirectoryRoot]) simp
  with TypeDirectory show ?thesis by (simp add: resolveLocalFSResolvedRoot_def case_prod_unfold)
qed (simp add: resolveLocalFSResolvedRoot_def handles)

lemma keeps_source_Resolve [handles]: "keeps (source_Resolve os p)"
  unfolding source_Resolve_def Let_def by (auto intro!: handles)

lemma opens_LocalFSContext [handles]: "opens (\<lambda>s. [lf_dir s]) (LocalFSContext os b p)"
  unfolding LocalFSContext_def by (auto intro!: handles opens_after split: option.split)

lemma opens_NewLocalDirectory [handles]:
  "opens (\<lambda>s. case s of None \<Rightarrow> [] | Some s \<Rightarrow> [lf_dir s]) (NewLocalDirectory os p)"
proof -
  let ?h = "\<lambda>s. case s of None \<Rightarrow> [] | Some s \<Rightarrow> [lf_dir s]"
  have "opens ?h (after (resolveLocalFSDirectoryRoot os q)
      (\<lambda>x. give (Some \<lparr> lf_root = q, lf_rootInfo = snd x, lf_dir = fst x, lf_bundle = None \<rparr>)))" for q
    by (rule opens_give [OF opens_resolveLocalFSDirectoryRoot]) simp
  then show ?thesis
    unfolding NewLocalDirectory_def Let_def case_prod_unfold by (auto intro!: opens_after keeps_give keeps_ask)
qed

section \<open>Paths\<close>

lemma cleanRelativeAssetPath_proper:
  assumes "cleanRelativeAssetPath raw = Some p"
  shows "\<exists>xs. xs \<noteq> [] \<and> proper xs \<and> p = join_with ''/'' xs" "\<not> HasUnsafePortablePathSegment p"
proof -
  let ?t = "trim_space raw"
  have t: "?t \<noteq> []" "\<not> path_is_abs ?t" and p: "p = path_clean ?t" "p \<noteq> ''.''" "p \<noteq> ''..''" "\<not> has_prefix p ''../''"
    and safe: "\<not> HasUnsafePortablePathSegment p"
    using assms by (auto simp: cleanRelativeAssetPath_def Let_def split: if_splits)
  show "\<exists>xs. xs \<noteq> [] \<and> proper xs \<and> p = join_with ''/'' xs" by (rule path_clean_relative_proper [OF t p])
  show "\<not> HasUnsafePortablePathSegment p" by (rule safe)
qed

text \<open>A normalized path of a bundle index is a path of the extracted source.\<close>

lemma cleanRelativeAssetPath_bundle: "bundle_path p \<Longrightarrow> cleanRelativeAssetPath p = Some p"
proof -
  assume "bundle_path p"
  then have c: "cleanBundlePath p = Inr p" by (simp add: bundle_path_def)
  obtain xs where xs: "xs \<noteq> []" "proper xs" "p = join_with ''/'' xs" using cleanBundlePath_proper(1) [OF c] by blast
  then have "path_clean p = p" using path_clean_proper by simp
  moreover have "trim_space p \<noteq> []" "\<not> path_is_abs (trim_space p)" "CHR 0x00 \<notin> set (trim_space p)"
    "CHR 0x5C \<notin> set (trim_space p)" "path_clean (trim_space p) = p"
    using c by (auto simp: cleanBundlePath_def Let_def validateRawBundlePath_def split: option.splits if_splits)
  moreover have "p \<noteq> ''.''" "p \<noteq> ''..''" "\<not> has_prefix p ''../''" "\<not> HasUnsafePortablePathSegment p"
    using cleanBundlePath_proper(2) [OF c] by (auto simp: validateCleanBundlePath_def split: if_splits)
  ultimately show ?thesis by (simp add: cleanRelativeAssetPath_def Let_def)
qed

section \<open>Opening a file while others change the tree\<close>

text \<open>In the moments from \<open>t\<close> to \<open>t'\<close> the path of the root led to the directory the source was opened on, and so did
  its handle.\<close>

definition root_seen :: "source_os \<Rightarrow> LocalFS \<Rightarrow> nat \<Rightarrow> nat \<Rightarrow> bool" where
  "root_seen os s t t' \<longleftrightarrow>
     (\<exists>u v opened info. t \<le> u \<and> u < v \<and> v < t' \<and> so_root_stat os u (lf_dir s) = Inr opened \<and>
        so_lstat os v (lf_root s) = Inr info \<and> fi_kind info = DirectoryFile \<and>
        fi_id info = fi_id (lf_rootInfo s) \<and> fi_id opened = fi_id (lf_rootInfo s))"

text \<open>In these moments no prefix of the path was a symbolic link, and the path was a regular file of that identity.\<close>

definition file_seen :: "source_os \<Rightarrow> nat \<Rightarrow> string list \<Rightarrow> nat \<Rightarrow> nat \<Rightarrow> nat \<Rightarrow> bool" where
  "file_seen os h segs ident t t' \<longleftrightarrow>
     (\<forall>n<length segs. \<exists>u info. t \<le> u \<and> u < t' \<and> so_root_lstat os u h (join_with ''/'' (take (Suc n) segs)) = Inr info \<and>
        fi_kind info \<noteq> SymlinkFile \<and> (Suc n = length segs \<longrightarrow> fi_kind info = RegularFile \<and> fi_id info = ident))"

lemma lstat_rest_seen:
  assumes "lstat_rest os h (join_with ''/'' ys) segs i w = (Inr info, w')" and "proper ys" "proper segs"
  shows "sw_now w \<le> sw_now w' \<and>
    (\<forall>n<length segs. \<exists>u j. sw_now w \<le> u \<and> u < sw_now w' \<and>
       so_root_lstat os u h (join_with ''/'' (ys @ take (Suc n) segs)) = Inr j \<and> fi_kind j \<noteq> SymlinkFile \<and>
       (Suc n = length segs \<longrightarrow> j = info))"
  using assms
proof (induction segs arbitrary: ys i w)
  case Nil
  then show ?case by (simp add: io_Inr)
next
  case (Cons s segs)
  have s: "proper [s]" "proper segs" using Cons.prems(3) by simp_all
  have path: "(if join_with ''/'' ys = [] then s else path_join [join_with ''/'' ys, s]) = join_with ''/'' (ys @ [s])"
    using path_join_rel [OF Cons.prems(2) s(1)] Cons.prems(2) proper_join_ne [of ys] by (cases "ys = []") auto
  obtain j v where j: "so_root_lstat os (sw_now w) h (join_with ''/'' (ys @ [s])) = Inr j" "\<not> isSymlink j"
    and v: "v = w\<lparr>sw_now := Suc (sw_now w)\<rparr>" and rest: "lstat_rest os h (join_with ''/'' (ys @ [s])) segs j v = (Inr info, w')"
    using Cons.prems(1) by (auto simp: Let_def path io_Inr split: if_splits)
  have IH: "sw_now v \<le> sw_now w' \<and>
    (\<forall>n<length segs. \<exists>u k. sw_now v \<le> u \<and> u < sw_now w' \<and>
       so_root_lstat os u h (join_with ''/'' ((ys @ [s]) @ take (Suc n) segs)) = Inr k \<and> fi_kind k \<noteq> SymlinkFile \<and>
       (Suc n = length segs \<longrightarrow> k = info))"
    using Cons.IH [OF rest] Cons.prems(2) s by simp
  have last: "j = info" if "segs = []" using rest that by (simp add: io_Inr)
  show ?case
  proof (intro conjI allI impI)
    show "sw_now w \<le> sw_now w'" using IH v by simp
    fix n assume n: "n < length (s # segs)"
    show "\<exists>u j. sw_now w \<le> u \<and> u < sw_now w' \<and> so_root_lstat os u h (join_with ''/'' (ys @ take (Suc n) (s # segs))) = Inr j \<and>
      fi_kind j \<noteq> SymlinkFile \<and> (Suc n = length (s # segs) \<longrightarrow> j = info)"
    proof (cases n)
      case 0
      with j IH v last show ?thesis by (intro exI [of _ "sw_now w"] exI [of _ j]) (auto simp: isSymlink_def)
    next
      case (Suc m)
      with n IH obtain u k where "sw_now v \<le> u" "u < sw_now w'"
        "so_root_lstat os u h (join_with ''/'' ((ys @ [s]) @ take (Suc m) segs)) = Inr k" "fi_kind k \<noteq> SymlinkFile"
        "Suc m = length segs \<longrightarrow> k = info" by auto
      with Suc v show ?thesis by (intro exI [of _ u] exI [of _ k]) auto
    qed
  qed
qed

lemma lstatRegularFile_seen:
  assumes "lstatRegularFile os h (join_with ''/'' segs) w = (Inr info, w')" "segs \<noteq> []" "proper segs"
  shows "file_seen os h segs (fi_id info) (sw_now w) (sw_now w')" "sw_now w \<le> sw_now w'"
proof -
  have "lstat_rest os h (join_with ''/'' []) segs \<lparr> fi_id = 0, fi_kind = SpecialFile, fi_size = 0, fi_modtime = 0 \<rparr> w = (Inr info, w')"
    and k: "fi_kind info = RegularFile"
    using assms(1) split_proper [OF assms(2,3)]
    by (auto simp: lstatRegularFile_def lstatPathWithinRoot_def io_Inr split: if_splits)
  from lstat_rest_seen [OF this(1) _ assms(3)]
  have seen: "sw_now w \<le> sw_now w'" "\<forall>n<length segs. \<exists>u j. sw_now w \<le> u \<and> u < sw_now w' \<and>
      so_root_lstat os u h (join_with ''/'' (take (Suc n) segs)) = Inr j \<and> fi_kind j \<noteq> SymlinkFile \<and>
      (Suc n = length segs \<longrightarrow> j = info)" by simp_all
  show "file_seen os h segs (fi_id info) (sw_now w) (sw_now w')"
    unfolding file_seen_def
  proof (intro allI impI)
    fix n assume "n < length segs"
    with seen(2) obtain u j where "sw_now w \<le> u" "u < sw_now w'"
      "so_root_lstat os u h (join_with ''/'' (take (Suc n) segs)) = Inr j" "fi_kind j \<noteq> SymlinkFile"
      "Suc n = length segs \<longrightarrow> j = info" by blast
    with k show "\<exists>u info'. sw_now w \<le> u \<and> u < sw_now w' \<and>
        so_root_lstat os u h (join_with ''/'' (take (Suc n) segs)) = Inr info' \<and> fi_kind info' \<noteq> SymlinkFile \<and>
        (Suc n = length segs \<longrightarrow> fi_kind info' = RegularFile \<and> fi_id info' = fi_id info)"
      by (intro exI [of _ u] exI [of _ j]) auto
  qed
  show "sw_now w \<le> sw_now w'" by (rule seen(1))
qed

lemma validateCurrentRoot_seen:
  assumes "validateCurrentRoot os s (lf_dir s) w = (Inr x, w')"
  shows "root_seen os s (sw_now w) (sw_now w')" "sw_now w \<le> sw_now w'"
proof -
  obtain opened info where *: "so_root_stat os (sw_now w) (lf_dir s) = Inr opened"
      "so_lstat os (Suc (sw_now w)) (lf_root s) = Inr info" "w' = w\<lparr>sw_now := Suc (Suc (sw_now w))\<rparr>"
    and v: "validateOpenedDirectoryRoot opened info = None" "same_file (lf_rootInfo s) info"
    using assms by (auto simp: validateCurrentRoot_def validateCurrentLocalFSRoot_def io_Inr split: if_splits)
  have ids: "fi_kind info = DirectoryFile" "fi_id info = fi_id (lf_rootInfo s)" "fi_id opened = fi_id (lf_rootInfo s)"
    using v unfolding validateOpenedDirectoryRoot_def same_file_def by (metis option.distinct(1))+
  show "root_seen os s (sw_now w) (sw_now w')"
    unfolding root_seen_def
    using * ids by (intro exI [of _ "sw_now w"] exI [of _ "Suc (sw_now w)"] exI [of _ opened] exI [of _ info]) auto
  show "sw_now w \<le> sw_now w'" using * by simp
qed

lemma root_seen_mono: "root_seen os s t t' \<Longrightarrow> r \<le> t \<Longrightarrow> t' \<le> r' \<Longrightarrow> root_seen os s r r'"
  unfolding root_seen_def by (meson le_trans less_le_trans)

lemma file_seen_mono: "file_seen os h segs i t t' \<Longrightarrow> r \<le> t \<Longrightarrow> t' \<le> r' \<Longrightarrow> file_seen os h segs i r r'"
  unfolding file_seen_def by (meson le_trans less_le_trans)

lemma OpenFile_seen:
  assumes "source_OpenFile os s p w = (Inr (file, info), w')"
  shows "\<exists>segs. segs \<noteq> [] \<and> proper segs \<and> source_relativePath os s p = Inr (join_with ''/'' segs) \<and>
    sw_closed w (lf_dir s) = None \<and>
    root_seen os s (sw_now w) file \<and> file_seen os (lf_dir s) segs (fi_id info) (sw_now w) file \<and>
    so_root_open os file (lf_dir s) (join_with ''/'' segs) = None \<and> so_fstat os (Suc file) file = Inr info \<and>
    file_seen os (lf_dir s) segs (fi_id info) file (sw_now w') \<and> root_seen os s file (sw_now w') \<and>
    sw_handles w' = file # sw_handles w"
proof -
  obtain rel where rel: "source_relativePath os s p = Inr rel"
    using assms by (cases "source_relativePath os s p") (auto simp: source_OpenFile_def fail_def)
  then have "cleanRelativeAssetPath (path_rel (lf_root s) (path_abs (so_cwd os) (path_clean (trim_space p)))) = Some rel"
    by (auto simp: source_relativePath_def Let_def split: if_splits option.splits)
  from cleanRelativeAssetPath_proper(1) [OF this] obtain segs where
    segs: "segs \<noteq> []" "proper segs" "rel = join_with ''/'' segs" by blast
  let ?h = "lf_dir s"
  obtain w1 w2 w3 w4 x y i j where open': "sw_closed w ?h = None"
    and v1: "validateCurrentRoot os s ?h w = (Inr x, w1)"
    and l1: "lstatRegularFile os ?h rel w1 = (Inr i, w2)"
    and o: "so_root_open os (sw_now w2) ?h rel = None" "file = sw_now w2"
    and w3: "w3 = w2\<lparr>sw_handles := file # sw_handles w2, sw_now := Suc (Suc file)\<rparr>"
    and st: "so_fstat os (Suc file) file = Inr info"
    and l2: "lstatRegularFile os ?h rel w3 = (Inr j, w4)" and same: "same_file i info" "same_file j info"
    and v2: "validateCurrentRoot os s ?h w4 = (Inr y, w')"
    using assms by (auto simp: source_OpenFile_def rel useRoot_def openStableFile_def io_Inr split: if_splits)
  have ids: "fi_id i = fi_id info" "fi_id j = fi_id info" using same by (simp_all add: same_file_def)
  note a = validateCurrentRoot_seen [OF v1] and b = lstatRegularFile_seen [OF l1 [unfolded segs(3)] segs(1,2)]
    and c = lstatRegularFile_seen [OF l2 [unfolded segs(3)] segs(1,2)] and d = validateCurrentRoot_seen [OF v2]
  have "root_seen os s (sw_now w) file" using a b(2) o(2) by (auto intro: root_seen_mono)
  moreover have "file_seen os ?h segs (fi_id info) (sw_now w) file"
    using a(2) b ids o(2) by (auto intro: file_seen_mono)
  moreover have "file_seen os ?h segs (fi_id info) file (sw_now w')"
    using c d(2) ids w3 by (auto intro: file_seen_mono)
  moreover have "root_seen os s file (sw_now w')" using c(2) d(1) w3 by (auto intro: root_seen_mono)
  moreover have "sw_handles w' = file # sw_handles w" using opens_Inr [OF opens_OpenFile assms] by simp
  ultimately show ?thesis using segs rel open' o st by (intro exI [of _ segs]) simp
qed

text \<open>C33: Whatever happens in the file system meanwhile, a file that \<open>OpenFile\<close> returns was reached without a symbolic
  link below the root: before and after the open, the path of the root led to the directory the source was made for, no
  prefix of the path was a link, and the path was a regular file of the very identity that was opened.  The path is below
  the root, the source was not closed, and exactly one handle more is open.\<close>

theorem OpenFile_bound:
  assumes "source_OpenFile os s p w = (Inr (file, info), w')"
  shows "\<exists>segs. segs \<noteq> [] \<and> proper segs \<and> source_relativePath os s p = Inr (join_with ''/'' segs) \<and>
    sw_closed w (lf_dir s) = None \<and>
    root_seen os s (sw_now w) file \<and> file_seen os (lf_dir s) segs (fi_id info) (sw_now w) file \<and>
    so_root_open os file (lf_dir s) (join_with ''/'' segs) = None \<and> so_fstat os (Suc file) file = Inr info \<and>
    file_seen os (lf_dir s) segs (fi_id info) file (sw_now w') \<and> root_seen os s file (sw_now w') \<and>
    sw_handles w' = file # sw_handles w"
  by (rule OpenFile_seen [OF assms])

text \<open>A static tree: one regular file \<open>js/app.js\<close> below the root \<open>/srv\<close>, opened before the moment 1.\<close>

definition example_info :: "nat \<Rightarrow> file_kind \<Rightarrow> file_info" where
  "example_info i k = \<lparr> fi_id = i, fi_kind = k, fi_size = 2, fi_modtime = 0 \<rparr>"

definition example_tree :: "string \<Rightarrow> source_error + file_info" where
  "example_tree p =
     (if p = ''js'' then Inr (example_info 2 DirectoryFile)
      else if p = ''js/app.js'' then Inr (example_info 3 RegularFile) else Inl FileNotExist)"

definition example_os :: source_os where
  "example_os = \<lparr> so_cwd = ''/'', so_lstat = (\<lambda>_ p. if p = ''/srv'' then Inr (example_info 1 DirectoryFile) else Inl FileNotExist),
     so_open_root = (\<lambda>_ p. if p = ''/srv'' then None else Some FileNotExist), so_root_stat = (\<lambda>_ _. Inr (example_info 1 DirectoryFile)),
     so_root_lstat = (\<lambda>_ _. example_tree), so_root_open = (\<lambda>_ _ _. None), so_fstat = (\<lambda>_ _. Inr (example_info 3 RegularFile)),
     so_read = (\<lambda>_ _. Inr ''hi''), so_close = (\<lambda>_ _. None), so_walk = (\<lambda>_ _. ([], None)),
     so_extract = (\<lambda>_ _. Inl BundleFailed), so_bundle_index = (\<lambda>_ _. Inl BundleFailed), so_discard = (\<lambda>_ _. None) \<rparr>"

definition example_source :: LocalFS where
  "example_source = \<lparr> lf_root = ''/srv'', lf_rootInfo = example_info 1 DirectoryFile, lf_dir = 0, lf_bundle = None \<rparr>"

definition example_world :: source_world where
  "example_world = \<lparr> sw_now = 1, sw_handles = [0], sw_closed = Map.empty \<rparr>"

theorem OpenFile_bound_witness:
  "\<exists>file info w'. source_OpenFile example_os example_source ''/srv/js/app.js'' example_world = (Inr (file, info), w') \<and>
     fi_id info = 3 \<and> root_seen example_os example_source 1 file \<and> root_seen example_os example_source file (sw_now w') \<and>
     file_seen example_os 0 [''js'', ''app.js''] 3 file (sw_now w') \<and> sw_handles w' = [file, 0]"
proof -
  have n: "fst (source_OpenFile example_os example_source ''/srv/js/app.js'' example_world) = Inr (5, example_info 3 RegularFile)"
    and rel: "source_relativePath example_os example_source ''/srv/js/app.js'' = Inr ''js/app.js''"
    and split: "split_on CHR ''/'' ''js/app.js'' = [''js'', ''app.js'']"
    by code_simp+
  define w' where "w' = snd (source_OpenFile example_os example_source ''/srv/js/app.js'' example_world)"
  have o: "source_OpenFile example_os example_source ''/srv/js/app.js'' example_world =
      (Inr (5, example_info 3 RegularFile), w')"
    unfolding w'_def by (rule prod_eqI) (simp_all only: n fst_conv snd_conv)
  from OpenFile_bound [OF o] obtain segs where segs: "segs \<noteq> []" "proper segs"
      "source_relativePath example_os example_source ''/srv/js/app.js'' = Inr (join_with ''/'' segs)"
    and r: "root_seen example_os example_source (sw_now example_world) 5" "root_seen example_os example_source 5 (sw_now w')"
      "file_seen example_os (lf_dir example_source) segs (fi_id (example_info 3 RegularFile)) 5 (sw_now w')"
      "sw_handles w' = 5 # sw_handles example_world"
    by blast
  have "''js/app.js'' = join_with ''/'' segs" using segs(3) unfolding rel by (rule sum.inject(2) [THEN iffD1])
  then have "segs = [''js'', ''app.js'']" using split_proper [OF segs(1,2)] split by (simp only:)
  with o r show ?thesis
    by (intro exI [of _ 5] exI [of _ "example_info 3 RegularFile"] exI [of _ w'])
      (simp add: example_world_def example_source_def example_info_def)
qed

section \<open>Handles and closing\<close>

lemma keeps_TrustedReadOnlyPath [handles]: "keeps (TrustedReadOnlyPath os s p)"
  unfolding TrustedReadOnlyPath_def by (auto intro!: handles split: option.split sum.split)

lemma keeps_walkDirectory [handles]: "keeps (walkDirectory os s)"
  unfolding walkDirectory_def by (auto intro!: handles)

lemma keeps_Walk [handles]: "keeps (source_Walk os s)"
  unfolding source_Walk_def by (auto intro!: handles split: option.split)

lemma keeps_FindFile [handles]: "keeps (source_FindFile os s p)"
proof -
  have "keeps (\<lambda>w. case useRoot (lf_dir s) (\<lambda>h. lstatPathWithinRoot os h q) w of
                       (Inl FileNotExist, w') \<Rightarrow> (Inr None, w')
                     | (Inl e, w') \<Rightarrow> (Inl e, w')
                     | (Inr info, w') \<Rightarrow>
                         after (validateRoot os s) (\<lambda>_.
                           give (Some (plain_file q (path_join [lf_root s, q]) info (fi_kind info = DirectoryFile)))) w')"
    (is "keeps ?m") for q
  proof -
    let ?u = "useRoot (lf_dir s) (\<lambda>h. lstatPathWithinRoot os h q)"
    let ?k = "\<lambda>info. after (validateRoot os s) (\<lambda>_.
        give (Some (plain_file q (path_join [lf_root s, q]) info (fi_kind info = DirectoryFile))))"
    have "keeps (after ?u ?k)" by (auto intro!: handles)
    moreover have "snd (?m w) = snd (after ?u ?k w)" for w
      by (auto simp: after_def split: prod.split sum.split source_error.split)
    ultimately show ?thesis unfolding opens_def by (auto split: sum.splits)
  qed
  then show ?thesis
    unfolding source_FindFile_def by (auto intro!: handles split: option.split sum.split)
qed

text \<open>The effect of every operation on the open handles.\<close>

lemma source_handles:
  "sw_handles (snd (source_ReadFile os s p w)) = sw_handles w"
  "sw_handles (snd (ReadPrefix os s p n w)) = sw_handles w"
  "sw_handles (snd (source_FindFile os s p w)) = sw_handles w"
  "sw_handles (snd (source_Walk os s w)) = sw_handles w"
  "sw_handles (snd (TrustedReadOnlyPath os s p w)) = sw_handles w"
  "sw_handles (snd (source_OpenFile os s p w)) =
     (case fst (source_OpenFile os s p w) of Inl _ \<Rightarrow> sw_handles w | Inr (file, _) \<Rightarrow> file # sw_handles w)"
  "sw_handles (snd (LocalFSContext os c r w)) =
     (case fst (LocalFSContext os c r w) of Inl _ \<Rightarrow> sw_handles w | Inr f \<Rightarrow> lf_dir f # sw_handles w)"
  "sw_handles (snd (NewLocalDirectory os p w)) =
     (case fst (NewLocalDirectory os p w) of Inr (Some f) \<Rightarrow> lf_dir f # sw_handles w | _ \<Rightarrow> sw_handles w)"
proof -
  show "sw_handles (snd (source_ReadFile os s p w)) = sw_handles w"
    "sw_handles (snd (ReadPrefix os s p n w)) = sw_handles w"
    "sw_handles (snd (source_FindFile os s p w)) = sw_handles w"
    "sw_handles (snd (source_Walk os s w)) = sw_handles w"
    "sw_handles (snd (TrustedReadOnlyPath os s p w)) = sw_handles w"
    using keeps_ReadFile [of os s p] keeps_ReadPrefix [of os s p n] keeps_FindFile [of os s p] keeps_Walk [of os s]
      keeps_TrustedReadOnlyPath [of os s p]
    by (auto simp: opens_def split: sum.splits dest!: spec [of _ w])
  show "sw_handles (snd (source_OpenFile os s p w)) =
     (case fst (source_OpenFile os s p w) of Inl _ \<Rightarrow> sw_handles w | Inr (file, _) \<Rightarrow> file # sw_handles w)"
    using opens_OpenFile [of os s p] by (auto simp: opens_def split: sum.splits dest!: spec [of _ w])
  show "sw_handles (snd (LocalFSContext os c r w)) =
     (case fst (LocalFSContext os c r w) of Inl _ \<Rightarrow> sw_handles w | Inr f \<Rightarrow> lf_dir f # sw_handles w)"
    using opens_LocalFSContext [of os c r] by (auto simp: opens_def split: sum.splits dest!: spec [of _ w])
  show "sw_handles (snd (NewLocalDirectory os p w)) =
     (case fst (NewLocalDirectory os p w) of Inr (Some f) \<Rightarrow> lf_dir f # sw_handles w | _ \<Rightarrow> sw_handles w)"
    using opens_NewLocalDirectory [of os p] by (auto simp: opens_def split: sum.splits option.splits dest!: spec [of _ w])
qed

text \<open>C34: No path of the source leaks a handle: an operation that fails leaves the open handles as they were, reading and
  finding files leave them in any case, opening a file adds the one it returns, and making a source adds the one of its
  root, whatever call fails on the way.\<close>

theorem source_handles_balanced:
  "sw_handles (snd (source_ReadFile os s p w)) = sw_handles w \<and>
   sw_handles (snd (ReadPrefix os s p n w)) = sw_handles w \<and>
   sw_handles (snd (source_FindFile os s p w)) = sw_handles w \<and>
   sw_handles (snd (source_Walk os s w)) = sw_handles w \<and>
   sw_handles (snd (TrustedReadOnlyPath os s p w)) = sw_handles w \<and>
   (sw_handles (snd (source_OpenFile os s p w)) =
     (case fst (source_OpenFile os s p w) of Inl _ \<Rightarrow> sw_handles w | Inr (file, _) \<Rightarrow> file # sw_handles w)) \<and>
   (sw_handles (snd (LocalFSContext os c r w)) =
     (case fst (LocalFSContext os c r w) of Inl _ \<Rightarrow> sw_handles w | Inr f \<Rightarrow> lf_dir f # sw_handles w)) \<and>
   (sw_handles (snd (NewLocalDirectory os p w)) =
     (case fst (NewLocalDirectory os p w) of Inr (Some f) \<Rightarrow> lf_dir f # sw_handles w | _ \<Rightarrow> sw_handles w))"
  by (intro conjI source_handles)

text \<open>Closing a source twice is closing it once, and nothing is opened through a closed source.\<close>

lemma source_Cleanup_idem:
  "source_Cleanup os s (snd (source_Cleanup os s w)) = source_Cleanup os s w"
  by (auto simp: source_Cleanup_def close_resources_def Let_def close_handle_def split: option.split prod.split)

theorem closed_source_unusable:
  assumes "w' = snd (source_Cleanup os s w)"
  shows "source_relativePath os s p = Inr q \<Longrightarrow> source_OpenFile os s p w' = (Inl SourceClosed, w')"
proof -
  assume q: "source_relativePath os s p = Inr q"
  have "sw_closed w' (lf_dir s) \<noteq> None"
    unfolding assms by (auto simp: source_Cleanup_def close_resources_def Let_def close_handle_def split: option.split prod.split)
  with q show ?thesis by (simp add: source_OpenFile_def useRoot_def)
qed

section \<open>The source of a bundle\<close>

lemma run_all_foldl:
  "(\<And>x m. x \<in> set xs \<Longrightarrow> f m x = Inr (g m x)) \<Longrightarrow> run_all f s xs = Inr (foldl g s xs)"
  by (induction xs arbitrary: s) auto

lemma newBundleSource_verified:
  assumes "validateIndex index limits = None"
  shows "newBundleSource bundle r index =
    Inr \<lparr> bs_path = bundle, bs_root = r, bs_index = index, bs_entries = indexFileMap index \<rparr>"
proof -
  have "cleanRelativeAssetPath (xf_Path f) = Some (xf_Path f)" if "f \<in> set (xi_Files index)" for f
    using assms that cleanRelativeAssetPath_bundle by (auto simp: validateIndex_iff entry_ok_def)
  then have "run_all (\<lambda>m f. case cleanRelativeAssetPath (xf_Path f) of
                            None \<Rightarrow> Inl (BadIndexPath (xf_Path f))
                          | Some p \<Rightarrow> Inr (AList.update p (f\<lparr>xf_Path := p\<rparr>) m)) [] (xi_Files index) =
      Inr (foldl (\<lambda>m f. AList.update (xf_Path f) f m) [] (xi_Files index))"
    by (intro run_all_foldl) simp
  then show ?thesis by (simp add: newBundleSource_def indexFileMap_def)
qed



end
