(* ===== verification/FileSources.thy ===== *)
theory FileSources
  imports LocalSource Catalog "HOL-Library.Multiset"
begin

text \<open>
  The file sources of the server (\<open>local_file_sources.go\<close>, \<open>local_file_source_ownership.go\<close>,
  \<open>server_file_source_catalog.go\<close>): which directories the server opens, in which order it tries them, and who closes
  them.  A source is either lent to the server or owned by it; an owned one is closed by the server, once, also where
  it turns out to be a duplicate or comes after the close.

  The state of the sources goes along with the world of \<open>LocalSource\<close>.  Two pointers to sources are equal when the
  sources are, since every source has a root handle of its own.  Directories are added by two critical steps
  (\<open>addOwnedRoot\<close> opens without the lock and then decides under it), which the step relation interleaves with the close.
\<close>

section \<open>The sources\<close>

record serverFileSource =
  fe_files :: LocalFS
  fe_owned :: bool

record serverFileSources =
  fs_sources :: "serverFileSource list"
  fs_cleanupErr :: "source_error list"
  fs_closed :: bool

definition newServerFileSourcesWithEntries :: "serverFileSource list \<Rightarrow> serverFileSources" where
  "newServerFileSourcesWithEntries entries = \<lparr> fs_sources = entries, fs_cleanupErr = [], fs_closed = False \<rparr>"

definition serverFileSourceKey :: "string \<Rightarrow> string \<Rightarrow> string" where
  "serverFileSourceKey cwd base = (if base = [] then [] else path_abs cwd base)"

definition serverFileSourceListContainsRoot :: "string \<Rightarrow> serverFileSource list \<Rightarrow> string \<Rightarrow> bool" where
  "serverFileSourceListContainsRoot cwd sources base =
     (let key = serverFileSourceKey cwd base
      in key \<noteq> [] \<and> list_ex (\<lambda>e. serverFileSourceKey cwd (lf_root (fe_files e)) = key) sources)"

definition serverFileSourceFromRoot :: "source_os \<Rightarrow> string \<Rightarrow> source_world \<Rightarrow> LocalFS option \<times> source_world" where
  "serverFileSourceFromRoot os base w =
     (case NewLocalDirectory os base w of (Inl _, w') \<Rightarrow> (None, w') | (Inr files, w') \<Rightarrow> (files, w'))"

text \<open>The optional form differs in what it logs.\<close>

definition serverFileSourceFromOptionalRoot :: "source_os \<Rightarrow> string \<Rightarrow> source_world \<Rightarrow> LocalFS option \<times> source_world" where
  "serverFileSourceFromOptionalRoot os base w =
     (case NewLocalDirectory os base w of (Inl _, w') \<Rightarrow> (None, w') | (Inr files, w') \<Rightarrow> (files, w'))"

definition recordCleanupError :: "source_error list \<Rightarrow> serverFileSources \<Rightarrow> serverFileSources" where
  "recordCleanupError errs s = s\<lparr>fs_cleanupErr := fs_cleanupErr s @ errs\<rparr>"

definition discardOwned :: "source_os \<Rightarrow> serverFileSource \<Rightarrow> serverFileSources \<times> source_world \<Rightarrow> serverFileSources \<times> source_world" where
  "discardOwned os entry = (\<lambda>(s, w).
     if \<not> fe_owned entry then (s, w)
     else (case source_Cleanup os (fe_files entry) w of (errs, w') \<Rightarrow> (recordCleanupError errs s, w')))"

section \<open>Merging\<close>

type_synonym merge_state = "(serverFileSource list \<times> (string \<times> LocalFS) list) \<times> serverFileSources \<times> source_world"

definition mergeServerFileSource :: "source_os \<Rightarrow> merge_state \<Rightarrow> serverFileSource \<Rightarrow> merge_state" where
  "mergeServerFileSource os = (\<lambda>((mergedSources, seen), merged) entry.
     if lf_root (fe_files entry) = [] then ((mergedSources, seen), discardOwned os entry merged)
     else (let key = serverFileSourceKey (so_cwd os) (lf_root (fe_files entry))
           in case map_of seen key of
                Some kept \<Rightarrow> ((mergedSources, seen),
                  if kept \<noteq> fe_files entry then discardOwned os entry merged else merged)
              | None \<Rightarrow> ((mergedSources @ [entry], AList.update key (fe_files entry) seen), merged)))"

definition mergeServerFileSourceGroup :: "source_os \<Rightarrow> merge_state \<Rightarrow> serverFileSources option \<Rightarrow> merge_state" where
  "mergeServerFileSourceGroup os st grp =
     (case grp of
        None \<Rightarrow> st
      | Some g \<Rightarrow> (case st of (m, merged, w) \<Rightarrow>
          foldl (mergeServerFileSource os) (m, recordCleanupError (fs_cleanupErr g) merged, w) (fs_sources g)))"

definition mergeServerFileSources ::
    "source_os \<Rightarrow> serverFileSources option list \<Rightarrow> source_world \<Rightarrow> serverFileSources option \<times> source_world" where
  "mergeServerFileSources os groups w =
     (case foldl (mergeServerFileSourceGroup os) (([], []), newServerFileSourcesWithEntries [], w) groups of
        ((mergedSources, _), merged, w') \<Rightarrow>
          (if mergedSources = [] then None else Some (merged\<lparr>fs_sources := mergedSources\<rparr>), w'))"

definition newServerFileSourcesFromSource :: "LocalFS option \<Rightarrow> serverFileSources option" where
  "newServerFileSourcesFromSource src =
     (case src of
        Some s \<Rightarrow> if lf_root s \<noteq> [] then Some (newServerFileSourcesWithEntries [\<lparr> fe_files = s, fe_owned = False \<rparr>]) else None
      | None \<Rightarrow> None)"

definition owned_sources :: "LocalFS option \<Rightarrow> serverFileSources option" where
  "owned_sources files = map_option (\<lambda>f. newServerFileSourcesWithEntries [\<lparr> fe_files = f, fe_owned = True \<rparr>]) files"

definition newServerFileSourcesFromRoot :: "source_os \<Rightarrow> string \<Rightarrow> source_world \<Rightarrow> serverFileSources option \<times> source_world" where
  "newServerFileSourcesFromRoot os base w = (case serverFileSourceFromRoot os base w of (f, w') \<Rightarrow> (owned_sources f, w'))"

definition newServerFileSourcesFromOptionalRoot ::
    "source_os \<Rightarrow> string \<Rightarrow> source_world \<Rightarrow> serverFileSources option \<times> source_world" where
  "newServerFileSourcesFromOptionalRoot os base w =
     (case serverFileSourceFromOptionalRoot os base w of (f, w') \<Rightarrow> (owned_sources f, w'))"

text \<open>The configuration is the root of the assets and the cache directory.\<close>

definition newServerFileSourcesFromConfig ::
    "source_os \<Rightarrow> (string \<times> string) option \<Rightarrow> source_world \<Rightarrow> serverFileSources option \<times> source_world" where
  "newServerFileSourcesFromConfig os cfg w =
     (case cfg of
        None \<Rightarrow> (None, w)
      | Some (assetsRoot, cacheDir) \<Rightarrow>
          (let (a, w1) = newServerFileSourcesFromRoot os assetsRoot w;
               (b, w2) = newServerFileSourcesFromOptionalRoot os cacheDir w1
           in mergeServerFileSources os [a, b] w2))"

section \<open>The root of a catalog\<close>

definition pathWithinDirectory :: "string \<Rightarrow> string \<Rightarrow> bool" where
  "pathWithinDirectory base targ =
     (let rel = path_rel base targ
      in rel = ''.'' \<or> \<not> path_is_abs rel \<and> rel \<noteq> ''..'' \<and> \<not> has_prefix rel ''../'')"

text \<open>The loop over the parents, with one unit of fuel per directory.\<close>

fun common_loop :: "nat \<Rightarrow> string \<Rightarrow> string \<Rightarrow> string option" where
  "common_loop 0 candidate right = None"
| "common_loop (Suc n) candidate right =
     (if pathWithinDirectory candidate right then Some candidate
      else if path_dir candidate = candidate then Some candidate
      else common_loop n (path_dir candidate) right)"

definition commonDirectoryRoot :: "string \<Rightarrow> string \<Rightarrow> string option" where
  "commonDirectoryRoot left right = (let c = path_clean left in common_loop (Suc (length c)) c right)"

definition commonCatalogFileRoot :: "string \<Rightarrow> string \<Rightarrow> string \<Rightarrow> string option" where
  "commonCatalogFileRoot cwd base filePath =
     (if trim_space filePath = [] \<or> IsReference filePath then Some base
      else let dir = path_dir (path_abs cwd (path_clean filePath))
           in if base = [] then Some dir else commonDirectoryRoot base dir)"

definition catalogFileSourceRoot :: "string \<Rightarrow> IndexedCatalog \<Rightarrow> string option" where
  "catalogFileSourceRoot cwd c =
     (let (as, c1) = AllAssets c; (vs, _) = AllVariants c1
      in foldl (\<lambda>r p. case r of None \<Rightarrow> None | Some base \<Rightarrow> commonCatalogFileRoot cwd base p) (Some [])
           (map a_FullPath as @ map v_ArtifactPath vs))"

definition newServerFileSourcesFromCatalog ::
    "source_os \<Rightarrow> IndexedCatalog option \<Rightarrow> source_world \<Rightarrow> serverFileSources option \<times> source_world" where
  "newServerFileSourcesFromCatalog os cat w =
     (case cat of
        None \<Rightarrow> (None, w)
      | Some c \<Rightarrow> newServerFileSourcesFromRoot os (case catalogFileSourceRoot (so_cwd os) c of None \<Rightarrow> [] | Some r \<Rightarrow> r) w)"

definition newServerFileSources ::
    "source_os \<Rightarrow> (string \<times> string) option \<Rightarrow> LocalFS option \<Rightarrow> IndexedCatalog option \<Rightarrow> source_world \<Rightarrow>
     serverFileSources option \<times> source_world" where
  "newServerFileSources os cfg src cat w =
     (let (a, w1) = newServerFileSourcesFromConfig os cfg w;
          (b, w2) = newServerFileSourcesFromCatalog os cat w1
      in mergeServerFileSources os [newServerFileSourcesFromSource src, a, b] w2)"

section \<open>Adding and closing\<close>

text \<open>The two halves of \<open>addOwnedRoot\<close>: what it opens, and the decision under the lock.\<close>

definition add_open :: "source_os \<Rightarrow> string \<Rightarrow> serverFileSources \<Rightarrow> source_world \<Rightarrow> LocalFS option \<times> source_world" where
  "add_open os base s w =
     (if base = [] \<or> serverFileSourceListContainsRoot (so_cwd os) (fs_sources s) base then (None, w)
      else serverFileSourceFromRoot os base w)"

definition add_commit :: "source_os \<Rightarrow> string \<Rightarrow> LocalFS \<Rightarrow> serverFileSources \<times> source_world \<Rightarrow> serverFileSources \<times> source_world" where
  "add_commit os base files = (\<lambda>(s, w).
     let entry = \<lparr> fe_files = files, fe_owned = True \<rparr>
     in if fs_closed s \<or> serverFileSourceListContainsRoot (so_cwd os) (fs_sources s) base then discardOwned os entry (s, w)
        else (s\<lparr>fs_sources := fs_sources s @ [entry]\<rparr>, w))"

definition addOwnedRoot :: "source_os \<Rightarrow> string \<Rightarrow> serverFileSources \<times> source_world \<Rightarrow> serverFileSources \<times> source_world" where
  "addOwnedRoot os base = (\<lambda>(s, w).
     case add_open os base s w of (None, w') \<Rightarrow> (s, w') | (Some files, w') \<Rightarrow> add_commit os base files (s, w'))"

definition refreshServerFileSources ::
    "source_os \<Rightarrow> serverFileSources option \<Rightarrow> (string \<times> string) option \<Rightarrow> IndexedCatalog option \<Rightarrow> source_world \<Rightarrow>
     serverFileSources option \<times> source_world" where
  "refreshServerFileSources os current cfg cat w =
     (let s0 = (case current of None \<Rightarrow> newServerFileSourcesWithEntries [] | Some s \<Rightarrow> s);
          (s1, w1) = (case cfg of
                        None \<Rightarrow> (s0, w)
                      | Some (assetsRoot, cacheDir) \<Rightarrow> addOwnedRoot os cacheDir (addOwnedRoot os assetsRoot (s0, w)));
          (s2, w2) = (case cat of
                        None \<Rightarrow> (s1, w1)
                      | Some c \<Rightarrow> addOwnedRoot os (case catalogFileSourceRoot (so_cwd os) c of None \<Rightarrow> [] | Some r \<Rightarrow> r) (s1, w1))
      in (if fs_sources s2 = [] then None else Some s2, w2))"

definition cleanupOwnedSource ::
    "source_os \<Rightarrow> LocalFS list \<times> serverFileSources \<times> source_world \<Rightarrow> serverFileSource \<Rightarrow>
     LocalFS list \<times> serverFileSources \<times> source_world" where
  "cleanupOwnedSource os = (\<lambda>(cleaned, s, w) entry.
     if \<not> fe_owned entry \<or> fe_files entry \<in> set cleaned then (cleaned, s, w)
     else (case source_Cleanup os (fe_files entry) w of (errs, w') \<Rightarrow> (fe_files entry # cleaned, recordCleanupError errs s, w')))"

definition cleanupOwnedSources ::
    "source_os \<Rightarrow> serverFileSource list \<Rightarrow> serverFileSources \<times> source_world \<Rightarrow> serverFileSources \<times> source_world" where
  "cleanupOwnedSources os sources = (\<lambda>(s, w). snd (foldl (cleanupOwnedSource os) ([], s, w) sources))"

definition sources_Cleanup :: "source_os \<Rightarrow> serverFileSources \<times> source_world \<Rightarrow> serverFileSources \<times> source_world" where
  "sources_Cleanup os = (\<lambda>(s, w).
     if fs_closed s then (s, w) else cleanupOwnedSources os (fs_sources s) (s\<lparr>fs_closed := True\<rparr>, w))"

section \<open>Opening files\<close>

text \<open>The first source that opens the path; the errors of all when none does.\<close>

fun open_first :: "('s \<Rightarrow> 'a io) \<Rightarrow> 's list \<Rightarrow> source_world \<Rightarrow> (source_error list + 'a) \<times> source_world" where
  "open_first f [] w = (Inl [], w)"
| "open_first f (s # ss) w =
     (case f s w of
        (Inr x, w') \<Rightarrow> (Inr x, w')
      | (Inl e, w') \<Rightarrow> (case open_first f ss w' of (Inl es, w'') \<Rightarrow> (Inl (e # es), w'') | (Inr x, w'') \<Rightarrow> (Inr x, w'')))"

definition sources_OpenFile ::
    "source_os \<Rightarrow> serverFileSources option \<Rightarrow> string \<Rightarrow> source_world \<Rightarrow> (source_error list + nat \<times> file_info) \<times> source_world" where
  "sources_OpenFile os s p w =
     (case s of
        None \<Rightarrow> (Inl [RootRequired], w)
      | Some fs \<Rightarrow>
          if fs_sources fs = [] then (Inl [RootRequired], w)
          else open_first (\<lambda>e. source_OpenFile os (fe_files e) p) (fs_sources fs) w)"

definition sources_ReadFile ::
    "source_os \<Rightarrow> serverFileSources option \<Rightarrow> string \<Rightarrow> source_world \<Rightarrow> (source_error list + bytes) \<times> source_world" where
  "sources_ReadFile os s p w =
     (case sources_OpenFile os s p w of
        (Inl es, w') \<Rightarrow> (Inl es, w')
      | (Inr (file, _), w') \<Rightarrow> (case read_all os id file w' of (Inl e, w'') \<Rightarrow> (Inl [e], w'') | (Inr b, w'') \<Rightarrow> (Inr b, w'')))"

text \<open>\<open>searchTrustedReadOnlyPath\<close>: the first trusted answer, and the errors before it.\<close>

fun searchTrustedReadOnlyPath ::
    "source_os \<Rightarrow> string \<Rightarrow> serverFileSource list \<Rightarrow> source_world \<Rightarrow> ((nat \<times> string) option \<times> source_error list) \<times> source_world" where
  "searchTrustedReadOnlyPath os p [] w = ((None, []), w)"
| "searchTrustedReadOnlyPath os p (e # es) w =
     (case TrustedReadOnlyPath os (fe_files e) p w of
        (Inr (Some x), w') \<Rightarrow> ((Some x, []), w')
      | (Inr None, w') \<Rightarrow> searchTrustedReadOnlyPath os p es w'
      | (Inl err, w') \<Rightarrow> (case searchTrustedReadOnlyPath os p es w' of ((r, errs), w'') \<Rightarrow> ((r, err # errs), w'')))"

definition sources_TrustedReadOnlyPath ::
    "source_os \<Rightarrow> serverFileSources option \<Rightarrow> string \<Rightarrow> source_world \<Rightarrow> (source_error list + (nat \<times> string) option) \<times> source_world" where
  "sources_TrustedReadOnlyPath os s p w =
     (case s of
        None \<Rightarrow> (Inr None, w)
      | Some fs \<Rightarrow>
          (case searchTrustedReadOnlyPath os p (fs_sources fs) w of
             ((Some x, _), w') \<Rightarrow> (Inr (Some x), w')
           | ((None, []), w') \<Rightarrow> (Inr None, w')
           | ((None, errs), w') \<Rightarrow> (Inl errs, w')))"

section \<open>The common directory\<close>

abbreviation abs_of :: "string list \<Rightarrow> string" where "abs_of xs \<equiv> CHR ''/'' # join_with ''/'' xs"

lemma path_dir_rooted:
  assumes "proper xs"
  shows "path_dir (abs_of xs) = abs_of (butlast xs)"
proof (cases "xs = []")
  case True
  have "path_dir ''/'' = ''/''" by code_simp
  with True show ?thesis by simp
next
  case False
  define ys x where "ys = butlast xs" and "x = last xs"
  have xs: "xs = ys @ [x]" using False by (simp add: ys_def x_def)
  have pr: "proper ys" "proper [x]" using assms xs by simp_all
  have dn: "dropWhile (\<lambda>c. c \<noteq> CHR ''/'') (rev x) = []" using pr(2) by (auto simp: dropWhile_eq_Nil_conv)
  show ?thesis
  proof (cases "ys = []")
    case True
    have "dropWhile (\<lambda>c. c \<noteq> CHR ''/'') (rev (abs_of [x])) = ''/''"
      using pr(2) by (simp add: dropWhile_append dn)
    moreover have "path_clean ''/'' = ''/''" by code_simp
    ultimately show ?thesis using True by (simp add: path_dir_def xs)
  next
    case False
    have "dropWhile (\<lambda>c. c \<noteq> CHR ''/'') (rev (CHR ''/'' # join_with ''/'' ys @ ''/'' @ x)) = rev (CHR ''/'' # join_with ''/'' ys @ ''/'')"
      using pr(2) by (simp add: dropWhile_append)
    moreover have "path_clean (CHR ''/'' # join_with ''/'' ys @ ''/'') = abs_of ys"
    proof -
      have "split_on CHR ''/'' (join_with ''/'' ys @ ''/'') = ys @ [[]]"
        using split_proper [OF False pr(1)] by (simp add: split_on_snoc_sep)
      then show ?thesis using pr(1) by (simp add: path_clean_rooted clean_segs_snoc_Nil clean_proper)
    qed
    moreover have "join_with ''/'' xs = join_with ''/'' ys @ ''/'' @ x" using join_append [OF False, of "[x]"] xs by simp
    ultimately show ?thesis by (simp add: path_dir_def xs)
  qed
qed

lemma pathWithinDirectory_iff:
  assumes r: "proper r" and t: "proper t"
  shows "pathWithinDirectory (abs_of r) (abs_of t) \<longleftrightarrow> prefix r t"
proof
  assume w: "pathWithinDirectory (abs_of r) (abs_of t)"
  show "prefix r t"
  proof (cases "unsafeArtifactFilesystemPath (path_rel (abs_of r) (abs_of t))")
    case False
    from path_rel_safe [OF r t False] show ?thesis by auto
  next
    case True
    with w have dot: "path_rel (abs_of r) (abs_of t) = ''.''"
      by (auto simp: pathWithinDirectory_def unsafeArtifactFilesystemPath_def Let_def)
    have "abs_of r = abs_of t"
    proof (rule ccontr)
      assume ne: "abs_of r \<noteq> abs_of t"
      obtain bs ts where st: "strip_common r t = (bs, ts)" by (cases "strip_common r t")
      from strip_common_split [OF st] t have ts: "proper ts" by auto
      have j: "join_with ''/'' (replicate (length bs) ''..'' @ ts) = ''.''"
        using dot ne r t st by (simp add: path_rel_def path_clean_rooted_proper path_segs_rooted)
      then have l: "replicate (length bs) ''..'' @ ts \<noteq> []" by auto
      have "split_on CHR ''/'' (join_with ''/'' (replicate (length bs) ''..'' @ ts)) = replicate (length bs) ''..'' @ ts"
        using ts by (intro split_join [OF l]) (auto simp: proper_def)
      then have "replicate (length bs) ''..'' @ ts = [''.'']" using j by simp
      with ts show False by (cases bs) (auto simp: is_canonical_def)
    qed
    then have "r = t" using path_segs_rooted [OF r] path_segs_rooted [OF t] by metis
    then show ?thesis by simp
  qed
next
  assume "prefix r t"
  then obtain xs where t': "t = r @ xs" by (auto simp: prefix_def)
  show "pathWithinDirectory (abs_of r) (abs_of t)"
  proof (cases "xs = []")
    case True
    with t' show ?thesis by (simp add: pathWithinDirectory_def path_rel_def)
  next
    case False
    have xs: "proper xs" using t t' by simp
    have rel: "path_rel (abs_of r) (abs_of t) = join_with ''/'' xs" using path_rel_append [OF r xs False] t' by simp
    obtain c u where cu: "join_with ''/'' xs = c # u" "c \<noteq> CHR ''/''" using proper_join_ne [OF False xs] by blast
    have sp: "split_on CHR ''/'' (join_with ''/'' xs) = xs" by (rule split_proper [OF False xs])
    have "join_with ''/'' xs \<noteq> ''..''"
    proof
      assume "join_with ''/'' xs = ''..''"
      with sp have "xs = [''..'']" by simp
      with xs show False by (simp add: is_canonical_def)
    qed
    moreover have "\<not> has_prefix (join_with ''/'' xs) ''../''"
    proof
      assume "has_prefix (join_with ''/'' xs) ''../''"
      then obtain v where "join_with ''/'' xs = ''../'' @ v" by (auto simp: gostr prefix_def)
      with sp have "xs = ''..'' # split_on CHR ''/'' v" by simp
      with xs show False by (simp add: is_canonical_def)
    qed
    ultimately show ?thesis using cu by (simp add: pathWithinDirectory_def rel path_is_abs_def gostr)
  qed
qed

lemma common_loop_finds:
  assumes "proper r" "proper t" "length r < n"
  shows "common_loop n (abs_of r) (abs_of t) = Some (abs_of (longest_common_prefix r t))"
  using assms
proof (induction n arbitrary: r)
  case (Suc n)
  show ?case
  proof (cases "prefix r t")
    case True
    then have "longest_common_prefix r t = r"
      by (intro prefix_order.antisym longest_common_prefix_prefix1 longest_common_prefix_max_prefix) auto
    with True Suc.prems show ?thesis by (simp add: pathWithinDirectory_iff)
  next
    case False
    then have ne: "r \<noteq> []" by auto
    have b: "proper (butlast r)" using Suc.prems(1) by (auto simp: proper_def dest: in_set_butlastD)
    have "abs_of (butlast r) \<noteq> abs_of r"
      using path_segs_rooted [OF b] path_segs_rooted [OF Suc.prems(1)] ne
      by (metis append_butlast_last_id append_self_conv not_Cons_self2)
    moreover have "longest_common_prefix r t = longest_common_prefix (butlast r) t"
    proof -
      have l: "longest_common_prefix r t \<noteq> r" using False longest_common_prefix_prefix2 by metis
      with longest_common_prefix_prefix1 [of r t] have "prefix (longest_common_prefix r t) (butlast r)"
        by (metis append_butlast_last_id ne prefix_snoc)
      then show ?thesis
        by (intro prefix_order.antisym longest_common_prefix_max_prefix longest_common_prefix_prefix2)
          (use longest_common_prefix_prefix1 [of "butlast r" t] prefixeq_butlast [of r] in \<open>auto intro: prefix_order.trans\<close>)
    qed
    moreover have "common_loop n (abs_of (butlast r)) (abs_of t) = Some (abs_of (longest_common_prefix (butlast r) t))"
      using Suc.prems ne by (intro Suc.IH b) (cases r rule: rev_cases; simp)+
    ultimately show ?thesis using False Suc.prems by (simp add: pathWithinDirectory_iff path_dir_rooted)
  qed
qed simp

lemma length_abs_of: "proper r \<Longrightarrow> length r \<le> length (join_with ''/'' r)"
proof (induction r)
  case (Cons x r)
  then show ?case by (cases r) (auto simp: is_canonical_def Suc_le_eq)
qed simp

lemma commonDirectoryRoot_rooted:
  assumes "proper r" "proper t"
  shows "commonDirectoryRoot (abs_of r) (abs_of t) = Some (abs_of (longest_common_prefix r t))"
proof -
  have "common_loop (Suc (length (abs_of r))) (abs_of r) (abs_of t) = Some (abs_of (longest_common_prefix r t))"
    by (rule common_loop_finds [OF assms]) (use length_abs_of [OF assms(1)] in simp)
  then show ?thesis unfolding commonDirectoryRoot_def Let_def path_clean_rooted_proper [OF assms(1)] .
qed

text \<open>The files that count, and the segments of their directory.\<close>

definition plain_path :: "string \<Rightarrow> bool" where
  "plain_path p \<longleftrightarrow> trim_space p \<noteq> [] \<and> \<not> IsReference p"

definition dir_segs :: "string \<Rightarrow> string \<Rightarrow> string list" where
  "dir_segs cwd p = butlast (path_segs (path_abs cwd (path_clean p)))"

lemma dir_segs_proper:
  assumes "path_is_abs cwd"
  shows "proper (dir_segs cwd p)" "path_dir (path_abs cwd (path_clean p)) = abs_of (dir_segs cwd p)"
proof -
  obtain xs where xs: "proper xs" "path_abs cwd (path_clean p) = abs_of xs" using path_abs_proper [OF assms] by blast
  then have d: "dir_segs cwd p = butlast xs" using path_segs_rooted [OF xs(1)] by (simp add: dir_segs_def)
  show "proper (dir_segs cwd p)" unfolding d using xs(1) by (auto simp: proper_def dest: in_set_butlastD)
  show "path_dir (path_abs cwd (path_clean p)) = abs_of (dir_segs cwd p)" using path_dir_rooted [OF xs(1)] xs(2) d by simp
qed

definition common_step :: "string \<Rightarrow> string option \<Rightarrow> string \<Rightarrow> string option" where
  "common_step cwd r p = (case r of None \<Rightarrow> None | Some base \<Rightarrow> commonCatalogFileRoot cwd base p)"

lemma common_step_skip: "\<not> plain_path p \<Longrightarrow> common_step cwd (Some base) p = Some base"
  by (auto simp: common_step_def commonCatalogFileRoot_def plain_path_def)

lemma common_step_rooted:
  assumes "path_is_abs cwd" "plain_path p" "proper r"
  shows "common_step cwd (Some (abs_of r)) p = Some (abs_of (longest_common_prefix r (dir_segs cwd p)))"
    "common_step cwd (Some []) p = Some (abs_of (dir_segs cwd p))"
  using assms dir_segs_proper [OF assms(1), of p] commonDirectoryRoot_rooted [OF assms(3) dir_segs_proper(1)]
  by (auto simp: common_step_def commonCatalogFileRoot_def plain_path_def Let_def)

lemma common_fold:
  assumes "path_is_abs cwd" "proper r"
  shows "\<exists>cs. foldl (common_step cwd) (Some (abs_of r)) ps = Some (abs_of cs) \<and> proper cs \<and> prefix cs r \<and>
    (\<forall>p\<in>set ps. plain_path p \<longrightarrow> prefix cs (dir_segs cwd p)) \<and>
    (\<forall>qs. prefix qs r \<and> (\<forall>p\<in>set ps. plain_path p \<longrightarrow> prefix qs (dir_segs cwd p)) \<longrightarrow> prefix qs cs)"
  using assms(2)
proof (induction ps arbitrary: r)
  case Nil
  then show ?case by auto
next
  case (Cons p ps)
  show ?case
  proof (cases "plain_path p")
    case False
    with Cons.IH [OF Cons.prems] show ?thesis by (simp add: common_step_skip)
  next
    case True
    define l where "l = longest_common_prefix r (dir_segs cwd p)"
    have pl: "prefix l r" "prefix l (dir_segs cwd p)"
      unfolding l_def by (rule longest_common_prefix_prefix1, rule longest_common_prefix_prefix2)
    have "proper l" using Cons.prems pl(1) by (auto simp: prefix_def)
    from Cons.IH [OF this] obtain cs where cs: "foldl (common_step cwd) (Some (abs_of l)) ps = Some (abs_of cs)" "proper cs" "prefix cs l"
      "\<forall>p\<in>set ps. plain_path p \<longrightarrow> prefix cs (dir_segs cwd p)"
      "\<And>qs. prefix qs l \<Longrightarrow> \<forall>p\<in>set ps. plain_path p \<longrightarrow> prefix qs (dir_segs cwd p) \<Longrightarrow> prefix qs cs" by blast
    have "foldl (common_step cwd) (Some (abs_of r)) (p # ps) = Some (abs_of cs)"
      using common_step_rooted(1) [OF assms(1) True Cons.prems] cs(1) by (simp add: l_def)
    moreover have "prefix cs r" "prefix cs (dir_segs cwd p)" using cs(3) pl by (auto intro: prefix_order.trans)
    moreover have "prefix qs cs" if "prefix qs r" "\<forall>p\<in>set (p # ps). plain_path p \<longrightarrow> prefix qs (dir_segs cwd p)" for qs
      using that True by (intro cs(5)) (auto simp: l_def intro: longest_common_prefix_max_prefix)
    ultimately show ?thesis using cs(2,4) by (intro exI [of _ cs]) auto
  qed
qed

lemma common_fold_empty:
  assumes "path_is_abs cwd"
  shows "if list_ex plain_path ps
    then \<exists>cs. foldl (common_step cwd) (Some []) ps = Some (abs_of cs) \<and> proper cs \<and>
      (\<forall>p\<in>set ps. plain_path p \<longrightarrow> prefix cs (dir_segs cwd p)) \<and>
      (\<forall>qs. (\<forall>p\<in>set ps. plain_path p \<longrightarrow> prefix qs (dir_segs cwd p)) \<longrightarrow> prefix qs cs)
    else foldl (common_step cwd) (Some []) ps = Some []"
proof (induction ps)
  case (Cons p ps)
  show ?case
  proof (cases "plain_path p")
    case False
    with Cons show ?thesis by (simp add: common_step_skip)
  next
    case True
    have d: "proper (dir_segs cwd p)" by (rule dir_segs_proper(1) [OF assms])
    from common_fold [OF assms this, of ps] obtain cs where
      cs: "foldl (common_step cwd) (Some (abs_of (dir_segs cwd p))) ps = Some (abs_of cs)" "proper cs" "prefix cs (dir_segs cwd p)"
      "\<forall>p\<in>set ps. plain_path p \<longrightarrow> prefix cs (dir_segs cwd p)"
      "\<forall>qs. prefix qs (dir_segs cwd p) \<and> (\<forall>p\<in>set ps. plain_path p \<longrightarrow> prefix qs (dir_segs cwd p)) \<longrightarrow> prefix qs cs" by blast
    moreover have "foldl (common_step cwd) (Some []) (p # ps) = Some (abs_of cs)"
      using common_step_rooted(2) [OF assms True d] cs(1) by simp
    ultimately show ?thesis using True by (simp, intro exI [of _ cs]) auto
  qed
qed simp

text \<open>C36: The root that the server derives from a catalog is the deepest directory that has all the files of the catalog
  below it: the directory of every asset and every stored variant begins with it, and every directory with that property
  is a prefix of it.  References into bundles and blank paths do not count, and without a plain file there is no root.  The
  loop over the parents always ends.\<close>

theorem catalogFileSourceRoot_deepest:
  assumes "path_is_abs cwd"
  shows "\<exists>base. catalogFileSourceRoot cwd c = Some base \<and>
    (let ps = filter plain_path (map a_FullPath (fst (AllAssets c)) @ map v_ArtifactPath (fst (AllVariants (snd (AllAssets c)))))
     in if ps = [] then base = []
        else \<exists>cs. base = CHR ''/'' # join_with ''/'' cs \<and>
               (\<forall>qs. prefix qs cs \<longleftrightarrow> list_all (\<lambda>p. prefix qs (dir_segs cwd p)) ps))"
proof -
  define ps where "ps = map a_FullPath (fst (AllAssets c)) @ map v_ArtifactPath (fst (AllVariants (snd (AllAssets c))))"
  have root: "catalogFileSourceRoot cwd c = foldl (common_step cwd) (Some []) ps"
    by (simp add: catalogFileSourceRoot_def ps_def common_step_def [abs_def] split: prod.split)
  show ?thesis
  proof (cases "list_ex plain_path ps")
    case False
    then have "filter plain_path ps = []" by (auto simp: list_ex_iff filter_empty_conv)
    with common_fold_empty [OF assms, of ps] False show ?thesis by (simp add: root ps_def Let_def)
  next
    case True
    then have ne: "filter plain_path ps \<noteq> []" by (auto simp: list_ex_iff filter_empty_conv)
    from common_fold_empty [OF assms, of ps] True obtain cs where cs: "foldl (common_step cwd) (Some []) ps = Some (abs_of cs)"
      "\<forall>p\<in>set ps. plain_path p \<longrightarrow> prefix cs (dir_segs cwd p)"
      "\<forall>qs. (\<forall>p\<in>set ps. plain_path p \<longrightarrow> prefix qs (dir_segs cwd p)) \<longrightarrow> prefix qs cs" by auto
    have "prefix qs cs \<longleftrightarrow> list_all (\<lambda>p. prefix qs (dir_segs cwd p)) (filter plain_path ps)" for qs
      using cs(2,3) by (auto simp: list_all_iff intro: prefix_order.trans)
    with ne cs(1) show ?thesis by (auto simp: root Let_def simp flip: ps_def)
  qed
qed

section \<open>Who closes what\<close>

text \<open>The open handles are those of \<open>H\<close>, which belong to others, and one for every source of \<open>F\<close>, which is open.\<close>

definition balanced :: "nat list \<Rightarrow> source_world \<Rightarrow> LocalFS multiset \<Rightarrow> bool" where
  "balanced H w F \<longleftrightarrow>
     mset (sw_handles w) = mset H + image_mset lf_dir F \<and> distinct (sw_handles w) \<and>
     (\<forall>h\<in>set (sw_handles w). h < sw_now w \<and> sw_closed w h = None) \<and> (\<forall>h. sw_closed w h \<noteq> None \<longrightarrow> h < sw_now w)"

lemma balanced_keep:
  assumes "balanced H w F" "sw_handles w' = sw_handles w" "sw_closed w' = sw_closed w" "sw_now w \<le> sw_now w'"
  shows "balanced H w' F"
  using assms by (auto simp: balanced_def intro: less_le_trans)

lemma balanced_member: "balanced H w F \<Longrightarrow> f \<in># F \<Longrightarrow> lf_dir f \<in> set (sw_handles w)"
  by (metis balanced_def image_eqI set_image_mset set_mset_mset set_mset_union UnI2)

text \<open>The handle of a new source is new.\<close>

lemma resolveLocalFSDirectoryRoot_fresh:
  assumes "resolveLocalFSDirectoryRoot os p w = (Inr (h, i), w')"
  shows "h = sw_now w \<and> h < sw_now w'"
proof -
  obtain v where "open_handle (\<lambda>t. so_open_root os t p) w = (Inr h, v)"
    and "after (ask (\<lambda>t. so_root_stat os t h)) (\<lambda>openedInfo.
        after (ask (\<lambda>t. so_lstat os t p)) (\<lambda>currentInfo.
        after (unless_error (validateOpenedDirectoryRoot openedInfo currentInfo)) (\<lambda>_. give (h, currentInfo)))) v = (Inr (h, i), w')"
    using assms by (auto simp: resolveLocalFSDirectoryRoot_def io_Inr)
  then show ?thesis by (auto simp: io_Inr)
qed

lemma NewLocalDirectory_fresh:
  assumes "NewLocalDirectory os p w = (Inr (Some f), w')"
  shows "sw_now w \<le> lf_dir f \<and> lf_dir f < sw_now w'"
proof -
  define q where "q = path_abs (so_cwd os) (path_clean (trim_space p))"
  obtain h i v where "resolveLocalFSDirectoryRoot os q v = (Inr (h, i), w')" "v = w\<lparr>sw_now := Suc (sw_now w)\<rparr>" "lf_dir f = h"
    using assms by (auto simp: NewLocalDirectory_def Let_def q_def io_Inr split: if_splits)
  with resolveLocalFSDirectoryRoot_fresh show ?thesis by fastforce
qed

lemma balanced_open:
  assumes b: "balanced H w F" and o: "serverFileSourceFromRoot os p w = (r, w')"
  shows "balanced H w' (case r of None \<Rightarrow> F | Some f \<Rightarrow> add_mset f F)"
proof (cases "NewLocalDirectory os p w")
  case (Pair x v)
  note n = opens_NewLocalDirectory [of os p]
  show ?thesis
  proof (cases x)
    case (Inl e)
    with o Pair have "r = None" "w' = v" by (auto simp: serverFileSourceFromRoot_def)
    with opens_Inl [OF n, of w e v] Pair Inl b show ?thesis by (auto intro: balanced_keep)
  next
    case (Inr y)
    with o Pair have r: "r = y" "w' = v" by (auto simp: serverFileSourceFromRoot_def)
    show ?thesis
    proof (cases y)
      case None
      with opens_Inr [OF n, of w y v] Pair Inr b r show ?thesis by (auto intro: balanced_keep)
    next
      case (Some f)
      have fresh: "sw_now w \<le> lf_dir f" "lf_dir f < sw_now w'"
        using NewLocalDirectory_fresh [of os p w f v] Pair Inr Some r by auto
      have e: "sw_closed w' = sw_closed w" "sw_now w \<le> sw_now w'" "sw_handles w' = lf_dir f # sw_handles w"
        using opens_Inr [OF n, of w y v] Pair Inr Some r by auto
      have "lf_dir f \<notin> set (sw_handles w)" "sw_closed w (lf_dir f) = None"
        using b fresh(1) by (fastforce simp: balanced_def)+
      with b e fresh r Some show ?thesis by (auto simp: balanced_def intro: less_le_trans)
    qed
  qed
qed

lemma balanced_close:
  assumes b: "balanced H w (add_mset f F)" and c: "source_Cleanup os f w = (errs, w')"
  shows "balanced H w' F"
proof -
  have m: "lf_dir f \<in> set (sw_handles w)" using balanced_member [OF b] by simp
  then have o: "sw_closed w (lf_dir f) = None" "lf_dir f < sw_now w" using b by (auto simp: balanced_def)
  have e: "sw_handles w' = remove1 (lf_dir f) (sw_handles w)" "sw_now w \<le> sw_now w'"
    "\<exists>x. sw_closed w' = (sw_closed w)(lf_dir f \<mapsto> x)"
    using c o by (auto simp: source_Cleanup_def close_resources_def Let_def close_handle_def split: option.splits prod.splits)
  have "mset (sw_handles w') = mset H + image_mset lf_dir F"
    using b m e(1) by (simp add: balanced_def)
  moreover have "distinct (sw_handles w')" "lf_dir f \<notin> set (sw_handles w')" "set (sw_handles w') \<subseteq> set (sw_handles w)"
    using b e(1) by (auto simp: balanced_def set_remove1_subset dest: notin_set_remove1)
  moreover obtain x where x: "sw_closed w' = (sw_closed w)(lf_dir f \<mapsto> x)" using e(3) by blast
  have "h < sw_now w'" if "sw_closed w' h \<noteq> None" for h
    using that b e(2) o by (cases "h = lf_dir f") (auto simp: balanced_def x intro: less_le_trans)
  ultimately show ?thesis using b e(2) by (auto simp: balanced_def x intro: less_le_trans)
qed

definition owned :: "serverFileSource list \<Rightarrow> LocalFS multiset" where
  "owned es = mset (map fe_files (filter fe_owned es))"

lemma owned_simps [simp]:
  "owned [] = {#}" "owned (es @ fs) = owned es + owned fs"
  "owned (e # es) = (if fe_owned e then add_mset (fe_files e) (owned es) else owned es)"
  by (auto simp: owned_def)

lemma in_owned: "k \<in> set es \<Longrightarrow> fe_owned k \<Longrightarrow> fe_files k \<in># owned es"
  by (auto simp: owned_def)

lemma balanced_discard:
  assumes "balanced H w (owned [e] + F)" "discardOwned os e (s, w) = (s', w')"
  shows "balanced H w' F" "fs_sources s' = fs_sources s" "fs_closed s' = fs_closed s"
  using assms balanced_close [of H w "fe_files e" F os]
  by (auto simp: discardOwned_def recordCleanupError_def split: if_splits prod.splits)

lemma balanced_commit:
  assumes b: "balanced H w (add_mset f (if fs_closed s then {#} else owned (fs_sources s)) + P)"
    and c: "add_commit os base f (s, w) = (s', w')"
  shows "balanced H w' ((if fs_closed s' then {#} else owned (fs_sources s')) + P)"
proof -
  let ?e = "\<lparr> fe_files = f, fe_owned = True \<rparr>"
  show ?thesis
  proof (cases "fs_closed s \<or> serverFileSourceListContainsRoot (so_cwd os) (fs_sources s) base")
    case True
    then have d: "discardOwned os ?e (s, w) = (s', w')" using c by (simp add: add_commit_def Let_def)
    have "balanced H w (owned [?e] + ((if fs_closed s then {#} else owned (fs_sources s)) + P))" using b by simp
    from balanced_discard [OF this d] show ?thesis by (cases "fs_closed s") simp_all
  next
    case False
    with b c show ?thesis by (auto simp: add_commit_def Let_def)
  qed
qed

lemma balanced_addOwnedRoot:
  assumes b: "balanced H w ((if fs_closed s then {#} else owned (fs_sources s)) + P)"
    and a: "addOwnedRoot os base (s, w) = (s', w')"
  shows "balanced H w' ((if fs_closed s' then {#} else owned (fs_sources s')) + P)"
proof -
  obtain r v where o: "add_open os base s w = (r, v)" by (cases "add_open os base s w")
  have v: "balanced H v (case r of None \<Rightarrow> (if fs_closed s then {#} else owned (fs_sources s)) + P
      | Some f \<Rightarrow> add_mset f ((if fs_closed s then {#} else owned (fs_sources s)) + P))"
    using o b balanced_open [OF b, of os base] by (auto simp: add_open_def split: if_splits)
  show ?thesis
  proof (cases r)
    case None
    with a o v show ?thesis by (auto simp: addOwnedRoot_def)
  next
    case (Some f)
    with v have "balanced H v (add_mset f (if fs_closed s then {#} else owned (fs_sources s)) + P)" by simp
    moreover have "add_commit os base f (s, v) = (s', w')" using a o Some by (simp add: addOwnedRoot_def)
    ultimately show ?thesis by (rule balanced_commit)
  qed
qed

text \<open>Closing the owned sources one after the other.\<close>

lemma balanced_cleanup_loop:
  assumes "balanced H w (owned es + P)" and "foldl (cleanupOwnedSource os) (cl, s, w) es = (cl', s', w')"
    and "\<forall>f\<in>set cl. sw_closed w (lf_dir f) \<noteq> None"
  shows "balanced H w' P \<and> fs_sources s' = fs_sources s \<and> fs_closed s' = fs_closed s"
  using assms
proof (induction es arbitrary: cl s w)
  case Nil
  then show ?case by simp
next
  case (Cons e es)
  obtain cl1 s1 w1 where step: "cleanupOwnedSource os (cl, s, w) e = (cl1, s1, w1)"
    by (cases "cleanupOwnedSource os (cl, s, w) e")
  have b: "balanced H w (owned (e # es) + P)" and cl: "\<forall>f\<in>set cl. sw_closed w (lf_dir f) \<noteq> None"
    using Cons.prems(1,3) by blast+
  have one: "balanced H w1 (owned es + P) \<and> (\<forall>f\<in>set cl1. sw_closed w1 (lf_dir f) \<noteq> None) \<and>
        fs_sources s1 = fs_sources s \<and> fs_closed s1 = fs_closed s"
    proof (cases "fe_owned e")
      case False
      with b cl step show ?thesis by (simp add: cleanupOwnedSource_def)
    next
      case True
      have "lf_dir (fe_files e) \<in> set (sw_handles w)" using balanced_member [OF b] True by simp
      then have o: "sw_closed w (lf_dir (fe_files e)) = None" using b by (auto simp: balanced_def)
      with cl have nc: "fe_files e \<notin> set cl" by auto
      obtain errs v where c: "source_Cleanup os (fe_files e) w = (errs, v)" by (cases "source_Cleanup os (fe_files e) w")
      have "balanced H w (add_mset (fe_files e) (owned es + P))" using b True by simp
      from balanced_close [OF this c] have "balanced H v (owned es + P)" .
      moreover have "\<exists>x. sw_closed v = (sw_closed w)(lf_dir (fe_files e) \<mapsto> x)"
        using c o by (auto simp: source_Cleanup_def close_resources_def Let_def close_handle_def split: option.splits prod.splits)
      ultimately show ?thesis using step True nc cl c by (auto simp: cleanupOwnedSource_def recordCleanupError_def)
    qed
  have "foldl (cleanupOwnedSource os) (cl1, s1, w1) es = (cl', s', w')" using Cons.prems(2) step by simp
  from Cons.IH [OF _ this] one show ?case by simp
qed

lemma balanced_Cleanup:
  assumes b: "balanced H w ((if fs_closed s then {#} else owned (fs_sources s)) + P)"
    and c: "sources_Cleanup os (s, w) = (s', w')"
  shows "balanced H w' P" "fs_closed s'"
proof -
  have "balanced H w' P \<and> fs_closed s'"
  proof (cases "fs_closed s")
    case True
    with b c show ?thesis by (simp add: sources_Cleanup_def)
  next
    case False
    obtain cl where f: "foldl (cleanupOwnedSource os) ([], s\<lparr>fs_closed := True\<rparr>, w) (fs_sources s) = (cl, s', w')"
      using c False by (cases "foldl (cleanupOwnedSource os) ([], s\<lparr>fs_closed := True\<rparr>, w) (fs_sources s)")
        (auto simp: sources_Cleanup_def cleanupOwnedSources_def)
    have "balanced H w (owned (fs_sources s) + P)" using b False by simp
    from balanced_cleanup_loop [OF this f] show ?thesis by simp
  qed
  then show "balanced H w' P" "fs_closed s'" by simp_all
qed

text \<open>Merging keeps the accounts.\<close>

lemma balanced_once:
  assumes "balanced H w (add_mset f F)"
  shows "lf_dir f \<notin> set H" "lf_dir f \<notin> lf_dir ` set_mset F"
proof -
  have m: "mset (sw_handles w) = add_mset (lf_dir f) (mset H + image_mset lf_dir F)" and d: "distinct (sw_handles w)"
    using assms by (simp_all add: balanced_def)
  have "count (mset (sw_handles w)) (lf_dir f) \<le> 1" using d by (simp only: distinct_count_atmost_1) auto
  then have "count (mset H + image_mset lf_dir F) (lf_dir f) = 0" unfolding m by simp
  then have "lf_dir f \<notin># mset H + image_mset lf_dir F" by (simp only: not_in_iff)
  then show "lf_dir f \<notin> set H" "lf_dir f \<notin> lf_dir ` set_mset F" by auto
qed

definition lent_ok :: "nat list \<Rightarrow> serverFileSource list \<Rightarrow> bool" where
  "lent_ok H es \<longleftrightarrow> (\<forall>e\<in>set es. \<not> fe_owned e \<longrightarrow> lf_dir (fe_files e) \<in> set H)"

definition merge_ok :: "nat list \<Rightarrow> LocalFS multiset \<Rightarrow> merge_state \<Rightarrow> bool" where
  "merge_ok H R st \<longleftrightarrow> (case st of ((ms, seen), m, w) \<Rightarrow>
     balanced H w (owned ms + R) \<and> lent_ok H ms \<and> snd ` set seen \<subseteq> fe_files ` set ms \<and> \<not> fs_closed m)"

lemma merge_entry_ok:
  assumes ok: "merge_ok H (owned [e] + R) st" and e: "lent_ok H [e]"
  shows "merge_ok H R (mergeServerFileSource os st e)"
proof -
  obtain ms seen m w where st: "st = ((ms, seen), m, w)" by (metis surj_pair)
  have b: "balanced H w (owned [e] + (owned ms + R))" and l: "lent_ok H ms" "snd ` set seen \<subseteq> fe_files ` set ms" "\<not> fs_closed m"
    using ok by (simp_all add: merge_ok_def st union_lcomm)
  have drop: "merge_ok H R ((ms, seen), discardOwned os e (m, w))"
    using balanced_discard [OF b] l by (cases "discardOwned os e (m, w)") (auto simp: merge_ok_def)
  let ?key = "serverFileSourceKey (so_cwd os) (lf_root (fe_files e))"
  show ?thesis
  proof (cases "lf_root (fe_files e) = []")
    case True
    with drop show ?thesis by (simp add: mergeServerFileSource_def st)
  next
    case False
    show ?thesis
    proof (cases "map_of seen ?key")
      case None
      have "set (AList.update ?key (fe_files e) seen) \<subseteq> insert (?key, fe_files e) (set seen)"
        by (induction seen) auto
      then have "snd ` set (AList.update ?key (fe_files e) seen) \<subseteq> fe_files ` set (ms @ [e])" using l(2) by fastforce
      moreover have "balanced H w (owned (ms @ [e]) + R)" using b by (simp add: ac_simps)
      moreover have "lent_ok H (ms @ [e])" using e l(1) by (auto simp: lent_ok_def)
      ultimately show ?thesis using False None l(3) by (simp add: mergeServerFileSource_def st merge_ok_def Let_def)
    next
      case (Some kept)
      show ?thesis
      proof (cases "kept = fe_files e")
        case False
        with drop Some \<open>lf_root (fe_files e) \<noteq> []\<close> show ?thesis by (simp add: mergeServerFileSource_def st Let_def)
      next
        case True
        have "kept \<in> fe_files ` set ms" using l(2) map_of_SomeD [OF Some] by force
        then obtain k where k: "k \<in> set ms" "fe_files k = fe_files e" using True by auto
        have "\<not> fe_owned e"
        proof
          assume o: "fe_owned e"
          with b have "balanced H w (add_mset (fe_files e) (owned ms + R))" by simp
          note once = balanced_once [OF this]
          have "fe_owned k"
          proof (rule ccontr)
            assume "\<not> fe_owned k"
            with k l(1) have "lf_dir (fe_files e) \<in> set H" by (auto simp: lent_ok_def)
            with once(1) show False by simp
          qed
          with in_owned [OF k(1)] k(2) have "fe_files e \<in># owned ms" by simp
          with once(2) show False by auto
        qed
        with b l have "merge_ok H R ((ms, seen), m, w)" by (simp add: merge_ok_def)
        with False Some True show ?thesis by (simp add: mergeServerFileSource_def st Let_def)
      qed
    qed
  qed
qed

definition entries :: "serverFileSources option \<Rightarrow> serverFileSource list" where
  "entries g = (case g of None \<Rightarrow> [] | Some s \<Rightarrow> fs_sources s)"

lemma merge_entries_ok:
  assumes "merge_ok H (owned es + R) st" "lent_ok H es"
  shows "merge_ok H R (foldl (mergeServerFileSource os) st es)"
  using assms
proof (induction es arbitrary: st)
  case (Cons e es)
  have "merge_ok H (owned [e] + (owned es + R)) st" using Cons.prems(1) by (simp split: if_splits)
  from merge_entry_ok [OF this] Cons.IH Cons.prems(2) show ?case by (simp add: lent_ok_def)
qed simp

lemma merge_group_ok:
  assumes "merge_ok H (owned (entries g) + R) st" "lent_ok H (entries g)"
  shows "merge_ok H R (mergeServerFileSourceGroup os st g)"
proof (cases g)
  case None
  with assms show ?thesis by (simp add: mergeServerFileSourceGroup_def entries_def)
next
  case (Some s)
  obtain ms m w where st: "st = (ms, m, w)" by (cases st)
  have "merge_ok H (owned (entries g) + R) (ms, recordCleanupError (fs_cleanupErr s) m, w)"
    using assms(1) by (simp add: st merge_ok_def recordCleanupError_def split: prod.splits)
  from merge_entries_ok [OF this assms(2)] Some show ?thesis
    by (simp add: mergeServerFileSourceGroup_def st entries_def)
qed

lemma merge_groups_ok:
  assumes "balanced H w (owned (concat (map entries gs)) + R)" "\<forall>g\<in>set gs. lent_ok H (entries g)"
    and "mergeServerFileSources os gs w = (r, w')"
  shows "balanced H w' (owned (entries r) + R)" "lent_ok H (entries r)" "\<forall>s. r = Some s \<longrightarrow> \<not> fs_closed s"
proof -
  have run: "merge_ok H R (foldl (mergeServerFileSourceGroup os) st gs)"
    if "merge_ok H (owned (concat (map entries gs)) + R) st" "\<forall>g\<in>set gs. lent_ok H (entries g)" for st gs
    using that
  proof (induction gs arbitrary: st)
    case (Cons g gs)
    have "merge_ok H (owned (entries g) + (owned (concat (map entries gs)) + R)) st" using Cons.prems(1) by (simp add: ac_simps)
    from merge_group_ok [OF this] Cons show ?case by simp
  qed simp
  have "merge_ok H (owned (concat (map entries gs)) + R) (([], []), newServerFileSourcesWithEntries [], w)"
    using assms(1) by (simp add: merge_ok_def lent_ok_def newServerFileSourcesWithEntries_def)
  from run [OF this assms(2)] assms(3)
  show "balanced H w' (owned (entries r) + R)" "lent_ok H (entries r)" "\<forall>s. r = Some s \<longrightarrow> \<not> fs_closed s"
    by (auto simp: mergeServerFileSources_def merge_ok_def entries_def lent_ok_def split: prod.splits if_splits)
qed

lemma balanced_fromRoot:
  assumes "balanced H w R" "newServerFileSourcesFromRoot os base w = (r, w')"
  shows "balanced H w' (owned (entries r) + R)" "lent_ok H (entries r)"
  using assms balanced_open [OF assms(1), of os base]
  by (auto simp: newServerFileSourcesFromRoot_def owned_sources_def entries_def newServerFileSourcesWithEntries_def lent_ok_def
      split: prod.splits option.splits)

lemma fromOptionalRoot_eq: "newServerFileSourcesFromOptionalRoot = newServerFileSourcesFromRoot"
  by (intro ext) (simp add: newServerFileSourcesFromOptionalRoot_def newServerFileSourcesFromRoot_def
      serverFileSourceFromOptionalRoot_def serverFileSourceFromRoot_def)

lemma balanced_fromConfig:
  assumes b: "balanced H w R" and c: "newServerFileSourcesFromConfig os cfg w = (r, w')"
  shows "balanced H w' (owned (entries r) + R)" "lent_ok H (entries r)"
proof -
  have "balanced H w' (owned (entries r) + R) \<and> lent_ok H (entries r)"
  proof (cases cfg)
    case None
    with b c show ?thesis by (simp add: newServerFileSourcesFromConfig_def entries_def lent_ok_def)
  next
    case (Some roots)
    obtain x y where roots: "roots = (x, y)" by (cases roots)
    obtain g v where g: "newServerFileSourcesFromRoot os x w = (g, v)" by (cases "newServerFileSourcesFromRoot os x w")
    obtain h u where h: "newServerFileSourcesFromRoot os y v = (h, u)" by (cases "newServerFileSourcesFromRoot os y v")
    note one = balanced_fromRoot [OF b g] and two = balanced_fromRoot [OF balanced_fromRoot(1) [OF b g] h]
    have m: "mergeServerFileSources os [g, h] u = (r, w')"
      using c Some roots g h by (simp add: newServerFileSourcesFromConfig_def fromOptionalRoot_eq)
    have "balanced H u (owned (concat (map entries [g, h])) + R)" using two(1) by (simp add: ac_simps)
    from merge_groups_ok [OF this _ m] one(2) two(2) show ?thesis by simp
  qed
  then show "balanced H w' (owned (entries r) + R)" "lent_ok H (entries r)" by simp_all
qed

lemma balanced_newServerFileSources:
  assumes b: "balanced H w {#}" and src: "\<And>f. src = Some f \<Longrightarrow> lf_dir f \<in> set H"
    and n: "newServerFileSources os cfg src cat w = (r, w')"
  shows "balanced H w' (owned (entries r))" "\<forall>s. r = Some s \<longrightarrow> \<not> fs_closed s"
proof -
  obtain g v where g: "newServerFileSourcesFromConfig os cfg w = (g, v)" by (cases "newServerFileSourcesFromConfig os cfg w")
  obtain h u where h: "newServerFileSourcesFromCatalog os cat v = (h, u)" by (cases "newServerFileSourcesFromCatalog os cat v")
  note one = balanced_fromConfig [OF b g]
  have two: "balanced H u (owned (entries h) + (owned (entries g) + {#})) \<and> lent_ok H (entries h)"
  proof (cases cat)
    case None
    with one h show ?thesis by (simp add: newServerFileSourcesFromCatalog_def entries_def lent_ok_def)
  next
    case (Some c)
    with h balanced_fromRoot [OF one(1)] show ?thesis by (auto simp: newServerFileSourcesFromCatalog_def)
  qed
  have s: "owned (entries (newServerFileSourcesFromSource src)) = {#}" "lent_ok H (entries (newServerFileSourcesFromSource src))"
    using src by (auto simp: newServerFileSourcesFromSource_def entries_def newServerFileSourcesWithEntries_def lent_ok_def
        split: option.split)
  have m: "mergeServerFileSources os [newServerFileSourcesFromSource src, g, h] u = (r, w')"
    using n g h by (simp add: newServerFileSources_def)
  have "balanced H u (owned (concat (map entries [newServerFileSourcesFromSource src, g, h])) + {#})"
    using two s by (simp add: ac_simps)
  from merge_groups_ok [OF this _ m] s(2) one(2) two
  show "balanced H w' (owned (entries r))" "\<forall>s. r = Some s \<longrightarrow> \<not> fs_closed s" by auto
qed

section \<open>Trying one source after the other\<close>

text \<open>What the server needs of the sources it tries: opening accounts for its handle, and a success is good in a sense
  that depends on the source and the moments.\<close>

locale file_opener =
  fixes open_one :: "'s \<Rightarrow> (nat \<times> file_info) io"
    and good :: "'s \<Rightarrow> source_world \<Rightarrow> nat \<times> file_info \<Rightarrow> source_world \<Rightarrow> bool"
  assumes accounts: "opens (\<lambda>x. [fst x]) (open_one s)"
    and success: "open_one s w = (Inr x, w') \<Longrightarrow> good s w x w'"
begin

lemma open_first_accounts:
  "open_first open_one ss w = (r, w') \<Longrightarrow> sw_closed w' = sw_closed w \<and> sw_now w \<le> sw_now w' \<and>
     sw_handles w' = (case r of Inl _ \<Rightarrow> sw_handles w | Inr x \<Rightarrow> fst x # sw_handles w)"
proof (induction ss arbitrary: w r w')
  case (Cons s ss)
  obtain y v where y: "open_one s w = (y, v)" by (cases "open_one s w")
  show ?case
  proof (cases y)
    case (Inr x)
    with opens_Inr [OF accounts, of s w x v] y Cons.prems show ?thesis by auto
  next
    case (Inl e)
    obtain q u where q: "open_first open_one ss v = (q, u)" by (cases "open_first open_one ss v")
    with Cons.IH [OF q] opens_Inl [OF accounts, of s w e v] y Inl Cons.prems show ?thesis by (auto split: sum.splits)
  qed
qed simp

lemma open_first_good:
  "open_first open_one ss w = (Inr x, w') \<Longrightarrow> \<exists>s\<in>set ss. \<exists>v. sw_now w \<le> sw_now v \<and> good s v x w'"
proof (induction ss arbitrary: w)
  case (Cons s ss)
  obtain y v where y: "open_one s w = (y, v)" by (cases "open_one s w")
  show ?case
  proof (cases y)
    case (Inr z)
    with y Cons.prems success [of s w z v] show ?thesis by auto
  next
    case (Inl e)
    then have "open_first open_one ss v = (Inr x, w')" using y Cons.prems by (auto split: prod.splits sum.splits)
    from Cons.IH [OF this] obtain k u where "k \<in> set ss" "sw_now v \<le> sw_now u" "good k u x w'" by blast
    moreover have "sw_now w \<le> sw_now v" using opens_Inl [OF accounts, of s w e v] y Inl by simp
    ultimately show ?thesis by (intro bexI [of _ k] exI [of _ u]) auto
  qed
qed simp

end

text \<open>The file is regular, was reached below the root of the source and is the one that was opened.\<close>

definition bound_to :: "source_os \<Rightarrow> string \<Rightarrow> serverFileSource \<Rightarrow> source_world \<Rightarrow> nat \<times> file_info \<Rightarrow> source_world \<Rightarrow> bool" where
  "bound_to os p e w x w' \<longleftrightarrow>
     (\<exists>segs. proper segs \<and> source_relativePath os (fe_files e) p = Inr (join_with ''/'' segs) \<and>
        root_seen os (fe_files e) (sw_now w) (fst x) \<and>
        file_seen os (lf_dir (fe_files e)) segs (fi_id (snd x)) (fst x) (sw_now w') \<and> root_seen os (fe_files e) (fst x) (sw_now w'))"

interpretation server: file_opener "\<lambda>e. source_OpenFile os (fe_files e) p" "bound_to os p" for os p
proof unfold_locales
  show "opens (\<lambda>x. [fst x]) (source_OpenFile os (fe_files s) p)" for s by (rule opens_OpenFile)
  show "bound_to os p s w x w'" if "source_OpenFile os (fe_files s) p w = (Inr x, w')" for s w x w'
    using OpenFile_seen [of os "fe_files s" p w "fst x" "snd x" w'] that by (auto simp: bound_to_def)
qed

text \<open>What the server opens is a file of one of its sources.\<close>

lemma sources_OpenFile_bound:
  assumes "sources_OpenFile os (Some s) p w = (Inr x, w')"
  shows "\<exists>e\<in>set (fs_sources s). \<exists>v. sw_now w \<le> sw_now v \<and> bound_to os p e v x w'"
  using assms server.open_first_good [of os p "fs_sources s" w x w'] by (auto simp: sources_OpenFile_def split: if_splits)

lemma sources_ReadFile_accounts:
  assumes "sources_ReadFile os s p w = (r, w')"
  shows "sw_closed w' = sw_closed w \<and> sw_now w \<le> sw_now w' \<and> sw_handles w' = sw_handles w"
proof -
  obtain q v where q: "sources_OpenFile os s p w = (q, v)" by (cases "sources_OpenFile os s p w")
  have acc: "sw_closed v = sw_closed w \<and> sw_now w \<le> sw_now v \<and>
      sw_handles v = (case q of Inl _ \<Rightarrow> sw_handles w | Inr x \<Rightarrow> fst x # sw_handles w)"
    using q server.open_first_accounts [of os p _ w q v] by (auto simp: sources_OpenFile_def split: option.splits if_splits)
  show ?thesis
  proof (cases q)
    case (Inl e)
    with acc q assms show ?thesis by (simp add: sources_ReadFile_def)
  next
    case (Inr x)
    obtain h i where x: "x = (h, i)" by (cases x)
    obtain b u where b: "read_all os id h v = (b, u)" by (cases "read_all os id h v")
    have "w' = u" using assms q Inr x b by (auto simp: sources_ReadFile_def split: sum.splits)
    with read_all_closes [OF b] acc Inr x show ?thesis by auto
  qed
qed

section \<open>Sources in use\<close>

record sources_state =
  st_sources :: serverFileSources
  st_pending :: "(string \<times> LocalFS) list"
  st_world :: source_world

text \<open>Several goroutines add roots and read files while one closes the sources.\<close>

inductive sources_step :: "source_os \<Rightarrow> sources_state \<Rightarrow> sources_state \<Rightarrow> bool" for os where
  opened: "add_open os base (st_sources st) (st_world st) = (Some f, w') \<Longrightarrow>
    sources_step os st (st\<lparr>st_pending := (base, f) # st_pending st, st_world := w'\<rparr>)"
| refused: "add_open os base (st_sources st) (st_world st) = (None, w') \<Longrightarrow> sources_step os st (st\<lparr>st_world := w'\<rparr>)"
| decided: "st_pending st = ps @ (base, f) # qs \<Longrightarrow> add_commit os base f (st_sources st, st_world st) = (s', w') \<Longrightarrow>
    sources_step os st \<lparr> st_sources = s', st_pending = ps @ qs, st_world = w' \<rparr>"
| closed: "sources_Cleanup os (st_sources st, st_world st) = (s', w') \<Longrightarrow>
    sources_step os st (st\<lparr>st_sources := s', st_world := w'\<rparr>)"
| served: "sources_ReadFile os (Some (st_sources st)) p (st_world st) = (r, w') \<Longrightarrow> sources_step os st (st\<lparr>st_world := w'\<rparr>)"

inductive sources_reachable :: "source_os \<Rightarrow> sources_state \<Rightarrow> sources_state \<Rightarrow> bool" for os st0 where
  start: "sources_reachable os st0 st0"
| step: "sources_reachable os st0 st \<Longrightarrow> sources_step os st st' \<Longrightarrow> sources_reachable os st0 st'"

definition live_sources :: "sources_state \<Rightarrow> LocalFS multiset" where
  "live_sources st = (if fs_closed (st_sources st) then {#} else owned (fs_sources (st_sources st))) + mset (map snd (st_pending st))"

lemma sources_step_balanced:
  assumes "sources_step os st st'" "balanced H (st_world st) (live_sources st)"
  shows "balanced H (st_world st') (live_sources st')"
  using assms
proof (cases rule: sources_step.cases)
  case (opened base f w')
  have "add_open os base (st_sources st) (st_world st) = serverFileSourceFromRoot os base (st_world st)"
    using opened by (auto simp: add_open_def split: if_splits)
  with balanced_open [OF assms(2), of os base] opened show ?thesis
    by (cases "fs_closed (st_sources st)") (simp_all add: live_sources_def)
next
  case (refused base w')
  then have "w' = st_world st \<or> serverFileSourceFromRoot os base (st_world st) = (None, w')"
    by (auto simp: add_open_def split: if_splits)
  with assms(2) balanced_open [OF assms(2), of os base None w'] refused show ?thesis by (auto simp: live_sources_def)
next
  case (decided ps base f qs s' w')
  have "balanced H (st_world st) (add_mset f (if fs_closed (st_sources st) then {#} else owned (fs_sources (st_sources st))) +
      mset (map snd (ps @ qs)))"
    using assms(2) decided by (simp add: live_sources_def ac_simps)
  from balanced_commit [OF this decided(3)] decided show ?thesis
    by (cases "fs_closed s'") (simp_all add: live_sources_def)
next
  case (closed s' w')
  have "balanced H (st_world st) ((if fs_closed (st_sources st) then {#} else owned (fs_sources (st_sources st))) +
      mset (map snd (st_pending st)))"
    using assms(2) by (simp add: live_sources_def)
  from balanced_Cleanup [OF this, of os s' w'] closed show ?thesis by (simp add: live_sources_def)
next
  case (served p r w')
  from sources_ReadFile_accounts [OF served(2)] served assms(2) show ?thesis
    by (auto simp: live_sources_def intro: balanced_keep)
qed

text \<open>C35: The server closes what it owns, and nothing else: from the moment its sources are made, in every reachable state of
  goroutines that add roots, read files and close the sources, the open handles are those that were open before, one for
  each owned source in the list as long as the sources are not closed, and one for each root that a goroutine has opened
  and not decided on yet.  So no source is closed twice, a source that was lent stays open, and when the sources are
  closed and nobody is adding, no owned source is left open.\<close>

theorem server_sources_owned:
  assumes "distinct (sw_handles w)" "\<forall>h\<in>set (sw_handles w). h < sw_now w \<and> sw_closed w h = None"
    and "\<forall>h. sw_closed w h \<noteq> None \<longrightarrow> h < sw_now w"
    and "\<And>f. src = Some f \<Longrightarrow> lf_dir f \<in> set (sw_handles w)"
    and "newServerFileSources os cfg src cat w = (Some s0, w0)"
    and "sources_reachable os \<lparr> st_sources = s0, st_pending = [], st_world = w0 \<rparr> st"
  shows "mset (sw_handles (st_world st)) = mset (sw_handles w) +
      (if fs_closed (st_sources st) then {#} else image_mset lf_dir (owned (fs_sources (st_sources st)))) +
      mset (map (lf_dir \<circ> snd) (st_pending st))"
proof -
  have "balanced (sw_handles w) w {#}" using assms(1-3) by (simp add: balanced_def)
  from balanced_newServerFileSources [OF this assms(4,5)]
  have init: "balanced (sw_handles w) w0 (live_sources \<lparr> st_sources = s0, st_pending = [], st_world = w0 \<rparr>)"
    by (simp add: entries_def live_sources_def)
  from assms(6) have "balanced (sw_handles w) (st_world st) (live_sources st)"
  proof induction
    case start
    show ?case using init by simp
  next
    case (step st st')
    then show ?case by (blast intro: sources_step_balanced)
  qed
  then show ?thesis by (simp add: balanced_def live_sources_def multiset.map_comp flip: mset_map)
qed

text \<open>The root of the assets, opened by the server and closed again.\<close>

definition example_start :: source_world where
  "example_start = \<lparr> sw_now = 1, sw_handles = [0], sw_closed = Map.empty \<rparr>"

theorem server_sources_owned_witness:
  "\<exists>s0 w0 st. newServerFileSources example_os (Some (''/srv'', [])) (Some example_source) None example_start = (Some s0, w0) \<and>
     sources_reachable example_os \<lparr> st_sources = s0, st_pending = [], st_world = w0 \<rparr> st \<and>
     fs_closed (st_sources st) \<and> mset (sw_handles (st_world st)) = {#0#}"
proof -
  have "fst (newServerFileSources example_os (Some (''/srv'', [])) (Some example_source) None example_start) \<noteq> None" by code_simp
  then obtain s0 w0 where n: "newServerFileSources example_os (Some (''/srv'', [])) (Some example_source) None example_start = (Some s0, w0)"
    by (cases "newServerFileSources example_os (Some (''/srv'', [])) (Some example_source) None example_start") auto
  obtain s' w' where c: "sources_Cleanup example_os (s0, w0) = (s', w')" by (cases "sources_Cleanup example_os (s0, w0)")
  let ?st0 = "\<lparr> st_sources = s0, st_pending = [], st_world = w0 \<rparr>"
  have w: "distinct (sw_handles example_start)"
    "\<forall>h\<in>set (sw_handles example_start). h < sw_now example_start \<and> sw_closed example_start h = None"
    "\<forall>h. sw_closed example_start h \<noteq> None \<longrightarrow> h < sw_now example_start"
    by (simp_all add: example_start_def)
  have l: "lf_dir f \<in> set (sw_handles example_start)" if "Some example_source = Some f" for f
    using that by (auto simp: example_source_def example_start_def)
  have "sources_step example_os ?st0 (?st0\<lparr>st_sources := s', st_world := w'\<rparr>)" using c by (intro sources_step.closed) simp
  then have r: "sources_reachable example_os ?st0 (?st0\<lparr>st_sources := s', st_world := w'\<rparr>)"
    by (rule sources_reachable.step [OF sources_reachable.start])
  have "balanced (sw_handles example_start) example_start {#}" by (simp add: balanced_def example_start_def)
  from balanced_newServerFileSources [OF this l n] have "balanced (sw_handles example_start) w0
      ((if fs_closed s0 then {#} else owned (fs_sources s0)) + {#})" by (simp add: entries_def)
  from balanced_Cleanup(2) [OF this c] have cl: "fs_closed s'" .
  have "mset (sw_handles w') = {#0#}"
    using server_sources_owned [OF w l n r] cl by (simp add: example_start_def)
  with n r cl show ?thesis by (intro exI [of _ s0] exI [of _ w0] exI [of _ "?st0\<lparr>st_sources := s', st_world := w'\<rparr>"]) simp
qed

definition example_plain_asset :: "string \<Rightarrow> Asset" where
  "example_plain_asset p = \<lparr> a_Path = p, a_FullPath = ''/srv/'' @ p, a_Size = 2, a_MediaType = [], a_SourceHash = [], a_ETag = [],
     a_Metadata = Map.empty \<rparr>"

definition example_two_assets :: "IndexedCatalog" where
  "example_two_assets = foldl (\<lambda>c p. case UpsertAsset (\<lambda>_. None) c (Some (example_plain_asset p)) of Inr c' \<Rightarrow> c' | Inl _ \<Rightarrow> c)
     NewInMemoryCatalog [''js/app.js'', ''css/app.css'']"

theorem catalogFileSourceRoot_deepest_witness:
  "\<exists>cs. catalogFileSourceRoot ''/'' example_two_assets = Some (CHR ''/'' # join_with ''/'' cs) \<and> prefix [''srv''] cs"
proof -
  have cwd: "path_is_abs ''/''" by code_simp
  let ?ps = "filter plain_path (map a_FullPath (fst (AllAssets example_two_assets)) @
      map v_ArtifactPath (fst (AllVariants (snd (AllAssets example_two_assets)))))"
  have ps: "?ps = [''/srv/css/app.css'', ''/srv/js/app.js'']" by code_simp
  have all: "list_all (\<lambda>p. prefix [''srv''] (dir_segs ''/'' p)) ?ps" unfolding ps by code_simp
  have ne: "?ps \<noteq> []" unfolding ps by simp
  from catalogFileSourceRoot_deepest [OF cwd, of example_two_assets] ne obtain base cs where
    b: "catalogFileSourceRoot ''/'' example_two_assets = Some base" "base = CHR ''/'' # join_with ''/'' cs"
      "\<forall>qs. prefix qs cs \<longleftrightarrow> list_all (\<lambda>p. prefix qs (dir_segs ''/'' p)) ?ps"
    unfolding Let_def by (simp only: if_False) blast
  from b(3) all have "prefix [''srv''] cs" by blast
  with b show ?thesis by blast
qed

text \<open>A configured root with a blank before it never matches the key of its source, so every refresh opens it again.\<close>

theorem blank_root_accumulates:
  "length (fs_sources (fst (addOwnedRoot example_os '' /srv'' (addOwnedRoot example_os '' /srv''
     (newServerFileSourcesWithEntries [], example_start))))) = 2"
  by code_simp

end
