(* ===== verification/SourceWatch.thy ===== *)
theory SourceWatch
  imports LocalSource SourceRescan "HOL-Library.Multiset"
begin

text \<open>
  From a change of the file system to a rescan (\<open>internal/source/localfs_watch.go\<close>,
  \<open>internal/task/source_rescan_watch.go\<close>): the goroutine that turns events of the watcher library into changes, the
  channel of one element between it and the task, and the goroutine of the task that collects changes until no more come
  for a while and then runs a rescan with them.

  The events and the text of their operation are the library's.  The channel, the two goroutines and the timer are a step
  relation, one step per access to the channel.  \<open>wt_lost\<close> and \<open>wt_covered\<close> are ghosts: changes that were dropped because
  the channel was full, before and after a rescan got an event that asks for a full rescan.  Shutdown is left out: it
  drops whatever has not been handed over.
\<close>

section \<open>Events\<close>

datatype fs_op = OpCreate | OpWrite | OpRemove | OpRename | OpChmod

record fs_event =
  fv_Name :: string
  fv_Op :: "fs_op set"

definition isContentWatchEvent :: "fs_event \<Rightarrow> bool" where
  "isContentWatchEvent event \<longleftrightarrow>
     OpCreate \<in> fv_Op event \<or> OpWrite \<in> fv_Op event \<or> OpRemove \<in> fv_Op event \<or> OpRename \<in> fv_Op event"

definition relativeWatchPath :: "string \<Rightarrow> string \<Rightarrow> string option" where
  "relativeWatchPath base fullPath =
     (let rel = path_rel base fullPath in if rel = ''..'' \<or> has_prefix rel ''../'' then None else Some rel)"

definition changeEvent :: "(fs_op set \<Rightarrow> string) \<Rightarrow> string \<Rightarrow> fs_event \<Rightarrow> ChangeEvent option" where
  "changeEvent op_string base event =
     (case relativeWatchPath base (fv_Name event) of
        None \<Rightarrow> None
      | Some rel \<Rightarrow> Some \<lparr> ev_Path = rel, ev_Op = op_string (fv_Op event), ev_FullRescan = False \<rparr>)"

text \<open>Whether a created path is watched: only a directory below the root, reached without a link.\<close>

definition addCreatedWatchDir :: "source_os \<Rightarrow> LocalFS \<Rightarrow> string \<Rightarrow> bool io" where
  "addCreatedWatchDir os s fullPath =
     (case relativeWatchPath (lf_root s) fullPath of
        None \<Rightarrow> give False
      | Some rel \<Rightarrow>
          if rel = ''.'' then give False
          else useRoot (lf_dir s) (\<lambda>h.
            after (validateCurrentRoot os s h) (\<lambda>_.
            after (lstatPathWithinRoot os h rel) (\<lambda>info. give (fi_kind info = DirectoryFile)))))"

text \<open>The directories a new watcher is given; an error of the walk or of the library ends it.\<close>

definition addWatchDirs :: "source_os \<Rightarrow> (string \<Rightarrow> bool) \<Rightarrow> LocalFS \<Rightarrow> string list io" where
  "addWatchDirs os can_watch s =
     after (source_Walk os s) (\<lambda>(files, err).
       let dirs = map sf_FullPath (filter sf_IsDir files)
       in if \<not> list_all can_watch dirs then fail SystemError
          else case err of Some e \<Rightarrow> fail e | None \<Rightarrow> give dirs)"

definition source_Watch :: "source_os \<Rightarrow> (string \<Rightarrow> bool) \<Rightarrow> LocalFS \<Rightarrow> string list io" where
  "source_Watch os can_watch s = (if lf_bundle s \<noteq> None then fail BundleFailed else addWatchDirs os can_watch s)"

definition content_change :: "(fs_op set \<Rightarrow> string) \<Rightarrow> string \<Rightarrow> fs_event \<Rightarrow> ChangeEvent option" where
  "content_change op_string base event = (if isContentWatchEvent event then changeEvent op_string base event else None)"

section \<open>The goroutines\<close>

text \<open>Where the watching goroutine stands in \<open>emitWatchChange\<close>: waiting for an event, before the first \<open>select\<close>,
  before the second, before the third.\<close>

datatype emit_pc = WaitEvent | TrySend ChangeEvent | TryDrain ChangeEvent | TryOverflow

datatype debounce_timer = TimerOff | TimerArmed | TimerFired

record watch_state =
  wt_pc :: emit_pc
  wt_channel :: "ChangeEvent list"
  wt_pending :: "ChangeEvent list"
  wt_timer :: debounce_timer
  wt_runs :: "ChangeEvent list list"
  wt_emitted :: "ChangeEvent multiset"
  wt_lost :: "ChangeEvent multiset"
  wt_covered :: "ChangeEvent multiset"

definition watching :: watch_state where
  "watching = \<lparr> wt_pc = WaitEvent, wt_channel = [], wt_pending = [], wt_timer = TimerOff, wt_runs = [],
     wt_emitted = {#}, wt_lost = {#}, wt_covered = {#} \<rparr>"

definition overflow_event :: ChangeEvent where
  "overflow_event = \<lparr> ev_Path = [], ev_Op = ''overflow'', ev_FullRescan = True \<rparr>"

text \<open>The changes among events that are no overflow.\<close>

definition changes_of :: "ChangeEvent list \<Rightarrow> ChangeEvent multiset" where
  "changes_of es = mset (filter (\<lambda>e. e \<noteq> overflow_event) es)"

text \<open>A channel of one element.\<close>

definition emitWatchChange :: "watch_state \<Rightarrow> watch_state option" where
  "emitWatchChange st =
     (case wt_pc st of
        WaitEvent \<Rightarrow> None
      | TrySend c \<Rightarrow>
          Some (if length (wt_channel st) < 1 then st\<lparr>wt_channel := wt_channel st @ [c], wt_pc := WaitEvent\<rparr>
                else st\<lparr>wt_pc := TryDrain c\<rparr>)
      | TryDrain c \<Rightarrow>
          Some (case wt_channel st of
                  [] \<Rightarrow> st\<lparr>wt_pc := TryOverflow, wt_lost := add_mset c (wt_lost st)\<rparr>
                | d # ds \<Rightarrow> st\<lparr>wt_channel := ds, wt_pc := TryOverflow, wt_lost := add_mset c (changes_of [d]) + wt_lost st\<rparr>)
      | TryOverflow \<Rightarrow>
          Some (if length (wt_channel st) < 1 then st\<lparr>wt_channel := wt_channel st @ [overflow_event], wt_pc := WaitEvent\<rparr>
                else st\<lparr>wt_pc := WaitEvent\<rparr>))"

definition handleWatchEvent :: "(fs_op set \<Rightarrow> string) \<Rightarrow> string \<Rightarrow> fs_event \<Rightarrow> watch_state \<Rightarrow> watch_state" where
  "handleWatchEvent op_string base event st =
     (case content_change op_string base event of
        None \<Rightarrow> st | Some c \<Rightarrow> st\<lparr>wt_pc := TrySend c, wt_emitted := add_mset c (wt_emitted st)\<rparr>)"

definition recordPendingSourceChange :: "ChangeEvent \<Rightarrow> watch_state \<Rightarrow> watch_state" where
  "recordPendingSourceChange change st = st\<lparr>wt_pending := wt_pending st @ [change], wt_timer := TimerArmed\<rparr>"

definition flushPendingSourceChanges :: "watch_state \<Rightarrow> watch_state" where
  "flushPendingSourceChanges st =
     (if wt_pending st = [] then st
      else (let full = list_ex ev_FullRescan (wt_pending st)
            in st\<lparr>wt_runs := wt_runs st @ [wt_pending st], wt_pending := [],
                  wt_covered := wt_covered st + (if full then wt_lost st else {#}),
                  wt_lost := (if full then {#} else wt_lost st)\<rparr>))"

text \<open>What the goroutine of the task may do next: take a change, see the timer expire, or flush.\<close>

inductive watch_task :: "watch_state \<Rightarrow> watch_state \<Rightarrow> bool" where
  taken: "wt_channel st = c # cs \<Longrightarrow> watch_task st (recordPendingSourceChange c (st\<lparr>wt_channel := cs\<rparr>))"
| expired: "wt_timer st = TimerArmed \<Longrightarrow> watch_task st (st\<lparr>wt_timer := TimerFired\<rparr>)"
| flushed: "wt_timer st = TimerFired \<Longrightarrow> watch_task st (flushPendingSourceChanges (st\<lparr>wt_timer := TimerOff\<rparr>))"

inductive watch_internal :: "watch_state \<Rightarrow> watch_state \<Rightarrow> bool" where
  emitter: "emitWatchChange st = Some st' \<Longrightarrow> watch_internal st st'"
| task: "watch_task st st' \<Longrightarrow> watch_internal st st'"

inductive watch_reachable :: "(fs_op set \<Rightarrow> string) \<Rightarrow> string \<Rightarrow> watch_state \<Rightarrow> bool" for op_string base where
  start: "watch_reachable op_string base watching"
| internal: "watch_reachable op_string base st \<Longrightarrow> watch_internal st st' \<Longrightarrow> watch_reachable op_string base st'"
| event: "watch_reachable op_string base st \<Longrightarrow> wt_pc st = WaitEvent \<Longrightarrow>
    watch_reachable op_string base (handleWatchEvent op_string base event st)"

inductive_cases watch_taskE: "watch_task st st'"
inductive_cases watch_internalE: "watch_internal st st'"

section \<open>No change is lost\<close>

definition pc_changes :: "emit_pc \<Rightarrow> ChangeEvent multiset" where
  "pc_changes pc = (case pc of TrySend c \<Rightarrow> {#c#} | TryDrain c \<Rightarrow> {#c#} | _ \<Rightarrow> {#})"

definition watch_ok :: "watch_state \<Rightarrow> bool" where
  "watch_ok st \<longleftrightarrow>
     wt_emitted st = changes_of (concat (wt_runs st)) + changes_of (wt_pending st) + changes_of (wt_channel st) +
       pc_changes (wt_pc st) + wt_lost st + wt_covered st \<and>
     length (wt_channel st) \<le> 1 \<and> (wt_pc st = TryOverflow \<longrightarrow> wt_channel st = []) \<and>
     (wt_lost st \<noteq> {#} \<longrightarrow> wt_pc st = TryOverflow \<or> overflow_event \<in> set (wt_channel st) \<or> overflow_event \<in> set (wt_pending st)) \<and>
     (wt_pending st \<noteq> [] \<longrightarrow> wt_timer st \<noteq> TimerOff) \<and>
     overflow_event \<notin># pc_changes (wt_pc st)"

lemma changes_of_simps [simp]:
  "changes_of [] = {#}" "changes_of (xs @ ys) = changes_of xs + changes_of ys"
  "changes_of (x # xs) = (if x = overflow_event then changes_of xs else add_mset x (changes_of xs))"
  by (simp_all add: changes_of_def)

lemma emitter_ok:
  assumes "watch_ok st" "emitWatchChange st = Some st'"
  shows "watch_ok st'"
proof (cases "wt_pc st")
  case WaitEvent
  with assms(2) show ?thesis by (simp add: emitWatchChange_def)
next
  case (TrySend c)
  with assms show ?thesis
    by (cases "wt_channel st") (auto simp: emitWatchChange_def watch_ok_def pc_changes_def)
next
  case (TryDrain c)
  with assms show ?thesis
    by (cases "wt_channel st") (auto simp: emitWatchChange_def watch_ok_def pc_changes_def)
next
  case TryOverflow
  with assms show ?thesis by (auto simp: emitWatchChange_def watch_ok_def pc_changes_def)
qed

lemma flush_ok:
  assumes "watch_ok st" "wt_timer st = TimerFired"
  shows "watch_ok (flushPendingSourceChanges (st\<lparr>wt_timer := TimerOff\<rparr>))"
proof (cases "wt_pending st = []")
  case True
  with assms show ?thesis by (auto simp: flushPendingSourceChanges_def watch_ok_def)
next
  case False
  have "overflow_event \<notin> set (wt_pending st)" if "\<not> list_ex ev_FullRescan (wt_pending st)"
    using that by (auto simp: list_ex_iff overflow_event_def)
  with False assms show ?thesis
    by (auto simp: flushPendingSourceChanges_def watch_ok_def Let_def)
qed

lemma task_ok:
  assumes "watch_task st st'" "watch_ok st"
  shows "watch_ok st'"
  using assms(1)
proof cases
  case (taken c cs)
  with assms(2) show ?thesis by (auto simp: watch_ok_def recordPendingSourceChange_def)
next
  case expired
  with assms(2) show ?thesis by (auto simp: watch_ok_def)
next
  case flushed
  with flush_ok [OF assms(2)] show ?thesis by simp
qed

lemma event_ok:
  assumes "watch_ok st" "wt_pc st = WaitEvent"
  shows "watch_ok (handleWatchEvent op_string base event st)"
proof (cases "content_change op_string base event")
  case None
  with assms show ?thesis by (simp add: handleWatchEvent_def)
next
  case (Some c)
  then have "c \<noteq> overflow_event"
    by (auto simp: content_change_def changeEvent_def overflow_event_def split: if_splits option.splits)
  with Some assms show ?thesis by (auto simp: handleWatchEvent_def watch_ok_def pc_changes_def)
qed

lemma watch_reachable_ok: "watch_reachable op_string base st \<Longrightarrow> watch_ok st"
proof (induction rule: watch_reachable.induct)
  case start
  show ?case by (simp add: watch_ok_def watching_def pc_changes_def)
next
  case (internal st st')
  then show ?case by (auto elim!: watch_internalE intro: emitter_ok task_ok)
next
  case (event st event)
  then show ?case by (blast intro: event_ok)
qed

section \<open>The goroutines come to rest\<close>

definition pc_rank :: "emit_pc \<Rightarrow> nat" where
  "pc_rank pc = (case pc of WaitEvent \<Rightarrow> 0 | TryOverflow \<Rightarrow> 1 | TryDrain _ \<Rightarrow> 2 | TrySend _ \<Rightarrow> 3)"

definition timer_rank :: "debounce_timer \<Rightarrow> nat" where
  "timer_rank t = (case t of TimerOff \<Rightarrow> 0 | TimerFired \<Rightarrow> 1 | TimerArmed \<Rightarrow> 2)"

definition watch_rank :: "watch_state \<Rightarrow> nat" where
  "watch_rank st = 4 * pc_rank (wt_pc st) + 3 * length (wt_channel st) + timer_rank (wt_timer st)"

lemma internal_decreases:
  assumes "watch_internal st st'"
  shows "watch_rank st' < watch_rank st"
  using assms
proof cases
  case emitter
  then show ?thesis
    by (auto simp: emitWatchChange_def watch_rank_def pc_rank_def split: emit_pc.splits list.splits if_splits)
next
  case task
  then show ?thesis
    by cases (auto simp: watch_rank_def recordPendingSourceChange_def flushPendingSourceChanges_def timer_rank_def Let_def
        split: debounce_timer.splits)
qed

lemma watch_settles: "\<exists>t. watch_internal\<^sup>*\<^sup>* st t \<and> \<not> (\<exists>u. watch_internal t u)"
proof (induction "watch_rank st" arbitrary: st rule: less_induct)
  case less
  show ?case
  proof (cases "\<exists>u. watch_internal st u")
    case True
    then obtain u where u: "watch_internal st u" by blast
    from less [OF internal_decreases [OF u]] obtain t where "watch_internal\<^sup>*\<^sup>* u t" "\<not> (\<exists>v. watch_internal t v)" by blast
    with u show ?thesis by (meson converse_rtranclp_into_rtranclp)
  qed auto
qed

lemma watch_at_rest:
  assumes "\<not> (\<exists>u. watch_internal st u)"
  shows "wt_pc st = WaitEvent" "wt_channel st = []" "wt_timer st = TimerOff"
proof -
  show "wt_pc st = WaitEvent"
  proof (rule ccontr)
    assume "wt_pc st \<noteq> WaitEvent"
    then obtain st' where "emitWatchChange st = Some st'" by (cases "wt_pc st") (auto simp: emitWatchChange_def)
    with assms watch_internal.emitter show False by blast
  qed
  show "wt_channel st = []"
  proof (rule ccontr)
    assume "wt_channel st \<noteq> []"
    then obtain c cs where "wt_channel st = c # cs" by (cases "wt_channel st") auto
    with assms watch_internal.task [OF watch_task.taken] show False by blast
  qed
  show "wt_timer st = TimerOff"
  proof (rule ccontr)
    assume "wt_timer st \<noteq> TimerOff"
    then consider "wt_timer st = TimerArmed" | "wt_timer st = TimerFired" by (cases "wt_timer st") auto
    then show False
      using assms watch_internal.task [OF watch_task.expired] watch_internal.task [OF watch_task.flushed] by cases blast+
  qed
qed

text \<open>C37: No content change is lost on the way to the rescan, although the channel holds one change only and the watcher
  never waits: from every reachable state the goroutines come to rest after at most as many steps as \<open>watch_rank\<close> says, and
  at rest every change the watcher has reported was handed to a rescan, or was dropped and then covered by a rescan that
  was asked, after the drop, for a full scan.\<close>

theorem watch_no_change_lost:
  assumes "watch_reachable op_string base st"
  shows "(\<exists>t. watch_internal\<^sup>*\<^sup>* st t \<and> \<not> (\<exists>u. watch_internal t u)) \<and>
    (\<forall>t. watch_internal st t \<longrightarrow> watch_rank t < watch_rank st) \<and>
    (\<forall>t. watch_internal\<^sup>*\<^sup>* st t \<and> \<not> (\<exists>u. watch_internal t u) \<longrightarrow>
       wt_lost t = {#} \<and> wt_emitted t = changes_of (concat (wt_runs t)) + wt_covered t)"
proof (intro conjI allI impI)
  show "\<exists>t. watch_internal\<^sup>*\<^sup>* st t \<and> \<not> (\<exists>u. watch_internal t u)" by (rule watch_settles)
  show "watch_rank t < watch_rank st" if "watch_internal st t" for t using that by (rule internal_decreases)
  fix t assume t: "watch_internal\<^sup>*\<^sup>* st t \<and> \<not> (\<exists>u. watch_internal t u)"
  then have "watch_internal\<^sup>*\<^sup>* st t" by simp
  then have "watch_reachable op_string base t"
    by induction (use assms in \<open>auto intro: watch_reachable.internal\<close>)
  then have "watch_ok t" by (rule watch_reachable_ok)
  with watch_at_rest [of t] t show "wt_lost t = {#}" "wt_emitted t = changes_of (concat (wt_runs t)) + wt_covered t"
    by (auto simp: watch_ok_def pc_changes_def)
qed

text \<open>Two writes in a row: the second finds the channel full.\<close>

definition example_write :: "string \<Rightarrow> fs_event" where
  "example_write p = \<lparr> fv_Name = ''/srv/'' @ p, fv_Op = {OpWrite} \<rparr>"

theorem watch_no_change_lost_witness:
  "\<exists>st t. watch_reachable (\<lambda>_. ''WRITE'') ''/srv'' st \<and> wt_channel st \<noteq> [] \<and> wt_pc st \<noteq> WaitEvent \<and>
     watch_internal\<^sup>*\<^sup>* st t \<and> wt_lost t = {#} \<and> wt_emitted t = changes_of (concat (wt_runs t)) + wt_covered t"
proof -
  have c: "content_change (\<lambda>_. ''WRITE'') ''/srv'' (example_write p) =
      (case relativeWatchPath ''/srv'' (''/srv/'' @ p) of
         None \<Rightarrow> None | Some rel \<Rightarrow> Some \<lparr> ev_Path = rel, ev_Op = ''WRITE'', ev_FullRescan = False \<rparr>)" for p
    by (simp add: content_change_def isContentWatchEvent_def changeEvent_def example_write_def)
  have r: "relativeWatchPath ''/srv'' (''/srv/'' @ ''a.js'') = Some ''a.js''" "relativeWatchPath ''/srv'' (''/srv/'' @ ''b.js'') = Some ''b.js''"
    by code_simp+
  let ?c = "\<lambda>p. \<lparr> ev_Path = p, ev_Op = ''WRITE'', ev_FullRescan = False \<rparr>"
  let ?h = "\<lambda>p. handleWatchEvent (\<lambda>_. ''WRITE'') ''/srv'' (example_write p)"
  have 1: "watch_reachable (\<lambda>_. ''WRITE'') ''/srv'' (?h ''a.js'' watching)"
    by (rule watch_reachable.event [OF watch_reachable.start]) (simp add: watching_def)
  have h1: "?h ''a.js'' watching = watching\<lparr>wt_pc := TrySend (?c ''a.js''), wt_emitted := {#?c ''a.js''#}\<rparr>"
    unfolding handleWatchEvent_def c r by (simp add: watching_def)
  let ?s1 = "watching\<lparr>wt_channel := [?c ''a.js''], wt_emitted := {#?c ''a.js''#}\<rparr>"
  have "emitWatchChange (?h ''a.js'' watching) = Some ?s1" unfolding h1 by (simp add: emitWatchChange_def watching_def)
  then have 2: "watch_reachable (\<lambda>_. ''WRITE'') ''/srv'' ?s1" by (intro watch_reachable.internal [OF 1] watch_internal.emitter)
  have 3: "watch_reachable (\<lambda>_. ''WRITE'') ''/srv'' (?h ''b.js'' ?s1)"
    by (rule watch_reachable.event [OF 2]) (simp add: watching_def)
  have h2: "wt_channel (?h ''b.js'' ?s1) \<noteq> []" "wt_pc (?h ''b.js'' ?s1) \<noteq> WaitEvent"
    unfolding handleWatchEvent_def c r by simp_all
  from watch_no_change_lost [OF 3] obtain t where "watch_internal\<^sup>*\<^sup>* (?h ''b.js'' ?s1) t" "wt_lost t = {#}"
    "wt_emitted t = changes_of (concat (wt_runs t)) + wt_covered t" by blast
  with 3 h2 show ?thesis by (intro exI [of _ "?h ''b.js'' ?s1"] exI [of _ t]) blast
qed

section \<open>What an overflow reaches\<close>

text \<open>An event that asks for a full rescan has no effect when the lookup of an earlier change of the same batch fails: the
  batch ends with that error.\<close>

theorem overflow_after_failed_lookup:
  assumes "\<not> ev_FullRescan c"
    and "addChangeToIncrementalSet env newSourceRescanChangeSet (trim_space (ev_Path c)) (ev_Op c) = Inl (ScanError e)"
  shows "syncSourceCatalog env [c, overflow_event] run = (Some (ScanError e), run\<lparr>rn_report := emptyReport\<rparr>)"
  using assms by (simp add: syncSourceCatalog_def sync_sources_def syncIncrementally_def buildIncrementalChangeSet_def)

text \<open>Otherwise it makes the rescan a full one.\<close>

lemma run_all_full:
  assumes "\<And>cg ev. ev \<in> set es \<Longrightarrow> \<not> ev_FullRescan ev \<Longrightarrow>
      (case addChangeToIncrementalSet env cg (trim_space (ev_Path ev)) (ev_Op ev) of Inl e \<Rightarrow> e = FullRescanRequired | Inr _ \<Rightarrow> True)"
    and "list_ex ev_FullRescan es"
  shows "run_all (\<lambda>cg ev. if ev_FullRescan ev then Inl FullRescanRequired
                           else addChangeToIncrementalSet env cg (trim_space (ev_Path ev)) (ev_Op ev)) cg es = Inl FullRescanRequired"
  using assms
proof (induction es arbitrary: cg)
  case (Cons e es)
  show ?case
  proof (cases "ev_FullRescan e")
    case False
    with Cons.prems(1) [of e cg] Cons.prems(2) Cons.IH [OF Cons.prems(1)] show ?thesis by (auto split: sum.splits)
  qed simp
qed simp

lemma full_event_full_sync:
  assumes "\<And>cg ev. ev \<in> set es \<Longrightarrow> \<not> ev_FullRescan ev \<Longrightarrow>
      (case addChangeToIncrementalSet env cg (trim_space (ev_Path ev)) (ev_Op ev) of Inl e \<Rightarrow> e = FullRescanRequired | Inr _ \<Rightarrow> True)"
    and "list_ex ev_FullRescan es"
  shows "syncSourceCatalog env es run = syncFull env (run\<lparr>rn_report := emptyReport\<rparr>)"
proof -
  have "es \<noteq> []" using assms(2) by auto
  with run_all_full [OF assms] show ?thesis
    by (simp add: syncSourceCatalog_def sync_sources_def syncIncrementally_def buildIncrementalChangeSet_def)
qed

end
