(* ===== verification/AssetCache.thy ===== *)
theory AssetCache
  imports Catalog CachePolicy
begin

text \<open>
  The in-memory cache of file bodies (\<open>internal/assetcache\<close>): \<open>cache.go\<close>, \<open>cache_entry.go\<close>, \<open>cache_events.go\<close> and the
  reading of \<open>cache_support.go\<close>.

  The store of the entries is the library ristretto, a parameter: a record of its operations over a state of any type.
  \<open>cache_laws\<close> states what it documents: a lookup returns nothing or an entry that was put under the key and not
  superseded by a delete whose effect was waited for; it may drop and evict at will; \<open>Set\<close> is buffered until \<open>Wait\<close>.
  Files are a map of paths to contents, which changes under the cache.  Requests that load the same path share one load
  (\<open>singleflight\<close>), which a sequence of operations does not show.  A warm-up visits the assets one after the other, as
  with one worker.  Metrics and logs are left out.
\<close>

section \<open>The store\<close>

record Entry =
  Body :: bytes
  Attachment :: "nat option"

record 's body_store =
  bs_Get :: "'s \<Rightarrow> string \<Rightarrow> Entry option \<times> 's"
  bs_Set :: "'s \<Rightarrow> string \<Rightarrow> Entry \<Rightarrow> int \<Rightarrow> bool \<times> 's"
  bs_SetWithTTL :: "'s \<Rightarrow> string \<Rightarrow> Entry \<Rightarrow> int \<Rightarrow> duration \<Rightarrow> bool \<times> 's"
  bs_Del :: "'s \<Rightarrow> string \<Rightarrow> 's"
  bs_Wait :: "'s \<Rightarrow> 's"

record AssetCache =
  ac_policy :: StaticMemoryPolicy
  ac_warmup :: bool
  ac_enabled :: bool

record WarmStats =
  ws_Entries :: int
  ws_Bytes :: int

datatype cache_error = CacheDisabled | LoadFailed string | WarmCanceled

record entryLoadOptions =
  lo_attachment :: "nat option"
  lo_attachmentMatches :: "(nat option \<Rightarrow> bool) option"
  lo_wait :: bool

type_synonym files = "string \<Rightarrow> bytes option"

definition Enabled :: "AssetCache \<Rightarrow> bool" where "Enabled c \<longleftrightarrow> ac_enabled c"

definition cache_WarmupEnabled :: "AssetCache \<Rightarrow> bool" where "cache_WarmupEnabled c \<longleftrightarrow> Enabled c \<and> ac_warmup c"

definition ShouldServeRequest :: "AssetCache \<Rightarrow> MemoryRequest \<Rightarrow> bool" where
  "ShouldServeRequest c request \<longleftrightarrow> Enabled c \<and> ShouldServe (ac_policy c) request"

definition direct_request :: MemoryRequest where
  "direct_request = \<lparr> mr_Path = [], mr_AssetPath = [], mr_Size = 0, mr_MediaType = [], mr_Encoding = [], mr_Format = [],
     mr_Width = 0, mr_Kind = MemoryEntryKindAsset, mr_UseCase = MemoryUseCaseDirect, mr_RangeRequested = False \<rparr>"

definition cache_ShouldServe :: "AssetCache \<Rightarrow> int \<Rightarrow> bool \<Rightarrow> bool" where
  "cache_ShouldServe c sz rangeRequested =
     ShouldServeRequest c (direct_request\<lparr>mr_Size := sz, mr_RangeRequested := rangeRequested\<rparr>)"

definition cache_shouldWarm :: "AssetCache \<Rightarrow> MemoryRequest \<Rightarrow> bool" where
  "cache_shouldWarm c request \<longleftrightarrow> Enabled c \<and> ShouldWarm (ac_policy c) request"

section \<open>Entries\<close>

definition storeEntry ::
    "'s body_store \<Rightarrow> AssetCache \<Rightarrow> string \<Rightarrow> Entry \<Rightarrow> MemoryRequest \<Rightarrow> bool \<Rightarrow> 's \<Rightarrow> bool \<times> 's" where
  "storeEntry st c p entry request wait s =
     (let ttl = TTL (ac_policy c) request;
          cost = max (int (length (Body entry))) 1;
          (stored, s1) = (if ttl > 0 then bs_SetWithTTL st s p entry cost ttl else bs_Set st s p entry cost)
      in if \<not> wait then (stored, s1)
         else let s2 = bs_Wait st s1
              in if stored then (case bs_Get st s2 p of (e, s3) \<Rightarrow> (e \<noteq> None, s3)) else (False, s2))"

definition readFile :: "files \<Rightarrow> string \<Rightarrow> cache_error + bytes" where
  "readFile fs p = (case fs p of None \<Rightarrow> Inl (LoadFailed p) | Some b \<Rightarrow> Inr b)"

definition readAndCachePath ::
    "'s body_store \<Rightarrow> AssetCache \<Rightarrow> files \<Rightarrow> string \<Rightarrow> MemoryRequest \<Rightarrow> nat option \<Rightarrow> bool \<Rightarrow> 's \<Rightarrow>
     (cache_error + Entry \<times> bool) \<times> 's" where
  "readAndCachePath st c fs p request attachment wait s =
     (case readFile fs p of
        Inl e \<Rightarrow> (Inl e, s)
      | Inr body \<Rightarrow>
          (let entry = \<lparr> Body = body, Attachment = attachment \<rparr>
           in case storeEntry st c p entry request wait s of (cached, s') \<Rightarrow> (Inr (entry, cached), s')))"

definition attachmentMatches :: "nat option \<Rightarrow> entryLoadOptions \<Rightarrow> bool" where
  "attachmentMatches existing options =
     (case lo_attachmentMatches options of Some m \<Rightarrow> m existing | None \<Rightarrow> existing \<noteq> None)"

definition ensureAttachment ::
    "'s body_store \<Rightarrow> AssetCache \<Rightarrow> string \<Rightarrow> MemoryRequest \<Rightarrow> Entry \<Rightarrow> entryLoadOptions \<Rightarrow> 's \<Rightarrow> Entry \<times> 's" where
  "ensureAttachment st c p request entry options s =
     (if lo_attachment options = None \<or> attachmentMatches (Attachment entry) options then (entry, s)
      else (let e = entry\<lparr>Attachment := lo_attachment options\<rparr>
            in (e, snd (storeEntry st c p e request False s))))"

definition loadEntryOnce ::
    "'s body_store \<Rightarrow> AssetCache \<Rightarrow> files \<Rightarrow> string \<Rightarrow> MemoryRequest \<Rightarrow> entryLoadOptions \<Rightarrow> 's \<Rightarrow> (cache_error + Entry \<times> bool) \<times> 's" where
  "loadEntryOnce st c fs p request options s =
     (case bs_Get st s p of
        (Some entry, s1) \<Rightarrow> (Inr (entry, True), s1)
      | (None, s1) \<Rightarrow>
          (case readAndCachePath st c fs p request (lo_attachment options) (lo_wait options) s1 of
             (Inl e, s2) \<Rightarrow> (Inl e, s2) | (Inr (entry, _), s2) \<Rightarrow> (Inr (entry, False), s2)))"

definition getEntryWithRequest ::
    "'s body_store \<Rightarrow> AssetCache \<Rightarrow> files \<Rightarrow> string \<Rightarrow> MemoryRequest \<Rightarrow> entryLoadOptions \<Rightarrow> 's \<Rightarrow> (cache_error + Entry \<times> bool) \<times> 's" where
  "getEntryWithRequest st c fs p request options s =
     (if \<not> Enabled c then (Inl CacheDisabled, s)
      else case bs_Get st s p of
             (Some entry, s1) \<Rightarrow>
               (case ensureAttachment st c p request entry options s1 of (e, s2) \<Rightarrow> (Inr (e, True), s2))
           | (None, s1) \<Rightarrow>
               (case loadEntryOnce st c fs p request options s1 of
                  (Inl e, s2) \<Rightarrow> (Inl e, s2)
                | (Inr (entry, found), s2) \<Rightarrow>
                    (case ensureAttachment st c p request entry options s2 of (e, s3) \<Rightarrow> (Inr (e, found), s3))))"

definition GetEntryWithRequest ::
    "'s body_store \<Rightarrow> AssetCache \<Rightarrow> files \<Rightarrow> string \<Rightarrow> MemoryRequest \<Rightarrow> 's \<Rightarrow> (cache_error + Entry \<times> bool) \<times> 's" where
  "GetEntryWithRequest st c fs p request =
     getEntryWithRequest st c fs p request \<lparr> lo_attachment = None, lo_attachmentMatches = None, lo_wait = True \<rparr>"

definition GetEntryForServe ::
    "'s body_store \<Rightarrow> AssetCache \<Rightarrow> files \<Rightarrow> string \<Rightarrow> MemoryRequest \<Rightarrow> nat option \<Rightarrow> (nat option \<Rightarrow> bool) option \<Rightarrow> 's \<Rightarrow>
     (cache_error + Entry \<times> bool) \<times> 's" where
  "GetEntryForServe st c fs p request attachment matches =
     getEntryWithRequest st c fs p request \<lparr> lo_attachment = attachment, lo_attachmentMatches = matches, lo_wait = False \<rparr>"

definition GetOrLoadWithRequest ::
    "'s body_store \<Rightarrow> AssetCache \<Rightarrow> files \<Rightarrow> string \<Rightarrow> MemoryRequest \<Rightarrow> 's \<Rightarrow> (cache_error + bytes \<times> bool) \<times> 's" where
  "GetOrLoadWithRequest st c fs p request s =
     (case GetEntryWithRequest st c fs p request s of
        (Inl e, s') \<Rightarrow> (Inl e, s') | (Inr (entry, found), s') \<Rightarrow> (Inr (Body entry, found), s'))"

definition GetOrLoad ::
    "'s body_store \<Rightarrow> AssetCache \<Rightarrow> files \<Rightarrow> string \<Rightarrow> 's \<Rightarrow> (cache_error + bytes \<times> bool) \<times> 's" where
  "GetOrLoad st c fs p = GetOrLoadWithRequest st c fs p (direct_request\<lparr>mr_Path := p\<rparr>)"

definition GetCachedEntry :: "'s body_store \<Rightarrow> AssetCache \<Rightarrow> string \<Rightarrow> 's \<Rightarrow> Entry option \<times> 's" where
  "GetCachedEntry st c p s = (if \<not> Enabled c then (None, s) else bs_Get st s p)"

definition Attach :: "'s body_store \<Rightarrow> AssetCache \<Rightarrow> string \<Rightarrow> MemoryRequest \<Rightarrow> nat option \<Rightarrow> 's \<Rightarrow> bool \<times> 's" where
  "Attach st c p request attachment s =
     (if \<not> Enabled c then (False, s)
      else case bs_Get st s p of
             (None, s1) \<Rightarrow> (False, s1)
           | (Some entry, s1) \<Rightarrow> storeEntry st c p \<lparr> Body = Body entry, Attachment = attachment \<rparr> request True s1)"

definition cache_Delete :: "'s body_store \<Rightarrow> AssetCache \<Rightarrow> string \<Rightarrow> 's \<Rightarrow> bool \<times> 's" where
  "cache_Delete st c p s =
     (if \<not> Enabled c then (False, s)
      else case bs_Get st s p of
             (None, s1) \<Rightarrow> (False, s1) | (Some _, s1) \<Rightarrow> (True, bs_Wait st (bs_Del st s1 p)))"

section \<open>Warming\<close>

definition preloadPath ::
    "'s body_store \<Rightarrow> AssetCache \<Rightarrow> files \<Rightarrow> string \<Rightarrow> MemoryRequest \<Rightarrow> WarmStats \<times> 's \<Rightarrow> cache_error option \<times> WarmStats \<times> 's" where
  "preloadPath st c fs p request = (\<lambda>(stats, s).
     if trim_space p = [] then (None, stats, s)
     else if \<not> ShouldServeRequest c request \<or> \<not> cache_shouldWarm c request then (None, stats, s)
     else case bs_Get st s p of
            (Some _, s1) \<Rightarrow> (None, stats, s1)
          | (None, s1) \<Rightarrow>
              (case readAndCachePath st c fs p request None False s1 of
                 (Inl e, s2) \<Rightarrow> (Some e, stats, s2)
               | (Inr (entry, cached), s2) \<Rightarrow>
                   (None, if cached then stats\<lparr>ws_Entries := ws_Entries stats + 1,
                                              ws_Bytes := ws_Bytes stats + int (length (Body entry))\<rparr> else stats, s2)))"

definition preloadAsset ::
    "'s body_store \<Rightarrow> AssetCache \<Rightarrow> files \<Rightarrow> Asset \<Rightarrow> WarmStats \<times> 's \<Rightarrow> cache_error option \<times> WarmStats \<times> 's" where
  "preloadAsset st c fs a =
     preloadPath st c fs (a_FullPath a)
       \<lparr> mr_Path = a_FullPath a, mr_AssetPath = a_Path a, mr_Size = a_Size a, mr_MediaType = a_MediaType a, mr_Encoding = [],
         mr_Format = [], mr_Width = 0, mr_Kind = MemoryEntryKindAsset, mr_UseCase = MemoryUseCaseWarm, mr_RangeRequested = False \<rparr>"

definition preloadVariant ::
    "'s body_store \<Rightarrow> AssetCache \<Rightarrow> files \<Rightarrow> Variant \<Rightarrow> MemoryUseCase \<Rightarrow> WarmStats \<times> 's \<Rightarrow> cache_error option \<times> WarmStats \<times> 's" where
  "preloadVariant st c fs v useCase =
     preloadPath st c fs (v_ArtifactPath v)
       \<lparr> mr_Path = v_ArtifactPath v, mr_AssetPath = v_AssetPath v, mr_Size = v_Size v, mr_MediaType = v_MediaType v,
         mr_Encoding = v_Encoding v, mr_Format = v_Format v, mr_Width = v_Width v, mr_Kind = MemoryEntryKindVariant,
         mr_UseCase = useCase, mr_RangeRequested = False \<rparr>"

text \<open>Whether the context is done is a function of what was done before.\<close>

type_synonym 's warm_state = "WarmStats \<times> 's"

fun warmVariants ::
    "'s body_store \<Rightarrow> AssetCache \<Rightarrow> files \<Rightarrow> ('s warm_state \<Rightarrow> bool) \<Rightarrow> Variant list \<Rightarrow> 's warm_state \<Rightarrow> cache_error option \<times> 's warm_state" where
  "warmVariants st c fs cx [] x = (if cx x then Some WarmCanceled else None, x)"
| "warmVariants st c fs cx (v # vs) x =
     (if cx x then (Some WarmCanceled, x)
      else case preloadVariant st c fs v MemoryUseCaseWarm x of
             (Some e, y) \<Rightarrow> (Some e, y) | (None, y) \<Rightarrow> warmVariants st c fs cx vs y)"

definition warmAsset ::
    "'s body_store \<Rightarrow> AssetCache \<Rightarrow> files \<Rightarrow> ('s warm_state \<Rightarrow> bool) \<Rightarrow> Asset \<Rightarrow> Variant list \<Rightarrow> 's warm_state \<Rightarrow>
     cache_error option \<times> 's warm_state" where
  "warmAsset st c fs cx a vs x =
     (if cx x then (Some WarmCanceled, x)
      else case preloadAsset st c fs a x of
             (Some e, y) \<Rightarrow> (Some e, y) | (None, y) \<Rightarrow> warmVariants st c fs cx vs y)"

definition no_stats :: WarmStats where "no_stats = \<lparr> ws_Entries = 0, ws_Bytes = 0 \<rparr>"

text \<open>The statistics of an asset are added when it was warmed without an error.\<close>

fun warmAssets ::
    "'s body_store \<Rightarrow> AssetCache \<Rightarrow> files \<Rightarrow> ('s warm_state \<Rightarrow> bool) \<Rightarrow> IndexedCatalog \<Rightarrow> Asset list \<Rightarrow> 's warm_state \<Rightarrow>
     cache_error option \<times> 's warm_state" where
  "warmAssets st c fs cx cat [] x = (if cx x then Some WarmCanceled else None, x)"
| "warmAssets st c fs cx cat (a # as) (stats, s) =
     (case ListVariantsView cat (a_Path a) of
        (vs, cat') \<Rightarrow>
          (case warmAsset st c fs cx a vs (no_stats, s) of
             (Some e, (_, s')) \<Rightarrow> (Some e, (stats, s'))
           | (None, (added, s')) \<Rightarrow>
               warmAssets st c fs cx cat' as
                 (\<lparr> ws_Entries = ws_Entries stats + ws_Entries added, ws_Bytes = ws_Bytes stats + ws_Bytes added \<rparr>, s')))"

definition WarmSelected ::
    "'s body_store \<Rightarrow> AssetCache \<Rightarrow> files \<Rightarrow> ('s warm_state \<Rightarrow> bool) \<Rightarrow> IndexedCatalog \<Rightarrow> 's \<Rightarrow> (cache_error + WarmStats) \<times> 's" where
  "WarmSelected st c fs cx cat s =
     (if \<not> Enabled c then (Inr no_stats, s)
      else case AllAssets cat of
             (as, cat') \<Rightarrow>
               (case warmAssets st c fs cx cat' as (no_stats, s) of
                  (Some e, (_, s')) \<Rightarrow> (Inl e, s') | (None, (stats, s')) \<Rightarrow> (Inr stats, bs_Wait st s')))"

definition Warm ::
    "'s body_store \<Rightarrow> AssetCache \<Rightarrow> files \<Rightarrow> ('s warm_state \<Rightarrow> bool) \<Rightarrow> IndexedCatalog \<Rightarrow> 's \<Rightarrow> (cache_error + WarmStats) \<times> 's" where
  "Warm st c fs cx cat s = (if \<not> cache_WarmupEnabled c then (Inr no_stats, s) else WarmSelected st c fs cx cat s)"

text \<open>The handlers of the two events.\<close>

definition subscribeVariantRemoved :: "'s body_store \<Rightarrow> AssetCache \<Rightarrow> string \<Rightarrow> 's \<Rightarrow> 's" where
  "subscribeVariantRemoved st c artifactPath s = snd (cache_Delete st c artifactPath s)"

definition subscribeVariantGenerated :: "'s body_store \<Rightarrow> AssetCache \<Rightarrow> files \<Rightarrow> string \<Rightarrow> string \<Rightarrow> int \<Rightarrow> 's \<Rightarrow> 's" where
  "subscribeVariantGenerated st c fs artifactPath assetPath sz s =
     (case preloadPath st c fs artifactPath
             \<lparr> mr_Path = artifactPath, mr_AssetPath = assetPath, mr_Size = sz, mr_MediaType = [], mr_Encoding = [], mr_Format = [],
               mr_Width = 0, mr_Kind = MemoryEntryKindVariant, mr_UseCase = MemoryUseCaseEvent, mr_RangeRequested = False \<rparr>
             (no_stats, s) of
        (Some _, (_, s')) \<Rightarrow> s' | (None, (_, s')) \<Rightarrow> if Enabled c then bs_Wait st s' else s')"

section \<open>What the library documents\<close>

text \<open>\<open>may s p e\<close>: in the state \<open>s\<close> a lookup of \<open>p\<close> may still return \<open>e\<close>, now or when buffered writes are applied.\<close>

type_synonym 's may_hold = "'s \<Rightarrow> string \<Rightarrow> Entry \<Rightarrow> bool"

definition settled :: "'s body_store \<Rightarrow> 's may_hold \<Rightarrow> 's \<Rightarrow> bool" where
  "settled st may s \<longleftrightarrow> (\<forall>p x. fst (bs_Get st s p) = None \<longrightarrow> \<not> may s p x)"

definition cache_laws :: "'s body_store \<Rightarrow> 's may_hold \<Rightarrow> bool" where
  "cache_laws st may \<longleftrightarrow>
     (\<forall>s p x s'. bs_Get st s p = (Some x, s') \<longrightarrow> may s p x) \<and>
     (\<forall>s p q x. may (snd (bs_Get st s p)) q x \<longrightarrow> may s q x) \<and>
     (\<forall>s p. settled st may s \<longrightarrow> settled st may (snd (bs_Get st s p))) \<and>
     (\<forall>s p e n q x. may (snd (bs_Set st s p e n)) q x \<longrightarrow> may s q x \<or> q = p \<and> x = e) \<and>
     (\<forall>s p e n t q x. may (snd (bs_SetWithTTL st s p e n t)) q x \<longrightarrow> may s q x \<or> q = p \<and> x = e) \<and>
     (\<forall>s p q x. may (bs_Del st s p) q x \<longrightarrow> may s q x) \<and>
     (\<forall>s q x. may (bs_Wait st s) q x \<longrightarrow> may s q x) \<and>
     (\<forall>s p x. \<not> may (bs_Wait st (bs_Del st s p)) p x) \<and>
     (\<forall>s. settled st may (bs_Wait st s))"

lemma cache_lawsD:
  assumes "cache_laws st may"
  shows "bs_Get st s p = (Some x, s') \<Longrightarrow> may s p x" "bs_Get st s p = (e, s') \<Longrightarrow> may s' q x \<Longrightarrow> may s q x"
    "settled st may s \<Longrightarrow> bs_Get st s p = (e, s') \<Longrightarrow> settled st may s'"
    "bs_Set st s p f n = (b, s') \<Longrightarrow> may s' q x \<Longrightarrow> may s q x \<or> q = p \<and> x = f"
    "bs_SetWithTTL st s p f n t = (b, s') \<Longrightarrow> may s' q x \<Longrightarrow> may s q x \<or> q = p \<and> x = f"
    "may (bs_Del st s p) q x \<Longrightarrow> may s q x" "may (bs_Wait st s) q x \<Longrightarrow> may s q x"
    "\<not> may (bs_Wait st (bs_Del st s p)) p x" "settled st may (bs_Wait st s)"
  using assms unfolding cache_laws_def by (metis snd_conv)+

section \<open>The cache shows the files\<close>

text \<open>Everything the cache may still return is the content of its file.\<close>

definition fresh :: "'s may_hold \<Rightarrow> files \<Rightarrow> 's \<Rightarrow> bool" where
  "fresh may fs s \<longleftrightarrow> (\<forall>p x. may s p x \<longrightarrow> fs p = Some (Body x))"

lemma fresh_mono: "fresh may fs s \<Longrightarrow> (\<And>q x. may s' q x \<Longrightarrow> may s q x) \<Longrightarrow> fresh may fs s'"
  by (auto simp: fresh_def)

lemma fresh_Get: "cache_laws st may \<Longrightarrow> fresh may fs s \<Longrightarrow> bs_Get st s p = (e, s') \<Longrightarrow> fresh may fs s'"
  by (auto intro: fresh_mono dest: cache_lawsD(2))

lemma fresh_Wait: "cache_laws st may \<Longrightarrow> fresh may fs s \<Longrightarrow> fresh may fs (bs_Wait st s)"
  by (auto intro: fresh_mono dest: cache_lawsD(7))

lemma fresh_found: "cache_laws st may \<Longrightarrow> fresh may fs s \<Longrightarrow> bs_Get st s p = (Some x, s') \<Longrightarrow> fs p = Some (Body x)"
  by (auto simp: fresh_def dest: cache_lawsD(1))

lemma fresh_storeEntry:
  assumes l: "cache_laws st may" and f: "fresh may fs s" and e: "fs p = Some (Body entry)"
    and r: "storeEntry st c p entry request wait s = (b, s')"
  shows "fresh may fs s'"
proof -
  obtain stored s1 where s1: "(if TTL (ac_policy c) request > 0
      then bs_SetWithTTL st s p entry (max (int (length (Body entry))) 1) (TTL (ac_policy c) request)
      else bs_Set st s p entry (max (int (length (Body entry))) 1)) = (stored, s1)" by fastforce
  have "fs q = Some (Body x)" if "may s1 q x" for q x
  proof -
    from s1 that have "may s q x \<or> q = p \<and> x = entry"
      by (auto split: if_splits dest: cache_lawsD(4) [OF l] cache_lawsD(5) [OF l])
    with e f show ?thesis by (auto simp: fresh_def)
  qed
  then have 1: "fresh may fs s1" by (simp add: fresh_def)
  then have 2: "fresh may fs (bs_Wait st s1)" by (rule fresh_Wait [OF l])
  show ?thesis
  proof (cases "wait \<and> stored")
    case False
    with r s1 1 2 show ?thesis by (auto simp: storeEntry_def Let_def split: if_splits)
  next
    case True
    obtain e' s3 where g: "bs_Get st (bs_Wait st s1) p = (e', s3)" by fastforce
    then have "s' = s3" using r s1 True by (simp add: storeEntry_def Let_def)
    with fresh_Get [OF l 2 g] show ?thesis by simp
  qed
qed

lemma fresh_readAndCachePath:
  assumes "cache_laws st may" "fresh may fs s" "readAndCachePath st c fs p request att wait s = (r, s')"
  shows "fresh may fs s' \<and>
    (case r of Inl e \<Rightarrow> fs p = None \<and> e = LoadFailed p | Inr (x, _) \<Rightarrow> fs p = Some (Body x))"
proof (cases "fs p")
  case None
  with assms show ?thesis by (auto simp: readAndCachePath_def readFile_def)
next
  case (Some body)
  let ?e = "\<lparr> Body = body, Attachment = att \<rparr>"
  obtain b t where t: "storeEntry st c p ?e request wait s = (b, t)" by fastforce
  have "fs p = Some (Body ?e)" using Some by simp
  from fresh_storeEntry [OF assms(1,2) this t] assms(3) Some t show ?thesis
    by (auto simp: readAndCachePath_def readFile_def Let_def)
qed

lemma fresh_ensureAttachment:
  assumes "cache_laws st may" "fresh may fs s" "fs p = Some (Body entry)"
    and "ensureAttachment st c p request entry options s = (e, s')"
  shows "fresh may fs s' \<and> Body e = Body entry"
proof (cases "lo_attachment options = None \<or> attachmentMatches (Attachment entry) options")
  case True
  with assms show ?thesis by (simp add: ensureAttachment_def)
next
  case False
  let ?e = "entry\<lparr>Attachment := lo_attachment options\<rparr>"
  obtain b t where s: "storeEntry st c p ?e request False s = (b, t)" by fastforce
  have "fs p = Some (Body ?e)" using assms(3) by simp
  from fresh_storeEntry [OF assms(1,2) this s] s False assms(4) show ?thesis by (auto simp: ensureAttachment_def Let_def)
qed

lemma fresh_loadEntryOnce:
  assumes "cache_laws st may" "fresh may fs s" "loadEntryOnce st c fs p request options s = (r, s')"
  shows "fresh may fs s' \<and> (case r of Inl e \<Rightarrow> fs p = None \<and> e = LoadFailed p | Inr (x, _) \<Rightarrow> fs p = Some (Body x))"
proof -
  obtain e s1 where g: "bs_Get st s p = (e, s1)" by fastforce
  note f1 = fresh_Get [OF assms(1,2) g]
  show ?thesis
  proof (cases e)
    case (Some x)
    with assms(3) g f1 fresh_found [OF assms(1,2)] show ?thesis by (auto simp: loadEntryOnce_def)
  next
    case None
    obtain q s2 where "readAndCachePath st c fs p request (lo_attachment options) (lo_wait options) s1 = (q, s2)" by fastforce
    with fresh_readAndCachePath [OF assms(1) f1 this] assms(3) g None show ?thesis
      by (auto simp: loadEntryOnce_def split: sum.splits prod.splits)
  qed
qed

lemma fresh_getEntry:
  assumes l: "cache_laws st may" and f: "fresh may fs s" and on: "Enabled c"
    and r: "getEntryWithRequest st c fs p request options s = (r, s')"
  shows "fresh may fs s' \<and> (case r of Inl e \<Rightarrow> fs p = None \<and> e = LoadFailed p | Inr (x, _) \<Rightarrow> fs p = Some (Body x))"
proof -
  obtain e s1 where g: "bs_Get st s p = (e, s1)" by fastforce
  note f1 = fresh_Get [OF l f g]
  show ?thesis
  proof (cases e)
    case (Some x)
    have fx: "fs p = Some (Body x)" using fresh_found [OF l f] g Some by simp
    obtain y t where t: "ensureAttachment st c p request x options s1 = (y, t)" by fastforce
    with fresh_ensureAttachment [OF l f1 fx t] r g Some on fx show ?thesis by (auto simp: getEntryWithRequest_def)
  next
    case None
    obtain q s2 where q: "loadEntryOnce st c fs p request options s1 = (q, s2)" by fastforce
    note f2 = fresh_loadEntryOnce [OF l f1 q]
    show ?thesis
    proof (cases q)
      case (Inl e)
      with f2 r g None on q show ?thesis by (auto simp: getEntryWithRequest_def)
    next
      case (Inr z)
      obtain x found where z: "z = (x, found)" by fastforce
      with f2 Inr have fx: "fs p = Some (Body x)" and f3: "fresh may fs s2" by simp_all
      obtain y t where t: "ensureAttachment st c p request x options s2 = (y, t)" by fastforce
      with fresh_ensureAttachment [OF l f3 fx t] r g None on q Inr z fx show ?thesis
        by (auto simp: getEntryWithRequest_def)
    qed
  qed
qed

lemma fresh_Delete:
  assumes l: "cache_laws st may" and f: "fresh may fs s" and r: "cache_Delete st c p s = (b, s')"
  shows "fresh may fs s'"
proof -
  obtain e s1 where g: "bs_Get st s p = (e, s1)" by fastforce
  note f1 = fresh_Get [OF l f g]
  have "fresh may fs (bs_Wait st (bs_Del st s1 p))"
    by (rule fresh_mono [OF f1]) (auto dest: cache_lawsD(6,7) [OF l])
  with f f1 r g show ?thesis by (cases e) (auto simp: cache_Delete_def split: if_splits)
qed

text \<open>A delete between a change of the file and the next request, on a settled store, makes the cache show the new file.\<close>

lemma fresh_change:
  assumes l: "cache_laws st may" and f: "fresh may fs s" and on: "Enabled c" and w: "settled st may s"
    and r: "cache_Delete st c p s = (b, s')"
  shows "fresh may (fs(p := new)) s'"
proof -
  have f': "fresh may fs s'" by (rule fresh_Delete [OF l f r])
  obtain e s1 where g: "bs_Get st s p = (e, s1)" by fastforce
  have "\<not> may s' p x" for x
  proof (cases e)
    case None
    then have "s' = s1" "\<not> may s p x" using r g on w by (auto simp: cache_Delete_def settled_def)
    with cache_lawsD(2) [OF l g] show ?thesis by blast
  next
    case (Some y)
    with r g on cache_lawsD(8) [OF l] show ?thesis by (auto simp: cache_Delete_def)
  qed
  with f' show ?thesis by (auto simp: fresh_def)
qed

lemma fresh_preloadPath:
  assumes l: "cache_laws st may" and f: "fresh may fs s" and r: "preloadPath st c fs p request (stats, s) = (e, stats', s')"
  shows "fresh may fs s'"
proof -
  obtain x s1 where g: "bs_Get st s p = (x, s1)" by fastforce
  note f1 = fresh_Get [OF l f g]
  obtain q s2 where q: "readAndCachePath st c fs p request None False s1 = (q, s2)" by fastforce
  from fresh_readAndCachePath [OF l f1 q] f f1 r g q show ?thesis
    by (auto simp: preloadPath_def split: if_splits option.splits sum.splits prod.splits)
qed

lemma fresh_Attach:
  assumes l: "cache_laws st may" and f: "fresh may fs s" and r: "Attach st c p request att s = (b, s')"
  shows "fresh may fs s'"
proof -
  obtain e s1 where g: "bs_Get st s p = (e, s1)" by fastforce
  note f1 = fresh_Get [OF l f g]
  show ?thesis
  proof (cases "Enabled c \<and> e \<noteq> None")
    case False
    with f f1 r g show ?thesis by (auto simp: Attach_def split: if_splits option.splits)
  next
    case True
    then obtain x where x: "e = Some x" by auto
    have "fs p = Some (Body \<lparr> Body = Body x, Attachment = att \<rparr>)" using fresh_found [OF l f] g x by simp
    from fresh_storeEntry [OF l f1 this] r g x True show ?thesis by (auto simp: Attach_def)
  qed
qed

lemma fresh_warmVariants:
  assumes "cache_laws st may" "fresh may fs (snd x)" "warmVariants st c fs cx vs x = (e, y)"
  shows "fresh may fs (snd y)"
  using assms(2,3)
proof (induction vs arbitrary: x)
  case (Cons v vs)
  obtain e1 z where z: "preloadVariant st c fs v MemoryUseCaseWarm x = (e1, z)"
    by (cases "preloadVariant st c fs v MemoryUseCaseWarm x")
  have "fresh may fs (snd z)"
    using fresh_preloadPath [OF assms(1), of fs "snd x" c _ _ "fst x" e1 "fst z" "snd z"] Cons.prems(1) z
    by (simp add: preloadVariant_def)
  with Cons.IH [OF this] Cons.prems z show ?case by (auto split: if_splits option.splits)
qed (auto split: if_splits)

lemma fresh_warmAsset:
  assumes "cache_laws st may" "fresh may fs (snd x)" "warmAsset st c fs cx a vs x = (e, y)"
  shows "fresh may fs (snd y)"
proof -
  obtain e1 z where z: "preloadAsset st c fs a x = (e1, z)" by (cases "preloadAsset st c fs a x")
  have "fresh may fs (snd z)"
    using fresh_preloadPath [OF assms(1), of fs "snd x" c _ _ "fst x" e1 "fst z" "snd z"] assms(2) z
    by (simp add: preloadAsset_def)
  with fresh_warmVariants [OF assms(1) this] assms(2,3) z show ?thesis
    by (auto simp: warmAsset_def split: if_splits option.splits)
qed

lemma fresh_warmAssets:
  assumes "cache_laws st may" "fresh may fs (snd x)" "warmAssets st c fs cx cat as x = (e, y)"
  shows "fresh may fs (snd y)"
  using assms(2,3)
proof (induction as arbitrary: cat x)
  case (Cons a as)
  obtain stats s where x: "x = (stats, s)" by (cases x)
  obtain vs cat' where v: "ListVariantsView cat (a_Path a) = (vs, cat')" by (cases "ListVariantsView cat (a_Path a)")
  obtain e1 added t where z: "warmAsset st c fs cx a vs (no_stats, s) = (e1, added, t)" using prod_cases3 by blast
  have "fresh may fs t" using fresh_warmAsset [OF assms(1) _ z] Cons.prems(1) x by simp
  with Cons v z x show ?case by (auto split: option.splits)
qed (auto split: if_splits)

text \<open>What the server does with the cache, one operation after the other.  A file changes only on a settled store, and the
  cache is told with a delete before it is used again.\<close>

inductive cache_reachable :: "'s body_store \<Rightarrow> AssetCache \<Rightarrow> 's may_hold \<Rightarrow> files \<Rightarrow> 's \<Rightarrow> files \<Rightarrow> 's \<Rightarrow> bool"
  for st c may fs0 s0 where
  start: "cache_reachable st c may fs0 s0 fs0 s0"
| load: "cache_reachable st c may fs0 s0 fs s \<Longrightarrow> getEntryWithRequest st c fs p request options s = (r, s') \<Longrightarrow>
    cache_reachable st c may fs0 s0 fs s'"
| cached: "cache_reachable st c may fs0 s0 fs s \<Longrightarrow> GetCachedEntry st c p s = (e, s') \<Longrightarrow> cache_reachable st c may fs0 s0 fs s'"
| attach: "cache_reachable st c may fs0 s0 fs s \<Longrightarrow> Attach st c p request att s = (b, s') \<Longrightarrow> cache_reachable st c may fs0 s0 fs s'"
| delete: "cache_reachable st c may fs0 s0 fs s \<Longrightarrow> cache_Delete st c p s = (b, s') \<Longrightarrow> cache_reachable st c may fs0 s0 fs s'"
| generated: "cache_reachable st c may fs0 s0 fs s \<Longrightarrow>
    cache_reachable st c may fs0 s0 fs (subscribeVariantGenerated st c fs p a n s)"
| warmed: "cache_reachable st c may fs0 s0 fs s \<Longrightarrow> WarmSelected st c fs cx cat s = (w, s') \<Longrightarrow> cache_reachable st c may fs0 s0 fs s'"
| waited: "cache_reachable st c may fs0 s0 fs s \<Longrightarrow> cache_reachable st c may fs0 s0 fs (bs_Wait st s)"
| changed: "cache_reachable st c may fs0 s0 fs s \<Longrightarrow> settled st may s \<Longrightarrow> cache_Delete st c p s = (b, s') \<Longrightarrow>
    cache_reachable st c may fs0 s0 (fs(p := new)) s'"

lemma fresh_reachable:
  assumes "cache_reachable st c may fs0 s0 fs s" and l: "cache_laws st may" and on: "ac_enabled c"
    and empty: "\<And>p x. \<not> may s0 p x"
  shows "fresh may fs s"
  using assms(1)
proof induction
  case start
  show ?case using empty by (simp add: fresh_def)
next
  case (load fs s p request options r s')
  from fresh_getEntry [OF l load.IH _ load.hyps(2)] on show ?case by (simp add: Enabled_def)
next
  case (cached fs s p e s')
  with on fresh_Get [OF l cached.IH] show ?case by (auto simp: GetCachedEntry_def Enabled_def)
next
  case (attach fs s p request att b s')
  from fresh_Attach [OF l attach.IH attach.hyps(2)] show ?case .
next
  case (delete fs s p b s')
  from fresh_Delete [OF l delete.IH delete.hyps(2)] show ?case .
next
  case (generated fs s p a n)
  let ?r = "\<lparr> mr_Path = p, mr_AssetPath = a, mr_Size = n, mr_MediaType = [], mr_Encoding = [], mr_Format = [],
               mr_Width = 0, mr_Kind = MemoryEntryKindVariant, mr_UseCase = MemoryUseCaseEvent, mr_RangeRequested = False \<rparr>"
  obtain e stats t where t: "preloadPath st c fs p ?r (no_stats, s) = (e, stats, t)" using prod_cases3 by blast
  from fresh_preloadPath [OF l generated.IH t] have "fresh may fs t" .
  with fresh_Wait [OF l] t show ?case by (auto simp: subscribeVariantGenerated_def split: option.split)
next
  case (warmed fs s cx cat w s')
  obtain as cat' where as: "AllAssets cat = (as, cat')" by (cases "AllAssets cat")
  obtain e stats t where t: "warmAssets st c fs cx cat' as (no_stats, s) = (e, stats, t)" using prod_cases3 by blast
  from fresh_warmAssets [OF l _ t] warmed.IH have "fresh may fs t" by simp
  with fresh_Wait [OF l this] warmed as t on show ?case by (auto simp: WarmSelected_def Enabled_def split: option.splits)
next
  case (waited fs s)
  from fresh_Wait [OF l waited.IH] show ?case .
next
  case (changed fs s p b s' new)
  have "Enabled c" using on by (simp add: Enabled_def)
  from fresh_change [OF l changed.IH this changed.hyps(2,3)] show ?case .
qed

text \<open>C38: The cache is transparent: in every reachable state of a server that starts with an empty cache, deletes an entry
  whenever its file has changed, and lets no file change while writes to the store are buffered, an entry request gives
  the present content of the file, whatever the store has kept, dropped or evicted, and fails exactly when the file cannot
  be read.\<close>

theorem cache_transparent:
  assumes "cache_laws st may" "ac_enabled c" "\<And>p x. \<not> may s0 p x" "cache_reachable st c may fs0 s0 fs s"
  shows "(case fst (getEntryWithRequest st c fs p request options s) of
      Inl e \<Rightarrow> fs p = None \<and> e = LoadFailed p
    | Inr (entry, _) \<Rightarrow> fs p = Some (Body entry))"
proof -
  obtain r s' where r: "getEntryWithRequest st c fs p request options s = (r, s')" by fastforce
  from fresh_getEntry [OF assms(1) fresh_reachable [OF assms(4,1,2,3)] _ r] assms(2) show ?thesis
    by (auto simp: Enabled_def r split: sum.splits)
qed

text \<open>A store without a buffer, which keeps everything.\<close>

definition plain_store :: "(string \<rightharpoonup> Entry) body_store" where
  "plain_store = \<lparr> bs_Get = (\<lambda>s p. (s p, s)), bs_Set = (\<lambda>s p e _. (True, s(p \<mapsto> e))), bs_SetWithTTL = (\<lambda>s p e _ _. (True, s(p \<mapsto> e))),
     bs_Del = (\<lambda>s p. s(p := None)), bs_Wait = id \<rparr>"

lemma plain_store_laws: "cache_laws plain_store (\<lambda>s p x. s p = Some x)"
  by (auto simp: cache_laws_def plain_store_def settled_def)

definition example_cache :: AssetCache where
  "example_cache = \<lparr> ac_policy = NewMemoryPolicy None, ac_warmup = False, ac_enabled = True \<rparr>"

text \<open>The file is loaded, changes, and is read again.\<close>

theorem cache_transparent_witness:
  "\<exists>s fs. cache_reachable plain_store example_cache (\<lambda>s p x. s p = Some x) [''/a'' \<mapsto> ''old''] Map.empty fs s \<and>
     fs ''/a'' = Some ''new'' \<and>
     (case fst (GetOrLoad plain_store example_cache fs ''/a'' s) of Inl _ \<Rightarrow> False | Inr (body, _) \<Rightarrow> body = ''new'')"
proof -
  let ?may = "\<lambda>s p x. s p = Some x" and ?fs = "[''/a'' \<mapsto> ''old'']"
  let ?R = "cache_reachable plain_store example_cache ?may ?fs Map.empty"
  let ?o = "\<lparr> lo_attachment = None, lo_attachmentMatches = None, lo_wait = True \<rparr>"
  let ?q = "direct_request\<lparr>mr_Path := ''/a''\<rparr>"
  obtain r s1 where s1: "getEntryWithRequest plain_store example_cache ?fs ''/a'' ?q ?o Map.empty = (r, s1)" by fastforce
  have 1: "?R ?fs s1" by (rule cache_reachable.load [OF cache_reachable.start s1])
  obtain b s2 where s2: "cache_Delete plain_store example_cache ''/a'' s1 = (b, s2)" by fastforce
  have "settled plain_store ?may s1" by (auto simp: settled_def plain_store_def)
  from cache_reachable.changed [OF 1 this s2, of "Some ''new''"] have 2: "?R (?fs(''/a'' \<mapsto> ''new'')) s2" .
  have on: "ac_enabled example_cache" by (simp add: example_cache_def)
  have e: "\<And>p x. \<not> ?may (Map.empty :: string \<rightharpoonup> Entry) p x" by simp
  from cache_transparent [OF plain_store_laws on e 2, of "''/a''" ?q ?o]
  have "case fst (GetOrLoad plain_store example_cache (?fs(''/a'' \<mapsto> ''new'')) ''/a'' s2) of Inl _ \<Rightarrow> False | Inr (body, _) \<Rightarrow> body = ''new''"
    by (auto simp: GetOrLoad_def GetOrLoadWithRequest_def GetEntryWithRequest_def split: sum.splits prod.splits)
  with 2 show ?thesis by (intro exI [of _ s2] exI [of _ "?fs(''/a'' \<mapsto> ''new'')"]) simp
qed

section \<open>Where a delete comes too early\<close>

text \<open>A store that buffers its writes until \<open>Wait\<close>, as the library does: what is visible, and the writes in their order.\<close>

definition buffered_store :: "((string \<rightharpoonup> Entry) \<times> (string \<times> Entry option) list) body_store" where
  "buffered_store = \<lparr> bs_Get = (\<lambda>s p. (fst s p, s)), bs_Set = (\<lambda>(v, b) p e _. (True, (v, b @ [(p, Some e)]))),
     bs_SetWithTTL = (\<lambda>(v, b) p e _ _. (True, (v, b @ [(p, Some e)]))),
     bs_Del = (\<lambda>(v, b) p. (v(p := None), b @ [(p, None)])),
     bs_Wait = (\<lambda>(v, b). (foldl (\<lambda>m (p, e). m(p := e)) v b, [])) \<rparr>"

definition buffered_may :: "((string \<rightharpoonup> Entry) \<times> (string \<times> Entry option) list) may_hold" where
  "buffered_may s p x \<longleftrightarrow> fst s p = Some x \<or> (p, Some x) \<in> set (snd s)"

lemma foldl_writes: "foldl (\<lambda>m (p, e). m(p := e)) v b q = Some x \<Longrightarrow> v q = Some x \<or> (q, Some x) \<in> set b"
proof (induction b arbitrary: v)
  case (Cons w b)
  obtain p e where w: "w = (p, e)" by (cases w)
  from Cons.prems have "foldl (\<lambda>m (p, e). m(p := e)) (v(p := e)) b q = Some x" by (simp only: w foldl.simps prod.case)
  from Cons.IH [OF this] show ?case by (auto simp: w split: if_splits)
qed simp

lemma buffered_store_laws: "cache_laws buffered_store buffered_may"
  by (auto simp: cache_laws_def buffered_store_def buffered_may_def settled_def dest: foldl_writes split: if_splits)

text \<open>The load for a response does not wait for the store.  When its file changes before the write is applied, the delete
  finds no entry and does nothing, and from then on the cache returns the old content.\<close>

theorem delete_misses_buffered_entry:
  "\<exists>s1 s2 s3.
     GetEntryForServe buffered_store example_cache [''/a'' \<mapsto> ''old''] ''/a'' direct_request None None (Map.empty, []) =
       (Inr (\<lparr> Body = ''old'', Attachment = None \<rparr>, False), s1) \<and>
     cache_Delete buffered_store example_cache ''/a'' s1 = (False, s2) \<and>
     s3 = bs_Wait buffered_store s2 \<and>
     fst (GetEntryForServe buffered_store example_cache [''/a'' \<mapsto> ''new''] ''/a'' direct_request None None s3) =
       Inr (\<lparr> Body = ''old'', Attachment = None \<rparr>, True)"
  by (simp add: GetEntryForServe_def getEntryWithRequest_def example_cache_def Enabled_def buffered_store_def loadEntryOnce_def
      readAndCachePath_def readFile_def storeEntry_def Let_def ensureAttachment_def cache_Delete_def)

end
