(* ===== verification/TaskMaintenance.thy ===== *)
theory TaskMaintenance
  imports SourceRescan AssetCache
begin

text \<open>
  The other tasks of \<open>internal/task\<close>: the artifact janitor (\<open>artifact_janitor.go\<close>, \<open>artifact_janitor_support.go\<close>), which
  removes variants without artifact, artifacts without variant and empty directories, and the cache warmer
  (\<open>cache_warmer.go\<close>), which loads the assets of the start page into the memory cache.

  The tree below the artifact root is a list of relative paths with their nodes.  \<open>os.Stat\<close>, the directory walk, the calls
  that fail and the moment at which the context is cancelled are parameters; metrics, logs and the scheduler are left out.
\<close>

section \<open>The janitor\<close>

type_synonym artifact_tree = "(string \<times> fs_node) list"

record ArtifactJanitorReport =
  aj_ScannedArtifacts :: nat
  aj_RemovedOrphans :: nat
  aj_RemovedDirectories :: nat
  aj_MissingVariants :: nat
  aj_CacheInvalidations :: nat

definition empty_janitor_report :: ArtifactJanitorReport where
  "empty_janitor_report = \<lparr> aj_ScannedArtifacts = 0, aj_RemovedOrphans = 0, aj_RemovedDirectories = 0,
     aj_MissingVariants = 0, aj_CacheInvalidations = 0 \<rparr>"

record 's janitor_env =
  jv_stat :: "nat \<Rightarrow> artifact_tree \<Rightarrow> string \<Rightarrow> go_error option"
  jv_view :: root_view
  jv_view_again :: root_view
  jv_walk :: "artifact_tree \<Rightarrow> (string \<times> bool) list \<times> go_error option"
  jv_stuck :: "string \<Rightarrow> bool"
  jv_close :: "go_error option"
  jv_canceled :: "nat \<Rightarrow> bool"
  jv_store :: "'s body_store"
  jv_cache :: "AssetCache option"

record 's artifactJanitorRun =
  jr_catalog :: IndexedCatalog
  jr_bodies :: 's
  jr_tree :: artifact_tree
  jr_expected :: "string list"
  jr_report :: ArtifactJanitorReport
  jr_tick :: nat

definition count_janitor :: "(ArtifactJanitorReport \<Rightarrow> ArtifactJanitorReport) \<Rightarrow> 's artifactJanitorRun \<Rightarrow> 's artifactJanitorRun" where
  "count_janitor f st = st\<lparr>jr_report := f (jr_report st)\<rparr>"

definition task_invalidateAssetCache :: "'s janitor_env \<Rightarrow> string \<Rightarrow> 's artifactJanitorRun \<Rightarrow> 's artifactJanitorRun" where
  "task_invalidateAssetCache env p st =
     (case jv_cache env of
        None \<Rightarrow> st
      | Some c \<Rightarrow>
          (case cache_Delete (jv_store env) c p (jr_bodies st) of
             (removed, s) \<Rightarrow> count_janitor (\<lambda>r. r\<lparr>aj_CacheInvalidations := aj_CacheInvalidations r + (if removed then 1 else 0)\<rparr>)
                               (st\<lparr>jr_bodies := s\<rparr>)))"

definition contextErr :: "'s janitor_env \<Rightarrow> 's artifactJanitorRun \<Rightarrow> go_error option \<times> 's artifactJanitorRun" where
  "contextErr env st =
     (if jv_canceled env (jr_tick st) then Some (OopsError (TextError ''context canceled'')) else None,
      st\<lparr>jr_tick := Suc (jr_tick st)\<rparr>)"

definition os_stat :: "'s janitor_env \<Rightarrow> string \<Rightarrow> 's artifactJanitorRun \<Rightarrow> go_error option \<times> 's artifactJanitorRun" where
  "os_stat env p st = (jv_stat env (jr_tick st) (jr_tree st) p, st\<lparr>jr_tick := Suc (jr_tick st)\<rparr>)"

definition variantArtifactPath :: "Variant \<Rightarrow> string" where
  "variantArtifactPath v = trim_space (v_ArtifactPath v)"

definition collectCatalogVariant :: "'s janitor_env \<Rightarrow> Variant \<Rightarrow> 's artifactJanitorRun \<Rightarrow> go_error option \<times> 's artifactJanitorRun" where
  "collectCatalogVariant env v st =
     (let p = variantArtifactPath v
      in if p = [] then (None, st)
         else (case os_stat env p st of
                 (None, st1) \<Rightarrow> (None, st1\<lparr>jr_expected := p # jr_expected st1\<rparr>)
               | (Some _, st1) \<Rightarrow>
                   (case os_stat env p st1 of
                      (statErr, st2) \<Rightarrow>
                        (if (case statErr of Some e \<Rightarrow> \<not> os_IsNotExist e | None \<Rightarrow> False)
                         then (Some (OopsError (the statErr)), st2)
                         else (case DeleteVariantByArtifactPath (jr_catalog st2) p of
                                 (deleted, c) \<Rightarrow>
                                   (let st3 = st2\<lparr>jr_catalog := c\<rparr>
                                    in (None, if deleted
                                              then task_invalidateAssetCache env p
                                                     (count_janitor (\<lambda>r. r\<lparr>aj_MissingVariants := aj_MissingVariants r + 1\<rparr>) st3)
                                              else st3)))))))"

definition collectCatalogArtifactPaths :: "'s janitor_env \<Rightarrow> 's artifactJanitorRun \<Rightarrow> go_error option \<times> 's artifactJanitorRun" where
  "collectCatalogArtifactPaths env st =
     (case AllVariants (jr_catalog st) of
        (vs, c) \<Rightarrow>
          range_until (\<lambda>v st. case contextErr env st of
                                (Some e, st1) \<Rightarrow> (Some e, st1) | (None, st1) \<Rightarrow> collectCatalogVariant env v st1)
            vs (st\<lparr>jr_catalog := c\<rparr>))"

text \<open>\<open>os.Root.Remove\<close>: a file, a link or an empty directory.\<close>

definition below :: "string \<Rightarrow> string \<Rightarrow> bool" where "below p q \<longleftrightarrow> has_prefix q (p @ ''/'')"

definition root_remove :: "'s janitor_env \<Rightarrow> string \<Rightarrow> artifact_tree \<Rightarrow> go_error option \<times> artifact_tree" where
  "root_remove env p t =
     (case map_of t p of
        None \<Rightarrow> (Some (OsError ENotExist), t)
      | Some node \<Rightarrow>
          if jv_stuck env p \<or> (node = NDir \<and> list_ex (\<lambda>(q, _). below p q) t) then (Some (OsError EOther), t)
          else (None, AList.delete p t))"

definition openArtifactRoot :: "root_view \<Rightarrow> go_error option" where
  "openArtifactRoot view =
     (case openValidatedDirectoryRoot view of
        None \<Rightarrow> None | Some e \<Rightarrow> Some (if os_IsNotExist e then OsError ENotExist else OopsError e))"

definition removeOrphanArtifact ::
    "'s janitor_env \<Rightarrow> string \<Rightarrow> string \<Rightarrow> 's artifactJanitorRun \<Rightarrow> go_error option \<times> 's artifactJanitorRun" where
  "removeOrphanArtifact env rel artifactPath st =
     (case root_remove env rel (jr_tree st) of
        (removeErr, t) \<Rightarrow>
          (let st1 = st\<lparr>jr_tree := t\<rparr>
           in if (case removeErr of Some e \<Rightarrow> \<not> os_IsNotExist e | None \<Rightarrow> False) then (Some (OopsError (the removeErr)), st1)
              else (let st2 = task_invalidateAssetCache env artifactPath
                                (count_janitor (\<lambda>r. r\<lparr>aj_RemovedOrphans := aj_RemovedOrphans r + 1\<rparr>) st1)
                    in (None, st2\<lparr>jr_catalog := snd (DeleteVariantByArtifactPath (jr_catalog st2) artifactPath)\<rparr>))))"

definition visitArtifactPath ::
    "'s janitor_env \<Rightarrow> string \<Rightarrow> string \<times> bool \<Rightarrow> 's artifactJanitorRun \<Rightarrow> go_error option \<times> 's artifactJanitorRun" where
  "visitArtifactPath env base entry st =
     (case contextErr env st of
        (Some e, st1) \<Rightarrow> (Some e, st1)
      | (None, st1) \<Rightarrow>
          if snd entry then (None, st1)
          else (let artifactPath = path_join [base, fst entry];
                    st2 = count_janitor (\<lambda>r. r\<lparr>aj_ScannedArtifacts := aj_ScannedArtifacts r + 1\<rparr>) st1
                in if artifactPath \<in> set (jr_expected st2) then (None, st2)
                   else removeOrphanArtifact env (fst entry) artifactPath st2))"

definition walkOrphanArtifacts :: "'s janitor_env \<Rightarrow> string \<Rightarrow> 's artifactJanitorRun \<Rightarrow> go_error option \<times> 's artifactJanitorRun" where
  "walkOrphanArtifacts env base st =
     (case jv_walk env (jr_tree st) of
        (entries, listErr) \<Rightarrow>
          (case range_until (visitArtifactPath env base) entries st of
             (visitErr, st') \<Rightarrow>
               (case (case visitErr of Some e \<Rightarrow> Some e | None \<Rightarrow> listErr) of
                  None \<Rightarrow> (None, st')
                | Some walkErr \<Rightarrow> (if os_IsNotExist walkErr then None else Some (OopsError walkErr), st'))))"

definition removeOrphanArtifacts :: "'s janitor_env \<Rightarrow> string \<Rightarrow> 's artifactJanitorRun \<Rightarrow> go_error option \<times> 's artifactJanitorRun" where
  "removeOrphanArtifacts env base st =
     (case openArtifactRoot (jv_view env) of
        Some e \<Rightarrow> (if os_IsNotExist e then None else Some e, st)
      | None \<Rightarrow>
          (case walkOrphanArtifacts env base st of
             (Some walkErr, st') \<Rightarrow> (Some walkErr, st')
           | (None, st') \<Rightarrow> (map_option OopsError (jv_close env), st')))"

section \<open>Empty directories\<close>

definition collectArtifactDirs :: "'s janitor_env \<Rightarrow> artifact_tree \<Rightarrow> go_error + string list" where
  "collectArtifactDirs env t =
     (case jv_walk env t of
        (_, Some e) \<Rightarrow> Inl (OopsError e)
      | (entries, None) \<Rightarrow> Inr (map fst (filter (\<lambda>(p, dir). dir \<and> p \<noteq> ''.'') entries)))"

fun remove_dirs :: "'s janitor_env \<Rightarrow> string list \<Rightarrow> nat \<times> artifact_tree \<Rightarrow> nat \<times> artifact_tree" where
  "remove_dirs env [] x = x"
| "remove_dirs env (p # ps) (n, t) =
     (case root_remove env p t of
        (None, t') \<Rightarrow> remove_dirs env ps (Suc n, t') | (Some _, _) \<Rightarrow> remove_dirs env ps (n, t))"

definition removeEmptyArtifactDirs :: "'s janitor_env \<Rightarrow> string list \<Rightarrow> artifact_tree \<Rightarrow> nat \<times> artifact_tree" where
  "removeEmptyArtifactDirs env dirs t =
     (if dirs = [] then (0, t)
      else remove_dirs env (sort_func (\<lambda>left right. length (path_clean right) < length (path_clean left)) dirs) (0, t))"

definition pruneEmptyArtifactDirs :: "'s janitor_env \<Rightarrow> string \<Rightarrow> artifact_tree \<Rightarrow> nat \<times> artifact_tree" where
  "pruneEmptyArtifactDirs env base t =
     (if trim_space (path_clean base) = [] then (0, t)
      else (case openArtifactRoot (jv_view_again env) of
              Some _ \<Rightarrow> (0, t)
            | None \<Rightarrow> (case collectArtifactDirs env t of Inl _ \<Rightarrow> (0, t) | Inr dirs \<Rightarrow> removeEmptyArtifactDirs env dirs t)))"

definition syncArtifactCatalog ::
    "'s janitor_env \<Rightarrow> string \<Rightarrow> IndexedCatalog \<Rightarrow> 's \<Rightarrow> artifact_tree \<Rightarrow>
     (go_error + ArtifactJanitorReport) \<times> IndexedCatalog \<times> 's \<times> artifact_tree" where
  "syncArtifactCatalog env storeRoot cat bodies t =
     (let base = trim_space storeRoot
      in if base = [] then (Inr empty_janitor_report, cat, bodies, t)
         else (let run = \<lparr> jr_catalog = cat, jr_bodies = bodies, jr_tree = t, jr_expected = [],
                           jr_report = empty_janitor_report, jr_tick = 0 \<rparr>
               in (case collectCatalogArtifactPaths env run of
                     (Some e, st) \<Rightarrow> (Inl e, jr_catalog st, jr_bodies st, jr_tree st)
                   | (None, st) \<Rightarrow>
                       (case removeOrphanArtifacts env base st of
                          (Some e, st') \<Rightarrow> (Inl e, jr_catalog st', jr_bodies st', jr_tree st')
                        | (None, st') \<Rightarrow>
                            (case pruneEmptyArtifactDirs env base (jr_tree st') of
                               (n, t') \<Rightarrow> (Inr ((jr_report st')\<lparr>aj_RemovedDirectories := aj_RemovedDirectories (jr_report st') + n\<rparr>),
                                          jr_catalog st', jr_bodies st', t'))))))"

section \<open>What a successful run leaves\<close>

text \<open>The file system does not change behind the janitor's back while it looks at the variants, and the walk lists what is
  there.\<close>

definition steady_stat :: "'s janitor_env \<Rightarrow> bool" where
  "steady_stat env \<longleftrightarrow> (\<forall>n t p. jv_stat env n t p = jv_stat env 0 t p)"

definition walk_lists_tree :: "'s janitor_env \<Rightarrow> bool" where
  "walk_lists_tree env \<longleftrightarrow>
     (\<forall>t. set (fst (jv_walk env t)) = insert (''.'', True) {(p, dir). \<exists>node. map_of t p = Some node \<and> dir = (node = NDir)})"

lemma task_invalidate_fields [simp]:
  "jr_catalog (task_invalidateAssetCache env p st) = jr_catalog st" "jr_tree (task_invalidateAssetCache env p st) = jr_tree st"
  "jr_expected (task_invalidateAssetCache env p st) = jr_expected st"
  by (simp_all add: task_invalidateAssetCache_def count_janitor_def split: option.split prod.split)

lemma count_janitor_fields [simp]:
  "jr_catalog (count_janitor f st) = jr_catalog st" "jr_tree (count_janitor f st) = jr_tree st"
  "jr_expected (count_janitor f st) = jr_expected st"
  by (simp_all add: count_janitor_def)

text \<open>After the variants with the artifact paths \<open>D\<close> were looked at.\<close>

definition collected :: "variantRecord set \<Rightarrow> (string \<Rightarrow> bool) \<Rightarrow> artifact_tree \<Rightarrow> string set \<Rightarrow> 's artifactJanitorRun \<Rightarrow> bool" where
  "collected R present t D st \<longleftrightarrow> catalog_ok (jr_catalog st) \<and> jr_tree st = t \<and>
     set (jr_expected st) = {p \<in> D. p \<noteq> [] \<and> present p} \<and>
     recs (variants (jr_catalog st)) = {r \<in> R. r_ArtifactPath r \<in> D \<and> r_ArtifactPath r \<noteq> [] \<longrightarrow> present (r_ArtifactPath r)}"

lemma collected_tick [simp]: "collected R present t D (st\<lparr>jr_tick := n\<rparr>) = collected R present t D st"
  by (simp add: collected_def)

lemma collectCatalogVariant_collected:
  assumes inv: "collected R present t D st" and present: "present = (\<lambda>p. jv_stat env 0 t p = None)"
    and steady: "steady_stat env" and trimmed: "trim_space (v_ArtifactPath v) = v_ArtifactPath v"
    and step: "collectCatalogVariant env v st = (None, st')"
  shows "collected R present t (insert (v_ArtifactPath v) D) st'"
proof -
  define p where "p = v_ArtifactPath v"
  have tree: "jr_tree st = t" and ok: "catalog_ok (jr_catalog st)" using inv by (simp_all add: collected_def)
  have stat: "jv_stat env n t q = None \<longleftrightarrow> present q" for n q using steady by (metis present steady_stat_def)
  consider (blank) "p = []" | (there) "p \<noteq> []" "present p" | (gone) "p \<noteq> []" "\<not> present p" by blast
  then show ?thesis
  proof cases
    case blank
    with step inv trimmed show ?thesis
      by (auto simp: collectCatalogVariant_def variantArtifactPath_def p_def collected_def)
  next
    case there
    then have "st' = st\<lparr>jr_tick := Suc (jr_tick st), jr_expected := p # jr_expected st\<rparr>"
      using step trimmed stat [of "jr_tick st" p]
      by (simp add: collectCatalogVariant_def variantArtifactPath_def os_stat_def tree flip: p_def)
    with inv there show ?thesis by (auto simp: collected_def simp flip: p_def)
  next
    case gone
    obtain e where e: "jv_stat env (jr_tick st) t p = Some e" using gone(2) stat by (metis not_None_eq)
    obtain b c where d: "DeleteVariantByArtifactPath (jr_catalog st) p = (b, c)" by fastforce
    have "jr_catalog st' = c \<and> jr_tree st' = t \<and> jr_expected st' = jr_expected st"
      using step trimmed gone e d
      by (auto simp: collectCatalogVariant_def variantArtifactPath_def os_stat_def tree Let_def simp flip: p_def split: if_splits option.splits)
    with deleted_artifact(1,2) [OF ok d] inv gone show ?thesis by (auto simp: collected_def simp flip: p_def)
  qed
qed

lemma collect_collected:
  assumes inv: "collected R present t D st" and present: "present = (\<lambda>p. jv_stat env 0 t p = None)"
    and steady: "steady_stat env" and trimmed: "\<forall>v\<in>set vs. trim_space (v_ArtifactPath v) = v_ArtifactPath v"
    and loop: "range_until (\<lambda>v st. case contextErr env st of
                       (Some e, st1) \<Rightarrow> (Some e, st1) | (None, st1) \<Rightarrow> collectCatalogVariant env v st1) vs st = (None, st')"
  shows "collected R present t (D \<union> v_ArtifactPath ` set vs) st'"
  using inv trimmed loop
proof (induction vs arbitrary: D st)
  case (Cons v vs)
  obtain st1 where st1: "contextErr env st = (None, st1)" "collected R present t D st1"
    using Cons.prems(1,3) by (auto simp: contextErr_def split: if_splits prod.splits option.splits)
  obtain st2 where st2: "collectCatalogVariant env v st1 = (None, st2)"
    using Cons.prems(3) by (auto simp: st1(1) split: prod.splits option.splits)
  have "collected R present t (insert (v_ArtifactPath v) D) st2"
    using collectCatalogVariant_collected [OF st1(2) present steady _ st2] Cons.prems(2) by simp
  from Cons.IH [OF this] Cons.prems(2,3) show ?case by (simp add: st1(1) st2)
qed simp

text \<open>The walk removes the files whose paths are not expected, and no variant that is left.\<close>

definition walking :: "variantRecord set \<Rightarrow> string set \<Rightarrow> artifact_tree \<Rightarrow> 's artifactJanitorRun \<Rightarrow> bool" where
  "walking R E t st \<longleftrightarrow> catalog_ok (jr_catalog st) \<and> recs (variants (jr_catalog st)) = R \<and> set (jr_expected st) = E \<and> jr_tree st = t"

lemma visit_walking:
  assumes inv: "walking R E t st" and R: "\<forall>r\<in>R. r_ArtifactPath r = [] \<or> r_ArtifactPath r \<in> E"
    and plain: "\<not> snd entry \<longrightarrow> map_of t (fst entry) \<noteq> Some NDir"
    and step: "visitArtifactPath env base entry st = (None, st')"
  shows "walking R E (if snd entry \<or> path_join [base, fst entry] \<in> E then t else AList.delete (fst entry) t) st'"
proof -
  define p where "p = path_join [base, fst entry]"
  obtain st1 where st1: "contextErr env st = (None, st1)" "walking R E t st1"
    using inv step by (auto simp: visitArtifactPath_def contextErr_def walking_def split: if_splits)
  show ?thesis
  proof (cases "snd entry \<or> p \<in> E")
    case True
    then have "jr_catalog st' = jr_catalog st1 \<and> jr_tree st' = jr_tree st1 \<and> jr_expected st' = jr_expected st1"
      using step st1 by (auto simp: visitArtifactPath_def walking_def p_def Let_def split: if_splits)
    with True st1(2) show ?thesis by (auto simp: walking_def p_def)
  next
    case False
    define st2 where "st2 = count_janitor (\<lambda>r. r\<lparr>aj_ScannedArtifacts := aj_ScannedArtifacts r + 1\<rparr>) st1"
    have w: "walking R E t st2" using st1(2) by (simp add: walking_def st2_def)
    have orphan: "removeOrphanArtifact env (fst entry) p st2 = (None, st')"
      using step False st1 w by (simp add: visitArtifactPath_def Let_def walking_def st2_def flip: p_def)
    obtain err t' where rm: "root_remove env (fst entry) t = (err, t')" by fastforce
    have gone: "t' = AList.delete (fst entry) t" if "err = None \<or> (\<exists>e. err = Some e \<and> os_IsNotExist e)"
      using rm that plain False
      by (auto simp: root_remove_def map_of_eq_None_iff split: option.splits if_splits)
    have err: "err = None \<or> (\<exists>e. err = Some e \<and> os_IsNotExist e)"
      using orphan rm w by (auto simp: removeOrphanArtifact_def walking_def Let_def split: option.splits if_splits)
    obtain b c where d: "DeleteVariantByArtifactPath (jr_catalog st2) p = (b, c)" by fastforce
    have st': "jr_catalog st' = c" "jr_tree st' = t'" "jr_expected st' = jr_expected st2"
      using orphan rm w d err by (auto simp: removeOrphanArtifact_def walking_def Let_def split: option.splits if_splits)
    have "catalog_ok c" "recs (variants c) = {r \<in> R. r_ArtifactPath r \<noteq> p \<or> p = []}"
      using deleted_artifact(1,2) [OF _ d] w by (auto simp: walking_def)
    moreover have "{r \<in> R. r_ArtifactPath r \<noteq> p \<or> p = []} = R" using R False by auto
    ultimately show ?thesis using st' gone [OF err] w False by (simp add: walking_def flip: p_def)
  qed
qed

lemma walk_walking:
  assumes inv: "walking R E t st" and R: "\<forall>r\<in>R. r_ArtifactPath r = [] \<or> r_ArtifactPath r \<in> E"
    and files: "\<forall>(q, dir)\<in>set entries. \<not> dir \<longrightarrow> map_of t q \<noteq> Some NDir"
    and loop: "range_until (visitArtifactPath env base) entries st = (None, st')"
  shows "walking R E (filter (\<lambda>(q, _). \<not> ((q, False) \<in> set entries \<and> path_join [base, q] \<notin> E)) t) st'"
  using inv files loop
proof (induction entries arbitrary: t st)
  case Nil
  then show ?case by (simp add: case_prod_unfold)
next
  case (Cons entry entries)
  obtain st1 where st1: "visitArtifactPath env base entry st = (None, st1)"
      "range_until (visitArtifactPath env base) entries st1 = (None, st')"
    using Cons.prems(3) by (auto split: prod.splits option.splits)
  define t1 where "t1 = (if snd entry \<or> path_join [base, fst entry] \<in> E then t else AList.delete (fst entry) t)"
  have w: "walking R E t1 st1"
    unfolding t1_def using Cons.prems(2) by (intro visit_walking [OF Cons.prems(1) R _ st1(1)]) auto
  have "map_of t1 q = Some NDir \<Longrightarrow> map_of t q = Some NDir" for q
    by (simp add: t1_def delete_conv' split: if_splits)
  then have dirs: "\<forall>(q, dir)\<in>set entries. \<not> dir \<longrightarrow> map_of t1 q \<noteq> Some NDir" using Cons.prems(2) by fastforce
  have eq: "filter (\<lambda>(q, _). \<not> ((q, False) \<in> set entries \<and> path_join [base, q] \<notin> E)) t1 =
      filter (\<lambda>(q, _). \<not> ((q, False) \<in> set (entry # entries) \<and> path_join [base, q] \<notin> E)) t"
    (is "filter ?P t1 = filter ?Q t")
  proof (cases "snd entry \<or> path_join [base, fst entry] \<in> E")
    case True
    have "?P x = ?Q x" for x using True by (cases x; cases entry) auto
    then have "?P = ?Q" by (rule ext)
    moreover have "t1 = t" unfolding t1_def using True by (rule if_P)
    ultimately show ?thesis by (simp only:)
  next
    case False
    obtain q where q: "entry = (q, False)" using False by (cases entry) simp
    have "fst entry \<noteq> fst x \<and> ?P x \<longleftrightarrow> ?Q x" for x
    proof (cases x)
      case (Pair y n)
      show ?thesis using False unfolding q Pair by (cases "y = q") simp_all
    qed
    then have "(\<lambda>x. fst entry \<noteq> fst x \<and> ?P x) = ?Q" by (rule ext)
    moreover have "t1 = filter (\<lambda>x. fst entry \<noteq> fst x) t"
      unfolding t1_def using False by (simp only: if_False AList.delete_eq case_prod_unfold)
    ultimately show ?thesis by (simp only: filter_filter)
  qed
  show ?case using Cons.IH [OF w dirs st1(2)] unfolding eq .
qed

text \<open>Removing directories leaves the files alone.\<close>

lemma root_remove_dir:
  assumes "root_remove env p t = (None, t')"
  shows "t' = AList.delete p t" "map_of t p = Some NDir \<Longrightarrow> map_of t q \<noteq> None \<Longrightarrow> \<not> below p q"
  using assms by (auto simp: root_remove_def list_ex_iff dest!: map_of_SomeD split: option.splits if_splits)

lemma remove_dirs_files:
  "\<forall>p\<in>set ps. map_of t p = None \<or> map_of t p = Some NDir \<Longrightarrow> remove_dirs env ps (n, t) = (m, t') \<Longrightarrow> node \<noteq> NDir \<Longrightarrow>
   map_of t' q = Some node \<longleftrightarrow> map_of t q = Some node"
proof (induction ps arbitrary: n t)
  case (Cons p ps)
  show ?case
  proof (cases "fst (root_remove env p t)")
    case None
    then obtain t1 where rm: "root_remove env p t = (None, t1)" by (cases "root_remove env p t") auto
    then have t1: "t1 = AList.delete p t" by (rule root_remove_dir)
    have "\<forall>p\<in>set ps. map_of t1 p = None \<or> map_of t1 p = Some NDir" using Cons.prems(1) by (simp add: t1 delete_conv')
    then have "map_of t' q = Some node \<longleftrightarrow> map_of t1 q = Some node"
      using Cons.IH [of t1 "Suc n"] Cons.prems(2,3) by (simp add: rm)
    moreover have "map_of t p \<noteq> Some node" using Cons.prems(1,3) by auto
    ultimately show ?thesis by (auto simp: t1 delete_conv')
  next
    case (Some e)
    then have "remove_dirs env (p # ps) (n, t) = remove_dirs env ps (n, t)" by (cases "root_remove env p t") simp
    with Cons.IH [of t n] Cons.prems show ?thesis by simp
  qed
qed simp

lemma prune_files:
  assumes law: "walk_lists_tree env" and "node \<noteq> NDir"
  shows "map_of (snd (pruneEmptyArtifactDirs env base t)) q = Some node \<longleftrightarrow> map_of t q = Some node"
proof -
  have "map_of (snd (removeEmptyArtifactDirs env dirs t)) q = Some node \<longleftrightarrow> map_of t q = Some node"
    if dirs: "collectArtifactDirs env t = Inr dirs" for dirs
  proof -
    have "\<forall>p\<in>set dirs. map_of t p = Some NDir"
      using dirs law by (auto simp: collectArtifactDirs_def walk_lists_tree_def split: prod.splits option.splits dest!: spec [of _ t])
    then have d: "\<forall>p\<in>set (sort_func lt dirs). map_of t p = None \<or> map_of t p = Some NDir" for lt by simp
    show ?thesis
      using remove_dirs_files [OF d prod.collapse [symmetric] assms(2), of env] by (simp add: removeEmptyArtifactDirs_def)
  qed
  then show ?thesis by (simp add: pruneEmptyArtifactDirs_def split: option.split sum.split)
qed

lemma remove_dirs_complete:
  assumes free: "\<And>p. \<not> jv_stuck env p"
  shows "remove_dirs env ps (n, t) = (m, t') \<Longrightarrow> sorted_wrt (\<lambda>a b. length b \<le> length a) ps \<Longrightarrow>
    (\<And>p. map_of t p = Some NDir \<Longrightarrow> p \<in> D \<union> set ps) \<Longrightarrow> (\<And>d p. d \<in> D \<Longrightarrow> p \<in> set ps \<Longrightarrow> length p \<le> length d) \<Longrightarrow>
    (\<And>d. d \<in> D \<Longrightarrow> map_of t d = Some NDir \<Longrightarrow> \<exists>q. map_of t q \<noteq> None \<and> below d q \<and> (map_of t q = Some NDir \<longrightarrow> q \<in> D)) \<Longrightarrow>
    (\<And>p. p \<in> set ps \<Longrightarrow> map_of t p = None \<or> map_of t p = Some NDir) \<Longrightarrow>
    map_of t' p = Some NDir \<Longrightarrow> \<exists>q. map_of t' q \<noteq> None \<and> below p q"
proof (induction ps arbitrary: n t D)
  case Nil
  then show ?case by fastforce
next
  case (Cons x ps)
  have sorted: "sorted_wrt (\<lambda>a b. length b \<le> length a) ps" using Cons.prems(2) by simp
  have lens: "length y \<le> length d" if "d \<in> insert x D" "y \<in> set ps" for d y
    using that Cons.prems(2,4) by auto
  show ?case
  proof (cases "fst (root_remove env x t)")
    case None
    then obtain t1 where rm: "root_remove env x t = (None, t1)" by (cases "root_remove env x t") auto
    note t1 = root_remove_dir [OF rm]
    have m1: "map_of t1 = (map_of t)(x := None)" by (simp add: t1(1) delete_conv')
    have x: "map_of t x = Some NDir" using rm Cons.prems(6) [of x] by (auto simp: root_remove_def split: option.splits)
    have run: "remove_dirs env ps (Suc n, t1) = (m, t')" using Cons.prems(1) by (simp add: rm)
    show ?thesis
    proof (rule Cons.IH [OF run sorted _ lens _ _ Cons.prems(7)])
      show "q \<in> insert x D \<union> set ps" if "map_of t1 q = Some NDir" for q
        using that Cons.prems(3) [of q] by (auto simp: m1 split: if_splits)
      show "map_of t1 q = None \<or> map_of t1 q = Some NDir" if "q \<in> set ps" for q
        using that Cons.prems(6) [of q] by (auto simp: m1)
      show "\<exists>q. map_of t1 q \<noteq> None \<and> below d q \<and> (map_of t1 q = Some NDir \<longrightarrow> q \<in> insert x D)"
        if d: "d \<in> insert x D" "map_of t1 d = Some NDir" for d
      proof -
        have dx: "d \<noteq> x" "map_of t d = Some NDir" "d \<in> D" using d by (auto simp: m1 split: if_splits)
        obtain q where q: "map_of t q \<noteq> None" "below d q" "map_of t q = Some NDir \<longrightarrow> q \<in> D" using Cons.prems(5) [OF dx(3,2)] by blast
        show ?thesis
        proof (cases "q = x")
          case True
          then have "x \<in> D" using q(3) x by simp
          then obtain r where "map_of t r \<noteq> None" "below x r" using Cons.prems(5) [of x] x by blast
          with t1(2) [OF x] show ?thesis by blast
        next
          case False
          with q show ?thesis by (auto simp: m1)
        qed
      qed
    qed
  next
    case (Some e)
    have run: "remove_dirs env ps (n, t) = (m, t')" using Cons.prems(1) Some by (cases "root_remove env x t") simp
    show ?thesis
    proof (rule Cons.IH [OF run sorted _ lens _ _ Cons.prems(7)])
      show "q \<in> insert x D \<union> set ps" if "map_of t q = Some NDir" for q using that Cons.prems(3) [of q] by auto
      show "map_of t q = None \<or> map_of t q = Some NDir" if "q \<in> set ps" for q using that Cons.prems(6) [of q] by auto
      show "\<exists>q. map_of t q \<noteq> None \<and> below d q \<and> (map_of t q = Some NDir \<longrightarrow> q \<in> insert x D)"
        if d: "d \<in> insert x D" "map_of t d = Some NDir" for d
      proof (cases "d \<in> D")
        case True
        with Cons.prems(5) [OF True d(2)] show ?thesis by blast
      next
        case False
        then have x: "map_of t x = Some NDir" "d = x" using d by simp_all
        then obtain q node where q: "(q, node) \<in> set t" "below x q"
          using Some free by (auto simp: root_remove_def list_ex_iff split: if_splits)
        have mq: "map_of t q \<noteq> None" unfolding map_of_eq_None_iff using q(1) by force
        have "length x < length q" using q(2) by (auto simp: below_def has_prefix_iff dest: prefix_length_le)
        then have "q \<notin> insert x (set ps)" using Cons.prems(2) by auto
        then have "map_of t q = Some NDir \<longrightarrow> q \<in> D" using Cons.prems(3) [of q] by auto
        with mq q(2) x(2) show ?thesis by blast
      qed
    qed
  qed
qed

text \<open>The directories are visited from the longest path to the shortest, so a directory whose entries all go is empty when its
  turn comes: none is left without an entry.\<close>

lemma prune_complete:
  assumes law: "walk_lists_tree env" "snd (jv_walk env t) = None" and free: "\<And>p. \<not> jv_stuck env p"
    and opens: "openArtifactRoot (jv_view_again env) = None" and base: "trim_space (path_clean base) \<noteq> []"
    and clean: "\<And>p. map_of t p \<noteq> None \<Longrightarrow> path_clean p = p \<and> p \<noteq> ''.''"
    and left: "map_of (snd (pruneEmptyArtifactDirs env base t)) p = Some NDir"
  shows "\<exists>q. map_of (snd (pruneEmptyArtifactDirs env base t)) q \<noteq> None \<and> below p q"
proof -
  obtain entries where walk: "jv_walk env t = (entries, None)" using law(2) by (cases "jv_walk env t") simp
  define dirs where "dirs = map fst (filter (\<lambda>(p, dir). dir \<and> p \<noteq> ''.'') entries)"
  have dirs: "set dirs = {p. map_of t p = Some NDir}"
  proof -
    have e: "set entries = insert (''.'', True) {(p, dir). \<exists>node. map_of t p = Some node \<and> dir = (node = NDir)}"
      using law(1) walk unfolding walk_lists_tree_def by (metis fst_conv)
    have "p \<in> set dirs \<longleftrightarrow> (p, True) \<in> set entries \<and> p \<noteq> ''.''" for p by (force simp: dirs_def)
    then show ?thesis using clean unfolding e by auto
  qed
  let ?ps = "sort_func (\<lambda>left right. length (path_clean right) < length (path_clean left)) dirs"
  have "sorted_wrt (\<lambda>a b. \<not> length (path_clean a) < length (path_clean b)) ?ps"
    by (rule sorted_sort_func) (auto simp: strict_weak_on_def)
  then have sorted: "sorted_wrt (\<lambda>a b. length b \<le> length a) ?ps"
    by (rule sorted_wrt_mono_rel [rotated]) (use clean dirs in \<open>auto simp: not_less\<close>)
  have prune: "pruneEmptyArtifactDirs env base t = remove_dirs env ?ps (0, t)"
    using opens base walk
    by (simp add: pruneEmptyArtifactDirs_def collectArtifactDirs_def removeEmptyArtifactDirs_def sort_func_def flip: dirs_def)
  have run: "remove_dirs env ?ps (0, t) = (fst (remove_dirs env ?ps (0, t)), snd (remove_dirs env ?ps (0, t)))" by simp
  show ?thesis
    unfolding prune
    by (rule remove_dirs_complete [OF free run sorted, where D = "{}"]) (use dirs left prune in auto)
qed

lemma map_of_filter_key: "map_of (filter (\<lambda>(k, _). P k) xs) q = (if P q then map_of xs q else None)"
  by (induction xs) auto

lemma sync_parts:
  assumes run: "syncArtifactCatalog env base cat bodies t = (Inr report, cat', bodies', t')"
    and base: "trim_space base = base" "base \<noteq> []"
  obtains st st' where "collectCatalogArtifactPaths env \<lparr> jr_catalog = cat, jr_bodies = bodies, jr_tree = t, jr_expected = [],
      jr_report = empty_janitor_report, jr_tick = 0 \<rparr> = (None, st)"
    "removeOrphanArtifacts env base st = (None, st')" "cat' = jr_catalog st'"
    "t' = snd (pruneEmptyArtifactDirs env base (jr_tree st'))"
proof -
  let ?run = "\<lparr> jr_catalog = cat, jr_bodies = bodies, jr_tree = t, jr_expected = [],
      jr_report = empty_janitor_report, jr_tick = 0 \<rparr>"
  obtain e st where c: "collectCatalogArtifactPaths env ?run = (e, st)" by fastforce
  obtain e' st' where r: "removeOrphanArtifacts env base st = (e', st')" by fastforce
  have "e = None" using run base c by (auto simp: syncArtifactCatalog_def Let_def split: option.splits)
  moreover from this have "e' = None"
    using run base c r by (auto simp: syncArtifactCatalog_def Let_def split: option.splits)
  ultimately show ?thesis
    using that [of st st'] run base c r by (auto simp: syncArtifactCatalog_def Let_def split: prod.splits)
qed

text \<open>A missing root is an error, so a run that succeeds has walked the whole tree.\<close>

lemma openArtifactRoot_not_missing: "openArtifactRoot view = Some e \<Longrightarrow> \<not> os_IsNotExist e"
  by (auto simp: openArtifactRoot_def openValidatedDirectoryRoot_def split: option.splits prod.splits if_splits)

lemma visit_error_wrapped: "visitArtifactPath env base entry st = (Some e, st') \<Longrightarrow> \<not> os_IsNotExist e"
  by (auto simp: visitArtifactPath_def contextErr_def removeOrphanArtifact_def Let_def split: if_splits prod.splits option.splits)

lemma range_until_error: "range_until f xs st = (Some e, st') \<Longrightarrow> \<exists>x s s'. f x s = (Some e, s')"
  by (induction xs arbitrary: st) (auto split: prod.splits option.splits)

lemma removeOrphan_walked:
  assumes "removeOrphanArtifacts env base st = (None, st')"
  shows "range_until (visitArtifactPath env base) (fst (jv_walk env (jr_tree st))) st = (None, st')"
proof -
  have w: "walkOrphanArtifacts env base st = (None, st')"
    using assms openArtifactRoot_not_missing by (auto simp: removeOrphanArtifacts_def split: option.splits prod.splits)
  obtain e s where r: "range_until (visitArtifactPath env base) (fst (jv_walk env (jr_tree st))) st = (e, s)" by fastforce
  have "e = None"
  proof (rule ccontr)
    assume "e \<noteq> None"
    then obtain err where e: "e = Some err" by blast
    from range_until_error [OF r [unfolded e]] have "\<not> os_IsNotExist err" using visit_error_wrapped by blast
    with w r e show False by (auto simp: walkOrphanArtifacts_def split: prod.splits if_splits)
  qed
  with w r show ?thesis by (auto simp: walkOrphanArtifacts_def split: prod.splits option.splits)
qed

text \<open>C0: A successful run of the janitor leaves the catalog and the disk in agreement: the variants that are left are those
  whose artifact \<open>os.Stat\<close> finds (and those without an artifact path), a file below the root is there afterwards exactly
  when it was there before and is the artifact of a variant that is left.  (The paths of the artifacts have no white space at
  their ends, \<open>os.Stat\<close> does not change its answers, and the directory walk lists what is there.)\<close>

theorem janitor_reconciles:
  assumes ok: "catalog_ok cat" and trimmed: "\<forall>r\<in>recs (variants cat). is_trimmed (r_ArtifactPath r)"
    and steady: "steady_stat env" and law: "walk_lists_tree env" and base: "trim_space base = base" "base \<noteq> []"
    and run: "syncArtifactCatalog env base cat bodies t = (Inr report, cat', bodies', t')"
  shows "catalog_ok cat' \<and>
    recs (variants cat') =
      {r \<in> recs (variants cat). r_ArtifactPath r = [] \<or> jv_stat env 0 t (r_ArtifactPath r) = None} \<and>
    (\<forall>q node. node \<noteq> NDir \<longrightarrow>
       (map_of t' q = Some node \<longleftrightarrow> map_of t q = Some node \<and>
          (\<exists>r\<in>recs (variants cat'). r_ArtifactPath r \<noteq> [] \<and> r_ArtifactPath r = path_join [base, q])))"
proof -
  define present where "present = (\<lambda>p. jv_stat env 0 t p = None)"
  define R where "R = recs (variants cat)"
  obtain st st' where c: "collectCatalogArtifactPaths env \<lparr> jr_catalog = cat, jr_bodies = bodies, jr_tree = t, jr_expected = [],
      jr_report = empty_janitor_report, jr_tick = 0 \<rparr> = (None, st)"
    and r: "removeOrphanArtifacts env base st = (None, st')" "cat' = jr_catalog st'"
    "t' = snd (pruneEmptyArtifactDirs env base (jr_tree st'))"
    using sync_parts [OF run base] by blast
  obtain vs c1 where a: "AllVariants cat = (vs, c1)" by fastforce
  note av = all_variants [OF ok a]
  let ?D = "r_ArtifactPath ` R"
  have "collected R present t ({} \<union> v_ArtifactPath ` set vs) st"
  proof (rule collect_collected [OF _ present_def steady])
    show "\<forall>v\<in>set vs. trim_space (v_ArtifactPath v) = v_ArtifactPath v"
      using trimmed av(4) by (metis imageE imageI trim_space_id)
  qed (use c a av(1,2) in \<open>simp_all add: collectCatalogArtifactPaths_def collected_def R_def\<close>)
  then have col: "collected R present t ?D st" by (simp add: av(4) R_def)
  define R' where "R' = {r \<in> R. r_ArtifactPath r \<noteq> [] \<longrightarrow> present (r_ArtifactPath r)}"
  define E where "E = {p \<in> ?D. p \<noteq> [] \<and> present p}"
  have start: "walking R' E t st" using col unfolding collected_def walking_def R'_def E_def by auto
  have files: "\<forall>(q, dir)\<in>set (fst (jv_walk env t)). \<not> dir \<longrightarrow> map_of t q \<noteq> Some NDir"
    using law unfolding walk_lists_tree_def by fastforce
  have tree: "jr_tree st = t" using start by (simp add: walking_def)
  have w: "walking R' E (filter (\<lambda>(q, _). \<not> ((q, False) \<in> set (fst (jv_walk env t)) \<and> path_join [base, q] \<notin> E)) t) st'"
    by (rule walk_walking [OF start _ files]) (use removeOrphan_walked [OF r(1)] in \<open>auto simp: R'_def E_def tree\<close>)
  have E: "path_join [base, q] \<in> E \<longleftrightarrow> (\<exists>r\<in>R'. r_ArtifactPath r \<noteq> [] \<and> r_ArtifactPath r = path_join [base, q])" for q
    unfolding E_def R'_def by (auto simp: image_iff) metis
  have "map_of t' q = Some node \<longleftrightarrow> map_of t q = Some node \<and> path_join [base, q] \<in> E" if n: "node \<noteq> NDir" for q node
  proof -
    have "map_of t' q = Some node \<longleftrightarrow> map_of (jr_tree st') q = Some node"
      unfolding r(3) by (rule prune_files [OF law n])
    also have "\<dots> \<longleftrightarrow> map_of t q = Some node \<and> \<not> ((q, False) \<in> set (fst (jv_walk env t)) \<and> path_join [base, q] \<notin> E)"
      using w by (auto simp: walking_def map_of_filter_key)
    also have "\<dots> \<longleftrightarrow> map_of t q = Some node \<and> path_join [base, q] \<in> E"
      using law n by (auto simp: walk_lists_tree_def)
    finally show ?thesis .
  qed
  with w E show ?thesis unfolding r(2) walking_def R'_def present_def R_def by auto
qed

text \<open>The janitor means to do nothing when the artifact root does not exist, but \<open>os.IsNotExist\<close> does not look into the
  wrapped error, and the run fails.\<close>

theorem missing_root_fails:
  assumes "rw_lstat (jv_view env) = None"
  shows "removeOrphanArtifacts env base st = (Some (OopsError (OopsError (OsError ENotExist))), st)"
  using assms by (simp add: removeOrphanArtifacts_def openArtifactRoot_def openValidatedDirectoryRoot_def)

text \<open>A tree with a kept artifact, one whose variant is gone, and a variant whose artifact is gone.\<close>

definition janitor_example_env :: "(string \<rightharpoonup> Entry) janitor_env" where
  "janitor_example_env = \<lparr> jv_stat = (\<lambda>_ _ p. if p = ''/c/a.br'' then None else Some (OsError ENotExist)),
     jv_view = \<lparr> rw_mkdir = True, rw_lstat = Some (RootDir, 1), rw_open = Some 1 \<rparr>,
     jv_view_again = \<lparr> rw_mkdir = True, rw_lstat = Some (RootDir, 1), rw_open = Some 1 \<rparr>,
     jv_walk = (\<lambda>t. ((''.'', True) # map (\<lambda>(p, node). (p, node = NDir)) (AList.clearjunk t), None)),
     jv_stuck = (\<lambda>_. False), jv_close = None, jv_canceled = (\<lambda>_. False), jv_store = plain_store, jv_cache = None \<rparr>"

definition janitor_example_variant :: "string \<Rightarrow> string \<Rightarrow> Variant" where
  "janitor_example_variant ident artifactPath = \<lparr> v_ID = ident, v_AssetPath = ''a'', v_ArtifactPath = artifactPath, v_Size = 1,
     v_MediaType = [], v_SourceHash = [], v_ETag = [], v_Encoding = ident, v_Format = [], v_Width = 0, v_Metadata = Map.empty \<rparr>"

definition janitor_example_catalog :: IndexedCatalog where
  "janitor_example_catalog = run_catalog (\<lambda>_. None)
     [OpUpsertAsset (Some \<lparr> a_Path = ''a'', a_FullPath = ''/s/a'', a_Size = 2, a_MediaType = [], a_SourceHash = [], a_ETag = [],
        a_Metadata = Map.empty \<rparr>),
      OpUpsertVariant (Some (janitor_example_variant ''br'' ''/c/a.br'')),
      OpUpsertVariant (Some (janitor_example_variant ''gzip'' ''/c/a.gz''))]"

theorem janitor_reconciles_witness:
  "\<exists>report cat' bodies' t'. syncArtifactCatalog janitor_example_env ''/c'' janitor_example_catalog Map.empty
      [(''a.br'', NFile ''x''), (''a.old'', NFile ''y''), (''d'', NDir)] = (Inr report, cat', bodies', t') \<and>
     r_ArtifactPath ` recs (variants cat') = {''/c/a.br''} \<and> map_of t' ''a.br'' = Some (NFile ''x'') \<and>
     map_of t' ''a.old'' \<noteq> Some (NFile ''y'')"
proof -
  let ?t = "[(''a.br'', NFile ''x''), (''a.old'', NFile ''y''), (''d'', NDir)]"
  let ?sync = "syncArtifactCatalog janitor_example_env ''/c'' janitor_example_catalog Map.empty ?t"
  have ok: "catalog_ok janitor_example_catalog" unfolding janitor_example_catalog_def by (rule run_catalog_ok [THEN conjunct1])
  have "map v_ArtifactPath (fst (AllVariants janitor_example_catalog)) = [''/c/a.br'', ''/c/a.gz'']" by code_simp
  then have paths: "r_ArtifactPath ` recs (variants janitor_example_catalog) = {''/c/a.br'', ''/c/a.gz''}"
    using all_variants(4) [OF ok prod.collapse [symmetric]] by (metis list.set_map list.simps(15) empty_set)
  have trimmed: "is_trimmed ''/c/a.br''" "is_trimmed ''/c/a.gz''" "trim_space ''/c'' = ''/c''" by code_simp+
  have "(p, node) \<in> set (AList.clearjunk t) \<longleftrightarrow> map_of t p = Some node" for t :: artifact_tree and p node
    using map_of_eq_Some_iff [OF distinct_clearjunk, of t p node] by (simp add: map_of_clearjunk)
  then have law: "walk_lists_tree janitor_example_env"
    unfolding walk_lists_tree_def janitor_example_env_def by (fastforce simp: image_iff)
  have steady: "steady_stat janitor_example_env" by (simp add: steady_stat_def janitor_example_env_def)
  have run: "fst ?sync = Inr \<lparr> aj_ScannedArtifacts = 2, aj_RemovedOrphans = 1, aj_RemovedDirectories = 1, aj_MissingVariants = 1,
      aj_CacheInvalidations = 0 \<rparr>" by code_simp
  obtain report cat' bodies' t' where s: "?sync = (Inr report, cat', bodies', t')" using run by (cases ?sync) auto
  have "\<forall>r\<in>recs (variants janitor_example_catalog). is_trimmed (r_ArtifactPath r)" using paths trimmed by (metis imageI insertE singletonD)
  from janitor_reconciles [OF ok this steady law trimmed(3) _ s] have j:
    "recs (variants cat') = {r \<in> recs (variants janitor_example_catalog). r_ArtifactPath r = [] \<or>
       jv_stat janitor_example_env 0 ?t (r_ArtifactPath r) = None}"
    "\<And>q node. node \<noteq> NDir \<Longrightarrow> map_of t' q = Some node \<longleftrightarrow> map_of ?t q = Some node \<and>
       (\<exists>r\<in>recs (variants cat'). r_ArtifactPath r \<noteq> [] \<and> r_ArtifactPath r = path_join [''/c'', q])" by auto
  have left: "r_ArtifactPath ` recs (variants cat') = {''/c/a.br''}"
  proof -
    have "r_ArtifactPath ` {r \<in> recs (variants janitor_example_catalog). P (r_ArtifactPath r)} =
        {p \<in> r_ArtifactPath ` recs (variants janitor_example_catalog). P p}" for P by auto
    then have "r_ArtifactPath ` recs (variants cat') = {p \<in> {''/c/a.br'', ''/c/a.gz''}. p = [] \<or> jv_stat janitor_example_env 0 ?t p = None}"
      unfolding j(1) paths .
    moreover have "{p \<in> {x, y}. P p} = {x}" if "P x" "\<not> P y" for P and x y :: string using that by auto
    ultimately show ?thesis by (rule trans) (simp_all add: janitor_example_env_def)
  qed
  have joins: "path_join [''/c'', ''a.br''] = ''/c/a.br''" "path_join [''/c'', ''a.old''] \<noteq> ''/c/a.br''" by code_simp+
  have "''/c/a.br'' \<in> r_ArtifactPath ` recs (variants cat')" unfolding left by (rule singletonI)
  then obtain r where r: "''/c/a.br'' = r_ArtifactPath r" "r \<in> recs (variants cat')" by (rule imageE)
  have kept: "map_of t' ''a.br'' = Some (NFile ''x'')"
  proof (rule j(2) [THEN iffD2])
    show "map_of ?t ''a.br'' = Some (NFile ''x'') \<and>
        (\<exists>r\<in>recs (variants cat'). r_ArtifactPath r \<noteq> [] \<and> r_ArtifactPath r = path_join [''/c'', ''a.br''])"
      unfolding joins(1) by (intro conjI bexI [OF _ r(2)]) (simp_all flip: r(1))
  qed simp
  have removed: "map_of t' ''a.old'' \<noteq> Some (NFile ''y'')"
  proof
    assume "map_of t' ''a.old'' = Some (NFile ''y'')"
    then obtain r where q: "r \<in> recs (variants cat')" "r_ArtifactPath r = path_join [''/c'', ''a.old'']"
      using j(2) [of "NFile ''y''" "''a.old''"] by (simp only: fs_node.distinct not_False_eq_True) blast
    have "r_ArtifactPath r \<in> r_ArtifactPath ` recs (variants cat')" using q(1) by (rule imageI)
    then have "path_join [''/c'', ''a.old''] = ''/c/a.br''" unfolding left q(2) by (rule singletonD)
    with joins(2) show False by (rule notE)
  qed
  show ?thesis by (intro exI conjI) (rule s, rule left, rule kept, rule removed)
qed

section \<open>The cache warmer\<close>

record CacheWarmerReport =
  cw_Assets :: nat
  cw_Variants :: nat
  cw_LoadedEntries :: int
  cw_LoadedBytes :: int

record warmer_config =
  wm_Entry :: string
  wm_FallbackTarget :: string
  wm_RobotsEnable :: bool
  wm_MemoryCache :: MemoryCache

datatype warmer_error = WarmerCanceled | WarmerCatalog catalog_error | WarmerCache cache_error

definition staticRobotsAssetPath :: string where "staticRobotsAssetPath = ''robots.txt''"

definition collectWarmAssets :: "warmer_config \<Rightarrow> IndexedCatalog \<Rightarrow> Asset list" where
  "collectWarmAssets cfg cat =
     (let paths = distinct_by id ([trim_space (wm_Entry cfg), trim_space (wm_FallbackTarget cfg)] @
                                  (if wm_RobotsEnable cfg then [staticRobotsAssetPath] else []))
      in List.map_filter (\<lambda>p. if p = [] then None else FindAsset cat p) paths)"

text \<open>Whether the context is done is a function of what was copied before.\<close>

fun copyHotsetVariants ::
    "(string \<Rightarrow> time option) \<Rightarrow> (IndexedCatalog \<Rightarrow> bool) \<Rightarrow> Variant list \<Rightarrow> IndexedCatalog \<Rightarrow> warmer_error + IndexedCatalog" where
  "copyHotsetVariants stat cx [] hotset = Inr hotset"
| "copyHotsetVariants stat cx (v # vs) hotset =
     (if cx hotset then Inl WarmerCanceled
      else case UpsertVariant stat hotset (Some v) of
             Inl e \<Rightarrow> Inl (WarmerCatalog e) | Inr hotset' \<Rightarrow> copyHotsetVariants stat cx vs hotset')"

definition copyHotsetAsset ::
    "(string \<Rightarrow> time option) \<Rightarrow> (IndexedCatalog \<Rightarrow> bool) \<Rightarrow> IndexedCatalog \<times> IndexedCatalog \<Rightarrow> Asset \<Rightarrow>
     warmer_error + IndexedCatalog \<times> IndexedCatalog" where
  "copyHotsetAsset stat cx = (\<lambda>(hotset, cat) a.
     if cx hotset then Inl WarmerCanceled
     else case UpsertAsset stat hotset (Some a) of
            Inl e \<Rightarrow> Inl (WarmerCatalog e)
          | Inr hotset1 \<Rightarrow>
              (case ListVariantsView cat (a_Path a) of
                 (vs, cat') \<Rightarrow>
                   (case copyHotsetVariants stat cx vs hotset1 of Inl e \<Rightarrow> Inl e | Inr hotset2 \<Rightarrow> Inr (hotset2, cat'))))"

definition buildHotsetCatalog ::
    "(string \<Rightarrow> time option) \<Rightarrow> (IndexedCatalog \<Rightarrow> bool) \<Rightarrow> IndexedCatalog \<Rightarrow> Asset list \<Rightarrow> warmer_error + IndexedCatalog" where
  "buildHotsetCatalog stat cx cat assets =
     (case run_all (copyHotsetAsset stat cx) (NewInMemoryCatalog, cat) assets of
        Inl e \<Rightarrow> Inl e | Inr (hotset, _) \<Rightarrow> Inr hotset)"

definition buildCacheWarmerReport :: "IndexedCatalog \<Rightarrow> Asset list \<Rightarrow> CacheWarmerReport \<times> IndexedCatalog" where
  "buildCacheWarmerReport cat assets =
     (case foldl (\<lambda>(n, cat) a. case ListVariantsView cat (a_Path a) of (vs, cat') \<Rightarrow> (n + length vs, cat')) (0, cat) assets of
        (n, cat') \<Rightarrow> (\<lparr> cw_Assets = length assets, cw_Variants = n, cw_LoadedEntries = 0, cw_LoadedBytes = 0 \<rparr>, cat'))"

definition warmCacheHotset ::
    "'s body_store \<Rightarrow> AssetCache option \<Rightarrow> files \<Rightarrow> (string \<Rightarrow> time option) \<Rightarrow> (IndexedCatalog \<Rightarrow> bool) \<Rightarrow> ('s warm_state \<Rightarrow> bool) \<Rightarrow>
     warmer_config option \<Rightarrow> IndexedCatalog option \<Rightarrow> 's \<Rightarrow> (warmer_error + CacheWarmerReport) \<times> 's" where
  "warmCacheHotset st bodyCache fs stat cx warm_cx cfg cat s =
     (case (cfg, cat, bodyCache) of
        (Some cfg, Some cat, Some c) \<Rightarrow>
          if \<not> Enabled c then (Inr \<lparr> cw_Assets = 0, cw_Variants = 0, cw_LoadedEntries = 0, cw_LoadedBytes = 0 \<rparr>, s)
          else (let assets = collectWarmAssets cfg cat; (report, cat1) = buildCacheWarmerReport cat assets
                in if cw_Assets report = 0 then (Inr report, s)
                   else (case buildHotsetCatalog stat cx cat1 assets of
                           Inl e \<Rightarrow> (Inl e, s)
                         | Inr hotset \<Rightarrow>
                             (case WarmSelected st c fs warm_cx hotset s of
                                (Inl e, s') \<Rightarrow> (Inl (WarmerCache e), s')
                              | (Inr stats, s') \<Rightarrow>
                                  (Inr (report\<lparr>cw_LoadedEntries := ws_Entries stats, cw_LoadedBytes := ws_Bytes stats\<rparr>), s'))))
      | _ \<Rightarrow> (Inr \<lparr> cw_Assets = 0, cw_Variants = 0, cw_LoadedEntries = 0, cw_LoadedBytes = 0 \<rparr>, s))"

definition cacheWarmerInterval :: "warmer_config option \<Rightarrow> duration" where
  "cacheWarmerInterval cfg =
     (case cfg of
        None \<Rightarrow> 2 * minute
      | Some c \<Rightarrow>
          (let ttl = ParsedTTL (wm_MemoryCache c) div 2
           in if ttl < minute then minute else if ttl > 15 * minute then 15 * minute else ttl))"

lemma cacheWarmerInterval_bounds: "minute \<le> cacheWarmerInterval cfg" "cacheWarmerInterval cfg \<le> 15 * minute"
  by (auto simp: cacheWarmerInterval_def Let_def minute_def second_def split: option.split)

lemma copyHotsetVariants_ok:
  "catalog_ok h \<Longrightarrow> \<forall>v\<in>set vs. v_AssetPath v \<in> dom (fst (absc h)) \<Longrightarrow>
   case copyHotsetVariants stat cx vs h of Inl e \<Rightarrow> e = WarmerCanceled | Inr h' \<Rightarrow> catalog_ok h' \<and> fst (absc h') = fst (absc h)"
proof (induction vs arbitrary: h)
  case (Cons v vs)
  obtain h1 where h1: "UpsertVariant stat h (Some v) = Inr h1" "catalog_ok h1" "fst (absc h1) = fst (absc h)"
    using upsert_variant_ok [of h v stat] Cons.prems by auto
  with Cons.IH [OF h1(2)] Cons.prems(2) show ?case by (simp split: sum.splits)
qed simp

lemma copyHotsetAsset_ok:
  assumes "catalog_ok h" "catalog_ok cat"
  shows "case copyHotsetAsset stat cx (h, cat) a of
    Inl e \<Rightarrow> e = WarmerCanceled
  | Inr (h', cat') \<Rightarrow> catalog_ok h' \<and> catalog_ok cat' \<and> dom (fst (absc h')) = insert (a_Path a) (dom (fst (absc h)))"
proof -
  obtain h1 where h1: "UpsertAsset stat h (Some a) = Inr h1" "catalog_ok h1" "dom (fst (absc h1)) = insert (a_Path a) (dom (fst (absc h)))"
    using upsert_asset_ok [OF assms(1)] by blast
  obtain vs cat' where l: "ListVariantsView cat (a_Path a) = (vs, cat')" by fastforce
  note lv = listed_variants [OF assms(2) l]
  have "\<forall>v\<in>set vs. v_AssetPath v \<in> dom (fst (absc h1))" using lv(3) h1(3) by simp
  then have v: "case copyHotsetVariants stat cx vs h1 of
      Inl e \<Rightarrow> e = WarmerCanceled | Inr h' \<Rightarrow> catalog_ok h' \<and> fst (absc h') = fst (absc h1)"
    by (rule copyHotsetVariants_ok [OF h1(2)])
  show ?thesis
  proof (cases "copyHotsetVariants stat cx vs h1")
    case (Inl e)
    with v show ?thesis by (simp add: copyHotsetAsset_def l h1(1))
  next
    case (Inr h2)
    with v have "catalog_ok h2" "dom (fst (absc h2)) = insert (a_Path a) (dom (fst (absc h)))" using h1(3) by simp_all
    with Inr lv(1) show ?thesis by (simp add: copyHotsetAsset_def l h1(1))
  qed
qed

text \<open>The catalog of what is to be warmed is built from the catalog without any error but a cancellation: it holds the chosen
  assets and variants of them only.\<close>

lemma buildHotsetCatalog_complete:
  assumes "catalog_ok cat"
  shows "case buildHotsetCatalog stat cx cat assets of
    Inl e \<Rightarrow> e = WarmerCanceled
  | Inr h \<Rightarrow> catalog_ok h \<and> dom (fst (absc h)) = a_Path ` set assets \<and> r_AssetPath ` recs (variants h) \<subseteq> a_Path ` set assets"
proof -
  have all: "case run_all (copyHotsetAsset stat cx) (h, cat) assets of
      Inl e \<Rightarrow> e = WarmerCanceled
    | Inr (h', _) \<Rightarrow> catalog_ok h' \<and> dom (fst (absc h')) = dom (fst (absc h)) \<union> a_Path ` set assets"
    if "catalog_ok h" "catalog_ok cat" for h cat
    using that
  proof (induction assets arbitrary: h cat)
    case (Cons a assets)
    show ?case
    proof (cases "copyHotsetAsset stat cx (h, cat) a")
      case (Inl e)
      with copyHotsetAsset_ok [OF Cons.prems, where stat = stat and cx = cx and a = a] show ?thesis by simp
    next
      case (Inr x)
      obtain h1 cat1 where x: "x = (h1, cat1)" by fastforce
      have ok: "catalog_ok h1" "catalog_ok cat1" "dom (fst (absc h1)) = insert (a_Path a) (dom (fst (absc h)))"
        using copyHotsetAsset_ok [OF Cons.prems, where stat = stat and cx = cx and a = a] Inr x by simp_all
      from Cons.IH [OF ok(1,2)] show ?thesis using ok(3) by (auto simp add: Inr x split: sum.splits)
    qed
  qed simp
  have new: "catalog_ok NewInMemoryCatalog" "dom (fst (absc NewInMemoryCatalog)) = {}"
    using run_catalog_ok [of stat "[]"] by (simp_all add: run_catalog_def abs_run_def)
  show ?thesis
    using all [OF new(1) assms] unfolding new(2) Un_empty_left
    by (auto simp: buildHotsetCatalog_def catalog_ok_def absc_def split: sum.splits prod.splits)
qed


end
