(* ===== verification/Spec2Isabelle.thy ===== *)
theory Spec2Isabelle
  imports RequestPath AcceptImage ResolverSpec CachePolicy PipelineQueue Artifact Cleanup AssetRoute PreparedRebuild ImageEngine SourceRescan SpackBundle HintService FileSources SourceWatch AssetCache TaskMaintenance
begin

text \<open>
  SPACK serves the static files of a web application and the variants of them (compressed bodies, resized and
  re-encoded images) that it makes while it runs or that a bundle brings along.  This library models the program's
  own logic in HOL and proves what makes it correct.  Paths below are relative to the root of the repository.

  \<^bold>\<open>How the parts interact.\<close>  A request's path is cleaned (\<open>internal/requestpath\<close>); its headers are read into lists of
  acceptable codings and image formats (\<open>internal/resolver/accept*.go\<close>); the resolver looks the path up in the
  catalog (\<open>internal/catalog\<close>) and picks a stored variant; the server delivers the file, from a snapshot of prepared
  responses or by the resolver, with cache headers and ranges (\<open>internal/server\<close>, \<open>internal/cachepolicy\<close>).  A variant
  that is missing is asked for at the pipeline (\<open>internal/pipeline\<close>), whose workers run its stages, write through the
  artifact store (\<open>internal/artifact\<close>) and add the variant to the catalog.  The cleanup removes artifacts again.  The
  catalog is filled by a scan of the sources (\<open>internal/sourcecatalog\<close>) and kept current by the rescan task
  (\<open>internal/task\<close>), which the watcher of the local source (\<open>internal/source\<close>) wakes up.  Bodies are kept in memory by the
  asset cache (\<open>internal/assetcache\<close>).  A bundle (\<open>internal/spackbundle\<close>) packs the files and variants into one archive.

  \<^bold>\<open>Theories and code.\<close>
  \<^item> \<open>Prelude\<close>: the collections of rewrite rules, loops with early exit, facts on lists, options and maps.
  \<^item> \<open>GoStrings\<close>, \<open>GoPath\<close>: what the code uses of Go's \<open>strings\<close>, \<open>strconv\<close>, \<open>net/url\<close>, \<open>path\<close> and \<open>path/filepath\<close>.
  \<^item> \<open>RequestPath\<close>: \<open>internal/requestpath\<close>.  Cleaned paths have no parent segment (\<open>Clean_value_safe\<close>), the fast
    implementation equals the slow one, mounted paths stay below their mount.
  \<^item> \<open>Normalize\<close>, \<open>Media\<close>: \<open>pkg/normalize.go\<close> with \<open>ParseFloat\<close> over exact rationals, \<open>pkg/mime.go\<close>, \<open>pkg/path_policy.go\<close>,
    \<open>internal/media\<close>, \<open>internal/contentcoding/spec\<close>.
  \<^item> \<open>Accept\<close>, \<open>AcceptImage\<close>: the negotiation, with the bit masks as \<open>8 word\<close>.  The result has exactly the names the header
    accepts, in the order of their qualities.
  \<^item> \<open>Metadata\<close>, \<open>VariantIndex\<close>, \<open>Catalog\<close>: \<open>internal/catalog\<close>.  The indexes and caches are coherent in every reachable
    state, the catalog implements a map of assets with a set of variants (\<open>catalog_refines_spec\<close>).
  \<^item> \<open>Resolver\<close>, \<open>ResolverSpec\<close>: \<open>internal/resolver\<close>.  What a resolution returns is stored, usable and best.
  \<^item> \<open>Config\<close>, \<open>CachePolicy\<close>: \<open>internal/config\<close>, \<open>internal/validation\<close>, \<open>internal/cachepolicy\<close>.
  \<^item> \<open>PipelineKeys\<close>, \<open>PipelineQueue\<close>, \<open>Stages\<close>, \<open>ImageEngine\<close>, \<open>Cleanup\<close>: \<open>internal/pipeline\<close> and \<open>internal/contentcoding\<close>.
    The queue is a step relation over goroutines; the stages run over a state with the store, the catalog and the
    events; the image engine tracks what libvips holds; the cleanup is a function of the scan and the failing calls.
  \<^item> \<open>Artifact\<close>: \<open>internal/artifact\<close>.  Paths stay below the root and a write is all or nothing.
  \<^item> \<open>ServerHeaders\<close>, \<open>Prepared\<close>, \<open>AssetRoute\<close>, \<open>PreparedRebuild\<close>, \<open>HintService\<close>: \<open>internal/server\<close>.  The prepared path selects
    and delivers what the resolver path does; the rebuild of the snapshot is a step relation over goroutines.
  \<^item> \<open>SourceCatalog\<close>, \<open>SourceRescan\<close>: \<open>internal/sourcecatalog\<close>, \<open>internal/mapx\<close>, \<open>internal/task/source_rescan*.go\<close>.  A full
    rescan leaves the catalog as a fresh scan would make it, and every rescan keeps it coherent.
  \<^item> \<open>SpackBundle\<close>: \<open>internal/spackbundle\<close>.  What is written can be read back, extraction stays below its directory and
    within its budgets.
  \<^item> \<open>LocalSource\<close>: \<open>internal/source\<close>, over an operating system whose answers may change at every call.  A file that is
    opened was reached without a link and below the root that the source was made for (\<open>OpenFile_bound\<close>), no error path
    leaks a handle, a bundle source has exactly the files of its index.
  \<^item> \<open>FileSources\<close>: the list of sources in \<open>internal/server/local_file_source*.go\<close>.  Whatever is merged, refreshed and cleaned
    up, the handles that are open are those of the sources that are owned (\<open>server_sources_owned\<close>).
  \<^item> \<open>SourceWatch\<close>: \<open>internal/source/localfs_watch.go\<close> and \<open>internal/task/source_rescan_watch.go\<close> as a step relation over the
    emitter, the channel and the debounce timer.  Every change is handed to a rescan or covered by a full one.
  \<^item> \<open>AssetCache\<close>: \<open>internal/assetcache\<close> over a body store that may drop and delay what it is given.  While files do not
    change behind its back, the cache answers what reading the file would (\<open>cache_transparent\<close>).

  \<^bold>\<open>Interfaces.\<close>  The resolver uses the catalog through the locale \<open>catalog_reads\<close> (\<open>ResolverSpec\<close>), interpreted on every
  reachable catalog; the pipeline uses its stages through \<open>publishing_stage\<close> (\<open>Stages\<close>), interpreted on the compression
  and the image stage; the server opens files through \<open>file_opener\<close> (\<open>FileSources\<close>), interpreted on the local source.

  \<^bold>\<open>Conventions.\<close>  A Go string is a list of bytes; \<open>int\<close> and durations are unbounded integers where the text says why that
  is exact, words or explicit bounds where the width matters (bit masks, sums of image memory, bundle budgets, scaled
  times to live).  An error is the left of a sum or \<open>Some\<close> error of an option.  Loops are structural recursions, except the
  retries of \<open>sendPreparedAsset\<close>, whose fuel is the number of stored variants plus one: each retry deletes one, and
  \<open>sendPreparedAsset_terminates\<close> shows that this is enough, and the climb to a common directory, whose fuel is the length
  of the path: each turn drops a segment.

  \<^bold>\<open>Parameters.\<close>  Code outside the repository is an argument of the definitions that use it: \<open>os.Stat\<close> and the other system
  calls with their failures, clocks, SHA-256, JSON, the compressors and decoders, libvips, the HTML tokenizer, what
  \<open>url.Parse\<close> rejects, the Unicode tables beyond ASCII, the range parser of the web framework, the tar and zstd formats
  (a bundle is its sequence of entries), iteration orders of maps, the pops of the priority queue, the
  directory walker and notifications of the file system, and the memory store of the asset cache.  The hypotheses
  on them are definitions with names (\<open>framework_ranges\<close>, \<open>pops_oldest_first\<close>, \<open>cache_laws\<close> and others) and have witnesses.

  \<^bold>\<open>Not modelled.\<close>  The command line programs (\<open>cmd\<close>, \<open>internal/commands\<close>, \<open>internal/cmdkit\<close>), the build, logging, metrics and
  traces, dependency injection (\<open>module.go\<close> files) and the benchmarks have no logic of their own or only pass values
  on to libraries.  The start and stop of the server (\<open>internal/runtime\<close>), the compiler program (\<open>internal/compiler\<close>) and the
  scheduler compose what is modelled with libraries and the operating system.
\<close>

end
